(* ===== verification/Prelude.thy ===== *)
theory Prelude
  imports Main "HOL-Library.Word" "HOL-Library.Monad_Syntax"
begin

text \<open>
  Shared vocabulary of the development: the machine integers of the target
  (a little-endian 32 bit RISC-V core), bounds-checked reads and writes of byte
  buffers, the little-endian layout of 16 and 32 bit fields, and the C string
  functions of \<^verbatim>\<open>rt-thread/src/kservice.c\<close>.

  A C function that can leave the defined behaviour of C (a read or write outside
  a buffer, a call through a null function pointer, a division by zero, a failed
  \<^verbatim>\<open>RT_ASSERT\<close>) is modelled in the option monad: \<open>None\<close> is such a fault, and
  \<open>do\<close> blocks thread the state. Error \<^emph>\<open>codes\<close> of the source are ordinary results.
\<close>

unbundle bit_operations_syntax

type_synonym u8 = "8 word"
type_synonym u16 = "16 word"
type_synonym u32 = "32 word"

named_theorems mem_simps \<open>equations for reads, writes and lengths of byte buffers\<close>
named_theorems frame_simps \<open>fields and histories that an operation leaves unchanged\<close>

section \<open>Option monad\<close>

lemma bind_Some_iff [simp]:
  "Option.bind m f = Some y \<longleftrightarrow> (\<exists>x. m = Some x \<and> f x = Some y)"
  by (cases m) auto

lemma bind_None_iff:
  "Option.bind m f = None \<longleftrightarrow> m = None \<or> (\<exists>x. m = Some x \<and> f x = None)"
  by (cases m) auto

text \<open>For evaluation: the second step of a block is looked at once the first has a value.\<close>

lemma bind_weak: "x = y \<Longrightarrow> Option.bind x f = Option.bind y f"
  by simp

lemma replicate_numeral: "replicate (numeral k) x = x # replicate (pred_numeral k) x"
  by (simp add: numeral_eq_Suc)

definition guard :: "bool \<Rightarrow> unit option" where
  "guard b = (if b then Some () else None)"

lemma guard_simps [simp]:
  "guard True = Some ()"
  "guard False = None"
  "guard b = Some u \<longleftrightarrow> b"
  "guard b = None \<longleftrightarrow> \<not> b"
  by (auto simp: guard_def)

section \<open>Byte buffers\<close>

definition rd :: "'a list \<Rightarrow> nat \<Rightarrow> 'a option" where
  "rd m i = (if i < length m then Some (m ! i) else None)"

definition rdn :: "'a list \<Rightarrow> nat \<Rightarrow> nat \<Rightarrow> 'a list option" where
  "rdn m i n = (if i + n \<le> length m then Some (take n (drop i m)) else None)"

definition wr :: "'a list \<Rightarrow> nat \<Rightarrow> 'a list \<Rightarrow> 'a list option" where
  "wr m i bs = (if i + length bs \<le> length m
                then Some (take i m @ bs @ drop (i + length bs) m) else None)"

lemma rd_Some [mem_simps]: "rd m i = Some x \<longleftrightarrow> i < length m \<and> x = m ! i"
  by (auto simp: rd_def)

lemma rd_None [mem_simps]: "rd m i = None \<longleftrightarrow> length m \<le> i"
  by (auto simp: rd_def)

lemma rdn_Some [mem_simps]:
  "rdn m i n = Some bs \<longleftrightarrow> i + n \<le> length m \<and> bs = take n (drop i m)"
  by (auto simp: rdn_def)

lemma rdn_None [mem_simps]: "rdn m i n = None \<longleftrightarrow> length m < i + n"
  by (auto simp: rdn_def)

lemma wr_Some [mem_simps]:
  "wr m i bs = Some m' \<longleftrightarrow>
     i + length bs \<le> length m \<and> m' = take i m @ bs @ drop (i + length bs) m"
  by (auto simp: wr_def)

lemma length_wr: "wr m i bs = Some m' \<Longrightarrow> length m' = length m"
  by (auto simp: mem_simps)

lemma rdn_append_left:
  assumes "rdn m i n = Some bs"
  shows "rdn (m @ r) i n = Some bs"
  using assms by (auto simp: mem_simps)

lemma rd_append_left: "i < length m \<Longrightarrow> rd (m @ r) i = rd m i"
  by (auto simp: rd_def nth_append)

lemma rd_append_right: "length m = i \<Longrightarrow> rd (m @ b # r) i = Some b"
  by (auto simp: rd_def)

section \<open>Little-endian fields\<close>

definition put16 :: "u16 \<Rightarrow> u8 list" where
  "put16 w = [ucast w, ucast (drop_bit 8 w)]"

definition put32 :: "u32 \<Rightarrow> u8 list" where
  "put32 w = [ucast w, ucast (drop_bit 8 w), ucast (drop_bit 16 w), ucast (drop_bit 24 w)]"

fun get16 :: "u8 list \<Rightarrow> u16 option" where
  "get16 [a, b] = Some (ucast a OR push_bit 8 (ucast b))"
| "get16 _ = None"

fun get32 :: "u8 list \<Rightarrow> u32 option" where
  "get32 [a, b, c, d] =
     Some (ucast a OR push_bit 8 (ucast b) OR push_bit 16 (ucast c) OR push_bit 24 (ucast d))"
| "get32 _ = None"

definition rd16 :: "u8 list \<Rightarrow> nat \<Rightarrow> u16 option" where
  "rd16 m i = do { bs \<leftarrow> rdn m i 2; get16 bs }"

definition rd32 :: "u8 list \<Rightarrow> nat \<Rightarrow> u32 option" where
  "rd32 m i = do { bs \<leftarrow> rdn m i 4; get32 bs }"

lemma length_put16 [simp]: "length (put16 w) = 2"
  by (simp add: put16_def)

lemma length_put32 [simp]: "length (put32 w) = 4"
  by (simp add: put32_def)

lemma get16_put16 [simp]: "get16 (put16 w) = Some w"
  by (auto simp: put16_def bit_eq_iff bit_simps)

lemma get32_put32 [simp]: "get32 (put32 w) = Some w"
  by (auto simp: put32_def bit_eq_iff bit_simps) (case_tac "24 \<le> n"; simp)

lemma rdn_at_append [mem_simps]:
  "length p = i \<Longrightarrow> rdn (p @ b @ r) i (length b) = Some b"
  by (simp add: rdn_def)

lemma rd16_at_append [mem_simps]: "length p = i \<Longrightarrow> rd16 (p @ put16 w @ r) i = Some w"
  using rdn_at_append[of p i "put16 w" r] by (simp add: rd16_def)

lemma rd32_at_append [mem_simps]: "length p = i \<Longrightarrow> rd32 (p @ put32 w @ r) i = Some w"
  using rdn_at_append[of p i "put32 w" r] by (simp add: rd32_def)

lemma length4_cases:
  assumes "length bs = 4"
  obtains a b c d where "bs = [a, b, c, d]"
  using assms by (auto simp: numeral_eq_Suc length_Suc_conv)

lemma length2_cases:
  assumes "length bs = 2"
  obtains a b where "bs = [a, b]"
  using assms by (auto simp: numeral_eq_Suc length_Suc_conv)

lemma get32_Some_ex: "length bs = 4 \<Longrightarrow> \<exists>w. get32 bs = Some w"
  by (erule length4_cases) simp

lemma get16_Some_ex: "length bs = 2 \<Longrightarrow> \<exists>w. get16 bs = Some w"
  by (erule length2_cases) simp

lemma rd32_None_iff: "rd32 m i = None \<longleftrightarrow> length m < i + 4"
  using get32_Some_ex[of "take 4 (drop i m)"] by (auto simp: rd32_def rdn_def)

lemma rd16_None_iff: "rd16 m i = None \<longleftrightarrow> length m < i + 2"
  using get16_Some_ex[of "take 2 (drop i m)"] by (auto simp: rd16_def rdn_def)

lemma rd16_Some_ex: "(\<exists>w. rd16 m i = Some w) \<longleftrightarrow> i + 2 \<le> length m"
  using rd16_None_iff[of m i] by (cases "rd16 m i") auto

lemma rd32_Some_ex: "(\<exists>w. rd32 m i = Some w) \<longleftrightarrow> i + 4 \<le> length m"
  using rd32_None_iff[of m i] by (cases "rd32 m i") auto

section \<open>C strings\<close>

text \<open>\<^verbatim>\<open>rt_strlen\<close>: a buffer without a terminator is read past its end.\<close>

fun rt_strlen :: "u8 list \<Rightarrow> nat option" where
  "rt_strlen [] = None"
| "rt_strlen (c # cs) = (if c = 0 then Some 0 else map_option Suc (rt_strlen cs))"

text \<open>
  \<^verbatim>\<open>rt_strncpy\<close>: the bytes it writes to the destination. The copy stops at the
  source's terminator and pads the rest of the \<open>n\<close> bytes with zeros.
\<close>

fun strncpy_bytes :: "u8 list \<Rightarrow> nat \<Rightarrow> u8 list option" where
  "strncpy_bytes _ 0 = Some []"
| "strncpy_bytes [] (Suc n) = None"
| "strncpy_bytes (c # cs) (Suc n) =
     (if c = 0 then Some (0 # replicate n 0) else map_option ((#) c) (strncpy_bytes cs n))"

definition rt_strncpy :: "u8 list \<Rightarrow> nat \<Rightarrow> u8 list \<Rightarrow> nat \<Rightarrow> u8 list option" where
  "rt_strncpy dst off src n = do { bs \<leftarrow> strncpy_bytes src n; wr dst off bs }"

text \<open>\<^verbatim>\<open>rt_strncmp\<close> and \<^verbatim>\<open>rt_memcmp\<close>, as the tests \<^verbatim>\<open>== 0\<close> that the code makes.\<close>

fun rt_strncmp_eq :: "u8 list \<Rightarrow> u8 list \<Rightarrow> nat \<Rightarrow> bool option" where
  "rt_strncmp_eq _ _ 0 = Some True"
| "rt_strncmp_eq (a # as) (b # bs) (Suc n) =
     (if a \<noteq> b then Some False
      else if a = 0 then Some True
      else rt_strncmp_eq as bs n)"
| "rt_strncmp_eq _ _ (Suc n) = None"

fun rt_memcmp_eq :: "u8 list \<Rightarrow> u8 list \<Rightarrow> nat \<Rightarrow> bool option" where
  "rt_memcmp_eq _ _ 0 = Some True"
| "rt_memcmp_eq (a # as) (b # bs) (Suc n) =
     (if a \<noteq> b then Some False else rt_memcmp_eq as bs n)"
| "rt_memcmp_eq _ _ (Suc n) = None"

definition cstr :: "string \<Rightarrow> u8 list" where
  "cstr s = map (\<lambda>c. word_of_nat (of_char c)) s @ [0]"

lemma strncpy_bytes_length: "strncpy_bytes src n = Some bs \<Longrightarrow> length bs = n"
  by (induction src n arbitrary: bs rule: strncpy_bytes.induct) (auto split: if_splits)

lemma strlen_bound: "rt_strlen m = Some n \<Longrightarrow> n < length m \<and> m ! n = 0"
  by (induction m arbitrary: n) (auto split: if_splits)

lemma strlen_no_zero: "rt_strlen m = Some n \<Longrightarrow> i < n \<Longrightarrow> m ! i \<noteq> 0"
proof (induction m arbitrary: n i)
  case (Cons c cs)
  then show ?case by (cases i) (auto split: if_splits)
qed simp

lemma strncpy_strlen: "rt_strlen m = Some n \<Longrightarrow> strncpy_bytes m n = Some (take n m)"
  by (induction m arbitrary: n) (auto split: if_splits)

lemma memcmp_eq_iff:
  "n \<le> length as \<Longrightarrow> n \<le> length bs \<Longrightarrow>
     rt_memcmp_eq as bs n = Some (take n as = take n bs)"
  by (induction as bs n rule: rt_memcmp_eq.induct) auto

end
