(* ===== verification/Platform.thy ===== *)
theory Platform
  imports Prelude
begin

text \<open>
  The platform under the program: the WIoTa protocol library (shipped as the binaries
  \<^verbatim>\<open>PS/lib/*.a\<close>, declared in \<^verbatim>\<open>uc_wiota_api.h\<close> and \<^verbatim>\<open>uc_wiota_static.h\<close>), the
  services of the RTOS whose outcome the program cannot control (heap, threads, timers,
  semaphores, time) and memory-mapped hardware.

  None of this is code the model can translate, so it is a parameter: an \<open>env\<close> holds one
  answer function per service, and an answer may depend on the whole history of calls made
  so far. The history is the only state of the platform. Every call with an effect, and
  every query whose answer may change between two calls, is appended to it, so an arbitrary
  \<open>env\<close> covers every behaviour the services can show to this program.
\<close>

section \<open>Types of the library interface\<close>

record gw_info =
  gwi_gw_id :: u32
  gwi_pof :: u32
  gwi_ts_fn :: u16
  gwi_resend_times :: u8
  gwi_ul_mcs :: u8

record radio_info =
  ri_rssi :: u8
  ri_snr :: u8
  ri_cur_power :: u8
  ri_min_power :: u8
  ri_max_power :: u8
  ri_cur_mcs :: u8
  ri_max_mcs :: u8

datatype wiota_status = UC_STATUS_NULL | UC_STATUS_SYNC | UC_STATUS_SYNC_LOST | UC_STATUS_ERROR

datatype op_result = UC_OP_SUCC | UC_OP_TIMEOUT | UC_OP_FAIL

datatype awakened_cause =
  AWAKENED_CAUSE_HARD_RESET | AWAKENED_CAUSE_SLEEP | AWAKENED_CAUSE_PAGING
| AWAKENED_CAUSE_GATING | AWAKENED_CAUSE_FORCED_INTERNAL | AWAKENED_CAUSE_OTHERS

text \<open>Signed characters are bytes that are compared as \<open>sint\<close>.\<close>

record sub_system_config =
  cfg_ap_tx_power :: u8
  cfg_id_len :: u8
  cfg_pp :: u8
  cfg_symbol_length :: u8
  cfg_dlul_ratio :: u8
  cfg_btvalue :: u8
  cfg_group_number :: u8
  cfg_spectrum_idx :: u8
  cfg_old_subsys_v :: u8
  cfg_bitscb :: u8
  cfg_freq_idx :: u8
  cfg_reserved :: u8
  cfg_subsystemid :: u32
  cfg_freq_list :: "u8 list"
  cfg_subsystemid_list :: "u32 list"

record uc_freq_scan_result =
  sr_freq_idx :: u8
  sr_snr :: u8
  sr_rssi :: u8
  sr_is_synced :: u8
  sr_sub_sys_id :: u32

record uc_lpm_tx_cfg =
  tx_freq :: u8
  tx_spectrum_idx :: u8
  tx_bandwidth :: u8
  tx_symbol_length :: u8
  tx_awaken_id :: u16
  tx_mode :: u8
  tx_send_time :: u32

record uc_lpm_rx_cfg =
  rx_freq :: u8
  rx_spectrum_idx :: u8
  rx_bandwidth :: u8
  rx_symbol_length :: u8
  rx_lpm_nlen :: u8
  rx_lpm_utimes :: u8
  rx_threshold :: u8
  rx_extra_flag :: u8
  rx_awaken_id :: u16
  rx_detect_period :: u32
  rx_extra_period :: u32
  rx_mode :: u8
  rx_period_multiple :: u8
  rx_awaken_id_another :: u16

text \<open>An allocation is named by the length of the history at the time it was made.\<close>

type_synonym ptr = nat

datatype query =
  Q_tick | Q_frame_num | Q_frame_valid | Q_rf_cnt | Q_frame_head | Q_state | Q_rand | Q_reg
| Q_stats | Q_allow_run

datatype recv_callback = CB_none | CB_gateway_recv | CB_wiota_recv

datatype heap_event = Malloc ptr nat | Malloc_fail nat | Free ptr

datatype flash_event =
  F_unlock_all | F_lock_all | F_read nat nat | F_write nat "u8 list" | F_erase_4K nat

datatype wiota_event =
  W_suspend_connect | W_recover_connect | W_exit
| W_send_data "u8 list" u16 u16
| W_set_userid u32 u8
| W_set_gateway_info gw_info
| W_set_active_time u32
| W_hard_switch_to_active
| W_save_static_info
| W_set_frame_num u32
| W_set_sm_resend_times u8
| W_set_data_rate u8 u8
| W_init | W_run | W_connect
| W_set_freq_info u8
| W_set_system_config sub_system_config
| W_scan_freq "u8 list" u32
| W_wait_sync int u8
| W_set_cur_power u8
| W_reset_stats
| W_scan_freq_mode "u8 list" u8 u32
| W_recv_data u16
| W_set_paging_tx_cfg uc_lpm_tx_cfg
| W_set_paging_rx_cfg uc_lpm_rx_cfg

datatype wiota_setup_event =
  S_set_crc u16
| S_set_is_report_fn u8
| S_register_recv_cb recv_callback
| S_back_to_idle
| S_connect_quick u16
| S_store_pin u8 u8
| S_wake_out u8 u8
| S_sync_paging_enter u8 u32 u32 u32

datatype boot_event =
  B_set_download_file_size_no_save u32
| B_set_uboot_mode_no_save u8
| B_set_uboot_log u8 u8 u8
| B_set_uboot_wait_sec u8
| B_reset_8288

datatype os_event =
  O_thread_delay nat | O_thread_mdelay nat | O_irq_disable | O_irq_enable
| O_srand | O_reg_write nat u32 | O_thread_create | O_thread_startup | O_thread_suspend
| O_gateway_task | O_pin_mode u8 | O_pin_write u8 bool

datatype ipc_event =
  I_sem_create | I_sem_take nat | I_sem_release | I_sem_delete
| I_timer_create | I_timer_control u32 | I_timer_start | I_timer_stop | I_timer_delete
| I_mq_init | I_mq_detach | I_mq_wait | I_mutex_create

datatype cb_event =
  U_user_recv nat "u8 list" u8
| U_state_report nat nat
| U_ex_mcu nat u32 u32 "u8 list"
| U_rtc nat u32 "u8 list"

text \<open>
  The setters and small operations of the library that only the AT commands of the radio call are one
  event, with the name and the values of the function. Pointers to results are not among the values.
\<close>

datatype lib_call = Lib string "int list"

text \<open>
  A line printed by the AT server (its text up to the values, and the values), bytes sent as they
  are, and a character read from the host.
\<close>

datatype at_event = At_println string "int list" | At_send "u8 list" | At_get_char

datatype call =
  C_query query | C_heap heap_event | C_flash flash_event | C_wiota wiota_event
| C_setup wiota_setup_event | C_boot boot_event | C_os os_event | C_ipc ipc_event | C_cb cb_event
| C_at at_event | C_lib lib_call

abbreviation C_malloc :: "ptr \<Rightarrow> nat \<Rightarrow> call" where "C_malloc p n \<equiv> C_heap (Malloc p n)"
abbreviation C_malloc_fail :: "nat \<Rightarrow> call" where "C_malloc_fail n \<equiv> C_heap (Malloc_fail n)"
abbreviation C_free :: "ptr \<Rightarrow> call" where "C_free p \<equiv> C_heap (Free p)"

text \<open>
  A downlink that the radio thread hands to the application while a thread of the program is
  blocked: \<^verbatim>\<open>uc_recv_back_t\<close> with its result, its type and its data (\<open>None\<close> for a null
  pointer; the library allocates the data and gives it away, \<^verbatim>\<open>data_len\<close> is its length).
\<close>

type_synonym arrival = "op_result \<times> u8 \<times> u8 list option"

record env =
  e_arrivals :: "call list \<Rightarrow> arrival list"
  e_malloc :: "call list \<Rightarrow> nat \<Rightarrow> bool"
  e_flash_read :: "call list \<Rightarrow> nat \<Rightarrow> nat \<Rightarrow> u8 list"
  e_frame_len :: "call list \<Rightarrow> u32"
  e_subframe_len :: "call list \<Rightarrow> u32"
  e_frame_num :: "call list \<Rightarrow> u32"
  e_frame_valid :: "call list \<Rightarrow> bool"
  e_rf_cnt :: "call list \<Rightarrow> u32"
  e_frame_head :: "call list \<Rightarrow> bool \<times> u32"
  e_state :: "call list \<Rightarrow> wiota_status"
  e_send_data :: "call list \<Rightarrow> op_result"
  e_userid :: "call list \<Rightarrow> u32"
  e_dev_serial :: "call list \<Rightarrow> u8 list"
  e_gateway_info :: "call list \<Rightarrow> gw_info"
  e_awakened_cause :: "call list \<Rightarrow> awakened_cause"
  e_version :: "call list \<Rightarrow> u8 list"
  e_hardware_ver :: "call list \<Rightarrow> u8 list"
  e_partition_size :: "call list \<Rightarrow> u32 \<times> u32 \<times> u32"
  e_uboot_log :: "call list \<Rightarrow> u8 \<times> u8 \<times> u8"
  e_active_time :: "call list \<Rightarrow> u32"
  e_auto_connect :: "call list \<Rightarrow> bool"
  e_radio_info :: "call list \<Rightarrow> radio_info"
  e_freq_info :: "call list \<Rightarrow> u8"
  e_sm_stats :: "call list \<Rightarrow> u32 \<times> u32"
  e_tick :: "call list \<Rightarrow> u32"
  e_rand :: "call list \<Rightarrow> nat"
  e_reg :: "call list \<Rightarrow> nat \<Rightarrow> u32"
  e_sem_create :: "call list \<Rightarrow> bool"
  e_sem_take :: "call list \<Rightarrow> bool"
  e_timer_create :: "call list \<Rightarrow> bool"
  e_thread_create :: "call list \<Rightarrow> bool"
  e_system_config :: "call list \<Rightarrow> sub_system_config"
  e_freq_list :: "call list \<Rightarrow> u8 list"
  e_scan_freq :: "call list \<Rightarrow> op_result \<times> uc_freq_scan_result list"
  e_wait_sync :: "call list \<Rightarrow> int"
  e_set_freq_ok :: "call list \<Rightarrow> bool"
  e_module_id :: "call list \<Rightarrow> u8 list"
  e_allow_run :: "call list \<Rightarrow> bool"
  e_mutex_create :: "call list \<Rightarrow> bool"
  e_get_char :: "call list \<Rightarrow> u8 option"
  e_store_pin :: "call list \<Rightarrow> u8 \<times> u8"
  e_wake_out :: "call list \<Rightarrow> u8 \<times> u8"
  e_timer_active :: "call list \<Rightarrow> bool"
  e_recv_data :: "call list \<Rightarrow> op_result \<times> u8 \<times> u8 list"
  e_paging_tx_cfg :: "call list \<Rightarrow> uc_lpm_tx_cfg"
  e_paging_rx_cfg :: "call list \<Rightarrow> uc_lpm_rx_cfg"
  e_lib :: "call list \<Rightarrow> string \<Rightarrow> int"
  e_lib_info :: "call list \<Rightarrow> string \<Rightarrow> int list"

section \<open>Histories\<close>

record sys =
  hist :: "call list"

definition emit :: "call \<Rightarrow> 'a sys_scheme \<Rightarrow> 'a sys_scheme" where
  "emit c s = s\<lparr>hist := c # hist s\<rparr>"

definition ask :: "query \<Rightarrow> (call list \<Rightarrow> 'b) \<Rightarrow> 'a sys_scheme \<Rightarrow> 'b \<times> 'a sys_scheme" where
  "ask q f s = (f (hist s), emit (C_query q) s)"

lemma hist_emit [simp]: "hist (emit c s) = c # hist s"
  by (simp add: emit_def)

lemma ask_simps [simp]:
  "fst (ask q f s) = f (hist s)"
  "snd (ask q f s) = emit (C_query q) s"
  by (simp_all add: ask_def)

section \<open>The heap\<close>

text \<open>
  \<^verbatim>\<open>rt_malloc\<close> either returns a fresh block or fails; \<^verbatim>\<open>rt_free\<close> of a null pointer does
  nothing. \<open>live\<close> is the list of blocks that were allocated and not yet freed, newest first.
\<close>

definition rt_malloc :: "env \<Rightarrow> nat \<Rightarrow> 'a sys_scheme \<Rightarrow> ptr option \<times> 'a sys_scheme" where
  "rt_malloc e n s =
     (if e_malloc e (hist s) n
      then (Some (length (hist s)), emit (C_malloc (length (hist s)) n) s)
      else (None, emit (C_malloc_fail n) s))"

definition rt_free :: "ptr option \<Rightarrow> 'a sys_scheme \<Rightarrow> 'a sys_scheme" where
  "rt_free p s = (case p of None \<Rightarrow> s | Some a \<Rightarrow> emit (C_free a) s)"

fun live :: "call list \<Rightarrow> ptr list" where
  "live [] = []"
| "live (C_malloc p n # h) = p # live h"
| "live (C_free p # h) = removeAll p (live h)"
| "live (_ # h) = live h"

fun heap_call :: "call \<Rightarrow> bool" where
  "heap_call (C_malloc p n) = True"
| "heap_call (C_free p) = True"
| "heap_call _ = False"

lemma live_skip [simp]: "\<not> heap_call c \<Longrightarrow> live (c # h) = live h"
  by (cases c rule: heap_call.cases) auto

text \<open>In a history that \<open>rt_malloc\<close> built, every block is younger than its name.\<close>

definition heap_ok :: "call list \<Rightarrow> bool" where
  "heap_ok h \<longleftrightarrow> (\<forall>p \<in> set (live h). p < length h)"

lemma heap_ok_Nil [simp]: "heap_ok []"
  by (simp add: heap_ok_def)

lemma heap_ok_skip [simp]: "heap_ok h \<Longrightarrow> \<not> heap_call c \<Longrightarrow> heap_ok (c # h)"
  by (auto simp: heap_ok_def less_Suc_eq)

lemma heap_ok_malloc [simp]: "heap_ok h \<Longrightarrow> p = length h \<Longrightarrow> heap_ok (C_malloc p n # h)"
  by (auto simp: heap_ok_def less_Suc_eq)

lemma heap_ok_free [simp]: "heap_ok h \<Longrightarrow> heap_ok (C_free p # h)"
  by (auto simp: heap_ok_def less_Suc_eq)

lemma fresh_not_live: "heap_ok h \<Longrightarrow> length h \<notin> set (live h)"
  by (auto simp: heap_ok_def)

lemma removeAll_fresh [simp]: "heap_ok h \<Longrightarrow> removeAll (length h) (live h) = live h"
  by (simp add: fresh_not_live)

lemma rt_malloc_cases:
  obtains (ok) "e_malloc e (hist s) n"
      "rt_malloc e n s = (Some (length (hist s)), emit (C_malloc (length (hist s)) n) s)"
    | (fail) "\<not> e_malloc e (hist s) n" "rt_malloc e n s = (None, emit (C_malloc_fail n) s)"
  by (cases "e_malloc e (hist s) n") (auto simp: rt_malloc_def)

text \<open>The number of calls of a kind that a history records.\<close>

definition count_calls :: "(call \<Rightarrow> bool) \<Rightarrow> call list \<Rightarrow> nat" where
  "count_calls P h = length (filter P h)"

text \<open>
  An operation that works on the platform only: it may extend the history, and it leaves the
  fields that a component adds to the state as they are.
\<close>

definition only_hist :: "'a sys_scheme \<Rightarrow> 'a sys_scheme \<Rightarrow> bool" where
  "only_hist s s' \<longleftrightarrow> s' = s\<lparr>hist := hist s'\<rparr>"

lemma only_hist_refl [simp, intro]: "only_hist s s"
  by (simp add: only_hist_def)

lemma only_hist_trans: "only_hist s s' \<Longrightarrow> only_hist s' s'' \<Longrightarrow> only_hist s s''"
  unfolding only_hist_def by (metis (no_types, lifting) sys.surjective sys.update_convs(1))

lemma only_hist_emit [simp, intro]: "only_hist s (emit c s)"
  by (simp add: only_hist_def emit_def)

lemma only_hist_emit_iff [simp]: "only_hist s t \<Longrightarrow> only_hist s (emit c t)"
  using only_hist_trans only_hist_emit by blast

lemma only_hist_malloc: "rt_malloc e n s = (p, s') \<Longrightarrow> only_hist s s'"
  by (auto simp: rt_malloc_def split: if_splits)

lemma only_hist_free [simp]: "only_hist s t \<Longrightarrow> only_hist s (rt_free p t)"
  by (cases p) (auto simp: rt_free_def)

lemma rt_free_None [simp]: "rt_free None s = s"
  by (simp add: rt_free_def)

lemma hist_rt_free_Some [simp]: "hist (rt_free (Some p) s) = C_free p # hist s"
  by (simp add: rt_free_def)

section \<open>A platform that works\<close>

text \<open>
  A concrete environment, for evaluating the model: allocations, semaphores and threads
  succeed, the radio is synchronised and every transmission arrives.
\<close>

definition default_config :: sub_system_config where
  "default_config = \<lparr>cfg_ap_tx_power = 21, cfg_id_len = 1, cfg_pp = 1, cfg_symbol_length = 1,
     cfg_dlul_ratio = 0, cfg_btvalue = 1, cfg_group_number = 0, cfg_spectrum_idx = 3,
     cfg_old_subsys_v = 0, cfg_bitscb = 1, cfg_freq_idx = 100, cfg_reserved = 0,
     cfg_subsystemid = 0x21456981, cfg_freq_list = replicate 16 0xFF,
     cfg_subsystemid_list = replicate 8 0xFFFFFFFF\<rparr>"

definition good_env :: env where
  "good_env = \<lparr>
     e_arrivals = (\<lambda>h. []),
     e_malloc = (\<lambda>h n. True),
     e_flash_read = (\<lambda>h a n. replicate n 0xFF),
     e_frame_len = (\<lambda>h. 100000),
     e_subframe_len = (\<lambda>h. 5000),
     e_frame_num = (\<lambda>h. 1000),
     e_frame_valid = (\<lambda>h. True),
     e_rf_cnt = (\<lambda>h. 0),
     e_frame_head = (\<lambda>h. (True, 0)),
     e_state = (\<lambda>h. UC_STATUS_SYNC),
     e_send_data = (\<lambda>h. UC_OP_SUCC),
     e_userid = (\<lambda>h. 0x1234),
     e_dev_serial = (\<lambda>h. replicate 16 1),
     e_gateway_info = (\<lambda>h. \<lparr>gwi_gw_id = 0, gwi_pof = 0, gwi_ts_fn = 0, gwi_resend_times = 0, gwi_ul_mcs = 0\<rparr>),
     e_awakened_cause = (\<lambda>h. AWAKENED_CAUSE_HARD_RESET),
     e_version = (\<lambda>h. cstr ''v1.0'' @ replicate 11 0),
     e_hardware_ver = (\<lambda>h. cstr ''hw1'' @ replicate 12 0),
     e_partition_size = (\<lambda>h. (0x10000, 0x80000, 0x80000)),
     e_uboot_log = (\<lambda>h. (0, 0, 0)),
     e_active_time = (\<lambda>h. 3),
     e_auto_connect = (\<lambda>h. False),
     e_radio_info = (\<lambda>h. \<lparr>ri_rssi = 0, ri_snr = 0, ri_cur_power = 0, ri_min_power = 0, ri_max_power = 0,
                         ri_cur_mcs = 0, ri_max_mcs = 7\<rparr>),
     e_freq_info = (\<lambda>h. 100),
     e_sm_stats = (\<lambda>h. (0, 0)),
     e_tick = (\<lambda>h. 0),
     e_rand = (\<lambda>h. 0),
     e_reg = (\<lambda>h a. 0),
     e_sem_create = (\<lambda>h. True),
     e_sem_take = (\<lambda>h. True),
     e_timer_create = (\<lambda>h. True),
     e_thread_create = (\<lambda>h. True),
     e_system_config = (\<lambda>h. default_config),
     e_freq_list = (\<lambda>h. replicate 16 0xFF),
     e_scan_freq = (\<lambda>h. (UC_OP_SUCC, [])),
     e_wait_sync = (\<lambda>h. 0),
     e_set_freq_ok = (\<lambda>h. True),
     e_module_id = (\<lambda>h. cstr ''1a2b3c4d''),
     e_allow_run = (\<lambda>h. False),
     e_mutex_create = (\<lambda>h. True),
     e_get_char = (\<lambda>h. Some 0x41),
     e_store_pin = (\<lambda>h. (2, 50)),
     e_wake_out = (\<lambda>h. (3, 50)),
     e_timer_active = (\<lambda>h. False),
     e_recv_data = (\<lambda>h. (UC_OP_SUCC, 0, [1, 2, 3])),
     e_paging_tx_cfg = (\<lambda>h. \<lparr>tx_freq = 0, tx_spectrum_idx = 3, tx_bandwidth = 0, tx_symbol_length = 0,
       tx_awaken_id = 0, tx_mode = 0, tx_send_time = 0\<rparr>),
     e_paging_rx_cfg = (\<lambda>h. \<lparr>rx_freq = 0, rx_spectrum_idx = 3, rx_bandwidth = 0, rx_symbol_length = 0,
       rx_lpm_nlen = 0, rx_lpm_utimes = 0, rx_threshold = 0, rx_extra_flag = 0, rx_awaken_id = 0,
       rx_detect_period = 0, rx_extra_period = 0, rx_mode = 0, rx_period_multiple = 0, rx_awaken_id_another = 0\<rparr>),
     e_lib = (\<lambda>h f. 1),
     e_lib_info = (\<lambda>h f. [])\<rparr>"

lemma good_env_simps [simp]:
  "e_malloc good_env h n = True" "e_state good_env h = UC_STATUS_SYNC"
  "e_send_data good_env h = UC_OP_SUCC" "e_sem_create good_env h = True"
  "e_sem_take good_env h = True" "e_timer_create good_env h = True"
  "e_thread_create good_env h = True"
  by (simp_all add: good_env_def)

end
