(* ===== verification/Fastlz.thy ===== *)
theory Fastlz
  imports Platform
begin

text \<open>
  The compressor of \<^verbatim>\<open>applications/codec/fastlz/fastlz.c\<close>. The C file includes itself
  twice, with \<^verbatim>\<open>FASTLZ_LEVEL\<close> 1 and 2; here the level is the first argument of the
  definitions. Pointers into the input are indices, the output pointer is the length of the
  output list, and the hash table maps a hash to an input index. A read outside the input
  buffer is a fault (\<open>None\<close>), so a theorem that the result is \<open>Some\<close> is a memory-safety
  statement.
\<close>

section \<open>Reading the input and hashing\<close>

definition readu16 :: "u8 list \<Rightarrow> nat \<Rightarrow> u32 option" where
  "readu16 m p = do { a \<leftarrow> rd m p; b \<leftarrow> rd m (p + 1); Some (ucast a OR push_bit 8 (ucast b)) }"

definition hash_function :: "u8 list \<Rightarrow> nat \<Rightarrow> nat option" where
  "hash_function m p =
     do { v \<leftarrow> readu16 m p;
          w \<leftarrow> readu16 m (p + 1);
          Some (unat ((v XOR (w XOR drop_bit (16 - 10) v)) AND 1023)) }"

definition max_distance :: "nat \<Rightarrow> nat" where
  "max_distance lvl = (if lvl = 1 then 8192 else 8191)"

definition max_fardistance :: nat where
  "max_fardistance = 65535 + 8191 - 1"

section \<open>The compressor\<close>

text \<open>The chained tests \<^verbatim>\<open>*ref++ != *ip++ || ...\<close>: do \<open>k\<close> bytes agree?\<close>

fun same_bytes :: "u8 list \<Rightarrow> nat \<Rightarrow> nat \<Rightarrow> nat \<Rightarrow> bool option" where
  "same_bytes m ref ip 0 = Some True"
| "same_bytes m ref ip (Suc k) =
     do { a \<leftarrow> rd m ref; b \<leftarrow> rd m ip;
          if a \<noteq> b then Some False else same_bytes m (ref + 1) (ip + 1) k }"

text \<open>
  The search of one loop iteration: \<open>Some (distance, len, ref)\<close> for a match of at least
  \<open>len\<close> bytes whose source continues at \<open>ref\<close>, or \<open>None\<close> for \<^verbatim>\<open>goto literal\<close>; and the
  updated hash table.
\<close>

definition run_check :: "nat \<Rightarrow> u8 list \<Rightarrow> nat \<Rightarrow> bool option" where
  "run_check lvl m ip =
     (if lvl = 2 then
        do { a \<leftarrow> rd m ip; b \<leftarrow> rd m (ip - 1);
             if a = b then do { v \<leftarrow> readu16 m (ip - 1); w \<leftarrow> readu16 m (ip + 1); Some (v = w) }
             else Some False }
      else Some False)"

definition find_match ::
  "nat \<Rightarrow> u8 list \<Rightarrow> nat \<Rightarrow> (nat \<Rightarrow> nat) \<Rightarrow> ((nat \<times> nat \<times> nat) option \<times> (nat \<Rightarrow> nat)) option" where
  "find_match lvl m anchor htab =
     do { run \<leftarrow> run_check lvl m anchor;
          if run then Some (Some (1, 3, anchor - 1 + 3), htab)
          else do {
            hval \<leftarrow> hash_function m anchor;
            let ref = htab hval;
            let distance = anchor - ref;
            let htab = htab(hval := anchor);
            if distance = 0
               \<or> distance \<ge> (if lvl = 1 then max_distance 1 else max_fardistance)
            then Some (None, htab)
            else do {
              eq \<leftarrow> same_bytes m ref anchor 3;
              if \<not> eq then Some (None, htab)
              else if lvl = 2 \<and> distance \<ge> max_distance 2 then do {
                eq2 \<leftarrow> same_bytes m (ref + 3) (anchor + 3) 2;
                Some (if eq2 then Some (distance, 3 + 2, ref + 5) else None, htab) }
              else Some (Some (distance, 3, ref + 3), htab) } } }"

text \<open>
  Extending the match. \<open>run_ext\<close> is the loop of the run case, with \<open>k = ip_bound - ip\<close>
  iterations at most; \<open>cmp_steps\<close> is a sequence of \<open>k\<close> comparisons, each of which advances
  both pointers whether or not the bytes agree, stopped at the first difference.
\<close>

fun run_ext :: "u8 list \<Rightarrow> u8 \<Rightarrow> nat \<Rightarrow> nat \<Rightarrow> nat \<Rightarrow> nat option" where
  "run_ext m x ref ip 0 = Some ip"
| "run_ext m x ref ip (Suc k) =
     do { a \<leftarrow> rd m ref; if a \<noteq> x then Some ip else run_ext m x (ref + 1) (ip + 1) k }"

fun cmp_steps :: "u8 list \<Rightarrow> nat \<Rightarrow> nat \<Rightarrow> nat \<Rightarrow> (bool \<times> nat \<times> nat) option" where
  "cmp_steps m ref ip 0 = Some (False, ref, ip)"
| "cmp_steps m ref ip (Suc k) =
     do { a \<leftarrow> rd m ref; b \<leftarrow> rd m ip;
          if a \<noteq> b then Some (True, ref + 1, ip + 1) else cmp_steps m (ref + 1) (ip + 1) k }"

definition extend_match :: "u8 list \<Rightarrow> nat \<Rightarrow> nat \<Rightarrow> nat \<Rightarrow> nat \<Rightarrow> nat option" where
  "extend_match m ip_bound distance ref ip =
     (if distance = 0 then
        do { x \<leftarrow> rd m (ip - 1); run_ext m x ref ip (ip_bound - ip) }
      else
        do { (differ, ref, ip) \<leftarrow> cmp_steps m ref ip 8;
             if differ then Some ip
             else do { (_, _, ip) \<leftarrow> cmp_steps m ref ip (ip_bound - ip); Some ip } })"

text \<open>Encoding a match; \<open>distance\<close> is already biased. Stores truncate to a byte.\<close>

abbreviation byte :: "nat \<Rightarrow> u8" where "byte n \<equiv> word_of_nat n"

fun enc_match1 :: "nat \<Rightarrow> nat \<Rightarrow> u8 list" where
  "enc_match1 len distance =
     (if len > 264 - 2
      then [byte (7 * 32 + distance div 256), byte (264 - 2 - 7 - 2), byte (distance mod 256)]
           @ enc_match1 (len - (264 - 2)) distance
      else if len < 7
      then [byte (len * 32 + distance div 256), byte (distance mod 256)]
      else [byte (7 * 32 + distance div 256), byte (len - 7), byte (distance mod 256)])"

declare enc_match1.simps [simp del]

fun enc_len :: "nat \<Rightarrow> u8 list" where
  "enc_len len = (if len \<ge> 255 then 255 # enc_len (len - 255) else [byte len])"

declare enc_len.simps [simp del]

definition enc_match2 :: "nat \<Rightarrow> nat \<Rightarrow> u8 list" where
  "enc_match2 len distance =
     (if distance < max_distance 2 then
        (if len < 7
         then [byte (len * 32 + distance div 256), byte (distance mod 256)]
         else byte (7 * 32 + distance div 256) # enc_len (len - 7) @ [byte (distance mod 256)])
      else
        (let far = distance - max_distance 2 in
         if len < 7
         then [byte (len * 32 + 31), 255, byte (far div 256), byte (far mod 256)]
         else byte (7 * 32 + 31) # enc_len (len - 7)
              @ [255, byte (far div 256), byte (far mod 256)]))"

definition enc_match :: "nat \<Rightarrow> nat \<Rightarrow> nat \<Rightarrow> u8 list" where
  "enc_match lvl len distance =
     (if lvl = 2 then enc_match2 len distance else enc_match1 len distance)"

text \<open>
  The output always ends in a literal run that is still open: its count byte, written as
  \<^verbatim>\<open>MAX_COPY - 1\<close>, and \<open>copy\<close> literals. Closing it stores the biased count, or takes
  the count byte back when there is no literal.
\<close>

definition close_literals :: "nat \<Rightarrow> u8 list \<Rightarrow> u8 list" where
  "close_literals copy out =
     (if copy \<noteq> 0 then out[length out - copy - 1 := byte (copy - 1)] else butlast out)"

definition add_literal :: "u8 \<Rightarrow> u8 list \<Rightarrow> nat \<Rightarrow> u8 list \<times> nat" where
  "add_literal b out copy =
     (if copy + 1 = 32 then (out @ [b] @ [byte (32 - 1)], 0) else (out @ [b], copy + 1))"

text \<open>One iteration of the main loop.\<close>

definition compress_step ::
  "nat \<Rightarrow> u8 list \<Rightarrow> nat \<Rightarrow> u8 list \<Rightarrow> nat \<Rightarrow> (nat \<Rightarrow> nat)
     \<Rightarrow> (nat \<times> u8 list \<times> nat \<times> (nat \<Rightarrow> nat)) option" where
  "compress_step lvl m anchor out copy htab =
     do { (found, htab) \<leftarrow> find_match lvl m anchor htab;
          case found of
            None \<Rightarrow>
              do { b \<leftarrow> rd m anchor;
                   let (out, copy) = add_literal b out copy;
                   Some (anchor + 1, out, copy, htab) }
          | Some (distance, len, ref) \<Rightarrow>
              do { let distance = distance - 1;
                   ip \<leftarrow> extend_match m (length m - 2) distance ref (anchor + len);
                   let ip = ip - 3;
                   let out = close_literals copy out @ enc_match lvl (ip - anchor) distance;
                   h1 \<leftarrow> hash_function m ip;
                   h2 \<leftarrow> hash_function m (ip + 1);
                   Some (ip + 2, out @ [byte (32 - 1)], 0, htab(h1 := ip, h2 := ip + 1)) } }"

text \<open>Every iteration moves \<open>ip\<close> forward, which is why the loop ends.\<close>

lemma run_ext_ge: "run_ext m x ref ip k = Some ip' \<Longrightarrow> ip \<le> ip'"
  by (induction k arbitrary: ref ip) (force split: if_splits)+

lemma cmp_steps_ge: "cmp_steps m ref ip k = Some (d, ref', ip') \<Longrightarrow> ip \<le> ip'"
  by (induction k arbitrary: ref ip) (force split: if_splits)+

lemma extend_match_ge: "extend_match m b d ref ip = Some ip' \<Longrightarrow> ip \<le> ip'"
  by (auto simp: extend_match_def split: if_splits dest!: run_ext_ge cmp_steps_ge)

lemma find_match_len: "find_match lvl m a h = Some (Some (d, len, ref), h') \<Longrightarrow> 3 \<le> len"
  by (auto simp: find_match_def Let_def split: if_splits)

lemma compress_step_progress:
  assumes "compress_step lvl m ip out copy htab = Some (ip', r)"
  shows "ip < ip'"
proof -
  from assms obtain found h where f: "find_match lvl m ip htab = Some (found, h)"
    by (auto simp: compress_step_def)
  show ?thesis
  proof (cases found)
    case None
    with f assms show ?thesis
      by (auto simp: compress_step_def Let_def case_prod_unfold)
  next
    case (Some t)
    then show ?thesis
      using f assms
      by (cases t) (auto simp: compress_step_def Let_def dest!: extend_match_ge find_match_len)
  qed
qed

function compress_loop ::
  "nat \<Rightarrow> u8 list \<Rightarrow> nat \<Rightarrow> u8 list \<Rightarrow> nat \<Rightarrow> (nat \<Rightarrow> nat) \<Rightarrow> (nat \<times> u8 list \<times> nat) option" where
  "compress_loop lvl m ip out copy htab =
     (if ip + 12 < length m then
        do { (ip', out', copy', htab') \<leftarrow> compress_step lvl m ip out copy htab;
             compress_loop lvl m ip' out' copy' htab' }
      else Some (ip, out, copy))"
  by pat_completeness auto
termination
  by (relation "measure (\<lambda>(lvl, m, ip, out, copy, htab). length m - ip)")
    (auto dest: compress_step_progress)

declare compress_loop.simps [simp del]

fun compress_tail :: "u8 list \<Rightarrow> nat \<Rightarrow> nat \<Rightarrow> u8 list \<Rightarrow> nat \<Rightarrow> (u8 list \<times> nat) option" where
  "compress_tail m ip 0 out copy = Some (out, copy)"
| "compress_tail m ip (Suc k) out copy =
     do { b \<leftarrow> rd m ip;
          let (out, copy) = add_literal b out copy;
          compress_tail m (ip + 1) k out copy }"

definition compress_body :: "nat \<Rightarrow> u8 list \<Rightarrow> u8 list option" where
  "compress_body lvl m =
     (if length m < 4 then
        (if length m \<noteq> 0 then Some (byte (length m - 1) # m) else Some [])
      else
        do { a \<leftarrow> rd m 0;
             b \<leftarrow> rd m 1;
             (ip, out, copy) \<leftarrow> compress_loop lvl m 2 [byte (32 - 1), a, b] 2 (\<lambda>_. 0);
             (out, copy) \<leftarrow> compress_tail m ip (length m - ip) out copy;
             let out = close_literals copy out;
             Some (if lvl = 2 then out[0 := out ! 0 OR 32] else out) })"

text \<open>
  \<^verbatim>\<open>fastlz1_compress\<close> and \<^verbatim>\<open>fastlz2_compress\<close>: the hash table comes from the heap and goes
  back to it on every path; \<open>None\<close> as the result is the return value \<open>-1\<close>.
\<close>

definition fastlz_compressor ::
  "nat \<Rightarrow> env \<Rightarrow> u8 list \<Rightarrow> 'a sys_scheme \<Rightarrow> (u8 list option \<times> 'a sys_scheme) option" where
  "fastlz_compressor lvl e m s =
     (case rt_malloc e (4 * 1024) s of
        (None, s) \<Rightarrow> Some (None, s)
      | (Some h, s) \<Rightarrow> do { out \<leftarrow> compress_body lvl m; Some (Some out, rt_free (Some h) s) })"

definition fastlz_compress ::
  "env \<Rightarrow> u8 list \<Rightarrow> 'a sys_scheme \<Rightarrow> (u8 list option \<times> 'a sys_scheme) option" where
  "fastlz_compress e m s =
     (if length m < 65536 then fastlz_compressor 1 e m s else fastlz_compressor 2 e m s)"

definition fastlz_compress_level ::
  "nat \<Rightarrow> env \<Rightarrow> u8 list \<Rightarrow> 'a sys_scheme \<Rightarrow> (u8 list option \<times> 'a sys_scheme) option" where
  "fastlz_compress_level lvl e m s =
     (if lvl = 1 then fastlz_compressor 1 e m s
      else if lvl = 2 then fastlz_compressor 2 e m s
      else Some (Some [], s))"

section \<open>The decompressor\<close>

text \<open>Level 2 match lengths continue while the byte read is 255.\<close>

function ext_len :: "u8 list \<Rightarrow> nat \<Rightarrow> nat \<Rightarrow> (nat \<times> nat) option" where
  "ext_len m ip len =
     (if ip < length m then
        (if m ! ip = 255 then ext_len m (ip + 1) (len + 255)
         else Some (len + unat (m ! ip), ip + 1))
      else None)"
  by pat_completeness auto
termination
  by (relation "measure (\<lambda>(m, ip, len). length m - ip)") auto

declare ext_len.simps [simp del]

text \<open>
  The fields of a match: its biased length, the distance \<open>op - ref\<close>, and the position after
  it. The length and distance bytes are read without comparing \<open>ip\<close> with the end of the
  input.
\<close>

definition match_fields :: "nat \<Rightarrow> u8 list \<Rightarrow> nat \<Rightarrow> nat \<Rightarrow> (nat \<times> nat \<times> nat) option" where
  "match_fields lvl m ip ctrl =
     do { let len = ctrl div 32 - 1;
          let ofs = (ctrl mod 32) * 256;
          (len, ip) \<leftarrow>
             (if len = 7 - 1 then
                (if lvl = 1 then do { c \<leftarrow> rd m ip; Some (len + unat c, ip + 1) }
                 else ext_len m ip len)
              else Some (len, ip));
          code \<leftarrow> rd m ip;
          let ip = ip + 1;
          if lvl = 2 \<and> code = 255 \<and> ofs = 31 * 256 then
            do { a \<leftarrow> rd m ip; b \<leftarrow> rd m (ip + 1);
                 Some (len, unat a * 256 + unat b + max_distance 2, ip + 2) }
          else Some (len, ofs + unat code, ip) }"

lemma ext_len_progress: "ext_len m ip len = Some (len', ip') \<Longrightarrow> ip < ip'"
proof (induction m ip len rule: ext_len.induct)
  case (1 m ip len)
  then show ?case
    by (subst (asm) (2) ext_len.simps) (auto split: if_splits)
qed

lemma match_fields_progress: "match_fields lvl m ip ctrl = Some (len, ref, ip') \<Longrightarrow> ip < ip'"
  by (auto simp: match_fields_def Let_def split: if_splits dest!: ext_len_progress)

text \<open>Copying \<open>n\<close> bytes from \<open>dist\<close> bytes back, one at a time; source and target may overlap.\<close>

fun copy_back :: "nat \<Rightarrow> nat \<Rightarrow> u8 list \<Rightarrow> u8 list" where
  "copy_back dist 0 out = out"
| "copy_back dist (Suc n) out = copy_back dist n (out @ [out ! (length out - dist)])"

text \<open>
  The loop returns the number of bytes decompressed, or 0 when a bounds check fails, and
  what it wrote to the output buffer by then.
\<close>

function decompress_loop ::
  "nat \<Rightarrow> u8 list \<Rightarrow> nat \<Rightarrow> nat \<Rightarrow> nat \<Rightarrow> nat \<Rightarrow> u8 list \<Rightarrow> (nat \<times> u8 list) option" where
  "decompress_loop lvl m limit maxout ip ctrl out =
     (if ctrl \<ge> 32 then
        do { (len, ref, ip') \<leftarrow> match_fields lvl m ip ctrl;
             if length out + len + 3 > maxout then Some (0, out)
             else if length out < ref + 1 then Some (0, out)
             else do {
               let out' = (if ref = 0 then out @ replicate (len + 3) (last out)
                           else copy_back (ref + 1) (len + 3) out);
               if ip' < limit then
                 do { c \<leftarrow> rd m ip';
                      decompress_loop lvl m limit maxout (ip' + 1) (unat c) out' }
               else Some (length out', out') } }
      else if length out + (ctrl + 1) > maxout then Some (0, out)
      else if ip + (ctrl + 1) > limit then Some (0, out)
      else
        do { bs \<leftarrow> rdn m ip (ctrl + 1);
             let ip = ip + (ctrl + 1);
             let out = out @ bs;
             if ip < limit then
               do { c \<leftarrow> rd m ip; decompress_loop lvl m limit maxout (ip + 1) (unat c) out }
             else Some (length out, out) })"
  by pat_completeness auto
termination
  by (relation "measure (\<lambda>(lvl, m, limit, maxout, ip, ctrl, out). limit - ip)")
    (auto dest: match_fields_progress)

declare decompress_loop.simps [simp del]

definition fastlz_decompressor ::
  "nat \<Rightarrow> u8 list \<Rightarrow> nat \<Rightarrow> nat \<Rightarrow> (nat \<times> u8 list) option" where
  "fastlz_decompressor lvl m len maxout =
     do { c \<leftarrow> rd m 0; decompress_loop lvl m len maxout 1 (unat c mod 32) [] }"

definition fastlz_decompress :: "u8 list \<Rightarrow> nat \<Rightarrow> nat \<Rightarrow> (nat \<times> u8 list) option" where
  "fastlz_decompress m len maxout =
     do { c \<leftarrow> rd m 0;
          let level = unat c div 32 + 1;
          if level = 1 then fastlz_decompressor 1 m len maxout
          else if level = 2 then fastlz_decompressor 2 m len maxout
          else Some (0, []) }"

end
