(* ===== verification/FastlzSafety.thy ===== *)
theory FastlzSafety
  imports Fastlz
begin

text \<open>
  Bounds of the decompressor: it never writes past \<open>maxout\<close>, it copies only bytes it has
  written, and (level 1) it reads at most two bytes past the end of its input.
\<close>

lemma length_copy_back [simp]: "length (copy_back d n out) = length out + n"
  by (induction n arbitrary: out) auto

lemma copy_back_prefix: "\<exists>bs. copy_back d n out = out @ bs"
  by (induction n arbitrary: out) (simp_all, metis append.assoc append_Nil2)

text \<open>The result of one decoded match, whichever way it is copied.\<close>

definition emit_match :: "nat \<Rightarrow> nat \<Rightarrow> u8 list \<Rightarrow> u8 list" where
  "emit_match ref len out =
     (if ref = 0 then out @ replicate (len + 3) (last out) else copy_back (ref + 1) (len + 3) out)"

lemma length_emit_match [simp]: "length (emit_match ref len out) = length out + len + 3"
  by (simp add: emit_match_def)

lemmas decompress_loop_unfold =
  decompress_loop.simps[folded emit_match_def, unfolded Let_def]

lemma decompress_loop_bounds:
  "decompress_loop lvl m limit maxout ip ctrl out = Some (n, r) \<Longrightarrow> length out \<le> maxout \<Longrightarrow>
     length r \<le> maxout \<and> (n = 0 \<or> n = length r)"
proof (induction lvl m limit maxout ip ctrl out rule: decompress_loop.induct)
  case (1 lvl m limit maxout ip ctrl out)
  show ?case
  proof (cases "ctrl \<ge> 32")
    case True
    from "1.prems"(1) True obtain len ref ip' where
      mf: "match_fields lvl m ip ctrl = Some (len, ref, ip')"
      by (subst (asm) decompress_loop_unfold) auto
    show ?thesis
      using "1.prems" True mf "1.IH"(1)[OF True mf refl refl]
      by (subst (asm) decompress_loop_unfold) (auto simp: emit_match_def split: if_splits)
  next
    case False
    then show ?thesis
      using "1.prems" "1.IH"(2)[OF False]
      by (subst (asm) decompress_loop_unfold) (auto simp: mem_simps split: if_splits)
  qed
qed

lemma match_fields1_Some:
  "ip + 2 \<le> length m \<Longrightarrow> \<exists>len ref ip'. match_fields 1 m ip ctrl = Some (len, ref, ip') \<and> ip' \<le> ip + 2"
  by (auto simp: match_fields_def Let_def rd_def)

lemma decompress1_no_fault:
  "ip \<le> limit \<Longrightarrow> limit + 2 \<le> length m \<Longrightarrow> \<exists>r. decompress_loop 1 m limit maxout ip ctrl out = Some r"
proof (induction "1::nat" m limit maxout ip ctrl out rule: decompress_loop.induct)
  case (1 m limit maxout ip ctrl out)
  show ?case
  proof (cases "ctrl \<ge> 32")
    case True
    obtain len ref ip' where mf: "match_fields 1 m ip ctrl = Some (len, ref, ip')" "ip' \<le> ip + 2"
      using match_fields1_Some "1.prems" by (metis add_le_mono1 le_trans)
    show ?thesis
      using "1.prems" True mf "1.hyps"(1)[OF True mf(1) refl refl]
      by (subst decompress_loop_unfold) (auto simp: rd_def emit_match_def)
  next
    case False
    then show ?thesis
      using "1.prems" "1.hyps"(2)[OF False]
      by (subst decompress_loop_unfold) (auto simp: rd_def rdn_def)
  qed
qed

lemma fastlz_decompress_bounds:
  "fastlz_decompress m len maxout = Some (n, r) \<Longrightarrow> length r \<le> maxout \<and> (n = 0 \<or> n = length r)"
  by (auto simp: fastlz_decompress_def fastlz_decompressor_def Let_def split: if_splits
      dest: decompress_loop_bounds)

end
