(* ===== verification/FastlzDecode.thy ===== *)
theory FastlzDecode
  imports FastlzSafety
begin

text \<open>
  What the decompressor makes of a well-formed stream. A stream is read as a list of
  instructions, \<open>Lit bs\<close> (1 to 32 literal bytes) and \<open>Mat d n\<close> (copy \<open>n\<close> bytes from
  \<open>d + 1\<close> back). \<open>sem\<close> is what a list of instructions means and \<open>encs\<close> is how it is written;
  \<open>decode_all\<close> says that the decompressor implements \<open>sem\<close> on \<open>encs\<close>.
\<close>

section \<open>Instructions\<close>

datatype lz = Lit "u8 list" | Mat nat nat

fun run_lz :: "u8 list \<Rightarrow> lz \<Rightarrow> u8 list" where
  "run_lz out (Lit bs) = out @ bs"
| "run_lz out (Mat d n) = copy_back (d + 1) n out"

abbreviation sem :: "u8 list \<Rightarrow> lz list \<Rightarrow> u8 list" where "sem \<equiv> foldl run_lz"

text \<open>One match instruction of level 1 carries at most 264 bytes.\<close>

definition enc_one1 :: "nat \<Rightarrow> nat \<Rightarrow> u8 list" where
  "enc_one1 l d =
     (if l < 7 then [byte (l * 32 + d div 256), byte (d mod 256)]
      else [byte (7 * 32 + d div 256), byte (l - 7), byte (d mod 256)])"

fun enc_lz :: "nat \<Rightarrow> lz \<Rightarrow> u8 list" where
  "enc_lz lvl (Lit bs) = byte (length bs - 1) # bs"
| "enc_lz lvl (Mat d n) = (if lvl = 2 then enc_match2 (n - 2) d else enc_one1 (n - 2) d)"

abbreviation encs :: "nat \<Rightarrow> lz list \<Rightarrow> u8 list" where "encs lvl is \<equiv> concat (map (enc_lz lvl) is)"

fun wf_lz :: "nat \<Rightarrow> lz \<Rightarrow> bool" where
  "wf_lz lvl (Lit bs) \<longleftrightarrow> bs \<noteq> [] \<and> length bs \<le> 32"
| "wf_lz lvl (Mat d n) \<longleftrightarrow> 3 \<le> n \<and> (if lvl = 2 then d < 73726 else d < 8192 \<and> n \<le> 264)"

fun valid :: "u8 list \<Rightarrow> lz list \<Rightarrow> bool" where
  "valid out [] \<longleftrightarrow> True"
| "valid out (Lit bs # is) \<longleftrightarrow> valid (out @ bs) is"
| "valid out (Mat d n # is) \<longleftrightarrow> d < length out \<and> valid (copy_back (d + 1) n out) is"

lemma valid_append: "valid out (is @ js) \<longleftrightarrow> valid out is \<and> valid (sem out is) js"
  by (induction out "is" rule: valid.induct) auto

lemma sem_length: "length out \<le> length (sem out is)"
proof (induction "is" arbitrary: out)
  case (Cons i "is")
  have "length out \<le> length (run_lz out i)" by (cases i) auto
  with Cons[of "run_lz out i"] show ?case by simp
qed simp

lemma copy_back_1: "out \<noteq> [] \<Longrightarrow> copy_back (Suc 0) n out = out @ replicate n (last out)"
proof (induction n arbitrary: out)
  case (Suc n)
  have "out @ [out ! (length out - 1)] = out @ [last out]"
    using Suc.prems by (simp add: last_conv_nth)
  with Suc.IH[of "out @ [last out]"] show ?case by simp
qed simp

lemma emit_match_copy: "d < length out \<Longrightarrow> emit_match d l out = copy_back (d + 1) (l + 3) out"
  by (cases "d = 0") (auto simp: emit_match_def copy_back_1)

lemma copy_back_add: "copy_back d (a + b) out = copy_back d b (copy_back d a out)"
  by (induction a arbitrary: out) auto

section \<open>Decoding one instruction\<close>

lemma unat_byte: "n < 256 \<Longrightarrow> unat (byte n) = n"
  by (simp add: unat_of_nat take_bit_nat_eq_self)

lemma div256: "d < 8192 \<Longrightarrow> d div 256 < (32::nat)"
  by simp

lemma ctrl_byte: "l < 8 \<Longrightarrow> q < 32 \<Longrightarrow> unat (byte (l * 32 + q)) = l * 32 + q"
  by (intro unat_byte) linarith

lemma ctrl_fields:
  fixes q :: nat
  assumes "q < 32"
  shows "(224 + q) div 32 = 7" "(224 + q) mod 32 = q"
    "(l * 32 + q) div 32 = l" "(l * 32 + q) mod 32 = q"
proof -
  show g: "(l * 32 + q) div 32 = l" "(l * 32 + q) mod 32 = q" for l
    using assms by simp_all
  show "(224 + q) div 32 = 7" "(224 + q) mod 32 = q"
    using g[of 7] by (simp_all only: mult.commute) simp_all
qed

lemma rd_pre: "rd (pre @ xs) (length pre + k) = rd xs k"
  by (simp add: rd_def nth_append)

lemma ext_len_enc:
  "ext_len (pre @ enc_len n @ post) (length pre) len = Some (len + n, length pre + length (enc_len n))"
proof (induction n arbitrary: pre len rule: enc_len.induct)
  case (1 n)
  show ?case
  proof (cases "n \<ge> 255")
    case True
    with 1[OF True, of "pre @ [255]" "len + 255"] show ?thesis
      by (subst (1 2) enc_len.simps, subst ext_len.simps) simp
  next
    case False
    then show ?thesis
      by (subst (1 2) enc_len.simps, subst ext_len.simps) (simp add: unat_byte nth_append, auto simp: word_eq_iff_unsigned unat_byte dest!: arg_cong[where f = unat])
  qed
qed

lemma enc_len_ne: "enc_len n \<noteq> []"
  by (subst enc_len.simps) simp

lemma match_fields_enc1:
  assumes "1 \<le> l" "l \<le> 262" "d < 8192"
  shows "match_fields 1 (pre @ enc_one1 l d @ post) (Suc (length pre)) (unat (hd (enc_one1 l d)))
         = Some (l - 1, d, length pre + length (enc_one1 l d))"
    and "32 \<le> unat (hd (enc_one1 l d))"
proof -
  have d: "d div 256 < 32" using assms by simp
  have l1: "l < 7 \<Longrightarrow> unat (byte (l * 32 + d div 256)) = l * 32 + d div 256"
    using d by (intro ctrl_byte) auto
  have l2: "unat (byte (224 + d div 256)) = 224 + d div 256"
    using d by (intro unat_byte) simp
  note l = l1 l2
  have m: "unat (byte (d mod 256)) = d mod 256" "unat (byte (l - 7)) = l - 7"
    using assms by (auto intro!: unat_byte simp del: of_nat_diff of_nat_mod)
  have r: "rd (pre @ a # b # c) (Suc (length pre)) = Some b"
    "rd (pre @ a # b # e # f) (Suc (Suc (length pre))) = Some e" for a b c e f
    by (simp_all add: rd_def nth_append)
  show "match_fields 1 (pre @ enc_one1 l d @ post) (Suc (length pre)) (unat (hd (enc_one1 l d)))
         = Some (l - 1, d, length pre + length (enc_one1 l d))"
  proof (cases "l < 7")
    case True
    have e: "enc_one1 l d = [byte (l * 32 + d div 256), byte (d mod 256)]"
      using True by (simp add: enc_one1_def)
    have c: "(l * 32 + d div 256) div 32 - 1 = l - 1" "(l * 32 + d div 256) mod 32 = d div 256"
      using ctrl_fields[OF d] by auto
    show ?thesis
      unfolding match_fields_def e Let_def list.sel l1[OF True] c
      using True assms(1) by (auto simp add: r m simp del: of_nat_mod)
  next
    case False
    have e: "enc_one1 l d = [byte (224 + d div 256), byte (l - 7), byte (d mod 256)]"
      using False by (simp add: enc_one1_def)
    have c: "(224 + d div 256) div 32 - 1 = 6" "(224 + d div 256) mod 32 = d div 256"
      using ctrl_fields[OF d] by auto
    show ?thesis
      unfolding match_fields_def e Let_def list.sel l2 c
      using False by (auto simp add: r m simp del: of_nat_mod of_nat_diff)
  qed
  show "32 \<le> unat (hd (enc_one1 l d))"
    using assms l by (auto simp: enc_one1_def simp del: of_nat_add of_nat_mult)
qed

text \<open>The tail of a level 2 match, after its length: near and far distances.\<close>

definition enc_dist2 :: "nat \<Rightarrow> u8 list" where
  "enc_dist2 d =
     (if d < 8191 then [byte (d mod 256)]
      else [255, byte ((d - 8191) div 256), byte ((d - 8191) mod 256)])"

definition hi2 :: "nat \<Rightarrow> nat" where
  "hi2 d = (if d < 8191 then d div 256 else 31)"

lemma hi2_less: "hi2 d < 32"
  by (auto simp: hi2_def)

lemma hi2_mod [simp]: "hi2 d mod 32 = hi2 d"
  by (rule mod_less[OF hi2_less])

lemma enc_match2_alt:
  "enc_match2 l d =
     (if l < 7 then byte (l * 32 + hi2 d) # enc_dist2 d
      else byte (224 + hi2 d) # enc_len (l - 7) @ enc_dist2 d)"
  by (simp add: enc_match2_def enc_dist2_def hi2_def max_distance_def Let_def)

definition dist_fields :: "u8 list \<Rightarrow> nat \<Rightarrow> nat \<Rightarrow> nat \<Rightarrow> (nat \<times> nat \<times> nat) option" where
  "dist_fields m ip ofs len =
     do { code \<leftarrow> rd m ip;
          if code = 255 \<and> ofs = 31 * 256 then
            do { a \<leftarrow> rd m (ip + 1); b \<leftarrow> rd m (ip + 1 + 1);
                 Some (len, unat a * 256 + unat b + 8191, ip + 1 + 2) }
          else Some (len, ofs + unat code, ip + 1) }"

lemma match_fields2_alt:
  "match_fields 2 m ip ctrl =
     (if ctrl div 32 - 1 = 6
      then do { (len, ip) \<leftarrow> ext_len m ip 6; dist_fields m ip ((ctrl mod 32) * 256) len }
      else dist_fields m ip ((ctrl mod 32) * 256) (ctrl div 32 - 1))"
  unfolding match_fields_def dist_fields_def max_distance_def Let_def
  by (simp cong: if_cong)

lemma dist_fields_enc:
  assumes "d < 73726"
  shows "dist_fields (pre @ enc_dist2 d @ post) (length pre) (hi2 d * 256) len
         = Some (len, d, length pre + length (enc_dist2 d))"
proof (cases "d < 8191")
  case True
  have m: "unat (byte (d mod 256)) = d mod 256"
    by (intro unat_byte) simp
  have "\<not> (byte (d mod 256) = 255 \<and> d div 256 * 256 = 31 * 256)"
  proof
    assume a: "byte (d mod 256) = 255 \<and> d div 256 * 256 = 31 * 256"
    then have "unat (byte (d mod 256)) = 255" by simp
    with m a True div_mult_mod_eq[of d 256] show False by simp
  qed
  then show ?thesis
    using True m by (simp add: dist_fields_def enc_dist2_def hi2_def rd_def del: of_nat_mod)
next
  case False
  let ?f = "d - 8191"
  have f: "unat (byte (?f div 256)) = ?f div 256" "unat (byte (?f mod 256)) = ?f mod 256"
    using assms by (auto intro!: unat_byte simp del: of_nat_diff of_nat_mod)
  then show ?thesis
    using False
    by (simp add: dist_fields_def enc_dist2_def hi2_def rd_def nth_append del: of_nat_mod of_nat_diff)
qed

lemma match_fields_enc2:
  assumes "1 \<le> l" "d < 73726"
  shows "match_fields 2 (pre @ enc_match2 l d @ post) (Suc (length pre)) (unat (hd (enc_match2 l d)))
         = Some (l - 1, d, length pre + length (enc_match2 l d))"
    and "32 \<le> unat (hd (enc_match2 l d))"
proof -
  have l1: "l < 7 \<Longrightarrow> unat (byte (l * 32 + hi2 d)) = l * 32 + hi2 d"
    using hi2_less by (intro ctrl_byte) auto
  have l2: "unat (byte (224 + hi2 d)) = 224 + hi2 d"
    using hi2_less[of d] by (intro unat_byte) simp
  show "32 \<le> unat (hd (enc_match2 l d))"
    using assms l1 l2 by (auto simp: enc_match2_alt simp del: of_nat_add of_nat_mult)
  show "match_fields 2 (pre @ enc_match2 l d @ post) (Suc (length pre)) (unat (hd (enc_match2 l d)))
         = Some (l - 1, d, length pre + length (enc_match2 l d))"
  proof (cases "l < 7")
    case True
    have e: "enc_match2 l d = [byte (l * 32 + hi2 d)] @ enc_dist2 d"
      using True by (simp add: enc_match2_alt)
    have ne: "l - 1 \<noteq> 6" using True by simp
    show ?thesis
      using dist_fields_enc[OF assms(2), of "pre @ [byte (l * 32 + hi2 d)]" post "l - 1"] ne
      by (simp add: match_fields2_alt e l1[OF True] ctrl_fields[OF hi2_less]
          del: of_nat_add of_nat_mult)
  next
    case False
    have e: "enc_match2 l d = [byte (224 + hi2 d)] @ enc_len (l - 7) @ enc_dist2 d"
      using False by (simp add: enc_match2_alt)
    show ?thesis
      using False dist_fields_enc[OF assms(2), of "pre @ [byte (224 + hi2 d)] @ enc_len (l - 7)" post "l - 1"]
        ext_len_enc[of "pre @ [byte (224 + hi2 d)]" "l - 7" "enc_dist2 d @ post" 6]
      by (simp add: match_fields2_alt e l2 ctrl_fields[OF hi2_less] del: of_nat_add of_nat_diff)
  qed
qed

section \<open>Decoding a list of instructions\<close>

abbreviation level :: "nat \<Rightarrow> bool" where "level lvl \<equiv> lvl = 1 \<or> lvl = 2"

lemma enc_lz_ne [simp]: "enc_lz lvl i \<noteq> []"
  by (cases i) (auto simp: enc_match2_alt enc_one1_def)

lemma match_fields_enc:
  assumes "level lvl" "wf_lz lvl (Mat d n)"
  shows "match_fields lvl (pre @ enc_lz lvl (Mat d n) @ post) (Suc (length pre))
           (unat (hd (enc_lz lvl (Mat d n))))
         = Some (n - 3, d, length pre + length (enc_lz lvl (Mat d n)))
       \<and> 32 \<le> unat (hd (enc_lz lvl (Mat d n)))"
proof (cases "lvl = 2")
  case True
  have n: "1 \<le> n - 2" using assms by auto
  show ?thesis
    using True n assms match_fields_enc2(1)[of "n - 2" d pre post] match_fields_enc2(2)[of "n - 2" d]
    by simp
next
  case False
  have n: "1 \<le> n - 2" "n - 2 \<le> 262" using False assms by auto
  show ?thesis
    using False n assms match_fields_enc1(1)[of "n - 2" d pre post] match_fields_enc1(2)[of "n - 2" d]
    by simp
qed

lemma decode_one:
  assumes lvl: "level lvl" and wf: "wf_lz lvl i" and v: "valid out [i]"
    and room: "length (run_lz out i) \<le> maxout"
    and k: "limit = length pre + length (enc_lz lvl i) + k" "k \<le> length post"
  shows "decompress_loop lvl (pre @ enc_lz lvl i @ post) limit maxout (Suc (length pre))
           (unat (hd (enc_lz lvl i))) out
         = (if k = 0 then Some (length (run_lz out i), run_lz out i)
            else decompress_loop lvl (pre @ enc_lz lvl i @ post) limit maxout
                   (Suc (length (pre @ enc_lz lvl i))) (unat (hd post)) (run_lz out i))"
proof (cases i)
  case (Lit bs)
  then obtain n where n: "length bs = Suc n" "n < 32"
    using wf by (cases bs) auto
  have c: "unat (byte n) = n"
    using n by (intro unat_byte) simp
  have hd: "k \<noteq> 0 \<Longrightarrow> rd (pre @ byte n # bs @ post) (Suc (Suc (length pre + n))) = Some (hd post)"
    using k n by (cases post) (auto simp: rd_def nth_append)
  have bs: "rdn (pre @ byte n # bs @ post) (Suc (length pre)) (Suc n) = Some bs"
    using n by (simp add: rdn_def)
  show ?thesis
    using n k room hd bs
    by (subst decompress_loop_unfold) (simp add: Lit c)
next
  case (Mat d n)
  have n: "3 \<le> n" using wf Mat by simp
  have hd: "k \<noteq> 0 \<Longrightarrow> rd (pre @ enc_lz lvl i @ post) (length pre + length (enc_lz lvl i)) = Some (hd post)"
    using k by (cases post) (auto simp: rd_def nth_append)
  have em: "emit_match d (n - 3) out = copy_back (d + 1) n out"
    using v Mat n emit_match_copy[of d out "n - 3"] by simp
  show ?thesis
    using match_fields_enc[OF lvl, of d n pre post] wf n v room k hd em
    by (subst decompress_loop_unfold) (simp add: Mat del: enc_lz.simps)
qed

lemma decode_all:
  assumes lvl: "level lvl"
  shows "is \<noteq> [] \<Longrightarrow> \<forall>i \<in> set is. wf_lz lvl i \<Longrightarrow> valid out is \<Longrightarrow> length (sem out is) \<le> maxout \<Longrightarrow>
    decompress_loop lvl (pre @ encs lvl is @ extra) (length pre + length (encs lvl is)) maxout
      (Suc (length pre)) (unat (hd (encs lvl is))) out
    = Some (length (sem out is), sem out is)"
proof (induction "is" arbitrary: pre out)
  case (Cons i "is")
  have v: "valid out [i]" "valid (run_lz out i) is"
    using Cons.prems(3) by (cases i; simp)+
  have room: "length (run_lz out i) \<le> maxout"
    using Cons.prems(4) sem_length[of "run_lz out i" "is"] by simp
  have hd: "hd (encs lvl (i # is)) = hd (enc_lz lvl i)"
    using enc_lz_ne by (simp add: hd_append)
  have ne: "is \<noteq> [] \<Longrightarrow> encs lvl is \<noteq> []"
    using enc_lz_ne by (cases "is") auto
  show ?case
  proof (cases "is = []")
    case True
    then show ?thesis
      using decode_one[OF lvl _ v(1) room, of "length pre + length (enc_lz lvl i)" pre 0 extra]
        Cons.prems by (simp add: hd)
  next
    case False
    have hd2: "hd (encs lvl is @ extra) = hd (encs lvl is)"
      using ne[OF False] by (rule hd_append2)
    have "decompress_loop lvl (pre @ enc_lz lvl i @ encs lvl is @ extra)
        (length pre + length (enc_lz lvl i) + length (encs lvl is)) maxout (Suc (length pre))
        (unat (hd (enc_lz lvl i))) out
      = decompress_loop lvl ((pre @ enc_lz lvl i) @ encs lvl is @ extra)
        (length (pre @ enc_lz lvl i) + length (encs lvl is)) maxout
        (Suc (length (pre @ enc_lz lvl i))) (unat (hd (encs lvl is))) (run_lz out i)"
      using decode_one[OF lvl _ v(1) room, of _ pre "length (encs lvl is)" "encs lvl is @ extra"]
        Cons.prems ne[OF False] hd2 by simp
    also have "\<dots> = Some (length (sem (run_lz out i) is), sem (run_lz out i) is)"
      using Cons.prems v by (intro Cons.IH[OF False]) auto
    finally show ?thesis
      by (simp add: hd add.assoc)
  qed
qed simp

end
