(* ===== verification/FastlzRoundtrip.thy ===== *)
theory FastlzRoundtrip
  imports FastlzDecode
begin

text \<open>
  Decompression inverts compression. The compressor keeps the invariant \<open>cinv\<close>: what it has
  written is \<open>encs\<close> of instructions, followed by an open literal run, whose meaning is the
  input consumed so far. The same invariant bounds the size of the output.
\<close>

section \<open>Matches found in the input\<close>

definition agrees :: "u8 list \<Rightarrow> nat \<Rightarrow> nat \<Rightarrow> nat \<Rightarrow> bool" where
  "agrees m a dist n \<longleftrightarrow>
     1 \<le> dist \<and> dist \<le> a \<and> a + n \<le> length m \<and> (\<forall>j<n. m ! (a + j) = m ! (a + j - dist))"

lemma copy_back_agrees:
  "agrees m a dist n \<Longrightarrow> copy_back dist n (take a m) = take (a + n) m"
proof (induction n arbitrary: a)
  case (Suc n)
  have a: "dist \<le> a" "1 \<le> dist" "a + Suc n \<le> length m" "m ! a = m ! (a - dist)"
    using Suc.prems by (auto simp: agrees_def)
  have "take a m @ [take a m ! (a - dist)] = take (Suc a) m"
    using a by (simp add: take_Suc_conv_app_nth)
  moreover have "agrees m (Suc a) dist n"
    using Suc.prems by (auto simp: agrees_def dest: spec[where x = "Suc _"])
  ultimately show ?case
    using Suc.IH[of "Suc a"] a by simp
qed simp

lemma same_bytes_sound:
  "same_bytes m ref ip k = Some True \<Longrightarrow>
     (\<forall>j<k. m ! (ip + j) = m ! (ref + j)) \<and> (0 < k \<longrightarrow> ip + k \<le> length m)"
proof (induction k arbitrary: ref ip)
  case (Suc k)
  then have s: "m ! ip = m ! ref" "same_bytes m (ref + 1) (ip + 1) k = Some True" "ip < length m"
    by (auto simp: mem_simps split: if_splits)
  show ?case
    using Suc.IH[OF s(2)] s by (auto simp: less_Suc_eq_0_disj)
qed simp

lemma same_bytes_total:
  "ref + k \<le> length m \<Longrightarrow> ip + k \<le> length m \<Longrightarrow> \<exists>b. same_bytes m ref ip k = Some b"
  by (induction k arbitrary: ref ip) (auto simp: rd_def)

lemma run_ext_sound:
  "run_ext m x ref ip k = Some ip' \<Longrightarrow>
     ip' \<le> ip + k \<and> (\<forall>j. ip + j < ip' \<longrightarrow> m ! (ref + j) = x) \<and>
     (0 < k \<longrightarrow> m ! ref = x \<longrightarrow> ip < ip')"
proof (induction k arbitrary: ref ip)
  case (Suc k)
  then obtain a where a: "rd m ref = Some a" by auto
  show ?case
  proof (cases "a = x")
    case True
    with Suc.prems a have r: "run_ext m x (ref + 1) (ip + 1) k = Some ip'" by simp
    have "m ! (ref + j) = x" if "ip + j < ip'" for j
      using that Suc.IH[OF r] a True by (cases j) (auto simp: mem_simps)
    with Suc.IH[OF r] run_ext_ge[OF r] show ?thesis by auto
  next
    case False
    with Suc.prems a show ?thesis by (auto simp: mem_simps)
  qed
qed simp

lemma run_ext_total: "ref + k \<le> length m \<Longrightarrow> \<exists>ip'. run_ext m x ref ip k = Some ip'"
  by (induction k arbitrary: ref ip) (auto simp: rd_def)

lemma cmp_steps_sound:
  "cmp_steps m ref ip k = Some (d, ref', ip') \<Longrightarrow>
     ip' \<le> ip + k \<and> ref' + ip = ref + ip' \<and> (d \<longrightarrow> ip < ip') \<and> (\<not> d \<longrightarrow> ip' = ip + k) \<and>
     (\<forall>j. ip + j + (if d then 1 else 0) < ip' \<longrightarrow> m ! (ip + j) = m ! (ref + j))"
proof (induction k arbitrary: ref ip)
  case (Suc k)
  then obtain a b where ab: "rd m ref = Some a" "rd m ip = Some b" by auto
  show ?case
  proof (cases "a = b")
    case True
    with Suc.prems ab have r: "cmp_steps m (ref + 1) (ip + 1) k = Some (d, ref', ip')" by simp
    have "m ! (ip + j) = m ! (ref + j)" if "ip + j + (if d then 1 else 0) < ip'" for j
      using that Suc.IH[OF r] ab True by (cases j) (auto simp: mem_simps)
    with Suc.IH[OF r] show ?thesis by auto
  next
    case False
    with Suc.prems ab show ?thesis by auto
  qed
qed auto

lemma cmp_steps_total:
  "ref \<le> ip \<Longrightarrow> ip + k \<le> length m \<Longrightarrow> \<exists>r. cmp_steps m ref ip k = Some r"
  by (induction k arbitrary: ref ip) (auto simp: rd_def)

lemma u16_inject:
  fixes a b c d :: u8
  assumes "ucast a OR push_bit 8 (ucast b) = (ucast c OR push_bit 8 (ucast d) :: u32)"
  shows "a = c \<and> b = d"
proof -
  have bits: "bit (ucast a OR push_bit 8 (ucast b) :: u32) n
      = bit (ucast c OR push_bit 8 (ucast d) :: u32) n" for n
    using assms by simp
  have "bit a n = bit c n" if "n < 8" for n
    using bits[of n] that by (simp add: bit_simps)
  moreover have "bit b n = bit d n" if "n < 8" for n
    using bits[of "n + 8"] that bit_imp_le_length[of a "n + 8"] bit_imp_le_length[of c "n + 8"]
    by (auto simp: bit_simps)
  ultimately show ?thesis
    by (simp add: bit_eq_iff)
qed

lemma run_check_sound:
  assumes "run_check lvl m a = Some True" "1 \<le> a"
  shows "lvl = 2 \<and> agrees m a 1 3"
proof -
  have u: "lvl = 2" "rd m a = rd m (a - 1)" "a < length m"
    "readu16 m (a - 1) = readu16 m (a + 1)" "readu16 m (a - 1) \<noteq> None"
    using assms by (auto simp: run_check_def mem_simps rd_def split: if_splits)
  have r: "readu16 m p = readu16 m q \<Longrightarrow> readu16 m p \<noteq> None \<Longrightarrow>
      p + 1 < length m \<and> q + 1 < length m \<and> m ! p = m ! q \<and> m ! (p + 1) = m ! (q + 1)" for p q
  proof -
    assume e: "readu16 m p = readu16 m q" "readu16 m p \<noteq> None"
    show ?thesis
      using e by (auto dest!: u16_inject simp: readu16_def rd_def split: if_splits)
  qed
  from r[OF u(4,5)] u(2,3) assms(2) have
    "m ! (a - 1) = m ! (a + 1)" "m ! a = m ! (a + 2)" "a + 2 < length m" "m ! a = m ! (a - 1)"
    by (auto simp: rd_def split: if_splits)
  then have "agrees m a 1 3"
    using assms(2) unfolding agrees_def by (auto simp: less_Suc_eq numeral_eq_Suc)
  with u show ?thesis by simp
qed

lemma hash_function_total: "p + 2 < length m \<Longrightarrow> \<exists>h. hash_function m p = Some h"
  by (auto simp: hash_function_def readu16_def rd_def)

lemma run_check_total: "1 \<le> a \<Longrightarrow> a + 2 < length m \<Longrightarrow> \<exists>b. run_check lvl m a = Some b"
  by (auto simp: run_check_def readu16_def rd_def)

lemma find_match_total:
  assumes "1 \<le> a" "a + 12 < length m" "\<forall>h. htab h \<le> a"
  shows "\<exists>r. find_match lvl m a htab = Some r"
proof -
  obtain b where b: "run_check lvl m a = Some b"
    using run_check_total assms by fastforce
  obtain h where h: "hash_function m a = Some h"
    using hash_function_total assms by fastforce
  have le: "htab h \<le> a" using assms by simp
  obtain e where e: "same_bytes m (htab h) a 3 = Some e"
    using same_bytes_total[of "htab h" 3 m a] le assms by auto
  obtain e2 where e2: "same_bytes m (htab h + 3) (a + 3) 2 = Some e2"
    using same_bytes_total[of "htab h + 3" 2 m "a + 3"] le assms by auto
  show ?thesis
    by (simp add: find_match_def b h e e2 Let_def)
qed

lemma find_match_sound:
  assumes "find_match lvl m a htab = Some (found, htab')"
    and "level lvl" and "2 \<le> a" and le: "\<forall>h. htab h \<le> a"
  shows "(\<forall>h. htab' h \<le> a) \<and>
    (case found of None \<Rightarrow> True
     | Some (dist, len, ref) \<Rightarrow>
         agrees m a dist len \<and> ref + dist = a + len \<and> 3 \<le> len \<and>
         dist < (if lvl = 2 then max_fardistance else max_distance 1) \<and>
         (if lvl = 2 \<and> max_distance 2 \<le> dist then len = 5 else len = 3))"
proof -
  obtain run where run: "run_check lvl m a = Some run"
    using assms(1) by (auto simp: find_match_def)
  show ?thesis
  proof (cases run)
    case True
    have "found = Some (1, 3, a - 1 + 3)" "htab' = htab"
      using assms(1) run True by (auto simp: find_match_def)
    with run_check_sound[of lvl m a] run True assms(3) le show ?thesis
      by (auto simp: max_fardistance_def max_distance_def)
  next
    case False
    obtain h where h: "hash_function m a = Some h"
      using assms(1) run False by (auto simp: find_match_def)
    have hle: "htab h \<le> a" using le by simp
    show ?thesis
    proof (cases found)
      case None
      with assms(1) run False h le show ?thesis
        by (auto simp: find_match_def Let_def split: if_splits)
    next
      case (Some t)
      then obtain dist len ref where t: "found = Some (dist, len, ref)" by (cases t) auto
      have d: "dist = a - htab h" "dist \<noteq> 0" "htab' = htab(h := a)"
        "dist < (if lvl = 1 then max_distance 1 else max_fardistance)"
        "same_bytes m (htab h) a 3 = Some True"
        using assms(1) run False h unfolding t
        by (auto simp: find_match_def Let_def split: if_splits)
      have far: "if lvl = 2 \<and> max_distance 2 \<le> dist
          then same_bytes m (htab h + 3) (a + 3) 2 = Some True \<and> len = 5 \<and> ref = htab h + 5
          else len = 3 \<and> ref = htab h + 3"
        using assms(1) run False h unfolding t
        by (auto simp: find_match_def Let_def split: if_splits)
      have eq: "m ! (a + j) = m ! (a + j - dist)" if "j < len" for j
      proof (cases "j < 3")
        case True
        have "a + j - dist = htab h + j" using hle d(1) by simp
        with True same_bytes_sound[OF d(5)] show ?thesis by simp
      next
        case False
        with that far have s: "same_bytes m (htab h + 3) (a + 3) 2 = Some True" "j - 3 < 2"
          by (auto split: if_splits)
        show ?thesis
          using conjunct1[OF same_bytes_sound[OF s(1)]] s(2) False hle d(1)
          by (auto dest!: spec[where x = "j - 3"] simp: add.commute)
      qed
      have bound: "a + len \<le> length m"
        using far same_bytes_sound[OF d(5)] same_bytes_sound[of m "htab h + 3" "a + 3" 2]
        by (auto split: if_splits)
      have D: "1 \<le> dist" "dist \<le> a" "ref + dist = a + len" "3 \<le> len"
        using d hle far by (auto split: if_splits)
      have "agrees m a dist len"
        unfolding agrees_def using D bound eq by simp
      then show ?thesis
        using D d(3,4) le far assms(2) by (auto simp: t split: if_splits)
    qed
  qed
qed

lemma extend_match_sound:
  assumes "agrees m a dist len" "ref + dist = a + len" "3 \<le> len" "a + len < length m - 2"
    and "a + len + 7 < length m"
    and ext: "extend_match m (length m - 2) (dist - 1) ref (a + len) = Some ip'"
  shows "agrees m a dist (ip' - 1 - a) \<and> a + len < ip' \<and> ip' \<le> max (length m - 2) (a + len + 8)"
proof -
  have old: "1 \<le> dist" "dist \<le> a" "\<And>j. j < len \<Longrightarrow> m ! (a + j) = m ! (a + j - dist)"
    "a + len \<le> length m"
    using assms(1) by (auto simp: agrees_def)
  show ?thesis
  proof (cases "dist = 1")
    case True
    let ?x = "m ! (a + len - 1)"
    have r: "run_ext m ?x ref (a + len) (length m - 2 - (a + len)) = Some ip'"
      using ext True by (auto simp: extend_match_def mem_simps)
    have ref: "ref = a + len - 1" using assms(2) True by simp
    have b: "ip' \<le> length m - 2" "a + len < ip'"
      using run_ext_sound[OF r] assms(4) ref by auto
    have x: "m ! (a + j) = ?x" if "a + j + 1 < ip'" "len - 1 \<le> j" for j
      using run_ext_sound[OF r] that ref assms(3)
      by (auto dest!: spec[where x = "j + 1 - len"])
    have "m ! (a + j) = m ! (a + j - 1)" if "j < ip' - 1 - a" for j
    proof (cases "j < len")
      case True
      with old(3)[of j] \<open>dist = 1\<close> show ?thesis by simp
    next
      case False
      have "a + j - 1 = a + (j - 1)" using False assms(3) by simp
      with x[of j] x[of "j - 1"] False that assms(3) show ?thesis by auto
    qed
    with b old True show ?thesis by (auto simp: agrees_def)
  next
    case False
    obtain d1 ref1 ip1 where c1: "cmp_steps m ref (a + len) 8 = Some (d1, ref1, ip1)"
      using ext False old by (auto simp: extend_match_def split: if_splits)
    have ref: "ref = a + len - dist" using assms(2) by simp
    have j1: "m ! (a + j) = m ! (a + j - dist)" if "a + j + (if d1 then 1 else 0) < ip1" for j
    proof (cases "j < len")
      case False
      with cmp_steps_sound[OF c1] that ref old(2) assms(3) show ?thesis
        by (auto dest!: spec[where x = "j - len"])
    qed (use old in auto)
    show ?thesis
    proof (cases d1)
      case True
      with ext False c1 old have "ip' = ip1" by (auto simp: extend_match_def)
      with cmp_steps_sound[OF c1] True j1 old assms(4,5) cmp_steps_ge[OF c1] show ?thesis
        by (auto simp: agrees_def)
    next
      case nd: False
      obtain d2 ref2 where c2: "cmp_steps m ref1 ip1 (length m - 2 - ip1) = Some (d2, ref2, ip')"
        using ext False c1 nd old by (auto simp: extend_match_def)
      have i1: "ip1 = a + len + 8" "ref1 = a + len + 8 - dist"
        using cmp_steps_sound[OF c1] nd ref assms(2) by auto
      have "m ! (a + j) = m ! (a + j - dist)" if "j < ip' - 1 - a" for j
      proof (cases "a + j < ip1")
        case True
        with j1 nd show ?thesis by auto
      next
        case False
        with cmp_steps_sound[OF c2] that i1 old(2) show ?thesis
          by (auto dest!: spec[where x = "a + j - ip1"] split: if_splits)
      qed
      with cmp_steps_sound[OF c2] i1 old assms(4,5) cmp_steps_ge[OF c2] show ?thesis
        by (auto simp: agrees_def)
    qed
  qed
qed

section \<open>Encoding a match as instructions\<close>

fun mats1 :: "nat \<Rightarrow> nat \<Rightarrow> lz list" where
  "mats1 l d = (if l > 262 then Mat d 262 # mats1 (l - 262) d else [Mat d (l + 2)])"

declare mats1.simps [simp del]

definition mats :: "nat \<Rightarrow> nat \<Rightarrow> nat \<Rightarrow> lz list" where
  "mats lvl l d = (if lvl = 2 then [Mat d (l + 2)] else mats1 l d)"

lemma mats1_props:
  assumes "1 \<le> l" "d < 8192"
  shows "encs 1 (mats1 l d) = enc_match1 l d"
    and "\<forall>i \<in> set (mats1 l d). wf_lz 1 i"
    and "sem out (mats1 l d) = copy_back (d + 1) (l + 2) out"
    and "d < length out \<Longrightarrow> valid out (mats1 l d)"
    and "length (enc_match1 l d) \<le> l + 1"
    and "mats1 l d \<noteq> []"
  using assms
proof (induction l d arbitrary: out rule: mats1.induct)
  case (1 l d)
  have e: "enc_one1 260 d = [byte (7 * 32 + d div 256), byte (264 - 2 - 7 - 2), byte (d mod 256)]"
    by (simp add: enc_one1_def)
  {
    case 1
    show ?case
    proof (cases "l > 262")
      case True
      with 1 "1.IH"(1)[OF True] e show ?thesis
        by (subst mats1.simps, subst enc_match1.simps) (simp del: of_nat_add of_nat_mult)
    next
      case False
      then show ?thesis
        by (subst mats1.simps, subst enc_match1.simps) (simp add: enc_one1_def)
    qed
  next
    case 2
    then show ?case
      using "1.IH"(2) by (subst mats1.simps) auto
  next
    case 3
    show ?case
    proof (cases "l > 262")
      case True
      then have "l + 2 = 262 + (l - 262 + 2)" by simp
      then have c: "copy_back (d + 1) (l + 2) out
          = copy_back (d + 1) (l - 262 + 2) (copy_back (d + 1) 262 out)"
        by (simp only: copy_back_add[of "d + 1" 262 "l - 262 + 2"])
      have "1 \<le> l - 262" using True by simp
      with 3 c "1.IH"(3)[OF True] True show ?thesis
        by (subst mats1.simps) (simp only: foldl.simps run_lz.simps if_True)
    next
      case False
      then show ?thesis by (subst mats1.simps) simp
    qed
  next
    case 4
    then show ?case
      using "1.IH"(4) by (subst mats1.simps) auto
  next
    case 5
    have "262 < l \<Longrightarrow> Suc 0 \<le> l - 262" by simp
    with 5 show ?case
      using "1.IH"(5) by (subst enc_match1.simps) auto
  next
    case 6
    then show ?case by (subst mats1.simps) simp
  }
qed

lemma mats_props:
  assumes "level lvl" "1 \<le> l" "d + 1 < (if lvl = 2 then max_fardistance else max_distance 1)"
  shows "encs lvl (mats lvl l d) = enc_match lvl l d"
    and "\<forall>i \<in> set (mats lvl l d). wf_lz lvl i"
    and "sem out (mats lvl l d) = copy_back (d + 1) (l + 2) out"
    and "d < length out \<Longrightarrow> valid out (mats lvl l d)"
    and "mats lvl l d \<noteq> []"
proof -
  show "encs lvl (mats lvl l d) = enc_match lvl l d"
    "sem out (mats lvl l d) = copy_back (d + 1) (l + 2) out"
    "d < length out \<Longrightarrow> valid out (mats lvl l d)"
    "mats lvl l d \<noteq> []"
    using assms mats1_props[of l d]
    by (auto simp: mats_def enc_match_def max_distance_def split: if_splits)
  show "\<forall>i \<in> set (mats lvl l d). wf_lz lvl i"
    using assms mats1_props[of l d]
    by (auto simp: mats_def max_distance_def max_fardistance_def split: if_splits)
qed

text \<open>A far match of level 2 pays for itself only from five bytes on.\<close>

lemma enc_len_length: "length (enc_len n) \<le> n div 255 + 1"
proof (induction n rule: enc_len.induct)
  case (1 n)
  show ?case
  proof (cases "n \<ge> 255")
    case True
    then have "n div 255 = Suc ((n - 255) div 255)"
      by (simp add: le_div_geq)
    with 1[OF True] True show ?thesis by (subst enc_len.simps) simp
  next
    case False
    then show ?thesis by (subst enc_len.simps) simp
  qed
qed

lemma enc_match_length:
  assumes "level lvl" "1 \<le> l" "d + 1 < (if lvl = 2 then max_fardistance else max_distance 1)"
    and far: "lvl = 2 \<Longrightarrow> max_distance 2 \<le> d \<Longrightarrow> 3 \<le> l"
  shows "length (enc_match lvl l d) \<le> l + 1"
proof (cases "lvl = 2")
  case True
  have dl: "length (enc_dist2 d) = (if d < 8191 then 1 else 3)"
    by (simp add: enc_dist2_def)
  have "l \<ge> 7 \<Longrightarrow> length (enc_len (l - 7)) \<le> l - 6"
    using enc_len_length[of "l - 7"] by linarith
  then show ?thesis
    using True assms dl far by (auto simp: enc_match_def enc_match2_alt max_distance_def)
next
  case False
  then show ?thesis
    using assms mats1_props(5)[of l d]
    by (auto simp: enc_match_def max_distance_def)
qed

section \<open>The invariant of the compressor\<close>

fun starts_lit :: "lz list \<Rightarrow> u8 list \<Rightarrow> bool" where
  "starts_lit [] lits \<longleftrightarrow> lits \<noteq> []"
| "starts_lit (Lit bs # is) lits \<longleftrightarrow> True"
| "starts_lit (Mat d n # is) lits \<longleftrightarrow> False"

text \<open>
  The last conjunct but one is the size bound: a literal run of 32 bytes costs 33, a shorter
  run is always followed by a match, which saves at least one byte.
\<close>

definition reads_as :: "nat \<Rightarrow> u8 list \<Rightarrow> nat \<Rightarrow> lz list \<Rightarrow> u8 list \<Rightarrow> bool" where
  "reads_as lvl m ip is lits \<longleftrightarrow>
     (\<forall>i \<in> set is. wf_lz lvl i) \<and> valid [] is \<and> sem [] is @ lits = take ip m \<and>
     ip \<le> length m \<and> length lits < 32 \<and>
     32 * length (encs lvl is) + 33 * length lits \<le> 33 * ip \<and> starts_lit is lits"

definition cinv :: "nat \<Rightarrow> u8 list \<Rightarrow> nat \<Rightarrow> u8 list \<Rightarrow> nat \<Rightarrow> bool" where
  "cinv lvl m ip out copy \<longleftrightarrow>
     (\<exists>is lits. out = encs lvl is @ byte 31 # lits \<and> copy = length lits \<and> reads_as lvl m ip is lits)"

lemma starts_lit_append: "starts_lit is lits \<Longrightarrow> starts_lit (is @ js) lits' \<or> is = []"
  by (cases "(is, lits)" rule: starts_lit.cases) auto

lemma starts_lit_snoc: "starts_lit is lits \<Longrightarrow> starts_lit is (lits @ bs)"
  by (cases "(is, lits)" rule: starts_lit.cases) auto

text \<open>Closing the open run turns it into an instruction.\<close>

definition closed :: "lz list \<Rightarrow> u8 list \<Rightarrow> lz list" where
  "closed is lits = (if lits = [] then is else is @ [Lit lits])"

lemma close_literals_encs:
  "close_literals (length lits) (encs lvl is @ byte 31 # lits) = encs lvl (closed is lits)"
  by (auto simp: close_literals_def closed_def butlast_append list_update_append)

lemma closed_props:
  assumes "reads_as lvl m ip is lits"
  shows "\<forall>i \<in> set (closed is lits). wf_lz lvl i" "valid [] (closed is lits)"
    "sem [] (closed is lits) = take ip m"
    "starts_lit (closed is lits) []"
    "length (encs lvl (closed is lits)) = length (encs lvl is) + (if lits = [] then 0 else length lits + 1)"
  using assms starts_lit_append[of "is" lits "[Lit lits]" "[]"]
  by (auto simp: reads_as_def closed_def valid_append)

lemma add_literal_inv:
  assumes inv: "cinv lvl m ip out copy" and b: "rd m ip = Some b"
    and al: "add_literal b out copy = (out', copy')"
  shows "cinv lvl m (Suc ip) out' copy'"
proof -
  obtain "is" lits where out: "out = encs lvl is @ byte 31 # lits" "copy = length lits"
    and r: "reads_as lvl m ip is lits"
    using inv by (auto simp: cinv_def)
  have t: "take (Suc ip) m = take ip m @ [b]" "Suc ip \<le> length m"
    using b by (auto simp: mem_simps take_Suc_conv_app_nth)
  have st: "starts_lit is (lits @ [b])"
    using r starts_lit_snoc by (auto simp: reads_as_def)
  show ?thesis
  proof (cases "copy + 1 = 32")
    case True
    have l: "length lits = 31" using True out by simp
    have "reads_as lvl m (Suc ip) (is @ [Lit (lits @ [b])]) []"
      using r t l st starts_lit_append[of "is" lits "[Lit (lits @ [b])]" "[]"]
      by (auto simp: reads_as_def valid_append)
    then show ?thesis
      using al True l out unfolding cinv_def
      by (intro exI[of _ "is @ [Lit (lits @ [b])]"] exI[of _ "[]"]) (auto simp: add_literal_def)
  next
    case False
    have "reads_as lvl m (Suc ip) is (lits @ [b])"
      using r t False st out by (auto simp: reads_as_def)
    then show ?thesis
      using al False out unfolding cinv_def
      by (intro exI[of _ "is"] exI[of _ "lits @ [b]"]) (auto simp: add_literal_def)
  qed
qed

lemma add_match_inv:
  assumes inv: "cinv lvl m ip out copy" and lvl: "level lvl"
    and ag: "agrees m ip dist n" and n: "3 \<le> n"
    and d: "dist < (if lvl = 2 then max_fardistance else max_distance 1)"
    and far: "lvl = 2 \<Longrightarrow> max_distance 2 < dist \<Longrightarrow> 5 \<le> n"
  shows "cinv lvl m (ip + n) (close_literals copy out @ enc_match lvl (n - 2) (dist - 1) @ [byte (32 - 1)]) 0"
proof -
  obtain "is" lits where out: "out = encs lvl is @ byte 31 # lits" "copy = length lits"
    and r: "reads_as lvl m ip is lits"
    using inv by (auto simp: cinv_def)
  note cl = closed_props[OF r]
  have a: "1 \<le> dist" "dist \<le> ip" "ip + n \<le> length m" using ag by (auto simp: agrees_def)
  have l: "1 \<le> n - 2" "dist - 1 + 1 < (if lvl = 2 then max_fardistance else max_distance 1)"
    using n d a by auto
  note mp = mats_props[OF lvl l]
  have len: "length (enc_match lvl (n - 2) (dist - 1)) \<le> n - 1"
  proof -
    have "max_distance 2 \<le> dist - 1 \<Longrightarrow> max_distance 2 < dist"
      by (simp add: max_distance_def)
    then have "lvl = 2 \<Longrightarrow> max_distance 2 \<le> dist - 1 \<Longrightarrow> 3 \<le> n - 2"
      using far n by fastforce
    from enc_match_length[OF lvl l this] n show ?thesis by simp
  qed
  have lt: "dist - 1 < length (take ip m)" using a by simp
  have n2: "n - 2 + 2 = n" "dist - 1 + 1 = dist" using n a by auto
  have sm: "sem (take ip m) (mats lvl (n - 2) (dist - 1)) = take (ip + n) m"
    using mp(3)[of "take ip m"] copy_back_agrees[OF ag] unfolding n2 by simp
  let ?js = "closed is lits @ mats lvl (n - 2) (dist - 1)"
  have "32 * length (encs lvl ?js) \<le> 33 * (ip + n)"
    using r len n cl(5) mp(1) by (auto simp: reads_as_def split: if_splits)
  moreover have "starts_lit ?js []"
    using cl(4) starts_lit_append[OF cl(4)] by (cases "closed is lits") auto
  ultimately have "reads_as lvl m (ip + n) ?js []"
    using cl mp(2) sm mp(4)[OF lt] a
    by (auto simp: reads_as_def valid_append)
  then show ?thesis
    unfolding cinv_def out close_literals_encs mp(1)[symmetric]
    by (intro exI[of _ ?js] exI[of _ "[]"]) simp
qed

section \<open>The loop\<close>

lemma compress_step_inv:
  assumes inv: "cinv lvl m ip out copy" and lvl: "level lvl"
    and ip: "2 \<le> ip" "ip + 12 < length m" and h: "\<forall>h. htab h \<le> ip"
    and step: "compress_step lvl m ip out copy htab = Some (ip', out', copy', htab')"
  shows "cinv lvl m ip' out' copy' \<and> (\<forall>h. htab' h \<le> ip') \<and> 2 \<le> ip' \<and> ip' \<le> length m"
proof -
  obtain found ht where f: "find_match lvl m ip htab = Some (found, ht)"
    using step by (auto simp: compress_step_def)
  note fs = find_match_sound[OF f lvl ip(1) h]
  show ?thesis
  proof (cases found)
    case None
    then obtain b where b: "rd m ip = Some b" "add_literal b out copy = (out', copy')"
      "ip' = Suc ip" "htab' = ht"
      using step f by (auto simp: compress_step_def Let_def case_prod_unfold)
    show ?thesis
      using add_literal_inv[OF inv b(1,2)] b fs ip by (auto simp: mem_simps le_Suc_eq)
  next
    case (Some t)
    then obtain dist len ref where t: "found = Some (dist, len, ref)" by (cases t) auto
    obtain x h1 h2 where x: "extend_match m (length m - 2) (dist - 1) ref (ip + len) = Some x"
      "ip' = x - 3 + 2" "copy' = 0" "htab' = ht(h1 := x - 3, h2 := x - 3 + 1)"
      "out' = close_literals copy out @ enc_match lvl (x - 3 - ip) (dist - 1) @ [byte (32 - 1)]"
      using step f t by (auto simp: compress_step_def Let_def)
    have fsn: "agrees m ip dist len" "ref + dist = ip + len" "3 \<le> len" "len \<le> 5"
      "dist < (if lvl = 2 then max_fardistance else max_distance 1)"
      "lvl = 2 \<Longrightarrow> max_distance 2 \<le> dist \<Longrightarrow> len = 5" "\<forall>h. ht h \<le> ip"
      using fs t by (auto split: if_splits)
    have e: "agrees m ip dist (x - 1 - ip)" "ip + len < x"
      using extend_match_sound[OF fsn(1-3) _ _ x(1)] fsn(4) ip by auto
    have n: "x - 3 - ip = (x - 1 - ip) - 2" "ip' = ip + (x - 1 - ip)" "3 \<le> x - 1 - ip"
      using e fsn x by auto
    have "cinv lvl m ip' out' copy'"
      unfolding x(3,5) n(1) n(2) using fsn e n(3)
      by (intro add_match_inv[OF inv lvl e(1) n(3) fsn(5)]) auto
    moreover have "\<forall>h. htab' h \<le> ip'"
      using fsn(7) n e fsn(3) unfolding x(4) x(2) by (auto intro: order_trans)
    ultimately show ?thesis
      using n ip e by (auto simp: agrees_def)
  qed
qed

lemma compress_loop_inv:
  assumes lvl: "level lvl"
  shows "cinv lvl m ip out copy \<Longrightarrow> 2 \<le> ip \<Longrightarrow> \<forall>h. htab h \<le> ip \<Longrightarrow>
     compress_loop lvl m ip out copy htab = Some (ip', out', copy') \<Longrightarrow> cinv lvl m ip' out' copy'"
  using lvl
proof (induction lvl m ip out copy htab rule: compress_loop.induct)
  case (1 lvl m ip out copy htab)
  show ?case
  proof (cases "ip + 12 < length m")
    case True
    then obtain i2 o2 c2 h2 where s: "compress_step lvl m ip out copy htab = Some (i2, o2, c2, h2)"
      "compress_loop lvl m i2 o2 c2 h2 = Some (ip', out', copy')"
      using "1.prems"(4) by (subst (asm) compress_loop.simps) auto
    with compress_step_inv[OF "1.prems"(1,5,2) True "1.prems"(3) s(1)]
      "1.IH"[OF True s(1) refl refl refl] "1.prems"(5) show ?thesis by auto
  next
    case False
    with "1.prems" show ?thesis by (subst (asm) compress_loop.simps) auto
  qed
qed

lemma compress_tail_inv:
  "cinv lvl m ip out copy \<Longrightarrow> compress_tail m ip k out copy = Some (out', copy') \<Longrightarrow>
     cinv lvl m (ip + k) out' copy'"
proof (induction k arbitrary: ip out copy)
  case (Suc k)
  then obtain b where "rd m ip = Some b" by auto
  moreover obtain o2 c2 where "add_literal b out copy = (o2, c2)" by fastforce
  ultimately show ?case
    using Suc.IH[OF add_literal_inv] Suc.prems by fastforce
qed simp

lemma compress_tail_total:
  "ip + k \<le> length m \<Longrightarrow> \<exists>r. compress_tail m ip k out copy = Some r"
  by (induction k arbitrary: ip out copy) (auto simp: rd_def Let_def case_prod_unfold)

text \<open>Level 1 never reads outside its input.\<close>

lemma compress_step1_total:
  assumes ip: "2 \<le> ip" "ip + 12 < length m" and h: "\<forall>h. htab h \<le> ip"
  shows "\<exists>r. compress_step 1 m ip out copy htab = Some r"
proof -
  obtain found ht where f: "find_match 1 m ip htab = Some (found, ht)"
    using find_match_total[of ip m htab 1] ip h by auto
  note fs = find_match_sound[OF f _ ip(1) h]
  show ?thesis
  proof (cases found)
    case None
    then show ?thesis
      using f ip by (auto simp: compress_step_def rd_def Let_def case_prod_unfold)
  next
    case (Some t)
    then obtain dist len ref where t: "found = Some (dist, len, ref)" by (cases t) auto
    have g: "agrees m ip dist len" "ref + dist = ip + len" "len = 3"
      using fs t by (auto split: if_splits)
    have d: "1 \<le> dist" "dist \<le> ip" "ref \<le> ip + len" using g by (auto simp: agrees_def)
    have "\<exists>x. extend_match m (length m - 2) (dist - 1) ref (ip + len) = Some x"
    proof (cases "dist = 1")
      case True
      then show ?thesis
        using run_ext_total[of ref "length m - 2 - (ip + len)" m] ip g d
        by (auto simp: extend_match_def rd_def)
    next
      case False
      obtain d1 r1 i1 where c: "cmp_steps m ref (ip + len) 8 = Some (d1, r1, i1)"
        using cmp_steps_total[of ref "ip + len" 8 m] d g ip by auto
      have "r1 \<le> i1" "i1 \<le> length m - 2"
        using cmp_steps_sound[OF c] d g ip by auto
      then show ?thesis
        using c False d cmp_steps_total[of r1 i1 "length m - 2 - i1" m] ip
        by (auto simp: extend_match_def)
    qed
    then obtain x where x: "extend_match m (length m - 2) (dist - 1) ref (ip + len) = Some x" ..
    have b: "ip + len < x" "x \<le> length m - 2"
      using extend_match_sound[OF g(1,2) _ _ _ x] g(3) ip by auto
    have "x - 3 + 2 < length m" "Suc (x - 3) + 2 < length m"
      using b ip g(3) by linarith+
    then obtain h1 h2 where "hash_function m (x - 3) = Some h1" "hash_function m (Suc (x - 3)) = Some h2"
      using hash_function_total by blast
    then show ?thesis
      using f t x by (auto simp: compress_step_def Let_def)
  qed
qed

lemma compress_loop1_total:
  "cinv 1 m ip out copy \<Longrightarrow> 2 \<le> ip \<Longrightarrow> \<forall>h. htab h \<le> ip \<Longrightarrow>
     \<exists>r. compress_loop 1 m ip out copy htab = Some r"
proof (induction "1 :: nat" m ip out copy htab rule: compress_loop.induct)
  case (1 m ip out copy htab)
  show ?case
  proof (cases "ip + 12 < length m")
    case True
    obtain i2 o2 c2 h2 where s: "compress_step 1 m ip out copy htab = Some (i2, o2, c2, h2)"
      using compress_step1_total "1.prems" True by fastforce
    with compress_step_inv[OF "1.prems"(1) _ "1.prems"(2) True "1.prems"(3) s]
      "1.hyps"[OF True s refl refl refl] True show ?thesis
      by (subst compress_loop.simps) simp
  next
    case False
    then show ?thesis by (subst compress_loop.simps) simp
  qed
qed

section \<open>Decompression inverts compression\<close>

lemma cinv_start: "4 \<le> length m \<Longrightarrow> cinv lvl m 2 [byte (32 - 1), m ! 0, m ! 1] 2"
proof -
  assume m: "4 \<le> length m"
  then have "take 2 m = [m ! 0, m ! 1]"
    by (cases m; cases "tl m") auto
  with m have "reads_as lvl m 2 [] [m ! 0, m ! 1]"
    by (simp add: reads_as_def)
  then show ?thesis
    unfolding cinv_def by (intro exI[of _ "[]"] exI[of _ "[m ! 0, m ! 1]"]) simp
qed

lemma compress_body_instrs:
  assumes "compress_body lvl m = Some out" "level lvl" "m \<noteq> []"
  shows "\<exists>js lv. level lv \<and> (\<forall>i \<in> set js. wf_lz lv i) \<and> valid [] js \<and> sem [] js = m \<and>
     starts_lit js [] \<and> 32 * length (encs lv js) \<le> 33 * length m + 32 \<and>
     out = (if lv = 2 then (encs lv js)[0 := encs lv js ! 0 OR 32] else encs lv js)"
proof (cases "length m < 4")
  case True
  with assms have "out = encs 1 [Lit m]" "length m \<le> 32"
    by (auto simp: compress_body_def)
  then show ?thesis
    using assms by (intro exI[of _ "[Lit m]"] exI[of _ 1]) auto
next
  case False
  then obtain ip out1 copy1 out2 copy2 where c:
    "compress_loop lvl m 2 [byte (32 - 1), m ! 0, m ! 1] 2 (\<lambda>_. 0) = Some (ip, out1, copy1)"
    "compress_tail m ip (length m - ip) out1 copy1 = Some (out2, copy2)"
    "out = (if lvl = 2 then (close_literals copy2 out2)[0 := close_literals copy2 out2 ! 0 OR 32]
            else close_literals copy2 out2)"
    using assms(1) by (auto simp: compress_body_def Let_def rd_def split: if_splits)
  have i1: "cinv lvl m ip out1 copy1"
    using compress_loop_inv[OF assms(2) cinv_start _ _ c(1)] False by simp
  then have "ip \<le> length m" by (auto simp: cinv_def reads_as_def)
  with compress_tail_inv[OF i1 c(2)] have "cinv lvl m (length m) out2 copy2" by simp
  then obtain "is" lits where o: "out2 = encs lvl is @ byte 31 # lits" "copy2 = length lits"
    and r: "reads_as lvl m (length m) is lits"
    by (auto simp: cinv_def)
  have "close_literals copy2 out2 = encs lvl (closed is lits)"
    unfolding o by (rule close_literals_encs)
  moreover have "32 * length (encs lvl (closed is lits)) \<le> 33 * length m + 32"
    using r closed_props(5)[OF r] by (auto simp: reads_as_def)
  ultimately show ?thesis
    using closed_props[OF r] assms(2) c(3) by (intro exI[of _ "closed is lits"] exI[of _ lvl]) simp
qed

text \<open>The loop never looks at the first byte again.\<close>

lemma rd_Cons: "1 \<le> ip \<Longrightarrow> rd (a # t) ip = rd (b # t) ip"
  by (cases ip) (auto simp: rd_def)

lemma ext_len_Cons: "1 \<le> ip \<Longrightarrow> ext_len (a # t) ip len = ext_len (b # t) ip len"
proof (induction "a # t" ip len rule: ext_len.induct)
  case (1 ip len)
  then show ?case
    by (subst (1 2) ext_len.simps) (auto simp: nth_Cons')
qed

lemma match_fields_Cons:
  "1 \<le> ip \<Longrightarrow> match_fields lvl (a # t) ip ctrl = match_fields lvl (b # t) ip ctrl"
proof -
  assume ip: "1 \<le> ip"
  have n: "ip + k \<noteq> 0" for k using ip by simp
  have r: "rd (a # t) j = rd (b # t) j" if "ip \<le> j" for j using rd_Cons[of j a t b] that ip by simp
  define hdr where "hdr u = (if ctrl div 32 - 1 = 7 - 1
      then if lvl = 1 then do { c \<leftarrow> rd (u # t) ip; Some (ctrl div 32 - 1 + unat c, ip + 1) }
           else ext_len (u # t) ip (ctrl div 32 - 1)
      else Some (ctrl div 32 - 1, ip))" for u
  have h: "hdr a = hdr b"
    using ip by (simp add: hdr_def r ext_len_Cons[OF ip, of a t _ b])
  have ge: "hdr b = Some (len', ip') \<Longrightarrow> ip \<le> ip'" for len' ip'
    using ext_len_progress[of "b # t" ip _ len' ip']
    by (auto simp: hdr_def less_imp_le split: if_splits)
  show ?thesis
    unfolding match_fields_def Let_def hdr_def[symmetric] h
    by (rule bind_option_cong) (auto simp: r dest!: ge cong: bind_option_cong if_cong)
qed

lemma decompress_loop_Cons:
  "1 \<le> ip \<Longrightarrow> decompress_loop lvl (a # t) limit maxout ip ctrl out
     = decompress_loop lvl (b # t) limit maxout ip ctrl out"
proof (induction lvl "a # t" limit maxout ip ctrl out rule: decompress_loop.induct)
  case (1 lvl limit maxout ip ctrl out)
  note mf = match_fields_Cons[OF "1.prems", of lvl a t ctrl b]
  show ?case
  proof (cases "ctrl \<ge> 32")
    case True
    show ?thesis
    proof (cases "match_fields lvl (b # t) ip ctrl")
      case None
      with True mf show ?thesis by (subst (1 2) decompress_loop_unfold) simp
    next
      case (Some r)
      obtain len ref ip' where r: "r = (len, ref, ip')" by (cases r)
      note m = mf[unfolded Some r]
      have ip': "1 \<le> ip'" using match_fields_progress[OF m] by simp
      have rd: "rd (a # t) ip' = rd (b # t) ip'" by (rule rd_Cons[OF ip'])
      show ?thesis
        using True m Some r rd "1.hyps"(1)[OF True m refl refl] ip'
        by (subst (1 2) decompress_loop_unfold)
           (auto simp: emit_match_def split: if_splits intro!: bind_option_cong)
    qed
  next
    case False
    have rdn: "rdn (a # t) ip n = rdn (b # t) ip n" for n
      using "1.prems" by (cases ip) (auto simp: rdn_def)
    have rd: "rd (a # t) (ip + n) = rd (b # t) (ip + n)" for n
      using "1.prems" by (intro rd_Cons) simp
    show ?thesis
      using False rdn rd[of "ctrl + 1"] "1.hyps"(2)[OF False] "1.prems"
      by (subst (1 2) decompress_loop_unfold)
         (auto intro!: bind_option_cong split: if_splits)
  qed
qed

lemma marker: "n < 32 \<Longrightarrow> unat (byte n OR 32) = n + 32"
proof -
  assume n: "n < 32"
  have "list_all (\<lambda>n. unat (byte n OR 32) = n + 32) [0..<32]"
    by code_simp
  with n show ?thesis by (auto simp: list_all_iff)
qed

lemma fastlz_roundtrip_body:
  assumes "compress_body lvl m = Some out" "level lvl" "m \<noteq> []" "length m \<le> maxout"
  shows "fastlz_decompress (out @ extra) (length out) maxout = Some (length m, m)"
proof -
  obtain lv js where lv: "level lv" and js: "\<forall>i \<in> set js. wf_lz lv i" "valid [] js" "sem [] js = m"
    "starts_lit js []"
    and out: "out = (if lv = 2 then (encs lv js)[0 := encs lv js ! 0 OR 32] else encs lv js)"
    using compress_body_instrs[OF assms(1-3)] by auto
  obtain bs js' where l: "js = Lit bs # js'"
    using js(4) by (cases js; cases "hd js") auto
  define k where "k = length bs - 1"
  have n: "k < 32" using js(1) l by (auto simp: k_def)
  define t where "t = bs @ encs lv js'"
  have e: "encs lv js = byte k # t" by (simp add: l t_def k_def)
  have c: "unat (byte k) = k"
    using n by (intro unat_byte) simp
  have dec: "decompress_loop lv (x # t @ extra) (Suc (length t)) maxout 1 k []
      = Some (length m, m)" for x
  proof -
    have "decompress_loop lv ([] @ encs lv js @ extra) (length ([] :: u8 list) + length (encs lv js))
        maxout (Suc (length ([] :: u8 list))) (unat (hd (encs lv js))) [] = Some (length m, m)"
      using decode_all[OF lv _ js(1,2), of maxout "[]" extra] l js(3) assms(4) by simp
    then show ?thesis
      using decompress_loop_Cons[of 1 lv x "t @ extra" "Suc (length t)" maxout k "[]" "byte k"]
      by (simp add: e c)
  qed
  show ?thesis
  proof (cases "lv = 2")
    case True
    have "out = (byte k OR 32) # t" using out True e by simp
    then show ?thesis
      using dec[of "byte k OR 32"] True n marker[OF n] ctrl_fields(3,4)[OF n, of 1]
      by (simp add: add.commute[of 32] fastlz_decompress_def fastlz_decompressor_def rd_def Let_def)
  next
    case False
    then have "out = byte k # t" "lv = 1" using out e lv by auto
    then show ?thesis
      using dec n c by (simp add: fastlz_decompress_def fastlz_decompressor_def rd_def Let_def)
  qed
qed

lemma compress_body_length:
  assumes "compress_body lvl m = Some out" "level lvl"
  shows "length out \<le> length m + length m div 32 + 1"
proof (cases "m = []")
  case False
  with compress_body_instrs[OF assms] obtain n where "32 * n \<le> 33 * length m + 32" "length out = n"
    by fastforce
  then show ?thesis by linarith
qed (use assms in \<open>simp add: compress_body_def\<close>)

lemma compress_body1_total: "\<exists>out. compress_body 1 m = Some out"
proof (cases "length m < 4")
  case False
  obtain ip out copy where l: "compress_loop 1 m 2 [byte (32 - 1), m ! 0, m ! 1] 2 (\<lambda>_. 0) = Some (ip, out, copy)"
    using compress_loop1_total[OF cinv_start] False by fastforce
  then have "cinv 1 m ip out copy"
    using compress_loop_inv[OF _ cinv_start _ _ l] False by simp
  then have "ip \<le> length m" by (auto simp: cinv_def reads_as_def)
  then obtain r where "compress_tail m ip (length m - ip) out copy = Some r"
    using compress_tail_total[of ip "length m - ip" m out copy] by auto
  then show ?thesis
    using False l by (cases r) (auto simp: compress_body_def rd_def Let_def)
qed (auto simp: compress_body_def)

section \<open>Properties of the compressor\<close>

text \<open>
  The hash table is released on every path, so a call leaves the heap as it was; and the result
  is that of \<open>compress_body\<close> at one of the two levels.
\<close>

lemma fastlz_compress_Some:
  assumes "fastlz_compress e m s = Some (r, s')"
  obtains (fail) n where "r = None" "s' = emit (C_malloc_fail n) s"
    | (ok) lvl out n where "level lvl" "compress_body lvl m = Some out" "r = Some out"
        "s' = emit (C_free (length (hist s))) (emit (C_malloc (length (hist s)) n) s)"
  using assms
  by (cases "length m < 65536"; cases rule: rt_malloc_cases[of e s "4 * 1024"])
    (auto simp: fastlz_compress_def fastlz_compressor_def rt_free_def)

lemma fastlz_compress_total:
  "length m < 65536 \<Longrightarrow> \<exists>r s'. fastlz_compress e m s = Some (r, s')"
  using compress_body1_total[of m]
  by (cases rule: rt_malloc_cases[of e s "4 * 1024"])
    (auto simp: fastlz_compress_def fastlz_compressor_def)

text \<open>C6.
  FastLZ is lossless: what \<open>fastlz_compress\<close> returns for a non-empty input, at whichever level
  it chose, is decompressed by \<open>fastlz_decompress\<close> to exactly that input, whatever bytes lie
  behind it in memory and for every output buffer that is large enough.
\<close>

theorem fastlz_roundtrip:
  assumes "fastlz_compress e m s = Some (Some out, s')" "m \<noteq> []" "length m \<le> maxout"
  shows "fastlz_decompress (out @ extra) (length out) maxout = Some (length m, m)"
  using assms(1)
proof (cases rule: fastlz_compress_Some)
  case (ok lvl b n)
  then show ?thesis using fastlz_roundtrip_body[OF ok(2,1) assms(2,3)] by simp
qed simp

theorem fastlz_roundtrip_witness:
  "\<exists>out s'. fastlz_compress good_env (replicate 300 7) \<lparr>hist = []\<rparr> = Some (Some out, s') \<and>
     fastlz_decompress (out @ [1, 2]) (length out) 1024 = Some (300, replicate 300 7)"
proof -
  obtain out where "compress_body 1 (replicate 300 7) = Some out"
    using compress_body1_total by blast
  then have c: "fastlz_compress good_env (replicate 300 7) \<lparr>hist = []\<rparr> =
      Some (Some out, \<lparr>hist = [C_free 0, C_malloc 0 4096]\<rparr>)"
    by (simp add: fastlz_compress_def fastlz_compressor_def rt_malloc_def rt_free_def emit_def)
  show ?thesis
    using c fastlz_roundtrip[OF c, of 1024 "[1, 2]"] by simp
qed

text \<open>C37.
  Below 64 KiB \<open>fastlz_compress\<close> never reads outside its input, always returns, leaves the heap
  as it found it, and its result exceeds the input by at most one byte in 32 and one more.
\<close>

theorem fastlz_compress_safe:
  assumes "length m < 65536" "heap_ok (hist s)"
  shows "\<exists>r s'. fastlz_compress e m s = Some (r, s') \<and> live (hist s') = live (hist s) \<and>
    (\<forall>out. r = Some out \<longrightarrow> length out \<le> length m + length m div 32 + 1)"
proof -
  obtain r s' where "fastlz_compress e m s = Some (r, s')"
    using fastlz_compress_total[OF assms(1)] by blast
  moreover from this have "live (hist s') = live (hist s) \<and>
      (\<forall>out. r = Some out \<longrightarrow> length out \<le> length m + length m div 32 + 1)"
    by (cases rule: fastlz_compress_Some) (use assms(2) in \<open>auto dest: compress_body_length\<close>)
  ultimately show ?thesis by blast
qed

theorem fastlz_compress_safe_witness:
  "\<exists>r s'. fastlz_compress good_env (replicate 300 7) \<lparr>hist = []\<rparr> = Some (r, s') \<and>
     live (hist s') = []"
  using fastlz_compress_safe[of "replicate 300 7" "\<lparr>hist = []\<rparr>" good_env] by auto

text \<open>
  The decompressor never writes more than \<open>maxout\<close> bytes, and the length it reports is either 0
  (a rejected input) or the number of bytes it wrote.
\<close>

lemma fastlz_decompress_writes:
  assumes "fastlz_decompress c n maxout = Some (k, out)"
  shows "length out \<le> maxout \<and> (k = 0 \<or> k = length out)"
  using fastlz_decompress_bounds[OF assms] .

lemma fastlz_decompress_writes_witness:
  "length [65 :: u8, 66] \<le> 8 \<and> ((2 :: nat) = 0 \<or> 2 = length [65 :: u8, 66])"
proof (rule fastlz_decompress_writes)
  show "fastlz_decompress [1, 65, 66] 3 8 = Some (2, [65, 66])"
    by (simp cong: bind_weak add: fastlz_decompress_def fastlz_decompressor_def rd_def rdn_def
        decompress_loop.simps[of _ _ _ _ "Suc 0"])
qed

text \<open>C38.
  For a level 1 stream of any content, \<open>fastlz_decompress\<close> reads at most two bytes past the
  stated length: with two readable bytes behind the stream it always returns, and so it
  terminates on every input, well formed or not.
\<close>

theorem fastlz_decompress_no_fault:
  assumes "1 \<le> len" "len + 2 \<le> length c" "c ! 0 < 32"
  shows "\<exists>r. fastlz_decompress c len maxout = Some r"
proof -
  have "unat (c ! 0) div 32 = 0" "c \<noteq> []" using assms(2,3) by (auto simp: word_less_nat_alt)
  then show ?thesis
    using assms(1,2) decompress1_no_fault[of 1 len c maxout "unat (c ! 0) mod 32" "[]"]
    by (simp add: fastlz_decompress_def fastlz_decompressor_def rd_def)
qed

theorem fastlz_decompress_no_fault_witness:
  "\<exists>r. fastlz_decompress [0, 65, 224, 9, 9] 3 1024 = Some r"
  by (rule fastlz_decompress_no_fault) simp_all

text \<open>The second byte of slack is needed: a stream that ends inside a match opcode reads it.\<close>

lemma fastlz_decompress_overread: "fastlz_decompress [0, 65, 224, 0] 3 1024 = None"
  by (simp cong: bind_weak add: fastlz_decompress_def fastlz_decompressor_def rd_def rdn_def
      match_fields_def decompress_loop.simps[of _ _ _ _ "Suc 0"]
      decompress_loop.simps[of _ _ _ _ "Suc (Suc (Suc 0))"] decompress_loop.simps[of _ _ _ _ 3])

end
