(* ===== verification/Coding.thy ===== *)
theory Coding
  imports FastlzRoundtrip
begin

text \<open>
  The application protocol of \<^verbatim>\<open>applications/codec/coding/uc_coding.c\<close>: a packet is a property
  byte, the optional fields that its bits announce, a command byte and the data, compressed
  when the property says so.

  The compressor is an interface (locale \<open>lz_codec\<close>): \<open>app_data_coding_with\<close> and
  \<open>app_data_decoding_with\<close> take it as an argument, their lemmas are proved from its laws, and
  the interpretation \<open>fz\<close> discharges the laws for the FastLZ model.
\<close>

section \<open>The packet header\<close>

datatype header_property_e =
  PRO_RESERVED | PRO_COMPRESS_FLAG | PRO_SEGMENT_FLAG | PRO_RESPONSE_FLAG
| PRO_NEED_RES | PRO_PACKET_NUM | PRO_DEST_ADDR | PRO_SRC_ADDR

fun bit_of :: "header_property_e \<Rightarrow> nat" where
  "bit_of PRO_RESERVED = 0"
| "bit_of PRO_COMPRESS_FLAG = 1"
| "bit_of PRO_SEGMENT_FLAG = 2"
| "bit_of PRO_RESPONSE_FLAG = 3"
| "bit_of PRO_NEED_RES = 4"
| "bit_of PRO_PACKET_NUM = 5"
| "bit_of PRO_DEST_ADDR = 6"
| "bit_of PRO_SRC_ADDR = 7"

text \<open>\<^verbatim>\<open>app_ps_property_t\<close> is a byte of eight one-bit fields, \<^verbatim>\<open>reserved\<close> the lowest.\<close>

type_synonym property = u8

definition flag :: "header_property_e \<Rightarrow> property \<Rightarrow> bool" where
  "flag b p = bit p (bit_of b)"

definition clear_flag :: "header_property_e \<Rightarrow> property \<Rightarrow> property" where
  "clear_flag b p = p AND NOT (push_bit (bit_of b) 1)"

record app_ps_header =
  property :: property
  src_addr :: u32
  dest_addr :: u32
  packet_num :: u8
  total_num :: "15 word"
  is_end :: "1 word"
  current_num :: u16
  cmd_type :: u8

definition zero_header :: app_ps_header where
  "zero_header = \<lparr>property = 0, src_addr = 0, dest_addr = 0, packet_num = 0, total_num = 0,
     is_end = 0, current_num = 0, cmd_type = 0\<rparr>"

definition sizeof_app_ps_header :: nat where "sizeof_app_ps_header = 20"
definition APP_MAX_CODING_DATA_LEN :: nat where "APP_MAX_CODING_DATA_LEN = 512"
definition APP_MAX_DECODING_DATA_LEN :: nat where "APP_MAX_DECODING_DATA_LEN = 1024"

definition app_set_header_property :: "nat \<Rightarrow> u8 \<Rightarrow> property \<Rightarrow> property" where
  "app_set_header_property b value p =
     (if b > bit_of PRO_SRC_ADDR then p
      else let value = (if value > 1 then 1 else value) in p OR push_bit b value)"

section \<open>Writing the header\<close>

text \<open>
  The property byte, then the optional fields, each only when its flag is set. Only the low
  15 bits of the first segment half-word are stored; its top bit keeps what the buffer held.
\<close>

definition code_src_addr :: "app_ps_header \<Rightarrow> u8 list \<times> nat \<Rightarrow> (u8 list \<times> nat) option" where
  "code_src_addr h = (\<lambda>(buf, offset).
     if flag PRO_SRC_ADDR (property h)
     then do { buf \<leftarrow> wr buf offset (put32 (src_addr h)); Some (buf, offset + 4) }
     else Some (buf, offset))"

definition code_dest_addr :: "app_ps_header \<Rightarrow> u8 list \<times> nat \<Rightarrow> (u8 list \<times> nat) option" where
  "code_dest_addr h = (\<lambda>(buf, offset).
     if flag PRO_DEST_ADDR (property h)
     then do { buf \<leftarrow> wr buf offset (put32 (dest_addr h)); Some (buf, offset + 4) }
     else Some (buf, offset))"

definition code_packet_num :: "app_ps_header \<Rightarrow> u8 list \<times> nat \<Rightarrow> (u8 list \<times> nat) option" where
  "code_packet_num h = (\<lambda>(buf, offset).
     if flag PRO_PACKET_NUM (property h)
     then do { buf \<leftarrow> wr buf offset [packet_num h]; Some (buf, offset + 1) }
     else Some (buf, offset))"

definition code_segment :: "app_ps_header \<Rightarrow> u8 list \<times> nat \<Rightarrow> (u8 list \<times> nat) option" where
  "code_segment h = (\<lambda>(buf, offset).
     if flag PRO_SEGMENT_FLAG (property h)
     then do { w \<leftarrow> rd16 buf offset;
               buf \<leftarrow> wr buf offset (put16 ((w AND 0x8000) OR ucast (total_num h)));
               buf \<leftarrow> wr buf (offset + 2) (put16 (current_num h));
               Some (buf, offset + 4) }
     else Some (buf, offset))"

definition code_header :: "app_ps_header \<Rightarrow> u8 list \<Rightarrow> (u8 list \<times> nat) option" where
  "code_header h buf =
     do { buf \<leftarrow> wr buf 0 [property h];
          st \<leftarrow> code_src_addr h (buf, 1);
          st \<leftarrow> code_dest_addr h st;
          st \<leftarrow> code_packet_num h st;
          (buf, offset) \<leftarrow> code_segment h st;
          buf \<leftarrow> wr buf offset [cmd_type h];
          Some (buf, offset + 1) }"

section \<open>Reading the header\<close>

definition decode_src_addr :: "u8 list \<Rightarrow> app_ps_header \<times> nat \<Rightarrow> (app_ps_header \<times> nat) option" where
  "decode_src_addr m = (\<lambda>(h, offset).
     if flag PRO_SRC_ADDR (property h)
     then do { w \<leftarrow> rd32 m offset; Some (h\<lparr>src_addr := w\<rparr>, offset + 4) }
     else Some (h, offset))"

definition decode_dest_addr :: "u8 list \<Rightarrow> app_ps_header \<times> nat \<Rightarrow> (app_ps_header \<times> nat) option" where
  "decode_dest_addr m = (\<lambda>(h, offset).
     if flag PRO_DEST_ADDR (property h)
     then do { w \<leftarrow> rd32 m offset; Some (h\<lparr>dest_addr := w\<rparr>, offset + 4) }
     else Some (h, offset))"

definition decode_packet_num :: "u8 list \<Rightarrow> app_ps_header \<times> nat \<Rightarrow> (app_ps_header \<times> nat) option" where
  "decode_packet_num m = (\<lambda>(h, offset).
     if flag PRO_PACKET_NUM (property h)
     then do { b \<leftarrow> rd m offset; Some (h\<lparr>packet_num := b\<rparr>, offset + 1) }
     else Some (h, offset))"

definition decode_segment :: "u8 list \<Rightarrow> app_ps_header \<times> nat \<Rightarrow> (app_ps_header \<times> nat) option" where
  "decode_segment m = (\<lambda>(h, offset).
     if flag PRO_SEGMENT_FLAG (property h)
     then do { t \<leftarrow> rd16 m offset; c \<leftarrow> rd16 m (offset + 2);
               Some (h\<lparr>total_num := ucast t, current_num := c\<rparr>, offset + 4) }
     else Some (h, offset))"

definition decode_header :: "u8 list \<Rightarrow> app_ps_header \<Rightarrow> (app_ps_header \<times> nat) option" where
  "decode_header m h =
     do { p \<leftarrow> rd m 0;
          st \<leftarrow> decode_src_addr m (h\<lparr>property := p\<rparr>, 1);
          st \<leftarrow> decode_dest_addr m st;
          st \<leftarrow> decode_packet_num m st;
          (h, offset) \<leftarrow> decode_segment m st;
          c \<leftarrow> rd m offset;
          Some (h\<lparr>cmd_type := c\<rparr>, offset + 1) }"

section \<open>Encoding and decoding a packet\<close>

text \<open>
  The outcome of both functions: the return code, the output block with the number of bytes
  that count (\<open>None\<close> when \<^verbatim>\<open>*output_data\<close> was not assigned), the header as the call leaves
  it, and the state. Lengths are those of existing buffers, so the 32 bit sums of the source
  do not wrap.
\<close>

type_synonym block = "ptr \<times> u8 list \<times> nat"

text \<open>
  The data part. The compressed bytes go to a block of 512 bytes; the literal run the
  compressor still has open at the end needs one byte more than its result, hence the strict
  bound. Data that does not get smaller (or a compressor without memory, whose -1 is a huge
  unsigned length) is sent as it is, and the compress flag of the header is taken back.
\<close>

definition code_data ::
  "(env \<Rightarrow> u8 list \<Rightarrow> 'a sys_scheme \<Rightarrow> (u8 list option \<times> 'a sys_scheme) option) \<Rightarrow> env \<Rightarrow>
     app_ps_header \<Rightarrow> u8 list \<Rightarrow> ptr \<Rightarrow> u8 list \<Rightarrow> nat \<Rightarrow> 'a sys_scheme \<Rightarrow>
     (int \<times> block option \<times> app_ps_header \<times> 'a sys_scheme) option" where
  "code_data cz e h data p buf offset s =
     (if flag PRO_COMPRESS_FLAG (property h) then
        (case rt_malloc e APP_MAX_CODING_DATA_LEN s of
           (None, s) \<Rightarrow> Some (-3, None, h, rt_free (Some p) s)
         | (Some q, s) \<Rightarrow>
             do { (comp, s) \<leftarrow> cz e data s;
                  guard (case comp of None \<Rightarrow> True | Some out \<Rightarrow> length out < APP_MAX_CODING_DATA_LEN);
                  (case comp of
                     Some out \<Rightarrow>
                       if length out < length data
                       then do { buf \<leftarrow> wr buf offset out;
                                 Some (0, Some (p, buf, offset + length out), h, rt_free (Some q) s) }
                       else do { let h = h\<lparr>property := clear_flag PRO_COMPRESS_FLAG (property h)\<rparr>;
                                 buf \<leftarrow> wr buf 0 [property h];
                                 buf \<leftarrow> wr buf offset data;
                                 Some (0, Some (p, buf, offset + length data), h, rt_free (Some q) s) }
                   | None \<Rightarrow>
                       do { let h = h\<lparr>property := clear_flag PRO_COMPRESS_FLAG (property h)\<rparr>;
                            buf \<leftarrow> wr buf 0 [property h];
                            buf \<leftarrow> wr buf offset data;
                            Some (0, Some (p, buf, offset + length data), h, rt_free (Some q) s) }) })
      else
        do { buf \<leftarrow> wr buf offset data;
             Some (0, Some (p, buf, offset + length data), h, s) })"

definition app_data_coding_with ::
  "(env \<Rightarrow> u8 list \<Rightarrow> 'a sys_scheme \<Rightarrow> (u8 list option \<times> 'a sys_scheme) option) \<Rightarrow> env \<Rightarrow>
     app_ps_header \<Rightarrow> u8 list option \<Rightarrow> nat \<Rightarrow> 'a sys_scheme \<Rightarrow>
     (int \<times> block option \<times> app_ps_header \<times> 'a sys_scheme) option" where
  "app_data_coding_with cz e h input len s =
     (case rt_malloc e (sizeof_app_ps_header + len + 4) s of
        (None, s) \<Rightarrow> Some (-2, None, h, s)
      | (Some p, s) \<Rightarrow>
          do { (buf, offset) \<leftarrow> code_header h (replicate (sizeof_app_ps_header + len + 4) 0);
               (case input of
                  None \<Rightarrow> Some (0, Some (p, buf, offset), h, s)
                | Some m \<Rightarrow>
                    if len \<noteq> 0
                    then do { data \<leftarrow> rdn m 0 len; code_data cz e h data p buf offset s }
                    else Some (0, Some (p, buf, offset), h, s)) })"

definition app_data_decoding_with ::
  "(u8 list \<Rightarrow> nat \<Rightarrow> nat \<Rightarrow> (nat \<times> u8 list) option) \<Rightarrow> env \<Rightarrow>
     u8 list option \<Rightarrow> nat \<Rightarrow> app_ps_header \<Rightarrow> 'a sys_scheme \<Rightarrow>
     (int \<times> block option \<times> app_ps_header \<times> 'a sys_scheme) option" where
  "app_data_decoding_with dz e input len h s =
     (case input of
        None \<Rightarrow> Some (-1, None, h, s)
      | Some m \<Rightarrow>
          if len = 0 \<or> len > APP_MAX_DECODING_DATA_LEN then Some (-1, None, h, s)
          else
            do { (h, offset) \<leftarrow> decode_header m h;
                 if len > offset then
                   (case rt_malloc e (len - offset + 1) s of
                      (None, s) \<Rightarrow> Some (-2, None, h, s)
                    | (Some p, s) \<Rightarrow>
                        do { payload \<leftarrow> rdn m offset (len - offset);
                             let buf = payload @ [0];
                             if flag PRO_COMPRESS_FLAG (property h) then
                               (case rt_malloc e APP_MAX_DECODING_DATA_LEN s of
                                  (None, s) \<Rightarrow> Some (-3, None, h, rt_free (Some p) s)
                                | (Some q, s) \<Rightarrow>
                                    do { (n, out) \<leftarrow> dz buf (len - offset) APP_MAX_DECODING_DATA_LEN;
                                         let mem = out @ replicate (APP_MAX_DECODING_DATA_LEN - length out) 0;
                                         Some (0, Some (q, mem, n), h, rt_free (Some p) s) })
                             else Some (0, Some (p, buf, len - offset), h, s) })
                 else Some (0, None, h, s) })"

definition app_data_coding ::
  "env \<Rightarrow> app_ps_header \<Rightarrow> u8 list option \<Rightarrow> nat \<Rightarrow> 'a sys_scheme \<Rightarrow>
     (int \<times> block option \<times> app_ps_header \<times> 'a sys_scheme) option" where
  "app_data_coding = app_data_coding_with fastlz_compress"

definition app_data_decoding ::
  "env \<Rightarrow> u8 list option \<Rightarrow> nat \<Rightarrow> app_ps_header \<Rightarrow> 'a sys_scheme \<Rightarrow>
     (int \<times> block option \<times> app_ps_header \<times> 'a sys_scheme) option" where
  "app_data_decoding = app_data_decoding_with fastlz_decompress"

section \<open>The wire format\<close>

text \<open>
  The specification of the header: the bytes it is sent as, and what a receiver whose header
  variable held \<open>h0\<close> knows of the sender's header \<open>h\<close> (the fields without a flag keep the
  receiver's old values, and \<^verbatim>\<open>is_end\<close> is never sent).
\<close>

definition opt :: "header_property_e \<Rightarrow> app_ps_header \<Rightarrow> u8 list \<Rightarrow> u8 list" where
  "opt b h bs = (if flag b (property h) then bs else [])"

definition wire_header :: "app_ps_header \<Rightarrow> u8 list" where
  "wire_header h =
     property h # opt PRO_SRC_ADDR h (put32 (src_addr h)) @ opt PRO_DEST_ADDR h (put32 (dest_addr h)) @
     opt PRO_PACKET_NUM h [packet_num h] @
     opt PRO_SEGMENT_FLAG h (put16 (ucast (total_num h)) @ put16 (current_num h)) @ [cmd_type h]"

definition header_length :: "property \<Rightarrow> nat" where
  "header_length p =
     2 + (if flag PRO_SRC_ADDR p then 4 else 0) + (if flag PRO_DEST_ADDR p then 4 else 0) +
     (if flag PRO_PACKET_NUM p then 1 else 0) + (if flag PRO_SEGMENT_FLAG p then 4 else 0)"

definition received_header :: "app_ps_header \<Rightarrow> app_ps_header \<Rightarrow> app_ps_header" where
  "received_header h h0 = h0\<lparr>
     property := property h,
     src_addr := (if flag PRO_SRC_ADDR (property h) then src_addr h else src_addr h0),
     dest_addr := (if flag PRO_DEST_ADDR (property h) then dest_addr h else dest_addr h0),
     packet_num := (if flag PRO_PACKET_NUM (property h) then packet_num h else packet_num h0),
     total_num := (if flag PRO_SEGMENT_FLAG (property h) then total_num h else total_num h0),
     current_num := (if flag PRO_SEGMENT_FLAG (property h) then current_num h else current_num h0),
     cmd_type := cmd_type h\<rparr>"

lemma length_wire_header [simp]: "length (wire_header h) = header_length (property h)"
  by (simp add: wire_header_def header_length_def opt_def)

lemma header_length_bounds: "2 \<le> header_length p" "header_length p \<le> 15"
  by (simp_all add: header_length_def)

text \<open>A buffer of \<open>N\<close> bytes whose first bytes are \<open>p\<close> and whose rest is still zero.\<close>

definition zfill :: "nat \<Rightarrow> u8 list \<Rightarrow> u8 list" where
  "zfill N p = p @ replicate (N - length p) 0"

lemma length_zfill [simp]: "length p \<le> N \<Longrightarrow> length (zfill N p) = N"
  by (simp add: zfill_def)

lemma wr_zfill:
  "i = length p \<Longrightarrow> length p + length bs \<le> N \<Longrightarrow> wr (zfill N p) i bs = Some (zfill N (p @ bs))"
  by (auto simp: wr_def zfill_def)

lemma wr_zfill_start: "wr (zfill N (a # p)) 0 [b] = Some (zfill N (b # p))"
  by (simp add: wr_def zfill_def)

lemma rd16_zfill: "i = length p \<Longrightarrow> length p + 2 \<le> N \<Longrightarrow> rd16 (zfill N p) i = Some 0"
  by (simp add: rd16_def rdn_def zfill_def min_def numeral_2_eq_2)

lemma code_fields_zfill:
  "length p + 4 \<le> N \<Longrightarrow> code_src_addr h (zfill N p, length p) =
     (let q = p @ opt PRO_SRC_ADDR h (put32 (src_addr h)) in Some (zfill N q, length q))"
  "length p + 4 \<le> N \<Longrightarrow> code_dest_addr h (zfill N p, length p) =
     (let q = p @ opt PRO_DEST_ADDR h (put32 (dest_addr h)) in Some (zfill N q, length q))"
  "length p + 4 \<le> N \<Longrightarrow> code_packet_num h (zfill N p, length p) =
     (let q = p @ opt PRO_PACKET_NUM h [packet_num h] in Some (zfill N q, length q))"
  "length p + 4 \<le> N \<Longrightarrow> code_segment h (zfill N p, length p) =
     (let q = p @ opt PRO_SEGMENT_FLAG h (put16 (ucast (total_num h)) @ put16 (current_num h)) in
      Some (zfill N q, length q))"
  by (simp_all add: code_src_addr_def code_dest_addr_def code_packet_num_def code_segment_def
      opt_def wr_zfill rd16_zfill)

lemma length_opt: "length (opt b h bs) \<le> length bs"
  by (simp add: opt_def)

lemma code_header_zfill:
  assumes "18 \<le> N"
  shows "code_header h (replicate N 0) = Some (zfill N (wire_header h), header_length (property h))"
proof -
  let ?a = "[property h]"
  let ?b = "?a @ opt PRO_SRC_ADDR h (put32 (src_addr h))"
  let ?c = "?b @ opt PRO_DEST_ADDR h (put32 (dest_addr h))"
  let ?d = "?c @ opt PRO_PACKET_NUM h [packet_num h]"
  let ?e = "?d @ opt PRO_SEGMENT_FLAG h (put16 (ucast (total_num h)) @ put16 (current_num h))"
  have len: "length ?a = 1" "length ?b \<le> 5" "length ?c \<le> 9" "length ?d \<le> 10" "length ?e \<le> 14"
    by (simp_all add: opt_def)
  have a: "wr (replicate N 0) 0 [property h] = Some (zfill N ?a)"
    using wr_zfill[of 0 "[]" "[property h]" N] assms by (simp add: zfill_def)
  have e: "wr (zfill N ?e) (length ?e) [cmd_type h] = Some (zfill N (wire_header h))"
    using wr_zfill[of "length ?e" ?e "[cmd_type h]" N] assms len by (simp add: wire_header_def)
  have steps: "code_src_addr h (zfill N ?a, 1) = Some (zfill N ?b, length ?b)"
      "code_dest_addr h (zfill N ?b, length ?b) = Some (zfill N ?c, length ?c)"
      "code_packet_num h (zfill N ?c, length ?c) = Some (zfill N ?d, length ?d)"
      "code_segment h (zfill N ?d, length ?d) = Some (zfill N ?e, length ?e)"
    using code_fields_zfill(1)[of ?a N h] code_fields_zfill(2)[of ?b N h]
      code_fields_zfill(3)[of ?c N h] code_fields_zfill(4)[of ?d N h] assms len
    by (simp_all only: Let_def)
  have "length ?e + 1 = header_length (property h)"
    by (simp add: header_length_def opt_def)
  then show ?thesis
    unfolding code_header_def a using steps e by (simp del: append.simps append_Cons append_assoc)
qed

lemma ucast15 [simp]: "ucast (ucast (w :: 15 word) :: u16) = w"
  by (simp add: bit_eq_iff bit_simps)

lemma decode_fields_at:
  "p = property h \<Longrightarrow> property h0 = p \<Longrightarrow> decode_src_addr (a @ opt PRO_SRC_ADDR h (put32 w) @ r) (h0, length a) =
     Some (if flag PRO_SRC_ADDR p then h0\<lparr>src_addr := w\<rparr> else h0, length a + length (opt PRO_SRC_ADDR h (put32 w)))"
  "p = property h \<Longrightarrow> property h0 = p \<Longrightarrow> decode_dest_addr (a @ opt PRO_DEST_ADDR h (put32 w) @ r) (h0, length a) =
     Some (if flag PRO_DEST_ADDR p then h0\<lparr>dest_addr := w\<rparr> else h0, length a + length (opt PRO_DEST_ADDR h (put32 w)))"
  "p = property h \<Longrightarrow> property h0 = p \<Longrightarrow> decode_packet_num (a @ opt PRO_PACKET_NUM h [b] @ r) (h0, length a) =
     Some (if flag PRO_PACKET_NUM p then h0\<lparr>packet_num := b\<rparr> else h0, length a + length (opt PRO_PACKET_NUM h [b]))"
  by (simp_all add: decode_src_addr_def decode_dest_addr_def decode_packet_num_def opt_def
      rd32_at_append rd_def)

lemma decode_segment_at:
  "property h0 = property h \<Longrightarrow>
   decode_segment (a @ opt PRO_SEGMENT_FLAG h (put16 (ucast t) @ put16 c) @ r) (h0, length a) =
     Some (if flag PRO_SEGMENT_FLAG (property h) then h0\<lparr>total_num := t, current_num := c\<rparr> else h0,
           length a + length (opt PRO_SEGMENT_FLAG h (put16 (ucast t) @ put16 c)))"
  using rd16_at_append[of "a @ put16 (ucast t)" "length a + 2" c r]
    rd16_at_append[of a "length a" "ucast t" "put16 c @ r"]
  by (simp add: decode_segment_def opt_def)

lemma decode_header_wire:
  "decode_header (wire_header h @ r) h0 = Some (received_header h h0, header_length (property h))"
proof -
  let ?oa = "opt PRO_SRC_ADDR h (put32 (src_addr h))" and ?ob = "opt PRO_DEST_ADDR h (put32 (dest_addr h))"
  let ?oc = "opt PRO_PACKET_NUM h [packet_num h]"
  let ?od = "opt PRO_SEGMENT_FLAG h (put16 (ucast (total_num h)) @ put16 (current_num h))"
  let ?r = "cmd_type h # r"
  let ?m = "[property h] @ ?oa @ ?ob @ ?oc @ ?od @ ?r"
  have m: "wire_header h @ r = ?m" by (simp add: wire_header_def)
  let ?h1 = "h0\<lparr>property := property h\<rparr>"
  let ?h2 = "if flag PRO_SRC_ADDR (property h) then ?h1\<lparr>src_addr := src_addr h\<rparr> else ?h1"
  let ?h3 = "if flag PRO_DEST_ADDR (property h) then ?h2\<lparr>dest_addr := dest_addr h\<rparr> else ?h2"
  let ?h4 = "if flag PRO_PACKET_NUM (property h) then ?h3\<lparr>packet_num := packet_num h\<rparr> else ?h3"
  have "decode_src_addr ?m (?h1, 1) = Some (?h2, length ([property h] @ ?oa))"
    using decode_fields_at(1)[of _ h ?h1 "[property h]" "src_addr h" "?ob @ ?oc @ ?od @ ?r"] by simp
  moreover have "decode_dest_addr ?m (?h2, length ([property h] @ ?oa)) =
      Some (?h3, length ([property h] @ ?oa @ ?ob))"
    using decode_fields_at(2)[of _ h ?h2 "[property h] @ ?oa" "dest_addr h" "?oc @ ?od @ ?r"] by simp
  moreover have "decode_packet_num ?m (?h3, length ([property h] @ ?oa @ ?ob)) =
      Some (?h4, length ([property h] @ ?oa @ ?ob @ ?oc))"
    using decode_fields_at(3)[of _ h ?h3 "[property h] @ ?oa @ ?ob" "packet_num h" "?od @ ?r"] by simp
  moreover have "decode_segment ?m (?h4, length ([property h] @ ?oa @ ?ob @ ?oc)) =
      Some ((received_header h h0)\<lparr>cmd_type := cmd_type h0\<rparr>,
        length ([property h] @ ?oa @ ?ob @ ?oc @ ?od))"
    using decode_segment_at[of ?h4 h "[property h] @ ?oa @ ?ob @ ?oc" "total_num h" "current_num h" ?r]
    by (simp add: received_header_def)
  moreover have "rd ?m (length ([property h] @ ?oa @ ?ob @ ?oc @ ?od)) = Some (cmd_type h)"
    using rd_append_right[of "[property h] @ ?oa @ ?ob @ ?oc @ ?od" _ "cmd_type h" r] by simp
  moreover have "rd ?m 0 = Some (property h)" by (simp add: rd_def)
  moreover have "length ([property h] @ ?oa @ ?ob @ ?oc @ ?od) + 1 = header_length (property h)"
    by (simp add: opt_def header_length_def)
  ultimately show ?thesis
    unfolding m decode_header_def
    by (simp del: append.simps append_Cons length_append add: received_header_def)
qed

text \<open>How far each field moves the offset, and when its bytes are there.\<close>

definition width :: "header_property_e \<Rightarrow> property \<Rightarrow> nat \<Rightarrow> nat" where
  "width b p k = (if flag b p then k else 0)"

lemma decode_fields_None:
  "i \<le> length m \<Longrightarrow> decode_src_addr m (h, i) = None \<longleftrightarrow> length m < i + width PRO_SRC_ADDR (property h) 4"
  "i \<le> length m \<Longrightarrow> decode_dest_addr m (h, i) = None \<longleftrightarrow> length m < i + width PRO_DEST_ADDR (property h) 4"
  "i \<le> length m \<Longrightarrow> decode_packet_num m (h, i) = None \<longleftrightarrow> length m < i + width PRO_PACKET_NUM (property h) 1"
  "i \<le> length m \<Longrightarrow> decode_segment m (h, i) = None \<longleftrightarrow> length m < i + width PRO_SEGMENT_FLAG (property h) 4"
  by (auto simp: decode_src_addr_def decode_dest_addr_def decode_packet_num_def decode_segment_def
      width_def bind_None_iff mem_simps rd32_None_iff rd16_None_iff rd16_Some_ex)

lemma decode_fields_Some:
  "decode_src_addr m (h, i) = Some (h', i') \<Longrightarrow> property h' = property h \<and> i' = i + width PRO_SRC_ADDR (property h) 4"
  "decode_dest_addr m (h, i) = Some (h', i') \<Longrightarrow> property h' = property h \<and> i' = i + width PRO_DEST_ADDR (property h) 4"
  "decode_packet_num m (h, i) = Some (h', i') \<Longrightarrow> property h' = property h \<and> i' = i + width PRO_PACKET_NUM (property h) 1"
  "decode_segment m (h, i) = Some (h', i') \<Longrightarrow> property h' = property h \<and> i' = i + width PRO_SEGMENT_FLAG (property h) 4"
  by (auto simp: decode_src_addr_def decode_dest_addr_def decode_packet_num_def decode_segment_def
      width_def split: if_splits)

lemma header_length_width:
  "header_length p = 2 + width PRO_SRC_ADDR p 4 + width PRO_DEST_ADDR p 4 + width PRO_PACKET_NUM p 1 +
     width PRO_SEGMENT_FLAG p 4"
  by (simp add: header_length_def width_def)

lemma decode_fields_ex:
  "i + width PRO_SRC_ADDR (property h) 4 \<le> length m \<Longrightarrow>
     \<exists>h'. decode_src_addr m (h, i) = Some (h', i + width PRO_SRC_ADDR (property h) 4) \<and> property h' = property h"
  "i + width PRO_DEST_ADDR (property h) 4 \<le> length m \<Longrightarrow>
     \<exists>h'. decode_dest_addr m (h, i) = Some (h', i + width PRO_DEST_ADDR (property h) 4) \<and> property h' = property h"
  "i + width PRO_PACKET_NUM (property h) 1 \<le> length m \<Longrightarrow>
     \<exists>h'. decode_packet_num m (h, i) = Some (h', i + width PRO_PACKET_NUM (property h) 1) \<and> property h' = property h"
  "i + width PRO_SEGMENT_FLAG (property h) 4 \<le> length m \<Longrightarrow>
     \<exists>h'. decode_segment m (h, i) = Some (h', i + width PRO_SEGMENT_FLAG (property h) 4) \<and> property h' = property h"
  using decode_fields_None[of i m h] decode_fields_Some[of m h i]
  by (metis add_leE not_less option.exhaust_sel surj_pair)+

lemma decode_header_Some:
  assumes "decode_header m h0 = Some (h, n)"
  shows "property h = m ! 0 \<and> n = header_length (m ! 0) \<and> n \<le> length m"
proof -
  from assms obtain p h1 i1 h2 i2 h3 i3 h4 i4 c where
    s: "rd m 0 = Some p" "decode_src_addr m (h0\<lparr>property := p\<rparr>, 1) = Some (h1, i1)"
    "decode_dest_addr m (h1, i1) = Some (h2, i2)" "decode_packet_num m (h2, i2) = Some (h3, i3)"
    "decode_segment m (h3, i3) = Some (h4, i4)" "rd m i4 = Some c"
    "h = h4\<lparr>cmd_type := c\<rparr>" "n = i4 + 1"
    by (auto simp: decode_header_def)
  show ?thesis
    using decode_fields_Some(1)[OF s(2)] decode_fields_Some(2)[OF s(3)]
      decode_fields_Some(3)[OF s(4)] decode_fields_Some(4)[OF s(5)] s(1,6-8)
    by (simp add: header_length_width rd_Some)
qed

lemma decode_header_None_iff:
  "decode_header m h0 = None \<longleftrightarrow> m = [] \<or> length m < header_length (m ! 0)"
proof
  assume short: "m = [] \<or> length m < header_length (m ! 0)"
  show "decode_header m h0 = None"
  proof (cases "decode_header m h0")
    case (Some r)
    then show ?thesis
      using short decode_header_Some[of m h0 "fst r" "snd r"]
      by (cases "m = []") (simp_all add: decode_header_def rd_def)
  qed
next
  assume n: "decode_header m h0 = None"
  show "m = [] \<or> length m < header_length (m ! 0)"
  proof (rule ccontr)
    assume a: "\<not> (m = [] \<or> length m < header_length (m ! 0))"
    let ?p = "m ! 0"
    let ?i1 = "1 + width PRO_SRC_ADDR ?p 4"
    let ?i2 = "?i1 + width PRO_DEST_ADDR ?p 4"
    let ?i3 = "?i2 + width PRO_PACKET_NUM ?p 1"
    let ?i4 = "?i3 + width PRO_SEGMENT_FLAG ?p 4"
    have le: "?i4 < length m" using a by (simp add: header_length_width)
    obtain h1 where 1: "decode_src_addr m (h0\<lparr>property := ?p\<rparr>, 1) = Some (h1, ?i1)" "property h1 = ?p"
      using decode_fields_ex(1)[of 1 "h0\<lparr>property := ?p\<rparr>" m] le by auto
    obtain h2 where 2: "decode_dest_addr m (h1, ?i1) = Some (h2, ?i2)" "property h2 = ?p"
      using decode_fields_ex(2)[of ?i1 h1 m] 1(2) le by auto
    obtain h3 where 3: "decode_packet_num m (h2, ?i2) = Some (h3, ?i3)" "property h3 = ?p"
      using decode_fields_ex(3)[of ?i2 h2 m] 2(2) le by auto
    obtain h4 where 4: "decode_segment m (h3, ?i3) = Some (h4, ?i4)"
      using decode_fields_ex(4)[of ?i3 h3 m] 3(2) le by auto
    have 0: "rd m 0 = Some ?p" using a by (simp add: rd_def)
    have "rd m ?i4 = Some (m ! ?i4)" using le by (simp add: rd_def)
    then show False
      using n unfolding decode_header_def 0 bind.bind_lunit 1(1) 2(1) 3(1) 4 prod.case by simp
  qed
qed

lemma bit_of_less [simp]: "bit_of b < 8"
  by (cases b) simp_all

lemma flag_clear: "flag b' (clear_flag b p) \<longleftrightarrow> flag b' p \<and> bit_of b' \<noteq> bit_of b"
  by (auto simp: flag_def clear_flag_def bit_simps)

lemma wire_header_clear:
  "wire_header (h\<lparr>property := clear_flag PRO_COMPRESS_FLAG (property h)\<rparr>) =
     clear_flag PRO_COMPRESS_FLAG (property h) # tl (wire_header h)"
  by (simp add: wire_header_def opt_def flag_clear)

lemma header_length_clear:
  "header_length (clear_flag PRO_COMPRESS_FLAG p) = header_length p"
  by (simp add: header_length_def flag_clear)

section \<open>The compressor as an interface\<close>

text \<open>
  What the data of a packet must satisfy for a receiver to get \<open>data\<close> back: compressed bytes
  decompress to it wherever they lie, other bytes are it.
\<close>

definition carries ::
  "(u8 list \<Rightarrow> nat \<Rightarrow> nat \<Rightarrow> (nat \<times> u8 list) option) \<Rightarrow> property \<Rightarrow> u8 list \<Rightarrow> u8 list \<Rightarrow> bool" where
  "carries dz p data d \<longleftrightarrow>
     (if flag PRO_COMPRESS_FLAG p
      then \<forall>extra maxout. length data \<le> maxout \<longrightarrow> dz (d @ extra) (length d) maxout = Some (length data, data)
      else d = data)"

text \<open>
  The contract of the packet encoder. It fails only for want of memory, and then holds nothing;
  otherwise it hands over one new block whose counted bytes are the header and a part that
  carries the data, and changes of the caller's header at most the compress flag.
\<close>

definition packet_data :: "u8 list option \<Rightarrow> nat \<Rightarrow> u8 list" where
  "packet_data input len = (case input of None \<Rightarrow> [] | Some m \<Rightarrow> take len m)"

definition packet_post ::
  "(u8 list \<Rightarrow> nat \<Rightarrow> nat \<Rightarrow> (nat \<times> u8 list) option) \<Rightarrow> app_ps_header \<Rightarrow> u8 list \<Rightarrow> 'a sys_scheme \<Rightarrow>
     int \<times> block option \<times> app_ps_header \<times> 'a sys_scheme \<Rightarrow> bool" where
  "packet_post dz h data s = (\<lambda>(rc, blk, h', s').
     heap_ok (hist s') \<and> only_hist s s' \<and>
     (rc \<in> {-2, -3} \<and> blk = None \<and> h' = h \<and> live (hist s') = live (hist s) \<or>
      rc = 0 \<and> h' \<in> {h, h\<lparr>property := clear_flag PRO_COMPRESS_FLAG (property h)\<rparr>} \<and>
      (\<exists>p mem d. blk = Some (p, mem, header_length (property h') + length d) \<and>
         live (hist s') = p # live (hist s) \<and> p \<notin> set (live (hist s)) \<and>
         length mem = sizeof_app_ps_header + length data + 4 \<and>
         header_length (property h') + length d \<le> length mem \<and>
         take (header_length (property h') + length d) mem = wire_header h' @ d \<and>
         length d \<le> length data \<and>
         (if data = [] then d = [] else carries dz (property h') data d))))"

text \<open>
  When the compressed bytes do not fit the 512-byte block that the encoder compresses into: the
  flag is set, both blocks are there, and the compressor returns 512 bytes or more (at 512 the
  run it still had open may already have been written to the byte behind the block).
\<close>

definition comp_overrun ::
  "(env \<Rightarrow> u8 list \<Rightarrow> 'a sys_scheme \<Rightarrow> (u8 list option \<times> 'a sys_scheme) option) \<Rightarrow> env \<Rightarrow>
     app_ps_header \<Rightarrow> u8 list \<Rightarrow> 'a sys_scheme \<Rightarrow> bool" where
  "comp_overrun cz e h data s \<longleftrightarrow>
     flag PRO_COMPRESS_FLAG (property h) \<and>
     (\<exists>q s1 out s2. rt_malloc e APP_MAX_CODING_DATA_LEN s = (Some q, s1) \<and>
        cz e data s1 = Some (Some out, s2) \<and> APP_MAX_CODING_DATA_LEN \<le> length out)"

definition packet_overrun ::
  "(env \<Rightarrow> u8 list \<Rightarrow> 'a sys_scheme \<Rightarrow> (u8 list option \<times> 'a sys_scheme) option) \<Rightarrow> env \<Rightarrow>
     app_ps_header \<Rightarrow> u8 list \<Rightarrow> 'a sys_scheme \<Rightarrow> bool" where
  "packet_overrun cz e h data s \<longleftrightarrow>
     data \<noteq> [] \<and>
     (\<exists>p s1. rt_malloc e (sizeof_app_ps_header + length data + 4) s = (Some p, s1) \<and>
        comp_overrun cz e h data s1)"

locale lz_codec =
  fixes cz :: "env \<Rightarrow> u8 list \<Rightarrow> 'a sys_scheme \<Rightarrow> (u8 list option \<times> 'a sys_scheme) option"
    and dz :: "u8 list \<Rightarrow> nat \<Rightarrow> nat \<Rightarrow> (nat \<times> u8 list) option"
  assumes cz_total: "length m < 65536 \<Longrightarrow> \<exists>res s'. cz e m s = Some (res, s')"
    and cz_length: "cz e m s = Some (Some out, s') \<Longrightarrow> length out \<le> length m + length m div 32 + 1"
    and cz_only_hist: "cz e m s = Some (res, s') \<Longrightarrow> only_hist s s'"
    and cz_heap: "cz e m s = Some (res, s') \<Longrightarrow> heap_ok (hist s) \<Longrightarrow>
      heap_ok (hist s') \<and> live (hist s') = live (hist s)"
    and dz_empty: "dz [] n maxout = None"
    and dz_bounds: "dz c n maxout = Some (k, out) \<Longrightarrow> length out \<le> maxout \<and> k \<le> length out"
    and roundtrip: "cz e m s = Some (Some out, s') \<Longrightarrow> m \<noteq> [] \<Longrightarrow> length m \<le> maxout \<Longrightarrow>
      dz (out @ extra) (length out) maxout = Some (length m, m)"
begin

lemma carries_nonempty: "carries dz p data d \<Longrightarrow> data \<noteq> [] \<Longrightarrow> d \<noteq> []"
  using dz_empty spec[of "\<lambda>extra. \<forall>maxout. length data \<le> maxout \<longrightarrow> dz (d @ extra) (length d) maxout = Some (length data, data)" "[]"]
  by (auto simp: carries_def split: if_splits)

lemma code_data_spec:
  assumes data: "data \<noteq> []" "flag PRO_COMPRESS_FLAG (property h) \<longrightarrow> length data < 65536"
    and fits: "\<not> comp_overrun cz e h data s"
    and N: "15 + length data \<le> N"
    and s: "heap_ok (hist s)" "live (hist s) = p # L" "p \<notin> set L"
  shows "\<exists>rc blk h' s'.
    code_data cz e h data p (zfill N (wire_header h)) (header_length (property h)) s =
      Some (rc, blk, h', s') \<and> heap_ok (hist s') \<and> only_hist s s' \<and>
    (rc = -3 \<and> blk = None \<and> h' = h \<and> live (hist s') = L \<or>
     rc = 0 \<and> h' \<in> {h, h\<lparr>property := clear_flag PRO_COMPRESS_FLAG (property h)\<rparr>} \<and>
       live (hist s') = p # L \<and>
       (\<exists>d. blk = Some (p, zfill N (wire_header h' @ d), header_length (property h') + length d) \<and>
            length d \<le> length data \<and> carries dz (property h') data d))"
proof (cases "flag PRO_COMPRESS_FLAG (property h)")
  case False
  then show ?thesis
    using s N header_length_bounds(2)[of "property h"]
    by (auto simp: code_data_def wr_zfill carries_def)
next
  case True
  let ?n = "length (hist s)"
  let ?h = "h\<lparr>property := clear_flag PRO_COMPRESS_FLAG (property h)\<rparr>"
  show ?thesis
  proof (cases rule: rt_malloc_cases[of e s APP_MAX_CODING_DATA_LEN])
    case fail
    then show ?thesis using True s by (simp add: code_data_def rt_free_def)
  next
    case ok
    let ?s = "emit (C_malloc ?n APP_MAX_CODING_DATA_LEN) s"
    obtain res s' where cz: "cz e data ?s = Some (res, s')"
      using cz_total[of data e ?s] data(2) True by auto
    have len: "length out < APP_MAX_CODING_DATA_LEN" if "res = Some out" for out
      using fits True ok cz that by (simp add: comp_overrun_def APP_MAX_CODING_DATA_LEN_def)
    have heap: "heap_ok (hist s')" "live (hist s') = ?n # p # L"
      using cz_heap[OF cz] s by simp_all
    have hist: "only_hist s s'"
      using cz_only_hist[OF cz] only_hist_trans only_hist_emit by blast
    have fresh: "?n \<notin> set (p # L)" using fresh_not_live[OF s(1)] s(2) by simp
    have free: "heap_ok (hist (rt_free (Some ?n) s'))" "live (hist (rt_free (Some ?n) s')) = p # L"
        "only_hist s (rt_free (Some ?n) s')"
      using heap fresh hist by auto
    have plain: "\<exists>b. wr (zfill N (wire_header h)) 0 [property ?h] = Some b \<and>
        wr b (header_length (property h)) data = Some (zfill N (wire_header ?h @ data))"
    proof -
      have "wr (zfill N (wire_header h)) 0 [property ?h] = Some (zfill N (wire_header ?h))"
        unfolding wire_header_clear by (simp add: wire_header_def wr_zfill_start)
      then show ?thesis
        using N header_length_bounds(2)[of "property h"]
        by (simp add: wr_zfill header_length_clear)
    qed
    show ?thesis
    proof (cases "\<exists>out. res = Some out \<and> length out < length data")
      case True
      then obtain out where out: "res = Some out" "length out < length data" by blast
      have "carries dz (property h) data out"
        using roundtrip[OF cz[unfolded out(1)] data(1)] \<open>flag _ _\<close> by (simp add: carries_def)
      then show ?thesis
        using ok cz len[OF out(1)] out \<open>flag _ _\<close> free N header_length_bounds(2)[of "property h"]
        by (auto simp: code_data_def wr_zfill)
    next
      case False
      have "carries dz (property ?h) data data"
        by (simp add: carries_def flag_clear)
      then show ?thesis
        using ok cz len False \<open>flag _ _\<close> free plain
        by (cases res) (auto simp: code_data_def Let_def header_length_clear)
    qed
  qed
qed

lemma overrun_faults:
  assumes len: "case input of None \<Rightarrow> len = 0 | Some m \<Rightarrow> len \<le> length m"
    and over: "packet_overrun cz e h (packet_data input len) s"
  shows "app_data_coding_with cz e h input len s = None"
proof -
  let ?d = "packet_data input len"
  have ld: "length ?d = len" using len by (auto simp: packet_data_def split: option.splits)
  then obtain m p s1 q s2 out s3 where o: "?d \<noteq> []" "input = Some m" "rdn m 0 len = Some ?d"
      "flag PRO_COMPRESS_FLAG (property h)"
      "rt_malloc e (sizeof_app_ps_header + len + 4) s = (Some p, s1)"
      "rt_malloc e APP_MAX_CODING_DATA_LEN s1 = (Some q, s2)" "cz e ?d s2 = Some (Some out, s3)"
      "\<not> length out < APP_MAX_CODING_DATA_LEN"
    using over len
    by (auto simp: packet_overrun_def comp_overrun_def packet_data_def rdn_def not_less split: option.splits)
  have "code_header h (replicate (sizeof_app_ps_header + len + 4) 0) =
      Some (zfill (sizeof_app_ps_header + len + 4) (wire_header h), header_length (property h))"
    by (intro code_header_zfill) (simp add: sizeof_app_ps_header_def)
  moreover have "len \<noteq> 0" using o(1) ld by (metis length_0_conv)
  ultimately show ?thesis
    using o by (auto simp: app_data_coding_with_def code_data_def)
qed

lemma overrun_large:
  assumes "packet_overrun cz e h data s"
  shows "495 < length data"
proof (rule ccontr)
  assume small: "\<not> 495 < length data"
  obtain s1 out s2 where "cz e data s1 = Some (Some out, s2)" "512 \<le> length out"
    using assms by (auto simp: packet_overrun_def comp_overrun_def APP_MAX_CODING_DATA_LEN_def)
  from cz_length[OF this(1)] this(2) small show False by simp
qed

lemma coding_spec:
  assumes len: "case input of None \<Rightarrow> len = 0 | Some m \<Rightarrow> len \<le> length m"
    and comp: "flag PRO_COMPRESS_FLAG (property h) \<longrightarrow> len < 65536"
    and fits: "\<not> packet_overrun cz e h (packet_data input len) s"
    and s: "heap_ok (hist s)"
  shows "\<exists>r. app_data_coding_with cz e h input len s = Some r \<and>
    packet_post dz h (packet_data input len) s r"
proof (cases rule: rt_malloc_cases[of e s "sizeof_app_ps_header + len + 4"])
  case fail
  then show ?thesis using s by (auto simp: app_data_coding_with_def packet_post_def)
next
  case ok
  let ?p = "length (hist s)" and ?N = "sizeof_app_ps_header + len + 4"
  let ?s = "emit (C_malloc ?p ?N) s"
  have N: "24 \<le> ?N" by (simp add: sizeof_app_ps_header_def)
  have hd: "code_header h (replicate ?N 0) = Some (zfill ?N (wire_header h), header_length (property h))"
    using N by (intro code_header_zfill) simp
  have fresh: "?p \<notin> set (live (hist s))" by (rule fresh_not_live[OF s])
  let ?d = "packet_data input len"
  have ld: "length ?d = len" using len by (auto simp: packet_data_def split: option.splits)
  show ?thesis
  proof (cases "?d = []")
    case True
    then have "app_data_coding_with cz e h input len s =
        Some (0, Some (?p, zfill ?N (wire_header h), header_length (property h)), h, ?s)"
      using ok hd ld by (auto simp: app_data_coding_with_def split: option.splits)
    then show ?thesis
      using s fresh header_length_bounds(2)[of "property h"] True ld
      by (simp add: packet_post_def zfill_def sizeof_app_ps_header_def)
  next
    case False
    then have "app_data_coding_with cz e h input len s =
        code_data cz e h ?d ?p (zfill ?N (wire_header h)) (header_length (property h)) ?s"
      using ok hd ld len
      by (auto simp: app_data_coding_with_def packet_data_def rdn_def split: option.splits)
    moreover obtain rc blk h' s' where cd:
        "code_data cz e h ?d ?p (zfill ?N (wire_header h)) (header_length (property h)) ?s =
           Some (rc, blk, h', s')" "heap_ok (hist s')" "only_hist ?s s'"
        "rc = -3 \<and> blk = None \<and> h' = h \<and> live (hist s') = live (hist s) \<or>
         rc = 0 \<and> h' \<in> {h, h\<lparr>property := clear_flag PRO_COMPRESS_FLAG (property h)\<rparr>} \<and>
           live (hist s') = ?p # live (hist s) \<and>
           (\<exists>d. blk = Some (?p, zfill ?N (wire_header h' @ d), header_length (property h') + length d) \<and>
              length d \<le> length ?d \<and> carries dz (property h') ?d d)"
    proof -
      have n: "15 + length ?d \<le> ?N" "heap_ok (hist ?s)" "live (hist ?s) = ?p # live (hist s)"
        using s ld by (simp_all add: sizeof_app_ps_header_def)
      have "flag PRO_COMPRESS_FLAG (property h) \<longrightarrow> length ?d < 65536"
          "\<not> comp_overrun cz e h ?d ?s"
        using comp ld fits False ok by (simp_all add: packet_overrun_def)
      from code_data_spec[OF False this n fresh] show ?thesis
        by (elim exE conjE) (rule that)
    qed
    moreover have "only_hist s s'" using cd(3) only_hist_trans only_hist_emit by blast
    moreover have "header_length (property h') + len \<le> ?N"
      using header_length_bounds(2)[of "property h'"] by (simp add: sizeof_app_ps_header_def)
    moreover have "take (header_length (property h') + length d) (zfill ?N (wire_header h' @ d)) =
        wire_header h' @ d" for d by (simp add: zfill_def)
    moreover have "length (zfill ?N (wire_header h' @ d)) = ?N" if "length d \<le> length ?d" for d
      using that ld header_length_bounds(2)[of "property h'"]
      by (intro length_zfill) (simp add: sizeof_app_ps_header_def)
    ultimately show ?thesis
      using fresh False ld
      by (intro exI[of _ "(rc, blk, h', s')"]) (fastforce simp: packet_post_def simp del: append_assoc)
  qed
qed

text \<open>Up to 495 bytes always fit.\<close>

lemma coding_spec_small:
  assumes "case input of None \<Rightarrow> len = 0 | Some m \<Rightarrow> len \<le> length m"
    and "flag PRO_COMPRESS_FLAG (property h) \<longrightarrow> len \<le> 495"
    and "heap_ok (hist s)"
  shows "\<exists>r. app_data_coding_with cz e h input len s = Some r \<and>
    packet_post dz h (packet_data input len) s r"
proof -
  have "length (packet_data input len) = len"
    using assms(1) by (auto simp: packet_data_def split: option.splits)
  then have "\<not> packet_overrun cz e h (packet_data input len) s"
    using overrun_large[of e h "packet_data input len" s] assms(2)
    by (auto simp: packet_overrun_def comp_overrun_def)
  then show ?thesis using coding_spec[of len input h e s] assms by auto
qed

lemma coding_post:
  assumes "app_data_coding_with cz e h input len s = Some r"
    and len: "case input of None \<Rightarrow> len = 0 | Some m \<Rightarrow> len \<le> length m"
    and "flag PRO_COMPRESS_FLAG (property h) \<longrightarrow> len < 65536" "heap_ok (hist s)"
  shows "packet_post dz h (packet_data input len) s r"
  using coding_spec[OF len assms(3) _ assms(4), of e] overrun_faults[OF len, of e h s] assms(1) by force

lemma decoding_wire:
  assumes d: "carries dz (property h) data d" "data \<noteq> []" "length data \<le> APP_MAX_DECODING_DATA_LEN"
    and n: "n = header_length (property h) + length d" "n \<le> APP_MAX_DECODING_DATA_LEN"
    and s: "heap_ok (hist s)"
  shows "\<exists>rc blk s'. app_data_decoding_with dz e (Some (wire_header h @ d)) n h0 s =
      Some (rc, blk, received_header h h0, s') \<and>
    (rc \<in> {-2, -3} \<and> blk = None \<and> (\<exists>g k. \<not> e_malloc e g k) \<or>
     rc = 0 \<and> (\<exists>p mem. blk = Some (p, mem, length data) \<and> take (length data) mem = data))"
proof -
  let ?k = "header_length (property h)" and ?h = "received_header h h0"
  let ?p = "length (hist s)" and ?s = "emit (C_malloc (length (hist s)) (length d + 1)) s"
  have n': "n \<noteq> 0" "\<not> n > APP_MAX_DECODING_DATA_LEN" "n > ?k" "n - ?k = length d"
    using n carries_nonempty[OF d(1,2)] header_length_bounds(1)[of "property h"] by auto
  have pay: "rdn (wire_header h @ d) ?k (length d) = Some d"
    using n(1) by (simp add: rdn_def)
  have pr: "property ?h = property h" by (simp add: received_header_def)
  note defs = app_data_decoding_with_def n' decode_header_wire pay pr
  show ?thesis
  proof (cases rule: rt_malloc_cases[of e s "length d + 1"])
    case fail
    then show ?thesis by (auto simp: defs)
  next
    case ok
    show ?thesis
    proof (cases "flag PRO_COMPRESS_FLAG (property h)")
      case False
      then have "d = data" using d(1) by (simp add: carries_def)
      with False show ?thesis using ok pay by (simp add: defs)
    next
      case True
      then have "dz (d @ [0]) (length d) APP_MAX_DECODING_DATA_LEN = Some (length data, data)"
        using d(1,3) by (simp add: carries_def)
      then show ?thesis
        using ok True
        by (cases rule: rt_malloc_cases[of e ?s APP_MAX_DECODING_DATA_LEN]) (auto simp add: defs Let_def)
    qed
  qed
qed

lemma decoding_heap:
  assumes "app_data_decoding_with dz e input n h0 s = Some (rc, blk, h, s')" "heap_ok (hist s)"
  shows "heap_ok (hist s') \<and> only_hist s s' \<and>
    (case blk of
       None \<Rightarrow> rc \<in> {-3, -2, -1, 0} \<and> live (hist s') = live (hist s)
     | Some (p, mem, k) \<Rightarrow> rc = 0 \<and> p \<notin> set (live (hist s)) \<and> live (hist s') = p # live (hist s) \<and>
         k \<le> length mem)"
proof -
  let ?p = "length (hist s)"
  show ?thesis
  proof (cases "\<exists>m hd i. input = Some m \<and> n \<noteq> 0 \<and> n \<le> APP_MAX_DECODING_DATA_LEN \<and>
      decode_header m h0 = Some (hd, i) \<and> i < n")
    case False
    then show ?thesis
      using assms by (auto simp: app_data_decoding_with_def split: option.splits if_splits)
  next
    case True
    then obtain m hd i where m: "input = Some m" "n \<noteq> 0" "\<not> n > APP_MAX_DECODING_DATA_LEN"
      "decode_header m h0 = Some (hd, i)" "i < n" by auto
    let ?s = "emit (C_malloc ?p (n - i + 1)) s"
    have fresh: "?p \<notin> set (live (hist s))" "heap_ok (hist ?s)"
      using fresh_not_live[OF assms(2)] assms(2) by simp_all
    have fresh2: "length (hist ?s) \<notin> set (live (hist ?s))" by (rule fresh_not_live[OF fresh(2)])
    show ?thesis
    proof (cases rule: rt_malloc_cases[of e s "n - i + 1"])
      case fail
      then show ?thesis using assms m by (auto simp: app_data_decoding_with_def)
    next
      case ok1: ok
      show ?thesis
      proof (cases "flag PRO_COMPRESS_FLAG (property hd)")
        case False
        then show ?thesis
          using assms m ok1 fresh by (auto simp: app_data_decoding_with_def mem_simps)
      next
        case c: True
        show ?thesis
        proof (cases rule: rt_malloc_cases[of e ?s APP_MAX_DECODING_DATA_LEN])
          case fail
          then show ?thesis
            using assms m ok1 c fresh by (auto simp: app_data_decoding_with_def mem_simps)
        next
          case ok
          then show ?thesis
            using assms m ok1 c fresh fresh2
            by (auto simp: app_data_decoding_with_def mem_simps Let_def dest!: dz_bounds)
        qed
      qed
    qed
  qed
qed

end

section \<open>FastLZ provides the interface\<close>

interpretation fz: lz_codec fastlz_compress fastlz_decompress
proof
  fix e :: env and m out c d extra :: "u8 list" and s s' :: "'a sys_scheme" and r n k maxout
  show "\<exists>r s'. fastlz_compress e m s = Some (r, s')" if "length m < 65536"
    using that by (rule fastlz_compress_total)
  show "length out \<le> length m + length m div 32 + 1" if "fastlz_compress e m s = Some (Some out, s')"
    using that by (cases rule: fastlz_compress_Some) (auto dest: compress_body_length)
  show "only_hist s s'" if "fastlz_compress e m s = Some (r, s')"
    using that by (cases rule: fastlz_compress_Some) auto
  show "heap_ok (hist s') \<and> live (hist s') = live (hist s)"
    if "fastlz_compress e m s = Some (r, s')" "heap_ok (hist s)"
    using that(1) by (cases rule: fastlz_compress_Some) (use that(2) in auto)
  show "fastlz_decompress [] n maxout = None"
    by (simp add: fastlz_decompress_def rd_def)
  show "length d \<le> maxout \<and> k \<le> length d" if "fastlz_decompress c n maxout = Some (k, d)"
    using fastlz_decompress_bounds[OF that] by auto
  show "fastlz_decompress (out @ extra) (length out) maxout = Some (length m, m)"
    if "fastlz_compress e m s = Some (Some out, s')" "m \<noteq> []" "length m \<le> maxout"
    using that(1)
  proof (cases rule: fastlz_compress_Some)
    case (ok lvl b n)
    then show ?thesis using fastlz_roundtrip_body[OF ok(2,1) that(2,3)] by simp
  qed simp
qed

section \<open>Properties of the packet functions\<close>

lemma packet_decodes:
  assumes coded: "app_data_coding e h (Some m) len s = Some (0, Some (p, mem, n), h', s1)"
    and len: "0 < len" "len \<le> length m" "len \<le> 1024"
    and n: "n \<le> APP_MAX_DECODING_DATA_LEN"
    and heap: "heap_ok (hist s)" "heap_ok (hist s2)"
  shows "\<exists>rc blk s3. app_data_decoding e2 (Some (take n mem)) n h0 s2 =
      Some (rc, blk, received_header h' h0, s3) \<and>
    (rc \<in> {-2, -3} \<and> blk = None \<and> (\<exists>g k. \<not> e_malloc e2 g k) \<or>
     rc = 0 \<and> (\<exists>q mem'. blk = Some (q, mem', len) \<and> take len mem' = take len m))"
proof -
  let ?d = "packet_data (Some m) len"
  have d: "?d = take len m" "?d \<noteq> []" "length ?d = len" using len by (auto simp: packet_data_def)
  have "packet_post fastlz_decompress h ?d s (0, Some (p, mem, n), h', s1)"
    using fz.coding_post[OF coded[unfolded app_data_coding_def]] len heap(1) by simp
  then obtain d where pd: "n = header_length (property h') + length d"
      "take n mem = wire_header h' @ d" "carries fastlz_decompress (property h') ?d d"
    using d by (auto simp: packet_post_def)
  have "len \<le> APP_MAX_DECODING_DATA_LEN" using len(3) by (simp add: APP_MAX_DECODING_DATA_LEN_def)
  then show ?thesis
    using fz.decoding_wire[OF pd(3) d(2) _ pd(1) n heap(2), of e2 h0] pd(2) d(1,3)
    unfolding app_data_decoding_def by simp
qed

text \<open>C1.
  Round trip of the application protocol for 1 to 1024 bytes of data. Whenever \<open>app_data_coding\<close>
  returns a packet for them (with or without compression, from any header), the bytes of the
  packet, and no more than those, are given to \<open>app_data_decoding\<close> with the following result. A
  packet of at most 1024 bytes either meets a failed allocation or yields exactly the data, and
  the receiver's header agrees with the sender's in every field that is sent. A packet of more
  than 1024 bytes (uncompressed data near the limit, after its header) is refused with -1 and
  nothing is touched.
\<close>

theorem packet_roundtrip:
  assumes coded: "app_data_coding e h (Some m) len s = Some (0, Some (p, mem, n), h', s1)"
    and len: "0 < len" "len \<le> length m" "len \<le> 1024"
    and heap: "heap_ok (hist s)" "heap_ok (hist s2)"
  shows "\<exists>rc blk h2 s3. app_data_decoding e2 (Some (take n mem)) n h0 s2 = Some (rc, blk, h2, s3) \<and>
    (if n \<le> 1024 then
       h2 = received_header h' h0 \<and>
       (rc \<in> {-2, -3} \<and> blk = None \<and> (\<exists>g k. \<not> e_malloc e2 g k) \<or>
        rc = 0 \<and> (\<exists>q mem'. blk = Some (q, mem', len) \<and> take len mem' = take len m))
     else rc = -1 \<and> blk = None \<and> h2 = h0 \<and> s3 = s2)"
proof (cases "n \<le> 1024")
  case True
  then have "n \<le> APP_MAX_DECODING_DATA_LEN" by (simp add: APP_MAX_DECODING_DATA_LEN_def)
  from packet_decodes[OF coded len this heap, of e2 h0] True show ?thesis by auto
next
  case False
  then show ?thesis
    by (simp add: app_data_decoding_def app_data_decoding_with_def APP_MAX_DECODING_DATA_LEN_def)
qed

lemmas packet_eval =
  app_data_coding_def app_data_coding_with_def app_data_decoding_def app_data_decoding_with_def
  code_header_def code_src_addr_def code_dest_addr_def code_packet_num_def code_segment_def
  code_data_def decode_header_def decode_src_addr_def decode_dest_addr_def decode_packet_num_def
  decode_segment_def zero_header_def sizeof_app_ps_header_def APP_MAX_CODING_DATA_LEN_def
  APP_MAX_DECODING_DATA_LEN_def rt_malloc_def rt_free_def emit_def wr_def rd_def rdn_def flag_def
  clear_flag_def put32_def put16_def fastlz_compress_def fastlz_compressor_def compress_body_def
  replicate_numeral Let_def

definition sample_header :: app_ps_header where
  "sample_header = zero_header\<lparr>property := 0x42, dest_addr := 0x11223344, cmd_type := 5\<rparr>"

theorem packet_roundtrip_witness:
  "\<exists>p mem n h' s1 rc blk s3.
     app_data_coding good_env sample_header (Some [1, 2, 3]) 3 \<lparr>hist = []\<rparr> = Some (0, Some (p, mem, n), h', s1) \<and>
     app_data_decoding good_env (Some (take n mem)) n zero_header s1 =
       Some (rc, blk, received_header h' zero_header, s3)"
proof -
  define r where "r = app_data_coding good_env sample_header (Some [1, 2, 3]) 3 \<lparr>hist = []\<rparr>"
  obtain p mem n h' s1 where r: "r = Some (0, Some (p, mem, n), h', s1)" "n = 9" "heap_ok (hist s1)"
    by (simp cong: bind_weak add: r_def packet_eval sample_header_def)
  show ?thesis
    using packet_roundtrip[OF r(1)[unfolded r_def] _ _ _ _ r(3), of good_env zero_header] r(1,2)
    unfolding r_def by fastforce
qed

text \<open>
  Overruns do happen. There are more messages of 513 bytes than byte strings of at most 512, and
  the compressor is injective, so it makes some message of 513 bytes longer than 512.
\<close>

lemma few_short_lists: "card {xs :: u8 list. length xs \<le> n} < 256 ^ Suc n"
proof (induction n)
  case (Suc n)
  have "{xs :: u8 list. length xs \<le> Suc n} = {xs. length xs \<le> n} \<union> {xs. length xs = Suc n}" by auto
  then have "card {xs :: u8 list. length xs \<le> Suc n} \<le>
      card {xs :: u8 list. length xs \<le> n} + card {xs :: u8 list. length xs = Suc n}"
    using card_Un_le by metis
  also have "card {xs :: u8 list. length xs = Suc n} = 256 ^ Suc n"
    using card_lists_length_eq[of "UNIV :: u8 set" "Suc n"] by (simp add: card_word)
  finally show ?case using Suc by simp
qed simp

lemma incompressible: "\<exists>m out. length m = Suc n \<and> compress_body 1 m = Some out \<and> n < length out"
proof (rule ccontr)
  assume none: "\<not> ?thesis"
  let ?M = "{m :: u8 list. length m = Suc n}"
  define f where "f m = the (compress_body 1 m)" for m
  have f: "compress_body 1 m = Some (f m)" "length (f m) \<le> n" if "m \<in> ?M" for m
    using compress_body1_total[of m] none that by (auto simp: not_less f_def)
  have d: "fastlz_decompress (f m @ []) (length (f m)) (Suc n) = Some (Suc n, m)" if "m \<in> ?M" for m
    using fastlz_roundtrip_body[OF f(1)[OF that], of "Suc n" "[]"] that by (cases m) auto
  have "inj_on f ?M"
    by (rule inj_onI) (metis d option.inject prod.inject)
  moreover have "f ` ?M \<subseteq> {xs. length xs \<le> n}" using f(2) by auto
  moreover have "finite {xs :: u8 list. length xs \<le> n}"
    using finite_lists_length_le[of "UNIV :: u8 set" n] by simp
  ultimately have "card ?M \<le> card {xs :: u8 list. length xs \<le> n}" by (rule card_inj_on_le)
  also have "\<dots> < 256 ^ Suc n" by (rule few_short_lists)
  also have "card ?M = 256 ^ Suc n"
    using card_lists_length_eq[of "UNIV :: u8 set" "Suc n"] by (simp add: card_word)
  finally show False by simp
qed

lemma coding_overrun_happens:
  "\<exists>m. length m = 513 \<and> app_data_coding good_env sample_header (Some m) 513 \<lparr>hist = []\<rparr> = None"
proof -
  obtain m out where m: "length m = 513" "compress_body 1 m = Some out" "512 \<le> length out"
    using incompressible[of 512] by auto
  have "packet_overrun fastlz_compress good_env sample_header (packet_data (Some m) 513) \<lparr>hist = []\<rparr>"
    using m by (auto simp: packet_overrun_def comp_overrun_def packet_data_def sample_header_def zero_header_def
        flag_def bit_numeral_simps rt_malloc_def good_env_def fastlz_compress_def fastlz_compressor_def
        APP_MAX_CODING_DATA_LEN_def emit_def)
  from fz.overrun_faults[OF _ this] m(1) show ?thesis unfolding app_data_coding_def by auto
qed



text \<open>
  Whenever \<open>app_data_decoding\<close> returns, for whatever bytes it was given, it has leaked nothing: on
  an error code (and for a packet without data) the heap is as before, otherwise it holds exactly
  the returned block, and the returned length lies inside that block.
\<close>

lemma app_data_decoding_heap:
  assumes "app_data_decoding e input n h0 s = Some (rc, blk, h, s')" "heap_ok (hist s)"
  shows "heap_ok (hist s') \<and> only_hist s s' \<and>
    (case blk of
       None \<Rightarrow> rc \<in> {-3, -2, -1, 0} \<and> live (hist s') = live (hist s)
     | Some (p, mem, k) \<Rightarrow> rc = 0 \<and> p \<notin> set (live (hist s)) \<and> live (hist s') = p # live (hist s) \<and>
         k \<le> length mem)"
  by (rule fz.decoding_heap[OF assms[unfolded app_data_decoding_def]])

lemma app_data_decoding_heap_witness:
  "\<exists>p mem s'. app_data_decoding good_env (Some [0x40, 1, 2, 3, 4, 9, 65, 66]) 8 zero_header \<lparr>hist = []\<rparr> =
      Some (0, Some (p, mem, 2), zero_header\<lparr>property := 0x40, dest_addr := 0x04030201, cmd_type := 9\<rparr>, s') \<and>
    live (hist s') = [p] \<and> 2 \<le> length mem"
proof -
  have d: "app_data_decoding good_env (Some [0x40, 1, 2, 3, 4, 9, 65, 66]) 8 zero_header \<lparr>hist = []\<rparr> =
      Some (0, Some (0, [65, 66, 0], 2), zero_header\<lparr>property := 0x40, dest_addr := 0x04030201, cmd_type := 9\<rparr>,
        \<lparr>hist = [C_malloc 0 3]\<rparr>)"
    by (simp cong: bind_weak add: packet_eval rd32_def)
  show ?thesis using d app_data_decoding_heap[OF d] by simp
qed

text \<open>C27.
  A packet without compression is decoded without reading outside it exactly when it is at least
  as long as the header its property byte announces; the function itself does not check that.
\<close>

theorem app_data_decoding_faults_iff:
  assumes "0 < length m" "length m \<le> APP_MAX_DECODING_DATA_LEN" "\<not> flag PRO_COMPRESS_FLAG (m ! 0)"
  shows "app_data_decoding e (Some m) (length m) h0 s = None \<longleftrightarrow> length m < header_length (m ! 0)"
proof (cases "decode_header m h0")
  case None
  then have "length m < header_length (m ! 0)" using assms(1) by (simp add: decode_header_None_iff)
  then show ?thesis using None assms(1,2) by (simp add: app_data_decoding_def app_data_decoding_with_def)
next
  case (Some r)
  then obtain h n where r: "decode_header m h0 = Some (h, n)" by (cases r) auto
  have p: "property h = m ! 0" "n = header_length (m ! 0)" "n \<le> length m"
    using decode_header_Some[OF r] by auto
  then show ?thesis
    using assms r
    by (cases rule: rt_malloc_cases[of e s "length m - n + 1"])
      (auto simp: app_data_decoding_def app_data_decoding_with_def rdn_def)
qed

theorem app_data_decoding_faults_iff_witness:
  "app_data_decoding good_env (Some [0x40, 1, 2]) 3 zero_header \<lparr>hist = []\<rparr> = None"
  using app_data_decoding_faults_iff[of "[0x40, 1, 2]" good_env zero_header "\<lparr>hist = []\<rparr>"]
  by (simp add: APP_MAX_DECODING_DATA_LEN_def flag_def header_length_def numeral_3_eq_3)

text \<open>
  A five byte packet that a peer can send: the compressed part ends inside a match opcode, and
  the decompressor reads behind the copy of it.
\<close>

lemma app_data_decoding_overread:
  "app_data_decoding good_env (Some [2, 9, 0, 65, 224]) 5 zero_header \<lparr>hist = []\<rparr> = None"
proof -
  have "fastlz_decompress [0, 65, 224, 0] 3 1024 = None" by (rule fastlz_decompress_overread)
  then show ?thesis by (simp cong: bind_weak add: packet_eval)
qed

text \<open>
  \<open>app_set_header_property\<close> can only set flags: for a value other than 0 it sets the flag of its
  index and leaves the other seven, an index above 7 or the value 0 changes nothing.
\<close>

lemma app_set_header_property_flags:
  "flag b' (app_set_header_property n v p) = (flag b' p \<or> (v \<noteq> 0 \<and> n = bit_of b'))"
proof -
  have v: "(if v > 1 then 1 else v) = (if v = 0 then 0 else (1 :: u8))"
    using word_gt_0 by (auto simp: word_less_nat_alt word_of_nat_eq_iff unat_arith_simps dest: le_antisym)
  show ?thesis
    unfolding app_set_header_property_def Let_def v
    by (cases b') (auto simp: flag_def bit_simps)
qed

text \<open>The comment of \<^verbatim>\<open>uc_coding.h\<close> offers the value 0; it cannot take a flag back.\<close>

lemma app_set_header_property_zero: "app_set_header_property n 0 p = p"
  by (simp add: app_set_header_property_def)

end
