(* ===== verification/Rfc1321.thy ===== *)
theory Rfc1321
  imports Prelude Complex_Main
begin

text \<open>
  The MD5 message digest, written down from the text of RFC 1321 (section 3) and from nothing in
  the repository: words and bytes, the padding, the four auxiliary functions, the 64 operations
  with their word index, shift amount and table entry, and the chaining of the 16-word blocks.
\<close>

section \<open>Words and bytes\<close>

text \<open>A word is given with its low-order byte first (section 2).\<close>

definition le_word :: "u8 list \<Rightarrow> u32" where
  "le_word bs = word_of_nat (foldr (\<lambda>b v. unat b + 256 * v) bs 0)"

definition le_bytes :: "nat \<Rightarrow> nat \<Rightarrow> u8 list" where
  "le_bytes k v = map (\<lambda>j. word_of_nat (v div 256 ^ j)) [0..<k]"

definition block_words :: "u8 list \<Rightarrow> u32 list" where
  "block_words b = map (\<lambda>i. le_word (take 4 (drop (4 * i) b))) [0..<16]"

section \<open>Padding (3.1, 3.2)\<close>

text \<open>
  One bit, then zero bits until the length is 448 modulo 512 bits (56 modulo 64 bytes), then the
  length in bits as a 64-bit number.
\<close>

definition rfc_padding :: "nat \<Rightarrow> u8 list" where
  "rfc_padding n = 0x80 # replicate ((119 - n mod 64) mod 64) 0 @ le_bytes 8 (8 * n)"

section \<open>The operations (3.4)\<close>

definition rfc_F :: "u32 \<Rightarrow> u32 \<Rightarrow> u32 \<Rightarrow> u32" where
  "rfc_F x y z = (x AND y) OR (NOT x AND z)"

definition rfc_G :: "u32 \<Rightarrow> u32 \<Rightarrow> u32 \<Rightarrow> u32" where
  "rfc_G x y z = (x AND z) OR (y AND NOT z)"

definition rfc_H :: "u32 \<Rightarrow> u32 \<Rightarrow> u32 \<Rightarrow> u32" where
  "rfc_H x y z = x XOR y XOR z"

definition rfc_I :: "u32 \<Rightarrow> u32 \<Rightarrow> u32 \<Rightarrow> u32" where
  "rfc_I x y z = y XOR (x OR NOT z)"

text \<open>
  Operation \<open>i\<close> of the 64: its auxiliary function, the word of the block it adds, its rotation
  and its table entry, the integer part of 4294967296 times \<open>\<bar>sin (i + 1)\<bar>\<close>.
\<close>

definition rfc_fun :: "nat \<Rightarrow> u32 \<Rightarrow> u32 \<Rightarrow> u32 \<Rightarrow> u32" where
  "rfc_fun i = (if i < 16 then rfc_F else if i < 32 then rfc_G else if i < 48 then rfc_H else rfc_I)"

definition rfc_k :: "nat \<Rightarrow> nat" where
  "rfc_k i = (if i < 16 then i else if i < 32 then (5 * i + 1) mod 16
     else if i < 48 then (3 * i + 5) mod 16 else 7 * i mod 16)"

definition rfc_s :: "nat \<Rightarrow> nat" where
  "rfc_s i = [[7, 12, 17, 22], [5, 9, 14, 20], [4, 11, 16, 23], [6, 10, 15, 21]] ! (i div 16) ! (i mod 4)"

definition rfc_T :: "u32 list" where
  "rfc_T =
    [0xD76AA478, 0xE8C7B756, 0x242070DB, 0xC1BDCEEE, 0xF57C0FAF, 0x4787C62A, 0xA8304613, 0xFD469501,
     0x698098D8, 0x8B44F7AF, 0xFFFF5BB1, 0x895CD7BE, 0x6B901122, 0xFD987193, 0xA679438E, 0x49B40821,
     0xF61E2562, 0xC040B340, 0x265E5A51, 0xE9B6C7AA, 0xD62F105D, 0x02441453, 0xD8A1E681, 0xE7D3FBC8,
     0x21E1CDE6, 0xC33707D6, 0xF4D50D87, 0x455A14ED, 0xA9E3E905, 0xFCEFA3F8, 0x676F02D9, 0x8D2A4C8A,
     0xFFFA3942, 0x8771F681, 0x6D9D6122, 0xFDE5380C, 0xA4BEEA44, 0x4BDECFA9, 0xF6BB4B60, 0xBEBFBC70,
     0x289B7EC6, 0xEAA127FA, 0xD4EF3085, 0x04881D05, 0xD9D4D039, 0xE6DB99E5, 0x1FA27CF8, 0xC4AC5665,
     0xF4292244, 0x432AFF97, 0xAB9423A7, 0xFC93A039, 0x655B59C3, 0x8F0CCC92, 0xFFEFF47D, 0x85845DD1,
     0x6FA87E4F, 0xFE2CE6E0, 0xA3014314, 0x4E0811A1, 0xF7537E82, 0xBD3AF235, 0x2AD7D2BB, 0xEB86D391]"

text \<open>
  The registers A, B, C, D are a list. The operations name them in the order ABCD, DABC, CDAB,
  BCDA and again: operation \<open>i\<close> updates the register at \<open>- i\<close> modulo 4 from the three after it,
  \<open>a = b + ((a + F(b, c, d) + X[k] + T[i]) <<< s)\<close>.
\<close>

definition rfc_op :: "u32 list \<Rightarrow> nat \<Rightarrow> u32 list \<Rightarrow> u32 list" where
  "rfc_op X i R =
     (let p = (64 - i) mod 4; a = R ! p; b = R ! ((p + 1) mod 4); c = R ! ((p + 2) mod 4);
          d = R ! ((p + 3) mod 4)
      in R[p := b + word_rotl (rfc_s i) (a + rfc_fun i b c d + X ! rfc_k i + rfc_T ! i)])"

text \<open>A block: the 64 operations, then each register is increased by the value it had before.\<close>

definition rfc_block :: "u32 list \<Rightarrow> u8 list \<Rightarrow> u32 list" where
  "rfc_block R b = map2 (+) R (fold (rfc_op (block_words b)) [0..<64] R)"

function rfc_blocks :: "u32 list \<Rightarrow> u8 list \<Rightarrow> u32 list" where
  "rfc_blocks R m = (if length m < 64 then R else rfc_blocks (rfc_block R (take 64 m)) (drop 64 m))"
  by pat_completeness auto
termination
  by (relation "measure (\<lambda>(R, m). length m)") auto

declare rfc_blocks.simps [simp del]

section \<open>The digest (3.3, 3.5)\<close>

text \<open>The initial registers are given in the text byte by byte, low-order bytes first.\<close>

definition rfc_start :: "u32 list" where
  "rfc_start = map le_word
     [[0x01, 0x23, 0x45, 0x67], [0x89, 0xAB, 0xCD, 0xEF],
      [0xFE, 0xDC, 0xBA, 0x98], [0x76, 0x54, 0x32, 0x10]]"

definition md5_spec :: "u8 list \<Rightarrow> u8 list" where
  "md5_spec m = concat (map (\<lambda>w. le_bytes 4 (unat w)) (rfc_blocks rfc_start (m @ rfc_padding (length m))))"

lemma length_le_bytes [simp]: "length (le_bytes k v) = k"
  by (simp add: le_bytes_def)

lemma rfc_blocks_short [simp]: "length m < 64 \<Longrightarrow> rfc_blocks R m = R"
  by (simp add: rfc_blocks.simps)

lemma rfc_blocks_step: "64 \<le> length m \<Longrightarrow> rfc_blocks R m = rfc_blocks (rfc_block R (take 64 m)) (drop 64 m)"
  by (simp add: rfc_blocks.simps)

section \<open>The table and the sine\<close>

text \<open>
  The table entries are compared with the sine itself. \<open>rfc_turn\<close> advances a point of the circle
  by one radian in 48-bit fixed-point arithmetic; \<open>rfc_table_ok\<close> recomputes the table from it with
  a margin for the error, which grows by at most 5 units of the last place per turn.
\<close>

definition rfc_turn :: "int \<times> int \<Rightarrow> int \<times> int" where
  "rfc_turn = (\<lambda>(c, s). ((c * 152081578960948 - s * 236853025851495) div 2 ^ 48,
     (c * 236853025851495 + s * 152081578960948) div 2 ^ 48))"

fun rfc_table_ok :: "u32 list \<Rightarrow> int \<times> int \<Rightarrow> bool" where
  "rfc_table_ok [] w \<longleftrightarrow> True"
| "rfc_table_ok (t # ts) w \<longleftrightarrow>
     (let w = rfc_turn w; s = \<bar>snd w\<bar>
      in (s - 320) div 2 ^ 16 = uint t \<and> (s + 320) div 2 ^ 16 = uint t \<and> rfc_table_ok ts w)"

lemma rfc_table_ok_T: "rfc_table_ok rfc_T (2 ^ 48, 0)"
  by code_simp

definition rfc_point :: "int \<times> int \<Rightarrow> complex" where
  "rfc_point w = Complex (real_of_int (fst w)) (real_of_int (snd w))"

lemma sin_sum: "(\<Sum>m<20. sin_coeff m) = (1 - 1 / 6 + 1 / 120 - 1 / 5040 + 1 / 362880 - 1 / 39916800
     + 1 / 6227020800 - 1 / 1307674368000 + 1 / 355687428096000 - 1 / 121645100408832000 :: real)"
  by (simp add: lessThan_nat_numeral sin_coeff_def fact_numeral)

lemma cos_sum: "(\<Sum>m<20. cos_coeff m) = (1 - 1 / 2 + 1 / 24 - 1 / 720 + 1 / 40320 - 1 / 3628800
     + 1 / 479001600 - 1 / 87178291200 + 1 / 20922789888000 - 1 / 6402373705728000 :: real)"
  by (simp add: lessThan_nat_numeral cos_coeff_def fact_numeral)

lemma fact20: "fact 20 = (2432902008176640000 :: real)"
  by (simp add: fact_numeral)

lemma scale_near:
  assumes "\<bar>x - p\<bar> \<le> q" "\<bar>k * p - c\<bar> + k * q \<le> (1 :: real)" "0 \<le> k"
  shows "\<bar>k * x - c\<bar> \<le> 1"
proof -
  have "k * \<bar>x - p\<bar> \<le> k * q" using assms(1,3) by (rule mult_left_mono)
  then have "\<bar>k * x - k * p\<bar> \<le> k * q" using assms(3) by (simp add: abs_mult flip: right_diff_distrib)
  then show ?thesis using assms(2) by linarith
qed

lemma sin_one: "\<bar>2 ^ 48 * sin 1 - 236853025851495\<bar> \<le> (1 :: real)"
proof -
  have "\<bar>sin (1 :: real) - (\<Sum>m<20. sin_coeff m)\<bar> \<le> 1 / 2432902008176640000"
    using Maclaurin_sin_bound[of 1 20] by (simp add: fact20 inverse_eq_divide)
  then show ?thesis by (rule scale_near) (simp_all add: sin_sum)
qed

lemma cos_one: "\<bar>2 ^ 48 * cos 1 - 152081578960948\<bar> \<le> (1 :: real)"
proof -
  obtain t :: real where t: "cos 1 = (\<Sum>m<20. cos_coeff m) + cos (t + 1 / 2 * real 20 * pi) / fact 20"
    using Maclaurin_cos_expansion[of 1 20] by auto
  have "\<bar>cos (t + 1 / 2 * real 20 * pi)\<bar> \<le> 1" by (rule abs_cos_le_one)
  then have "\<bar>cos (1 :: real) - (\<Sum>m<20. cos_coeff m)\<bar> \<le> 1 / 2432902008176640000"
    unfolding t fact20 by (simp add: field_simps)
  then show ?thesis by (rule scale_near) (simp_all add: cos_sum)
qed

text \<open>One turn adds at most 5 to the distance between the scaled point and the exact one.\<close>

lemma div_near: "\<bar>real_of_int (a div 2 ^ 48) - real_of_int a / 2 ^ 48\<bar> \<le> 1"
proof -
  have "real_of_int (a div 2 ^ 48) = of_int \<lfloor>real_of_int a / 2 ^ 48\<rfloor>"
    by (simp add: floor_divide_of_int_eq[of a "2 ^ 48", where 'a = real, simplified])
  then show ?thesis by linarith
qed

lemma cmod_le2: "\<bar>x\<bar> \<le> a \<Longrightarrow> \<bar>y\<bar> \<le> b \<Longrightarrow> cmod (Complex x y) \<le> a + b"
  using cmod_le[of "Complex x y"] by simp

lemma turn_near:
  fixes w :: "int \<times> int" and x :: real
  assumes near: "cmod (rfc_point w - 2 ^ 48 * cis x) \<le> e" and e: "e \<le> 2 ^ 48 / 4"
  shows "cmod (rfc_point (rfc_turn w) - 2 ^ 48 * cis (x + 1)) \<le> e + 5"
proof -
  define u where "u = Complex 152081578960948 236853025851495"
  have u: "cmod (u - 2 ^ 48 * cis 1) \<le> 2"
  proof -
    have "u - 2 ^ 48 * cis 1 = Complex (152081578960948 - 2 ^ 48 * cos 1) (236853025851495 - 2 ^ 48 * sin 1)"
      by (simp add: u_def complex_eq_iff)
    then show ?thesis
      using cmod_le2[of "152081578960948 - 2 ^ 48 * cos 1" 1 "236853025851495 - 2 ^ 48 * sin 1" 1]
        sin_one cos_one by (simp add: abs_minus_commute)
  qed
  have r: "cmod (rfc_point (rfc_turn w) - rfc_point w * u / 2 ^ 48) \<le> 2"
  proof -
    have eq: "rfc_point (rfc_turn w) - rfc_point w * u / 2 ^ 48 = Complex
        (real_of_int ((fst w * 152081578960948 - snd w * 236853025851495) div 2 ^ 48) -
           real_of_int (fst w * 152081578960948 - snd w * 236853025851495) / 2 ^ 48)
        (real_of_int ((fst w * 236853025851495 + snd w * 152081578960948) div 2 ^ 48) -
           real_of_int (fst w * 236853025851495 + snd w * 152081578960948) / 2 ^ 48)"
      by (simp add: complex_eq_iff rfc_turn_def rfc_point_def u_def case_prod_beta)
    show ?thesis
      unfolding eq by (rule order_trans[OF cmod_le2[OF div_near div_near]]) simp
  qed
  have "cmod (rfc_point w * u / 2 ^ 48 - 2 ^ 48 * cis (x + 1)) \<le> e + 3"
  proof -
    have c: "cis (x + 1) = cis x * cis 1" by (simp add: cis_mult)
    have eq: "rfc_point w * u / 2 ^ 48 - 2 ^ 48 * cis (x + 1) =
        rfc_point w * (u - 2 ^ 48 * cis 1) / 2 ^ 48 + (rfc_point w - 2 ^ 48 * cis x) * cis 1"
      unfolding c by (simp add: field_simps)
    have "cmod (rfc_point w) \<le> cmod (rfc_point w - 2 ^ 48 * cis x) + cmod (2 ^ 48 * cis x)"
      using norm_triangle_ineq[of "rfc_point w - 2 ^ 48 * cis x" "2 ^ 48 * cis x"] by simp
    then have w: "cmod (rfc_point w) \<le> 2 ^ 48 + 2 ^ 48 / 4" using near e by (simp add: norm_mult)
    have "cmod (rfc_point w * (u - 2 ^ 48 * cis 1)) \<le> (2 ^ 48 + 2 ^ 48 / 4) * 2"
      unfolding norm_mult by (rule mult_mono[OF w u]) auto
    then have "cmod (rfc_point w * (u - 2 ^ 48 * cis 1) / 2 ^ 48) \<le> 3" by (simp add: norm_divide)
    moreover have "cmod ((rfc_point w - 2 ^ 48 * cis x) * cis 1) \<le> e" using near by (simp add: norm_mult)
    ultimately show ?thesis
      unfolding eq using norm_triangle_ineq[of "rfc_point w * (u - 2 ^ 48 * cis 1) / 2 ^ 48" "(rfc_point w - 2 ^ 48 * cis x) * cis 1"]
      by linarith
  qed
  with r have "cmod (rfc_point (rfc_turn w) - rfc_point w * u / 2 ^ 48 + (rfc_point w * u / 2 ^ 48 - 2 ^ 48 * cis (x + 1))) \<le> 2 + (e + 3)"
    by (intro order_trans[OF norm_triangle_ineq] add_mono)
  then show ?thesis by simp
qed

text \<open>Every entry is the integer part of 4294967296 times the absolute value of the sine.\<close>

lemma rfc_table_nth:
  assumes "rfc_table_ok ts w" "i < length ts" "cmod (rfc_point w - 2 ^ 48 * cis (real n)) \<le> 5 * real n"
    "n + length ts \<le> 64"
  shows "uint (ts ! i) = \<lfloor>2 ^ 32 * \<bar>sin (real (n + i + 1))\<bar>\<rfloor>"
  using assms
proof (induction ts arbitrary: w n i)
  case (Cons t ts)
  have near: "cmod (rfc_point (rfc_turn w) - 2 ^ 48 * cis (real (Suc n))) \<le> 5 * real (Suc n)"
    using turn_near[of w "real n" "5 * real n"] Cons.prems(3,4) by (simp add: add.commute)
  let ?s = "\<bar>snd (rfc_turn w)\<bar>"
  show ?case
  proof (cases i)
    case 0
    have "\<bar>real_of_int (snd (rfc_turn w)) - 2 ^ 48 * sin (real (Suc n))\<bar> \<le> 320"
      using order_trans[OF abs_Im_le_cmod near] Cons.prems(4) by (simp add: rfc_point_def)
    then have "\<bar>real_of_int ?s - 2 ^ 48 * \<bar>sin (real (Suc n))\<bar>\<bar> \<le> 320" by simp
    then have b: "real_of_int (?s - 320) / 2 ^ 16 \<le> 2 ^ 32 * \<bar>sin (real (Suc n))\<bar>"
        "2 ^ 32 * \<bar>sin (real (Suc n))\<bar> \<le> real_of_int (?s + 320) / 2 ^ 16"
      by (auto simp: abs_le_iff)
    have "uint t = \<lfloor>real_of_int (?s - 320) / 2 ^ 16\<rfloor>" "uint t = \<lfloor>real_of_int (?s + 320) / 2 ^ 16\<rfloor>"
      using Cons.prems(1) floor_divide_of_int_eq[of "?s - 320" "2 ^ 16", where 'a = real]
        floor_divide_of_int_eq[of "?s + 320" "2 ^ 16", where 'a = real] by (simp_all add: Let_def)
    then show ?thesis using floor_mono[OF b(1)] floor_mono[OF b(2)] 0 by simp
  next
    case (Suc j)
    then show ?thesis using Cons.IH[of "rfc_turn w" j "Suc n"] Cons.prems near by (simp add: Let_def)
  qed
qed simp

theorem rfc_T_sin:
  assumes "i < 64"
  shows "uint (rfc_T ! i) = \<lfloor>2 ^ 32 * \<bar>sin (real (i + 1))\<bar>\<rfloor>"
  using rfc_table_nth[OF rfc_table_ok_T, of i 0] assms
  by (simp add: rfc_point_def rfc_T_def complex_eq_iff)
end
