(* ===== verification/Md5.thy ===== *)
theory Md5
  imports Rfc1321
begin

text \<open>
  \<^verbatim>\<open>applications/codec/coding/tiny_md5.c\<close>: the MD5 digest over a context that is fed in
  pieces, and the HMAC on top of it. \<^verbatim>\<open>unsigned long\<close> is 32 bits wide on the target. The
  specification is the digest of RFC 1321 as a function of the whole message, written down in
  \<^verbatim>\<open>Rfc1321\<close> without any definition of this theory: the initial state, the 64 step constants,
  shifts and word indices, the block function and the padding of the code are proved against it.
\<close>

section \<open>The context and the block function\<close>

type_synonym md5_state = "u32 \<times> u32 \<times> u32 \<times> u32"

record tiny_md5_context =
  total0 :: u32
  total1 :: u32
  md5_state :: md5_state
  buffer :: "u8 list"
  ipad :: "u8 list"
  opad :: "u8 list"

definition md5_init :: md5_state where
  "md5_init = (0x67452301, 0xEFCDAB89, 0x98BADCFE, 0x10325476)"

definition tiny_md5_starts :: "tiny_md5_context \<Rightarrow> tiny_md5_context" where
  "tiny_md5_starts ctx = ctx\<lparr>total0 := 0, total1 := 0, md5_state := md5_init\<rparr>"

text \<open>
  The macro \<^verbatim>\<open>P\<close> and the four auxiliary functions. A step updates its first word; the source
  then names the words in rotated order, which the result of \<open>P\<close> does here.
\<close>

definition S :: "u32 \<Rightarrow> nat \<Rightarrow> u32" where
  "S x n = push_bit n x OR drop_bit (32 - n) x"

definition P ::
  "(u32 \<Rightarrow> u32 \<Rightarrow> u32 \<Rightarrow> u32) \<Rightarrow> u32 list \<Rightarrow> nat \<times> nat \<times> u32 \<Rightarrow> md5_state \<Rightarrow> md5_state" where
  "P F X = (\<lambda>(k, s, t) (a, b, c, d). (d, S (a + (F b c d + X ! k + t)) s + b, b, c))"

definition F1 :: "u32 \<Rightarrow> u32 \<Rightarrow> u32 \<Rightarrow> u32" where "F1 x y z = z XOR (x AND (y XOR z))"
definition F2 :: "u32 \<Rightarrow> u32 \<Rightarrow> u32 \<Rightarrow> u32" where "F2 x y z = y XOR (z AND (x XOR y))"
definition F3 :: "u32 \<Rightarrow> u32 \<Rightarrow> u32 \<Rightarrow> u32" where "F3 x y z = x XOR y XOR z"
definition F4 :: "u32 \<Rightarrow> u32 \<Rightarrow> u32 \<Rightarrow> u32" where "F4 x y z = y XOR (x OR NOT z)"

definition steps1 :: "(nat \<times> nat \<times> u32) list" where
  "steps1 =
    [(0, 7, 0xD76AA478), (1, 12, 0xE8C7B756), (2, 17, 0x242070DB), (3, 22, 0xC1BDCEEE),
     (4, 7, 0xF57C0FAF), (5, 12, 0x4787C62A), (6, 17, 0xA8304613), (7, 22, 0xFD469501),
     (8, 7, 0x698098D8), (9, 12, 0x8B44F7AF), (10, 17, 0xFFFF5BB1), (11, 22, 0x895CD7BE),
     (12, 7, 0x6B901122), (13, 12, 0xFD987193), (14, 17, 0xA679438E), (15, 22, 0x49B40821)]"

definition steps2 :: "(nat \<times> nat \<times> u32) list" where
  "steps2 =
    [(1, 5, 0xF61E2562), (6, 9, 0xC040B340), (11, 14, 0x265E5A51), (0, 20, 0xE9B6C7AA),
     (5, 5, 0xD62F105D), (10, 9, 0x02441453), (15, 14, 0xD8A1E681), (4, 20, 0xE7D3FBC8),
     (9, 5, 0x21E1CDE6), (14, 9, 0xC33707D6), (3, 14, 0xF4D50D87), (8, 20, 0x455A14ED),
     (13, 5, 0xA9E3E905), (2, 9, 0xFCEFA3F8), (7, 14, 0x676F02D9), (12, 20, 0x8D2A4C8A)]"

definition steps3 :: "(nat \<times> nat \<times> u32) list" where
  "steps3 =
    [(5, 4, 0xFFFA3942), (8, 11, 0x8771F681), (11, 16, 0x6D9D6122), (14, 23, 0xFDE5380C),
     (1, 4, 0xA4BEEA44), (4, 11, 0x4BDECFA9), (7, 16, 0xF6BB4B60), (10, 23, 0xBEBFBC70),
     (13, 4, 0x289B7EC6), (0, 11, 0xEAA127FA), (3, 16, 0xD4EF3085), (6, 23, 0x04881D05),
     (9, 4, 0xD9D4D039), (12, 11, 0xE6DB99E5), (15, 16, 0x1FA27CF8), (2, 23, 0xC4AC5665)]"

definition steps4 :: "(nat \<times> nat \<times> u32) list" where
  "steps4 =
    [(0, 6, 0xF4292244), (7, 10, 0x432AFF97), (14, 15, 0xAB9423A7), (5, 21, 0xFC93A039),
     (12, 6, 0x655B59C3), (3, 10, 0x8F0CCC92), (10, 15, 0xFFEFF47D), (1, 21, 0x85845DD1),
     (8, 6, 0x6FA87E4F), (15, 10, 0xFE2CE6E0), (6, 15, 0xA3014314), (13, 21, 0x4E0811A1),
     (4, 6, 0xF7537E82), (11, 10, 0xBD3AF235), (2, 15, 0x2AD7D2BB), (9, 21, 0xEB86D391)]"

definition get_words :: "u8 list \<Rightarrow> u32 list" where
  "get_words data =
     map (\<lambda>i. ucast (data ! (4 * i)) OR push_bit 8 (ucast (data ! (4 * i + 1)))
            OR push_bit 16 (ucast (data ! (4 * i + 2))) OR push_bit 24 (ucast (data ! (4 * i + 3))))
       [0..<16]"

definition md5_process :: "md5_state \<Rightarrow> u8 list \<Rightarrow> md5_state" where
  "md5_process st data =
     (let X = get_words data;
          (A, B, C, D) = fold (P F4 X) steps4 (fold (P F3 X) steps3 (fold (P F2 X) steps2
                           (fold (P F1 X) steps1 st)));
          (a, b, c, d) = st
      in (a + A, b + B, c + C, d + D))"

section \<open>Feeding the context\<close>

text \<open>The loop over the whole blocks of the input.\<close>

function md5_loop :: "md5_state \<Rightarrow> u8 list \<Rightarrow> md5_state \<times> u8 list" where
  "md5_loop st input =
     (if length input \<ge> 64 then md5_loop (md5_process st (take 64 input)) (drop 64 input)
      else (st, input))"
  by pat_completeness auto
termination
  by (relation "measure (\<lambda>(st, input). length input)") auto

declare md5_loop.simps [simp del]

text \<open>The byte count, a 64 bit number in two words.\<close>

definition count_bytes :: "tiny_md5_context \<Rightarrow> int \<Rightarrow> tiny_md5_context" where
  "count_bytes ctx ilen =
     (let ctx = ctx\<lparr>total0 := total0 ctx + word_of_int ilen\<rparr>
      in if total0 ctx < word_of_int ilen then ctx\<lparr>total1 := total1 ctx + 1\<rparr> else ctx)"

text \<open>Completing a block that earlier calls began, when the input is long enough.\<close>

definition fill_block ::
  "tiny_md5_context \<Rightarrow> nat \<Rightarrow> u8 list \<Rightarrow> (tiny_md5_context \<times> nat \<times> u8 list) option" where
  "fill_block ctx left input =
     (let fill = 64 - left
      in if left \<noteq> 0 \<and> length input \<ge> fill then
           do { b \<leftarrow> wr (buffer ctx) left (take fill input);
                Some (ctx\<lparr>buffer := b, md5_state := md5_process (md5_state ctx) b\<rparr>, 0, drop fill input) }
         else Some (ctx, left, input))"

definition whole_blocks :: "tiny_md5_context \<Rightarrow> nat \<Rightarrow> u8 list \<Rightarrow> tiny_md5_context option" where
  "whole_blocks ctx left input =
     (let (st, input) = md5_loop (md5_state ctx) input;
          ctx = ctx\<lparr>md5_state := st\<rparr>
      in if length input > 0
         then do { b \<leftarrow> wr (buffer ctx) left input; Some (ctx\<lparr>buffer := b\<rparr>) }
         else Some ctx)"

text \<open>Reading more bytes than the input has is a fault.\<close>

definition tiny_md5_update :: "tiny_md5_context \<Rightarrow> u8 list \<Rightarrow> int \<Rightarrow> tiny_md5_context option" where
  "tiny_md5_update ctx input ilen =
     (if ilen \<le> 0 then Some ctx
      else do {
        input \<leftarrow> rdn input 0 (nat ilen);
        let left = unat (total0 ctx AND 0x3F);
        (ctx, left, input) \<leftarrow> fill_block (count_bytes ctx ilen) left input;
        whole_blocks ctx left input })"

definition md5_padding :: "u8 list" where
  "md5_padding = 0x80 # replicate 63 0"

definition put_state :: "md5_state \<Rightarrow> u8 list" where
  "put_state = (\<lambda>(a, b, c, d). put32 a @ put32 b @ put32 c @ put32 d)"

definition tiny_md5_finish :: "tiny_md5_context \<Rightarrow> (tiny_md5_context \<times> u8 list) option" where
  "tiny_md5_finish ctx =
     do { let high = drop_bit 29 (total0 ctx) OR push_bit 3 (total1 ctx);
          let low = push_bit 3 (total0 ctx);
          let msglen = put32 low @ put32 high;
          let last = unat (total0 ctx AND 0x3F);
          let padn = (if last < 56 then 56 - last else 120 - last);
          ctx \<leftarrow> tiny_md5_update ctx md5_padding (int padn);
          ctx \<leftarrow> tiny_md5_update ctx msglen 8;
          Some (ctx, put_state (md5_state ctx)) }"

definition blank_context :: tiny_md5_context where
  "blank_context = \<lparr>total0 = 0, total1 = 0, md5_state = (0, 0, 0, 0), buffer = replicate 64 0,
     ipad = replicate 64 0, opad = replicate 64 0\<rparr>"

text \<open>
  \<^verbatim>\<open>tiny_md5\<close> and the HMAC functions work on a context on the stack that is not initialised;
  it is an argument here.
\<close>

definition tiny_md5 :: "tiny_md5_context \<Rightarrow> u8 list \<Rightarrow> int \<Rightarrow> u8 list option" where
  "tiny_md5 ctx input ilen =
     do { ctx \<leftarrow> tiny_md5_update (tiny_md5_starts ctx) input ilen;
          (ctx, output) \<leftarrow> tiny_md5_finish ctx;
          Some output }"

text \<open>The loop that mixes the key into a pad.\<close>

fun xor_key :: "u8 list \<Rightarrow> u8 list \<Rightarrow> u8 list" where
  "xor_key (p # ps) (k # ks) = (p XOR k) # xor_key ps ks"
| "xor_key ps _ = ps"

definition tiny_md5_hmac_starts ::
  "tiny_md5_context \<Rightarrow> tiny_md5_context \<Rightarrow> u8 list \<Rightarrow> int \<Rightarrow> tiny_md5_context option" where
  "tiny_md5_hmac_starts fresh ctx key keylen =
     do { key \<leftarrow> (if keylen > 64 then tiny_md5 fresh key keylen else rdn key 0 (nat keylen));
          let ctx = ctx\<lparr>ipad := xor_key (replicate 64 0x36) key, opad := xor_key (replicate 64 0x5C) key\<rparr>;
          tiny_md5_update (tiny_md5_starts ctx) (ipad ctx) 64 }"

definition tiny_md5_hmac_update :: "tiny_md5_context \<Rightarrow> u8 list \<Rightarrow> int \<Rightarrow> tiny_md5_context option" where
  "tiny_md5_hmac_update ctx input ilen = tiny_md5_update ctx input ilen"

definition tiny_md5_hmac_finish :: "tiny_md5_context \<Rightarrow> (tiny_md5_context \<times> u8 list) option" where
  "tiny_md5_hmac_finish ctx =
     do { (ctx, tmpbuf) \<leftarrow> tiny_md5_finish ctx;
          ctx \<leftarrow> tiny_md5_update (tiny_md5_starts ctx) (opad ctx) 64;
          ctx \<leftarrow> tiny_md5_update ctx tmpbuf 16;
          tiny_md5_finish ctx }"

definition tiny_md5_hmac ::
  "tiny_md5_context \<Rightarrow> tiny_md5_context \<Rightarrow> u8 list \<Rightarrow> int \<Rightarrow> u8 list \<Rightarrow> int \<Rightarrow> u8 list option" where
  "tiny_md5_hmac fresh ctx key keylen input ilen =
     do { ctx \<leftarrow> tiny_md5_hmac_starts fresh ctx key keylen;
          ctx \<leftarrow> tiny_md5_hmac_update ctx input ilen;
          (ctx, output) \<leftarrow> tiny_md5_hmac_finish ctx;
          Some output }"

section \<open>The digest of RFC 1321\<close>

text \<open>
  What the code appends to a message of \<open>n\<close> bytes: one bit, zeros up to 8 bytes before a block
  boundary and the bit length as a 64 bit little-endian number.
\<close>

definition md5_pad :: "nat \<Rightarrow> u8 list" where
  "md5_pad n = 0x80 # replicate ((if n mod 64 < 56 then 56 else 120) - n mod 64 - 1) 0 @
     put32 (word_of_nat (8 * n)) @ put32 (word_of_nat (8 * n div 2 ^ 32))"

definition hmac_spec :: "u8 list \<Rightarrow> u8 list \<Rightarrow> u8 list" where
  "hmac_spec key m =
     (let k = (if length key > 64 then md5_spec key else key)
      in md5_spec (xor_key (replicate 64 0x5C) k @ md5_spec (xor_key (replicate 64 0x36) k @ m)))"

section \<open>The block function against RFC 1321\<close>

text \<open>
  The code's rotated register names, its cheaper forms of the auxiliary functions and its four
  step tables are those of the RFC: words of a block, functions, rotation, tables, one operation,
  one block, all blocks, initial state and padding in turn.
\<close>

lemma le_word4: "le_word [a, b, c, d] =
     ucast a OR push_bit 8 (ucast b) OR push_bit 16 (ucast c) OR push_bit 24 (ucast d)"
proof -
  have p: "push_bit 8 (ucast b) + (push_bit 16 (ucast c) + push_bit 24 (ucast d)) + ucast a = (le_word [a, b, c, d] :: u32)"
    by (simp add: le_word_def push_bit_eq_mult unsigned_ucast_eq algebra_simps)
  have q: "push_bit 16 (ucast c) + push_bit 24 (ucast d) = (push_bit 16 (ucast c) OR push_bit 24 (ucast d) :: u32)"
    "push_bit 8 (ucast b) + (push_bit 16 (ucast c) OR push_bit 24 (ucast d)) = (push_bit 8 (ucast b) OR (push_bit 16 (ucast c) OR push_bit 24 (ucast d)) :: u32)"
    "(push_bit 8 (ucast b) OR (push_bit 16 (ucast c) OR push_bit 24 (ucast d))) + ucast a = ((push_bit 8 (ucast b) OR (push_bit 16 (ucast c) OR push_bit 24 (ucast d))) OR ucast a :: u32)"
    by (rule disjunctive_add_eq_or, rule bit_word_eqI, auto simp: bit_simps dest!: bit_imp_le_length)+
  show ?thesis unfolding p[symmetric] q by (simp add: ac_simps)
qed

lemma block_words_eq: "length b = 64 \<Longrightarrow> get_words b = block_words b"
proof -
  assume l: "length b = 64"
  have "le_word (take 4 (drop (4 * i) b)) = ucast (b ! (4 * i)) OR push_bit 8 (ucast (b ! (4 * i + 1)))
            OR push_bit 16 (ucast (b ! (4 * i + 2))) OR push_bit 24 (ucast (b ! (4 * i + 3)))" if "i < 16" for i
  proof -
    have "take 4 (drop (4 * i) b) = [b ! (4 * i), b ! (4 * i + 1), b ! (4 * i + 2), b ! (4 * i + 3)]"
      using l that by (intro nth_equalityI) (auto simp: nth_Cons' less_Suc_eq numeral_eq_Suc)
    then show ?thesis by (simp add: le_word4)
  qed
  then show ?thesis by (simp add: get_words_def block_words_def)
qed

lemma md5_fun_eq: "F1 = rfc_F" "F2 = rfc_G" "F3 = rfc_H" "F4 = rfc_I"
  by (auto simp: fun_eq_iff F1_def F2_def F3_def F4_def rfc_F_def rfc_G_def rfc_H_def rfc_I_def
      bit_eq_iff bit_simps)

lemma rotate_eq: "n < 32 \<Longrightarrow> S x n = word_rotl n x"
proof (rule bit_word_eqI)
  fix i assume n: "n < 32" and i: "i < LENGTH(32)"
  show "bit (S x n) i = bit (word_rotl n x) i"
  proof (cases "n \<le> i")
    case True
    then have "(i + 32 - n) mod 32 = i - n" using i by (simp add: le_mod_geq)
    then show ?thesis using True n i by (auto simp: S_def bit_simps dest: bit_imp_le_length)
  next
    case False
    then have "(i + 32 - n) mod 32 = 32 - n + i" using n i by simp
    then show ?thesis using False n i by (auto simp: S_def bit_simps)
  qed
qed

definition md5_entry :: "nat \<Rightarrow> nat \<times> nat \<times> u32" where "md5_entry i = (rfc_k i, rfc_s i, rfc_T ! i)"

lemma md5_steps_eq:
  "steps1 = map md5_entry [0..<16]" "steps2 = map md5_entry [16..<32]"
  "steps3 = map md5_entry [32..<48]" "steps4 = map md5_entry [48..<64]"
  by (simp_all add: upt_rec[of _ "numeral _"] steps1_def steps2_def steps3_def steps4_def md5_entry_def
      rfc_k_def rfc_s_def rfc_T_def)

definition md5_arr :: "nat \<Rightarrow> md5_state \<Rightarrow> u32 list" where
  "md5_arr i = (\<lambda>(a, b, c, d). if i mod 4 = 0 then [a, b, c, d] else if i mod 4 = 1 then [b, c, d, a]
     else if i mod 4 = 2 then [c, d, a, b] else [d, a, b, c])"

lemma rfc_index:
  assumes "i < 64"
  shows "rfc_s i < 32" "(64 - i) mod 4 = (4 - i mod 4) mod 4"
proof -
  have "list_all (\<lambda>i. rfc_s i < 32 \<and> (64 - i) mod 4 = (4 - i mod 4) mod 4) [0..<64]" by code_simp
  then show "rfc_s i < 32" "(64 - i) mod 4 = (4 - i mod 4) mod 4" using assms by (auto simp: list_all_iff)
qed

lemma rfc_op_md5_arr:
  assumes i: "i < 64"
  shows "rfc_op X i (md5_arr i st) = md5_arr (Suc i) (P (rfc_fun i) X (md5_entry i) st)"
proof -
  obtain a b c d where st: "st = (a, b, c, d)" by (cases st)
  note s = rfc_index(1)[OF i] and p = rfc_index(2)[OF i]
  define n where "n = b + word_rotl (rfc_s i) (a + rfc_fun i b c d + X ! rfc_k i + rfc_T ! i)"
  have P: "P (rfc_fun i) X (md5_entry i) st = (d, n, b, c)"
    by (simp only: P_def md5_entry_def st rotate_eq[OF s] n_def prod.case add.assoc add.commute[of b])
  have op: "rfc_op X i R = R[p := n]"
    if "p = (4 - i mod 4) mod 4" "R ! p = a" "R ! ((p + 1) mod 4) = b" "R ! ((p + 2) mod 4) = c" "R ! ((p + 3) mod 4) = d" for p R
    unfolding rfc_op_def p that(1)[symmetric] Let_def that(2-) n_def ..
  have "i mod 4 = 0 \<and> Suc i mod 4 = 1 \<or> i mod 4 = 1 \<and> Suc i mod 4 = 2
      \<or> i mod 4 = 2 \<and> Suc i mod 4 = 3 \<or> i mod 4 = 3 \<and> Suc i mod 4 = 0"
    by presburger
  then consider "i mod 4 = 0" "Suc i mod 4 = 1" | "i mod 4 = 1" "Suc i mod 4 = 2"
    | "i mod 4 = 2" "Suc i mod 4 = 3" | "i mod 4 = 3" "Suc i mod 4 = 0"
    by (elim disjE conjE)
  then show ?thesis
  proof cases
    case 1
    have "rfc_op X i [a, b, c, d] = [n, b, c, d]" by (subst op[of 0]) (simp_all add: 1)
    then show ?thesis unfolding P unfolding st by (simp add: md5_arr_def 1)
  next
    case 2
    have "rfc_op X i [b, c, d, a] = [b, c, d, n]" by (subst op[of "Suc (Suc (Suc 0))"]) (simp_all add: 2)
    then show ?thesis unfolding P unfolding st by (simp add: md5_arr_def 2)
  next
    case 3
    have "rfc_op X i [c, d, a, b] = [c, d, n, b]" by (subst op[of "Suc (Suc 0)"]) (simp_all add: 3)
    then show ?thesis unfolding P unfolding st by (simp add: md5_arr_def 3)
  next
    case 4
    have "rfc_op X i [d, a, b, c] = [d, n, b, c]" by (subst op[of "Suc 0"]) (simp_all add: 4)
    then show ?thesis unfolding P unfolding st by (simp add: md5_arr_def 4)
  qed
qed

lemma rfc_fold:
  assumes "m \<le> n" "n \<le> 64"
  shows "fold (rfc_op X) [m..<n] (md5_arr m st) = md5_arr n (fold (\<lambda>i. P (rfc_fun i) X (md5_entry i)) [m..<n] st)"
  using assms(1,2)
proof (induction n rule: dec_induct)
  case (step n)
  then show ?case by (simp add: rfc_op_md5_arr)
qed simp

lemma fold_md5_entries:
  assumes "\<And>i. i \<in> set is \<Longrightarrow> rfc_fun i = F"
  shows "fold (P F X) (map md5_entry is) st = fold (\<lambda>i. P (rfc_fun i) X (md5_entry i)) is st"
  using assms by (simp add: fold_map o_def cong: fold_cong)

definition md5_regs :: "md5_state \<Rightarrow> u32 list" where
  "md5_regs = (\<lambda>(a, b, c, d). [a, b, c, d])"

lemma rfc_block_eq:
  assumes "length b = 64"
  shows "rfc_block (md5_regs st) b = md5_regs (md5_process st b)"
proof -
  let ?X = "block_words b" and ?s = "\<lambda>i. P (rfc_fun i) (block_words b) (md5_entry i)"
  have u: "[0..<64] = [0..<16] @ [16..<32] @ [32..<48] @ [48..<64::nat]"
    by (simp add: upt_rec[of _ "numeral _"])
  have r: "fold (P F4 ?X) steps4 (fold (P F3 ?X) steps3 (fold (P F2 ?X) steps2 (fold (P F1 ?X) steps1 st)))
      = fold ?s [0..<64] st"
    unfolding u md5_steps_eq md5_fun_eq fold_append comp_apply
    by (subst (1 2 3 4) fold_md5_entries) (auto simp: rfc_fun_def)
  have f: "fold (rfc_op ?X) [0..<64] (md5_regs st) = md5_regs (fold ?s [0..<64] st)"
    using rfc_fold[of 0 64 ?X st] by (simp add: md5_arr_def md5_regs_def)
  show ?thesis
    unfolding rfc_block_def f md5_process_def block_words_eq[OF assms] Let_def r
    by (auto simp: md5_regs_def split: prod.splits)
qed

lemma rfc_blocks_eq: "rfc_blocks (md5_regs st) m = md5_regs (fst (md5_loop st m))"
proof (induction st m rule: md5_loop.induct)
  case (1 st m)
  then show ?case
    by (cases "64 \<le> length m") (simp_all add: rfc_blocks_step rfc_block_eq md5_loop.simps[of st m])
qed

lemma rfc_start_eq: "rfc_start = md5_regs md5_init"
  by (simp add: rfc_start_def md5_regs_def md5_init_def le_word_def)

lemma le_bytes_put32: "le_bytes 4 v = put32 (word_of_nat v)"
proof -
  have "[0..<4] = [0, 1, 2, 3::nat]" by (simp add: upt_rec[of _ "numeral _"])
  moreover have "(word_of_nat (v div 2 ^ k) :: u8) = ucast (drop_bit k (word_of_nat v :: u32))" if "k \<le> 24" for k
    by (rule bit_word_eqI) (use that in \<open>auto simp: bit_simps drop_bit_eq_div[symmetric]\<close>)
  from this[of 0] this[of 8] this[of 16] this[of 24]
  show ?thesis using calculation by (simp add: le_bytes_def put32_def)
qed

lemma le_bytes_split: "le_bytes 8 v = le_bytes 4 v @ le_bytes 4 (v div 2 ^ 32)"
proof -
  have "[0..<8] = [0, 1, 2, 3, 4, 5, 6, 7::nat]" "[0..<4] = [0, 1, 2, 3::nat]" 
    by (simp_all add: upt_rec[of _ "numeral _"])
  then show ?thesis by (simp add: le_bytes_def div_mult2_eq[symmetric])
qed

lemma rfc_padding_eq: "rfc_padding n = md5_pad n"
proof -
  have "(119 - n mod 64) mod 64 = (if n mod 64 < 56 then 56 else 120) - n mod 64 - 1"
  proof (cases "n mod 64 < 56")
    case True
    then show ?thesis by (simp add: le_mod_geq)
  next
    case False
    have "n mod 64 < 64" by simp
    with False show ?thesis by simp
  qed
  then show ?thesis
    by (simp add: rfc_padding_def md5_pad_def le_bytes_split le_bytes_put32)
qed

lemma md5_spec_chain: "md5_spec m = put_state (fst (md5_loop md5_init (m @ md5_pad (length m))))"
  by (simp add: md5_spec_def rfc_padding_eq rfc_start_eq rfc_blocks_eq)
     (simp add: md5_regs_def put_state_def le_bytes_put32 case_prod_beta)

section \<open>The context as a prefix of the message\<close>

definition represents :: "tiny_md5_context \<Rightarrow> u8 list \<Rightarrow> bool" where
  "represents ctx msg \<longleftrightarrow>
     total0 ctx = word_of_nat (length msg) \<and> total1 ctx = word_of_nat (length msg div 2 ^ 32) \<and>
     md5_state ctx = fst (md5_loop md5_init msg) \<and> length (buffer ctx) = 64 \<and>
     take (length msg mod 64) (buffer ctx) = snd (md5_loop md5_init msg)"

lemma md5_loop_short [simp]: "length m < 64 \<Longrightarrow> md5_loop st m = (st, m)"
  by (simp add: md5_loop.simps)

lemma md5_loop_block: "length b = 64 \<Longrightarrow> md5_loop st (b @ m) = md5_loop (md5_process st b) m"
  by (subst md5_loop.simps) simp

lemma length_md5_rest: "length (snd (md5_loop st m)) = length m mod 64"
proof (induction st m rule: md5_loop.induct)
  case (1 st m)
  then show ?case by (cases "64 \<le> length m") (simp_all add: md5_loop.simps[of st m] le_mod_geq)
qed

text \<open>What is left over of a first part is prepended to what follows.\<close>

lemma md5_loop_append:
  "md5_loop st (a @ b) = md5_loop (fst (md5_loop st a)) (snd (md5_loop st a) @ b)"
proof (induction st a rule: md5_loop.induct)
  case (1 st a)
  show ?case
  proof (cases "64 \<le> length a")
    case True
    have "md5_loop st (a @ b) = md5_loop (md5_process st (take 64 a)) (drop 64 a @ b)"
      using md5_loop_block[of "take 64 a" st "drop 64 a @ b"] True
      by (simp flip: append_assoc)
    then show ?thesis using "1.IH"[OF True] True by (simp add: md5_loop.simps[of st a])
  qed simp
qed

lemma unat_mod64: "unat (word_of_nat n AND 0x3F :: u32) = n mod 64"
proof -
  have "(word_of_nat n AND 0x3F :: u32) = take_bit 6 (word_of_nat n)"
    by (simp add: take_bit_eq_mask mask_eq_exp_minus_1)
  then show ?thesis by (simp add: unsigned_take_bit_eq take_bit_nat_def unat_of_nat mod_mod_cancel)
qed

text \<open>The carry between the two halves of the byte count.\<close>

lemma wraps_iff: "r < M \<Longrightarrow> k < M \<Longrightarrow> (r + k) mod M < k \<longleftrightarrow> M \<le> r + (k :: nat)"
  by (cases "M \<le> r + k") (auto simp: le_mod_geq)

lemma div_carry:
  assumes "k < (M :: nat)"
  shows "(n + k) div M = n div M + (if M \<le> n mod M + k then 1 else 0)"
proof -
  have "(n mod M + k) div M = (if M \<le> n mod M + k then 1 else 0)"
  proof (cases "M \<le> n mod M + k")
    case True
    have "n mod M + k < M + M" using assms mod_less_divisor[of M n] by linarith
    with True show ?thesis by (simp add: div_if)
  qed simp
  then show ?thesis using div_add1_eq[of n k M] assms by (simp add: add.assoc div_plus_div_distrib_dvd_left div_add1_eq[of n k M])
qed

lemma total_carry:
  fixes t0 :: u32
  assumes "t0 = word_of_nat n" "k < 2 ^ 32"
  shows "word_of_nat (n div 2 ^ 32) + (if t0 + word_of_nat k < word_of_nat k then 1 else 0) =
    (word_of_nat ((n + k) div 2 ^ 32) :: u32)"
proof -
  have u: "unat t0 = n mod 2 ^ 32" "unat (word_of_nat k :: u32) = k"
    using assms by (simp_all add: unat_of_nat)
  have "unat (t0 + word_of_nat k) = (n mod 2 ^ 32 + k) mod 2 ^ 32"
    using u by (simp add: unat_word_ariths)
  then have lt: "t0 + word_of_nat k < word_of_nat k \<longleftrightarrow> 2 ^ 32 \<le> n mod 2 ^ 32 + k"
    using wraps_iff[of "n mod 2 ^ 32" "2 ^ 32" k] u(2) assms(2) by (simp only: word_less_nat_alt) simp
  show ?thesis by (simp only: div_carry[OF assms(2), of n] lt) simp
qed

lemma represents_starts: "length (buffer ctx) = 64 \<Longrightarrow> represents (tiny_md5_starts ctx) []"
  by (simp add: represents_def tiny_md5_starts_def)

text \<open>Both branches of an update: the input completes the block that was begun, or it does not.\<close>

lemma md5_loop_feed:
  assumes "length b = 64" "take l b = rest" "length rest = l" "l < 64" "64 - l \<le> length m"
  shows "md5_loop (md5_process st (take l b @ take (64 - l) m)) (drop (64 - l) m) = md5_loop st (rest @ m)"
proof -
  have "length (rest @ take (64 - l) m) = 64" using assms by simp
  from md5_loop_block[OF this, of st "drop (64 - l) m"] show ?thesis
    using assms(2) by simp
qed

text \<open>Once the count is that of \<open>msg\<close>, the blocks and the rest decide.\<close>

definition counts :: "tiny_md5_context \<Rightarrow> nat \<Rightarrow> bool" where
  "counts ctx n \<longleftrightarrow> total0 ctx = word_of_nat n \<and> total1 ctx = word_of_nat (n div 2 ^ 32)"

lemma represents_alt:
  "represents ctx msg \<longleftrightarrow> counts ctx (length msg) \<and> length (buffer ctx) = 64 \<and>
     md5_loop md5_init msg = (md5_state ctx, take (length msg mod 64) (buffer ctx))"
  by (auto simp: represents_def counts_def prod_eq_iff)

lemma count_bytes_counts:
  assumes "counts ctx n" "ilen = int k" "k < 2 ^ 32"
  shows "counts (count_bytes ctx ilen) (n + k)"
    "md5_state (count_bytes ctx ilen) = md5_state ctx" "buffer (count_bytes ctx ilen) = buffer ctx"
    "ipad (count_bytes ctx ilen) = ipad ctx" "opad (count_bytes ctx ilen) = opad ctx"
  using assms(1) total_carry[of "total0 ctx" n k] assms(3)
  by (auto simp: count_bytes_def counts_def assms(2) Let_def split: if_splits)

lemma whole_blocks_represents:
  assumes loop: "md5_loop md5_init msg = md5_loop (md5_state ctx) (take l (buffer ctx) @ input)"
    and l: "l < 64" "length msg mod 64 = (l + length input) mod 64" "l = 0 \<or> l + length input < 64"
    and c: "counts ctx (length msg)" "length (buffer ctx) = 64"
  shows "\<exists>ctx'. whole_blocks ctx l input = Some ctx' \<and> represents ctx' msg \<and>
    ipad ctx' = ipad ctx \<and> opad ctx' = opad ctx"
proof -
  obtain st rest where r: "md5_loop (md5_state ctx) input = (st, rest)" by fastforce
  have len: "length rest = length input mod 64"
    using length_md5_rest[of "md5_state ctx" input] r by simp
  show ?thesis
  proof (cases "l = 0")
    case True
    then have m: "md5_loop md5_init msg = (st, rest)" using loop r by simp
    show ?thesis
    proof (cases "rest = []")
      case True
      then show ?thesis
        using m r len c l(2) \<open>l = 0\<close>
        by (auto simp: whole_blocks_def represents_alt counts_def)
    next
      case False
      have "length rest < 64" using len by simp
      then show ?thesis
        using m r len c l(2) \<open>l = 0\<close> False
        by (auto simp: whole_blocks_def represents_alt counts_def wr_def)
    qed
  next
    case False
    then have short: "l + length input < 64" using l(3) by simp
    then have "st = md5_state ctx" "rest = input" using r by auto
    then show ?thesis
      using loop r c l short
      by (cases "input = []") (auto simp: whole_blocks_def represents_alt counts_def wr_def)
  qed
qed

lemma update_represents:
  assumes rep: "represents ctx msg" and n: "nat ilen \<le> length input" "ilen < 2 ^ 31"
  shows "\<exists>ctx'. tiny_md5_update ctx input ilen = Some ctx' \<and>
    represents ctx' (msg @ take (nat ilen) input) \<and> ipad ctx' = ipad ctx \<and> opad ctx' = opad ctx"
proof (cases "ilen \<le> 0")
  case True
  then show ?thesis using rep by (simp add: tiny_md5_update_def)
next
  case False
  define k where "k = nat ilen"
  define m where "m = take k input"
  have k: "ilen = int k" "k < 2 ^ 32" "length m = k"
    using False n by (auto simp: k_def m_def)
  let ?l = "length msg mod 64" and ?c = "count_bytes ctx ilen"
  have st: "md5_loop md5_init msg = (md5_state ctx, take ?l (buffer ctx))" "length (buffer ctx) = 64"
      "counts ctx (length msg)"
    using rep by (auto simp: represents_alt)
  have loop: "md5_loop md5_init (msg @ m) = md5_loop (md5_state ctx) (take ?l (buffer ctx) @ m)"
    using md5_loop_append[of md5_init msg m] st(1) by simp
  have left: "unat (total0 ctx AND 0x3F) = ?l"
    using st(3) unat_mod64 by (simp only: counts_def)
  have rd: "rdn input 0 (nat ilen) = Some m" using n by (simp add: rdn_def m_def k_def)
  note cb = count_bytes_counts[OF st(3) k(1,2)]
  have l: "?l < 64" by simp
  have "\<exists>c l' m'. fill_block ?c ?l m = Some (c, l', m') \<and>
      (\<exists>ctx'. whole_blocks c l' m' = Some ctx' \<and> represents ctx' (msg @ m) \<and>
        ipad ctx' = ipad ?c \<and> opad ctx' = opad ?c)"
  proof (cases "?l \<noteq> 0 \<and> 64 - ?l \<le> k")
    case True
    let ?b = "take ?l (buffer ctx) @ take (64 - ?l) m"
    let ?c' = "?c\<lparr>buffer := ?b, md5_state := md5_process (md5_state ctx) ?b\<rparr>"
    have b: "length ?b = 64" using st(2) l True k(3) by simp
    have w: "fill_block ?c ?l m = Some (?c', 0, drop (64 - ?l) m)"
      using st(2) l True k(3) by (simp add: fill_block_def wr_def cb Let_def)
    have "\<exists>ctx'. whole_blocks ?c' 0 (drop (64 - ?l) m) = Some ctx' \<and> represents ctx' (msg @ m) \<and>
        ipad ctx' = ipad ?c' \<and> opad ctx' = opad ?c'"
    proof (rule whole_blocks_represents)
      show "md5_loop md5_init (msg @ m) =
          md5_loop (md5_state ?c') (take 0 (buffer ?c') @ drop (64 - ?l) m)"
        using md5_loop_feed[OF st(2) refl _ l, of m "md5_state ctx"] True k(3) st(2) loop by simp
      have "length msg + k = (?l + k) + 64 * (length msg div 64)" by simp
      also have "\<dots> mod 64 = (?l + k) mod 64" by (rule mod_mult_self2)
      also have "\<dots> = (?l + k - 64) mod 64" using True by (intro le_mod_geq) linarith
      finally show "length (msg @ m) mod 64 = (0 + length (drop (64 - ?l) m)) mod 64"
        using True k(3) by (simp add: add.commute)
    qed (use cb(1) k(3) b in \<open>auto simp: counts_def\<close>)
    then show ?thesis using w by auto
  next
    case False
    have w: "fill_block ?c ?l m = Some (?c, ?l, m)"
      using False k(3) by (auto simp: fill_block_def Let_def)
    have "\<exists>ctx'. whole_blocks ?c ?l m = Some ctx' \<and> represents ctx' (msg @ m) \<and>
        ipad ctx' = ipad ?c \<and> opad ctx' = opad ?c"
      by (rule whole_blocks_represents) (use cb k(3) st(2) loop False in \<open>auto simp: mod_simps\<close>)
    then show ?thesis using w by auto
  qed
  then obtain c l' m' ctx' where "fill_block ?c ?l m = Some (c, l', m')"
      "whole_blocks c l' m' = Some ctx'" "represents ctx' (msg @ m)"
      "ipad ctx' = ipad ctx" "opad ctx' = opad ctx"
    using cb(4,5) by auto
  moreover from this have "tiny_md5_update ctx input ilen = Some ctx'"
    using False by (simp add: tiny_md5_update_def Let_def rd left)
  ultimately show ?thesis unfolding k_def[symmetric] m_def[symmetric] by blast
qed

section \<open>Digests\<close>

lemma length_word_bits:
  "push_bit 3 (word_of_nat n) = (word_of_nat (8 * n) :: u32)"
  by (simp add: push_bit_eq_mult mult.commute)

lemma high_bits:
  "drop_bit 29 (word_of_nat n) OR push_bit 3 (word_of_nat (n div 2 ^ 32)) =
     (word_of_nat (8 * n div 2 ^ 32) :: u32)"
proof (rule bit_word_eqI)
  fix i assume i: "i < LENGTH(32)"
  have b: "bit (8 * n div 2 ^ 32) i = bit n (i + 29)"
  proof -
    have "8 * n div 2 ^ 32 = n div 2 ^ 29" by simp
    also have "\<dots> = drop_bit 29 n" by (rule drop_bit_eq_div[symmetric])
    finally show ?thesis by (simp add: bit_drop_bit_eq add.commute)
  qed
  have "bit (drop_bit 29 (word_of_nat n) :: u32) i = (i < 3 \<and> bit n (i + 29))"
    using i by (auto simp: bit_simps add.commute)
  moreover have "bit (push_bit 3 (word_of_nat (n div 2 ^ 32)) :: u32) i = (3 \<le> i \<and> bit (n div 2 ^ 32) (i - 3))"
    using i by (auto simp: bit_simps)
  moreover have "bit (n div 2 ^ 32) (i - 3) = bit n (i + 29)" if "3 \<le> i"
  proof -
    have "bit (drop_bit 32 n) (i - 3) = bit n (i + 29)" using that by (simp add: bit_drop_bit_eq add.commute[of i 29])
    then show ?thesis by (simp only: drop_bit_eq_div)
  qed
  ultimately show "bit (drop_bit 29 (word_of_nat n) OR push_bit 3 (word_of_nat (n div 2 ^ 32)) :: u32) i =
      bit (word_of_nat (8 * n div 2 ^ 32) :: u32) i"
    using i b by (auto simp: bit_simps)
qed

lemma finish_represents:
  assumes rep: "represents ctx msg"
  shows "\<exists>ctx'. tiny_md5_finish ctx = Some (ctx', md5_spec msg) \<and> length (buffer ctx') = 64 \<and>
    ipad ctx' = ipad ctx \<and> opad ctx' = opad ctx"
proof -
  let ?n = "length msg"
  let ?padn = "if ?n mod 64 < 56 then 56 - ?n mod 64 else 120 - ?n mod 64"
  have c: "total0 ctx = word_of_nat ?n" "total1 ctx = word_of_nat (?n div 2 ^ 32)"
    using rep by (simp_all add: represents_def)
  have last: "unat (total0 ctx AND 0x3F) = ?n mod 64" by (simp only: c unat_mod64)
  have high: "drop_bit 29 (total0 ctx) OR push_bit 3 (total1 ctx) = word_of_nat (8 * ?n div 2 ^ 32)"
    unfolding c by (rule high_bits)
  have low: "push_bit 3 (total0 ctx) = word_of_nat (8 * ?n)"
    unfolding c by (rule length_word_bits)
  have padn: "?padn \<le> 64" "1 \<le> ?padn" using mod_less_divisor[of 64 ?n] by auto
  have pad: "take ?padn md5_padding = 0x80 # replicate (?padn - 1) 0"
    using padn by (cases ?padn) (auto simp: md5_padding_def)
  let ?p = "0x80 # replicate (?padn - 1) 0"
  have "nat (int ?padn) \<le> length md5_padding" "int ?padn < 2 ^ 31"
    using padn by (auto simp: md5_padding_def)
  from update_represents[OF rep this] obtain c1 where
    c1: "tiny_md5_update ctx md5_padding (int ?padn) = Some c1" "represents c1 (msg @ ?p)"
      "ipad c1 = ipad ctx" "opad c1 = opad ctx"
    using pad by auto
  let ?m = "put32 (word_of_nat (8 * ?n)) @ put32 (word_of_nat (8 * ?n div 2 ^ 32))"
  obtain c2 where c2: "tiny_md5_update c1 ?m 8 = Some c2" "represents c2 ((msg @ ?p) @ ?m)"
      "ipad c2 = ipad ctx" "opad c2 = opad ctx"
    using update_represents[OF c1(2), of 8 ?m] c1(3,4) by auto
  have mp: "(msg @ ?p) @ ?m = msg @ md5_pad ?n" by (simp add: md5_pad_def)
  have "put_state (md5_state c2) = md5_spec msg" "length (buffer c2) = 64"
    using c2(2) unfolding mp by (simp_all add: represents_def md5_spec_chain)
  moreover have "tiny_md5_finish ctx = Some (c2, put_state (md5_state c2))"
    unfolding tiny_md5_finish_def Let_def last high low using c1(1) c2(1) by simp
  ultimately show ?thesis using c2(3,4) by auto
qed

text \<open>
  Feeding in pieces makes no difference: updating with \<open>a\<close> and then \<open>b\<close> leads to the same digest
  as updating with \<open>a @ b\<close> at once, from every context that has processed some message so far.
\<close>

lemma tiny_md5_update_append:
  assumes "represents ctx msg" "length a + length b < 2 ^ 31"
  shows "\<exists>c1 c2 c d1 d. tiny_md5_update ctx a (int (length a)) = Some c1 \<and>
    tiny_md5_update c1 b (int (length b)) = Some c2 \<and>
    tiny_md5_update ctx (a @ b) (int (length (a @ b))) = Some c \<and>
    tiny_md5_finish c2 = Some (d1, md5_spec (msg @ a @ b)) \<and>
    tiny_md5_finish c = Some (d, md5_spec (msg @ a @ b))"
proof -
  obtain c1 where c1: "tiny_md5_update ctx a (int (length a)) = Some c1" "represents c1 (msg @ a)"
    using update_represents[OF assms(1), of "int (length a)" a] assms(2) by auto
  obtain c2 where c2: "tiny_md5_update c1 b (int (length b)) = Some c2" "represents c2 (msg @ a @ b)"
    using update_represents[OF c1(2), of "int (length b)" b] assms(2) by auto
  obtain c where c: "tiny_md5_update ctx (a @ b) (int (length (a @ b))) = Some c"
      "represents c (msg @ a @ b)"
    using update_represents[OF assms(1), of "int (length (a @ b))" "a @ b"] assms(2)
    by (auto simp: nat_int_add)
  show ?thesis
    using c1(1) c2(1) c(1) finish_represents[OF c2(2)] finish_represents[OF c(2)] by blast
qed

theorem tiny_md5_update_append_witness:
  "\<exists>c1 c2 d1. tiny_md5_update (tiny_md5_starts blank_context) (replicate 60 1) 60 = Some c1 \<and>
     tiny_md5_update c1 (replicate 10 2) 10 = Some c2 \<and>
     tiny_md5_finish c2 = Some (d1, md5_spec (replicate 60 1 @ replicate 10 2))"
proof -
  have "represents (tiny_md5_starts blank_context) []"
    by (rule represents_starts) (simp add: blank_context_def)
  from tiny_md5_update_append[OF this, of "replicate 60 1" "replicate 10 2"] show ?thesis
    by (simp del: replicate.simps) blast
qed

lemma tiny_md5_eq:
  assumes "length (buffer ctx) = 64" "nat ilen \<le> length m" "ilen < 2 ^ 31"
  shows "tiny_md5 ctx m ilen = Some (md5_spec (take (nat ilen) m))"
proof -
  obtain c where c: "tiny_md5_update (tiny_md5_starts ctx) m ilen = Some c" "represents c (take (nat ilen) m)"
    using update_represents[OF represents_starts[OF assms(1)] assms(2,3)] by auto
  show ?thesis using finish_represents[OF c(2)] c(1) by (auto simp: tiny_md5_def)
qed

text \<open>C36.
  \<open>tiny_md5\<close> computes the digest that RFC 1321 defines, for every message below 2 GiB, whatever
  the context held before, and without touching memory outside the message and the context.
  \<open>md5_spec\<close> is the definition of the RFC (theory \<^verbatim>\<open>Rfc1321\<close>); it uses no definition that models
  the code, and its table is proved to be that of the sine.
\<close>

theorem tiny_md5_correct:
  assumes "length (buffer ctx) = 64" "length m < 2 ^ 31"
  shows "tiny_md5 ctx m (int (length m)) = Some (md5_spec m)"
  using tiny_md5_eq[OF assms(1), of "int (length m)" m] assms(2) by simp

theorem tiny_md5_correct_witness:
  "tiny_md5 blank_context [97, 98, 99] 3 = Some (md5_spec [97, 98, 99])"
  using tiny_md5_correct[of blank_context "[97, 98, 99]"] by (simp add: blank_context_def)

lemma length_md5_spec: "length (md5_spec m) = 16"
  by (simp add: md5_spec_chain put_state_def case_prod_beta)

lemma length_xor_key [simp]: "length (xor_key p k) = length p"
  by (induction p k rule: xor_key.induct) auto

text \<open>
  \<open>tiny_md5_hmac\<close> computes the HMAC of RFC 2104 over MD5, long keys being hashed first.
\<close>

lemma tiny_md5_hmac_correct:
  assumes "length (buffer fresh) = 64" "length (buffer ctx) = 64"
    and "length key < 2 ^ 31" "length m < 2 ^ 31"
  shows "tiny_md5_hmac fresh ctx key (int (length key)) m (int (length m)) = Some (hmac_spec key m)"
proof -
  define k where "k = (if length key > 64 then md5_spec key else key)"
  let ?i = "xor_key (replicate 64 0x36) k" and ?o = "xor_key (replicate 64 0x5C) k"
  let ?c = "ctx\<lparr>ipad := ?i, opad := ?o\<rparr>"
  have key: "(if int (length key) > 64 then tiny_md5 fresh key (int (length key))
      else rdn key 0 (nat (int (length key)))) = Some k"
    using tiny_md5_eq[OF assms(1), of "int (length key)" key] assms(3)
    by (auto simp: k_def rdn_def)
  have "length (buffer ?c) = 64" using assms(2) by simp
  from update_represents[OF represents_starts[OF this], of 64 "ipad ?c"]
  obtain c1 where c1: "tiny_md5_update (tiny_md5_starts ?c) (ipad ?c) 64 = Some c1" "represents c1 ?i" "opad c1 = ?o"
    by (auto simp: tiny_md5_starts_def)
  obtain c2 where c2: "tiny_md5_update c1 m (int (length m)) = Some c2" "represents c2 (?i @ m)" "opad c2 = ?o"
    using update_represents[OF c1(2), of "int (length m)" m] c1(3) assms(4) by auto
  obtain c3 where c3: "tiny_md5_finish c2 = Some (c3, md5_spec (?i @ m))" "length (buffer c3) = 64" "opad c3 = ?o"
    using finish_represents[OF c2(2)] c2(3) by auto
  obtain c4 where c4: "tiny_md5_update (tiny_md5_starts c3) (opad c3) 64 = Some c4" "represents c4 ?o"
    using update_represents[OF represents_starts[OF c3(2)], of 64 ?o] c3(3) by auto
  obtain c5 where c5: "tiny_md5_update c4 (md5_spec (?i @ m)) 16 = Some c5" "represents c5 (?o @ md5_spec (?i @ m))"
    using update_represents[OF c4(2), of 16 "md5_spec (?i @ m)"] by (auto simp: length_md5_spec)
  obtain c6 where "tiny_md5_finish c5 = Some (c6, md5_spec (?o @ md5_spec (?i @ m)))"
    using finish_represents[OF c5(2)] by auto
  then show ?thesis
    using c1(1) c2(1) c3(1) c4(1) c5(1) key
    by (simp add: tiny_md5_hmac_def tiny_md5_hmac_starts_def tiny_md5_hmac_update_def
        tiny_md5_hmac_finish_def hmac_spec_def k_def Let_def)
qed

lemma tiny_md5_hmac_correct_witness:
  "tiny_md5_hmac blank_context blank_context [1, 2] 2 [97, 98, 99] 3 = Some (hmac_spec [1, 2] [97, 98, 99])"
  using tiny_md5_hmac_correct[of blank_context blank_context "[1, 2]" "[97, 98, 99]"]
  by (simp add: blank_context_def)

text \<open>Two digests of RFC 1321, the empty message and ''abc'', by evaluating one block.\<close>

lemma md5_block_empty:
  "put_state (md5_process md5_init (0x80 # replicate 63 0)) =
     [0xd4, 0x1d, 0x8c, 0xd9, 0x8f, 0x00, 0xb2, 0x04, 0xe9, 0x80, 0x09, 0x98, 0xec, 0xf8, 0x42, 0x7e]"
  by code_simp

lemma md5_block_abc:
  "put_state (md5_process md5_init ([97, 98, 99, 0x80] @ replicate 52 0 @ put32 24 @ put32 0)) =
     [0x90, 0x01, 0x50, 0x98, 0x3c, 0xd2, 0x4f, 0xb0, 0xd6, 0x96, 0x3f, 0x7d, 0x28, 0xe1, 0x7f, 0x72]"
  by code_simp

lemma md5_spec_one_block:
  assumes "length m < 56"
  shows "md5_spec m = put_state (md5_process md5_init (m @ md5_pad (length m)))"
proof -
  have "length (m @ md5_pad (length m)) = 64" using assms by (simp add: md5_pad_def)
  from md5_loop_block[OF this, of md5_init "[]"] show ?thesis by (simp add: md5_spec_chain)
qed

text \<open>
  The block function has the constants, shifts and word order of RFC 1321: the digests of the
  empty message and of ''abc'' are those of its test suite.
\<close>

lemma tiny_md5_test_suite:
  "tiny_md5 blank_context [] 0 =
     Some [0xd4, 0x1d, 0x8c, 0xd9, 0x8f, 0x00, 0xb2, 0x04, 0xe9, 0x80, 0x09, 0x98, 0xec, 0xf8, 0x42, 0x7e] \<and>
   tiny_md5 blank_context [97, 98, 99] 3 =
     Some [0x90, 0x01, 0x50, 0x98, 0x3c, 0xd2, 0x4f, 0xb0, 0xd6, 0x96, 0x3f, 0x7d, 0x28, 0xe1, 0x7f, 0x72]"
proof -
  have l: "length (buffer blank_context) = 64" by (simp add: blank_context_def)
  have "md5_pad 0 = 0x80 # replicate 63 0"
    by (simp add: md5_pad_def put32_def replicate_numeral)
  then have e: "md5_spec [] = put_state (md5_process md5_init (0x80 # replicate 63 0))"
    by (simp add: md5_spec_one_block)
  have "md5_pad 3 = 0x80 # replicate 52 0 @ put32 24 @ put32 0"
    by (simp add: md5_pad_def)
  then have a: "md5_spec [97, 98, 99] =
      put_state (md5_process md5_init ([97, 98, 99, 0x80] @ replicate 52 0 @ put32 24 @ put32 0))"
    by (simp add: md5_spec_one_block numeral_3_eq_3)
  show ?thesis
    using tiny_md5_eq[OF l, of 0 "[]"] tiny_md5_eq[OF l, of 3 "[97, 98, 99]"]
    by (simp add: e[unfolded md5_block_empty] a[unfolded md5_block_abc])
qed

end
