(* ===== verification/Mqueue.thy ===== *)
theory Mqueue
  imports Prelude
begin

text \<open>
  The message queue of \<^verbatim>\<open>rt-thread/src/ipc.c\<close>, on which the gateway task receives its work.
  A slot of the pool is a header (the link to the next slot) and a message; the queue threads a
  list of full slots from head to tail and a list of free slots through the pool. Slots are
  numbered, a null link is \<open>None\<close>, and a message is a value of any type (the gateway
  sends 4 byte addresses).

  The functions are the sections that run with interrupts disabled. A receiver or sender that would
  block is modelled as the call that finds the queue still empty or full when its time is up: a
  call that is woken earlier is the same call made after the step that woke it.

  The contract of the queue is the locale \<open>fifo\<close>, a bounded first-in first-out buffer, which the
  gateway relies on; its interpretation \<open>mq\<close> is the refinement proof.
\<close>

definition RT_EOK :: int where "RT_EOK = 0"
definition RT_ERROR :: int where "RT_ERROR = 1"
definition RT_ETIMEOUT :: int where "RT_ETIMEOUT = 2"
definition RT_EFULL :: int where "RT_EFULL = 3"
definition RT_MQ_ENTRY_MAX :: nat where "RT_MQ_ENTRY_MAX = 65535"

lemmas rt_codes = RT_EOK_def RT_ERROR_def RT_ETIMEOUT_def RT_EFULL_def

section \<open>The queue and its operations\<close>

record 'a rt_messagequeue =
  next_of :: "nat option list"
  msg_of :: "'a option list"
  msg_size :: nat
  max_msgs :: nat
  entry :: nat
  msg_queue_head :: "nat option"
  msg_queue_tail :: "nat option"
  msg_queue_free :: "nat option"

definition RT_ALIGN4 :: "nat \<Rightarrow> nat" where
  "RT_ALIGN4 n = (n + 3) div 4 * 4"

definition sizeof_rt_mq_message :: nat where "sizeof_rt_mq_message = 4"

text \<open>The loop that links every slot into the free list.\<close>

fun link_free :: "nat \<Rightarrow> nat \<Rightarrow> 'a rt_messagequeue \<Rightarrow> 'a rt_messagequeue" where
  "link_free temp 0 q = q"
| "link_free temp (Suc k) q =
     link_free (temp + 1) k
       (q\<lparr>next_of := (next_of q)[temp := msg_queue_free q], msg_queue_free := Some temp\<rparr>)"

definition rt_mq_init :: "nat \<Rightarrow> nat \<Rightarrow> 'a rt_messagequeue" where
  "rt_mq_init len pool_size =
     (let sz = RT_ALIGN4 len mod 2 ^ 16;
          n = pool_size div (sz + sizeof_rt_mq_message) mod 2 ^ 16
      in link_free 0 n
           \<lparr>next_of = replicate n None, msg_of = replicate n None, msg_size = sz, max_msgs = n,
            entry = 0, msg_queue_head = None, msg_queue_tail = None, msg_queue_free = None\<rparr>)"

definition rt_mq_send_wait ::
  "'a rt_messagequeue \<Rightarrow> 'a \<Rightarrow> nat \<Rightarrow> int \<Rightarrow> (int \<times> 'a rt_messagequeue) option" where
  "rt_mq_send_wait q x len timeout =
     (if len > msg_size q then Some (- RT_ERROR, q)
      else case msg_queue_free q of
        None \<Rightarrow> Some (if timeout = 0 then - RT_EFULL else - RT_ETIMEOUT, q)
      | Some msg \<Rightarrow>
          do { nxt \<leftarrow> rd (next_of q) msg;
               let q = q\<lparr>msg_queue_free := nxt, next_of := (next_of q)[msg := None],
                         msg_of := (msg_of q)[msg := Some x]\<rparr>;
               let q = (case msg_queue_tail q of
                          None \<Rightarrow> q
                        | Some t \<Rightarrow> q\<lparr>next_of := (next_of q)[t := Some msg]\<rparr>);
               let q = q\<lparr>msg_queue_tail := Some msg\<rparr>;
               let q = (if msg_queue_head q = None then q\<lparr>msg_queue_head := Some msg\<rparr> else q);
               if entry q < RT_MQ_ENTRY_MAX
               then Some (RT_EOK, q\<lparr>entry := entry q + 1\<rparr>)
               else Some (- RT_EFULL, q) })"

definition rt_mq_recv ::
  "'a rt_messagequeue \<Rightarrow> (int \<times> 'a option \<times> 'a rt_messagequeue) option" where
  "rt_mq_recv q =
     (if entry q = 0 then Some (- RT_ETIMEOUT, None, q)
      else
        do { msg \<leftarrow> msg_queue_head q;
             nxt \<leftarrow> rd (next_of q) msg;
             x \<leftarrow> rd (msg_of q) msg;
             let q = q\<lparr>msg_queue_head := nxt\<rparr>;
             let q = (if msg_queue_tail q = Some msg then q\<lparr>msg_queue_tail := None\<rparr> else q);
             let q = (if entry q > 0 then q\<lparr>entry := entry q - 1\<rparr> else q);
             let q = q\<lparr>next_of := (next_of q)[msg := msg_queue_free q], msg_queue_free := Some msg\<rparr>;
             Some (RT_EOK, x, q) })"

section \<open>Linked slots\<close>

fun path :: "nat option list \<Rightarrow> nat option \<Rightarrow> nat list \<Rightarrow> bool" where
  "path nx p [] \<longleftrightarrow> p = None"
| "path nx p (i # is) \<longleftrightarrow> p = Some i \<and> i < length nx \<and> path nx (nx ! i) is"

lemma path_update [simp]: "i \<notin> set is \<Longrightarrow> path (nx[i := v]) p is = path nx p is"
  by (induction "is" arbitrary: p) auto

lemma path_bound: "path nx p is \<Longrightarrow> i \<in> set is \<Longrightarrow> i < length nx"
  by (induction "is" arbitrary: p) auto

lemma path_snoc:
  "path nx p (is @ [j]) \<Longrightarrow> distinct (is @ [j]) \<Longrightarrow> i \<notin> set (is @ [j]) \<Longrightarrow> i < length nx \<Longrightarrow> nx ! i = None \<Longrightarrow>
     path (nx[j := Some i]) p (is @ [j, i])"
  by (induction "is" arbitrary: p) auto

lemma path_unique: "path nx p is \<Longrightarrow> path nx p js \<Longrightarrow> is = js"
proof (induction "is" arbitrary: p js)
  case Nil
  then show ?case by (cases js) auto
next
  case (Cons i "is")
  then show ?case by (cases js) auto
qed

text \<open>
  The invariant: the slots are those of the two lists, each once; \<open>qs\<close> are the full ones in
  order, \<open>fs\<close> the free ones.
\<close>

definition mq_rep :: "'a rt_messagequeue \<Rightarrow> nat list \<Rightarrow> nat list \<Rightarrow> bool" where
  "mq_rep q qs fs \<longleftrightarrow>
     path (next_of q) (msg_queue_head q) qs \<and> path (next_of q) (msg_queue_free q) fs \<and>
     distinct (qs @ fs) \<and> set (qs @ fs) = {..<max_msgs q} \<and>
     length (next_of q) = max_msgs q \<and> length (msg_of q) = max_msgs q \<and> max_msgs q < 2 ^ 16 \<and>
     entry q = length qs \<and> msg_queue_tail q = (if qs = [] then None else Some (last qs)) \<and>
     (\<forall>i \<in> set qs. msg_of q ! i \<noteq> None)"

text \<open>The messages in the queue, oldest first: the walk from the head.\<close>

fun walk :: "nat \<Rightarrow> nat option list \<Rightarrow> nat option \<Rightarrow> nat list" where
  "walk 0 nx p = []"
| "walk (Suc k) nx p =
     (case p of None \<Rightarrow> [] | Some i \<Rightarrow> i # (if i < length nx then walk k nx (nx ! i) else []))"

definition mq_contents :: "'a rt_messagequeue \<Rightarrow> 'a list" where
  "mq_contents q = map (\<lambda>i. the (msg_of q ! i)) (walk (entry q) (next_of q) (msg_queue_head q))"

definition mq_inv :: "'a rt_messagequeue \<Rightarrow> bool" where
  "mq_inv q \<longleftrightarrow> (\<exists>qs fs. mq_rep q qs fs)"

lemma walk_path: "path nx p is \<Longrightarrow> walk (length is) nx p = is"
  by (induction "is" arbitrary: p) auto

lemma contents_rep: "mq_rep q qs fs \<Longrightarrow> mq_contents q = map (\<lambda>i. the (msg_of q ! i)) qs"
  by (simp add: mq_contents_def mq_rep_def walk_path)

lemma rep_count: "mq_rep q qs fs \<Longrightarrow> length qs + length fs = max_msgs q"
proof -
  assume r: "mq_rep q qs fs"
  then have "card (set (qs @ fs)) = length (qs @ fs)"
    by (intro distinct_card) (simp add: mq_rep_def)
  then show ?thesis using r by (simp add: mq_rep_def)
qed

lemma send_rep:
  assumes r: "mq_rep q qs (f # fs)" and len: "len \<le> msg_size q"
  shows "\<exists>q'. rt_mq_send_wait q x len timeout = Some (RT_EOK, q') \<and> mq_rep q' (qs @ [f]) fs \<and>
    mq_contents q' = mq_contents q @ [x] \<and> max_msgs q' = max_msgs q \<and> msg_size q' = msg_size q"
proof -
  let ?nx = "(next_of q)[f := None]"
  have f: "msg_queue_free q = Some f" "f < length (next_of q)" "path (next_of q) (next_of q ! f) fs"
      "f \<notin> set qs" "f \<notin> set fs"
    using r by (auto simp: mq_rep_def)
  have e: "entry q < RT_MQ_ENTRY_MAX"
    using rep_count[OF r] r by (auto simp: mq_rep_def RT_MQ_ENTRY_MAX_def)
  show ?thesis
  proof (cases qs rule: rev_cases)
    case Nil
    let ?q = "q\<lparr>msg_queue_free := next_of q ! f, next_of := ?nx, msg_of := (msg_of q)[f := Some x],
      msg_queue_tail := Some f, msg_queue_head := Some f, entry := entry q + 1\<rparr>"
    have "rt_mq_send_wait q x len timeout = Some (RT_EOK, ?q)"
      using r len f(1,2) e Nil by (auto simp: rt_mq_send_wait_def mq_rep_def rd_def Let_def)
    moreover have "mq_rep ?q (qs @ [f]) fs"
      using r f Nil by (auto simp: mq_rep_def)
    moreover have "mq_contents ?q = mq_contents q @ [x]"
      using contents_rep[OF r] contents_rep[OF \<open>mq_rep ?q (qs @ [f]) fs\<close>] Nil f(2) r
      by (simp add: mq_rep_def)
    ultimately show ?thesis by (intro exI[of _ ?q]) simp
  next
    case (snoc ys j)
    let ?q = "q\<lparr>msg_queue_free := next_of q ! f, next_of := ?nx[j := Some f],
      msg_of := (msg_of q)[f := Some x], msg_queue_tail := Some f, entry := entry q + 1\<rparr>"
    have h: "msg_queue_head q \<noteq> None" using r snoc by (cases ys) (auto simp: mq_rep_def)
    have "rt_mq_send_wait q x len timeout = Some (RT_EOK, ?q)"
      using r len f(1,2) e snoc h by (auto simp: rt_mq_send_wait_def mq_rep_def rd_def Let_def)
    moreover have p: "path (?nx[j := Some f]) (msg_queue_head q) (qs @ [f])"
    proof -
      have "path ?nx (msg_queue_head q) (ys @ [j])"
        using r f(4) snoc by (auto simp: mq_rep_def)
      then show ?thesis
        using path_snoc[of ?nx "msg_queue_head q" ys j f] r f snoc by (auto simp: mq_rep_def)
    qed
    have j: "j \<notin> set fs" "j \<noteq> f" using r snoc by (auto simp: mq_rep_def)
    have "mq_rep ?q (qs @ [f]) fs"
      using r f p j unfolding mq_rep_def by (auto simp: nth_list_update)
    moreover have "mq_contents ?q = mq_contents q @ [x]"
      using contents_rep[OF r] contents_rep[OF \<open>mq_rep ?q (qs @ [f]) fs\<close>] f r
      by (auto simp: mq_rep_def nth_list_update)
    ultimately show ?thesis by (intro exI[of _ ?q]) simp
  qed
qed

lemma recv_rep:
  assumes r: "mq_rep q (m # qs) fs"
  shows "\<exists>q'. rt_mq_recv q = Some (RT_EOK, Some (hd (mq_contents q)), q') \<and> mq_rep q' qs (m # fs) \<and>
    mq_contents q' = tl (mq_contents q) \<and> max_msgs q' = max_msgs q \<and> msg_size q' = msg_size q"
proof -
  have m: "msg_queue_head q = Some m" "m < length (next_of q)" "m < length (msg_of q)"
      "path (next_of q) (next_of q ! m) qs" "m \<notin> set qs" "m \<notin> set fs" "entry q = Suc (length qs)"
      "msg_of q ! m \<noteq> None"
    using r by (auto simp: mq_rep_def)
  let ?q = "q\<lparr>msg_queue_head := next_of q ! m,
    msg_queue_tail := (if msg_queue_tail q = Some m then None else msg_queue_tail q),
    entry := length qs, next_of := (next_of q)[m := msg_queue_free q], msg_queue_free := Some m\<rparr>"
  have t: "(if msg_queue_tail q = Some m then None else msg_queue_tail q) =
      (if qs = [] then None else Some (last qs))"
    using r m(5) by (auto simp: mq_rep_def split: if_splits)
  have rep: "mq_rep ?q qs (m # fs)"
    using r m t unfolding mq_rep_def by (auto simp: nth_list_update)
  have "hd (mq_contents q) = the (msg_of q ! m)" using contents_rep[OF r] by simp
  then have "rt_mq_recv q = Some (RT_EOK, Some (hd (mq_contents q)), ?q)"
    using m by (auto simp: rt_mq_recv_def rd_def Let_def)
  moreover have "mq_contents ?q = tl (mq_contents q)"
    using contents_rep[OF r] contents_rep[OF rep] by simp
  ultimately show ?thesis using rep by (intro exI[of _ ?q]) simp
qed

text \<open>Initialisation: after \<open>t\<close> steps the free list holds the first \<open>t\<close> slots, the last one first.\<close>

lemma link_free_fields [simp]:
  "msg_of (link_free t k q) = msg_of q" "msg_size (link_free t k q) = msg_size q"
  "max_msgs (link_free t k q) = max_msgs q" "entry (link_free t k q) = entry q"
  "msg_queue_head (link_free t k q) = msg_queue_head q" "msg_queue_tail (link_free t k q) = msg_queue_tail q"
  "length (next_of (link_free t k q)) = length (next_of q)"
  by (induction k arbitrary: t q) auto

lemma link_free_path:
  "path (next_of q) (msg_queue_free q) (rev [0..<t]) \<Longrightarrow> t + k \<le> length (next_of q) \<Longrightarrow>
     path (next_of (link_free t k q)) (msg_queue_free (link_free t k q)) (rev [0..<t + k])"
proof (induction k arbitrary: t q)
  case (Suc k)
  then show ?case
    using Suc.IH[of "q\<lparr>next_of := (next_of q)[t := msg_queue_free q], msg_queue_free := Some t\<rparr>" "Suc t"]
    by simp
qed simp

lemma init_rep:
  fixes q :: "'a rt_messagequeue"
  assumes "(q :: 'a rt_messagequeue) = rt_mq_init len pool_size"
  shows "mq_rep q [] (rev [0..<max_msgs q])"
proof -
  define n where "n = pool_size div (RT_ALIGN4 len mod 2 ^ 16 + sizeof_rt_mq_message) mod 2 ^ 16"
  have n: "max_msgs q = n" "n < 2 ^ 16" by (simp_all add: assms rt_mq_init_def Let_def n_def)
  have "path (next_of q) (msg_queue_free q) (rev [0..<0 + n])"
    unfolding assms rt_mq_init_def Let_def n_def[symmetric] by (rule link_free_path) simp_all
  then show ?thesis
    using n by (simp add: mq_rep_def) (auto simp: assms rt_mq_init_def Let_def n_def)
qed

section \<open>The contract: a bounded FIFO\<close>

text \<open>Sending several messages, and receiving several.\<close>

fun send_all :: "('q \<Rightarrow> 'a \<Rightarrow> (int \<times> 'q) option) \<Rightarrow> 'q \<Rightarrow> 'a list \<Rightarrow> 'q option" where
  "send_all send q [] = Some q"
| "send_all send q (x # xs) = do { (r, q) \<leftarrow> send q x; guard (r = RT_EOK); send_all send q xs }"

fun recv_all :: "('q \<Rightarrow> (int \<times> 'a option \<times> 'q) option) \<Rightarrow> nat \<Rightarrow> 'q \<Rightarrow> ('a list \<times> 'q) option" where
  "recv_all recv 0 q = Some ([], q)"
| "recv_all recv (Suc n) q =
     do { (r, m, q) \<leftarrow> recv q; guard (r = RT_EOK); x \<leftarrow> m; (xs, q) \<leftarrow> recv_all recv n q; Some (x # xs, q) }"

locale fifo =
  fixes inv :: "'q \<Rightarrow> bool"
    and contents :: "'q \<Rightarrow> 'a list"
    and capacity :: "'q \<Rightarrow> nat"
    and send :: "'q \<Rightarrow> 'a \<Rightarrow> int \<Rightarrow> (int \<times> 'q) option"
    and recv :: "'q \<Rightarrow> (int \<times> 'a option \<times> 'q) option"
  assumes bounded: "inv q \<Longrightarrow> length (contents q) \<le> capacity q"
    and send_ok: "inv q \<Longrightarrow> length (contents q) < capacity q \<Longrightarrow>
      \<exists>q'. send q x t = Some (RT_EOK, q') \<and> inv q' \<and> contents q' = contents q @ [x] \<and>
        capacity q' = capacity q"
    and send_full: "inv q \<Longrightarrow> length (contents q) = capacity q \<Longrightarrow>
      send q x t = Some (if t = 0 then - RT_EFULL else - RT_ETIMEOUT, q)"
    and recv_ok: "inv q \<Longrightarrow> contents q = x # xs \<Longrightarrow>
      \<exists>q'. recv q = Some (RT_EOK, Some x, q') \<and> inv q' \<and> contents q' = xs \<and> capacity q' = capacity q"
    and recv_empty: "inv q \<Longrightarrow> contents q = [] \<Longrightarrow> recv q = Some (- RT_ETIMEOUT, None, q)"
begin

lemma send_result:
  assumes "inv q"
  obtains (ok) q' where "length (contents q) < capacity q" "send q x t = Some (RT_EOK, q')" "inv q'"
      "contents q' = contents q @ [x]" "capacity q' = capacity q"
    | (full) r where "length (contents q) = capacity q" "send q x t = Some (r, q)" "r \<noteq> RT_EOK"
  using bounded[OF assms] send_ok[OF assms] send_full[OF assms]
  by (cases "length (contents q) < capacity q") (auto simp: rt_codes)

lemma recv_result:
  assumes "inv q"
  obtains (ok) x xs q' where "contents q = x # xs" "recv q = Some (RT_EOK, Some x, q')" "inv q'"
      "contents q' = xs" "capacity q' = capacity q"
    | (empty) "contents q = []" "recv q = Some (- RT_ETIMEOUT, None, q)"
  using recv_ok[OF assms] recv_empty[OF assms] by (cases "contents q") auto

lemma send_all_ok:
  "inv q \<Longrightarrow> length (contents q) + length xs \<le> capacity q \<Longrightarrow>
     \<exists>q'. send_all (\<lambda>q x. send q x t) q xs = Some q' \<and> inv q' \<and> contents q' = contents q @ xs \<and>
       capacity q' = capacity q"
proof (induction xs arbitrary: q)
  case (Cons x xs)
  then obtain q1 where q1: "send q x t = Some (RT_EOK, q1)" "inv q1" "contents q1 = contents q @ [x]"
      "capacity q1 = capacity q"
    using send_ok[of q x t] by auto
  then show ?case using Cons.IH[of q1] Cons.prems by auto
qed auto

lemma recv_all_ok:
  "inv q \<Longrightarrow> contents q = xs @ ys \<Longrightarrow>
     \<exists>q'. recv_all recv (length xs) q = Some (xs, q') \<and> inv q' \<and> contents q' = ys \<and> capacity q' = capacity q"
proof (induction xs arbitrary: q)
  case (Cons x xs)
  then obtain q1 where q1: "recv q = Some (RT_EOK, Some x, q1)" "inv q1" "contents q1 = xs @ ys"
      "capacity q1 = capacity q"
    using recv_ok[of q x "xs @ ys"] by auto
  then show ?case using Cons.IH[of q1] by auto
qed auto

lemma fifo_order:
  assumes "inv q" "contents q = []" "length xs \<le> capacity q"
  shows "\<exists>q1 q2. send_all (\<lambda>q x. send q x t) q xs = Some q1 \<and> recv_all recv (length xs) q1 = Some (xs, q2) \<and>
    inv q2 \<and> contents q2 = []"
proof -
  obtain q1 where q1: "send_all (\<lambda>q x. send q x t) q xs = Some q1" "inv q1" "contents q1 = xs"
    using send_all_ok[of q xs t] assms by auto
  then show ?thesis using recv_all_ok[of q1 xs "[]"] by auto
qed

end

text \<open>The queue provides the contract, for messages of 4 bytes.\<close>

definition mq_ok :: "'a rt_messagequeue \<Rightarrow> bool" where
  "mq_ok q \<longleftrightarrow> mq_inv q \<and> 4 \<le> msg_size q"

definition mq_send4 :: "'a rt_messagequeue \<Rightarrow> 'a \<Rightarrow> int \<Rightarrow> (int \<times> 'a rt_messagequeue) option" where
  "mq_send4 q x timeout = rt_mq_send_wait q x 4 timeout"

lemma rep_empty_free: "mq_rep q qs [] \<Longrightarrow> msg_queue_free q = None"
  by (simp add: mq_rep_def)

interpretation mq: fifo mq_ok mq_contents max_msgs mq_send4 rt_mq_recv
proof
  fix q :: "'a rt_messagequeue" and x :: 'a and xs and t :: int
  assume "mq_ok q"
  then obtain qs fs where r: "mq_rep q qs fs" and s: "4 \<le> msg_size q"
    by (auto simp: mq_ok_def mq_inv_def)
  note c = contents_rep[OF r] rep_count[OF r]
  show "length (mq_contents q) \<le> max_msgs q" using c by simp
  show "\<exists>q'. mq_send4 q x t = Some (RT_EOK, q') \<and> mq_ok q' \<and> mq_contents q' = mq_contents q @ [x] \<and>
      max_msgs q' = max_msgs q" if lt: "length (mq_contents q) < max_msgs q"
  proof -
    obtain f fs' where "fs = f # fs'" using lt c by (cases fs) auto
    then show ?thesis
      using send_rep[of q qs f fs' 4, where x = x and timeout = t] r s by (fastforce simp: mq_send4_def mq_ok_def mq_inv_def)
  qed
  show "mq_send4 q x t = Some (if t = 0 then - RT_EFULL else - RT_ETIMEOUT, q)"
    if "length (mq_contents q) = max_msgs q"
  proof -
    have "fs = []" using that c by simp
    then show ?thesis
      using rep_empty_free[of q qs] r s by (simp add: mq_send4_def rt_mq_send_wait_def)
  qed
  show "\<exists>q'. rt_mq_recv q = Some (RT_EOK, Some x, q') \<and> mq_ok q' \<and> mq_contents q' = xs \<and>
      max_msgs q' = max_msgs q" if cx: "mq_contents q = x # xs"
  proof -
    obtain m qs' where "qs = m # qs'" using cx c by (cases qs) auto
    then show ?thesis
      using recv_rep[of q m qs' fs] r s cx by (fastforce simp: mq_ok_def mq_inv_def)
  qed
  show "rt_mq_recv q = Some (- RT_ETIMEOUT, None, q)" if "mq_contents q = []"
    using that c(1) r by (simp add: rt_mq_recv_def mq_rep_def)
qed

section \<open>Properties of the queue\<close>

lemma init_ok:
  assumes "(q :: 'a rt_messagequeue) = rt_mq_init 4 pool_size"
  shows "mq_ok q" "mq_contents q = []" "max_msgs q = pool_size div 8 mod 2 ^ 16"
proof -
  have r: "mq_rep q [] (rev [0..<max_msgs q])" by (rule init_rep[OF assms])
  have "RT_ALIGN4 4 = 4" by (simp add: RT_ALIGN4_def)
  then have "msg_size q = 4" "max_msgs q = pool_size div 8 mod 2 ^ 16"
    by (simp_all add: assms rt_mq_init_def sizeof_rt_mq_message_def Let_def)
  then show "mq_ok q" "mq_contents q = []" "max_msgs q = pool_size div 8 mod 2 ^ 16"
    using r contents_rep[OF r] by (auto simp: mq_ok_def mq_inv_def)
qed

text \<open>C18.
  The message queue is a FIFO: a queue initialised over a pool takes any sequence of messages up
  to the number of slots that fit the pool (8 bytes each, link and message), refuses the next one
  with -RT_EFULL, and hands the messages out again in the order in which they were sent.
\<close>

theorem rt_mq_fifo:
  assumes "length xs \<le> pool_size div 8" "pool_size < 2 ^ 16"
  shows "\<exists>q1 q2. send_all (\<lambda>q x. mq_send4 q x 0) (rt_mq_init 4 pool_size) xs = Some q1 \<and>
    recv_all rt_mq_recv (length xs) q1 = Some (xs, q2) \<and> mq_contents q2 = [] \<and>
    (length xs = pool_size div 8 \<longrightarrow> mq_send4 q1 x 0 = Some (- RT_EFULL, q1))"
proof -
  let ?q = "rt_mq_init 4 pool_size :: 'a rt_messagequeue"
  have "pool_size div 8 \<le> pool_size" by simp
  then have "pool_size div 8 mod 2 ^ 16 = pool_size div 8"
    using assms(2) by (intro mod_less) linarith
  then have i: "mq_ok ?q" "mq_contents ?q = []" "max_msgs ?q = pool_size div 8"
    using init_ok[OF refl, of pool_size] by simp_all
  obtain q1 where q1: "send_all (\<lambda>q x. mq_send4 q x 0) ?q xs = Some q1" "mq_ok q1"
      "mq_contents q1 = xs" "max_msgs q1 = pool_size div 8"
    using mq.send_all_ok[OF i(1), of xs 0] i(2,3) assms(1) by auto
  obtain q2 where "recv_all rt_mq_recv (length xs) q1 = Some (xs, q2)" "mq_contents q2 = []"
    using mq.recv_all_ok[OF q1(2), of xs "[]"] q1(3) by auto
  moreover have "mq_send4 q1 x 0 = Some (- RT_EFULL, q1)" if "length xs = pool_size div 8"
    using mq.send_full[OF q1(2), of x 0] q1(3,4) that by simp
  ultimately show ?thesis using q1(1) by blast
qed

theorem rt_mq_fifo_witness:
  "let xs = [1, 2, 3, 4 :: nat] in
     \<exists>q1 q2. send_all (\<lambda>q x. mq_send4 q x 0) (rt_mq_init 4 32) xs = Some q1 \<and>
       recv_all rt_mq_recv (length xs) q1 = Some (xs, q2) \<and> mq_contents q2 = [] \<and>
       mq_send4 q1 5 0 = Some (- RT_EFULL, q1)"
  unfolding Let_def using rt_mq_fifo[of "[1, 2, 3, 4 :: nat]" 32 5]
  by (simp del: send_all.simps recv_all.simps)

end
