(* ===== verification/OtaFlash.thy ===== *)
theory OtaFlash
  imports Platform Md5
begin

text \<open>
  \<^verbatim>\<open>applications/codec/coding/uc_ota_flash.c\<close>: the downloaded firmware image in flash. The
  flash driver of the protocol library transfers words whose bytes are in the opposite order,
  so a read swaps the bytes of every word it touches, and a write that does not cover a word
  first reads it. The driver itself is a parameter; \<open>flash_contract\<close> is its documented
  behaviour (NOR flash: an erase sets every bit of a 4 KiB sector, a write only clears bits).

  Addresses and sizes are natural numbers; the sums of the source that could pass \<open>2 ^ 32\<close> are
  taken modulo that, except in the loop conditions, for which sizes stay below \<open>2 ^ 32 - 8\<close>
  (the callers pass at most 1 KiB to read or write, and images are below 2 GiB).
\<close>

section \<open>Words in flash\<close>

definition BSWAP_32 :: "u32 \<Rightarrow> u32" where
  "BSWAP_32 x =
     drop_bit 24 (x AND 0xff000000) OR drop_bit 8 (x AND 0x00ff0000) OR
     push_bit 8 (x AND 0x0000ff00) OR push_bit 24 (x AND 0x000000ff)"

definition bswap_bytes :: "u8 list \<Rightarrow> u8 list option" where
  "bswap_bytes bs = do { w \<leftarrow> get32 bs; Some (put32 (BSWAP_32 w)) }"

text \<open>Offset in the word and number of bytes that one iteration moves.\<close>

definition chunk :: "nat \<Rightarrow> nat \<Rightarrow> nat \<Rightarrow> nat \<times> nat" where
  "chunk addr index sz =
     (let addr_offset = (addr + index) mod 2 ^ 32 mod 4
      in (addr_offset, if index + 4 - addr_offset > sz then sz - index else 4 - addr_offset))"

lemma chunk_progress: "index < sz \<Longrightarrow> chunk addr index sz = (o', n) \<Longrightarrow> 0 < n \<and> index + n \<le> sz"
proof -
  have "(addr + index) mod 2 ^ 32 mod 4 < 4" by simp
  moreover assume "index < sz" "chunk addr index sz = (o', n)"
  ultimately show ?thesis
    by (auto simp: chunk_def Let_def simp del: mod_less_divisor split: if_splits)
qed

section \<open>Reading\<close>

definition flash_read_word :: "env \<Rightarrow> nat \<Rightarrow> 'a sys_scheme \<Rightarrow> u8 list \<times> 'a sys_scheme" where
  "flash_read_word e a s = (e_flash_read e (hist s) a 4, emit (C_flash (F_read a 4)) s)"

function read_loop ::
  "env \<Rightarrow> nat \<Rightarrow> nat \<Rightarrow> nat \<Rightarrow> u8 list \<Rightarrow> 'a sys_scheme \<Rightarrow> (u8 list \<times> 'a sys_scheme) option" where
  "read_loop e addr sz index buf s =
     (if index < sz then
        (case chunk addr index sz of (addr_offset, order_len) \<Rightarrow>
          do { let read_addr = (addr + index) mod 2 ^ 32 div 4 * 4;
               let (w, s) = flash_read_word e read_addr s;
               read_buf \<leftarrow> bswap_bytes w;
               bs \<leftarrow> rdn read_buf addr_offset order_len;
               read_loop e addr sz (index + order_len) (buf @ bs) s })
      else Some (buf, s))"
  by pat_completeness auto
termination
proof (relation "measure (\<lambda>(e, addr, sz, index, buf, s). sz - index)", goal_cases)
  case (2 e addr sz index buf s addr_offset order_len)
  then show ?case using chunk_progress[of index sz addr addr_offset order_len] by (simp, linarith)
qed simp

declare read_loop.simps [simp del]

definition uc_wiota_ota_flash_read ::
  "env \<Rightarrow> nat \<Rightarrow> nat \<Rightarrow> 'a sys_scheme \<Rightarrow> (nat \<times> u8 list \<times> 'a sys_scheme) option" where
  "uc_wiota_ota_flash_read e offset sz s =
     do { (buf, s) \<leftarrow> read_loop e offset sz 0 [] s; Some (sz, buf, s) }"

section \<open>Writing\<close>

function write_loop ::
  "env \<Rightarrow> nat \<Rightarrow> u8 list \<Rightarrow> nat \<Rightarrow> nat \<Rightarrow> 'a sys_scheme \<Rightarrow> 'a sys_scheme option" where
  "write_loop e addr buf sz index s =
     (if index < sz then
        (case chunk addr index sz of (addr_offset, order_len) \<Rightarrow>
          do { let write_addr = (addr + index) mod 2 ^ 32 div 4 * 4;
               (write_buf, s) \<leftarrow>
                 (if addr_offset > 0 \<or> order_len < 4
                  then do { (_, w, s) \<leftarrow> uc_wiota_ota_flash_read e write_addr 4 s; Some (w, s) }
                  else Some (put32 0, s));
               bs \<leftarrow> rdn buf index order_len;
               write_buf \<leftarrow> wr write_buf addr_offset bs;
               write_buf \<leftarrow> bswap_bytes write_buf;
               write_loop e addr buf sz (index + order_len)
                 (emit (C_flash (F_write write_addr write_buf)) s) })
      else Some s)"
  by pat_completeness auto
termination
proof (relation "measure (\<lambda>(e, addr, buf, sz, index, s). sz - index)", goal_cases)
  case (2 e addr buf sz index s addr_offset order_len)
  then show ?case using chunk_progress[of index sz addr addr_offset order_len] by (simp, linarith)
qed simp

declare write_loop.simps [simp del]

definition RT_EINVAL :: int where "RT_EINVAL = 10"
definition FLASH_SECTOR_SIZE :: nat where "FLASH_SECTOR_SIZE = 4096"
definition FLASH_PAGE_SIZE :: nat where "FLASH_PAGE_SIZE = 256"

definition ota_flash_write ::
  "env \<Rightarrow> nat \<Rightarrow> u8 list \<Rightarrow> nat \<Rightarrow> 'a sys_scheme \<Rightarrow> (int \<times> 'a sys_scheme) option" where
  "ota_flash_write e offset buf sz s =
     (if (offset + sz) mod 2 ^ 32 > FLASH_SECTOR_SIZE * FLASH_PAGE_SIZE then Some (- RT_EINVAL, s)
      else if sz < 1 then Some (- RT_EINVAL, s)
      else
        do { let s = emit (C_flash F_unlock_all) (emit (C_os O_irq_disable) s);
             s \<leftarrow> write_loop e offset buf sz 0 s;
             Some (int sz, emit (C_os O_irq_enable) (emit (C_flash F_lock_all) s)) })"

text \<open>The radio is suspended for a frame before the flash is touched.\<close>

definition suspend_radio :: "env \<Rightarrow> 'a sys_scheme \<Rightarrow> 'a sys_scheme" where
  "suspend_radio e s =
     (let s = emit (C_wiota W_suspend_connect) s
      in emit (C_os (O_thread_mdelay (unat (e_frame_len e (hist s)) div 1000 + 2))) s)"

definition uc_wiota_ota_flash_write ::
  "env \<Rightarrow> u8 list \<Rightarrow> nat \<Rightarrow> nat \<Rightarrow> 'a sys_scheme \<Rightarrow> 'a sys_scheme option" where
  "uc_wiota_ota_flash_write e data_buf flash_addr len s =
     do { (_, s) \<leftarrow> ota_flash_write e flash_addr data_buf len (suspend_radio e s);
          Some (emit (C_wiota W_recover_connect) s) }"

section \<open>Erasing\<close>

function erase_sectors :: "nat \<Rightarrow> nat \<Rightarrow> nat \<Rightarrow> 'a sys_scheme \<Rightarrow> 'a sys_scheme" where
  "erase_sectors addr sz index s =
     (if index < sz
      then erase_sectors addr sz (index + FLASH_SECTOR_SIZE)
             (emit (C_flash (F_erase_4K ((addr + index) mod 2 ^ 32))) s)
      else s)"
  by pat_completeness auto
termination
  by (relation "measure (\<lambda>(addr, sz, index, s). sz - index)") (auto simp: FLASH_SECTOR_SIZE_def)

declare erase_sectors.simps [simp del]

definition ota_flash_erase :: "nat \<Rightarrow> nat \<Rightarrow> 'a sys_scheme \<Rightarrow> int \<times> 'a sys_scheme" where
  "ota_flash_erase offset sz s =
     (let addr = offset div FLASH_SECTOR_SIZE * FLASH_SECTOR_SIZE
      in (int sz, erase_sectors addr sz 0 s))"

text \<open>
  The outer loop counts in 32 bit words: for a size above \<open>2 ^ 32 - 4096\<close> it would not end, and
  after an unaligned start its counter has wrapped below zero.
\<close>

partial_function (option) erase_loop ::
  "u32 \<Rightarrow> u32 \<Rightarrow> u32 \<Rightarrow> 'a sys_scheme \<Rightarrow> 'a sys_scheme option" where
  "erase_loop erase_addr sz erase_size s =
     (if sz < erase_size
      then erase_loop (erase_addr + 4096) (sz + 4096) erase_size
             (snd (ota_flash_erase (unat erase_addr) 4096 s))
      else Some s)"

definition uc_wiota_ota_flash_erase ::
  "env \<Rightarrow> u32 \<Rightarrow> u32 \<Rightarrow> 'a sys_scheme \<Rightarrow> 'a sys_scheme option" where
  "uc_wiota_ota_flash_erase e start_addr erase_size s =
     (if erase_size = 0 then Some s
      else
        do { let erase_addr = start_addr div 4096 * 4096;
             let s = emit (C_flash F_unlock_all) (emit (C_os O_irq_disable) (suspend_radio e s));
             let (s, erase_addr, sz) =
               (if erase_addr < start_addr
                then let s = snd (ota_flash_erase (unat erase_addr) 4096 s);
                         erase_addr = erase_addr + 4096
                     in (s, erase_addr, start_addr - erase_addr)
                else (s, erase_addr, 0));
             s \<leftarrow> erase_loop erase_addr sz erase_size s;
             Some (emit (C_wiota W_recover_connect)
                    (emit (C_os O_irq_enable) (emit (C_flash F_lock_all) s))) })"

section \<open>Verifying the image\<close>

definition hex_digit :: "nat \<Rightarrow> u8" where
  "hex_digit n = word_of_nat (if n < 10 then 48 + n else 87 + n)"

text \<open>\<^verbatim>\<open>rt_snprintf\<close> with 16 times \<^verbatim>\<open>%02x\<close>, without the terminator.\<close>

definition hex_string :: "u8 list \<Rightarrow> u8 list" where
  "hex_string bs = concat (map (\<lambda>b. [hex_digit (unat b div 16), hex_digit (unat b mod 16)]) bs)"

text \<open>\<open>None\<close> as the first component is the early return 1 of a read that came back short.\<close>

function check_loop ::
  "env \<Rightarrow> nat \<Rightarrow> nat \<Rightarrow> nat \<Rightarrow> tiny_md5_context \<Rightarrow> 'a sys_scheme
     \<Rightarrow> (tiny_md5_context option \<times> 'a sys_scheme) option" where
  "check_loop e flash_addr flash_size data_offset ctx s =
     (if data_offset < flash_size then
        (let read_len = (if data_offset + 512 > flash_size then flash_size - data_offset else 512)
         in do { (n, buf, s) \<leftarrow>
                   uc_wiota_ota_flash_read e ((flash_addr + data_offset) mod 2 ^ 32) read_len s;
                 if n \<noteq> read_len then Some (None, s)
                 else do { ctx \<leftarrow> tiny_md5_update ctx buf (int read_len);
                           check_loop e flash_addr flash_size (data_offset + read_len) ctx s } })
      else Some (Some ctx, s))"
  by pat_completeness auto
termination
  by (relation "measure (\<lambda>(e, a, sz, i, ctx, s). sz - i)") (auto split: if_splits)

declare check_loop.simps [simp del]

definition uc_wiota_ota_check_flash_data ::
  "env \<Rightarrow> nat \<Rightarrow> nat \<Rightarrow> u8 list \<Rightarrow> 'a sys_scheme \<Rightarrow> (int \<times> 'a sys_scheme) option" where
  "uc_wiota_ota_check_flash_data e flash_addr flash_size md5 s =
     (case rt_malloc e 512 s of
        (None, s) \<Rightarrow> None
      | (Some p, s) \<Rightarrow>
          do { (ctx, s) \<leftarrow> check_loop e flash_addr flash_size 0 (tiny_md5_starts blank_context) (suspend_radio e s);
               (case ctx of
                  None \<Rightarrow> Some (1, emit (C_wiota W_recover_connect) (rt_free (Some p) s))
                | Some ctx \<Rightarrow>
                    do { let s = emit (C_wiota W_recover_connect) s;
                         (_, md5_value) \<leftarrow> tiny_md5_finish ctx;
                         eq \<leftarrow> rt_memcmp_eq (hex_string md5_value) md5 32;
                         Some (if eq then 0 else 2, rt_free (Some p) s) }) })"

definition uc_wiota_ota_jump_program :: "u32 \<Rightarrow> u8 \<Rightarrow> 'a sys_scheme \<Rightarrow> 'a sys_scheme" where
  "uc_wiota_ota_jump_program file_size upgrade_type s =
     (let s = emit (C_boot (B_set_download_file_size_no_save file_size)) s;
          s = emit (C_boot (B_set_uboot_mode_no_save (if upgrade_type = 0 then 100 else 98))) s;
          s = emit (C_wiota W_exit) s;
          s = emit (C_flash F_unlock_all) s;
          s = emit (C_os O_irq_disable) s
      in emit (C_boot B_reset_8288) s)"

section \<open>The flash contract\<close>

text \<open>
  The contents of the flash after a history, from the contents \<open>F0\<close> before it, as the driver
  addresses them; \<open>flash_byte\<close> is the view through the byte swap. \<open>flash_contract\<close> says that
  reads return those contents.
\<close>

fun flash_mem :: "(nat \<Rightarrow> u8) \<Rightarrow> call list \<Rightarrow> nat \<Rightarrow> u8" where
  "flash_mem F0 [] = F0"
| "flash_mem F0 (C_flash (F_write a bs) # h) =
     (\<lambda>i. if a \<le> i \<and> i < a + length bs then flash_mem F0 h i AND bs ! (i - a) else flash_mem F0 h i)"
| "flash_mem F0 (C_flash (F_erase_4K a) # h) =
     (\<lambda>i. if i div 4096 = a div 4096 then 0xFF else flash_mem F0 h i)"
| "flash_mem F0 (_ # h) = flash_mem F0 h"

definition flash_byte :: "(nat \<Rightarrow> u8) \<Rightarrow> nat \<Rightarrow> u8" where
  "flash_byte M i = M (4 * (i div 4) + (3 - i mod 4))"

definition flash_contract :: "env \<Rightarrow> (nat \<Rightarrow> u8) \<Rightarrow> bool" where
  "flash_contract e F0 \<longleftrightarrow> (\<forall>h a n. e_flash_read e h a n = map (flash_mem F0 h) [a..<a + n])"

text \<open>A concrete platform with a flash chip that holds \<open>F0\<close>.\<close>

definition flash_env :: "(nat \<Rightarrow> u8) \<Rightarrow> env" where
  "flash_env F0 = good_env\<lparr>e_flash_read := \<lambda>h a n. map (flash_mem F0 h) [a..<a + n]\<rparr>"

lemma flash_env_contract [simp]: "flash_contract (flash_env F0) F0"
  by (simp add: flash_contract_def flash_env_def)

text \<open>The calls that reading may add to a history.\<close>

definition only_reads :: "'a sys_scheme \<Rightarrow> 'a sys_scheme \<Rightarrow> bool" where
  "only_reads s s' \<longleftrightarrow> only_hist s s' \<and>
     (\<exists>cs. hist s' = cs @ hist s \<and> (\<forall>c \<in> set cs. \<exists>a n. c = C_flash (F_read a n)))"

lemma only_reads_refl [simp]: "only_reads s s"
  by (simp add: only_reads_def)

lemma only_reads_emit: "only_reads (emit (C_flash (F_read a n)) s) s' \<Longrightarrow> only_reads s s'"
  unfolding only_reads_def by (auto intro: only_hist_trans[OF only_hist_emit])

lemma only_reads_trans: "only_reads s s' \<Longrightarrow> only_reads s' s'' \<Longrightarrow> only_reads s s''"
  unfolding only_reads_def by (auto intro: only_hist_trans)

lemma flash_mem_reads:
  "(\<forall>c \<in> set cs. \<exists>a n. c = C_flash (F_read a n)) \<Longrightarrow> flash_mem F0 (cs @ h) = flash_mem F0 h"
  by (induction cs) auto

lemma live_reads:
  "(\<forall>c \<in> set cs. \<exists>a n. c = C_flash (F_read a n)) \<Longrightarrow> live (cs @ h) = live h"
  by (induction cs) auto

lemma heap_ok_reads:
  "(\<forall>c \<in> set cs. \<exists>a n. c = C_flash (F_read a n)) \<Longrightarrow> heap_ok h \<Longrightarrow> heap_ok (cs @ h)"
  by (induction cs) auto

lemma only_reads_simps:
  "only_reads s s' \<Longrightarrow> flash_mem F0 (hist s') = flash_mem F0 (hist s)"
  "only_reads s s' \<Longrightarrow> live (hist s') = live (hist s)"
  "only_reads s s' \<Longrightarrow> only_hist s s'"
  "only_reads s s' \<Longrightarrow> heap_ok (hist s) \<Longrightarrow> heap_ok (hist s')"
  by (auto simp: only_reads_def flash_mem_reads live_reads heap_ok_reads)

lemma bit8: "bit (d :: u8) n \<Longrightarrow> n < 8"
  using bit_imp_le_length[of d n] by simp

lemma bit_word4:
  "bit (ucast a OR push_bit 8 (ucast b) OR push_bit 16 (ucast c) OR push_bit 24 (ucast (d :: u8)) :: u32) i =
     (if i < 8 then bit (a :: u8) i else if i < 16 then bit (b :: u8) (i - 8)
      else if i < 24 then bit (c :: u8) (i - 16) else i < 32 \<and> bit d (i - 24))"
  by (auto simp: bit_simps dest: bit8)

lemma bit_BSWAP_32:
  "bit (BSWAP_32 x) i =
     (if i < 8 then bit x (i + 24) else if i < 16 then bit x (i + 8)
      else if i < 24 then bit x (i - 8) else i < 32 \<and> bit x (i - 24))"
proof -
  have m: "(0xff000000 :: u32) = push_bit 24 (mask 8)" "(0x00ff0000 :: u32) = push_bit 16 (mask 8)"
    "(0x0000ff00 :: u32) = push_bit 8 (mask 8)" "(0x000000ff :: u32) = mask 8"
    by (simp_all add: mask_eq_exp_minus_1)
  consider "i < 8" | "8 \<le> i" "i < 16" | "16 \<le> i" "i < 24" | "24 \<le> i" "i < 32" | "32 \<le> i" by linarith
  then show ?thesis
    unfolding BSWAP_32_def m by cases (simp_all add: bit_simps add.commute, auto)
qed

lemma BSWAP_word4:
  "BSWAP_32 (ucast a OR push_bit 8 (ucast b) OR push_bit 16 (ucast c) OR push_bit 24 (ucast (d :: u8))) =
     ucast d OR push_bit 8 (ucast (c :: u8)) OR push_bit 16 (ucast (b :: u8)) OR push_bit 24 (ucast (a :: u8))"
proof (rule bit_word_eqI)
  fix i assume "i < LENGTH(32)"
  then consider "i < 8" | "8 \<le> i" "i < 16" | "16 \<le> i" "i < 24" | "24 \<le> i" "i < 32"
    by (simp add: not_less) linarith
  then show "bit (BSWAP_32 (ucast a OR push_bit 8 (ucast b) OR push_bit 16 (ucast c) OR push_bit 24 (ucast d))) i =
      bit (ucast d OR push_bit 8 (ucast c) OR push_bit 16 (ucast b) OR push_bit 24 (ucast a) :: u32) i"
    by cases (simp_all only: bit_BSWAP_32 bit_word4, simp_all add: not_less, linarith+)
qed

lemma byte_of:
  "(\<And>n. n < 8 \<Longrightarrow> bit (x :: u32) (k + n) = bit b n) \<Longrightarrow> k \<le> 24 \<Longrightarrow> (ucast (drop_bit k x) :: u8) = b"
  by (rule bit_word_eqI) (simp add: bit_unsigned_iff bit_drop_bit_eq)

lemma put32_word4:
  "put32 (ucast a OR push_bit 8 (ucast b) OR push_bit 16 (ucast c) OR push_bit 24 (ucast (d :: u8))) = [a, b, c, d]"
proof -
  let ?x = "ucast a OR push_bit 8 (ucast b) OR push_bit 16 (ucast c) OR push_bit 24 (ucast d) :: u32"
  have "(ucast (drop_bit 0 ?x) :: u8) = a" "(ucast (drop_bit 8 ?x) :: u8) = b"
    "(ucast (drop_bit 16 ?x) :: u8) = c" "(ucast (drop_bit 24 ?x) :: u8) = d"
    by (rule byte_of; simp add: bit_word4 del: bit_or_iff)+
  then show ?thesis unfolding put32_def by (simp only: drop_bit_0 id_apply)
qed

lemma bswap_bytes4: "length w = 4 \<Longrightarrow> bswap_bytes w = Some (rev w)"
  by (erule length4_cases) (simp add: bswap_bytes_def BSWAP_word4 put32_word4)

section \<open>Reading back\<close>

lemma flash_byte_at: "r < 4 \<Longrightarrow> flash_byte M (4 * q + r) = M (4 * q + (3 - r))"
  by (simp add: flash_byte_def)

lemma upt4: "[a..<a + 4] = [a, a + 1, a + 2, a + 3]"
  by (simp add: upt_rec)

lemma flash_word:
  assumes "a mod 4 = 0"
  shows "map (flash_byte M) [a..<a + 4] = rev (map M [a..<a + 4])"
proof -
  obtain q where "a = 4 * q" using assms by auto
  then show ?thesis
    using flash_byte_at[of 0 M q] flash_byte_at[of 1 M q] flash_byte_at[of 2 M q] flash_byte_at[of 3 M q]
    by (simp add: upt4 del: upt_Suc)
qed

lemma flash_byte_write:
  assumes "length w = 4" "a mod 4 = 0"
  shows "flash_byte (flash_mem F0 (C_flash (F_write a (rev w)) # h)) i =
    (if a \<le> i \<and> i < a + 4 then flash_byte (flash_mem F0 h) i AND w ! (i - a)
     else flash_byte (flash_mem F0 h) i)"
proof -
  obtain q where q: "a = 4 * q" using assms(2) by auto
  obtain p r where i: "i = 4 * p + r" "r < 4" using mult_div_mod_eq[of 4 i] by (metis mod_less_divisor zero_less_numeral)
  show ?thesis
  proof (cases "p = q")
    case True
    have r: "4 - Suc (3 - r) = r" "3 - r < 4" using i(2) by linarith+
    then have "rev w ! (3 - r) = w ! r" using assms(1) by (simp add: rev_nth)
    moreover obtain t where "3 - r = t" by simp
    ultimately show ?thesis
      using True assms(1) i(2) r(2) unfolding q i(1) flash_byte_at[OF i(2)] by simp
  next
    case False
    then have "\<not> (a \<le> i \<and> i < a + 4)" "\<not> (a \<le> 4 * p + (3 - r) \<and> 4 * p + (3 - r) < a + 4)"
      using i(2) unfolding q i(1) by linarith+
    then show ?thesis using assms(1) i by (auto simp: flash_byte_at)
  qed
qed

lemma chunk_word:
  assumes "index < sz" "addr + sz \<le> 2 ^ 32" "chunk addr index sz = (k, n)"
  shows "k = (addr + index) mod 4" "(addr + index) mod 2 ^ 32 div 4 * 4 + k = addr + index"
    "k + n \<le> 4" "0 < n" "index + n \<le> sz"
proof -
  have m: "(addr + index) mod 2 ^ 32 = addr + index" using assms(1,2) by (intro mod_less) linarith
  show k: "k = (addr + index) mod 4"
    using assms(3) by (auto simp: chunk_def Let_def m[simplified] split: if_splits)
  then show "(addr + index) mod 2 ^ 32 div 4 * 4 + k = addr + index" unfolding m by simp
  show "0 < n" "index + n \<le> sz" using chunk_progress[OF assms(1,3)] by auto
  have "k < 4" using k by simp
  then show "k + n \<le> 4" using assms(1,3) by (auto simp: chunk_def Let_def split: if_splits)
qed

lemma flash_slice:
  assumes "a mod 4 = 0" "k + n \<le> 4"
  shows "take n (drop k (map (flash_byte M) [a..<a + 4])) = map (flash_byte M) [a + k..<a + k + n]"
  using assms(2) by (simp add: take_map drop_map)

lemma read_loop_spec:
  assumes "flash_contract e F0" "addr + sz \<le> 2 ^ 32"
  shows "index \<le> sz \<Longrightarrow>
    \<exists>s'. read_loop e addr sz index buf s =
        Some (buf @ map (flash_byte (flash_mem F0 (hist s))) [addr + index..<addr + sz], s') \<and>
      only_reads s s'"
proof (induction "sz - index" arbitrary: index buf s rule: less_induct)
  case less
  show ?case
  proof (cases "index < sz")
    case False
    then show ?thesis using less.prems by (simp add: read_loop.simps)
  next
    case True
    obtain k n where kn: "chunk addr index sz = (k, n)" by fastforce
    note c = chunk_word[OF True assms(2) kn]
    let ?a = "(addr + index) mod 2 ^ 32 div 4 * 4" and ?M = "flash_mem F0 (hist s)"
    let ?s = "emit (C_flash (F_read ?a 4)) s"
    have a: "?a mod 4 = 0" by simp
    have w: "flash_read_word e ?a s = (map ?M [?a..<?a + 4], ?s)"
      using assms(1) by (simp add: flash_read_word_def flash_contract_def)
    have sw: "bswap_bytes (map ?M [?a..<?a + 4]) = Some (map (flash_byte ?M) [?a..<?a + 4])"
      unfolding flash_word[OF a] by (rule bswap_bytes4) simp
    have rd: "rdn (map (flash_byte ?M) [?a..<?a + 4]) k n = Some (map (flash_byte ?M) [addr + index..<addr + index + n])"
      using flash_slice[OF a c(3), of ?M] c(3) unfolding c(2) by (simp add: rdn_def)
    have lt: "sz - (index + n) < sz - index" using c(4,5) by linarith
    obtain s' where ih: "read_loop e addr sz (index + n) (buf @ map (flash_byte ?M) [addr + index..<addr + index + n]) ?s =
        Some ((buf @ map (flash_byte ?M) [addr + index..<addr + index + n]) @
          map (flash_byte ?M) [addr + (index + n)..<addr + sz], s')" "only_reads ?s s'"
      using less.hyps[OF lt c(5), of "buf @ map (flash_byte ?M) [addr + index..<addr + index + n]" ?s]
      by (auto simp del: append_assoc)
    have "[addr + index..<addr + sz] = [addr + index..<addr + index + n] @ [addr + (index + n)..<addr + sz]"
      using upt_add_eq_append[of "addr + index" "addr + index + n" "sz - index - n"] c(5)
      by (simp add: add.assoc)
    moreover have "read_loop e addr sz index buf s =
        read_loop e addr sz (index + n) (buf @ map (flash_byte ?M) [addr + index..<addr + index + n]) ?s"
      by (subst read_loop.simps) (simp only: True kn w sw rd Let_def prod.case if_True bind.bind_lunit)
    ultimately show ?thesis using ih only_reads_emit by auto
  qed
qed

lemma ota_flash_read_spec:
  assumes "flash_contract e F0" "addr + sz \<le> 2 ^ 32"
  shows "\<exists>s'. uc_wiota_ota_flash_read e addr sz s =
      Some (sz, map (flash_byte (flash_mem F0 (hist s))) [addr..<addr + sz], s') \<and> only_reads s s'"
  using read_loop_spec[OF assms, of 0 "[]" s] by (auto simp: uc_wiota_ota_flash_read_def)

section \<open>Writing\<close>

text \<open>The flash after writing \<open>buf\<close> at \<open>addr\<close>: bits are only cleared, and only there.\<close>

definition written :: "(nat \<Rightarrow> u8) \<Rightarrow> nat \<Rightarrow> u8 list \<Rightarrow> nat \<Rightarrow> u8" where
  "written M addr buf i =
     (if addr \<le> i \<and> i < addr + length buf then M i AND buf ! (i - addr) else M i)"

lemma write_word:
  assumes "length old = 4" "k + length bs \<le> 4" "a mod 4 = 0"
    and old: "old = map (flash_byte (flash_mem F0 h)) [a..<a + 4] \<or> length bs = 4"
    and w: "wr old k bs = Some w"
  shows "bswap_bytes w = Some (rev w) \<and>
    flash_byte (flash_mem F0 (C_flash (F_write a (rev w)) # h)) =
      written (flash_byte (flash_mem F0 h)) (a + k) bs"
proof
  have lw: "length w = 4" using w assms(1) length_wr by force
  then show "bswap_bytes w = Some (rev w)" by (rule bswap_bytes4)
  let ?B = "flash_byte (flash_mem F0 h)"
  have wi: "w ! j = (if k \<le> j \<and> j < k + length bs then bs ! (j - k) else old ! j)" if "j < 4" for j
    using w that assms(1,2) by (auto simp: wr_def nth_append split: if_splits)
  have "(if a \<le> i \<and> i < a + 4 then ?B i AND w ! (i - a) else ?B i) = written ?B (a + k) bs i" for i
  proof (cases "a \<le> i \<and> i < a + 4")
    case True
    define j where "j = i - a"
    have i: "i = a + j" "j < 4" using True by (auto simp: j_def)
    show ?thesis
    proof (cases "k \<le> j \<and> j < k + length bs")
      case True
      then show ?thesis using i wi[OF i(2)] by (simp add: written_def)
    next
      case False
      then have "old = map ?B [a..<a + 4]" using old assms(2) i(2) by auto
      then have "old ! j = ?B i" using i by simp
      then show ?thesis using False i wi[OF i(2)] by (auto simp: written_def)
    qed
  next
    case False
    then show ?thesis using assms(2) by (auto simp: written_def)
  qed
  then show "flash_byte (flash_mem F0 (C_flash (F_write a (rev w)) # h)) = written ?B (a + k) bs"
    by (intro ext) (simp only: flash_byte_write[OF lw assms(3)])
qed

lemma written_append: "written (written M a xs) (a + length xs) ys = written M a (xs @ ys)"
  by (rule ext) (auto simp: written_def nth_append)

lemma ones_AND [simp]: "(255 :: u8) AND b = b"
proof -
  have "(255 :: u8) = -1" by simp
  then show ?thesis by (simp only: and.left_neutral)
qed

text \<open>Calls that touch neither the heap nor the state of the caller.\<close>

definition flash_frame :: "'a sys_scheme \<Rightarrow> 'a sys_scheme \<Rightarrow> bool" where
  "flash_frame s s' \<longleftrightarrow> only_hist s s' \<and> live (hist s') = live (hist s) \<and>
     (heap_ok (hist s) \<longrightarrow> heap_ok (hist s'))"

lemma flash_frame_refl [simp]: "flash_frame s s"
  by (simp add: flash_frame_def)

lemma flash_frame_trans: "flash_frame s s' \<Longrightarrow> flash_frame s' s'' \<Longrightarrow> flash_frame s s''"
  by (auto simp: flash_frame_def intro: only_hist_trans)

lemma flash_frame_emit: "\<not> heap_call c \<Longrightarrow> flash_frame s s' \<Longrightarrow> flash_frame s (emit c s')"
  by (auto simp: flash_frame_def)

lemma flash_frame_reads: "only_reads s s' \<Longrightarrow> flash_frame s s'"
  by (auto simp: flash_frame_def only_reads_simps)

lemma write_loop_spec:
  assumes con: "flash_contract e F0" and sz: "addr + sz \<le> 2 ^ 32" "sz \<le> length buf"
  shows "index \<le> sz \<Longrightarrow>
    \<exists>s'. write_loop e addr buf sz index s = Some s' \<and> flash_frame s s' \<and>
      flash_byte (flash_mem F0 (hist s')) =
        written (flash_byte (flash_mem F0 (hist s))) (addr + index) (take (sz - index) (drop index buf))"
proof (induction "sz - index" arbitrary: index s rule: less_induct)
  case less
  show ?case
  proof (cases "index < sz")
    case False
    then show ?thesis using less.prems by (auto simp: write_loop.simps written_def fun_eq_iff)
  next
    case True
    obtain k n where kn: "chunk addr index sz = (k, n)" by fastforce
    note c = chunk_word[OF True sz(1) kn]
    let ?a = "(addr + index) mod 2 ^ 32 div 4 * 4" and ?M = "flash_mem F0 (hist s)"
    have a: "?a mod 4 = 0" "?a + 4 \<le> 2 ^ 32" by (simp, simp)
    define bs where "bs = take n (drop index buf)"
    have bs: "rdn buf index n = Some bs" "length bs = n" using c(5) sz(2) by (auto simp: rdn_def bs_def)
    let ?part = "k > 0 \<or> n < 4"
    obtain old s1 where old: "(if ?part then do { (_, w, s) \<leftarrow> uc_wiota_ota_flash_read e ?a 4 s; Some (w, s) }
          else Some (put32 0, s)) = Some (old, s1)"
        "only_reads s s1" "length old = 4"
        "old = map (flash_byte ?M) [?a..<?a + 4] \<or> length bs = 4"
    proof (cases ?part)
      case True
      obtain s' where "uc_wiota_ota_flash_read e ?a 4 s = Some (4, map (flash_byte ?M) [?a..<?a + 4], s')"
          "only_reads s s'"
        using ota_flash_read_spec[OF con a(2)] by blast
      then show ?thesis using True by (intro that) auto
    next
      case False
      then have "n = 4" using c(3) by simp
      then show ?thesis using False bs(2) by (intro that[of "put32 0" s]) auto
    qed
    have same: "flash_mem F0 (hist s1) = ?M" using old(2) by (rule only_reads_simps)
    obtain w where w: "wr old k bs = Some w" using old(3) bs(2) c(3) by (auto simp: wr_def)
    let ?s = "emit (C_flash (F_write ?a (rev w))) s1"
    have ww: "bswap_bytes w = Some (rev w)"
        "flash_byte (flash_mem F0 (hist ?s)) = written (flash_byte ?M) (addr + index) bs"
      using write_word[OF old(3) _ a(1) _ w, of F0 "hist s1"] c(2,3) bs(2) old(4)
      unfolding same by (simp_all add: add.commute)
    have "sz - (index + n) < sz - index" using c(4,5) by linarith
    from less.hyps[OF this c(5), of ?s] obtain s' where
      s': "write_loop e addr buf sz (index + n) ?s = Some s'" "flash_frame ?s s'"
        "flash_byte (flash_mem F0 (hist s')) =
          written (flash_byte (flash_mem F0 (hist ?s))) (addr + (index + n)) (take (sz - (index + n)) (drop (index + n) buf))"
      by blast
    have "take (sz - index) (drop index buf) = bs @ take (sz - (index + n)) (drop (index + n) buf)"
      using take_add[of n "sz - (index + n)" "drop index buf"] c(5) by (simp add: bs_def add.commute)
    then have "flash_byte (flash_mem F0 (hist s')) =
        written (flash_byte ?M) (addr + index) (take (sz - index) (drop index buf))"
      using s'(3) written_append[of "flash_byte ?M" "addr + index" bs] bs(2)
      unfolding ww(2) by (simp add: add.assoc)
    moreover have "flash_frame s s'"
      by (rule flash_frame_trans[OF flash_frame_emit[OF _ flash_frame_reads[OF old(2)]] s'(2)]) simp
    moreover have "write_loop e addr buf sz index s = Some s'"
      using True old(1) bs(1) w ww(1) s'(1)
      by (subst write_loop.simps)
        (simp only: True kn old(1) bs(1) w ww(1) s'(1) Let_def prod.case if_True bind.bind_lunit)
    ultimately show ?thesis by blast
  qed
qed

lemma suspend_radio_frame [simp]: "flash_frame s (suspend_radio e s)"
  by (auto simp: suspend_radio_def Let_def intro!: flash_frame_emit)

lemma suspend_radio_mem [simp]: "flash_mem F0 (hist (suspend_radio e s)) = flash_mem F0 (hist s)"
  by (simp add: suspend_radio_def Let_def)

lemma ota_flash_write_spec:
  assumes "flash_contract e F0" "0 < sz" "sz \<le> length buf" "addr + sz \<le> 1048576"
  shows "\<exists>s'. ota_flash_write e addr buf sz s = Some (int sz, s') \<and> flash_frame s s' \<and>
    flash_byte (flash_mem F0 (hist s')) = written (flash_byte (flash_mem F0 (hist s))) addr (take sz buf)"
proof -
  let ?s = "emit (C_flash F_unlock_all) (emit (C_os O_irq_disable) s)"
  have sz: "addr + sz \<le> 2 ^ 32" using assms(4) by simp
  obtain s1 where s1: "write_loop e addr buf sz 0 ?s = Some s1" "flash_frame ?s s1"
      "flash_byte (flash_mem F0 (hist s1)) = written (flash_byte (flash_mem F0 (hist ?s))) (addr + 0) (take (sz - 0) (drop 0 buf))"
    using write_loop_spec[OF assms(1) sz assms(3), of 0 ?s] by blast
  have "\<not> (addr + sz) mod 2 ^ 32 > FLASH_SECTOR_SIZE * FLASH_PAGE_SIZE"
    using assms(4) by (simp add: FLASH_SECTOR_SIZE_def FLASH_PAGE_SIZE_def)
  then have "ota_flash_write e addr buf sz s = Some (int sz, emit (C_os O_irq_enable) (emit (C_flash F_lock_all) s1))"
    using assms(2) s1(1) by (simp add: ota_flash_write_def Let_def)
  moreover have "flash_frame s ?s" by (intro flash_frame_emit) auto
  ultimately show ?thesis
    using s1(2,3) by (auto intro!: flash_frame_emit intro: flash_frame_trans)
qed

text \<open>C16.
  Writing to flash: below the 1 MiB limit \<open>uc_wiota_ota_flash_write\<close> clears exactly the bits that
  the data has clear, at exactly the bytes of the range, whatever the alignment of its two ends;
  in particular an erased range reads back as the data and every other byte is unchanged.
\<close>

theorem ota_flash_write_reads_back:
  assumes con: "flash_contract e F0"
    and sz: "0 < length buf" "addr + length buf \<le> 1048576"
    and erased: "\<And>i. addr \<le> i \<Longrightarrow> i < addr + length buf \<Longrightarrow> flash_byte (flash_mem F0 (hist s)) i = 0xFF"
  shows "\<exists>s1 s2. uc_wiota_ota_flash_write e buf addr (length buf) s = Some s1 \<and>
    uc_wiota_ota_flash_read e addr (length buf) s1 = Some (length buf, buf, s2) \<and>
    (\<forall>i. i < addr \<or> addr + length buf \<le> i \<longrightarrow>
       flash_byte (flash_mem F0 (hist s1)) i = flash_byte (flash_mem F0 (hist s)) i)"
proof -
  let ?B = "flash_byte (flash_mem F0 (hist s))"
  obtain s1 where s1: "ota_flash_write e addr buf (length buf) (suspend_radio e s) = Some (int (length buf), s1)"
      "flash_byte (flash_mem F0 (hist s1)) = written ?B addr buf"
    using ota_flash_write_spec[OF con sz(1) order_refl sz(2), of "suspend_radio e s"] by auto
  let ?s1 = "emit (C_wiota W_recover_connect) s1"
  have m: "flash_byte (flash_mem F0 (hist ?s1)) = written ?B addr buf" using s1(2) by simp
  have "addr + length buf \<le> 2 ^ 32" using sz(2) by simp
  from ota_flash_read_spec[OF con this, of ?s1] obtain s2 where s2:
    "uc_wiota_ota_flash_read e addr (length buf) ?s1 =
      Some (length buf, map (written ?B addr buf) [addr..<addr + length buf], s2)"
    unfolding m by blast
  have "map (written ?B addr buf) [addr..<addr + length buf] = buf"
    using erased by (auto simp: written_def intro!: nth_equalityI)
  then show ?thesis
    using s1(1) s2 m by (auto simp: uc_wiota_ota_flash_write_def written_def)
qed

theorem ota_flash_write_reads_back_witness:
  "\<exists>s1 s2. uc_wiota_ota_flash_write (flash_env (\<lambda>_. 0xFF)) [1, 2, 3] 5 3 \<lparr>hist = []\<rparr> = Some s1 \<and>
     uc_wiota_ota_flash_read (flash_env (\<lambda>_. 0xFF)) 5 3 s1 = Some (3, [1, 2, 3], s2)"
  using ota_flash_write_reads_back[of "flash_env (\<lambda>_. 0xFF)" "\<lambda>_. 0xFF" "[1, 2, 3]" 5 "\<lparr>hist = []\<rparr>"]
  by (fastforce simp: flash_byte_def numeral_3_eq_3)

section \<open>Erasing\<close>

lemma ota_flash_erase_one:
  "unat a mod 4096 = 0 \<Longrightarrow> snd (ota_flash_erase (unat (a :: u32)) 4096 s) = emit (C_flash (F_erase_4K (unat a))) s"
proof -
  assume "unat a mod 4096 = 0"
  then have "unat a div 4096 * 4096 = unat a" by auto
  moreover have "unat a mod 2 ^ 32 = unat a" using unsigned_less[of a] by (intro mod_less) simp
  ultimately show ?thesis
    by (simp add: ota_flash_erase_def FLASH_SECTOR_SIZE_def erase_sectors.simps)
qed

lemma aligned_step: "unat (a :: u32) mod 4096 = 0 \<Longrightarrow> unat (a + 4096) mod 4096 = 0"
  by (simp add: unat_word_ariths mod_mod_cancel mod_add_eq[of "unat a" 4096 4096, symmetric])

text \<open>What the flash holds after erasing \<open>n\<close> sectors from \<open>a\<close> on.\<close>

definition erased :: "(nat \<Rightarrow> u8) \<Rightarrow> nat \<Rightarrow> nat \<Rightarrow> nat \<Rightarrow> u8" where
  "erased M a n i = (if a \<le> i \<and> i < a + 4096 * n then 0xFF else M i)"

lemma flash_byte_erase:
  "flash_byte (flash_mem F0 (C_flash (F_erase_4K a) # h)) i =
     (if i div 4096 = a div 4096 then 0xFF else flash_byte (flash_mem F0 h) i)"
proof -
  have "(4 * (i div 4) + (3 - i mod 4)) div 4096 = i div 4096"
  proof -
    have "(4 * (i div 4) + (3 - i mod 4)) div 4 = i div 4" by simp
    then have "(4 * (i div 4) + (3 - i mod 4)) div 4 div 1024 = i div 4 div 1024" by simp
    then show ?thesis by (simp only: div_mult2_eq[symmetric]) simp
  qed
  then show ?thesis by (simp add: flash_byte_def)
qed

declare flash_mem.simps(2,3) [simp del]

lemma sector_iff: "i div 4096 = a div 4096 \<longleftrightarrow> a div 4096 * 4096 \<le> i \<and> i < a div 4096 * 4096 + (4096 :: nat)"
  by (auto simp: div_nat_eqI dividend_less_times_div)

lemma erase_loop_spec:
  assumes es: "unat es \<le> 2 ^ 32 - 4096"
  shows "unat a mod 4096 = 0 \<Longrightarrow> unat a + 4096 * n \<le> 2 ^ 32 \<Longrightarrow>
    n = (unat es - unat sz + 4095) div 4096 \<Longrightarrow>
    \<exists>s'. erase_loop a sz es s = Some s' \<and> flash_frame s s' \<and>
      flash_byte (flash_mem F0 (hist s')) = erased (flash_byte (flash_mem F0 (hist s))) (unat a) n"
proof (induction n arbitrary: a sz s)
  case 0
  then have "\<not> unat es > unat sz" by (simp add: div_eq_0_iff)
  then have "\<not> sz < es" by (simp add: word_less_nat_alt)
  then show ?case by (subst erase_loop.simps) (auto simp: erased_def fun_eq_iff)
next
  case (Suc n)
  have lt: "unat sz < unat es"
  proof (rule ccontr)
    assume "\<not> unat sz < unat es"
    then have "unat es - unat sz = 0" by simp
    then show False using Suc.prems(3) by simp
  qed
  then have lt': "sz < es" by (simp add: word_less_nat_alt)
  have sz: "unat (sz + 4096) = unat sz + 4096"
    using lt es by (simp add: unat_word_ariths)
  let ?s = "emit (C_flash (F_erase_4K (unat a))) s"
  have n: "n = (unat es - unat (sz + 4096) + 4095) div 4096"
  proof (cases "unat es - unat sz \<le> 4096")
    case True
    then have "(unat es - unat sz + 4095) div 4096 \<le> (4096 + 4095) div 4096"
      by (intro div_le_mono) simp
    then show ?thesis using Suc.prems(3) True sz by simp
  next
    case False
    then have "unat es - unat sz + 4095 = (unat es - unat (sz + 4096) + 4095) + 4096" using sz by simp
    then show ?thesis using Suc.prems(3) by simp
  qed
  have step: "erase_loop a sz es s = erase_loop (a + 4096) (sz + 4096) es ?s"
    by (subst erase_loop.simps) (simp add: lt' ota_flash_erase_one[OF Suc.prems(1)])
  have "unat a div 4096 * 4096 = unat a" using Suc.prems(1) by auto
  then have sector: "i div 4096 = unat a div 4096 \<longleftrightarrow> unat a \<le> i \<and> i < unat a + 4096" for i
    using sector_iff[of i "unat a"] by simp
  show ?case
  proof (cases "n = 0")
    case True
    then have "\<not> unat es > unat (sz + 4096)" using n by (simp add: div_eq_0_iff)
    then have "\<not> sz + 4096 < es" by (simp add: word_less_nat_alt)
    then have "erase_loop a sz es s = Some ?s" unfolding step by (subst erase_loop.simps) simp
    then show ?thesis
      using True flash_frame_emit[of "C_flash (F_erase_4K (unat a))" s s]
      by (auto simp: erased_def flash_byte_erase sector fun_eq_iff)
  next
    case False
    then have a: "unat (a + 4096) = unat a + 4096"
      using Suc.prems(2) by (simp add: unat_word_ariths)
    obtain s' where s': "erase_loop (a + 4096) (sz + 4096) es ?s = Some s'" "flash_frame ?s s'"
        "flash_byte (flash_mem F0 (hist s')) = erased (flash_byte (flash_mem F0 (hist ?s))) (unat (a + 4096)) n"
      using Suc.IH[OF aligned_step[OF Suc.prems(1)] _ n, of ?s] Suc.prems(2) a by auto
    have "flash_frame s s'"
      by (rule flash_frame_trans[OF flash_frame_emit s'(2)]) simp_all
    moreover have "flash_byte (flash_mem F0 (hist s')) = erased (flash_byte (flash_mem F0 (hist s))) (unat a) (Suc n)"
      unfolding s'(3) a by (auto simp: erased_def flash_byte_erase sector fun_eq_iff)
    ultimately show ?thesis using s'(1) step by auto
  qed
qed

lemma sector_base: "unat (a div 4096 * 4096 :: u32) = unat a div 4096 * 4096"
proof -
  have "unat (a div 4096) = unat a div 4096" by (simp add: unat_div)
  moreover have "unat a div 4096 * 4096 < 2 ^ 32"
    using unsigned_less[of a] by (intro le_less_trans[OF div_times_less_eq_dividend]) simp
  ultimately show ?thesis by (simp only: unat_word_ariths) simp
qed

lemma flash_byte_const [simp]: "flash_byte (\<lambda>_. c) i = c"
  by (simp add: flash_byte_def)

text \<open>
  Erasing from a sector boundary sets to 0xFF exactly the bytes of the sectors that the requested
  range meets and changes no other byte.
\<close>

lemma ota_flash_erase_aligned:
  assumes al: "unat start mod 4096 = 0" and es: "0 < unat es" "unat es \<le> 2 ^ 32 - 4096"
    and n: "n = (unat es + 4095) div 4096" "unat start + 4096 * n \<le> 2 ^ 32"
  shows "\<exists>s'. uc_wiota_ota_flash_erase e start es s = Some s' \<and>
    flash_byte (flash_mem F0 (hist s')) = erased (flash_byte (flash_mem F0 (hist s))) (unat start) n"
proof -
  have "unat (start div 4096 * 4096) = unat start" unfolding sector_base using al by auto
  then have "start div 4096 * 4096 = start" by (rule unsigned_word_eqI)
  moreover have "es \<noteq> 0" using es(1) by auto
  moreover obtain s1 where "erase_loop start 0 es
      (emit (C_flash F_unlock_all) (emit (C_os O_irq_disable) (suspend_radio e s))) = Some s1"
    "flash_byte (flash_mem F0 (hist s1)) = erased (flash_byte (flash_mem F0 (hist s))) (unat start) n"
    using erase_loop_spec[OF es(2) al n(2), of 0
        "emit (C_flash F_unlock_all) (emit (C_os O_irq_disable) (suspend_radio e s))" F0] n(1) by auto
  ultimately show ?thesis by (auto simp: uc_wiota_ota_flash_erase_def Let_def)
qed

theorem ota_flash_erase_aligned_witness:
  "\<exists>s'. uc_wiota_ota_flash_erase good_env 0x2000 5000 \<lparr>hist = []\<rparr> = Some s' \<and>
     flash_byte (flash_mem (\<lambda>_. 0) (hist s')) 0x3FFF = 0xFF \<and> flash_byte (flash_mem (\<lambda>_. 0) (hist s')) 0x4000 = 0"
proof -
  have a: "unat (0x2000 :: u32) mod 4096 = 0" and e: "0 < unat (5000 :: u32)" "unat (5000 :: u32) \<le> 2 ^ 32 - 4096"
    and n: "2 = (unat (5000 :: u32) + 4095) div 4096" "unat (0x2000 :: u32) + 4096 * 2 \<le> 2 ^ 32"
    by simp_all
  obtain s' :: sys where s: "uc_wiota_ota_flash_erase good_env 0x2000 5000 \<lparr>hist = []\<rparr> = Some s'"
      "flash_byte (flash_mem (\<lambda>_. 0) (hist s')) = erased (flash_byte (flash_mem (\<lambda>_. 0) (hist \<lparr>hist = []\<rparr>))) (unat (0x2000 :: u32)) 2"
    using ota_flash_erase_aligned[OF a e n] by blast
  show ?thesis by (rule exI[of _ s']) (simp add: s erased_def)
qed

text \<open>
  From an address inside a sector only that first sector is erased, however many bytes were asked
  for: the counter of the loop is computed after the address has moved to the next sector and
  has wrapped around, so the loop ends at once.
\<close>

lemma ota_flash_erase_unaligned:
  assumes un: "unat start mod 4096 \<noteq> 0" and es: "0 < unat es" "unat es \<le> 2 ^ 32 - 4096"
    and start: "unat start < 2 ^ 32 - 4096"
  shows "\<exists>s'. uc_wiota_ota_flash_erase e start es s = Some s' \<and>
    flash_byte (flash_mem F0 (hist s')) =
      erased (flash_byte (flash_mem F0 (hist s))) (unat start div 4096 * 4096) 1"
proof -
  let ?b = "start div 4096 * 4096"
  have b: "unat ?b = unat start div 4096 * 4096" by (rule sector_base)
  have m: "unat start = unat ?b + unat start mod 4096" unfolding b by simp
  have lt: "?b < start" using m un by (simp add: word_less_nat_alt)
  have al: "unat ?b mod 4096 = 0" unfolding b by simp
  have next_: "unat (?b + 4096) = unat ?b + 4096"
    using start m by (simp add: unat_word_ariths)
  have "unat start mod 4096 < 4096" by simp
  then have "unat (start - (?b + 4096)) = 2 ^ 32 + unat start - (unat ?b + 4096)"
    using m start next_ by (simp add: unat_sub_if')
  then have big: "\<not> start - (?b + 4096) < es"
    using es(2) m by (simp add: word_less_nat_alt)
  let ?s = "emit (C_flash F_unlock_all) (emit (C_os O_irq_disable) (suspend_radio e s))"
  have "erase_loop (?b + 4096) (start - (?b + 4096)) es (emit (C_flash (F_erase_4K (unat ?b))) ?s) =
      Some (emit (C_flash (F_erase_4K (unat ?b))) ?s)"
    using big by (subst erase_loop.simps) simp
  moreover have "es \<noteq> 0" using es(1) by auto
  ultimately have "uc_wiota_ota_flash_erase e start es s =
      Some (emit (C_wiota W_recover_connect) (emit (C_os O_irq_enable) (emit (C_flash F_lock_all)
        (emit (C_flash (F_erase_4K (unat ?b))) ?s))))"
    using lt by (simp add: uc_wiota_ota_flash_erase_def Let_def ota_flash_erase_one[OF al])
  moreover have "flash_byte (flash_mem F0 (C_flash (F_erase_4K (unat ?b)) # hist ?s)) =
      erased (flash_byte (flash_mem F0 (hist s))) (unat start div 4096 * 4096) 1"
    by (rule ext) (simp add: flash_byte_erase b erased_def sector_iff)
  ultimately show ?thesis by simp
qed

lemma ota_flash_erase_unaligned_witness:
  "\<exists>s'. uc_wiota_ota_flash_erase good_env 0x2001 20000 \<lparr>hist = []\<rparr> = Some s' \<and>
     flash_byte (flash_mem (\<lambda>_. 0) (hist s')) 0x3000 = 0"
  using ota_flash_erase_unaligned[of "0x2001" 20000 good_env "\<lparr>hist = []\<rparr>" "\<lambda>_. 0"]
  by (auto simp: erased_def)

section \<open>Verifying the image\<close>

lemma check_loop_spec:
  assumes con: "flash_contract e F0" and sz: "a + sz \<le> 2 ^ 32" "sz < 2 ^ 31"
  shows "i \<le> sz \<Longrightarrow> B = flash_byte (flash_mem F0 (hist s)) \<Longrightarrow> represents ctx (map B [a..<a + i]) \<Longrightarrow>
    \<exists>ctx' s'. check_loop e a sz i ctx s = Some (Some ctx', s') \<and>
      represents ctx' (map B [a..<a + sz]) \<and> only_reads s s'"
proof (induction "sz - i" arbitrary: i ctx s rule: less_induct)
  case less
  show ?case
  proof (cases "i < sz")
    case False
    then show ?thesis using less.prems by (simp add: check_loop.simps)
  next
    case True
    define n where "n = (if i + 512 > sz then sz - i else 512)"
    have n: "0 < n" "i + n \<le> sz" "n \<le> 512" using True by (auto simp: n_def)
    have ai: "(a + i) mod 2 ^ 32 = a + i" using True sz(1) by (intro mod_less) linarith
    have "a + i + n \<le> 2 ^ 32" using n(2) sz(1) by linarith
    from ota_flash_read_spec[OF con this, of s] obtain s1 where
      rd: "uc_wiota_ota_flash_read e (a + i) n s = Some (n, map B [a + i..<a + i + n], s1)" "only_reads s s1"
      using less.prems(2) by auto
    let ?b = "map B [a + i..<a + i + n]"
    have "nat (int n) \<le> length ?b" "int n < 2 ^ 31" using n(3) by auto
    from update_represents[OF less.prems(3) this] obtain ctx1 where
      up: "tiny_md5_update ctx ?b (int n) = Some ctx1" "represents ctx1 (map B [a..<a + i] @ ?b)" by auto
    have "[a..<a + (i + n)] = [a..<a + i] @ [a + i..<a + i + n]"
      using upt_add_eq_append[of a "a + i" n] by (simp add: add.assoc)
    then have rep: "represents ctx1 (map B [a..<a + (i + n)])" using up(2) by simp
    have lt: "sz - (i + n) < sz - i" using n by linarith
    have B: "B = flash_byte (flash_mem F0 (hist s1))"
      using less.prems(2) only_reads_simps(1)[OF rd(2)] by simp
    obtain ctx' s' where "check_loop e a sz (i + n) ctx1 s1 = Some (Some ctx', s')"
        "represents ctx' (map B [a..<a + sz])" "only_reads s1 s'"
      using less.hyps[OF lt n(2) B rep] by blast
    moreover have "check_loop e a sz i ctx s = check_loop e a sz (i + n) ctx1 s1"
      by (subst check_loop.simps, simp only: True if_True n_def[symmetric] Let_def ai rd(1) prod.case
          bind.bind_lunit refl not_True_eq_False if_False up(1))
    ultimately show ?thesis using only_reads_trans[OF rd(2)] by auto
  qed
qed

lemma length_hex_string [simp]: "length (hex_string bs) = 2 * length bs"
  by (induction bs) (simp_all add: hex_string_def)

lemma check_flash_data_spec:
  assumes con: "flash_contract e F0" and sz: "a + sz \<le> 2 ^ 32" "sz < 2 ^ 31"
    and mem: "e_malloc e (hist s) 512" "heap_ok (hist s)" and md5: "32 \<le> length md5"
    and img: "img = map (flash_byte (flash_mem F0 (hist s))) [a..<a + sz]"
  shows "\<exists>s'. uc_wiota_ota_check_flash_data e a sz md5 s =
      Some (if take 32 md5 = hex_string (md5_spec img) then 0 else 2, s') \<and>
    live (hist s') = live (hist s) \<and> flash_mem F0 (hist s') = flash_mem F0 (hist s)"
proof -
  let ?p = "length (hist s)"
  let ?s = "suspend_radio e (emit (C_malloc ?p 512) s)"
  have B: "flash_byte (flash_mem F0 (hist s)) = flash_byte (flash_mem F0 (hist ?s))" by simp
  have rep: "represents (tiny_md5_starts blank_context) (map (flash_byte (flash_mem F0 (hist s))) [a..<a + 0])"
    using represents_starts[of blank_context] by (simp add: blank_context_def)
  obtain ctx s1 where c: "check_loop e a sz 0 (tiny_md5_starts blank_context) ?s = Some (Some ctx, s1)"
      "represents ctx img" "only_reads ?s s1"
    using check_loop_spec[OF con sz _ B rep] unfolding img by blast
  obtain ctx' where f: "tiny_md5_finish ctx = Some (ctx', md5_spec img)"
    using finish_represents[OF c(2)] by blast
  have cmp: "rt_memcmp_eq (hex_string (md5_spec img)) md5 32 = Some (take 32 md5 = hex_string (md5_spec img))"
    using memcmp_eq_iff[of 32 "hex_string (md5_spec img)" md5] md5 by (auto simp: length_md5_spec)
  have l: "live (hist s1) = ?p # live (hist s)" "flash_mem F0 (hist s1) = flash_mem F0 (hist s)"
    using only_reads_simps(1,2)[OF c(3)] by (simp_all add: suspend_radio_def Let_def)
  show ?thesis
    using c(1) f cmp l mem(1) fresh_not_live[OF mem(2)]
    by (simp add: uc_wiota_ota_check_flash_data_def rt_malloc_def Let_def rt_free_def)
qed

text \<open>C15.
  \<open>uc_wiota_ota_check_flash_data\<close> accepts an image exactly when its MD5 digest, in lower case
  hexadecimal, is the expected string: it reads the whole range once in blocks of 512 bytes, returns
  0 or 2 accordingly, and leaves the heap and the flash as they were.
\<close>

theorem ota_check_flash_data_correct:
  assumes con: "flash_contract e F0" and sz: "a + sz \<le> 2 ^ 32" "sz < 2 ^ 31"
    and mem: "e_malloc e (hist s) 512" "heap_ok (hist s)" and md5: "32 \<le> length md5"
    and img: "img = map (flash_byte (flash_mem F0 (hist s))) [a..<a + sz]"
  shows "\<exists>s'. uc_wiota_ota_check_flash_data e a sz md5 s =
      Some (if take 32 md5 = hex_string (md5_spec img) then 0 else 2, s') \<and>
    live (hist s') = live (hist s) \<and> flash_mem F0 (hist s') = flash_mem F0 (hist s)"
  using assms by (rule check_flash_data_spec)

theorem ota_check_flash_data_correct_witness:
  "\<exists>s'. uc_wiota_ota_check_flash_data (flash_env (\<lambda>_. 0)) 0 600 (hex_string (md5_spec (replicate 600 0))) \<lparr>hist = []\<rparr> =
      Some (0, s')"
proof -
  have "replicate 600 0 = map (flash_byte (flash_mem (\<lambda>_. 0) (hist \<lparr>hist = []\<rparr>))) [0..<0 + 600]"
    by (rule nth_equalityI) simp_all
  from ota_check_flash_data_correct[OF flash_env_contract _ _ _ _ _ this,
      of "hex_string (md5_spec (replicate 600 0))"] show ?thesis
    by (auto simp: flash_env_def length_md5_spec simp del: replicate.simps)
qed

end
