(* ===== verification/HeapSafety.thy ===== *)
theory HeapSafety
  imports Coding OtaFlash "HOL-Library.Multiset"
begin

text \<open>
  Memory safety of the heap: every \<^verbatim>\<open>rt_free\<close> of a history was given a block that was
  allocated and not yet freed, so no block is freed twice and no pointer is freed that the heap
  did not hand out. The argument is by ownership: \<open>holds X h\<close> says that the history is safe and
  that the blocks of the multiset \<open>X\<close> are alive and belong, each once, to somebody. A block may be
  freed by its owner only. The packet codec and the flash functions are shown to respect it.
\<close>

fun frees_ok :: "call list \<Rightarrow> bool" where
  "frees_ok [] = True"
| "frees_ok (C_free p # h) = (p \<in> set (live h) \<and> frees_ok h)"
| "frees_ok (_ # h) = frees_ok h"

definition holds :: "ptr multiset \<Rightarrow> call list \<Rightarrow> bool" where
  "holds X h \<longleftrightarrow> heap_ok h \<and> frees_ok h \<and> distinct (live h) \<and> X \<subseteq># mset (live h)"

lemma frees_ok_skip [simp]: "\<not> heap_call c \<Longrightarrow> frees_ok (c # h) = frees_ok h"
  by (cases c rule: heap_call.cases) auto

lemma frees_ok_malloc [simp]: "frees_ok (C_malloc p n # h) = frees_ok h"
  by simp

lemma holds_Nil [simp]: "holds {#} []"
  by (simp add: holds_def)

lemma holds_skip [simp]: "\<not> heap_call c \<Longrightarrow> holds X h \<Longrightarrow> holds X (c # h)"
  by (simp add: holds_def)

lemma holds_malloc:
  assumes "holds X h" "p = length h"
  shows "holds (add_mset p X) (C_malloc p n # h)"
  using assms fresh_not_live[of h] by (auto simp: holds_def)

lemma holds_free:
  assumes "holds (add_mset p X) h"
  shows "holds X (C_free p # h)"
proof -
  have p: "p \<in> set (live h)" and d: "distinct (live h)" and s: "add_mset p X \<subseteq># mset (live h)"
    using assms by (auto simp: holds_def dest: mset_subset_eq_insertD)
  have "removeAll p (live h) = remove1 p (live h)" by (rule distinct_remove1_removeAll[OF d, symmetric])
  then have "mset (removeAll p (live h)) = mset (live h) - {#p#}" by simp
  then have "X \<subseteq># mset (removeAll p (live h))"
    using s by (simp add: insert_subset_eq_iff)
  then show ?thesis using assms p d by (simp add: holds_def distinct_removeAll)
qed

lemma holds_mono: "holds Y h \<Longrightarrow> X \<subseteq># Y \<Longrightarrow> holds X h"
  by (auto simp: holds_def)

lemma holds_weaken [simp]: "holds (add_mset p X) h \<Longrightarrow> holds X h"
  by (erule holds_mono) (metis add_mset_add_single mset_subset_eq_add_left)

lemma holds_live: "holds X h \<Longrightarrow> p \<in># X \<Longrightarrow> p \<in> set (live h)"
  by (auto simp: holds_def dest: mset_subset_eqD)

section \<open>Allocation and the codec\<close>

definition blk_ptr :: "block option \<Rightarrow> ptr multiset" where
  "blk_ptr b = (case b of None \<Rightarrow> {#} | Some (p, mem, n) \<Rightarrow> {#p#})"

lemma blk_ptr_simps [simp]: "blk_ptr None = {#}" "blk_ptr (Some (p, mem, n)) = {#p#}"
  by (simp_all add: blk_ptr_def)

lemma holds_rt_malloc:
  "rt_malloc e n s = (p, s') \<Longrightarrow> holds X (hist s) \<Longrightarrow>
     holds (case p of None \<Rightarrow> X | Some a \<Rightarrow> add_mset a X) (hist s')"
  by (auto simp: rt_malloc_def holds_malloc split: if_splits)

lemma malloc_fail_skip [simp]: "holds X h \<Longrightarrow> holds X (C_malloc_fail n # h)"
  by (simp add: holds_def)

lemma holds_rt_free: "holds (add_mset p X) (hist s) \<Longrightarrow> holds X (hist (rt_free (Some p) s))"
  by (simp add: rt_free_def holds_free)

lemma fastlz_compressor_holds:
  "fastlz_compressor lvl e m s = Some (r, s') \<Longrightarrow> holds X (hist s) \<Longrightarrow> holds X (hist s')"
  by (auto simp: fastlz_compressor_def rt_malloc_def split: if_splits intro!: holds_rt_free holds_malloc)

lemma fastlz_compressor_only_hist:
  "fastlz_compressor lvl e m s = Some (r, s') \<Longrightarrow> only_hist s s'"
  by (auto simp: fastlz_compressor_def rt_malloc_def split: if_splits)

lemma fastlz_compress_holds:
  "fastlz_compress e m s = Some (r, s') \<Longrightarrow> holds X (hist s) \<Longrightarrow> holds X (hist s')"
  by (auto simp: fastlz_compress_def fastlz_compressor_holds split: if_splits)

lemma fastlz_compress_only_hist: "fastlz_compress e m s = Some (r, s') \<Longrightarrow> only_hist s s'"
  by (auto simp: fastlz_compress_def fastlz_compressor_only_hist split: if_splits)

lemma code_data_holds:
  assumes c: "code_data fastlz_compress e h data p buf off s = Some (rc, blk, h', s')"
    and h: "holds (add_mset p X) (hist s)"
  shows "holds (blk_ptr blk + X) (hist s') \<and> only_hist s s' \<and> (rc = 0 \<longleftrightarrow> blk \<noteq> None)"
proof (cases "flag PRO_COMPRESS_FLAG (property h)")
  case False
  then show ?thesis using c h by (auto simp: code_data_def)
next
  case True
  show ?thesis
  proof (cases rule: rt_malloc_cases[of e s APP_MAX_CODING_DATA_LEN])
    case fail
    then show ?thesis using c h True by (auto simp: code_data_def holds_free)
  next
    case ok
    let ?q = "length (hist s)"
    let ?s = "emit (C_malloc ?q APP_MAX_CODING_DATA_LEN) s"
    obtain comp s1 where cz: "fastlz_compress e data ?s = Some (comp, s1)"
      using c True ok by (auto simp: code_data_def)
    have "holds (add_mset ?q (add_mset p X)) (hist ?s)"
      using holds_malloc[OF h refl] by simp
    from fastlz_compress_holds[OF cz this]
    have h1: "holds (add_mset p X) (hist (rt_free (Some ?q) s1))" by (rule holds_rt_free)
    have o1: "only_hist s s1"
      using fastlz_compress_only_hist[OF cz] only_hist_trans only_hist_emit by blast
    have "\<exists>mem n. blk = Some (p, mem, n) \<and> s' = rt_free (Some ?q) s1 \<and> rc = 0"
      using c True ok cz by (auto simp: code_data_def Let_def split: option.splits if_splits)
    then show ?thesis using h1 o1 by auto
  qed
qed

lemma app_data_coding_holds:
  assumes c: "app_data_coding e h input len s = Some (rc, blk, h', s')" and h: "holds X (hist s)"
  shows "holds (blk_ptr blk + X) (hist s') \<and> only_hist s s' \<and> (rc = 0 \<longleftrightarrow> blk \<noteq> None)"
proof (cases rule: rt_malloc_cases[of e s "sizeof_app_ps_header + len + 4"])
  case fail
  then show ?thesis using c h by (auto simp: app_data_coding_def app_data_coding_with_def)
next
  case ok
  let ?p = "length (hist s)"
  let ?s = "emit (C_malloc ?p (sizeof_app_ps_header + len + 4)) s"
  have hs: "holds (add_mset ?p X) (hist ?s)" using holds_malloc[OF h refl] by simp
  consider (data) d buf off where
      "code_data fastlz_compress e h d ?p buf off ?s = Some (rc, blk, h', s')"
    | (none) mem n where "rc = 0" "blk = Some (?p, mem, n)" "s' = ?s"
    using c ok
    by (auto simp: app_data_coding_def app_data_coding_with_def split: option.splits if_splits)
  then show ?thesis
  proof cases
    case data
    then show ?thesis
      using code_data_holds[OF data hs] only_hist_trans only_hist_emit by blast
  next
    case none
    then show ?thesis using hs by simp
  qed
qed

lemma app_data_decoding_holds:
  assumes c: "app_data_decoding e input n h0 s = Some (rc, blk, h, s')" and h: "holds X (hist s)"
  shows "holds (blk_ptr blk + X) (hist s') \<and> only_hist s s' \<and> (rc \<noteq> 0 \<longrightarrow> blk = None)"
proof -
  note d = app_data_decoding_def app_data_decoding_with_def
  consider (same) "s' = s" "blk = None"
    | (alloc) m h1 offset where "input = Some m" "\<not> (n = 0 \<or> n > APP_MAX_DECODING_DATA_LEN)"
        "decode_header m h0 = Some (h1, offset)" "offset < n"
    using c by (auto simp: d split: option.splits if_splits)
  then show ?thesis
  proof cases
    case same
    then show ?thesis using h by simp
  next
    case alloc
    let ?p = "length (hist s)"
    let ?s = "emit (C_malloc ?p (n - offset + 1)) s"
    show ?thesis
    proof (cases rule: rt_malloc_cases[of e s "n - offset + 1"])
      case fail
      then show ?thesis using c alloc h by (auto simp: d)
    next
      case ok
      have hs: "holds (add_mset ?p X) (hist ?s)" using holds_malloc[OF h refl] by simp
      show ?thesis
      proof (cases "flag PRO_COMPRESS_FLAG (property h1)")
        case False
        then have "s' = ?s \<and> (\<exists>mem k. blk = Some (?p, mem, k)) \<and> rc = 0"
          using c alloc ok by (auto simp: d)
        then show ?thesis using hs by auto
      next
        case True
        note flag = this
        show ?thesis
        proof (cases rule: rt_malloc_cases[of e ?s APP_MAX_DECODING_DATA_LEN])
          case fail
          then have "s' = rt_free (Some ?p) (emit (C_malloc_fail APP_MAX_DECODING_DATA_LEN) ?s) \<and> blk = None"
            using c alloc ok(2) flag by (auto simp: d)
          then show ?thesis using hs by (auto intro!: holds_free)
        next
          case ok2: ok
          let ?q = "length (hist ?s)"
          let ?t = "emit (C_malloc ?q APP_MAX_DECODING_DATA_LEN) ?s"
          have "s' = rt_free (Some ?p) ?t \<and> (\<exists>mem k. blk = Some (?q, mem, k)) \<and> rc = 0"
            using c alloc ok(2) ok2(2) flag by (auto simp: d)
          moreover have "holds (add_mset ?p (add_mset ?q X)) (hist ?t)"
            using holds_malloc[OF hs refl, of APP_MAX_DECODING_DATA_LEN] by (simp add: add_mset_commute)
          ultimately show ?thesis using holds_rt_free by fastforce
        qed
      qed
    qed
  qed
qed

section \<open>The flash functions\<close>

text \<open>\<open>adds K s s'\<close>: on the way from \<open>s\<close> to \<open>s'\<close> only calls of the kind \<open>K\<close> were made.\<close>

definition adds :: "(call \<Rightarrow> bool) \<Rightarrow> 'a sys_scheme \<Rightarrow> 'a sys_scheme \<Rightarrow> bool" where
  "adds K s s' \<longleftrightarrow> only_hist s s' \<and> (\<exists>cs. hist s' = cs @ hist s \<and> (\<forall>c \<in> set cs. K c))"

lemma adds_refl [simp]: "adds K s s"
  by (simp add: adds_def)

lemma adds_trans: "adds K s s' \<Longrightarrow> adds K s' s'' \<Longrightarrow> adds K s s''"
  by (auto simp: adds_def intro: only_hist_trans)

lemma adds_emit [simp]: "K c \<Longrightarrow> adds K s t \<Longrightarrow> adds K s (emit c t)"
proof -
  assume a: "K c" "adds K s t"
  then obtain cs where "hist t = cs @ hist s" "\<forall>c \<in> set cs. K c" by (auto simp: adds_def)
  then have "hist (emit c t) = (c # cs) @ hist s" "\<forall>c \<in> set (c # cs). K c" using a(1) by auto
  then show ?thesis using a(2) unfolding adds_def by (meson only_hist_emit_iff)
qed

lemma adds_emit_left: "adds K (emit c s) t \<Longrightarrow> K c \<Longrightarrow> adds K s t"
  using adds_trans[of K s "emit c s" t] by simp

lemma adds_only_hist: "adds K s s' \<Longrightarrow> only_hist s s'"
  by (simp add: adds_def)

fun flash_call :: "call \<Rightarrow> bool" where
  "flash_call (C_flash f) = True"
| "flash_call (C_os f) = True"
| "flash_call (C_wiota W_suspend_connect) = True"
| "flash_call (C_wiota W_recover_connect) = True"
| "flash_call _ = False"

lemma flash_call_not_heap: "flash_call c \<Longrightarrow> \<not> heap_call c"
  by (cases c rule: flash_call.cases) auto

lemma holds_adds: "adds flash_call s s' \<Longrightarrow> holds X (hist s) \<Longrightarrow> holds X (hist s')"
proof -
  assume a: "adds flash_call s s'" and h: "holds X (hist s)"
  obtain cs where cs: "hist s' = cs @ hist s" "\<forall>c \<in> set cs. flash_call c" using a by (auto simp: adds_def)
  have "holds X (cs @ hist s)" using cs(2)
    by (induction cs) (auto simp: h dest: flash_call_not_heap)
  then show ?thesis using cs(1) by simp
qed

lemma read_loop_adds: "read_loop e a n i buf s = Some (r, s') \<Longrightarrow> adds flash_call s s'"
proof (induction e a n i buf s rule: read_loop.induct)
  case (1 e a n i buf s)
  show ?case
  proof (cases "i < n")
    case False
    then show ?thesis using "1.prems" by (simp add: read_loop.simps)
  next
    case True
    obtain o' k where ch: "chunk a i n = (o', k)" by fastforce
    obtain b bs where b: "bswap_bytes (fst (flash_read_word e ((a + i) mod 2 ^ 32 div 4 * 4) s)) = Some b"
        "rdn b o' k = Some bs"
        "read_loop e a n (i + k) (buf @ bs) (snd (flash_read_word e ((a + i) mod 2 ^ 32 div 4 * 4) s)) = Some (r, s')"
      using "1.prems" True ch by (auto simp: Let_def flash_read_word_def read_loop.simps[of e a n i buf s])
    then have "adds flash_call (snd (flash_read_word e ((a + i) mod 2 ^ 32 div 4 * 4) s)) s'"
      using "1.IH"[OF True ch[symmetric] refl refl _ b(1,2)] by (simp add: flash_read_word_def)
    then show ?thesis by (auto simp: flash_read_word_def dest: adds_emit_left)
  qed
qed

lemma flash_read_adds:
  "uc_wiota_ota_flash_read e a n s = Some (k, buf, s') \<Longrightarrow> adds flash_call s s'"
  by (auto simp: uc_wiota_ota_flash_read_def dest: read_loop_adds)

lemma write_loop_adds: "write_loop e a buf n i s = Some s' \<Longrightarrow> adds flash_call s s'"
proof (induction "n - i" arbitrary: i s rule: less_induct)
  case less
  show ?case
  proof (cases "i < n")
    case False
    then show ?thesis using less.prems by (simp add: write_loop.simps)
  next
    case True
    obtain o' k where ch: "chunk a i n = (o', k)" by fastforce
    obtain A w2 s1 where s1: "adds flash_call s s1"
        "write_loop e a buf n (i + k) (emit (C_flash (F_write A w2)) s1) = Some s'"
      using less.prems True ch unfolding write_loop.simps[of e a buf n i s]
      by (auto simp: Let_def split: if_splits dest!: flash_read_adds intro: that adds_refl)
    have "n - (i + k) < n - i" using chunk_progress[OF True ch] by linarith
    then show ?thesis
      using s1(1) less.hyps[OF _ s1(2)] by (meson adds_trans adds_emit_left flash_call.simps(1))
  qed
qed

lemma suspend_radio_adds [simp]: "adds flash_call s (suspend_radio e s)"
  by (simp add: suspend_radio_def Let_def)

lemma flash_write_adds: "uc_wiota_ota_flash_write e buf a n s = Some s' \<Longrightarrow> adds flash_call s s'"
  by (auto simp: uc_wiota_ota_flash_write_def ota_flash_write_def Let_def split: if_splits
      dest!: write_loop_adds adds_emit_left intro!: adds_emit intro: adds_trans[OF suspend_radio_adds])

lemma erase_sectors_adds: "adds flash_call s (erase_sectors a n i s)"
proof (induction a n i s rule: erase_sectors.induct)
  case (1 a n i s)
  show ?case
  proof (cases "i < n")
    case True
    show ?thesis
      unfolding erase_sectors.simps[of a n i s] using True adds_emit_left[OF "1.IH"[OF True]] by simp
  qed (simp add: erase_sectors.simps)
qed

lemma ota_flash_erase_adds [simp]: "adds flash_call s (snd (ota_flash_erase a n s))"
  by (simp add: ota_flash_erase_def Let_def erase_sectors_adds)

lemma erase_loop_adds: "erase_loop a k n s = Some s' \<Longrightarrow> adds flash_call s s'"
proof (induction rule: erase_loop.raw_induct[rotated, consumes 1])
  case (1 loop a k n s s')
  show ?case
  proof (cases "k < n")
    case True
    then have "loop (a + 4096) (k + 4096) n (snd (ota_flash_erase (unat a) 4096 s)) = Some s'"
      using 1 by simp
    then show ?thesis using 1 adds_trans[OF ota_flash_erase_adds] by blast
  qed (use 1 in simp)
qed

lemma flash_erase_adds: "uc_wiota_ota_flash_erase e a n s = Some s' \<Longrightarrow> adds flash_call s s'"
proof -
  assume r: "uc_wiota_ota_flash_erase e a n s = Some s'"
  let ?s = "emit (C_flash F_unlock_all) (emit (C_os O_irq_disable) (suspend_radio e s))"
  have s: "adds flash_call s ?s" by simp
  show ?thesis
  proof (cases "n = 0")
    case True
    then show ?thesis using r by (simp add: uc_wiota_ota_flash_erase_def)
  next
    case False
    have "\<exists>t b k u. adds flash_call s t \<and> erase_loop b k n t = Some u \<and>
        s' = emit (C_wiota W_recover_connect) (emit (C_os O_irq_enable) (emit (C_flash F_lock_all) u))"
    proof (cases "a div 4096 * 4096 < a")
      case True
      show ?thesis
        using r False True adds_trans[OF s ota_flash_erase_adds[of ?s "unat (a div 4096 * 4096)" 4096]]
        by (auto simp: uc_wiota_ota_flash_erase_def Let_def)
    next
      case False
      then obtain u where "erase_loop (a div 4096 * 4096) 0 n ?s = Some u"
          "s' = emit (C_wiota W_recover_connect) (emit (C_os O_irq_enable) (emit (C_flash F_lock_all) u))"
        using r \<open>n \<noteq> 0\<close> by (auto simp: uc_wiota_ota_flash_erase_def Let_def)
      then show ?thesis using s by blast
    qed
    then show ?thesis by (auto intro!: adds_emit dest: erase_loop_adds adds_trans)
  qed
qed

lemma check_loop_adds: "check_loop e a n i ctx s = Some (r, s') \<Longrightarrow> adds flash_call s s'"
proof (induction "n - i" arbitrary: i ctx s rule: less_induct)
  case less
  show ?case
  proof (cases "i < n")
    case False
    then show ?thesis using less.prems by (simp add: check_loop.simps)
  next
    case True
    define k where "k = (if i + 512 > n then n - i else 512)"
    obtain m buf s1 where rd: "uc_wiota_ota_flash_read e ((a + i) mod 2 ^ 32) k s = Some (m, buf, s1)"
        "(if m \<noteq> k then Some (None, s1)
          else do { ctx \<leftarrow> tiny_md5_update ctx buf (int k); check_loop e a n (i + k) ctx s1 }) = Some (r, s')"
      using less.prems True unfolding check_loop.simps[of e a n i ctx s]
      by (auto simp: Let_def k_def[symmetric])
    have "n - (i + k) < n - i" using True by (auto simp: k_def)
    then show ?thesis
      using rd(2) less.hyps[of "i + k" _ s1] flash_read_adds[OF rd(1)]
      by (auto split: if_splits intro: adds_trans)
  qed
qed

lemma check_flash_data_holds:
  assumes c: "uc_wiota_ota_check_flash_data e a n md5 s = Some (rc, s')" and h: "holds X (hist s)"
  shows "holds X (hist s') \<and> only_hist s s'"
proof (cases rule: rt_malloc_cases[of e s 512])
  case fail
  then show ?thesis using c by (simp add: uc_wiota_ota_check_flash_data_def)
next
  case ok
  let ?p = "length (hist s)"
  let ?s = "suspend_radio e (emit (C_malloc ?p 512) s)"
  obtain ctx s1 where l: "check_loop e a n 0 (tiny_md5_starts blank_context) ?s = Some (ctx, s1)"
      "s' = emit (C_wiota W_recover_connect) (rt_free (Some ?p) s1) \<or>
       s' = rt_free (Some ?p) (emit (C_wiota W_recover_connect) s1)"
    using c ok by (auto simp: uc_wiota_ota_check_flash_data_def Let_def split: option.splits)
  have a: "adds flash_call (emit (C_malloc ?p 512) s) s1"
    using check_loop_adds[OF l(1)] suspend_radio_adds adds_trans by blast
  have "holds (add_mset ?p X) (hist s1)"
    using holds_adds[OF a] holds_malloc[OF h refl] by simp
  moreover have "only_hist s s1"
    using adds_only_hist[OF a] only_hist_trans only_hist_emit by blast
  ultimately show ?thesis using l(2) by (auto simp: rt_free_def holds_free)
qed

end
