(* ===== verification/GatewayState.thy ===== *)
theory GatewayState
  imports Platform Coding Mqueue OtaFlash "HOL-Library.Signed_Division"
begin

text \<open>
  The state of the gateway client of \<^verbatim>\<open>PS/app/src/uc_wiota_gateway_api.c\<close> and the operations
  that every part of it uses: the accessors, the OTA timer, the message queue, and the callback
  with which the radio thread delivers a downlink.
\<close>

section \<open>Enumerations and constants\<close>

datatype uc_gw_connect =
  UC_GW_NO_CONNECT | UC_GW_ATTEMPT_CONNECT | UC_GW_CONNECT_FAIL | UC_GW_CONNECT_SUCESS
| UC_GW_DISCONNECT

datatype uc_gateway_state =
  GATEWAY_DEFAULT | GATEWAY_NORMAL | GATEWAY_FAILED | GATEWAY_END | GATEWAY_RECONNECT
| GATEWAY_OTA_UPGRADE | GATEWAY_OTA_PROGRAMING

fun state_code :: "uc_gateway_state \<Rightarrow> nat" where
  "state_code GATEWAY_DEFAULT = 0"
| "state_code GATEWAY_NORMAL = 1"
| "state_code GATEWAY_FAILED = 2"
| "state_code GATEWAY_END = 3"
| "state_code GATEWAY_RECONNECT = 4"
| "state_code GATEWAY_OTA_UPGRADE = 5"
| "state_code GATEWAY_OTA_PROGRAMING = 6"

datatype uc_gateway_ota_state =
  GATEWAY_OTA_DEFAULT | GATEWAY_OTA_DOWNLOAD | GATEWAY_OTA_PROGRAM | GATEWAY_OTA_STOP

definition GATEWAY_MAG_CODE_DL_RECV :: nat where "GATEWAY_MAG_CODE_DL_RECV = 2"
definition GATEWAY_MAG_CODE_UL_HEART :: nat where "GATEWAY_MAG_CODE_UL_HEART = 4"
definition GATEWAY_MAG_CODE_OTA_REQ :: nat where "GATEWAY_MAG_CODE_OTA_REQ = 8"
definition GATEWAY_MAG_CODE_UL_MISS_DATA_REQ :: nat where "GATEWAY_MAG_CODE_UL_MISS_DATA_REQ = 16"
definition GATEWAY_MAG_CODE_EXIT :: nat where "GATEWAY_MAG_CODE_EXIT = 32"

lemmas mag_codes =
  GATEWAY_MAG_CODE_DL_RECV_def GATEWAY_MAG_CODE_UL_HEART_def GATEWAY_MAG_CODE_OTA_REQ_def
  GATEWAY_MAG_CODE_UL_MISS_DATA_REQ_def GATEWAY_MAG_CODE_EXIT_def

definition GATEWAY_OTA_BLOCK_SIZE :: nat where "GATEWAY_OTA_BLOCK_SIZE = 512"
definition GATEWAY_WAIT_QUEUE_TIMEOUT :: nat where "GATEWAY_WAIT_QUEUE_TIMEOUT = 100"
definition UC_RECV_FN_CHANGE :: u8 where "UC_RECV_FN_CHANGE = 11"

section \<open>State\<close>

text \<open>
  A message of the queue is an address: of a block from the heap that carries a downlink, or of
  the static structure of \<^verbatim>\<open>send_msg_to_queue\<close> or of \<^verbatim>\<open>send_exit\<close>.
\<close>

datatype uc_wiota_gateway_msg =
  Dl_msg ptr "(ptr \<times> u8 list) option" u8
| Static_msg
| Exit_msg

text \<open>
  \<^verbatim>\<open>uc_wiota_gateway_api_mode_t\<close>. Handles are \<open>True\<close> when they are not null; the queue is its
  block, the block of its pool, and its contents.
\<close>

record uc_wiota_gateway_api_mode =
  gateway_handler :: bool
  gateway_mq :: "(ptr \<times> ptr \<times> uc_wiota_gateway_msg rt_messagequeue) option"
  fn_refresh_sem :: bool
  active_time :: u32
  gateway_mode :: u8
  allow_run_flag :: "1 word"
  ota_dev_type :: "1 word"
  ota_dl_state :: "2 word"
  auth_ts_fn :: u16
  auth_period :: u8
  is_send_sleep :: "1 word"
  is_force_active :: "1 word"
  is_waiting_ts :: "1 word"
  is_ts_mode :: "1 word"
  gateway_task_run :: "1 word"
  exit_flag :: "1 word"
  gw_verity :: "1 word"
  auth_code :: "u8 list"
  device_type :: "u8 list"
  ota_timer :: bool
  new_version :: "u8 list"
  ota_state :: uc_gateway_ota_state
  upgrade_type :: u8
  miss_data_num :: u8
  miss_data_invalid_req :: u8
  block_count :: u32
  block_size :: u32
  mask_map :: "u8 list"
  mcs_len :: u16
  upgrade_num :: u16
  ota_recved_len :: u32
  bin_addr :: u32

definition zero_mode :: uc_wiota_gateway_api_mode where
  "zero_mode = \<lparr>gateway_handler = False, gateway_mq = None, fn_refresh_sem = False, active_time = 0,
     gateway_mode = 0, allow_run_flag = 0, ota_dev_type = 0, ota_dl_state = 0, auth_ts_fn = 0,
     auth_period = 0, is_send_sleep = 0, is_force_active = 0, is_waiting_ts = 0, is_ts_mode = 0,
     gateway_task_run = 0, exit_flag = 0, gw_verity = 0, auth_code = replicate 16 0,
     device_type = replicate 16 0, ota_timer = False, new_version = replicate 16 0,
     ota_state = GATEWAY_OTA_DEFAULT, upgrade_type = 0, miss_data_num = 0, miss_data_invalid_req = 0,
     block_count = 0, block_size = 0, mask_map = replicate 28 0, mcs_len = 0, upgrade_num = 0,
     ota_recved_len = 0, bin_addr = 0\<rparr>"

text \<open>
  The static variables of the file, and the receive callback that the library holds. Callbacks
  of the user are numbers; a call of one is an event.
\<close>

record gw = sys +
  gm :: uc_wiota_gateway_api_mode
  user_recv :: "nat option"
  exce_report :: "nat option"
  ex_mcu :: "nat option"
  rtc_cb :: "nat option"
  rtc_fmt :: u8
  rtc_sem :: bool
  uc_gateway_state :: uc_gateway_state
  wiota_gw_connect_flag :: uc_gw_connect
  wiota_gateway_run_flag :: u8
  gw_freq_list :: "u8 list"
  static_msg_type :: nat
  miss_data_continue_couter :: u8
  recv_cb :: recv_callback

definition init_gw :: gw where
  "init_gw = \<lparr>hist = [], gm = zero_mode, user_recv = None, exce_report = None, ex_mcu = None,
     rtc_cb = None, rtc_fmt = 0xff, rtc_sem = False, uc_gateway_state = GATEWAY_DEFAULT,
     wiota_gw_connect_flag = UC_GW_NO_CONNECT, wiota_gateway_run_flag = 0,
     gw_freq_list = replicate 8 0, static_msg_type = 0, miss_data_continue_couter = 0,
     recv_cb = CB_none\<rparr>"

section \<open>Accessors\<close>

definition uc_wiota_gateway_set_auth_period :: "u8 \<Rightarrow> gw \<Rightarrow> gw" where
  "uc_wiota_gateway_set_auth_period p = gm_update (auth_period_update (\<lambda>_. p))"

definition uc_wiota_gateway_get_ota_state :: "gw \<Rightarrow> u8" where
  "uc_wiota_gateway_get_ota_state s = ucast (ota_dl_state (gm s))"

definition uc_wiota_gateway_get_ota_dev_type :: "gw \<Rightarrow> u8" where
  "uc_wiota_gateway_get_ota_dev_type s = ucast (ota_dev_type (gm s))"

definition uc_wiota_gateway_get_ota_recved_len :: "gw \<Rightarrow> u32" where
  "uc_wiota_gateway_get_ota_recved_len s = ota_recved_len (gm s)"

definition uc_wiota_gateway_get_ota_bin_addr :: "gw \<Rightarrow> u32" where
  "uc_wiota_gateway_get_ota_bin_addr s = bin_addr (gm s)"

definition uc_wiota_gateway_clear_ota_state :: "gw \<Rightarrow> gw" where
  "uc_wiota_gateway_clear_ota_state =
     gm_update (\<lambda>g. g\<lparr>ota_dev_type := 0, ota_dl_state := 0, ota_recved_len := 0, bin_addr := 0\<rparr>)"

definition uc_wiota_gateway_get_run_flag :: "gw \<Rightarrow> u8" where
  "uc_wiota_gateway_get_run_flag s = wiota_gateway_run_flag s"

definition uc_wiota_gateway_set_run_flag :: "u8 \<Rightarrow> gw \<Rightarrow> gw" where
  "uc_wiota_gateway_set_run_flag f s = s\<lparr>wiota_gateway_run_flag := f\<rparr>"

definition uc_wiota_gateway_get_allow_run_flag :: "gw \<Rightarrow> u8" where
  "uc_wiota_gateway_get_allow_run_flag s = ucast (allow_run_flag (gm s))"

text \<open>Assigning a byte to a bit field keeps its low bits.\<close>

definition uc_wiota_gateway_set_allow_run_flag :: "u8 \<Rightarrow> gw \<Rightarrow> gw" where
  "uc_wiota_gateway_set_allow_run_flag f = gm_update (allow_run_flag_update (\<lambda>_. ucast f))"

definition uc_gateway_set_send_sleep_flag :: "u8 \<Rightarrow> gw \<Rightarrow> gw" where
  "uc_gateway_set_send_sleep_flag f = gm_update (is_send_sleep_update (\<lambda>_. ucast f))"

definition uc_gateway_set_force_actice :: "u8 \<Rightarrow> gw \<Rightarrow> gw" where
  "uc_gateway_set_force_actice f = gm_update (is_force_active_update (\<lambda>_. ucast f))"

definition uc_wiota_gateway_set_verity :: "u8 \<Rightarrow> gw \<Rightarrow> gw" where
  "uc_wiota_gateway_set_verity f = gm_update (gw_verity_update (\<lambda>_. ucast f))"

definition uc_wiota_gateway_get_verity :: "gw \<Rightarrow> u8" where
  "uc_wiota_gateway_get_verity s = ucast (gw_verity (gm s))"

definition uc_wiota_gateway_get_state :: "gw \<Rightarrow> uc_gateway_state" where
  "uc_wiota_gateway_get_state s = uc_gateway_state s"

definition uc_wiota_gateway_register_user_recv_cb :: "nat option \<Rightarrow> nat option \<Rightarrow> gw \<Rightarrow> int \<times> gw" where
  "uc_wiota_gateway_register_user_recv_cb u r s = (1, s\<lparr>user_recv := u, exce_report := r\<rparr>)"

definition uc_wiota_gateway_register_get_rtc_cb :: "u32 \<Rightarrow> nat option \<Rightarrow> gw \<Rightarrow> int \<times> gw" where
  "uc_wiota_gateway_register_get_rtc_cb fmt cb s = (1, s\<lparr>rtc_cb := cb, rtc_fmt := ucast fmt\<rparr>)"

definition uc_wiota_gateway_register_ex_mcu_cb :: "nat option \<Rightarrow> gw \<Rightarrow> int \<times> gw" where
  "uc_wiota_gateway_register_ex_mcu_cb cb s = (1, s\<lparr>ex_mcu := cb\<rparr>)"

text \<open>Strings and words that the library fills in; it must not write past the buffers.\<close>

definition uc_wiota_gateway_get_dev_address :: "env \<Rightarrow> 'a sys_scheme \<Rightarrow> u32 option" where
  "uc_wiota_gateway_get_dev_address e s =
     do { serial \<leftarrow> wr (replicate 16 0) 0 (e_dev_serial e (hist s)); rd32 serial 4 }"

lemma get_dev_address_ok:
  assumes "length (e_dev_serial e (hist s)) \<le> 16"
  shows "\<exists>a. uc_wiota_gateway_get_dev_address e s = Some a"
  using assms rd32_Some_ex[of "e_dev_serial e (hist s) @ replicate (16 - length (e_dev_serial e (hist s))) 0" 4]
  by (auto simp: uc_wiota_gateway_get_dev_address_def wr_def)

definition get_version :: "env \<Rightarrow> gw \<Rightarrow> u8 list option" where
  "get_version e s = wr (replicate 16 0) 0 (e_version e (hist s))"

definition uc_wiota_get_gateway_id :: "env \<Rightarrow> gw \<Rightarrow> u32" where
  "uc_wiota_get_gateway_id e s = gwi_gw_id (e_gateway_info e (hist s))"

text \<open>A call of the state report callback of the user; through a null pointer it is a fault.\<close>

definition call_report :: "uc_gateway_state \<Rightarrow> gw \<Rightarrow> gw option" where
  "call_report st s =
     do { cb \<leftarrow> exce_report s; Some (emit (C_cb (U_state_report cb (state_code st))) s) }"

definition report_state :: "uc_gateway_state \<Rightarrow> gw \<Rightarrow> gw" where
  "report_state st s = (case exce_report s of
     None \<Rightarrow> s | Some cb \<Rightarrow> emit (C_cb (U_state_report cb (state_code st))) s)"

section \<open>The OTA timer\<close>

definition uc_gateway_stop_ota_timer :: "gw \<Rightarrow> gw" where
  "uc_gateway_stop_ota_timer s = (if ota_timer (gm s) then emit (C_ipc I_timer_stop) s else s)"

definition uc_gateway_control_ota_timer :: "u32 \<Rightarrow> gw \<Rightarrow> gw" where
  "uc_gateway_control_ota_timer timeout s =
     (if ota_timer (gm s) then emit (C_ipc I_timer_start) (emit (C_ipc (I_timer_control timeout)) s)
      else s)"

definition uc_gateway_clear_state :: "gw \<Rightarrow> gw" where
  "uc_gateway_clear_state s =
     (if ota_state (gm s) \<noteq> GATEWAY_OTA_DEFAULT
      then uc_gateway_stop_ota_timer
             (gm_update (\<lambda>g. g\<lparr>ota_state := GATEWAY_OTA_DEFAULT, upgrade_num := 0,
                              mask_map := replicate 28 0\<rparr>) s)
      else s)"

text \<open>Division by a zero \<^verbatim>\<open>mcs_len\<close>, and remainder by a product that wrapped to zero, are faults.\<close>

definition uc_gateway_calc_single_otapage_time :: "env \<Rightarrow> gw \<Rightarrow> u32 option" where
  "uc_gateway_calc_single_otapage_time e s =
     do { guard (mcs_len (gm s) \<noteq> 0);
          let frames = (((GATEWAY_OTA_BLOCK_SIZE + 150) div unat (mcs_len (gm s)) + 1) div 7 + 1);
          Some ((word_of_nat frames * e_frame_len e (hist s) div 1000 + 1) * 3) }"

definition uc_gateway_get_miss_data_timeout :: "env \<Rightarrow> gw \<Rightarrow> u32 option" where
  "uc_gateway_get_miss_data_timeout e s =
     do { t \<leftarrow> uc_gateway_calc_single_otapage_time e s;
          let gw_timeout = t * 3;
          let timeout = ((e_userid e (hist s) AND 0xF) + 1) * 1000;
          guard (gw_timeout \<noteq> 0);
          Some (timeout mod gw_timeout) }"

section \<open>The message queue\<close>

definition sizeof_rt_messagequeue :: nat where "sizeof_rt_messagequeue = 60"
definition sizeof_gateway_msg :: nat where "sizeof_gateway_msg = 16"

text \<open>
  The pool has 4 bytes for each message, but a slot of the queue takes 8, so the queue holds half
  of the messages that were asked for.
\<close>

definition uc_wiota_gateway_create_queue ::
  "env \<Rightarrow> nat \<Rightarrow> gw \<Rightarrow> (ptr \<times> ptr \<times> uc_wiota_gateway_msg rt_messagequeue) option \<times> gw" where
  "uc_wiota_gateway_create_queue e n s =
     (case rt_malloc e sizeof_rt_messagequeue s of
        (None, s) \<Rightarrow> (None, s)
      | (Some q, s) \<Rightarrow>
          (case rt_malloc e (4 * n) s of
             (None, s) \<Rightarrow> (None, rt_free (Some q) s)
           | (Some pool, s) \<Rightarrow>
               (Some (q, pool, rt_mq_init 4 (4 * n)), emit (C_ipc I_mq_init) s)))"

definition uc_wiota_gateway_send_queue ::
  "uc_wiota_gateway_msg \<Rightarrow> int \<Rightarrow> gw \<Rightarrow> (int \<times> gw) option" where
  "uc_wiota_gateway_send_queue m timeout s =
     (case gateway_mq (gm s) of
        None \<Rightarrow> Some (0, s)
      | Some (p, pool, q) \<Rightarrow>
          do { (r, q) \<leftarrow> mq_send4 q m timeout;
               Some (r, gm_update (gateway_mq_update (\<lambda>_. Some (p, pool, q))) s) })"

definition uc_wiota_gateway_dele_queue :: "gw \<Rightarrow> (int \<times> gw) option" where
  "uc_wiota_gateway_dele_queue s =
     do { (p, pool, q) \<leftarrow> gateway_mq (gm s);
          Some (RT_EOK, rt_free (Some p) (rt_free (Some pool) (emit (C_ipc I_mq_detach) s))) }"

definition uc_wiota_gateway_del_fn_sem :: "gw \<Rightarrow> gw" where
  "uc_wiota_gateway_del_fn_sem s =
     (if fn_refresh_sem (gm s)
      then gm_update (fn_refresh_sem_update (\<lambda>_. False)) (emit (C_ipc I_sem_delete) s)
      else s)"

definition uc_wiota_gateway_send_exit :: "gw \<Rightarrow> gw option" where
  "uc_wiota_gateway_send_exit s =
     do { (res, s) \<leftarrow> uc_wiota_gateway_send_queue Exit_msg 0 s;
          Some (if res \<noteq> RT_EOK \<and> gateway_task_run (gm s) \<noteq> 0
                then emit (C_os (O_thread_mdelay 800)) (gm_update (gateway_task_run_update (\<lambda>_. 0)) s)
                else s) }"

definition uc_wiota_gateway_send_msg_to_queue :: "nat \<Rightarrow> gw \<Rightarrow> gw option" where
  "uc_wiota_gateway_send_msg_to_queue msg_code s =
     do { (res, s) \<leftarrow> uc_wiota_gateway_send_queue Static_msg 0 (s\<lparr>static_msg_type := msg_code\<rparr>);
          Some s }"

definition uc_wiota_gateway_send_miss_data_req_to_queue :: "gw \<Rightarrow> gw option" where
  "uc_wiota_gateway_send_miss_data_req_to_queue s =
     uc_wiota_gateway_send_msg_to_queue GATEWAY_MAG_CODE_UL_MISS_DATA_REQ s"

definition uc_wiota_gateway_handle_ota_recv_timer_msg :: "gw \<Rightarrow> gw option" where
  "uc_wiota_gateway_handle_ota_recv_timer_msg s =
     (if wiota_gw_connect_flag s = UC_GW_CONNECT_SUCESS
      then uc_wiota_gateway_send_miss_data_req_to_queue s else Some s)"

section \<open>The receive callback\<close>

text \<open>
  It runs in the thread of the radio. A frame number event releases the semaphore of a sender that
  waits for its time slot; any other downlink goes to the queue.
\<close>

definition recv_fn_change :: "env \<Rightarrow> u8 list \<Rightarrow> gw \<Rightarrow> gw option" where
  "recv_fn_change e bytes s =
     do { cur_fn \<leftarrow> rd32 bytes 0;
          let gw_info = e_gateway_info e (hist s);
          guard (gwi_pof gw_info \<noteq> 0);
          let cur_ts_fn = cur_fn mod gwi_pof gw_info;
          let ts_fn = (if uc_gateway_state s = GATEWAY_NORMAL then gwi_ts_fn gw_info
                       else auth_ts_fn (gm s));
          if cur_ts_fn = ucast ts_fn \<and> is_waiting_ts (gm s) \<noteq> 0
          then do { guard (fn_refresh_sem (gm s)); Some (emit (C_ipc I_sem_release) s) }
          else Some s }"

definition uc_wiota_gateway_recv_data_callback ::
  "env \<Rightarrow> op_result \<Rightarrow> u8 \<Rightarrow> (ptr \<times> u8 list) option \<Rightarrow> gw \<Rightarrow> gw option" where
  "uc_wiota_gateway_recv_data_callback e result type data s =
     (if result \<noteq> UC_OP_SUCC then Some s
      else if type = UC_RECV_FN_CHANGE then
        (if is_ts_mode (gm s) \<noteq> 0 then
           (case data of
              None \<Rightarrow> Some s
            | Some (p, bytes) \<Rightarrow> do { s \<leftarrow> recv_fn_change e bytes s; Some (rt_free (Some p) s) })
         else Some (rt_free (map_option fst data) s))
      else
        (case rt_malloc e sizeof_gateway_msg s of
           (None, s) \<Rightarrow> Some s
         | (Some buf, s) \<Rightarrow>
             if gateway_mq (gm s) = None then Some s
             else do { (r, s) \<leftarrow> uc_wiota_gateway_send_queue (Dl_msg buf data type) 10 s;
                       Some (if r \<noteq> RT_EOK then rt_free (Some buf) (rt_free (map_option fst data) s)
                             else s) }))"

text \<open>The library allocates the data of a downlink and calls the registered callback.\<close>

definition deliver :: "env \<Rightarrow> arrival \<Rightarrow> gw \<Rightarrow> gw option" where
  "deliver e = (\<lambda>(result, type, bytes) s.
     let (data, s) = (case bytes of
           None \<Rightarrow> (None, s)
         | Some bs \<Rightarrow> (Some (length (hist s), bs), emit (C_malloc (length (hist s)) (length bs)) s))
     in if recv_cb s = CB_gateway_recv
        then uc_wiota_gateway_recv_data_callback e result type data s
        else Some s)"

fun deliver_all :: "env \<Rightarrow> arrival list \<Rightarrow> gw \<Rightarrow> gw option" where
  "deliver_all e [] s = Some s"
| "deliver_all e (a # as) s = do { s \<leftarrow> deliver e a s; deliver_all e as s }"

text \<open>
  Receiving from the queue: a receiver that finds it empty and may wait gives the radio thread the
  processor; what arrives before the timeout is decided by the environment.
\<close>

definition uc_wiota_gateway_recv_queue ::
  "env \<Rightarrow> int \<Rightarrow> gw \<Rightarrow> (int \<times> uc_wiota_gateway_msg option \<times> gw) option" where
  "uc_wiota_gateway_recv_queue e timeout s =
     (case gateway_mq (gm s) of
        None \<Rightarrow> Some (RT_ERROR, None, s)
      | Some (_, _, q) \<Rightarrow>
          do { s \<leftarrow> (if entry q = 0 \<and> timeout \<noteq> 0
                     then (let s = emit (C_ipc I_mq_wait) s in deliver_all e (e_arrivals e (hist s)) s)
                     else Some s);
               (case gateway_mq (gm s) of
                  None \<Rightarrow> None
                | Some (p, pool, q) \<Rightarrow>
                    do { (r, m, q) \<leftarrow> rt_mq_recv q;
                         Some (r, m, gm_update (gateway_mq_update (\<lambda>_. Some (p, pool, q))) s) }) })"

end
