(* ===== verification/GatewaySend.thy ===== *)
theory GatewaySend
  imports GatewayState
begin

text \<open>
  The uplink of the gateway client: waiting for the time slot, coding and sending a command, and the
  requests that are built from the state (authentication, version, state report, user data, time).
  The C structures are byte lists with the layout of \<^verbatim>\<open>uc_coding.h\<close> on a 32 bit target.
\<close>

section \<open>Time slots\<close>

definition uc_wiota_gateway_calc_auth_time_slot_fn :: "env \<Rightarrow> gw \<Rightarrow> gw option" where
  "uc_wiota_gateway_calc_auth_time_slot_fn e s =
     (if is_ts_mode (gm s) = 0 then Some s
      else
        do { let period = (ucast (auth_period (gm s)) :: u32);
             let pof = gwi_pof (e_gateway_info e (hist s));
             guard (period \<noteq> 0);
             let auth_ts_num = pof div period + (if pof mod period \<noteq> 0 then 1 else 0);
             let (r, s) = ask Q_rand (e_rand e) (emit (C_os O_srand) s);
             guard (auth_ts_num \<noteq> 0);
             Some (gm_update (auth_ts_fn_update
                    (\<lambda>_. word_of_int ((int r smod sint auth_ts_num) * uint period))) s) })"

text \<open>
  \<^verbatim>\<open>rt_sem_take\<close> blocks: the radio thread may deliver meanwhile, and the platform decides whether
  the semaphore came in time.
\<close>

definition take_fn_sem :: "env \<Rightarrow> nat \<Rightarrow> gw \<Rightarrow> (bool \<times> gw) option" where
  "take_fn_sem e timeout s =
     do { let s = emit (C_ipc (I_sem_take timeout)) s;
          s \<leftarrow> deliver_all e (e_arrivals e (hist s)) s;
          Some (e_sem_take e (hist s), s) }"

definition uc_wiota_gateway_wait_send_time_slot :: "env \<Rightarrow> gw \<Rightarrow> (int \<times> gw) option" where
  "uc_wiota_gateway_wait_send_time_slot e s =
     (if is_ts_mode (gm s) = 0 then Some (0, s)
      else
        (let cause = e_awakened_cause e (hist s);
             waiting = \<not> (cause \<in> {AWAKENED_CAUSE_SLEEP, AWAKENED_CAUSE_PAGING} \<and> is_send_sleep (gm s) \<noteq> 0)
         in if waiting \<and> fn_refresh_sem (gm s) then
              do { let pof = gwi_pof (e_gateway_info e (hist s));
                   let wait_timeout = (pof * 2 + 2) * e_frame_len e (hist s) div 1000;
                   (ok, s) \<leftarrow> take_fn_sem e (unat wait_timeout) (gm_update (is_waiting_ts_update (\<lambda>_. 1)) s);
                   let s = (if ok \<and> uc_gateway_state s = GATEWAY_NORMAL
                            then emit (C_wiota W_hard_switch_to_active) s else s);
                   Some (if ok then 0 else 1, gm_update (is_waiting_ts_update (\<lambda>_. 0)) s) }
            else Some (0, s)))"

text \<open>Sleeping until the device's slot comes round; all sums are 32 bit.\<close>

definition SYSTME_STARTUP_TIME :: u32 where "SYSTME_STARTUP_TIME = 120000"

definition uc_gateway_enter_sync_paging_by_time_slot :: "env \<Rightarrow> gw \<Rightarrow> gw option" where
  "uc_gateway_enter_sync_paging_by_time_slot e s =
     do { let gw_info = e_gateway_info e (hist s);
          let (uart, log, sel) = e_uboot_log e (hist s);
          let s = emit (C_boot (B_set_uboot_wait_sec 0)) (emit (C_boot (B_set_uboot_log uart 1 0)) s);
          let (cur_fn, s) = ask Q_frame_num (e_frame_num e) s;
          let frame_len = e_frame_len e (hist s);
          let pof = gwi_pof gw_info;
          let ts_fn = (ucast (gwi_ts_fn gw_info) :: u32);
          let (cur_dfe, s) = ask Q_rf_cnt (e_rf_cnt e) s;
          let three_subf_len = e_subframe_len e (hist s) * 3;
          guard (pof \<noteq> 0);
          let (valid, s) = ask Q_frame_valid (e_frame_valid e) s;
          let cur_fn = (if valid then (cur_fn + pof - ts_fn) mod pof else cur_fn mod pof);
          let ((is_valid, frame_head), s) = ask Q_frame_head (e_frame_head e) s;
          if \<not> is_valid then Some s
          else do {
            let startup_time = SYSTME_STARTUP_TIME + three_subf_len + (cur_dfe - frame_head);
            let total_fn_time = (pof - cur_fn) * frame_len;
            if total_fn_time > startup_time + (frame_len + frame_len div 2)
            then do { let sleep_period = total_fn_time - startup_time;
                      let timeout_max = (sleep_period - 1) div 44000000 + 1;
                      let period = sleep_period div timeout_max;
                      Some (emit (C_setup (S_sync_paging_enter 1 period 0 timeout_max)) s) }
            else Some s } }"

section \<open>Sending a command\<close>

definition block_ptr :: "block option \<Rightarrow> ptr option" where
  "block_ptr = map_option fst"

definition wiota_send :: "env \<Rightarrow> u8 list \<Rightarrow> u32 \<Rightarrow> gw \<Rightarrow> op_result \<times> gw" where
  "wiota_send e bs timeout s =
     (let s = emit (C_wiota (W_send_data bs (word_of_nat (length bs)) (ucast timeout))) s
      in (e_send_data e (hist s), s))"

text \<open>A coded packet is sent in the time slot of the device and its block is freed.\<close>

definition transmit :: "env \<Rightarrow> block option \<Rightarrow> u32 \<Rightarrow> gw \<Rightarrow> (op_result \<times> gw) option" where
  "transmit e blk timeout s =
     do { (p, mem, n) \<leftarrow> blk;
          (w, s) \<leftarrow> uc_wiota_gateway_wait_send_time_slot e s;
          let (send_result, s) = (if w = 0 then wiota_send e (take n mem) timeout s else (UC_OP_FAIL, s));
          Some (send_result, rt_free (Some p) s) }"

definition uc_wiota_gateway_send_ps_cmd_data ::
  "env \<Rightarrow> u8 list \<Rightarrow> app_ps_header \<Rightarrow> gw \<Rightarrow> (int \<times> gw) option" where
  "uc_wiota_gateway_send_ps_cmd_data e data ps_header s =
     do { (ret, blk, ps_header, s) \<leftarrow> app_data_coding e ps_header (Some data) (length data) s;
          if ret \<noteq> 0 then Some (0, s)
          else if e_state e (hist s) \<noteq> UC_STATUS_SYNC
          then Some (0, rt_free (block_ptr blk) (emit (C_query Q_state) s))
          else do { (send_result, s) \<leftarrow> transmit e blk 60000 (emit (C_query Q_state) s);
                    Some (if send_result \<noteq> UC_OP_SUCC then 0 else 1, s) } }"

text \<open>With verification on, a message names the gateway it is meant for.\<close>

definition dest_header :: "env \<Rightarrow> gw \<Rightarrow> app_ps_header \<Rightarrow> app_ps_header" where
  "dest_header e s h =
     (if uc_wiota_gateway_get_verity s \<noteq> 0
      then h\<lparr>property := app_set_header_property (bit_of PRO_DEST_ADDR) 1 (property h),
             dest_addr := uc_wiota_get_gateway_id e s\<rparr>
      else h)"

section \<open>Identity and authentication\<close>

definition uc_gateway_get_random :: "env \<Rightarrow> gw \<Rightarrow> u32 \<times> gw" where
  "uc_gateway_get_random e s =
     (let ptr = 0x1a107080;
          s = emit (C_os (O_reg_write 0x1a10a02c (e_reg e (hist s) 0x1a10a02c AND NOT 16))) s;
          s = emit (C_query Q_reg) s;
          s = emit (C_query Q_reg) s;
          s = emit (C_query Q_reg) s;
          random_num = e_reg e (hist s) ptr;
          s = emit (C_query Q_reg) s;
          random_num = (if sint random_num < 0 then NOT random_num + 1 else random_num);
          s = emit (C_os (O_reg_write 0x1a10a02c (e_reg e (hist s) 0x1a10a02c OR 16))) s
      in (random_num, s))"

text \<open>
  The random identifier of a device without a serial number is overwritten by the stored user id
  before it is used, and the invalid serial number is then stored.
\<close>

definition delay_frame :: "env \<Rightarrow> gw \<Rightarrow> gw" where
  "delay_frame e s = emit (C_os (O_thread_delay (unat (e_frame_len e (hist s)) div 1000 + 2))) s"

definition uc_wiota_gateway_set_id :: "env \<Rightarrow> gw \<Rightarrow> (int \<times> gw) option" where
  "uc_wiota_gateway_set_id e s =
     do { dev_id \<leftarrow> uc_wiota_gateway_get_dev_address e s;
          let s = (if dev_id = 0 \<or> dev_id = NOT 0
                   then snd (uc_gateway_get_random e (snd (uc_gateway_get_random e (snd (uc_gateway_get_random e s)))))
                   else s);
          let userid = e_userid e (hist s);
          Some (0, if dev_id \<noteq> userid then delay_frame e (emit (C_wiota (W_set_userid dev_id 4)) s) else s) }"

definition auth_req_bytes :: "gw \<Rightarrow> u8 list option" where
  "auth_req_bytes s =
     do { n \<leftarrow> rt_strlen (auth_code (gm s));
          d \<leftarrow> rt_strncpy (replicate 28 0) 4 (auth_code (gm s)) n;
          rt_strncpy d 20 (gw_freq_list s) 8 }"

definition uc_wiota_gateway_send_auth_req :: "env \<Rightarrow> gw \<Rightarrow> (int \<times> gw) option" where
  "uc_wiota_gateway_send_auth_req e s =
     do { (_, s) \<leftarrow> uc_wiota_gateway_set_id e s;
          d \<leftarrow> auth_req_bytes s;
          src \<leftarrow> uc_wiota_gateway_get_dev_address e s;
          let h = zero_header\<lparr>property := app_set_header_property (bit_of PRO_SRC_ADDR) 1 0,
                              src_addr := src, cmd_type := 1\<rparr>;
          s \<leftarrow> uc_wiota_gateway_calc_auth_time_slot_fn e s;
          uc_wiota_gateway_send_ps_cmd_data e d h s }"

section \<open>Other uplink messages\<close>

definition uc_wiota_gateway_version_msg :: "env \<Rightarrow> gw \<Rightarrow> (int \<times> gw) option" where
  "uc_wiota_gateway_version_msg e s =
     (if wiota_gw_connect_flag s = UC_GW_CONNECT_SUCESS then
        do { dev_id \<leftarrow> uc_wiota_gateway_get_dev_address e s;
             v \<leftarrow> get_version e s;
             uc_wiota_gateway_send_ps_cmd_data e (put32 dev_id @ v)
               (dest_header e s (zero_header\<lparr>cmd_type := 151\<rparr>)) s }
      else Some (0, s))"

definition uc_wiota_gateway_send_ota_req_msg :: "env \<Rightarrow> gw \<Rightarrow> (int \<times> gw) option" where
  "uc_wiota_gateway_send_ota_req_msg e s =
     (if wiota_gw_connect_flag s = UC_GW_CONNECT_SUCESS then
        do { v \<leftarrow> get_version e s;
             n \<leftarrow> rt_strlen v;
             d \<leftarrow> rt_strncpy (replicate 44 0) 0 v n;
             d \<leftarrow> wr d 16 (e_hardware_ver e (hist s));
             n \<leftarrow> rt_strlen (device_type (gm s));
             d \<leftarrow> rt_strncpy d 32 (device_type (gm s)) n;
             uc_wiota_gateway_send_ps_cmd_data e d (dest_header e s (zero_header\<lparr>cmd_type := 10\<rparr>)) s }
      else Some (0, s))"

definition uc_wiota_gateway_ota_req :: "env \<Rightarrow> gw \<Rightarrow> (int \<times> gw) option" where
  "uc_wiota_gateway_ota_req e s =
     (if gateway_mode (gm s) \<noteq> 0 then uc_wiota_gateway_send_ota_req_msg e s else Some (0, s))"

definition uc_wiota_gateway_state_update_info_msg :: "env \<Rightarrow> gw \<Rightarrow> (int \<times> gw) option" where
  "uc_wiota_gateway_state_update_info_msg e s =
     (if wiota_gw_connect_flag s = UC_GW_CONNECT_SUCESS then
        do { let radio = e_radio_info e (hist s);
             d \<leftarrow> rt_strncpy (replicate 36 0) 0 (cstr ''iote'') 4;
             d \<leftarrow> wr d 12 (e_version e (hist s));
             d \<leftarrow> wr d 28 [e_freq_info e (hist s), ri_rssi radio, ri_snr radio, ri_cur_power radio,
                           ri_min_power radio, ri_max_power radio, ri_cur_mcs radio, ri_max_mcs radio];
             uc_wiota_gateway_send_ps_cmd_data e d (dest_header e s (zero_header\<lparr>cmd_type := 20\<rparr>)) s }
      else Some (0, s))"

definition GATEWAY_SEND_MAX_LEN :: nat where "GATEWAY_SEND_MAX_LEN = 300"

definition user_data_header :: "env \<Rightarrow> gw \<Rightarrow> app_ps_header" where
  "user_data_header e s =
     (let h = dest_header e s (zero_header\<lparr>cmd_type := 100\<rparr>)
      in h\<lparr>property := app_set_header_property (bit_of PRO_COMPRESS_FLAG) 1 (property h)\<rparr>)"

definition uc_wiota_gateway_send_data :: "env \<Rightarrow> u8 list option \<Rightarrow> nat \<Rightarrow> u32 \<Rightarrow> gw \<Rightarrow> (int \<times> gw) option" where
  "uc_wiota_gateway_send_data e data data_len timeout s =
     (if data_len > GATEWAY_SEND_MAX_LEN \<or> data_len = 0 then Some (0, s)
      else if is_force_active (gm s) = 0 \<and> e_state e (hist s) \<noteq> UC_STATUS_SYNC
      then Some (0, emit (C_query Q_state) s)
      else
        (let s = (if is_force_active (gm s) = 0 then emit (C_query Q_state) s else s)
         in if uc_wiota_gateway_get_state s \<noteq> GATEWAY_NORMAL \<or> ota_state (gm s) = GATEWAY_OTA_PROGRAM
            then Some (0, s)
            else if wiota_gw_connect_flag s = UC_GW_CONNECT_SUCESS then
              do { (ret, blk, h, s) \<leftarrow> app_data_coding e (user_data_header e s) data data_len s;
                   if ret \<noteq> 0 then Some (0, s)
                   else do { (send_result, s) \<leftarrow> transmit e blk timeout s;
                             Some (if send_result = UC_OP_SUCC then 1 else 0, s) } }
            else Some (0, s)))"

text \<open>
  Asking for the time: the semaphore is awaited for at most 3000 ticks, while the gateway task
  may deliver the answer; the callback is withdrawn in every case.
\<close>

definition await_rtc :: "env \<Rightarrow> u32 \<Rightarrow> nat option \<Rightarrow> gw \<Rightarrow> (int \<times> gw) option" where
  "await_rtc e fmt get_rtc s =
     do { let s = emit (C_ipc I_sem_create) (snd (uc_wiota_gateway_register_get_rtc_cb fmt get_rtc s));
          guard (e_sem_create e (hist s));
          let s = emit (C_ipc (I_sem_take 3000)) (s\<lparr>rtc_sem := True\<rparr>);
          Some (if e_sem_take e (hist s) then 0 else 2, s) }"

definition end_rtc :: "gw \<Rightarrow> gw" where
  "end_rtc s =
     (let s = snd (uc_wiota_gateway_register_get_rtc_cb 0xff None s)
      in if rtc_sem s then (emit (C_ipc I_sem_delete) s)\<lparr>rtc_sem := False\<rparr> else s)"

definition uc_wiota_gateway_get_rtc :: "env \<Rightarrow> u32 \<Rightarrow> nat option \<Rightarrow> gw \<Rightarrow> (int \<times> gw) option" where
  "uc_wiota_gateway_get_rtc e fmt get_rtc s =
     (if wiota_gw_connect_flag s \<noteq> UC_GW_CONNECT_SUCESS then Some (1, s)
      else
        do { (sent, s) \<leftarrow> uc_wiota_gateway_send_ps_cmd_data e [0] (dest_header e s (zero_header\<lparr>cmd_type := 21\<rparr>)) s;
             (ret, s) \<leftarrow> (if sent \<noteq> 0 then await_rtc e fmt get_rtc s else Some (0, s));
             Some (ret, end_rtc s) })"

end
