(* ===== verification/GatewayOta.thy ===== *)
theory GatewayOta
  imports GatewaySend
begin

text \<open>
  Firmware updates over the air: which device an update is for, the blocks of the image and the map
  of those that have arrived, the check of the complete image, the requests for missing blocks.

  A message is the memory of the block that \<open>app_data_decoding\<close> returned; its fields are read at
  the offsets of the structures in \<^verbatim>\<open>uc_coding.h\<close>, and a read behind the block is a fault. None of
  the handlers looks at the length of the message.
\<close>

section \<open>Fields of the update request\<close>

definition req_upgrade_type :: "u8 list \<Rightarrow> u32 option" where "req_upgrade_type m = rd32 m 0"
definition req_upgrade_range :: "u8 list \<Rightarrow> u32 option" where "req_upgrade_range m = rd32 m 4"
definition req_new_version :: "u8 list \<Rightarrow> u8 list" where "req_new_version m = drop 40 m"
definition req_old_version :: "u8 list \<Rightarrow> u8 list" where "req_old_version m = drop 56 m"
definition req_md5 :: "u8 list \<Rightarrow> u8 list" where "req_md5 m = drop 72 m"
definition req_file_size :: "u8 list \<Rightarrow> u32 option" where "req_file_size m = rd32 m 108"
definition req_upgrade_time :: "u8 list \<Rightarrow> u32 option" where "req_upgrade_time m = rd32 m 112"
definition req_device_type :: "u8 list \<Rightarrow> u8 list" where "req_device_type m = drop 116 m"
definition req_data_offset :: "u8 list \<Rightarrow> u32 option" where "req_data_offset m = rd32 m 128"
definition req_data_length :: "u8 list \<Rightarrow> u16 option" where "req_data_length m = rd16 m 132"
definition req_packet_type :: "u8 list \<Rightarrow> u16 option" where "req_packet_type m = rd16 m 134"
definition req_mcs_len :: "u8 list \<Rightarrow> u16 option" where "req_mcs_len m = rd16 m 136"
definition req_upgrade_num :: "u8 list \<Rightarrow> u16 option" where "req_upgrade_num m = rd16 m 138"
definition req_data :: "u8 list \<Rightarrow> u8 list" where "req_data m = drop 140 m"

lemmas req_defs =
  req_upgrade_type_def req_upgrade_range_def req_new_version_def req_old_version_def req_md5_def
  req_file_size_def req_upgrade_time_def req_device_type_def req_data_offset_def req_data_length_def
  req_packet_type_def req_mcs_len_def req_upgrade_num_def req_data_def

text \<open>The search of a device address in an \<^verbatim>\<open>iote_list\<close> of \<open>n\<close> words.\<close>

fun find_iote :: "u8 list \<Rightarrow> nat \<Rightarrow> nat \<Rightarrow> u32 \<Rightarrow> bool option" where
  "find_iote m off 0 a = Some False"
| "find_iote m off (Suc n) a =
     do { x \<leftarrow> rd32 m off; if a = x then Some True else find_iote m (off + 4) n a }"

text \<open>\<^verbatim>\<open>0 == rt_strncmp(a, b, rt_strlen(b))\<close>: does \<open>a\<close> begin with the string \<open>b\<close>?\<close>

definition begins_with :: "u8 list \<Rightarrow> u8 list \<Rightarrow> bool option" where
  "begins_with a b = do { n \<leftarrow> rt_strlen b; rt_strncmp_eq a b n }"

definition EXTERN_MCU :: "u8 list" where "EXTERN_MCU = cstr ''ex_mcu''"

section \<open>The map of received blocks\<close>

definition map_bit :: "u8 list \<Rightarrow> nat \<Rightarrow> bool option" where
  "map_bit mm i = do { b \<leftarrow> rd mm (i div 8); Some (bit b (i mod 8)) }"

definition set_map_bit :: "u8 list \<Rightarrow> nat \<Rightarrow> u8 list option" where
  "set_map_bit mm i =
     do { b \<leftarrow> rd mm (i div 8); Some (mm[i div 8 := b OR push_bit (i mod 8) 1]) }"

fun count_set :: "u8 list \<Rightarrow> nat \<Rightarrow> nat \<Rightarrow> nat \<Rightarrow> nat option" where
  "count_set mm i 0 k = Some k"
| "count_set mm i (Suc n) k =
     do { b \<leftarrow> map_bit mm i; count_set mm (i + 1) n (if b then k + 1 else k) }"

definition uc_wiota_gateway_whether_the_ota_upgrade_data_is_recved :: "gw \<Rightarrow> bool option" where
  "uc_wiota_gateway_whether_the_ota_upgrade_data_is_recved s =
     do { k \<leftarrow> count_set (mask_map (gm s)) 0 (unat (block_count (gm s))) 0;
          Some (k \<ge> unat (block_count (gm s))) }"

section \<open>Is the update for this device?\<close>

definition in_upgrade_range :: "env \<Rightarrow> u8 list \<Rightarrow> gw \<Rightarrow> (bool \<times> gw) option" where
  "in_upgrade_range e m s =
     do { dev_address \<leftarrow> uc_wiota_gateway_get_dev_address e s;
          range \<leftarrow> req_upgrade_range m;
          if range = 1 then
            do { found \<leftarrow> find_iote m 8 8 dev_address;
                 Some (found, if found \<and> ota_state (gm s) = GATEWAY_OTA_STOP
                              then gm_update (ota_state_update (\<lambda>_. GATEWAY_OTA_DEFAULT)) s else s) }
          else Some (range = 0 \<and> ota_state (gm s) \<noteq> GATEWAY_OTA_STOP, s) }"

definition matches_device :: "env \<Rightarrow> u8 list \<Rightarrow> gw \<Rightarrow> bool option" where
  "matches_device e m s =
     do { version \<leftarrow> get_version e s;
          v \<leftarrow> begins_with version (req_old_version m);
          if v then begins_with (device_type (gm s)) (req_device_type m) else Some False }"

definition upgrade_decision :: "bool \<Rightarrow> u16 \<Rightarrow> u16 \<Rightarrow> gw \<Rightarrow> bool \<times> gw" where
  "upgrade_decision is_ex_mcu num packet_type s =
     (case ota_state (gm s) of
        GATEWAY_OTA_DEFAULT \<Rightarrow>
          (if (if is_ex_mcu then ota_dl_state (gm s) = 0
               else upgrade_num (gm s) = 0 \<and> packet_type = 0)
           then (True, gm_update (upgrade_num_update (\<lambda>_. num)) s)
           else (False, s))
      | GATEWAY_OTA_DOWNLOAD \<Rightarrow>
          (True, if upgrade_num (gm s) \<noteq> num
                 then gm_update (upgrade_num_update (\<lambda>_. num)) (uc_gateway_clear_state s)
                 else s)
      | _ \<Rightarrow> (False, s))"

definition uc_wiota_gateway_check_if_upgrade_required ::
  "env \<Rightarrow> u8 list \<Rightarrow> bool \<Rightarrow> gw \<Rightarrow> (bool \<times> gw) option" where
  "uc_wiota_gateway_check_if_upgrade_required e m is_ex_mcu s =
     do { (in_range, s) \<leftarrow> in_upgrade_range e m s;
          for_us \<leftarrow> (if \<not> in_range then Some False
                     else if is_ex_mcu then Some True else matches_device e m s);
          num \<leftarrow> req_upgrade_num m;
          packet_type \<leftarrow> req_packet_type m;
          Some (if for_us then upgrade_decision is_ex_mcu num packet_type s else (False, s)) }"

section \<open>Receiving the image\<close>

text \<open>Where the image goes and how much room there is: an update for an external controller may
  also use the reserved partition.\<close>

definition ota_target :: "env \<Rightarrow> bool \<Rightarrow> gw \<Rightarrow> u32 \<times> u32" where
  "ota_target e is_ex_mcu s =
     (let (bin_size, reserved_size, ota_size) = e_partition_size e (hist s)
      in if is_ex_mcu then (bin_size, ota_size + reserved_size)
         else (bin_size + reserved_size, ota_size))"

definition is_ex_mcu_req :: "u8 list \<Rightarrow> bool option" where
  "is_ex_mcu_req m = rt_memcmp_eq (req_device_type m) EXTERN_MCU 6"

text \<open>The number of blocks of an image; C divides signed numbers towards zero.\<close>

definition blocks_of :: "u32 \<Rightarrow> u32" where
  "blocks_of file_size =
     word_of_int (sint file_size sdiv 512) + (if sint file_size smod 512 \<noteq> 0 then 1 else 0)"

definition ota_begin :: "env \<Rightarrow> u8 list \<Rightarrow> u32 \<Rightarrow> u32 \<Rightarrow> gw \<Rightarrow> gw option" where
  "ota_begin e m file_size write_addr s =
     do { mcs \<leftarrow> req_mcs_len m;
          let s = gm_update (\<lambda>g. g\<lparr>mcs_len := mcs, block_size := word_of_nat GATEWAY_OTA_BLOCK_SIZE,
                                   block_count := blocks_of file_size\<rparr>) s;
          s \<leftarrow> uc_wiota_ota_flash_erase e write_addr file_size s;
          utype \<leftarrow> req_upgrade_type m;
          let s = gm_update (\<lambda>g. g\<lparr>bin_addr := write_addr, ota_state := GATEWAY_OTA_DOWNLOAD,
                                   ota_dl_state := 1, upgrade_type := ucast utype\<rparr>) s;
          n \<leftarrow> rt_strlen (req_new_version m);
          v \<leftarrow> rt_strncpy (new_version (gm s)) 0 (req_new_version m) n;
          let s = gm_update (new_version_update (\<lambda>_. v)) s;
          time \<leftarrow> req_upgrade_time m;
          call_report GATEWAY_OTA_UPGRADE (uc_gateway_control_ota_timer time s) }"

definition block_of :: "u32 \<Rightarrow> nat" where
  "block_of data_offset = unat (word_of_int (sint data_offset sdiv 512) :: u32)"

definition ota_store_block :: "env \<Rightarrow> u8 list \<Rightarrow> u32 \<Rightarrow> gw \<Rightarrow> gw option" where
  "ota_store_block e m write_addr s =
     do { data_offset \<leftarrow> req_data_offset m;
          let offset = block_of data_offset;
          got \<leftarrow> map_bit (mask_map (gm s)) offset;
          if got then Some s
          else do {
            len \<leftarrow> req_data_length m;
            s \<leftarrow> uc_wiota_ota_flash_write e (req_data m) (unat (write_addr + data_offset)) (unat len) s;
            mm \<leftarrow> set_map_bit (mask_map (gm s)) offset;
            Some (gm_update (\<lambda>g. g\<lparr>mask_map := mm, ota_recved_len := ota_recved_len g + ucast len\<rparr>) s) } }"

text \<open>A verified image: this device reboots into it, or the external controller is told.\<close>

definition ota_program :: "u8 list \<Rightarrow> u32 \<Rightarrow> gw \<Rightarrow> gw option" where
  "ota_program m file_size s =
     do { let s = gm_update (ota_state_update (\<lambda>_. GATEWAY_OTA_PROGRAM))
                    (s\<lparr>wiota_gw_connect_flag := UC_GW_DISCONNECT\<rparr>);
          s \<leftarrow> call_report GATEWAY_OTA_PROGRAMING s;
          utype \<leftarrow> req_upgrade_type m;
          Some (uc_wiota_ota_jump_program file_size (ucast utype) (emit (C_os (O_thread_mdelay 100)) s)) }"

definition ota_hand_over :: "u8 list \<Rightarrow> u32 \<Rightarrow> u32 \<Rightarrow> gw \<Rightarrow> gw option" where
  "ota_hand_over m file_size write_addr s =
     do { let s = gm_update (\<lambda>g. g\<lparr>ota_state := GATEWAY_OTA_DEFAULT, mask_map := replicate 28 0\<rparr>) s;
          md5 \<leftarrow> rdn (req_md5 m) 0 36;
          Some (case ex_mcu s of
              None \<Rightarrow> s
            | Some cb \<Rightarrow> emit (C_cb (U_ex_mcu cb write_addr file_size md5)) s) }"

definition ota_complete :: "env \<Rightarrow> u8 list \<Rightarrow> u32 \<Rightarrow> u32 \<Rightarrow> gw \<Rightarrow> gw option" where
  "ota_complete e m file_size write_addr s =
     do { (rc, s) \<leftarrow> uc_wiota_ota_check_flash_data e (unat write_addr) (unat file_size) (req_md5 m)
                       (uc_gateway_stop_ota_timer s);
          if rc \<noteq> 0 then Some (uc_gateway_clear_state s)
          else do {
            let s = gm_update (\<lambda>g. g\<lparr>ota_dl_state := 2, ota_recved_len := file_size, upgrade_num := 0\<rparr>) s;
            ex \<leftarrow> is_ex_mcu_req m;
            if \<not> ex then ota_program m file_size s else ota_hand_over m file_size write_addr s } }"

definition uc_wiota_gateway_ota_upgrade_res_msg :: "env \<Rightarrow> u8 list option \<Rightarrow> gw \<Rightarrow> gw option" where
  "uc_wiota_gateway_ota_upgrade_res_msg e data s =
     do { m \<leftarrow> data;
          file_size \<leftarrow> req_file_size m;
          ex \<leftarrow> is_ex_mcu_req m;
          let s = (if ex then gm_update (ota_dev_type_update (\<lambda>_. 1)) s else s);
          let (write_addr, max_size) = ota_target e ex s;
          if sint max_size < sint file_size then Some s
          else do {
            let s = gm_update (miss_data_invalid_req_update (\<lambda>_. 0)) s;
            (required, s) \<leftarrow> uc_wiota_gateway_check_if_upgrade_required e m ex s;
            if \<not> required then Some s
            else do {
              s \<leftarrow> (if ota_state (gm s) = GATEWAY_OTA_DEFAULT then ota_begin e m file_size write_addr s
                    else Some s);
              if ota_state (gm s) = GATEWAY_OTA_DOWNLOAD
              then do { s \<leftarrow> ota_store_block e m write_addr s;
                        recved \<leftarrow> uc_wiota_gateway_whether_the_ota_upgrade_data_is_recved s;
                        if recved then ota_complete e m file_size write_addr s else Some s }
              else Some s } } }"

section \<open>Stopping and the state of an update\<close>

definition uc_wiota_gateway_ota_upgrade_stop_msg :: "env \<Rightarrow> u8 list option \<Rightarrow> gw \<Rightarrow> gw option" where
  "uc_wiota_gateway_ota_upgrade_stop_msg e data s =
     do { dev_address \<leftarrow> uc_wiota_gateway_get_dev_address e s;
          m \<leftarrow> data;
          found \<leftarrow> find_iote m 0 16 dev_address;
          Some (if found
                then gm_update (ota_state_update (\<lambda>_. GATEWAY_OTA_STOP))
                       (if ota_state (gm s) = GATEWAY_OTA_DOWNLOAD then uc_gateway_stop_ota_timer s else s)
                else s) }"

text \<open>Every missing block adds one to a byte that nothing resets.\<close>

fun add_missing :: "u8 list \<Rightarrow> nat \<Rightarrow> nat \<Rightarrow> u8 \<Rightarrow> u8 option" where
  "add_missing mm i 0 k = Some k"
| "add_missing mm i (Suc n) k =
     do { b \<leftarrow> map_bit mm i; add_missing mm (i + 1) n (if b then k else k + 1) }"

definition state_msg_matches :: "env \<Rightarrow> u8 list \<Rightarrow> gw \<Rightarrow> bool option" where
  "state_msg_matches e m s =
     do { version \<leftarrow> get_version e s;
          a \<leftarrow> begins_with (drop 20 m) version;
          if \<not> a then Some False else do {
          b \<leftarrow> begins_with (drop 4 m) (new_version (gm s));
          if \<not> b then Some False else do {
          c \<leftarrow> begins_with (drop 36 m) (device_type (gm s));
          if \<not> c then Some False else do {
          t \<leftarrow> rd32 m 0;
          Some (t = ucast (upgrade_type (gm s))) } } } }"

definition uc_wiota_gateway_ota_upgrade_state_msg :: "env \<Rightarrow> u8 list option \<Rightarrow> gw \<Rightarrow> gw option" where
  "uc_wiota_gateway_ota_upgrade_state_msg e data s =
     do { m \<leftarrow> data;
          ours \<leftarrow> state_msg_matches e m s;
          if \<not> ours then Some s
          else do {
            process_state \<leftarrow> rd32 m 48;
            if process_state = 0 \<and> ota_state (gm s) = GATEWAY_OTA_DOWNLOAD then
              do { k \<leftarrow> add_missing (mask_map (gm s)) 0 (unat (block_count (gm s))) (miss_data_num (gm s));
                   let s = gm_update (miss_data_num_update (\<lambda>_. k)) s;
                   if k > 0
                   then do { t \<leftarrow> uc_gateway_get_miss_data_timeout e s;
                             Some (gm_update (miss_data_invalid_req_update (\<lambda>_. 0))
                                     (uc_gateway_control_ota_timer t s)) }
                   else Some s }
            else Some s } }"

section \<open>Requests for missing blocks\<close>

text \<open>The loop that collects the numbers of missing blocks, at most 15 of them.\<close>

fun collect_missing :: "u8 list \<Rightarrow> nat \<Rightarrow> nat \<Rightarrow> nat list \<Rightarrow> nat list option" where
  "collect_missing mm i 0 acc = Some acc"
| "collect_missing mm i (Suc n) acc =
     do { b \<leftarrow> map_bit mm i;
          if b then collect_missing mm (i + 1) n acc
          else if length acc + 1 = 16 - 1 then Some (acc @ [i])
          else collect_missing mm (i + 1) n (acc @ [i]) }"

definition pad_words :: "u32 list \<Rightarrow> u8 list" where
  "pad_words ws = concat (map put32 ws) @ replicate (64 - 4 * length ws) 0"

definition miss_req_bytes :: "env \<Rightarrow> nat list \<Rightarrow> gw \<Rightarrow> u8 list option" where
  "miss_req_bytes e blocks s =
     do { version \<leftarrow> get_version e s;
          let d = replicate 44 0 @ put32 (ucast (upgrade_type (gm s))) @ put32 (word_of_nat (length blocks))
                    @ pad_words (map (\<lambda>i. word_of_nat (i * GATEWAY_OTA_BLOCK_SIZE)) blocks)
                    @ pad_words (map (\<lambda>_. word_of_nat GATEWAY_OTA_BLOCK_SIZE) blocks);
          n \<leftarrow> rt_strlen (device_type (gm s));
          d \<leftarrow> rt_strncpy d 0 (device_type (gm s)) n;
          n \<leftarrow> rt_strlen (new_version (gm s));
          d \<leftarrow> rt_strncpy d 12 (new_version (gm s)) n;
          n \<leftarrow> rt_strlen version;
          rt_strncpy d 28 version n }"

definition uc_wiota_gateway_ota_miss_data_req_msg :: "env \<Rightarrow> gw \<Rightarrow> gw option" where
  "uc_wiota_gateway_ota_miss_data_req_msg e s =
     (if \<not> miss_data_invalid_req (gm s) < 8 then Some (uc_gateway_stop_ota_timer s)
      else
        do { let s = gm_update (miss_data_invalid_req_update (\<lambda>n. n + 1)) s;
             blocks \<leftarrow> collect_missing (mask_map (gm s)) 0 (unat (block_count (gm s))) [];
             d \<leftarrow> miss_req_bytes e blocks s;
             (sent, s) \<leftarrow> uc_wiota_gateway_send_ps_cmd_data e d (dest_header e s (zero_header\<lparr>cmd_type := 14\<rparr>)) s;
             if sent = 0 then
               (if miss_data_continue_couter s < 3
                then do { t \<leftarrow> uc_gateway_get_miss_data_timeout e s;
                          Some ((uc_gateway_control_ota_timer t s)
                                 \<lparr>miss_data_continue_couter := miss_data_continue_couter s + 1\<rparr>) }
                else Some ((uc_gateway_stop_ota_timer s)\<lparr>miss_data_continue_couter := 0\<rparr>))
             else
               do { t \<leftarrow> uc_gateway_calc_single_otapage_time e s;
                    let timeout = (t + 1) * word_of_nat (length blocks + 1);
                    Some ((uc_gateway_control_ota_timer timeout s)\<lparr>miss_data_continue_couter := 0\<rparr>) } })"

end
