(* ===== verification/GatewayTask.thy ===== *)
theory GatewayTask
  imports GatewayOta
begin

text \<open>
  The control flow of the gateway client: authentication, the dispatch of downlinks, start and end,
  the task that serves the queue, and the transition system of the task, the radio thread, the
  timer and the application.
\<close>

section \<open>Downlink messages\<close>

text \<open>\<^verbatim>\<open>data_len\<close> is the length of the data that the radio thread handed over.\<close>

definition mem_len :: "u8 list option \<Rightarrow> nat" where
  "mem_len data = (case data of None \<Rightarrow> 0 | Some m \<Rightarrow> length m)"

text \<open>
  A granted authentication: the gateway and the time slot are stored, then the identity that the
  gateway assigned, and in the time slot mode the active time is lengthened.
\<close>

definition accept_identity :: "env \<Rightarrow> u32 \<Rightarrow> u16 \<Rightarrow> u32 \<Rightarrow> gw \<Rightarrow> gw" where
  "accept_identity e gw_id time_slot_fn wiota_id s =
     (let gw_info = (e_gateway_info e (hist s))\<lparr>gwi_gw_id := gw_id, gwi_ts_fn := time_slot_fn\<rparr>;
          s = emit (C_wiota (W_set_gateway_info gw_info)) s
      in if wiota_id \<noteq> 0
         then emit (C_wiota W_save_static_info)
                ((delay_frame e (emit (C_wiota (W_set_userid wiota_id 4)) s))\<lparr>uc_gateway_state := GATEWAY_NORMAL\<rparr>)
         else s\<lparr>uc_gateway_state := GATEWAY_NORMAL\<rparr>)"

definition lengthen_active :: "env \<Rightarrow> gw \<Rightarrow> gw" where
  "lengthen_active e s =
     (if is_ts_mode (gm s) \<noteq> 0
      then emit (C_wiota W_hard_switch_to_active) (emit (C_wiota (W_set_active_time 3600))
             (gm_update (active_time_update (\<lambda>_. e_active_time e (hist s))) s))
      else s)"

definition uc_wiota_gateway_auth_res_msg :: "env \<Rightarrow> u8 list option \<Rightarrow> u32 \<Rightarrow> gw \<Rightarrow> gw option" where
  "uc_wiota_gateway_auth_res_msg e data gw_id s =
     do { m \<leftarrow> data;
          state \<leftarrow> rd m 0;
          time_slot_fn \<leftarrow> rd16 m 2;
          wiota_id \<leftarrow> rd32 m 4;
          if state = 0 then
            (if uc_gateway_state s = GATEWAY_NORMAL then Some s
             else
               (let s = lengthen_active e (accept_identity e gw_id time_slot_fn wiota_id (delay_frame e s))
                in Some (report_state (uc_gateway_state s) s)))
          else if state = 1 \<or> state = 2 then
            Some (report_state GATEWAY_FAILED (s\<lparr>uc_gateway_state := GATEWAY_FAILED\<rparr>))
          else if state = 3 then
            Some (report_state (uc_gateway_state s) (emit (C_wiota W_save_static_info) s))
          else if state = 4 then
            do { (_, s) \<leftarrow> uc_wiota_gateway_send_auth_req e s; Some (report_state (uc_gateway_state s) s) }
          else Some (report_state (uc_gateway_state s) s) }"

definition uc_wiota_gateway_recv_dl_msg :: "u8 list \<Rightarrow> bool \<Rightarrow> u8 \<Rightarrow> gw \<Rightarrow> gw" where
  "uc_wiota_gateway_recv_dl_msg bytes response_flag data_type s =
     (if response_flag then s
      else case user_recv s of
        None \<Rightarrow> s
      | Some cb \<Rightarrow> emit (C_cb (U_user_recv cb bytes data_type)) s)"

definition uc_wiota_gateway_recv_rtc_res_msg :: "u8 list option \<Rightarrow> gw \<Rightarrow> gw option" where
  "uc_wiota_gateway_recv_rtc_res_msg data s =
     (case rtc_cb s of
        None \<Rightarrow> Some s
      | Some cb \<Rightarrow>
          if rtc_fmt s = 0xff then Some s
          else do { m \<leftarrow> data;
                    time \<leftarrow> rdn m 0 4;
                    let s = emit (C_cb (U_rtc cb (ucast (rtc_fmt s)) time)) s;
                    Some (if rtc_sem s then emit (C_ipc I_sem_release) s else s) })"

text \<open>The memory of a decoded block, and the bytes of it that count.\<close>

definition block_mem :: "block option \<Rightarrow> u8 list option" where
  "block_mem = map_option (\<lambda>(p, mem, n). mem)"

definition block_bytes :: "block option \<Rightarrow> u8 list" where
  "block_bytes b = (case b of None \<Rightarrow> [] | Some (p, mem, n) \<Rightarrow> take n mem)"

definition block_len :: "block option \<Rightarrow> nat" where
  "block_len b = (case b of None \<Rightarrow> 0 | Some (p, mem, n) \<Rightarrow> n)"

definition dispatch :: "env \<Rightarrow> app_ps_header \<Rightarrow> block option \<Rightarrow> u8 \<Rightarrow> gw \<Rightarrow> gw option" where
  "dispatch e h blk data_type s =
     (let data = block_mem blk; cmd = cmd_type h
      in if cmd = 2 then uc_wiota_gateway_auth_res_msg e data (src_addr h) s
         else if cmd = 11 then uc_wiota_gateway_ota_upgrade_res_msg e data s
         else if cmd = 12 then uc_wiota_gateway_ota_upgrade_stop_msg e data s
         else if cmd = 13 then uc_wiota_gateway_ota_upgrade_state_msg e data s
         else if cmd = 21 then uc_wiota_gateway_recv_rtc_res_msg data s
         else if cmd = 100 then
           Some (uc_wiota_gateway_recv_dl_msg (block_bytes blk) (flag PRO_RESPONSE_FLAG (property h)) data_type s)
         else if cmd = 101 then map_option snd (uc_wiota_gateway_send_data e data (block_len blk) 60000 s)
         else if cmd = 150 then map_option snd (uc_wiota_gateway_version_msg e s)
         else if cmd = 3 then
           do { m \<leftarrow> data; frame_num \<leftarrow> rd32 m 8; Some (emit (C_wiota (W_set_frame_num frame_num)) s) }
         else if cmd = 160 then
           do { m \<leftarrow> data;
                send_time \<leftarrow> rd32 m 0;
                let s = emit (C_wiota W_suspend_connect) s;
                let s = emit (C_os (O_thread_mdelay (unat (send_time + e_frame_len e (hist s) div 1000)))) s;
                Some (emit (C_wiota W_recover_connect) s) }
         else Some s)"

definition uc_wiota_gateway_analisys_dl_msg ::
  "env \<Rightarrow> u8 list option \<Rightarrow> u8 \<Rightarrow> gw \<Rightarrow> gw option" where
  "uc_wiota_gateway_analisys_dl_msg e data data_type s =
     do { (rc, blk, h, s) \<leftarrow> app_data_decoding e data (mem_len data) zero_header s;
          if rc \<noteq> 0 then Some s
          else if uc_wiota_gateway_get_verity s \<noteq> 0 \<and> cmd_type h \<noteq> 2 \<and>
               src_addr h \<noteq> uc_wiota_get_gateway_id e s
          then Some (rt_free (block_ptr blk) s)
          else do { s \<leftarrow> dispatch e h blk data_type s; Some (rt_free (block_ptr blk) s) } }"

section \<open>Authentication\<close>

datatype uc_gatway_mode =
  UC_GATEWAY_MODE | UC_TRANSMISSION_MODE | UC_GATEWAY_TIME_SLOT_MODE | UC_OTHER_MODE

text \<open>The broadcast that describes the time slots; only the first one counts.\<close>

definition handle_ts_info :: "env \<Rightarrow> u8 list option \<Rightarrow> gw \<Rightarrow> gw option" where
  "handle_ts_info e data s =
     do { m \<leftarrow> data;
          frame_num \<leftarrow> rd32 m 8;
          let s = emit (C_wiota (W_set_frame_num frame_num)) s;
          pof \<leftarrow> rd32 m 0;
          period \<leftarrow> rd m 4;
          resend \<leftarrow> rd m 5;
          mcs \<leftarrow> rd m 6;
          let gw_info = (e_gateway_info e (hist s))\<lparr>gwi_pof := pof, gwi_resend_times := resend, gwi_ul_mcs := mcs\<rparr>;
          let s = emit (C_wiota (W_set_gateway_info gw_info)) s;
          let s = uc_wiota_gateway_set_auth_period period s;
          let s = emit (C_wiota (W_set_sm_resend_times resend)) s;
          Some (emit (C_wiota (W_set_data_rate 0 mcs)) s) }"

text \<open>
  The outcome of one message of the authentication loop: return a code, leave the loop, or go on
  with a new deadline and time slot state. \<open>None\<close> as the value of the loop is a fault or a
  loop that does not end.
\<close>

datatype auth_next = Auth_return int | Auth_break | Auth_go u32 u32 u8

definition auth_message ::
  "env \<Rightarrow> uc_gatway_mode \<Rightarrow> ptr \<Rightarrow> (ptr \<times> u8 list) option \<Rightarrow> u32 \<Rightarrow> u32 \<Rightarrow> u8 \<Rightarrow> gw
     \<Rightarrow> (auth_next \<times> gw) option" where
  "auth_message e mode buf data remember timeout ts s =
     do { (rc, blk, h, s) \<leftarrow> app_data_decoding e (map_option snd data) (mem_len (map_option snd data)) zero_header s;
          if rc \<noteq> 0 then Some (Auth_return 3, s)
          else do {
            (is_res, ts, s) \<leftarrow>
              (if cmd_type h = 2
               then do { s \<leftarrow> uc_wiota_gateway_auth_res_msg e (block_mem blk) (src_addr h) s; Some (True, ts, s) }
               else if cmd_type h = 3 \<and> mode = UC_GATEWAY_TIME_SLOT_MODE \<and> ts = 0
               then do { s \<leftarrow> handle_ts_info e (block_mem blk) s; Some (False, 1, s) }
               else Some (False, ts, s));
            let s = rt_free (Some buf) (rt_free (map_option fst data) (rt_free (block_ptr blk) s));
            if is_res then Some (Auth_break, s)
            else if ts = 1 then
              do { (sent, s) \<leftarrow> uc_wiota_gateway_send_auth_req e s;
                   if sent = 0 then Some (Auth_return 1, s)
                   else (let (now, s) = ask Q_tick (e_tick e) s in Some (Auth_go now 6000 0xff, s)) }
            else Some (Auth_go remember timeout ts, s) } }"

definition auth_verdict :: "gw \<Rightarrow> int" where
  "auth_verdict s = (if uc_gateway_state s \<noteq> GATEWAY_NORMAL then 4 else 0)"

partial_function (option) auth_loop ::
  "env \<Rightarrow> uc_gatway_mode \<Rightarrow> u32 \<Rightarrow> u32 \<Rightarrow> u8 \<Rightarrow> gw \<Rightarrow> (int \<times> gw) option" where
  "auth_loop e mode remember timeout ts s =
     (case ask Q_tick (e_tick e) s of (now, s) \<Rightarrow>
        if now - remember < timeout then
          do { (r, m, s) \<leftarrow> uc_wiota_gateway_recv_queue e (uint timeout) s;
               if r \<noteq> RT_EOK then Some (2, s)
               else (case m of
                  Some (Dl_msg buf data type) \<Rightarrow>
                    do { (nxt, s) \<leftarrow> auth_message e mode buf data remember timeout ts s;
                         (case nxt of
                            Auth_return c \<Rightarrow> Some (c, s)
                          | Auth_break \<Rightarrow> Some (auth_verdict s, s)
                          | Auth_go remember timeout ts \<Rightarrow> auth_loop e mode remember timeout ts s) }
                | _ \<Rightarrow> auth_loop e mode remember timeout ts s) }
        else Some (auth_verdict s, s))"

declare auth_loop.simps [code]

definition uc_wiota_gateway_auth :: "env \<Rightarrow> uc_gatway_mode \<Rightarrow> gw \<Rightarrow> (int \<times> gw) option" where
  "uc_wiota_gateway_auth e mode s =
     do { (ok, timeout, s) \<leftarrow>
            (if mode = UC_GATEWAY_MODE
             then do { (sent, s) \<leftarrow> uc_wiota_gateway_send_auth_req e s; Some (sent \<noteq> 0, 6000, s) }
             else Some (True, 10000, s));
          if \<not> ok then Some (1, s)
          else (let (now, s) = ask Q_tick (e_tick e) s in auth_loop e mode now timeout 0 s) }"

section \<open>Start\<close>

definition uc_wiota_gw_task :: "env \<Rightarrow> gw \<Rightarrow> int \<times> gw" where
  "uc_wiota_gw_task e s =
     (if \<not> e_auto_connect e (hist s) then
        (let s = emit (C_os O_thread_create) s; ok = e_thread_create e (hist s);
             s = gm_update (gateway_handler_update (\<lambda>_. ok)) s
         in if ok then (0, emit (C_os O_thread_startup) s) else (7, s))
      else (0, emit (C_os (O_thread_delay 1)) (uc_wiota_gateway_set_allow_run_flag 1 s)))"

text \<open>
  The attempts to authenticate: \<open>None\<close> when the synchronisation is lost, otherwise what is left
  of the counter, which has been decremented before the attempt that succeeded.
\<close>

fun auth_attempts :: "env \<Rightarrow> uc_gatway_mode \<Rightarrow> nat \<Rightarrow> gw \<Rightarrow> (nat option \<times> gw) option" where
  "auth_attempts e mode 0 s = Some (Some 0, s)"
| "auth_attempts e mode (Suc n) s =
     (case ask Q_state (e_state e) s of (st, s) \<Rightarrow>
        if st \<noteq> UC_STATUS_SYNC then Some (None, s)
        else do { (r, s) \<leftarrow> uc_wiota_gateway_auth e mode s;
                  if r = 0 then Some (Some n, s) else auth_attempts e mode n s })"

definition start_init :: "env \<Rightarrow> u8 list \<Rightarrow> gw \<Rightarrow> gw option" where
  "start_init e auth_key s =
     do { let g = zero_mode\<lparr>gw_verity := gw_verity (gm s), is_force_active := is_force_active (gm s)\<rparr>;
          n \<leftarrow> rt_strlen auth_key;
          code \<leftarrow> rt_strncpy (auth_code g) 0 auth_key n;
          dev \<leftarrow> rt_strncpy (device_type g) 0 (cstr ''iote'') 4;
          Some (s\<lparr>gm := g\<lparr>auth_code := code, device_type := dev, gateway_mode := 1\<rparr>\<rparr>) }"

definition start_radio :: "env \<Rightarrow> uc_gatway_mode \<Rightarrow> gw \<Rightarrow> gw option" where
  "start_radio e mode s =
     do { let s = emit (C_setup (S_set_crc 1)) s;
          s \<leftarrow> (if mode = UC_GATEWAY_TIME_SLOT_MODE
                then do { let s = emit (C_ipc I_sem_create) (gm_update (is_ts_mode_update (\<lambda>_. 1))
                                    (emit (C_setup (S_set_is_report_fn 1)) s));
                          guard (e_sem_create e (hist s));
                          Some (gm_update (fn_refresh_sem_update (\<lambda>_. True)) s) }
                else Some s);
          Some ((emit (C_setup (S_register_recv_cb CB_gateway_recv)) s)
                  \<lparr>recv_cb := CB_gateway_recv, wiota_gw_connect_flag := UC_GW_ATTEMPT_CONNECT\<rparr>) }"

definition start_finish ::
  "env \<Rightarrow> uc_gatway_mode \<Rightarrow> bool \<Rightarrow> u8 list option \<Rightarrow> gw \<Rightarrow> (int \<times> gw) option" where
  "start_finish e mode is_send_auth freq_list s =
     do { let s = emit (C_ipc I_timer_create) (s\<lparr>wiota_gw_connect_flag := UC_GW_CONNECT_SUCESS\<rparr>);
          let s = gm_update (ota_timer_update (\<lambda>_. e_timer_create e (hist s))) s;
          if \<not> ota_timer (gm s) then
            do { (_, s) \<leftarrow> uc_wiota_gateway_dele_queue s; Some (5, uc_wiota_gateway_del_fn_sem s) }
          else
            (case uc_wiota_gw_task e s of (rc, s) \<Rightarrow>
               if rc \<noteq> 0 then
                 do { (_, s) \<leftarrow> uc_wiota_gateway_dele_queue s;
                      Some (7, uc_wiota_gateway_del_fn_sem (emit (C_ipc I_timer_delete) s)) }
               else
                 do { s \<leftarrow> (case freq_list of
                              None \<Rightarrow> Some s
                            | Some f \<Rightarrow> do { bs \<leftarrow> rdn f 0 8; Some (s\<lparr>gw_freq_list := bs\<rparr>) });
                      Some (0, if mode = UC_TRANSMISSION_MODE \<or> \<not> is_send_auth
                               then s\<lparr>uc_gateway_state := GATEWAY_NORMAL\<rparr> else s) }) }"

text \<open>Whether an authentication request is sent: not in the transmission mode, and in the time
  slot mode not after a wake up.\<close>

definition sends_auth :: "env \<Rightarrow> uc_gatway_mode \<Rightarrow> gw \<Rightarrow> bool" where
  "sends_auth e mode s \<longleftrightarrow>
     mode = UC_GATEWAY_MODE \<or>
     mode \<noteq> UC_TRANSMISSION_MODE \<and>
     e_awakened_cause e (hist s) \<notin> {AWAKENED_CAUSE_SLEEP, AWAKENED_CAUSE_PAGING}"

definition start_connect ::
  "env \<Rightarrow> uc_gatway_mode \<Rightarrow> bool \<Rightarrow> u8 list option \<Rightarrow> gw \<Rightarrow> (int \<times> gw) option" where
  "start_connect e mode is_send_auth freq_list s =
     (if is_send_auth then
        do { (left, s) \<leftarrow> auth_attempts e mode 3 s;
             if left = None \<or> left = Some 0 then Some (8, s)
             else start_finish e mode is_send_auth freq_list s }
      else
        do { (_, s) \<leftarrow> uc_wiota_gateway_set_id e s;
             start_finish e mode is_send_auth freq_list s })"

definition uc_wiota_gateway_start ::
  "env \<Rightarrow> uc_gatway_mode \<Rightarrow> u8 list option \<Rightarrow> u8 list option \<Rightarrow> gw \<Rightarrow> (int \<times> gw) option" where
  "uc_wiota_gateway_start e mode auth_key freq_list s =
     (if wiota_gw_connect_flag s \<noteq> UC_GW_NO_CONNECT \<or> mode = UC_OTHER_MODE then Some (9, s)
      else if is_force_active (gm s) = 0 \<and> e_state e (hist s) \<noteq> UC_STATUS_SYNC then Some (1, s)
      else (case auth_key of
         None \<Rightarrow> Some (3, s)
       | Some key \<Rightarrow>
           (let is_send_auth = sends_auth e mode s
            in do { s \<leftarrow> start_init e key s;
                    (case uc_wiota_gateway_create_queue e 8 s of
                       (None, s) \<Rightarrow> Some (4, s)
                     | (Some q, s) \<Rightarrow>
                         do { s \<leftarrow> start_radio e mode (gm_update (gateway_mq_update (\<lambda>_. Some q)) s);
                              start_connect e mode is_send_auth freq_list s }) })))"

section \<open>End\<close>

text \<open>
  \<^verbatim>\<open>uc_wiota_gateway_end\<close> withdraws the callbacks and asks the task to exit, waits until it has
  exited, and then releases everything. The wait is a state of the transition system below.
\<close>

definition clean_data_request :: "gw \<Rightarrow> gw option" where
  "clean_data_request s =
     (let s = (emit (C_setup (S_register_recv_cb CB_none)) s)\<lparr>recv_cb := CB_none\<rparr>;
          s = (uc_wiota_gateway_set_allow_run_flag 0 s)\<lparr>wiota_gw_connect_flag := UC_GW_NO_CONNECT\<rparr>
      in uc_wiota_gateway_send_exit s)"

definition end_request :: "gw \<Rightarrow> gw option" where
  "end_request s = clean_data_request (s\<lparr>user_recv := None, exce_report := None\<rparr>)"

text \<open>
  Where the caller of \<^verbatim>\<open>uc_wiota_gateway_end\<close> is: \<open>A_wait_exit\<close> is the loop that sleeps until
  \<^verbatim>\<open>exit_flag\<close> is set, \<open>A_finish\<close> is behind it. Whether the task runs is looked at once.
\<close>

datatype app_pc = A_idle | A_wait_exit | A_finish

definition uc_wiota_gateway_wait_exit :: "gw \<Rightarrow> app_pc" where
  "uc_wiota_gateway_wait_exit s = (if gateway_task_run (gm s) \<noteq> 1 then A_finish else A_wait_exit)"

lemma recv_entry: "rt_mq_recv q = Some (RT_EOK, m, q') \<Longrightarrow> entry q' < entry q"
  by (auto simp: rt_mq_recv_def rt_codes Let_def split: if_splits)

function drain_queue ::
  "uc_wiota_gateway_msg rt_messagequeue \<Rightarrow> gw \<Rightarrow> (uc_wiota_gateway_msg rt_messagequeue \<times> gw) option" where
  "drain_queue q s =
     (case rt_mq_recv q of
        None \<Rightarrow> None
      | Some (r, m, q') \<Rightarrow>
          if r = RT_EOK then
            (case m of
               Some (Dl_msg buf data type) \<Rightarrow>
                 drain_queue q' (rt_free (Some buf) (rt_free (map_option fst data) s))
             | _ \<Rightarrow> drain_queue q' s)
          else Some (q', s))"
  by pat_completeness auto
termination
  by (relation "measure (\<lambda>(q, s). entry q)") (auto dest: recv_entry)

declare drain_queue.simps [simp del]

definition end_finish :: "gw \<Rightarrow> gw option" where
  "end_finish s =
     do { let s = emit (C_setup (S_set_is_report_fn 0)) s;
          let s = (emit (C_setup (S_register_recv_cb CB_wiota_recv)) s)\<lparr>recv_cb := CB_wiota_recv\<rparr>;
          let s = (if ota_timer (gm s)
                   then gm_update (ota_timer_update (\<lambda>_. False)) (emit (C_ipc I_timer_delete) s) else s);
          let s = uc_wiota_gateway_del_fn_sem s;
          let s = (if is_ts_mode (gm s) \<noteq> 0
                   then emit (C_setup S_back_to_idle) (emit (C_wiota (W_set_active_time (active_time (gm s)))) s)
                   else s);
          let s = gm_update (\<lambda>g. g\<lparr>gateway_handler := False, gateway_mode := 0\<rparr>) s;
          s \<leftarrow> (case gateway_mq (gm s) of
                  None \<Rightarrow> Some s
                | Some (p, pool, q) \<Rightarrow>
                    do { (q, s) \<leftarrow> drain_queue q s;
                         (_, s) \<leftarrow> uc_wiota_gateway_dele_queue (gm_update (gateway_mq_update (\<lambda>_. Some (p, pool, q))) s);
                         Some (gm_update (gateway_mq_update (\<lambda>_. None)) s) });
          Some (s\<lparr>uc_gateway_state := GATEWAY_END\<rparr>) }"

section \<open>The task\<close>

text \<open>The judgement on the connection: the code, the counter of lost states and the report flag.\<close>

definition wiota_state_judge :: "env \<Rightarrow> u8 \<Rightarrow> u8 \<Rightarrow> gw \<Rightarrow> nat \<times> u8 \<times> u8 \<times> gw" where
  "wiota_state_judge e lost_count report_flag s =
     (let (st, s) = ask Q_state (e_state e) s;
          (lost_count, report_flag) =
            (case st of
               UC_STATUS_NULL \<Rightarrow> (lost_count + 1, if lost_count + 1 > 11 then 1 else report_flag)
             | UC_STATUS_SYNC_LOST \<Rightarrow> (lost_count, 1)
             | UC_STATUS_ERROR \<Rightarrow> (lost_count, 1)
             | UC_STATUS_SYNC \<Rightarrow> (0, report_flag))
      in if report_flag \<noteq> 0
         then (1, lost_count, report_flag, report_state GATEWAY_FAILED (s\<lparr>uc_gateway_state := GATEWAY_FAILED\<rparr>))
         else if uc_wiota_gateway_get_allow_run_flag s \<noteq> 0 then
           (let ((succ, total), s) = ask Q_stats (e_sm_stats e) s
            in (if succ * 5 < total \<and> total > 10 \<or> st \<in> {UC_STATUS_SYNC_LOST, UC_STATUS_ERROR} then 2 else 0,
                lost_count, report_flag, s))
         else (0, lost_count, report_flag, s))"

text \<open>
  Where the task is: not created, created and not yet run, in its loop (with the receive timeout and
  the two counters of the judgement), or returned.
\<close>

datatype task_pc = T_none | T_ready | T_run int u8 u8 | T_done

definition task_start :: "env \<Rightarrow> gw \<Rightarrow> task_pc \<times> gw" where
  "task_start e s =
     (let s = gm_update (\<lambda>g. g\<lparr>exit_flag := 0, gateway_task_run := 1\<rparr>) s
      in (T_run (int (unat (e_frame_len e (hist s)) div 1000)) 0 0, s))"

definition task_break :: "gw \<Rightarrow> gw" where
  "task_break s = gm_update (exit_flag_update (\<lambda>_. 1)) (s\<lparr>wiota_gw_connect_flag := UC_GW_CONNECT_FAIL\<rparr>)"

definition task_message :: "env \<Rightarrow> uc_wiota_gateway_msg \<Rightarrow> gw \<Rightarrow> (bool \<times> gw) option" where
  "task_message e m s =
     (case m of
        Dl_msg buf data type \<Rightarrow>
          do { s \<leftarrow> uc_wiota_gateway_analisys_dl_msg e (map_option snd data) type s;
               Some (False, rt_free (Some buf) (rt_free (map_option fst data) s)) }
      | Static_msg \<Rightarrow>
          (let t = static_msg_type s
           in if t = GATEWAY_MAG_CODE_UL_HEART
              then do { (_, s) \<leftarrow> uc_wiota_gateway_state_update_info_msg e s; Some (False, s) }
              else if t = GATEWAY_MAG_CODE_OTA_REQ
              then do { (_, s) \<leftarrow> uc_wiota_gateway_send_ota_req_msg e s; Some (False, s) }
              else if t = GATEWAY_MAG_CODE_UL_MISS_DATA_REQ
              then do { s \<leftarrow> uc_wiota_gateway_ota_miss_data_req_msg e s; Some (False, s) }
              else Some (False, s))
      | Exit_msg \<Rightarrow> Some (True, gm_update (exit_flag_update (\<lambda>_. 1)) s))"

text \<open>
  One iteration of the loop of \<^verbatim>\<open>uc_wiota_gateway_api_handle\<close>; \<open>task_received\<close> is the part
  behind the receive call.
\<close>

definition task_received ::
  "env \<Rightarrow> int \<Rightarrow> u8 \<Rightarrow> u8 \<Rightarrow> int \<Rightarrow> uc_wiota_gateway_msg option \<Rightarrow> gw \<Rightarrow> (task_pc \<times> gw) option" where
  "task_received e timeout lost_count report_flag result m s =
     (if result = RT_EOK then
        do { m \<leftarrow> m;
             (stop, s) \<leftarrow> task_message e m s;
             Some (if stop then T_done else T_run timeout lost_count report_flag, s) }
      else if result = - RT_ETIMEOUT then
        (case wiota_state_judge e lost_count report_flag s of
           (judged, lost_count, report_flag, s) \<Rightarrow>
             Some (if judged \<noteq> 0 then (T_done, task_break s) else (T_run timeout lost_count report_flag, s)))
      else Some (T_run timeout lost_count report_flag, s))"

definition task_iteration :: "env \<Rightarrow> int \<Rightarrow> u8 \<Rightarrow> u8 \<Rightarrow> gw \<Rightarrow> (task_pc \<times> gw) option" where
  "task_iteration e timeout lost_count report_flag s =
     (if gateway_task_run (gm s) = 0 \<or> gateway_mode (gm s) = 0 \<or> gateway_mq (gm s) = None
      then Some (T_done, task_break s)
      else
        do { (result, m, s) \<leftarrow> uc_wiota_gateway_recv_queue e timeout s;
             task_received e timeout lost_count report_flag result m s })"

end
