(* ===== verification/GatewayInv.thy ===== *)
theory GatewayInv
  imports GatewayTask HeapSafety
begin

text \<open>
  The invariant of the gateway client, and the proof that every operation keeps it: the queue is
  well formed, the buffers have their sizes, no block was freed twice, and every block that a
  queued message refers to is alive and belongs to the queue alone.

  \<open>gw_inv kk P X s\<close> also says that the exit flags are \<open>kk\<close>, that the queue begins with the messages \<open>P\<close> and
  that the running code owns the blocks \<open>X\<close>. An operation that keeps it for all \<open>kk\<close>, \<open>P\<close> and \<open>X\<close>
  does not touch the flags, neither removes nor reorders messages, and frees no block but its own.
\<close>

section \<open>The invariant\<close>

definition msg_ptrs :: "uc_wiota_gateway_msg \<Rightarrow> ptr multiset" where
  "msg_ptrs m = (case m of
     Dl_msg b data t \<Rightarrow> add_mset b (case data of None \<Rightarrow> {#} | Some (p, bytes) \<Rightarrow> {#p#})
   | _ \<Rightarrow> {#})"

definition queue_ptrs :: "uc_wiota_gateway_msg list \<Rightarrow> ptr multiset" where
  "queue_ptrs ms = sum_list (map msg_ptrs ms)"

type_synonym gw_queue = "(ptr \<times> ptr \<times> uc_wiota_gateway_msg rt_messagequeue) option"

definition messages :: "gw_queue \<Rightarrow> uc_wiota_gateway_msg list" where
  "messages mq = (case mq of None \<Rightarrow> [] | Some (p, pool, q) \<Rightarrow> mq_contents q)"

definition owned :: "gw_queue \<Rightarrow> ptr multiset" where
  "owned mq = (case mq of None \<Rightarrow> {#} | Some (p, pool, q) \<Rightarrow> {#p, pool#} + queue_ptrs (mq_contents q))"

definition queue_ok :: "gw_queue \<Rightarrow> bool" where
  "queue_ok mq = (case mq of None \<Rightarrow> True | Some (p, pool, q) \<Rightarrow> mq_ok q)"

definition buffers :: "uc_wiota_gateway_api_mode \<Rightarrow> nat list" where
  "buffers g = [length (auth_code g), length (device_type g), length (new_version g), length (mask_map g)]"

text \<open>
  The two flags with which the task and \<^verbatim>\<open>uc_wiota_gateway_end\<close> agree on the exit, and whether
  there is a queue.
\<close>

definition flags :: "uc_wiota_gateway_api_mode \<Rightarrow> 1 word list" where
  "flags g = [gateway_task_run g, exit_flag g, if gateway_mq g = None then 0 else 1]"

definition view :: "uc_wiota_gateway_api_mode \<Rightarrow> 1 word list \<times> gw_queue \<times> nat list" where
  "view g = (flags g, gateway_mq g, buffers g)"

definition gw_inv ::
  "1 word list \<Rightarrow> uc_wiota_gateway_msg list \<Rightarrow> ptr multiset \<Rightarrow> gw \<Rightarrow> bool" where
  "gw_inv kk ms X s \<longleftrightarrow>
     flags (gm s) = kk \<and> holds (X + owned (gateway_mq (gm s))) (hist s) \<and> queue_ok (gateway_mq (gm s)) \<and>
     buffers (gm s) = [16, 16, 16, 28] \<and> (\<exists>rest. messages (gateway_mq (gm s)) = ms @ rest)"

lemma queue_ptrs_simps [simp]:
  "queue_ptrs [] = {#}" "queue_ptrs (m # ms) = msg_ptrs m + queue_ptrs ms"
  "queue_ptrs (xs @ ys) = queue_ptrs xs + queue_ptrs ys"
  by (simp_all add: queue_ptrs_def)

lemma msg_ptrs_simps [simp]:
  "msg_ptrs (Dl_msg b None t) = {#b#}" "msg_ptrs (Dl_msg b (Some (p, bytes)) t) = {#b, p#}"
  "msg_ptrs Static_msg = {#}" "msg_ptrs Exit_msg = {#}"
  by (simp_all add: msg_ptrs_def)

section \<open>How the invariant moves\<close>

text \<open>
  \<open>inv_simps\<close> collects the rules; with them the simplifier carries the invariant through a
  sequence of calls.
\<close>

named_theorems inv_simps \<open>the invariant through state updates and calls\<close>

lemma flags_update [simp]:
  "(f1 (gateway_mq g) = None) = (gateway_mq g = None) \<Longrightarrow> flags (gateway_mq_update f1 g) = flags g"
  "flags (mask_map_update f2 g) = flags g"
  "flags (new_version_update f3 g) = flags g" "flags (ota_recved_len_update f4 g) = flags g"
  "flags (ota_state_update f5 g) = flags g" "flags (upgrade_num_update f6 g) = flags g"
  by (simp_all add: flags_def)

lemma emit_gw [simp]:
  "gm (emit c s) = gm s" "user_recv (emit c s) = user_recv s" "exce_report (emit c s) = exce_report s"
  "ex_mcu (emit c s) = ex_mcu s" "rtc_cb (emit c s) = rtc_cb s" "rtc_fmt (emit c s) = rtc_fmt s"
  "rtc_sem (emit c s) = rtc_sem s" "uc_gateway_state (emit c s) = uc_gateway_state s"
  "wiota_gw_connect_flag (emit c s) = wiota_gw_connect_flag s" "gw_freq_list (emit c s) = gw_freq_list s"
  "recv_cb (emit c s) = recv_cb s"
  by (simp_all add: emit_def)

lemma gw_inv_view: "view (gm t) = view (gm s) \<Longrightarrow> hist t = hist s \<Longrightarrow> gw_inv kk ms X t = gw_inv kk ms X s"
  by (simp add: gw_inv_def view_def)

lemma gw_inv_gm [inv_simps]: "view (f (gm s)) = view (gm s) \<Longrightarrow> gw_inv kk ms X (gm_update f s) = gw_inv kk ms X s"
  by (rule gw_inv_view) simp_all

lemma gw_inv_fields [inv_simps]:
  "gw_inv kk ms X (s\<lparr>user_recv := a1\<rparr>) = gw_inv kk ms X s"
  "gw_inv kk ms X (s\<lparr>exce_report := a2\<rparr>) = gw_inv kk ms X s"
  "gw_inv kk ms X (s\<lparr>ex_mcu := a3\<rparr>) = gw_inv kk ms X s"
  "gw_inv kk ms X (s\<lparr>rtc_cb := a4\<rparr>) = gw_inv kk ms X s"
  "gw_inv kk ms X (s\<lparr>rtc_fmt := a5\<rparr>) = gw_inv kk ms X s"
  "gw_inv kk ms X (s\<lparr>rtc_sem := a6\<rparr>) = gw_inv kk ms X s"
  "gw_inv kk ms X (s\<lparr>uc_gateway_state := a7\<rparr>) = gw_inv kk ms X s"
  "gw_inv kk ms X (s\<lparr>wiota_gw_connect_flag := a8\<rparr>) = gw_inv kk ms X s"
  "gw_inv kk ms X (s\<lparr>wiota_gateway_run_flag := a9\<rparr>) = gw_inv kk ms X s"
  "gw_inv kk ms X (s\<lparr>gw_freq_list := a10\<rparr>) = gw_inv kk ms X s"
  "gw_inv kk ms X (s\<lparr>static_msg_type := a11\<rparr>) = gw_inv kk ms X s"
  "gw_inv kk ms X (s\<lparr>miss_data_continue_couter := a12\<rparr>) = gw_inv kk ms X s"
  "gw_inv kk ms X (s\<lparr>recv_cb := a13\<rparr>) = gw_inv kk ms X s"
  by (rule gw_inv_view; simp)+

lemma gw_inv_emit [inv_simps]: "\<not> heap_call c \<Longrightarrow> gw_inv kk ms X s \<Longrightarrow> gw_inv kk ms X (emit c s)"
  by (simp add: gw_inv_def emit_def)

lemma gw_inv_weaken: "gw_inv kk ms Y s \<Longrightarrow> X \<subseteq># Y \<Longrightarrow> gw_inv kk ms X s"
  by (auto simp: gw_inv_def elim!: holds_mono)

lemma gw_inv_prefix: "gw_inv kk (ms @ ms') X s \<Longrightarrow> gw_inv kk ms X s"
  by (auto simp: gw_inv_def)

lemma gw_inv_free: "gw_inv kk ms (add_mset p X) s \<Longrightarrow> gw_inv kk ms X (rt_free (Some p) s)"
  by (simp add: gw_inv_def rt_free_def emit_def holds_free)

lemma gw_inv_malloc: "gw_inv kk ms X s \<Longrightarrow> p = length (hist s) \<Longrightarrow> gw_inv kk ms (add_mset p X) (emit (C_malloc p n) s)"
  by (simp add: gw_inv_def emit_def holds_malloc)

lemma gw_inv_malloc_fail: "gw_inv kk ms X s \<Longrightarrow> gw_inv kk ms X (emit (C_malloc_fail n) s)"
  by (simp add: gw_inv_def emit_def)

text \<open>An operation of another component that works on the platform only.\<close>

lemma gw_inv_only_hist:
  assumes "gw_inv kk ms X s"
    "holds (X + owned (gateway_mq (gm s))) (hist s) \<Longrightarrow>
       only_hist s s' \<and> holds (Y + owned (gateway_mq (gm s))) (hist s')"
  shows "gw_inv kk ms Y s'"
proof -
  have h: "only_hist s s'" "holds (Y + owned (gateway_mq (gm s))) (hist s')"
    using assms by (simp_all add: gw_inv_def)
  have "gm s' = gm s"
    using h(1) unfolding only_hist_def
    by (metis gw.select_convs(1) gw.surjective sys.update_convs(1))
  then show ?thesis using assms(1) h by (simp add: gw_inv_def)
qed

section \<open>The codec, the flash and the queue\<close>

lemma coding_inv:
  "app_data_coding e h input len s = Some (rc, blk, h', s') \<Longrightarrow> gw_inv kk ms X s \<Longrightarrow>
     gw_inv kk ms (blk_ptr blk + X) s'"
  by (erule gw_inv_only_hist) (drule app_data_coding_holds, assumption, simp add: add.assoc)

lemma decoding_inv:
  "app_data_decoding e input len h s = Some (rc, blk, h', s') \<Longrightarrow> gw_inv kk ms X s \<Longrightarrow>
     gw_inv kk ms (blk_ptr blk + X) s'"
  by (erule gw_inv_only_hist) (drule app_data_decoding_holds, assumption, simp add: add.assoc)

lemma adds_inv: "adds flash_call s s' \<Longrightarrow> gw_inv kk ms X s \<Longrightarrow> gw_inv kk ms X s'"
  by (erule gw_inv_only_hist) (auto simp: adds_only_hist holds_adds)

lemma flash_inv [inv_simps]:
  "uc_wiota_ota_flash_write e buf a n s = Some s' \<Longrightarrow> gw_inv kk ms X s \<Longrightarrow> gw_inv kk ms X s'"
  "uc_wiota_ota_flash_erase e b k s = Some s' \<Longrightarrow> gw_inv kk ms X s \<Longrightarrow> gw_inv kk ms X s'"
  by (auto dest: flash_write_adds flash_erase_adds intro: adds_inv)

lemma check_flash_inv [inv_simps]:
  "uc_wiota_ota_check_flash_data e a n md5 s = Some (rc, s') \<Longrightarrow> gw_inv kk ms X s \<Longrightarrow> gw_inv kk ms X s'"
  by (erule gw_inv_only_hist) (drule check_flash_data_holds, assumption, simp)

lemma send_queue_inv:
  assumes c: "uc_wiota_gateway_send_queue m t s = Some (r, s')" and i: "gw_inv kk ms (msg_ptrs m + X) s"
  shows "if r = RT_EOK \<and> gateway_mq (gm s) \<noteq> None then gw_inv kk ms X s' else gw_inv kk ms (msg_ptrs m + X) s'"
proof (cases "gateway_mq (gm s)")
  case None
  then show ?thesis using c i by (simp add: uc_wiota_gateway_send_queue_def)
next
  case (Some q)
  obtain p pool q where q: "gateway_mq (gm s) = Some (p, pool, q)" using Some by (cases q) auto
  have ok: "mq_ok q" using i q by (simp add: gw_inv_def queue_ok_def)
  show ?thesis
  proof (cases rule: mq.send_result[OF ok, of m t, case_names 1 2])
    case (1 q')
    note ok = this
    then have s': "r = RT_EOK" "s' = gm_update (gateway_mq_update (\<lambda>_. Some (p, pool, q'))) s"
      using c q by (simp_all add: uc_wiota_gateway_send_queue_def)
    show ?thesis
      using i q ok s' by (auto simp: gw_inv_def queue_ok_def owned_def messages_def buffers_def ac_simps)
  next
    case (2 r')
    note full = this
    then have "r = r'" "s' = gm_update (gateway_mq_update (\<lambda>_. Some (p, pool, q))) s"
      using c q by (simp_all add: uc_wiota_gateway_send_queue_def)
    then show ?thesis
      using i q full by (auto simp: gw_inv_def queue_ok_def owned_def messages_def buffers_def)
  qed
qed

lemma sent_message:
  assumes c: "uc_wiota_gateway_send_queue m t s = Some (r, s')" and r: "r = RT_EOK" and i: "gw_inv kk ms X s"
  shows "gateway_mq (gm s') = None \<or> m \<in> set (messages (gateway_mq (gm s')))"
proof (cases "gateway_mq (gm s)")
  case None
  then show ?thesis using c by (simp add: uc_wiota_gateway_send_queue_def)
next
  case (Some q)
  obtain p pool q where q: "gateway_mq (gm s) = Some (p, pool, q)" using Some by (cases q) auto
  have ok: "mq_ok q" using i q by (simp add: gw_inv_def queue_ok_def)
  show ?thesis using c q r
    by (cases rule: mq.send_result[OF ok, of m t])
      (auto simp: uc_wiota_gateway_send_queue_def messages_def)
qed

lemma send_static_inv [inv_simps]:
  "uc_wiota_gateway_send_queue Static_msg t s = Some (r, s') \<Longrightarrow> gw_inv kk ms X s \<Longrightarrow> gw_inv kk ms X s'"
  "uc_wiota_gateway_send_queue Exit_msg t s = Some (r, s') \<Longrightarrow> gw_inv kk ms X s \<Longrightarrow> gw_inv kk ms X s'"
  using send_queue_inv[of Static_msg t s r s' kk ms X] send_queue_inv[of Exit_msg t s r s' kk ms X]
  by (auto split: if_splits)

lemma free_block_inv [inv_simps]:
  "gw_inv kk ms (blk_ptr blk + X) s \<Longrightarrow> gw_inv kk ms X (rt_free (block_ptr blk) s)"
  by (cases blk) (auto simp: block_ptr_def intro: gw_inv_free)

definition data_ptr :: "(ptr \<times> u8 list) option \<Rightarrow> ptr multiset" where
  "data_ptr d = (case d of None \<Rightarrow> {#} | Some (p, bytes) \<Rightarrow> {#p#})"

lemma msg_ptrs_Dl: "msg_ptrs (Dl_msg b d t) = {#b#} + data_ptr d"
  by (simp add: msg_ptrs_def data_ptr_def)

lemma free_data_inv [inv_simps]:
  "gw_inv kk ms (data_ptr d + X) s \<Longrightarrow> gw_inv kk ms X (rt_free (map_option fst d) s)"
  by (cases d) (auto simp: data_ptr_def intro: gw_inv_free)

lemma ask_inv [inv_simps]:
  "ask q f s = (a, s') \<Longrightarrow> gw_inv kk ms X s \<Longrightarrow> gw_inv kk ms X s'"
  by (auto simp: ask_def gw_inv_emit)

section \<open>The state operations\<close>

lemma view_fields [simp]:
  "view (g\<lparr>ota_state := v1\<rparr>) = view g" "view (g\<lparr>upgrade_num := v2\<rparr>) = view g"
  by (simp_all add: view_def flags_def buffers_def)

lemma send_msg_to_queue_inv [inv_simps]:
  "uc_wiota_gateway_send_msg_to_queue c s = Some s' \<Longrightarrow> gw_inv kk ms X s \<Longrightarrow> gw_inv kk ms X s'"
  by (auto simp: uc_wiota_gateway_send_msg_to_queue_def inv_simps)

text \<open>
  Asking the task to exit: either the exit message is queued, or there is no queue, or the task is
  told by its flag.
\<close>

lemma send_exit_inv:
  assumes c: "uc_wiota_gateway_send_exit s = Some s'" and i: "gw_inv kk ms X s"
  shows "\<exists>run. gw_inv [run, kk ! 1, kk ! 2] ms X s' \<and> (run = 0 \<or> run = kk ! 0) \<and>
    (run \<noteq> 0 \<longrightarrow> gateway_mq (gm s') = None \<or> Exit_msg \<in> set (messages (gateway_mq (gm s'))))"
proof -
  obtain r s1 where q: "uc_wiota_gateway_send_queue Exit_msg 0 s = Some (r, s1)"
      "s' = (if r \<noteq> RT_EOK \<and> gateway_task_run (gm s1) \<noteq> 0
             then emit (C_os (O_thread_mdelay 800)) (gm_update (gateway_task_run_update (\<lambda>_. 0)) s1) else s1)"
    using c by (auto simp: uc_wiota_gateway_send_exit_def)
  have i1: "gw_inv kk ms X s1" by (rule send_static_inv(2)[OF q(1) i])
  have k: "kk = [gateway_task_run (gm s1), exit_flag (gm s1), if gateway_mq (gm s1) = None then 0 else 1]" using i1 by (simp add: gw_inv_def flags_def)
  show ?thesis
  proof (cases "r \<noteq> RT_EOK \<and> gateway_task_run (gm s1) \<noteq> 0")
    case True
    then have "gw_inv [0, kk ! 1, kk ! 2] ms X s'"
      using i1 q(2) k by (simp add: gw_inv_def flags_def buffers_def emit_def)
    then show ?thesis by blast
  next
    case False
    have "r = RT_EOK \<Longrightarrow> gateway_mq (gm s1) = None \<or> Exit_msg \<in> set (messages (gateway_mq (gm s1)))"
      using sent_message[OF q(1) _ i] by simp
    then show ?thesis using i1 k q(2) False by (intro exI[of _ "kk ! 0"]) (cases "r = RT_EOK"; simp)
  qed
qed

lemma timer_msg_inv [inv_simps]:
  "uc_wiota_gateway_handle_ota_recv_timer_msg s = Some s' \<Longrightarrow> gw_inv kk ms X s \<Longrightarrow> gw_inv kk ms X s'"
  by (auto simp: uc_wiota_gateway_handle_ota_recv_timer_msg_def
      uc_wiota_gateway_send_miss_data_req_to_queue_def inv_simps split: if_splits)

lemma ota_timer_inv [inv_simps]:
  "gw_inv kk ms X s \<Longrightarrow> gw_inv kk ms X (uc_gateway_stop_ota_timer s)"
  "gw_inv kk ms X s \<Longrightarrow> gw_inv kk ms X (uc_gateway_control_ota_timer t s)"
  by (simp_all add: uc_gateway_stop_ota_timer_def uc_gateway_control_ota_timer_def inv_simps)

lemma gw_inv_buffers:
  "flags (f (gm s)) = flags (gm s) \<Longrightarrow> gateway_mq (f (gm s)) = gateway_mq (gm s) \<Longrightarrow>
     buffers (f (gm s)) = [16, 16, 16, 28] \<Longrightarrow> gw_inv kk ms X s \<Longrightarrow> gw_inv kk ms X (gm_update f s)"
  by (simp add: gw_inv_def)

lemma gw_inv_lengths:
  "gw_inv kk ms X s \<Longrightarrow> length (auth_code (gm s)) = 16 \<and> length (device_type (gm s)) = 16 \<and>
     length (new_version (gm s)) = 16 \<and> length (mask_map (gm s)) = 28"
  by (simp add: gw_inv_def buffers_def)

lemma clear_state_inv [inv_simps]:
  assumes i: "gw_inv kk ms X s"
  shows "gw_inv kk ms X (uc_gateway_clear_state s)"
proof -
  have "gw_inv kk ms X (gm_update (\<lambda>g. g\<lparr>ota_state := GATEWAY_OTA_DEFAULT, upgrade_num := 0,
      mask_map := replicate 28 0\<rparr>) s)"
    using gw_inv_lengths[OF i] by (intro gw_inv_buffers[OF _ _ _ i]) (simp_all add: buffers_def)
  then show ?thesis using i ota_timer_inv(1) by (simp add: uc_gateway_clear_state_def)
qed

lemma del_fn_sem_inv [inv_simps]: "gw_inv kk ms X s \<Longrightarrow> gw_inv kk ms X (uc_wiota_gateway_del_fn_sem s)"
  by (simp add: uc_wiota_gateway_del_fn_sem_def inv_simps view_def flags_def buffers_def)

lemma report_inv [inv_simps]:
  "gw_inv kk ms X s \<Longrightarrow> gw_inv kk ms X (report_state st s)"
  "call_report st s = Some s' \<Longrightarrow> gw_inv kk ms X s \<Longrightarrow> gw_inv kk ms X s'"
  by (auto simp: report_state_def call_report_def inv_simps split: option.splits)

lemma delay_frame_inv [inv_simps]: "gw_inv kk ms X s \<Longrightarrow> gw_inv kk ms X (delay_frame e s)"
  by (simp add: delay_frame_def inv_simps)

section \<open>Delivery of downlinks\<close>

lemma recv_fn_change_cases:
  "recv_fn_change e bytes s = Some s' \<Longrightarrow> s' = s \<or> s' = emit (C_ipc I_sem_release) s"
  unfolding recv_fn_change_def Let_def by (auto split del: if_split split: if_split_asm)

lemma recv_fn_change_inv:
  "recv_fn_change e bytes s = Some s' \<Longrightarrow> gw_inv kk ms X s \<Longrightarrow> gw_inv kk ms X s'"
  by (auto dest!: recv_fn_change_cases intro: gw_inv_emit)

text \<open>Queueing a downlink: the queue takes the blocks, or they are freed.\<close>

lemma enqueue_inv:
  assumes i: "gw_inv kk ms (data_ptr data + X) s" and b: "b = length (hist s)" and mq: "gateway_mq (gm s) \<noteq> None"
    and r: "uc_wiota_gateway_send_queue (Dl_msg b data type) 10 (emit (C_malloc b n) s) = Some (r, s1)"
    and s': "s' = (if r \<noteq> RT_EOK then rt_free (Some b) (rt_free (map_option fst data) s1) else s1)"
  shows "gw_inv kk ms X s'"
proof -
  have h: "gw_inv kk ms (msg_ptrs (Dl_msg b data type) + X) (emit (C_malloc b n) s)"
    using gw_inv_malloc[OF i b, of n] by (simp add: msg_ptrs_Dl)
  have "if r = RT_EOK then gw_inv kk ms X s1 else gw_inv kk ms (data_ptr data + add_mset b X) s1"
    using send_queue_inv[OF r h] mq by (auto simp: msg_ptrs_Dl emit_def split: if_splits)
  then show ?thesis using s' by (auto intro!: gw_inv_free free_data_inv split: if_splits)
qed

lemma recv_data_callback_inv:
  assumes c: "uc_wiota_gateway_recv_data_callback e result type data s = Some s'"
    and i: "gw_inv kk ms (data_ptr data + X) s"
  shows "gw_inv kk ms X s'"
proof -
  have w: "gw_inv kk ms X s" using i by (rule gw_inv_weaken) simp
  consider (bad) "result \<noteq> UC_OP_SUCC" | (change) "result = UC_OP_SUCC" "type = UC_RECV_FN_CHANGE"
    | (nomem) "result = UC_OP_SUCC" "type \<noteq> UC_RECV_FN_CHANGE" "\<not> e_malloc e (hist s) sizeof_gateway_msg"
    | (msg) "result = UC_OP_SUCC" "type \<noteq> UC_RECV_FN_CHANGE" "e_malloc e (hist s) sizeof_gateway_msg"
    by blast
  then show ?thesis
  proof cases
    case bad
    then show ?thesis using c w by (simp add: uc_wiota_gateway_recv_data_callback_def)
  next
    case change
    then show ?thesis
      using c i w by (auto simp: uc_wiota_gateway_recv_data_callback_def data_ptr_def
        intro!: gw_inv_free dest: recv_fn_change_inv split: if_splits option.splits)
  next
    case nomem
    then show ?thesis
      using c w by (auto simp: uc_wiota_gateway_recv_data_callback_def rt_malloc_def intro: gw_inv_malloc_fail)
  next
    case msg
    let ?b = "length (hist s)"
    show ?thesis
    proof (cases "gateway_mq (gm s)")
      case None
      then show ?thesis
        using c msg gw_inv_malloc[OF w refl, of sizeof_gateway_msg]
        by (auto simp: uc_wiota_gateway_recv_data_callback_def rt_malloc_def intro: gw_inv_weaken)
    next
      case (Some q)
      then obtain r s1 where
          "uc_wiota_gateway_send_queue (Dl_msg ?b data type) 10 (emit (C_malloc ?b sizeof_gateway_msg) s) = Some (r, s1)"
          "s' = (if r \<noteq> RT_EOK then rt_free (Some ?b) (rt_free (map_option fst data) s1) else s1)"
        using c msg by (auto simp: uc_wiota_gateway_recv_data_callback_def rt_malloc_def)
      then show ?thesis using enqueue_inv[OF i refl] Some by blast
    qed
  qed
qed

lemma deliver_inv [inv_simps]: "deliver e a s = Some s' \<Longrightarrow> gw_inv kk ms X s \<Longrightarrow> gw_inv kk ms X s'"
proof -
  assume d: "deliver e a s = Some s'" and i: "gw_inv kk ms X s"
  obtain result type bytes where a: "a = (result, type, bytes)" by (cases a) auto
  define data where "data = map_option (\<lambda>bs. (length (hist s), bs)) bytes"
  define t where "t = (case bytes of None \<Rightarrow> s | Some bs \<Rightarrow> emit (C_malloc (length (hist s)) (length bs)) s)"
  have t: "gw_inv kk ms (data_ptr data + X) t"
    using i by (auto simp: t_def data_def data_ptr_def intro: gw_inv_malloc split: option.splits)
  have "(if recv_cb t = CB_gateway_recv then uc_wiota_gateway_recv_data_callback e result type data t else Some t) = Some s'"
    using d by (auto simp: deliver_def a t_def data_def split: option.splits)
  then show ?thesis using t recv_data_callback_inv[OF _ t] by (auto split: if_splits intro: gw_inv_weaken)
qed

lemma deliver_all_inv [inv_simps]: "deliver_all e as s = Some s' \<Longrightarrow> gw_inv kk ms X s \<Longrightarrow> gw_inv kk ms X s'"
  by (induction e as s rule: deliver_all.induct) (auto simp: inv_simps)

lemma recv_queue_inv:
  assumes c: "uc_wiota_gateway_recv_queue e t s = Some (r, m, s')" and i: "gw_inv kk ms X s"
  shows "if r = RT_EOK then \<exists>x. m = Some x \<and> gw_inv kk (tl ms) (msg_ptrs x + X) s' \<and> (ms \<noteq> [] \<longrightarrow> x = hd ms)
    else m = None \<and> gw_inv kk ms X s' \<and> ms = []"
proof (cases "gateway_mq (gm s)")
  case None
  then show ?thesis using c i
    by (auto simp: uc_wiota_gateway_recv_queue_def gw_inv_def messages_def rt_codes)
next
  case (Some pq)
  define s0 where "s0 = emit (C_ipc I_mq_wait) s"
  have i0: "gw_inv kk ms X s0" using i by (simp add: s0_def gw_inv_emit)
  obtain s1 where s1: "gw_inv kk ms X s1"
      "(case gateway_mq (gm s1) of None \<Rightarrow> None
        | Some (p, pool, q) \<Rightarrow> do { (r, m, q) \<leftarrow> rt_mq_recv q;
            Some (r, m, gm_update (gateway_mq_update (\<lambda>_. Some (p, pool, q))) s1) }) = Some (r, m, s')"
    using c i Some
    by (auto simp: uc_wiota_gateway_recv_queue_def Let_def s0_def[symmetric] split: if_splits prod.splits
        dest: deliver_all_inv[OF _ i0])
  obtain p pool q where q: "gateway_mq (gm s1) = Some (p, pool, q)"
    using s1(2) by (cases "gateway_mq (gm s1)") auto
  have ok: "mq_ok q" using s1(1) q by (simp add: gw_inv_def queue_ok_def)
  show ?thesis
  proof (cases rule: mq.recv_result[OF ok, case_names 1 2])
    case (1 x xs q')
    note ok = this
    then have "r = RT_EOK" "m = Some x" "s' = gm_update (gateway_mq_update (\<lambda>_. Some (p, pool, q'))) s1"
      using s1(2) q by auto
    then show ?thesis using s1(1) q ok
      by (cases ms) (auto simp: gw_inv_def queue_ok_def owned_def messages_def buffers_def ac_simps)
  next
    case 2
    note empty = this
    then have "r = - RT_ETIMEOUT" "m = None" "s' = gm_update (gateway_mq_update (\<lambda>_. Some (p, pool, q))) s1"
      using s1(2) q by auto
    then show ?thesis using s1(1) q empty
      by (auto simp: gw_inv_def queue_ok_def owned_def messages_def buffers_def rt_codes)
  qed
qed

section \<open>The uplink\<close>

lemma view_update_simps [simp]:
  "view (auth_ts_fn_update f1 g) = view g" "view (is_waiting_ts_update f2 g) = view g"
  "view (ota_state_update f3 g) = view g" "view (upgrade_num_update f4 g) = view g"
  "view (ota_dev_type_update f5 g) = view g" "view (miss_data_invalid_req_update f6 g) = view g"
  "view (miss_data_num_update f7 g) = view g" "view (active_time_update f8 g) = view g"
  "view (auth_period_update f9 g) = view g" "view (gateway_handler_update f10 g) = view g"
  "view (is_ts_mode_update f11 g) = view g" "view (fn_refresh_sem_update f12 g) = view g"
  "view (ota_timer_update f13 g) = view g" "view (allow_run_flag_update f16 g) = view g"
  "view (gw_verity_update f17 g) = view g" "view (is_force_active_update f18 g) = view g"
  "view (is_send_sleep_update f19 g) = view g" "view (gateway_mode_update f20 g) = view g"
  "view (mcs_len_update f21 g) = view g" "view (block_size_update f22 g) = view g"
  "view (block_count_update f23 g) = view g" "view (bin_addr_update f24 g) = view g"
  "view (ota_dl_state_update f25 g) = view g" "view (upgrade_type_update f26 g) = view g"
  "view (ota_recved_len_update f27 g) = view g"
  by (simp_all add: view_def flags_def buffers_def)

lemma calc_auth_time_slot_inv:
  "uc_wiota_gateway_calc_auth_time_slot_fn e s = Some s' \<Longrightarrow> gw_inv kk ms X s \<Longrightarrow> gw_inv kk ms X s'"
  by (auto simp: uc_wiota_gateway_calc_auth_time_slot_fn_def Let_def ask_def gw_inv_gm gw_inv_emit
      split del: if_split split: if_split_asm)

lemma take_fn_sem_inv:
  assumes c: "take_fn_sem e t s = Some (ok, s')" and i: "gw_inv kk ms X s"
  shows "gw_inv kk ms X s'"
proof -
  let ?s = "emit (C_ipc (I_sem_take t)) s"
  have "deliver_all e (e_arrivals e (hist ?s)) ?s = Some s'" using c by (auto simp: take_fn_sem_def)
  then show ?thesis by (rule deliver_all_inv) (simp add: gw_inv_emit i)
qed

lemma wait_send_time_slot_inv:
  assumes c: "uc_wiota_gateway_wait_send_time_slot e s = Some (r, s')" and i: "gw_inv kk ms X s"
  shows "gw_inv kk ms X s'"
proof -
  let ?s = "gm_update (is_waiting_ts_update (\<lambda>_. 1)) s"
  consider "s' = s"
    | t ok s1 where "take_fn_sem e t ?s = Some (ok, s1)"
        "s' = gm_update (is_waiting_ts_update (\<lambda>_. 0)) s1 \<or>
         s' = gm_update (is_waiting_ts_update (\<lambda>_. 0)) (emit (C_wiota W_hard_switch_to_active) s1)"
    using c unfolding uc_wiota_gateway_wait_send_time_slot_def Let_def
    by (auto split del: if_split split: if_split_asm)
  then show ?thesis
  proof cases
    case 2
    have "gw_inv kk ms X s1" using take_fn_sem_inv[OF 2(1)] i by (simp add: gw_inv_gm)
    then show ?thesis using 2(2) by (auto simp: gw_inv_gm gw_inv_emit)
  qed (use i in simp)
qed

lemma wiota_send_inv: "gw_inv kk ms X s \<Longrightarrow> gw_inv kk ms X (snd (wiota_send e bs t s))"
  by (simp add: wiota_send_def Let_def gw_inv_emit)

lemma transmit_inv:
  assumes c: "transmit e blk t s = Some (res, s')" and i: "gw_inv kk ms (blk_ptr blk + X) s"
  shows "gw_inv kk ms X s'"
proof -
  obtain p mem n w s1 where blk: "blk = Some (p, mem, n)"
      "uc_wiota_gateway_wait_send_time_slot e s = Some (w, s1)"
    using c by (auto simp: transmit_def)
  have i1: "gw_inv kk ms (add_mset p X) s1" using wait_send_time_slot_inv[OF blk(2) i] blk(1) by simp
  have "s' = rt_free (Some p) (if w = 0 then snd (wiota_send e (take n mem) t s1) else s1)"
    using c blk by (auto simp: transmit_def split: prod.splits if_splits)
  then show ?thesis using i1 wiota_send_inv[OF i1] by (auto intro!: gw_inv_free)
qed

lemma send_ps_inv:
  assumes c: "uc_wiota_gateway_send_ps_cmd_data e d h s = Some (r, s')" and i: "gw_inv kk ms X s"
  shows "gw_inv kk ms X s'"
proof -
  obtain ret blk h' s1 where cod: "app_data_coding e h (Some d) (length d) s = Some (ret, blk, h', s1)"
    using c by (auto simp: uc_wiota_gateway_send_ps_cmd_data_def)
  note i1 = coding_inv[OF cod i]
  have q: "gw_inv kk ms (blk_ptr blk + X) (emit (C_query Q_state) s1)" using i1 by (simp add: gw_inv_emit)
  show ?thesis
    using c cod gw_inv_weaken[OF i1, of X] free_block_inv[OF q] transmit_inv[OF _ q]
    by (auto simp: uc_wiota_gateway_send_ps_cmd_data_def split: if_split_asm)
qed

lemma send_data_inv:
  assumes c: "uc_wiota_gateway_send_data e data len t s = Some (r, s')" and i: "gw_inv kk ms X s"
  shows "gw_inv kk ms X s'"
proof -
  define s0 where "s0 = (if is_force_active (gm s) = 0 then emit (C_query Q_state) s else s)"
  have i0: "gw_inv kk ms X s0" "gw_inv kk ms X (emit (C_query Q_state) s)" using i by (simp_all add: s0_def gw_inv_emit)
  consider (no) "s' = s \<or> s' = s0 \<or> s' = emit (C_query Q_state) s"
    | (coded) ret blk h' where "app_data_coding e (user_data_header e s0) data len s0 = Some (ret, blk, h', s')"
    | (sent) ret blk h' s1 res where "app_data_coding e (user_data_header e s0) data len s0 = Some (ret, blk, h', s1)"
        "transmit e blk t s1 = Some (res, s')"
    using c by (auto simp: uc_wiota_gateway_send_data_def Let_def s0_def[symmetric]
        split del: if_split split: if_split_asm)
  then show ?thesis
  proof cases
    case coded
    then show ?thesis using coding_inv[OF _ i0(1)] gw_inv_weaken by fastforce
  next
    case sent
    then show ?thesis using coding_inv[OF _ i0(1)] transmit_inv by blast
  qed (use i i0 in auto)
qed

lemma get_random_inv: "gw_inv kk ms X s \<Longrightarrow> gw_inv kk ms X (snd (uc_gateway_get_random e s))"
  by (simp add: uc_gateway_get_random_def Let_def gw_inv_emit)

lemma set_id_inv:
  assumes c: "uc_wiota_gateway_set_id e s = Some (r, s')" and i: "gw_inv kk ms X s"
  shows "gw_inv kk ms X s'"
proof -
  let ?r = "\<lambda>s. snd (uc_gateway_get_random e s)"
  have "gw_inv kk ms X (?r (?r (?r s)))" using i by (simp add: get_random_inv)
  then show ?thesis using c i
    by (auto simp: uc_wiota_gateway_set_id_def Let_def delay_frame_inv gw_inv_emit split del: if_split split: if_split_asm)
qed

lemma send_auth_req_inv:
  "uc_wiota_gateway_send_auth_req e s = Some (r, s') \<Longrightarrow> gw_inv kk ms X s \<Longrightarrow> gw_inv kk ms X s'"
  by (auto simp: uc_wiota_gateway_send_auth_req_def Let_def
      dest: send_ps_inv calc_auth_time_slot_inv set_id_inv)

lemma uplink_inv:
  "uc_wiota_gateway_version_msg e s = Some (r1, s') \<Longrightarrow> gw_inv kk ms X s \<Longrightarrow> gw_inv kk ms X s'"
  "uc_wiota_gateway_send_ota_req_msg e s = Some (r2, s') \<Longrightarrow> gw_inv kk ms X s \<Longrightarrow> gw_inv kk ms X s'"
  "uc_wiota_gateway_ota_req e s = Some (r3, s') \<Longrightarrow> gw_inv kk ms X s \<Longrightarrow> gw_inv kk ms X s'"
  "uc_wiota_gateway_state_update_info_msg e s = Some (r4, s') \<Longrightarrow> gw_inv kk ms X s \<Longrightarrow> gw_inv kk ms X s'"
  by (auto simp: uc_wiota_gateway_version_msg_def uc_wiota_gateway_send_ota_req_msg_def Let_def
      uc_wiota_gateway_ota_req_def uc_wiota_gateway_state_update_info_msg_def
      split: if_split_asm dest: send_ps_inv)

lemma rtc_inv:
  "await_rtc e fmt cb s = Some (r, s') \<Longrightarrow> gw_inv kk ms X s \<Longrightarrow> gw_inv kk ms X s'"
  "gw_inv kk ms X s \<Longrightarrow> gw_inv kk ms X (end_rtc s)"
  by (auto simp: await_rtc_def end_rtc_def uc_wiota_gateway_register_get_rtc_cb_def Let_def
      gw_inv_fields gw_inv_emit)

lemma get_rtc_inv:
  "uc_wiota_gateway_get_rtc e fmt cb s = Some (r, s') \<Longrightarrow> gw_inv kk ms X s \<Longrightarrow> gw_inv kk ms X s'"
  by (auto simp: uc_wiota_gateway_get_rtc_def split: if_split_asm dest: send_ps_inv rtc_inv(1) intro: rtc_inv(2))

lemma sync_paging_inv:
  "uc_gateway_enter_sync_paging_by_time_slot e s = Some s' \<Longrightarrow> gw_inv kk ms X s \<Longrightarrow> gw_inv kk ms X s'"
  by (auto simp: uc_gateway_enter_sync_paging_by_time_slot_def ask_def Let_def gw_inv_emit
      split del: if_split split: if_split_asm prod.splits)

section \<open>Updates over the air\<close>

lemma in_upgrade_range_inv:
  "in_upgrade_range e m s = Some (b, s') \<Longrightarrow> gw_inv kk ms X s \<Longrightarrow> gw_inv kk ms X s'"
  by (auto simp: in_upgrade_range_def gw_inv_gm split del: if_split split: if_split_asm)

lemma upgrade_decision_inv: "gw_inv kk ms X s \<Longrightarrow> gw_inv kk ms X (snd (upgrade_decision ex n p s))"
  by (auto simp: upgrade_decision_def gw_inv_gm clear_state_inv split: uc_gateway_ota_state.splits)

lemma check_required_inv:
  assumes c: "uc_wiota_gateway_check_if_upgrade_required e m ex s = Some (b, s')" and i: "gw_inv kk ms X s"
  shows "gw_inv kk ms X s'"
proof -
  obtain r s1 f n p where r: "in_upgrade_range e m s = Some (r, s1)"
      "(if f then upgrade_decision ex n p s1 else (False, s1)) = (b, s')"
    using c by (auto simp: uc_wiota_gateway_check_if_upgrade_required_def split del: if_split)
  then show ?thesis
    using in_upgrade_range_inv[OF r(1) i] upgrade_decision_inv[of kk ms X s1 ex n p] by (cases f) auto
qed

lemma strncpy_length: "rt_strncpy d off src n = Some d' \<Longrightarrow> length d' = length d"
  by (auto simp: rt_strncpy_def length_wr)

lemma new_version_inv:
  assumes i: "gw_inv kk ms X s" and v: "rt_strncpy (new_version (gm s)) off src n = Some v"
  shows "gw_inv kk ms X (gm_update (new_version_update (\<lambda>_. v)) s)"
  using gw_inv_lengths[OF i] strncpy_length[OF v] by (intro gw_inv_buffers[OF _ _ _ i]) (simp_all add: buffers_def)

lemma mask_map_inv:
  assumes i: "gw_inv kk ms X s" and m: "length mm = 28"
  shows "gw_inv kk ms X (gm_update (\<lambda>g. g\<lparr>mask_map := mm, ota_recved_len := f g\<rparr>) s)"
    "gw_inv kk ms X (gm_update (\<lambda>g. g\<lparr>ota_state := st, mask_map := mm\<rparr>) s)"
  using gw_inv_lengths[OF i] m by (auto intro!: gw_inv_buffers[OF _ _ _ i] simp: buffers_def)

lemma ota_begin_inv:
  assumes c: "ota_begin e m fs wa s = Some s'" and i: "gw_inv kk ms X s"
  shows "gw_inv kk ms X s'"
proof -
  obtain mcs s1 ut v n t where o:
      "uc_wiota_ota_flash_erase e wa fs (gm_update (\<lambda>g. g\<lparr>mcs_len := mcs,
          block_size := word_of_nat GATEWAY_OTA_BLOCK_SIZE, block_count := blocks_of fs\<rparr>) s) = Some s1"
      "rt_strncpy (new_version (gm s1)) 0 (req_new_version m) n = Some v"
      "call_report GATEWAY_OTA_UPGRADE (uc_gateway_control_ota_timer t (gm_update (new_version_update (\<lambda>_. v))
         (gm_update (\<lambda>g. g\<lparr>bin_addr := wa, ota_state := GATEWAY_OTA_DOWNLOAD, ota_dl_state := 1,
            upgrade_type := ucast (ut :: u32)\<rparr>) s1))) = Some s'"
    using c by (auto simp: ota_begin_def Let_def)
  have "gw_inv kk ms X s1" using flash_inv(2)[OF o(1)] i by (simp add: gw_inv_gm view_def flags_def buffers_def)
  then have "gw_inv kk ms X (gm_update (new_version_update (\<lambda>_. v))
      (gm_update (\<lambda>g. g\<lparr>bin_addr := wa, ota_state := GATEWAY_OTA_DOWNLOAD, ota_dl_state := 1,
         upgrade_type := ucast ut\<rparr>) s1))"
    using o(2) by (intro new_version_inv[where off = 0 and src = "req_new_version m" and n = n])
      (simp_all add: gw_inv_gm view_def flags_def buffers_def)
  then show ?thesis using report_inv(2)[OF o(3)] ota_timer_inv(2) by blast
qed

lemma set_map_bit_length: "set_map_bit mm i = Some mm' \<Longrightarrow> length mm' = length mm"
  by (auto simp: set_map_bit_def)

lemma ota_store_block_inv:
  assumes c: "ota_store_block e m wa s = Some s'" and i: "gw_inv kk ms X s"
  shows "gw_inv kk ms X s'"
proof -
  consider "s' = s" | buf a n s1 mm o' l where "uc_wiota_ota_flash_write e buf a n s = Some s1"
      "set_map_bit (mask_map (gm s1)) o' = Some mm"
      "s' = gm_update (\<lambda>g. g\<lparr>mask_map := mm, ota_recved_len := ota_recved_len g + l\<rparr>) s1"
    using c by (auto simp: ota_store_block_def Let_def split: if_split_asm)
  then show ?thesis
  proof cases
    case 2
    have i1: "gw_inv kk ms X s1" by (rule flash_inv(1)[OF 2(1) i])
    show ?thesis unfolding 2(3)
      using gw_inv_lengths[OF i1] set_map_bit_length[OF 2(2)] by (intro mask_map_inv(1)[OF i1]) simp
  qed (use i in simp)
qed

lemma jump_program_inv: "gw_inv kk ms X s \<Longrightarrow> gw_inv kk ms X (uc_wiota_ota_jump_program n t s)"
  by (simp add: uc_wiota_ota_jump_program_def Let_def gw_inv_emit)

lemma ota_program_inv: "ota_program m fs s = Some s' \<Longrightarrow> gw_inv kk ms X s \<Longrightarrow> gw_inv kk ms X s'"
  by (auto simp: ota_program_def Let_def gw_inv_gm gw_inv_fields
      intro!: jump_program_inv gw_inv_emit elim!: report_inv(2))

lemma ota_hand_over_inv: "ota_hand_over m fs wa s = Some s' \<Longrightarrow> gw_inv kk ms X s \<Longrightarrow> gw_inv kk ms X s'"
  by (auto simp: ota_hand_over_def Let_def gw_inv_emit mask_map_inv(2) split: option.splits)

lemma ota_complete_inv:
  assumes c: "ota_complete e m fs wa s = Some s'" and i: "gw_inv kk ms X s"
  shows "gw_inv kk ms X s'"
proof -
  obtain rc s1 where s1: "uc_wiota_ota_check_flash_data e (unat wa) (unat fs) (req_md5 m)
      (uc_gateway_stop_ota_timer s) = Some (rc, s1)"
    using c by (auto simp: ota_complete_def)
  have i1: "gw_inv kk ms X s1" by (rule check_flash_inv[OF s1 ota_timer_inv(1)[OF i]])
  show ?thesis
  proof (cases "rc = 0")
    case False
    then show ?thesis using c s1 i1 by (auto simp: ota_complete_def intro: clear_state_inv)
  next
    case True
    define s2 where "s2 = gm_update (\<lambda>g. g\<lparr>ota_dl_state := 2, ota_recved_len := fs, upgrade_num := 0\<rparr>) s1"
    have i2: "gw_inv kk ms X s2" using i1 by (simp add: s2_def gw_inv_gm)
    have "ota_program m fs s2 = Some s' \<or> ota_hand_over m fs wa s2 = Some s'"
      using c s1 True by (auto simp: ota_complete_def Let_def s2_def split: if_split_asm)
    then show ?thesis using i2 by (auto dest: ota_program_inv ota_hand_over_inv)
  qed
qed

lemma ota_upgrade_res_inv:
  assumes c: "uc_wiota_gateway_ota_upgrade_res_msg e data s = Some s'" and i: "gw_inv kk ms X s"
  shows "gw_inv kk ms X s'"
proof -
  obtain m fs ex where m: "data = Some m" "req_file_size m = Some fs" "is_ex_mcu_req m = Some ex"
    using c by (auto simp: uc_wiota_gateway_ota_upgrade_res_msg_def)
  define s1 where "s1 = (if ex then gm_update (ota_dev_type_update (\<lambda>_. 1)) s else s)"
  obtain wa mx where tgt: "ota_target e ex s1 = (wa, mx)" by fastforce
  have i1: "gw_inv kk ms X s1" using i by (simp add: s1_def gw_inv_gm)
  show ?thesis
  proof (cases "sint mx < sint fs")
    case True
    then show ?thesis using c m tgt i1 by (simp add: uc_wiota_gateway_ota_upgrade_res_msg_def Let_def s1_def[symmetric])
  next
    case False
    define s2 where "s2 = gm_update (miss_data_invalid_req_update (\<lambda>_. 0)) s1"
    have i2: "gw_inv kk ms X s2" using i1 by (simp add: s2_def gw_inv_gm)
    obtain req s3 where req: "uc_wiota_gateway_check_if_upgrade_required e m ex s2 = Some (req, s3)"
        "(if \<not> req then Some s3
          else do {
            s \<leftarrow> (if ota_state (gm s3) = GATEWAY_OTA_DEFAULT then ota_begin e m fs wa s3 else Some s3);
            if ota_state (gm s) = GATEWAY_OTA_DOWNLOAD
            then do { s \<leftarrow> ota_store_block e m wa s;
                      recved \<leftarrow> uc_wiota_gateway_whether_the_ota_upgrade_data_is_recved s;
                      if recved then ota_complete e m fs wa s else Some s }
            else Some s }) = Some s'"
      using c m tgt False by (auto simp: uc_wiota_gateway_ota_upgrade_res_msg_def Let_def s1_def[symmetric] s2_def[symmetric])
    note i3 = check_required_inv[OF req(1) i2]
    show ?thesis
      using req(2) i3
      by (auto split: if_split_asm dest: ota_begin_inv ota_store_block_inv ota_complete_inv)
  qed
qed

lemma ota_stop_inv:
  "uc_wiota_gateway_ota_upgrade_stop_msg e data s = Some s' \<Longrightarrow> gw_inv kk ms X s \<Longrightarrow> gw_inv kk ms X s'"
  by (auto simp: uc_wiota_gateway_ota_upgrade_stop_msg_def gw_inv_gm ota_timer_inv split del: if_split split: if_split_asm)

lemma ota_state_inv:
  "uc_wiota_gateway_ota_upgrade_state_msg e data s = Some s' \<Longrightarrow> gw_inv kk ms X s \<Longrightarrow> gw_inv kk ms X s'"
  by (auto simp: uc_wiota_gateway_ota_upgrade_state_msg_def Let_def gw_inv_gm ota_timer_inv
      split del: if_split split: if_split_asm)

lemma miss_data_req_inv:
  assumes c: "uc_wiota_gateway_ota_miss_data_req_msg e s = Some s'" and i: "gw_inv kk ms X s"
  shows "gw_inv kk ms X s'"
proof (cases "miss_data_invalid_req (gm s) < 8")
  case False
  then show ?thesis using c i by (auto simp: uc_wiota_gateway_ota_miss_data_req_msg_def intro: ota_timer_inv)
next
  case True
  define s1 where "s1 = gm_update (miss_data_invalid_req_update (\<lambda>n. n + 1)) s"
  have i1: "gw_inv kk ms X s1" using i by (simp add: s1_def gw_inv_gm)
  obtain d h sent s2 where s2: "uc_wiota_gateway_send_ps_cmd_data e d h s1 = Some (sent, s2)"
      "(\<exists>t k. s' = (uc_gateway_control_ota_timer t s2)\<lparr>miss_data_continue_couter := k\<rparr>) \<or>
       s' = (uc_gateway_stop_ota_timer s2)\<lparr>miss_data_continue_couter := 0\<rparr>"
    using c True
    by (fastforce simp: uc_wiota_gateway_ota_miss_data_req_msg_def Let_def s1_def[symmetric] split: if_split_asm)
  show ?thesis using s2(2) send_ps_inv[OF s2(1) i1] by (auto simp: gw_inv_fields ota_timer_inv)
qed

section \<open>The task\<close>

lemma accept_inv:
  "gw_inv kk ms X s \<Longrightarrow> gw_inv kk ms X (accept_identity e g fn w s)"
  "gw_inv kk ms X s \<Longrightarrow> gw_inv kk ms X (lengthen_active e s)"
  by (simp_all add: accept_identity_def lengthen_active_def Let_def gw_inv_fields gw_inv_emit gw_inv_gm delay_frame_inv)

lemma auth_res_inv:
  assumes c: "uc_wiota_gateway_auth_res_msg e data g s = Some s'" and i: "gw_inv kk ms X s"
  shows "gw_inv kk ms X s'"
proof -
  obtain m st fn w where m: "data = Some m" "rd m 0 = Some st" "rd16 m 2 = Some fn" "rd32 m 4 = Some w"
    using c by (auto simp: uc_wiota_gateway_auth_res_msg_def)
  show ?thesis
    using c m i unfolding uc_wiota_gateway_auth_res_msg_def Let_def
    by (auto split: if_split_asm intro!: report_inv(1) accept_inv
        dest: send_auth_req_inv simp: gw_inv_fields gw_inv_emit delay_frame_inv)
qed

lemma recv_msgs_inv:
  "gw_inv kk ms X s \<Longrightarrow> gw_inv kk ms X (uc_wiota_gateway_recv_dl_msg bs fl t s)"
  "uc_wiota_gateway_recv_rtc_res_msg data s = Some s' \<Longrightarrow> gw_inv kk ms X s \<Longrightarrow> gw_inv kk ms X s'"
  by (auto simp: uc_wiota_gateway_recv_dl_msg_def uc_wiota_gateway_recv_rtc_res_msg_def Let_def gw_inv_emit
      split: option.splits if_split_asm)

lemma dispatch_inv:
  assumes c: "dispatch e h blk t s = Some s'" and i: "gw_inv kk ms X s"
  shows "gw_inv kk ms X s'"
  using c i unfolding dispatch_def Let_def
  by (auto split: if_split_asm intro: recv_msgs_inv(1) simp: gw_inv_emit
      dest: auth_res_inv ota_upgrade_res_inv ota_stop_inv ota_state_inv recv_msgs_inv(2) send_data_inv uplink_inv(1))

lemma analisys_dl_inv:
  assumes c: "uc_wiota_gateway_analisys_dl_msg e data t s = Some s'" and i: "gw_inv kk ms X s"
  shows "gw_inv kk ms X s'"
proof -
  obtain rc blk h s1 where d: "app_data_decoding e data (mem_len data) zero_header s = Some (rc, blk, h, s1)"
    using c by (auto simp: uc_wiota_gateway_analisys_dl_msg_def)
  note i1 = decoding_inv[OF d i]
  show ?thesis
    using c d gw_inv_weaken[OF i1, of X] free_block_inv[OF i1] dispatch_inv[OF _ i1] free_block_inv
    by (auto simp: uc_wiota_gateway_analisys_dl_msg_def split: if_split_asm)
qed

lemma handle_ts_info_inv:
  "handle_ts_info e data s = Some s' \<Longrightarrow> gw_inv kk ms X s \<Longrightarrow> gw_inv kk ms X s'"
  by (auto simp: handle_ts_info_def Let_def gw_inv_emit gw_inv_gm uc_wiota_gateway_set_auth_period_def)

lemma auth_message_inv:
  assumes c: "auth_message e mode buf data r t ts s = Some (nxt, s')"
    and i: "gw_inv kk ms (msg_ptrs (Dl_msg buf data ty) + X) s"
  shows "gw_inv kk ms X s'"
proof -
  obtain rc blk h s1 where d: "app_data_decoding e (map_option snd data) (mem_len (map_option snd data)) zero_header s = Some (rc, blk, h, s1)"
    using c by (auto simp: auth_message_def)
  note i1 = decoding_inv[OF d i]
  show ?thesis
  proof (cases "rc = 0")
    case False
    then show ?thesis using c d gw_inv_weaken[OF i1, of X] by (auto simp: auth_message_def)
  next
    case True
    obtain is_res ts2 s2 where s2: "gw_inv kk ms (blk_ptr blk + (msg_ptrs (Dl_msg buf data ty) + X)) s2"
        "(let s = rt_free (Some buf) (rt_free (map_option fst data) (rt_free (block_ptr blk) s2))
          in if is_res then Some (Auth_break, s)
            else if ts2 = 1 then
              do { (sent, s) \<leftarrow> uc_wiota_gateway_send_auth_req e s;
                   if sent = 0 then Some (Auth_return 1, s)
                   else (let (now, s) = ask Q_tick (e_tick e) s in Some (Auth_go now 6000 0xff, s)) }
            else Some (Auth_go r t ts2, s)) = Some (nxt, s')"
      using c d True i1
      by (auto simp: auth_message_def split: if_split_asm dest: auth_res_inv handle_ts_info_inv)
    have "gw_inv kk ms (add_mset buf (data_ptr data + X)) (rt_free (block_ptr blk) s2)"
      using free_block_inv[OF s2(1)] by (simp add: msg_ptrs_Dl)
    then have "gw_inv kk ms X (rt_free (Some buf) (rt_free (map_option fst data) (rt_free (block_ptr blk) s2)))"
      by (intro gw_inv_free free_data_inv) simp
    then show ?thesis using s2(2)
      by (auto simp: Let_def ask_def gw_inv_emit split: if_split_asm dest: send_auth_req_inv)
  qed
qed

lemma gw_inv_nil: "gw_inv kk ms X s \<Longrightarrow> gw_inv kk [] X s"
  using gw_inv_prefix[of _ "[]" ms] by simp

lemma recv_queue_inv_cases:
  assumes "uc_wiota_gateway_recv_queue e t s = Some (r, m, s')" "gw_inv kk ms X s"
  obtains (got) x where "r = RT_EOK" "m = Some x" "gw_inv kk (tl ms) (msg_ptrs x + X) s'" "ms \<noteq> [] \<Longrightarrow> x = hd ms"
    | (timeout) "r \<noteq> RT_EOK" "m = None" "gw_inv kk ms X s'" "ms = []"
  using recv_queue_inv[OF assms] by (auto split: if_splits)

lemma auth_loop_inv:
  assumes "auth_loop e mode r t ts s = Some (c, s')" "gw_inv kk ms X s"
  shows "gw_inv kk [] X s'"
proof -
  have "\<forall>ms. gw_inv kk ms X s \<longrightarrow> gw_inv kk [] X (snd (c, s'))"
  proof (rule auth_loop.raw_induct[where P = "\<lambda>e mode r t ts s y. \<forall>ms. gw_inv kk ms X s \<longrightarrow> gw_inv kk [] X (snd y)",
        OF _ assms(1)], intro allI impI)
    fix loop e mode r t ts s y ms
    assume IH: "\<And>mode r t ts s b y. loop mode r t ts s b = Some y \<Longrightarrow>
        \<forall>ms. gw_inv kk ms X b \<longrightarrow> gw_inv kk [] X (snd y)"
      and body: "(case ask Q_tick (e_tick e) s of (now, s) \<Rightarrow>
        if now - r < t then
          do { (r', m, s) \<leftarrow> uc_wiota_gateway_recv_queue e (uint t) s;
               if r' \<noteq> RT_EOK then Some (2, s)
               else (case m of
                  None \<Rightarrow> loop e mode r t ts s
                | Some (Dl_msg buf data type) \<Rightarrow>
                    do { (nxt, s) \<leftarrow> auth_message e mode buf data r t ts s;
                         (case nxt of
                            Auth_return c \<Rightarrow> Some (c, s)
                          | Auth_break \<Rightarrow> Some (auth_verdict s, s)
                          | Auth_go r t ts \<Rightarrow> loop e mode r t ts s) }
                | Some _ \<Rightarrow> loop e mode r t ts s) }
        else Some (auth_verdict s, s)) = Some y"
      and i: "gw_inv kk ms X s"
    have IH': "gw_inv kk [] X (snd y)" if "loop e mode r t ts s = Some y" "gw_inv kk ms X s" for e mode r t ts s y ms
      using IH[OF that(1)] that(2) by blast
    let ?s = "emit (C_query Q_tick) s"
    have i0: "gw_inv kk ms X ?s" using i by (simp add: gw_inv_emit)
    show "gw_inv kk [] X (snd y)"
    proof (cases "e_tick e (hist s) - r < t")
      case False
      then show ?thesis using body gw_inv_nil[OF i0] by (auto simp: ask_def)
    next
      case True
      then obtain r' m s1 where q: "uc_wiota_gateway_recv_queue e (uint t) ?s = Some (r', m, s1)"
        using body by (auto simp: ask_def)
      from q i0 show ?thesis
      proof (cases rule: recv_queue_inv_cases)
        case timeout
        then show ?thesis using body q True gw_inv_nil by (auto simp: ask_def)
      next
        case (got x)
        show ?thesis
        proof (cases x)
          case (Dl_msg buf data ty)
          then obtain nxt s2 where n: "auth_message e mode buf data r t ts s1 = Some (nxt, s2)"
            using body q True got(1,2) by (auto simp: ask_def)
          have "gw_inv kk (tl ms) X s2" using auth_message_inv[OF n got(3)[unfolded Dl_msg]] .
          then show ?thesis
            using body q True got(1,2) Dl_msg n IH' gw_inv_nil by (cases nxt) (auto simp: ask_def)
        qed (use body q True got IH' in \<open>auto simp: ask_def\<close>)
      qed
    qed
  qed
  then show ?thesis using assms(2) by fastforce
qed

lemma auth_inv:
  assumes c: "uc_wiota_gateway_auth e mode s = Some (r, s')" and i: "gw_inv kk ms X s"
  shows "gw_inv kk [] X s'"
proof -
  consider sent where "uc_wiota_gateway_send_auth_req e s = Some (sent, s')"
    | k t ts s1 where "auth_loop e mode k t ts (emit (C_query Q_tick) s1) = Some (r, s')"
        "s1 = s \<or> (\<exists>sent. uc_wiota_gateway_send_auth_req e s = Some (sent, s1))"
    using c by (auto simp: uc_wiota_gateway_auth_def ask_def split: if_split_asm)
  then show ?thesis
  proof cases
    case 1
    show ?thesis using send_auth_req_inv[OF 1 i] by (rule gw_inv_nil)
  next
    case 2
    have "gw_inv kk ms X s1" using 2(2) i send_auth_req_inv by blast
    then show ?thesis by (intro auth_loop_inv[OF 2(1), of kk ms]) (simp add: gw_inv_emit)
  qed
qed

lemma auth_attempts_inv:
  "auth_attempts e mode n s = Some (r, s') \<Longrightarrow> gw_inv kk ms X s \<Longrightarrow> gw_inv kk [] X s'"
proof (induction n arbitrary: s ms)
  case (Suc n)
  let ?s = "emit (C_query Q_state) s"
  have i: "gw_inv kk ms X ?s" using Suc.prems by (simp add: gw_inv_emit)
  show ?case
  proof (cases "e_state e (hist s) = UC_STATUS_SYNC")
    case False
    then show ?thesis using Suc.prems gw_inv_nil[OF i] by (simp add: ask_def)
  next
    case True
    then obtain c s1 where c: "uc_wiota_gateway_auth e mode ?s = Some (c, s1)"
        "(if c = 0 then Some (Some n, s1) else auth_attempts e mode n s1) = Some (r, s')"
      using Suc.prems by (auto simp: ask_def)
    show ?thesis using c(2) auth_inv[OF c(1) i] Suc.IH[of s1 "[]"] by (auto split: if_splits)
  qed
qed (auto intro: gw_inv_nil)

section \<open>Start and end\<close>

lemma start_init_inv:
  assumes c: "start_init e key s = Some s'" and i: "gw_inv kk ms X s"
  shows "gw_inv [0, 0, 0] [] X s'"
proof -
  define g where "g = zero_mode\<lparr>gw_verity := gw_verity (gm s), is_force_active := is_force_active (gm s)\<rparr>"
  have g: "length (auth_code g) = 16" "length (device_type g) = 16" "length (new_version g) = 16"
      "length (mask_map g) = 28" "gateway_mq g = None" "flags g = [0, 0, 0]"
    by (simp_all add: g_def zero_mode_def flags_def)
  obtain n code dev where n: "rt_strncpy (auth_code g) 0 key n = Some code"
      "rt_strncpy (device_type g) 0 (cstr ''iote'') 4 = Some dev"
      "s' = s\<lparr>gm := g\<lparr>auth_code := code, device_type := dev, gateway_mode := 1\<rparr>\<rparr>"
    using c by (auto simp: start_init_def g_def[symmetric])
  have "holds X (hist s)" using i by (auto simp: gw_inv_def elim: holds_mono)
  then show ?thesis
    using g strncpy_length[OF n(1)] strncpy_length[OF n(2)]
    by (simp add: n(3) gw_inv_def owned_def queue_ok_def messages_def buffers_def flags_def)
qed

lemma create_queue_inv:
  assumes c: "uc_wiota_gateway_create_queue e n s = (r, s')" and i: "gw_inv [a, b, 0] ms X s"
  shows "case r of None \<Rightarrow> gw_inv [a, b, 0] [] X s' | Some q \<Rightarrow> gw_inv [a, b, 1] [] X (gm_update (gateway_mq_update (\<lambda>_. Some q)) s')"
proof -
  have mq: "gateway_mq (gm s) = None" using i by (simp add: gw_inv_def flags_def split: if_splits)
  show ?thesis
  proof (cases rule: rt_malloc_cases[of e s sizeof_rt_messagequeue])
    case fail
    then have "r = None" "s' = emit (C_malloc_fail sizeof_rt_messagequeue) s"
      using c by (simp_all add: uc_wiota_gateway_create_queue_def)
    then show ?thesis using gw_inv_malloc_fail[OF gw_inv_nil[OF i]] by simp
  next
    case ok
    let ?p = "length (hist s)"
    let ?s = "emit (C_malloc ?p sizeof_rt_messagequeue) s"
    have i1: "gw_inv [a, b, 0] [] (add_mset ?p X) ?s" by (rule gw_inv_malloc[OF gw_inv_nil[OF i] refl])
    show ?thesis
    proof (cases rule: rt_malloc_cases[of e ?s "4 * n"])
      case fail
      then have "r = None" "s' = rt_free (Some ?p) (emit (C_malloc_fail (4 * n)) ?s)"
        using c ok by (simp_all add: uc_wiota_gateway_create_queue_def)
      then show ?thesis using i1 by (auto intro!: gw_inv_free gw_inv_malloc_fail)
    next
      case ok2: ok
      let ?q = "length (hist ?s)"
      have r: "r = Some (?p, ?q, rt_mq_init 4 (4 * n))" "s' = emit (C_ipc I_mq_init) (emit (C_malloc ?q (4 * n)) ?s)"
        using c ok ok2(2) by (simp_all add: uc_wiota_gateway_create_queue_def)
      have "gw_inv [a, b, 0] [] (add_mset ?q (add_mset ?p X)) s'"
        using gw_inv_malloc[OF i1 refl] by (simp add: r(2) gw_inv_emit)
      then show ?thesis
        using mq init_ok[of "rt_mq_init 4 (4 * n) :: uc_wiota_gateway_msg rt_messagequeue", OF refl]
        by (simp add: r gw_inv_def owned_def queue_ok_def messages_def buffers_def flags_def add_mset_commute)
    qed
  qed
qed

lemma start_radio_inv: "start_radio e mode s = Some s' \<Longrightarrow> gw_inv kk ms X s \<Longrightarrow> gw_inv kk ms X s'"
  by (auto simp: start_radio_def Let_def gw_inv_fields gw_inv_emit gw_inv_gm split: if_split_asm)

lemma gw_task_inv: "uc_wiota_gw_task e s = (r, s') \<Longrightarrow> gw_inv kk ms X s \<Longrightarrow> gw_inv kk ms X s'"
  by (auto simp: uc_wiota_gw_task_def uc_wiota_gateway_set_allow_run_flag_def Let_def gw_inv_emit gw_inv_gm
      split: if_split_asm)

text \<open>
  When the timer or the thread cannot be created, the queue is freed while \<^verbatim>\<open>gateway_mq\<close> still
  points to it: the start then returns 5 or 7, and only then the invariant may be lost.
\<close>

lemma start_finish_inv:
  assumes c: "start_finish e mode auth freq s = Some (r, s')" and i: "gw_inv kk ms X s"
  shows "r \<in> {5, 7} \<or> gw_inv kk ms X s'"
proof -
  define s1 where "s1 = emit (C_ipc I_timer_create) (s\<lparr>wiota_gw_connect_flag := UC_GW_CONNECT_SUCESS\<rparr>)"
  define s2 where "s2 = gm_update (ota_timer_update (\<lambda>_. e_timer_create e (hist s1))) s1"
  have i2: "gw_inv kk ms X s2" using i by (simp add: s2_def s1_def gw_inv_fields gw_inv_emit gw_inv_gm)
  obtain rc s3 where t: "uc_wiota_gw_task e s2 = (rc, s3)" by fastforce
  have i3: "gw_inv kk ms X s3" by (rule gw_task_inv[OF t i2])
  show ?thesis
  proof (cases "e_timer_create e (hist s1)")
    case True
    then have "ota_timer (gm s2)" by (simp add: s2_def)
    then have "(if rc \<noteq> 0
        then do { (_, s) \<leftarrow> uc_wiota_gateway_dele_queue s3;
                  Some (7, uc_wiota_gateway_del_fn_sem (emit (C_ipc I_timer_delete) s)) }
        else do { s \<leftarrow> (case freq of None \<Rightarrow> Some s3
                             | Some f \<Rightarrow> do { bs \<leftarrow> rdn f 0 8; Some (s3\<lparr>gw_freq_list := bs\<rparr>) });
                  Some (0, if mode = UC_TRANSMISSION_MODE \<or> \<not> auth
                           then s\<lparr>uc_gateway_state := GATEWAY_NORMAL\<rparr> else s) }) = Some (r, s')"
      using c t by (simp only: start_finish_def Let_def s1_def[symmetric] s2_def[symmetric] prod.case not_True_eq_False if_False)
    note fin = this
    show ?thesis
    proof (cases "rc = 0")
      case True
      obtain s4 where s4: "(case freq of None \<Rightarrow> Some s3
            | Some f \<Rightarrow> do { bs \<leftarrow> rdn f 0 8; Some (s3\<lparr>gw_freq_list := bs\<rparr>) }) = Some s4"
          "s' = (if mode = UC_TRANSMISSION_MODE \<or> \<not> auth then s4\<lparr>uc_gateway_state := GATEWAY_NORMAL\<rparr> else s4)"
        using fin True by (auto simp del: split_paired_Ex)
      have "gw_inv kk ms X s4"
      proof (cases freq)
        case (Some f)
        then obtain bs where "s4 = s3\<lparr>gw_freq_list := bs\<rparr>" using s4(1) by auto
        then show ?thesis using i3 by (simp add: gw_inv_fields)
      qed (use s4(1) i3 in simp)
      then show ?thesis using s4(2) by (simp add: gw_inv_fields)
    qed (use fin in auto)
  next
    case False
    then show ?thesis using c by (auto simp: start_finish_def Let_def s1_def[symmetric])
  qed
qed

lemma start_connect_inv:
  assumes c: "start_connect e mode auth freq s = Some (r, s')" and i: "gw_inv kk ms X s"
  shows "r \<in> {5, 7} \<or> gw_inv kk [] X s'"
proof (cases auth)
  case True
  then obtain left s1 where "auth_attempts e mode 3 s = Some (left, s1)"
      "s' = s1 \<or> start_finish e mode auth freq s1 = Some (r, s')"
    using c by (auto simp: start_connect_def split: if_split_asm)
  then show ?thesis using auth_attempts_inv i start_finish_inv by blast
next
  case False
  then obtain rc s1 where s1: "uc_wiota_gateway_set_id e s = Some (rc, s1)"
      "start_finish e mode auth freq s1 = Some (r, s')"
    using c by (auto simp: start_connect_def)
  show ?thesis using start_finish_inv[OF s1(2) set_id_inv[OF s1(1) i]] gw_inv_nil by blast
qed

lemma start_cases:
  assumes c: "uc_wiota_gateway_start e mode key freq s = Some (r, s')"
  obtains (refused) "s' = s" "r \<in> {1, 3, 9}"
    | (begun) k s1 a where "start_init e k s = Some s1"
        "(case uc_wiota_gateway_create_queue e 8 s1 of
            (None, s) \<Rightarrow> Some (4, s)
          | (Some q, s) \<Rightarrow>
              do { s \<leftarrow> start_radio e mode (gm_update (gateway_mq_update (\<lambda>_. Some q)) s);
                   start_connect e mode a freq s }) = Some (r, s')"
  using c by (auto simp: uc_wiota_gateway_start_def Let_def split: if_split_asm option.split_asm)

lemma start_inv:
  assumes c: "uc_wiota_gateway_start e mode key freq s = Some (r, s')" and i: "gw_inv kk ms X s"
  shows "s' = s \<and> r \<noteq> 0 \<or> r \<in> {5, 7} \<or> (\<exists>q. gw_inv [0, 0, q] [] X s' \<and> (r = 0 \<longrightarrow> q = 1))"
  using c
proof (cases rule: start_cases)
    case 2: (begun k s1 a)
    note i1 = start_init_inv[OF 2(1) i]
    obtain q s2 where cq: "uc_wiota_gateway_create_queue e 8 s1 = (q, s2)" by fastforce
    note q = create_queue_inv[OF cq i1]
    show ?thesis
    proof (cases q)
      case None
      then have "r = 4" "gw_inv [0, 0, 0] [] X s'" using 2(2) q cq by simp_all
      then show ?thesis by auto
    next
      case (Some p)
      then obtain s3 where "start_radio e mode (gm_update (gateway_mq_update (\<lambda>_. Some p)) s2) = Some s3"
          "start_connect e mode a freq s3 = Some (r, s')"
        using 2(2) cq by auto
      then have "r \<in> {5, 7} \<or> gw_inv [0, 0, 1] [] X s'" using q Some start_radio_inv start_connect_inv by fastforce
      then show ?thesis by blast
    qed
qed auto

text \<open>When both can always be created, no start fails in this way.\<close>

definition creates :: "env \<Rightarrow> bool" where
  "creates e \<longleftrightarrow> (\<forall>h. e_timer_create e h \<and> e_thread_create e h)"

lemma start_creates:
  assumes "uc_wiota_gateway_start e mode key freq s = Some (r, s')" "creates e"
  shows "r \<notin> {5, 7}"
proof -
  have f: "r \<notin> {5, 7}" if "start_finish e mode a freq t = Some (r, s')" for a t
    using that assms(2)
    by (auto simp: start_finish_def creates_def uc_wiota_gw_task_def Let_def split: option.splits if_split_asm)
  have g: "r \<notin> {5, 7}" if c: "start_connect e mode a freq t = Some (r, s')" for a t
  proof (cases a)
    case True
    then consider "r = 8" | u where "start_finish e mode a freq u = Some (r, s')"
      using c by (auto simp: start_connect_def split: if_split_asm)
    then show ?thesis using f by cases auto
  next
    case False
    then show ?thesis using c f by (auto simp: start_connect_def)
  qed
  show ?thesis
    using assms(1)
  proof (cases rule: start_cases)
    case (begun k s1 a)
    obtain q s2 where q: "uc_wiota_gateway_create_queue e 8 s1 = (q, s2)" by fastforce
    then show ?thesis using begun(2) g by (cases q) auto
  qed auto
qed

lemma end_request_inv:
  assumes c: "end_request s = Some s'" and i: "gw_inv kk ms X s"
  shows "\<exists>run. gw_inv [run, kk ! 1, kk ! 2] ms X s' \<and> (run = 0 \<or> run = kk ! 0) \<and>
    (run \<noteq> 0 \<longrightarrow> gateway_mq (gm s') = None \<or> Exit_msg \<in> set (messages (gateway_mq (gm s'))))"
  using c unfolding end_request_def clean_data_request_def Let_def
  by (rule send_exit_inv)
    (simp add: uc_wiota_gateway_set_allow_run_flag_def gw_inv_fields gw_inv_emit gw_inv_gm i)

text \<open>Draining frees the blocks of the messages and nothing else.\<close>

lemma free_hist: "rt_free p s = s\<lparr>hist := (case p of None \<Rightarrow> hist s | Some a \<Rightarrow> C_free a # hist s)\<rparr>"
  by (simp add: rt_free_def emit_def split: option.splits)

lemma drain_queue_holds:
  assumes "drain_queue q s = Some (q', s')" "mq_ok q" "holds (X + queue_ptrs (mq_contents q)) (hist s)"
  shows "only_hist s s' \<and> holds X (hist s') \<and> mq_ok q' \<and> mq_contents q' = []"
  using assms
proof (induction q s rule: drain_queue.induct)
  case (1 q s)
  show ?case
  proof (cases rule: mq.recv_result[OF "1.prems"(2), case_names 1 2])
    case 2
    then show ?thesis using "1.prems" by (simp add: drain_queue.simps[of q s] rt_codes)
  next
    case (1 x xs q1)
    show ?thesis
    proof (cases x)
      case (Dl_msg b d t)
      let ?s = "rt_free (Some b) (rt_free (map_option fst d) s)"
      have "drain_queue q1 ?s = Some (q', s')"
        using "1.prems"(1) 1 Dl_msg by (simp add: drain_queue.simps[of q s])
      moreover have "holds (X + queue_ptrs (mq_contents q1)) (hist ?s)"
        using "1.prems"(3) 1 Dl_msg by (cases d) (auto simp: free_hist add_mset_commute intro!: holds_free)
      ultimately have "only_hist ?s s' \<and> holds X (hist s') \<and> mq_ok q' \<and> mq_contents q' = []"
        using "1.IH"(2)[OF 1(2) refl refl refl refl Dl_msg] 1 by blast
      moreover have "only_hist s ?s" by simp
      ultimately show ?thesis using only_hist_trans by blast
    qed (use "1.prems" 1 "1.IH" in \<open>auto simp: drain_queue.simps[of q s]\<close>)
  qed
qed

lemma end_finish_inv:
  assumes c: "end_finish s = Some s'" and i: "gw_inv kk ms X s"
  shows "gw_inv [kk ! 0, kk ! 1, 0] [] X s'"
proof -
  define s1 where "s1 = (emit (C_setup (S_register_recv_cb CB_wiota_recv)) (emit (C_setup (S_set_is_report_fn 0)) s))
      \<lparr>recv_cb := CB_wiota_recv\<rparr>"
  define s2 where "s2 = (if ota_timer (gm s1)
      then gm_update (ota_timer_update (\<lambda>_. False)) (emit (C_ipc I_timer_delete) s1) else s1)"
  define s3 where "s3 = uc_wiota_gateway_del_fn_sem s2"
  define s4 where "s4 = (if is_ts_mode (gm s3) \<noteq> 0
      then emit (C_setup S_back_to_idle) (emit (C_wiota (W_set_active_time (active_time (gm s3)))) s3) else s3)"
  define s5 where "s5 = gm_update (\<lambda>g. g\<lparr>gateway_handler := False, gateway_mode := 0\<rparr>) s4"
  have "gw_inv kk ms X s2" using i by (simp add: s1_def s2_def gw_inv_fields gw_inv_emit gw_inv_gm)
  then have i5: "gw_inv kk ms X s5"
    by (simp add: s3_def s4_def s5_def del_fn_sem_inv gw_inv_emit gw_inv_gm view_def flags_def buffers_def)
  have c5: "(case gateway_mq (gm s5) of
        None \<Rightarrow> Some s5
      | Some (p, pool, q) \<Rightarrow>
          do { (q, s) \<leftarrow> drain_queue q s5;
               (_, s) \<leftarrow> uc_wiota_gateway_dele_queue (gm_update (gateway_mq_update (\<lambda>_. Some (p, pool, q))) s);
               Some (gm_update (gateway_mq_update (\<lambda>_. None)) s) })
      \<bind> (\<lambda>s. Some (s\<lparr>uc_gateway_state := GATEWAY_END\<rparr>)) = Some s'"
    using c unfolding end_finish_def Let_def s1_def[symmetric] s2_def[symmetric] s3_def[symmetric]
      s4_def[symmetric] s5_def[symmetric] .
  show ?thesis
  proof (cases "gateway_mq (gm s5)")
    case None
    then show ?thesis using c5 gw_inv_nil[OF i5] by (auto simp: gw_inv_def flags_def buffers_def)
  next
    case (Some pq)
    obtain p pool q where q: "gateway_mq (gm s5) = Some (p, pool, q)" using Some by (cases pq) auto
    obtain q' s6 where d: "drain_queue q s5 = Some (q', s6)"
        "s' = (gm_update (gateway_mq_update (\<lambda>_. None)) (rt_free (Some p) (rt_free (Some pool)
            (emit (C_ipc I_mq_detach) (gm_update (gateway_mq_update (\<lambda>_. Some (p, pool, q'))) s6)))))
            \<lparr>uc_gateway_state := GATEWAY_END\<rparr>"
      using c5 q by (auto simp: uc_wiota_gateway_dele_queue_def)
    have "holds ((X + {#p, pool#}) + queue_ptrs (mq_contents q)) (hist s5)" "mq_ok q"
      using i5 q by (simp_all add: gw_inv_def owned_def queue_ok_def)
    from drain_queue_holds[OF d(1) this(2,1)] have h: "only_hist s5 s6" "holds (X + {#p, pool#}) (hist s6)"
      by simp_all
    have g: "gm s6 = gm s5"
      using h(1) unfolding only_hist_def by (metis gw.select_convs(1) gw.surjective sys.update_convs(1))
    have "holds X (C_free p # C_free pool # C_ipc I_mq_detach # hist s6)"
      using h(2) by (intro holds_free holds_skip) (simp_all add: add_mset_commute)
    then show ?thesis
      using i5 by (auto simp: d(2) g gw_inv_def free_hist emit_def owned_def queue_ok_def messages_def buffers_def flags_def)
  qed
qed

lemma state_judge_inv:
  "wiota_state_judge e l f s = (j, l', f', s') \<Longrightarrow> gw_inv kk ms X s \<Longrightarrow> gw_inv kk ms X s'"
  by (auto simp: wiota_state_judge_def Let_def ask_def gw_inv_fields gw_inv_emit report_inv(1)
      split: wiota_status.splits if_split_asm prod.splits)

lemma set_exit_flag_inv: "gw_inv kk ms X s \<Longrightarrow> gw_inv [kk ! 0, 1, kk ! 2] ms X (gm_update (exit_flag_update (\<lambda>_. 1)) s)"
  by (auto simp: gw_inv_def flags_def buffers_def)

lemma task_break_inv: "gw_inv kk ms X s \<Longrightarrow> gw_inv [kk ! 0, 1, kk ! 2] ms X (task_break s)"
  unfolding task_break_def by (rule set_exit_flag_inv) (simp add: gw_inv_fields)

lemma task_message_inv:
  assumes c: "task_message e m s = Some (stop, s')" and i: "gw_inv kk ms (msg_ptrs m + X) s"
  shows "gw_inv (if stop then [kk ! 0, 1, kk ! 2] else kk) ms X s' \<and> (stop \<longleftrightarrow> m = Exit_msg)"
proof (cases m)
  case (Dl_msg b d t)
  obtain s1 where s1: "uc_wiota_gateway_analisys_dl_msg e (map_option snd d) t s = Some s1"
      "s' = rt_free (Some b) (rt_free (map_option fst d) s1)"
    using c Dl_msg by (auto simp: task_message_def)
  have "gw_inv kk ms (data_ptr d + add_mset b X) s1"
    using analisys_dl_inv[OF s1(1) i] by (simp add: Dl_msg msg_ptrs_Dl)
  moreover have "\<not> stop" using c Dl_msg by (auto simp: task_message_def)
  ultimately show ?thesis using Dl_msg unfolding s1(2) by (simp add: gw_inv_free free_data_inv)
next
  case Static_msg
  then show ?thesis using c i by (auto simp: task_message_def Let_def split: if_split_asm
      dest: uplink_inv(2,4) miss_data_req_inv)
next
  case Exit_msg
  then show ?thesis using c i set_exit_flag_inv[of kk ms X s] by (simp add: task_message_def)
qed

text \<open>
  An iteration keeps the invariant; unless the task ends it has taken the first message, and it
  ends when that message is the exit message.
\<close>

lemma task_iteration_inv:
  assumes c: "task_iteration e t l f s = Some (pc, s')" and i: "gw_inv kk ms X s"
  shows "pc = T_done \<and> gw_inv [kk ! 0, 1, kk ! 2] [] X s' \<or>
    (\<exists>l' f'. pc = T_run t l' f') \<and> gw_inv kk (tl ms) X s' \<and> (ms \<noteq> [] \<longrightarrow> hd ms \<noteq> Exit_msg)"
proof -
  consider (brk) "pc = T_done" "s' = task_break s"
    | (go) r m s1 where "uc_wiota_gateway_recv_queue e t s = Some (r, m, s1)"
        "task_received e t l f r m s1 = Some (pc, s')"
    using c by (auto simp: task_iteration_def split: if_split_asm)
  then show ?thesis
  proof cases
    case brk
    then show ?thesis using task_break_inv[OF gw_inv_nil[OF i]] by simp
  next
    case go
    from go(1) i show ?thesis
    proof (cases rule: recv_queue_inv_cases)
      case timeout
      then consider l' f' where "pc = T_run t l' f'" "gw_inv kk [] X s'"
        | s2 where "pc = T_done" "s' = task_break s2" "gw_inv kk [] X s2"
        using go(2) by (auto simp: task_received_def split: if_split_asm prod.splits dest: state_judge_inv)
      then show ?thesis by cases (use timeout task_break_inv in auto)
    next
      case (got x)
      then obtain stop where x: "task_message e x s1 = Some (stop, s')" "pc = (if stop then T_done else T_run t l f)"
        using go(2) by (auto simp: task_received_def)
      note task_message_inv[OF x(1) got(3)]
      then show ?thesis using x(2) got(4) gw_inv_nil by (cases stop) auto
    qed
  qed
qed

end
