(* ===== verification/GatewaySystem.thy ===== *)
theory GatewaySystem
  imports GatewayInv
begin

text \<open>
  The gateway client as a transition system: the task of \<^verbatim>\<open>uc_wiota_gateway_api_handle\<close>, the radio
  thread, the OTA timer and the application interleave. A step is one loop iteration of the task,
  one delivery, one firing of the timer, or one call of the application; \<^verbatim>\<open>uc_wiota_gateway_end\<close> is
  three steps, because it waits for the task.
\<close>

section \<open>Calls of the application\<close>

datatype api_call =
  Api_send_data "u8 list option" nat u32
| Api_ota_req
| Api_get_rtc u32 "nat option"
| Api_state_update
| Api_sync_paging
| Api_register_user_recv "nat option" "nat option"
| Api_register_get_rtc u32 "nat option"
| Api_register_ex_mcu "nat option"
| Api_set_verity u8
| Api_set_force_active u8
| Api_set_send_sleep u8
| Api_set_run_flag u8
| Api_set_allow_run_flag u8
| Api_set_auth_period u8
| Api_clear_ota_state

fun app_call :: "env \<Rightarrow> api_call \<Rightarrow> gw \<Rightarrow> gw option" where
  "app_call e (Api_send_data data n t) s = map_option snd (uc_wiota_gateway_send_data e data n t s)"
| "app_call e Api_ota_req s = map_option snd (uc_wiota_gateway_ota_req e s)"
| "app_call e (Api_get_rtc fmt cb) s = map_option snd (uc_wiota_gateway_get_rtc e fmt cb s)"
| "app_call e Api_state_update s = map_option snd (uc_wiota_gateway_state_update_info_msg e s)"
| "app_call e Api_sync_paging s = uc_gateway_enter_sync_paging_by_time_slot e s"
| "app_call e (Api_register_user_recv u r) s = Some (snd (uc_wiota_gateway_register_user_recv_cb u r s))"
| "app_call e (Api_register_get_rtc fmt cb) s = Some (snd (uc_wiota_gateway_register_get_rtc_cb fmt cb s))"
| "app_call e (Api_register_ex_mcu cb) s = Some (snd (uc_wiota_gateway_register_ex_mcu_cb cb s))"
| "app_call e (Api_set_verity f) s = Some (uc_wiota_gateway_set_verity f s)"
| "app_call e (Api_set_force_active f) s = Some (uc_gateway_set_force_actice f s)"
| "app_call e (Api_set_send_sleep f) s = Some (uc_gateway_set_send_sleep_flag f s)"
| "app_call e (Api_set_run_flag f) s = Some (uc_wiota_gateway_set_run_flag f s)"
| "app_call e (Api_set_allow_run_flag f) s = Some (uc_wiota_gateway_set_allow_run_flag f s)"
| "app_call e (Api_set_auth_period p) s = Some (uc_wiota_gateway_set_auth_period p s)"
| "app_call e Api_clear_ota_state s = Some (uc_wiota_gateway_clear_ota_state s)"

lemma setters_inv:
  "gw_inv kk ms X s \<Longrightarrow> gw_inv kk ms X (uc_wiota_gateway_set_verity f s)"
  "gw_inv kk ms X s \<Longrightarrow> gw_inv kk ms X (uc_gateway_set_force_actice f s)"
  "gw_inv kk ms X s \<Longrightarrow> gw_inv kk ms X (uc_gateway_set_send_sleep_flag f s)"
  "gw_inv kk ms X s \<Longrightarrow> gw_inv kk ms X (uc_wiota_gateway_set_run_flag f s)"
  "gw_inv kk ms X s \<Longrightarrow> gw_inv kk ms X (uc_wiota_gateway_set_allow_run_flag f s)"
  "gw_inv kk ms X s \<Longrightarrow> gw_inv kk ms X (uc_wiota_gateway_set_auth_period f s)"
  "gw_inv kk ms X s \<Longrightarrow> gw_inv kk ms X (uc_wiota_gateway_clear_ota_state s)"
  by (simp_all add: uc_wiota_gateway_set_verity_def uc_gateway_set_force_actice_def
      uc_gateway_set_send_sleep_flag_def uc_wiota_gateway_set_run_flag_def
      uc_wiota_gateway_set_allow_run_flag_def uc_wiota_gateway_set_auth_period_def
      uc_wiota_gateway_clear_ota_state_def gw_inv_gm gw_inv_fields)

lemma app_call_inv: "app_call e c s = Some s' \<Longrightarrow> gw_inv kk ms X s \<Longrightarrow> gw_inv kk ms X s'"
  by (cases c) (auto simp: setters_inv gw_inv_fields uc_wiota_gateway_register_user_recv_cb_def
      uc_wiota_gateway_register_get_rtc_cb_def uc_wiota_gateway_register_ex_mcu_cb_def
      dest: send_data_inv uplink_inv(3,4) get_rtc_inv sync_paging_inv)

section \<open>Steps\<close>

type_synonym config = "gw \<times> task_pc \<times> app_pc"

inductive gw_step :: "env \<Rightarrow> config \<Rightarrow> config \<Rightarrow> bool" for e where
  radio: "deliver e a s = Some s' \<Longrightarrow> gw_step e (s, t, c) (s', t, c)"
| timer: "ota_timer (gm s) \<Longrightarrow> uc_wiota_gateway_handle_ota_recv_timer_msg s = Some s' \<Longrightarrow>
    gw_step e (s, t, c) (s', t, c)"
| task_begin: "task_start e s = (t, s') \<Longrightarrow> gw_step e (s, T_ready, c) (s', t, c)"
| task: "task_iteration e timeout l f s = Some (t, s') \<Longrightarrow>
    gw_step e (s, T_run timeout l f, c) (s', t, c)"
| start: "t = T_none \<or> t = T_done \<Longrightarrow> uc_wiota_gateway_start e mode key freq s = Some (rc, s') \<Longrightarrow>
    gw_step e (s, t, A_idle) (s', if rc = 0 then T_ready else t, A_idle)"
| end_request: "wiota_gw_connect_flag s \<noteq> UC_GW_NO_CONNECT \<Longrightarrow> end_request s = Some s' \<Longrightarrow>
    gw_step e (s, t, A_idle) (s', t, uc_wiota_gateway_wait_exit s')"
| exit_seen: "exit_flag (gm s) = 1 \<Longrightarrow> gw_step e (s, t, A_wait_exit) (s, t, A_finish)"
| end_finish: "end_finish s = Some s' \<Longrightarrow> gw_step e (s, t, A_finish) (s', t, A_idle)"
| call: "app_call e a s = Some s' \<Longrightarrow> gw_step e (s, t, A_idle) (s', t, A_idle)"

inductive gw_reach :: "env \<Rightarrow> config \<Rightarrow> bool" for e where
  init: "gw_reach e (init_gw, T_none, A_idle)"
| step: "gw_reach e c \<Longrightarrow> gw_step e c c' \<Longrightarrow> gw_reach e c'"

text \<open>Iterations of the task alone, until it returns.\<close>

fun run_task :: "env \<Rightarrow> nat \<Rightarrow> task_pc \<Rightarrow> gw \<Rightarrow> (task_pc \<times> gw) option" where
  "run_task e (Suc n) (T_run timeout l f) s =
     do { (t, s) \<leftarrow> task_iteration e timeout l f s; run_task e n t s }"
| "run_task e n t s = Some (t, s)"

section \<open>The invariant of the system\<close>

text \<open>
  Besides the invariant of the memory: a task that has not run has not touched the exit flags, one
  in its loop has not set \<^verbatim>\<open>exit_flag\<close>, the flag \<^verbatim>\<open>gateway_task_run\<close> says that the task runs or has
  returned and said so; the end waits only for a task that runs or has set the flag, and then the
  exit message is queued.
\<close>

definition runs :: "task_pc \<Rightarrow> bool" where
  "runs t = (case t of T_run timeout l f \<Rightarrow> True | _ \<Rightarrow> False)"

definition exit_queued :: "gw \<Rightarrow> bool" where
  "exit_queued s \<longleftrightarrow> Exit_msg \<in> set (messages (gateway_mq (gm s)))"

fun sys_inv :: "config \<Rightarrow> bool" where
  "sys_inv (s, t, c) \<longleftrightarrow>
     (\<exists>run ex q. gw_inv [run, ex, q] [] {#} s \<and>
       (t = T_ready \<longrightarrow> run = 0 \<and> ex = 0) \<and> (runs t \<longrightarrow> ex = 0) \<and>
       (run = 1 \<longrightarrow> runs t \<or> t = T_done \<and> ex = 1) \<and>
       (c = A_wait_exit \<longrightarrow> run = 1 \<and> (ex = 1 \<or> q = 0 \<or> exit_queued s)))"

declare sys_inv.simps [simp del]

lemma sys_invI:
  assumes "gw_inv [run, ex, q] [] {#} s" "t = T_ready \<Longrightarrow> run = 0 \<and> ex = 0" "runs t \<Longrightarrow> ex = 0"
    "run = 1 \<Longrightarrow> runs t \<or> t = T_done \<and> ex = 1"
    "c = A_wait_exit \<Longrightarrow> run = 1 \<and> (ex = 1 \<or> q = 0 \<or> exit_queued s)"
  shows "sys_inv (s, t, c)"
  unfolding sys_inv.simps using assms by (intro exI[of _ run] exI[of _ ex] exI[of _ q]) blast

lemma sys_invE:
  assumes "sys_inv (s, t, c)"
  obtains run ex q where "gw_inv [run, ex, q] [] {#} s" "t = T_ready \<longrightarrow> run = 0 \<and> ex = 0"
    "runs t \<longrightarrow> ex = 0" "run = 1 \<longrightarrow> runs t \<or> t = T_done \<and> ex = 1"
    "c = A_wait_exit \<longrightarrow> run = 1 \<and> (ex = 1 \<or> q = 0 \<or> exit_queued s)"
  using assms unfolding sys_inv.simps by blast

lemma runs_simps [simp]:
  "runs (T_run timeout l f)" "\<not> runs T_none" "\<not> runs T_ready" "\<not> runs T_done"
  by (simp_all add: runs_def)

lemma flags_of_inv:
  "gw_inv [run, ex, q] ms X s \<Longrightarrow>
     gateway_task_run (gm s) = run \<and> exit_flag (gm s) = ex \<and> (gateway_mq (gm s) = None \<longleftrightarrow> q = 0)"
  by (auto simp: gw_inv_def flags_def split: if_splits)

lemma bit_cases: "(x :: 1 word) = 0 \<or> x = 1"
proof -
  have "unat x < 2" using unsigned_less[of x] by simp
  then consider "unat x = unat (0 :: 1 word)" | "unat x = unat (1 :: 1 word)" by fastforce
  then show ?thesis by (auto simp: word_unat_eq_iff)
qed

lemma gw_inv_messages: "gw_inv kk ms X s \<Longrightarrow> gw_inv kk (messages (gateway_mq (gm s))) X s"
  by (simp add: gw_inv_def)

lemma exit_queued_mono:
  "exit_queued s \<Longrightarrow> gw_inv kk (messages (gateway_mq (gm s))) X s' \<Longrightarrow> exit_queued s'"
  by (auto simp: exit_queued_def gw_inv_def)

text \<open>A step of another thread that keeps the invariant for all messages keeps that of the system.\<close>

lemma sys_inv_frame:
  assumes i: "sys_inv (s, t, c)" and f: "\<And>kk ms. gw_inv kk ms {#} s \<Longrightarrow> gw_inv kk ms {#} s'"
  shows "sys_inv (s', t, c)"
  using i
proof (rule sys_invE)
  fix run ex q
  assume a: "gw_inv [run, ex, q] [] {#} s" "t = T_ready \<longrightarrow> run = 0 \<and> ex = 0"
    "runs t \<longrightarrow> ex = 0" "run = 1 \<longrightarrow> runs t \<or> t = T_done \<and> ex = 1"
    "c = A_wait_exit \<longrightarrow> run = 1 \<and> (ex = 1 \<or> q = 0 \<or> exit_queued s)"
  have "exit_queued s \<Longrightarrow> exit_queued s'"
    using exit_queued_mono f[OF gw_inv_messages[OF a(1)]] by blast
  then show ?thesis using a f[OF a(1)] by (intro sys_invI[where run = run and ex = ex and q = q]) auto
qed

lemma sys_inv_task:
  assumes c: "task_iteration e timeout l f s = Some (pc, s')" and i: "sys_inv (s, T_run timeout l f, c)"
  shows "sys_inv (s', pc, c)"
proof -
  obtain run q where i: "gw_inv [run, 0, q] [] {#} s"
      "c = A_wait_exit \<Longrightarrow> run = 1 \<and> (q = 0 \<or> exit_queued s)"
    using i by (auto elim: sys_invE)
  let ?ms = "messages (gateway_mq (gm s))"
  from task_iteration_inv[OF c gw_inv_messages[OF i(1)]]
  consider "pc = T_done" "gw_inv [run, 1, q] [] {#} s'"
    | l' f' where "pc = T_run timeout l' f'" "gw_inv [run, 0, q] (tl ?ms) {#} s'" "?ms \<noteq> [] \<longrightarrow> hd ?ms \<noteq> Exit_msg"
    by (auto simp: numeral_2_eq_2)
  then show ?thesis
  proof cases
    case 1
    show ?thesis by (rule sys_invI[OF 1(2)]) (use 1 i in auto)
  next
    case 2
    have "exit_queued s \<Longrightarrow> exit_queued s'"
      using 2(2,3) by (cases ?ms) (auto simp: exit_queued_def gw_inv_def)
    then show ?thesis using i 2(1) by (intro sys_invI[OF gw_inv_nil[OF 2(2)]]) auto
  qed
qed

lemma sys_inv_end_request:
  assumes c: "end_request s = Some s'" and i: "sys_inv (s, t, A_idle)"
  shows "sys_inv (s', t, uc_wiota_gateway_wait_exit s')"
  using i
proof (rule sys_invE)
  fix run ex q
  assume i: "gw_inv [run, ex, q] [] {#} s" "t = T_ready \<longrightarrow> run = 0 \<and> ex = 0"
    "runs t \<longrightarrow> ex = 0" "run = 1 \<longrightarrow> runs t \<or> t = T_done \<and> ex = 1"
  obtain run' where r: "gw_inv [run', ex, q] [] {#} s'" "run' = 0 \<or> run' = run"
      "run' \<noteq> 0 \<longrightarrow> gateway_mq (gm s') = None \<or> exit_queued s'"
    using end_request_inv[OF c i(1)] by (auto simp: numeral_2_eq_2 exit_queued_def)
  show ?thesis
    by (rule sys_invI[OF r(1)])
      (use r i bit_cases[of run'] flags_of_inv[OF r(1)] in
        \<open>auto simp: uc_wiota_gateway_wait_exit_def split: if_splits\<close>)
qed

lemma sys_inv_start:
  assumes t: "t = T_none \<or> t = T_done" and c: "uc_wiota_gateway_start e mode key freq s = Some (rc, s')"
    and rc: "rc \<notin> {5, 7}" and i: "sys_inv (s, t, A_idle)"
  shows "sys_inv (s', if rc = 0 then T_ready else t, A_idle)"
proof -
  obtain kk where "gw_inv kk [] {#} s" using i by (auto elim: sys_invE)
  from start_inv[OF c this] rc consider "s' = s" "rc \<noteq> 0" | q where "gw_inv [0, 0, q] [] {#} s'" by blast
  then show ?thesis
  proof cases
    case 2
    show ?thesis by (rule sys_invI[OF 2]) (use t in auto)
  qed (use i in simp)
qed

lemma sys_inv_end_finish:
  assumes c: "end_finish s = Some s'" and i: "sys_inv (s, t, A_finish)"
  shows "sys_inv (s', t, A_idle)"
  using i
proof (rule sys_invE)
  fix run ex q
  assume i: "gw_inv [run, ex, q] [] {#} s" "t = T_ready \<longrightarrow> run = 0 \<and> ex = 0"
    "runs t \<longrightarrow> ex = 0" "run = 1 \<longrightarrow> runs t \<or> t = T_done \<and> ex = 1"
  show ?thesis by (rule sys_invI[OF end_finish_inv[OF c i(1)]]) (use i in auto)
qed

lemma sys_inv_task_begin:
  assumes "task_start e s = (t, s')" "sys_inv (s, T_ready, c)"
  shows "sys_inv (s', t, c)"
proof -
  obtain q where q: "gw_inv [0, 0, q] [] {#} s" "c \<noteq> A_wait_exit" using assms(2) by (auto elim: sys_invE)
  have t: "runs t" "s' = gm_update (\<lambda>g. g\<lparr>exit_flag := 0, gateway_task_run := 1\<rparr>) s"
    using assms(1) by (auto simp: task_start_def Let_def)
  have "gw_inv [1, 0, q] [] {#} s'" using q(1) by (simp add: t gw_inv_def flags_def buffers_def)
  then show ?thesis by (rule sys_invI) (use q(2) t in auto)
qed

lemma sys_inv_exit_seen:
  assumes "exit_flag (gm s) = 1" "sys_inv (s, t, A_wait_exit)"
  shows "sys_inv (s, t, A_finish)"
  using assms(2) by (rule sys_invE) (rule sys_invI; auto)

lemma init_sys_inv: "sys_inv (init_gw, T_none, A_idle)"
  by (rule sys_invI[where run = 0 and ex = 0 and q = 0])
    (simp_all add: gw_inv_def init_gw_def zero_mode_def owned_def queue_ok_def messages_def buffers_def flags_def)

text \<open>
  A start that fails because the timer (5) or the task (7) cannot be created. Every other step keeps
  the invariant, so that a reachable state has it or lies behind a first start that failed so.
\<close>

definition start_fails :: "env \<Rightarrow> config \<Rightarrow> config \<Rightarrow> bool" where
  "start_fails e x y \<longleftrightarrow>
     (\<exists>s t mode key freq rc s'. x = (s, t, A_idle) \<and> (t = T_none \<or> t = T_done) \<and>
        uc_wiota_gateway_start e mode key freq s = Some (rc, s') \<and> rc \<in> {5, 7} \<and> y = (s', t, A_idle))"

lemma gw_step_sys_inv: "gw_step e x y \<Longrightarrow> sys_inv x \<Longrightarrow> sys_inv y \<or> start_fails e x y"
proof (induction rule: gw_step.induct)
  case (radio a s s' t c)
  then show ?case using sys_inv_frame deliver_inv by blast
next
  case (timer s s' t c)
  then show ?case using sys_inv_frame timer_msg_inv by blast
next
  case (call a s s' t)
  then show ?case using sys_inv_frame app_call_inv by blast
next
  case (start t mode key freq s rc s')
  show ?case
  proof (cases "rc \<in> {5, 7}")
    case True
    then have "rc \<noteq> 0" by auto
    with start True show ?thesis by (auto simp: start_fails_def)
  next
    case False
    then show ?thesis using sys_inv_start start by blast
  qed
qed (auto intro: sys_inv_task sys_inv_end_request sys_inv_end_finish sys_inv_task_begin sys_inv_exit_seen)

lemma reach_inv_or_failed:
  "gw_reach e x \<Longrightarrow> sys_inv x \<or> (\<exists>y z. gw_reach e y \<and> start_fails e y z \<and> rtranclp (gw_step e) z x)"
proof (induction rule: gw_reach.induct)
  case (step c c')
  then show ?case
    using gw_step_sys_inv[of e c c'] rtranclp.rtrancl_into_rtrancl[of "gw_step e" _ c c'] by blast
qed (simp add: init_sys_inv)

lemma start_fails_creates: "creates e \<Longrightarrow> \<not> start_fails e x y"
  using start_creates by (fastforce simp: start_fails_def)

lemma reach_sys_inv: "gw_reach e x \<Longrightarrow> creates e \<Longrightarrow> sys_inv x"
  using reach_inv_or_failed start_fails_creates by blast

end
