(* ===== verification/GatewayLife.thy ===== *)
theory GatewayLife
  imports GatewaySystem
begin

text \<open>
  The life cycle of the gateway client: a start that succeeds, the queue between the radio thread
  and the task, the end, and what holds in every reachable state.
\<close>

section \<open>Start\<close>

text \<open>The state that a start begins with: everything is cleared but two settings.\<close>

definition fresh_mode :: "uc_wiota_gateway_api_mode \<Rightarrow> u8 list \<Rightarrow> nat \<Rightarrow> uc_wiota_gateway_api_mode" where
  "fresh_mode g key n = zero_mode\<lparr>gw_verity := gw_verity g, is_force_active := is_force_active g,
     auth_code := take n key @ replicate (16 - n) 0, device_type := cstr ''iote'' @ replicate 11 0,
     gateway_mode := 1\<rparr>"

lemma start_init_fresh:
  assumes n: "rt_strlen key = Some n" "n \<le> 16"
  shows "start_init e key s = Some (s\<lparr>gm := fresh_mode (gm s) key n\<rparr>)"
proof -
  have "n < length key" using strlen_bound[OF n(1)] by simp
  then have "rt_strncpy (replicate 16 0) 0 key n = Some (take n key @ replicate (16 - n) 0)"
    using n by (simp add: rt_strncpy_def strncpy_strlen[OF n(1)] wr_def)
  moreover have "rt_strncpy (replicate 16 0) 0 (cstr ''iote'') 4 = Some (cstr ''iote'' @ replicate 11 0)"
    by code_simp
  ultimately show ?thesis
    using n by (simp add: start_init_def fresh_mode_def zero_mode_def Let_def)
qed

text \<open>What a started client is like.\<close>

definition started :: "gw \<Rightarrow> bool" where
  "started s \<longleftrightarrow> wiota_gw_connect_flag s = UC_GW_CONNECT_SUCESS \<and> uc_gateway_state s = GATEWAY_NORMAL \<and>
     recv_cb s = CB_gateway_recv \<and> ota_timer (gm s) \<and> gateway_mode (gm s) = 1 \<and>
     (\<exists>p pool q. gateway_mq (gm s) = Some (p, pool, q) \<and> mq_ok q \<and> mq_contents q = [] \<and> max_msgs q = 4)"

lemma create_queue_ok:
  assumes m: "\<And>h k. e_malloc e h k"
  obtains p pool where "uc_wiota_gateway_create_queue e 8 s =
    (Some (p, pool, rt_mq_init 4 32), s\<lparr>hist := C_ipc I_mq_init # C_malloc pool 32 # C_malloc p 60 # hist s\<rparr>)"
  using m by (auto simp: uc_wiota_gateway_create_queue_def rt_malloc_def sizeof_rt_messagequeue_def emit_def)

lemma only_hist_fields:
  assumes "only_hist s s'" obtains h where "s' = s\<lparr>hist := h\<rparr>"
  using assms unfolding only_hist_def by blast

lemma get_random_only_hist: "only_hist s (snd (uc_gateway_get_random e s))"
  by (simp add: uc_gateway_get_random_def Let_def)

lemma set_id_ok:
  assumes "length (e_dev_serial e (hist s)) \<le> 16"
  shows "\<exists>s'. uc_wiota_gateway_set_id e s = Some (0, s') \<and> only_hist s s'"
proof -
  let ?r = "\<lambda>s. snd (uc_gateway_get_random e s)"
  have "only_hist s (?r (?r (?r s)))" by (meson get_random_only_hist only_hist_trans)
  moreover obtain a where "uc_wiota_gateway_get_dev_address e s = Some a"
    using get_dev_address_ok[OF assms] by blast
  ultimately show ?thesis by (simp add: uc_wiota_gateway_set_id_def Let_def delay_frame_def)
qed

lemma gw_task_ok:
  assumes "creates e"
  shows "\<exists>s'. uc_wiota_gw_task e s = (0, s') \<and> gateway_mq (gm s') = gateway_mq (gm s) \<and>
    ota_timer (gm s') = ota_timer (gm s) \<and> gateway_mode (gm s') = gateway_mode (gm s) \<and>
    wiota_gw_connect_flag s' = wiota_gw_connect_flag s \<and> recv_cb s' = recv_cb s"
  using assms by (auto simp: uc_wiota_gw_task_def creates_def uc_wiota_gateway_set_allow_run_flag_def Let_def)

lemma start_finish_ok:
  assumes e: "creates e" and f: "case freq of None \<Rightarrow> True | Some f \<Rightarrow> 8 \<le> length f"
    and s: "recv_cb s = CB_gateway_recv" "gateway_mode (gm s) = 1"
      "gateway_mq (gm s) = Some (p, pool, q)" "mq_ok q" "mq_contents q = []" "max_msgs q = 4"
  shows "\<exists>s'. start_finish e UC_TRANSMISSION_MODE False freq s = Some (0, s') \<and> started s'"
proof -
  let ?s = "gm_update (ota_timer_update (\<lambda>_. True)) (emit (C_ipc I_timer_create) (s\<lparr>wiota_gw_connect_flag := UC_GW_CONNECT_SUCESS\<rparr>))"
  obtain s1 where s1: "uc_wiota_gw_task e ?s = (0, s1)" "gateway_mq (gm s1) = gateway_mq (gm s)" "ota_timer (gm s1)"
      "gateway_mode (gm s1) = 1" "wiota_gw_connect_flag s1 = UC_GW_CONNECT_SUCESS" "recv_cb s1 = CB_gateway_recv"
    using gw_task_ok[OF e, of ?s] s by auto
  obtain s2 where "(case freq of None \<Rightarrow> Some s1 | Some f \<Rightarrow> do { bs \<leftarrow> rdn f 0 8; Some (s1\<lparr>gw_freq_list := bs\<rparr>) }) = Some s2"
      "s2 = s1 \<or> (\<exists>bs. s2 = s1\<lparr>gw_freq_list := bs\<rparr>)"
    using f by (cases freq) (auto simp: rdn_def)
  then show ?thesis
    using s1 s e by (auto simp: start_finish_def creates_def Let_def started_def)
qed

lemma start_transmission_steps:
  assumes e: "\<And>h k. e_malloc e h k" "\<And>h. length (e_dev_serial e h) \<le> 16"
    and s: "wiota_gw_connect_flag s = UC_GW_NO_CONNECT"
      "is_force_active (gm s) \<noteq> 0 \<or> e_state e (hist s) = UC_STATUS_SYNC"
    and key: "rt_strlen key = Some n" "n \<le> 16"
  obtains s' p pool where
    "uc_wiota_gateway_start e UC_TRANSMISSION_MODE (Some key) freq s = start_finish e UC_TRANSMISSION_MODE False freq s'"
    "gm s' = (fresh_mode (gm s) key n)\<lparr>gateway_mq := Some (p, pool, rt_mq_init 4 32)\<rparr>"
    "recv_cb s' = CB_gateway_recv"
proof -
  let ?s = "s\<lparr>gm := fresh_mode (gm s) key n\<rparr>"
  obtain p pool where q: "uc_wiota_gateway_create_queue e 8 ?s =
      (Some (p, pool, rt_mq_init 4 32), ?s\<lparr>hist := C_ipc I_mq_init # C_malloc pool 32 # C_malloc p 60 # hist ?s\<rparr>)"
    (is "_ = (Some ?q, ?s1)") using create_queue_ok[OF e(1), of ?s] by blast
  let ?s2 = "gm_update (gateway_mq_update (\<lambda>_. Some ?q)) ?s1"
  let ?s3 = "(emit (C_setup (S_register_recv_cb CB_gateway_recv)) (emit (C_setup (S_set_crc 1)) ?s2))
      \<lparr>recv_cb := CB_gateway_recv, wiota_gw_connect_flag := UC_GW_ATTEMPT_CONNECT\<rparr>"
  have r: "start_radio e UC_TRANSMISSION_MODE ?s2 = Some ?s3" by (simp add: start_radio_def Let_def)
  obtain s4 where s4: "uc_wiota_gateway_set_id e ?s3 = Some (0, s4)" "only_hist ?s3 s4"
    using set_id_ok[of e ?s3] e(2) by blast
  have "uc_wiota_gateway_start e UC_TRANSMISSION_MODE (Some key) freq s = start_finish e UC_TRANSMISSION_MODE False freq s4"
    using s q r s4(1)
    by (auto simp: uc_wiota_gateway_start_def sends_auth_def start_init_fresh[OF key] start_connect_def)
  then show ?thesis using that s4(2) by (auto elim!: only_hist_fields)
qed

lemma start_transmission:
  assumes e: "creates e" "\<And>h k. e_malloc e h k" "\<And>h. length (e_dev_serial e h) \<le> 16"
    and s: "wiota_gw_connect_flag s = UC_GW_NO_CONNECT"
      "is_force_active (gm s) \<noteq> 0 \<or> e_state e (hist s) = UC_STATUS_SYNC"
    and key: "rt_strlen key = Some n" "n \<le> 16"
    and freq: "case freq of None \<Rightarrow> True | Some f \<Rightarrow> 8 \<le> length f"
  shows "\<exists>s'. uc_wiota_gateway_start e UC_TRANSMISSION_MODE (Some key) freq s = Some (0, s') \<and> started s'"
proof -
  obtain s1 p pool where s1: "uc_wiota_gateway_start e UC_TRANSMISSION_MODE (Some key) freq s =
      start_finish e UC_TRANSMISSION_MODE False freq s1" "recv_cb s1 = CB_gateway_recv"
      "gm s1 = (fresh_mode (gm s) key n)\<lparr>gateway_mq := Some (p, pool, rt_mq_init 4 32)\<rparr>"
    using start_transmission_steps[OF e(2,3) s key] by metis
  then show ?thesis
    using start_finish_ok[OF e(1) freq s1(2), of p pool "rt_mq_init 4 32"] init_ok[of "rt_mq_init 4 32" 32]
    by (auto simp: fresh_mode_def)
qed

text \<open>C21.
  In the transmission mode, which needs no authentication, a start on a synchronised radio with
  enough memory and a terminated key of at most 16 characters succeeds: the client is connected
  and in its normal state, the timer runs, downlinks go to its receive callback, and the empty
  queue has room for four messages (half of the eight that were asked for).
\<close>

theorem gateway_start_transmission:
  assumes e: "creates e" "\<And>h k. e_malloc e h k" "\<And>h. length (e_dev_serial e h) \<le> 16"
    and s: "wiota_gw_connect_flag s = UC_GW_NO_CONNECT"
      "is_force_active (gm s) \<noteq> 0 \<or> e_state e (hist s) = UC_STATUS_SYNC"
    and key: "rt_strlen key = Some n" "n \<le> 16"
    and freq: "case freq of None \<Rightarrow> True | Some f \<Rightarrow> 8 \<le> length f"
  shows "\<exists>s'. uc_wiota_gateway_start e UC_TRANSMISSION_MODE (Some key) freq s = Some (0, s') \<and> started s'"
  using assms by (rule start_transmission)

theorem gateway_start_transmission_witness:
  "\<exists>s'. uc_wiota_gateway_start good_env UC_TRANSMISSION_MODE (Some [107, 101, 121, 0]) None init_gw = Some (0, s') \<and>
     started s'"
  by (rule gateway_start_transmission[where n = 3])
    (simp_all add: creates_def init_gw_def, simp add: good_env_def)

section \<open>From the radio to the queue\<close>

fun payload :: "uc_wiota_gateway_msg \<Rightarrow> (u8 \<times> u8 list) option" where
  "payload (Dl_msg b (Some (p, bytes)) t) = Some (t, bytes)"
| "payload _ = None"

text \<open>A downlink becomes the last message of the queue, or it is freed.\<close>

lemma deliver_queue:
  assumes cb: "recv_cb s = CB_gateway_recv" and t: "t \<noteq> UC_RECV_FN_CHANGE" and m: "\<And>h k. e_malloc e h k"
    and q: "gateway_mq (gm s) = Some (p, pool, q)" "mq_ok q" and h: "heap_ok (hist s)"
  shows "\<exists>s' q'. deliver e (UC_OP_SUCC, t, Some bs) s = Some s' \<and> recv_cb s' = CB_gateway_recv \<and>
    gateway_mq (gm s') = Some (p, pool, q') \<and> mq_ok q' \<and> max_msgs q' = max_msgs q \<and> heap_ok (hist s') \<and>
    (if length (mq_contents q) < max_msgs q
     then map payload (mq_contents q') = map payload (mq_contents q) @ [Some (t, bs)] \<and>
       length (live (hist s')) = length (live (hist s)) + 2
     else mq_contents q' = mq_contents q \<and> live (hist s') = live (hist s))"
proof -
  let ?d = "length (hist s)" and ?b = "Suc (length (hist s))"
  let ?s = "emit (C_malloc ?b sizeof_gateway_msg) (emit (C_malloc ?d (length bs)) s)"
  let ?m = "Dl_msg ?b (Some (?d, bs)) t"
  have fresh: "?d \<notin> set (live (hist s))" "?b \<notin> set (live (hist s))" using h by (auto simp: heap_ok_def)
  have dl: "deliver e (UC_OP_SUCC, t, Some bs) s =
      do { (r, s) \<leftarrow> uc_wiota_gateway_send_queue ?m 10 ?s;
           Some (if r \<noteq> RT_EOK then rt_free (Some ?b) (rt_free (map_option fst (Some (?d, bs))) s) else s) }"
    using cb t m q(1) by (simp add: deliver_def uc_wiota_gateway_recv_data_callback_def rt_malloc_def)
  show ?thesis
  proof (cases rule: mq.send_result[OF q(2), of ?m 10, case_names room full])
    case (room q')
    then show ?thesis using dl q(1) cb h
      by (auto simp: uc_wiota_gateway_send_queue_def heap_ok_def)
  next
    case (full r)
    then show ?thesis using dl q cb h fresh
      by (auto simp: uc_wiota_gateway_send_queue_def rt_free_def heap_ok_def)
  qed
qed

text \<open>C17.
  The queue between the radio thread and the task keeps downlinks in the order in which they
  arrive, with their bytes, up to its capacity; every further downlink is dropped and both of its
  blocks are freed, so that exactly two blocks are alive for each message that was kept.
\<close>

theorem gateway_receive_queue:
  assumes "recv_cb s = CB_gateway_recv" "UC_RECV_FN_CHANGE \<notin> fst ` set ds"
    and "\<And>h k. e_malloc e h k" "gateway_mq (gm s) = Some (p, pool, q)" "mq_ok q" "heap_ok (hist s)"
  shows "\<exists>s' q'. deliver_all e (map (\<lambda>(t, bs). (UC_OP_SUCC, t, Some bs)) ds) s = Some s' \<and>
    gateway_mq (gm s') = Some (p, pool, q') \<and>
    map payload (mq_contents q') =
      map payload (mq_contents q) @ map Some (take (max_msgs q - length (mq_contents q)) ds) \<and>
    length (live (hist s')) =
      length (live (hist s)) + 2 * min (length ds) (max_msgs q - length (mq_contents q))"
  using assms
proof (induction ds arbitrary: s q)
  case (Cons d ds)
  obtain t bs where d: "d = (t, bs)" by (cases d) auto
  have t: "t \<noteq> UC_RECV_FN_CHANGE" using Cons.prems(2) d by auto
  obtain s1 q1 where s1: "deliver e (UC_OP_SUCC, t, Some bs) s = Some s1" "recv_cb s1 = CB_gateway_recv"
      "gateway_mq (gm s1) = Some (p, pool, q1)" "mq_ok q1" "max_msgs q1 = max_msgs q" "heap_ok (hist s1)"
      "if length (mq_contents q) < max_msgs q
       then map payload (mq_contents q1) = map payload (mq_contents q) @ [Some (t, bs)] \<and>
         length (live (hist s1)) = length (live (hist s)) + 2
       else mq_contents q1 = mq_contents q \<and> live (hist s1) = live (hist s)"
    using deliver_queue[OF Cons.prems(1) t Cons.prems(3-6)] by blast
  obtain s2 q2 where s2: "deliver_all e (map (\<lambda>(t, bs). (UC_OP_SUCC, t, Some bs)) ds) s1 = Some s2"
      "gateway_mq (gm s2) = Some (p, pool, q2)"
      "map payload (mq_contents q2) =
        map payload (mq_contents q1) @ map Some (take (max_msgs q - length (mq_contents q1)) ds)"
      "length (live (hist s2)) =
        length (live (hist s1)) + 2 * min (length ds) (max_msgs q - length (mq_contents q1))"
    using Cons.IH[OF s1(2) _ Cons.prems(3) s1(3,4,6)] Cons.prems(2) s1(5) by auto
  show ?case
  proof (cases "length (mq_contents q) < max_msgs q")
    case True
    then have "map payload (mq_contents q1) = map payload (mq_contents q) @ [Some (t, bs)]"
        "length (live (hist s1)) = length (live (hist s)) + 2"
      using s1(7) by simp_all
    moreover from this(1) have "length (mq_contents q1) = Suc (length (mq_contents q))"
      by (metis length_append_singleton length_map)
    moreover have "max_msgs q - length (mq_contents q) = Suc (max_msgs q - Suc (length (mq_contents q)))"
      using True by simp
    ultimately show ?thesis using s1(1) s2 d by (auto simp: min_def)
  next
    case False
    then show ?thesis using s1 s2 d by auto
  qed
qed simp

text \<open>A run for the examples: a started client that has received five downlinks.\<close>

lemma start_reach:
  obtains s where "gw_reach good_env (s, T_ready, A_idle)" "started s" "heap_ok (hist s)"
proof -
  obtain s where s: "uc_wiota_gateway_start good_env UC_TRANSMISSION_MODE (Some [107, 101, 121, 0]) None init_gw =
      Some (0, s)" "started s"
    using start_transmission[of good_env init_gw "[107, 101, 121, 0]" 3 None]
    by (auto simp: creates_def init_gw_def good_env_def)
  have "gw_step good_env (init_gw, T_none, A_idle) (s, if (0 :: int) = 0 then T_ready else T_none, A_idle)"
    by (rule gw_step.start[OF _ s(1)]) simp
  then have r: "gw_reach good_env (s, T_ready, A_idle)"
    using gw_reach.step[OF gw_reach.init] by simp
  have "sys_inv (s, T_ready, A_idle)" using reach_sys_inv[OF r] by (simp add: creates_def)
  then have "heap_ok (hist s)" by (auto elim!: sys_invE simp: gw_inv_def holds_def)
  with r s(2) that show ?thesis by blast
qed

theorem gateway_receive_queue_witness:
  "\<exists>s s' q'. started s \<and>
     deliver_all good_env (map (\<lambda>(t, bs). (UC_OP_SUCC, t, Some bs)) [(1, [1]), (2, [2]), (1, [3]), (1, [4]), (1, [5])]) s = Some s' \<and>
     messages (gateway_mq (gm s')) = mq_contents q' \<and>
     map payload (mq_contents q') = [Some (1, [1]), Some (2, [2]), Some (1, [3]), Some (1, [4])]"
proof -
  obtain s where s: "started s" "heap_ok (hist s)" by (rule start_reach)
  then obtain p pool q where q: "gateway_mq (gm s) = Some (p, pool, q)" "mq_ok q" "mq_contents q = []"
      "max_msgs q = 4" "recv_cb s = CB_gateway_recv" by (auto simp: started_def)
  show ?thesis
    using gateway_receive_queue[OF q(5) _ _ q(1,2) s(2), of "[(1, [1]), (2, [2]), (1, [3]), (1, [4]), (1, [5])]" good_env]
      s(1) q(3,4) by (fastforce simp: messages_def UC_RECV_FN_CHANGE_def)
qed

section \<open>Memory in every reachable state\<close>

text \<open>C2.
  Whatever the interleaving of the task, the radio thread, the timer and the application, as long as
  no \<^verbatim>\<open>uc_wiota_gateway_start\<close> has failed to create its timer or its task: no block was freed that
  was not allocated and none twice; the blocks of the queue, its pool and all the messages in it are
  allocated and pairwise different, the queue is well formed, and the buffers of the state have
  their sizes. A reachable state without these properties lies behind such a failed start (which
  frees the queue and keeps the pointer to it), so that error path is the only way to lose them.
\<close>

theorem gateway_memory_safe:
  assumes "gw_reach e (s, t, c)"
  shows "(frees_ok (hist s) \<and> distinct (live (hist s)) \<and>
      owned (gateway_mq (gm s)) \<subseteq># mset (live (hist s)) \<and> queue_ok (gateway_mq (gm s)) \<and>
      buffers (gm s) = [16, 16, 16, 28]) \<or>
    (\<exists>y z. gw_reach e y \<and> start_fails e y z \<and> rtranclp (gw_step e) z (s, t, c))"
  using reach_inv_or_failed[OF assms] by (auto elim!: sys_invE simp: gw_inv_def holds_def)

lemma deliver_reach:
  obtains s b p bytes where "gw_reach good_env (s, T_ready, A_idle)" "heap_ok (hist s)" "recv_cb s = CB_gateway_recv"
    "map payload (messages (gateway_mq (gm s))) = [Some (1, [0, 100, 65])]"
proof -
  obtain s where s: "gw_reach good_env (s, T_ready, A_idle)" "started s" "heap_ok (hist s)" by (rule start_reach)
  then obtain p pool q where q: "gateway_mq (gm s) = Some (p, pool, q)" "mq_ok q" "mq_contents q = []"
      "max_msgs q = 4" "recv_cb s = CB_gateway_recv" by (auto simp: started_def)
  obtain s' q' where s': "deliver good_env (UC_OP_SUCC, 1, Some [0, 100, 65]) s = Some s'" "recv_cb s' = CB_gateway_recv"
      "gateway_mq (gm s') = Some (p, pool, q')" "map payload (mq_contents q') = [Some (1, [0, 100, 65])]" "heap_ok (hist s')"
    using deliver_queue[OF q(5) _ _ q(1,2) s(3), of 1 good_env "[0, 100, 65]"] q(3,4)
    by (auto simp: UC_RECV_FN_CHANGE_def)
  have "gw_reach good_env (s', T_ready, A_idle)" by (rule gw_reach.step[OF s(1)]) (rule gw_step.radio[OF s'(1)])
  then show ?thesis using that s' by (simp add: messages_def)
qed

theorem gateway_memory_safe_witness:
  "\<exists>s. gw_reach good_env (s, T_ready, A_idle) \<and> messages (gateway_mq (gm s)) \<noteq> [] \<and>
     frees_ok (hist s) \<and> distinct (live (hist s)) \<and> owned (gateway_mq (gm s)) \<subseteq># mset (live (hist s))"
proof -
  obtain s where s: "gw_reach good_env (s, T_ready, A_idle)"
      "map payload (messages (gateway_mq (gm s))) = [Some (1, [0, 100, 65])]"
    by (rule deliver_reach)
  moreover have "\<not> start_fails good_env y z" for y z by (rule start_fails_creates) (simp add: creates_def)
  ultimately show ?thesis using gateway_memory_safe[OF s(1)] by fastforce
qed

section \<open>The end\<close>

lemma run_task_done [simp]: "run_task e n T_done s = Some (T_done, s)"
  by (cases n) simp_all

text \<open>A task that finds the exit message, or no queue, returns.\<close>

lemma run_task_exit:
  assumes "gw_inv [run, ex, q] ms X s" "q = 0 \<or> Exit_msg \<in> set ms" "length ms \<le> n" "0 < n"
    and "run_task e n (T_run timeout l f) s = Some (t, s')"
  shows "t = T_done \<and> exit_flag (gm s') = 1"
  using assms
proof (induction n arbitrary: s ms l f)
  case (Suc n)
  obtain pc s1 where i: "task_iteration e timeout l f s = Some (pc, s1)" "run_task e n pc s1 = Some (t, s')"
    using Suc.prems(5) by auto
  from task_iteration_inv[OF i(1) Suc.prems(1)] show ?case
  proof (elim disjE conjE exE)
    assume "pc = T_done" "gw_inv [[run, ex, q] ! 0, 1, [run, ex, q] ! 2] [] X s1"
    then show ?case using i(2) flags_of_inv by (auto simp: numeral_2_eq_2)
  next
    fix l' f'
    assume pc: "pc = T_run timeout l' f'" and ms: "gw_inv [run, ex, q] (tl ms) X s1" "ms \<noteq> [] \<longrightarrow> hd ms \<noteq> Exit_msg"
    have q: "q \<noteq> 0"
    proof
      assume "q = 0"
      then have "gateway_mq (gm s) = None" using flags_of_inv[OF Suc.prems(1)] by simp
      then show False using i(1) pc by (simp add: task_iteration_def)
    qed
    then have "Exit_msg \<in> set (tl ms)" using Suc.prems(2) ms(2) by (cases ms) auto
    moreover from this have "0 < n" "length (tl ms) \<le> n" using Suc.prems(3) by (cases ms; cases "tl ms"; auto)+
    ultimately show ?case using Suc.IH[OF ms(1)] i(2) pc by blast
  qed
qed simp

text \<open>C13.
  \<open>uc_wiota_gateway_end\<close> does not wait for ever: whenever it waits for the exit flag, either the
  flag is set, or as many iterations of the task as the queue has messages (at least one) end the
  task and set the flag, unless one of them faults on what it was sent.
\<close>

theorem gateway_end_returns:
  assumes "gw_reach e (s, t, A_wait_exit)" "creates e"
    and "n = max 1 (length (messages (gateway_mq (gm s))))"
  shows "exit_flag (gm s) = 1 \<or> run_task e n t s = None \<or>
    (\<exists>s'. run_task e n t s = Some (T_done, s') \<and> exit_flag (gm s') = 1)"
  using reach_sys_inv[OF assms(1,2)]
proof (rule sys_invE)
  fix run ex q
  assume i: "gw_inv [run, ex, q] [] {#} s" "run = 1 \<longrightarrow> runs t \<or> t = T_done \<and> ex = 1"
    "A_wait_exit = A_wait_exit \<longrightarrow> run = 1 \<and> (ex = 1 \<or> q = 0 \<or> exit_queued s)"
  show ?thesis
  proof (cases "exit_flag (gm s) = 1")
    case False
    then have "ex \<noteq> 1" using flags_of_inv[OF i(1)] by blast
    then obtain timeout l f where t: "t = T_run timeout l f" and q: "q = 0 \<or> exit_queued s"
      using i by (cases t) auto
    have n: "length (messages (gateway_mq (gm s))) \<le> n" "0 < n" using assms(3) by simp_all
    have "run_task e n t s = Some (t', s') \<Longrightarrow> t' = T_done \<and> exit_flag (gm s') = 1" for t' s'
      unfolding t using run_task_exit[OF gw_inv_messages[OF i(1)] _ n] q unfolding exit_queued_def by blast
    then show ?thesis by (cases "run_task e n t s") auto
  qed simp
qed

lemma exit_reach:
  obtains s timeout q where "gw_reach good_env (s, T_run timeout 0 0, A_wait_exit)" "exit_flag (gm s) = 0"
    "messages (gateway_mq (gm s)) = [Exit_msg]" "gateway_task_run (gm s) = 1" "gateway_mode (gm s) = 1"
proof -
  obtain s where s: "gw_reach good_env (s, T_ready, A_idle)" "started s" by (rule start_reach)
  obtain t s1 where s1: "task_start good_env s = (t, s1)" by fastforce
  have r1: "gw_reach good_env (s1, t, A_idle)" by (rule gw_reach.step[OF s(1)]) (rule gw_step.task_begin[OF s1])
  obtain p pool q where q: "gateway_mq (gm s1) = Some (p, pool, q)" "mq_ok q" "mq_contents q = []" "max_msgs q = 4"
      "gateway_mode (gm s1) = 1" "wiota_gw_connect_flag s1 = UC_GW_CONNECT_SUCESS"
    using s(2) s1 by (auto simp: started_def task_start_def Let_def)
  have f: "gateway_task_run (gm s1) = 1" "exit_flag (gm s1) = 0" and t: "\<exists>timeout. t = T_run timeout 0 0"
    using s1 by (auto simp: task_start_def Let_def)
  obtain q' where "mq_send4 q Exit_msg 0 = Some (RT_EOK, q')" "mq_contents q' = [Exit_msg]"
    using mq.send_ok[OF q(2), of Exit_msg 0] q(3,4) by auto
  then obtain s2 where s2: "end_request s1 = Some s2" "messages (gateway_mq (gm s2)) = [Exit_msg]"
      "gateway_task_run (gm s2) = 1" "exit_flag (gm s2) = 0" "gateway_mode (gm s2) = 1"
    using q f by (auto simp: end_request_def clean_data_request_def uc_wiota_gateway_set_allow_run_flag_def
        uc_wiota_gateway_send_exit_def uc_wiota_gateway_send_queue_def messages_def Let_def)
  have "uc_wiota_gateway_wait_exit s2 = A_wait_exit" using s2(3) by (simp add: uc_wiota_gateway_wait_exit_def)
  moreover have "gw_reach good_env (s2, t, uc_wiota_gateway_wait_exit s2)"
    by (rule gw_reach.step[OF r1]) (rule gw_step.end_request; use q(6) s2(1) in simp)
  ultimately show ?thesis using that s2 t by metis
qed

lemma exit_iteration:
  assumes "messages (gateway_mq (gm s)) = [Exit_msg]" "gateway_task_run (gm s) = 1" "gateway_mode (gm s) = 1"
    and "queue_ok (gateway_mq (gm s))"
  shows "task_iteration good_env timeout l f s \<noteq> None"
proof -
  obtain p pool q where q: "gateway_mq (gm s) = Some (p, pool, q)" "mq_ok q" "mq_contents q = [Exit_msg]"
    using assms by (cases "gateway_mq (gm s)") (auto simp: messages_def queue_ok_def)
  obtain q' where "rt_mq_recv q = Some (RT_EOK, Some Exit_msg, q')" using mq.recv_ok[OF q(2,3)] by blast
  then show ?thesis
    using q assms by (simp add: task_iteration_def uc_wiota_gateway_recv_queue_def task_received_def
        task_message_def Let_def good_env_def)
qed

theorem gateway_end_returns_witness:
  "\<exists>s t s'. gw_reach good_env (s, t, A_wait_exit) \<and> exit_flag (gm s) = 0 \<and>
     run_task good_env 1 t s = Some (T_done, s') \<and> exit_flag (gm s') = 1"
proof -
  obtain s timeout where s: "gw_reach good_env (s, T_run timeout 0 0, A_wait_exit)" "exit_flag (gm s) = 0"
      "messages (gateway_mq (gm s)) = [Exit_msg]" "gateway_task_run (gm s) = 1" "gateway_mode (gm s) = 1"
    by (rule exit_reach)
  have e: "creates good_env" by (simp add: creates_def)
  have "queue_ok (gateway_mq (gm s))"
    using reach_sys_inv[OF s(1) e] by (auto elim!: sys_invE simp: gw_inv_def)
  then have "run_task good_env 1 (T_run timeout 0 0) s \<noteq> None"
    using exit_iteration[OF s(3,4,5)] by auto
  then obtain s' where "run_task good_env 1 (T_run timeout 0 0) s = Some (T_done, s')" "exit_flag (gm s') = 1"
    using gateway_end_returns[OF s(1) e refl] s by auto
  with s show ?thesis by blast
qed

text \<open>Behind the wait: draining cannot fail, and it frees what the messages refer to.\<close>

lemma removeAll_live: "set (live (hist (rt_free p s))) = set (live (hist s)) - set_option p"
  by (cases p) (auto simp: rt_free_def)

lemma free_fields [simp]: "gm (rt_free p s) = gm s" "recv_cb (rt_free p s) = recv_cb s"
  by (cases p; simp add: rt_free_def)+

lemma drain_queue_live:
  assumes "mq_ok q"
  shows "\<exists>q' s'. drain_queue q s = Some (q', s') \<and> mq_contents q' = [] \<and> only_hist s s' \<and>
    set (live (hist s')) = set (live (hist s)) - set_mset (queue_ptrs (mq_contents q))"
  using assms
proof (induction q s rule: drain_queue.induct)
  case (1 q s)
  show ?case
  proof (cases rule: mq.recv_result[OF "1.prems", case_names msg none])
    case none
    then show ?thesis by (simp add: drain_queue.simps[of q s] rt_codes)
  next
    case (msg x xs q1)
    show ?thesis
    proof (cases x)
      case (Dl_msg b d t)
      let ?s = "rt_free (Some b) (rt_free (map_option fst d) s)"
      obtain q' s' where s': "drain_queue q1 ?s = Some (q', s')" "mq_contents q' = []" "only_hist ?s s'"
          "set (live (hist s')) = set (live (hist ?s)) - set_mset (queue_ptrs (mq_contents q1))"
        using "1.IH"(2)[OF msg(2) refl refl refl refl Dl_msg] msg(3) by blast
      have "only_hist s s'" using s'(3) only_hist_trans[of s ?s s'] by simp
      moreover have "set (live (hist ?s)) = set (live (hist s)) - set_mset (msg_ptrs x)"
        unfolding removeAll_live by (cases d) (auto simp: Dl_msg)
      ultimately show ?thesis
        using s' msg Dl_msg by (auto simp: drain_queue.simps[of q s])
    qed (use msg "1.IH" in \<open>auto simp: drain_queue.simps[of q s]\<close>)
  qed
qed



section \<open>A start that fails late\<close>

lemma end_frees_again:
  assumes q: "gateway_mq (gm s) = Some (p, pool, q)" "mq_ok q" and d: "pool \<notin> set (live (hist s))"
    and f: "gateway_task_run (gm s) = 0"
  shows "\<exists>s1 s2. end_request s = Some s1 \<and> uc_wiota_gateway_wait_exit s1 = A_finish \<and> end_finish s1 = Some s2 \<and>
    \<not> frees_ok (hist s2)"
proof -
  obtain r q1 where "mq_send4 q Exit_msg 0 = Some (r, q1)" "mq_ok q1"
    by (rule mq.send_result[OF q(2), of Exit_msg 0]) (use q(2) in auto)
  then obtain s1 where s1: "end_request s = Some s1" "gateway_mq (gm s1) = Some (p, pool, q1)" "mq_ok q1"
      "gateway_task_run (gm s1) = 0" "live (hist s1) = live (hist s)"
    using q(1) f by (auto simp: end_request_def clean_data_request_def uc_wiota_gateway_set_allow_run_flag_def
        uc_wiota_gateway_send_exit_def uc_wiota_gateway_send_queue_def Let_def)
  define s2 where "s2 = (emit (C_setup (S_register_recv_cb CB_wiota_recv)) (emit (C_setup (S_set_is_report_fn 0)) s1))
      \<lparr>recv_cb := CB_wiota_recv\<rparr>"
  define s3 where "s3 = (if ota_timer (gm s2)
      then gm_update (ota_timer_update (\<lambda>_. False)) (emit (C_ipc I_timer_delete) s2) else s2)"
  define s4 where "s4 = uc_wiota_gateway_del_fn_sem s3"
  define s5 where "s5 = (if is_ts_mode (gm s4) \<noteq> 0
      then emit (C_setup S_back_to_idle) (emit (C_wiota (W_set_active_time (active_time (gm s4)))) s4) else s4)"
  define s6 where "s6 = gm_update (\<lambda>g. g\<lparr>gateway_handler := False, gateway_mode := 0\<rparr>) s5"
  have s6: "gateway_mq (gm s6) = Some (p, pool, q1)" "live (hist s6) = live (hist s)"
    using s1 by (simp_all add: s2_def s3_def s4_def s5_def s6_def uc_wiota_gateway_del_fn_sem_def)
  obtain q' s7 where s7: "drain_queue q1 s6 = Some (q', s7)"
      "set (live (hist s7)) = set (live (hist s6)) - set_mset (queue_ptrs (mq_contents q1))"
    using drain_queue_live[OF s1(3)] by blast
  have "pool \<notin> set (live (hist s7))" using s7(2) s6(2) d by simp
  moreover have "\<exists>s8. end_finish s1 = Some s8 \<and> hist s8 = C_free p # C_free pool # C_ipc I_mq_detach # hist s7"
    using s6 s7(1)
    unfolding end_finish_def Let_def s2_def[symmetric] s3_def[symmetric] s4_def[symmetric] s5_def[symmetric] s6_def[symmetric]
    by (simp add: uc_wiota_gateway_dele_queue_def free_hist)
  ultimately show ?thesis using s1(1,4) by (auto simp: uc_wiota_gateway_wait_exit_def)
qed

text \<open>
  The condition on the timer in the theorem about memory is needed: when it cannot be created, the
  start returns the error 5 and frees the queue, but it keeps the pointer and the connected
  state, so that the end that the application then asks for frees the queue a second time.
\<close>

lemma gateway_start_failure_double_free:
  assumes e: "\<And>h k. e_malloc e h k" "\<And>h. length (e_dev_serial e h) \<le> 16" "\<And>h. \<not> e_timer_create e h"
    and s: "wiota_gw_connect_flag s = UC_GW_NO_CONNECT"
      "is_force_active (gm s) \<noteq> 0 \<or> e_state e (hist s) = UC_STATUS_SYNC"
    and key: "rt_strlen key = Some n" "n \<le> 16"
  shows "\<exists>s1 s2 s3. uc_wiota_gateway_start e UC_TRANSMISSION_MODE (Some key) freq s = Some (5, s1) \<and>
    wiota_gw_connect_flag s1 \<noteq> UC_GW_NO_CONNECT \<and> end_request s1 = Some s2 \<and>
    uc_wiota_gateway_wait_exit s2 = A_finish \<and> end_finish s2 = Some s3 \<and> \<not> frees_ok (hist s3)"
proof -
  obtain s0 p pool where s0: "uc_wiota_gateway_start e UC_TRANSMISSION_MODE (Some key) freq s =
      start_finish e UC_TRANSMISSION_MODE False freq s0"
      "gm s0 = (fresh_mode (gm s) key n)\<lparr>gateway_mq := Some (p, pool, rt_mq_init 4 32)\<rparr>"
    using start_transmission_steps[OF e(1,2) s key] by metis
  have g: "gateway_mq (gm s0) = Some (p, pool, rt_mq_init 4 32)" "gateway_task_run (gm s0) = 0"
      "\<not> fn_refresh_sem (gm s0)"
    by (simp_all add: s0(2) fresh_mode_def zero_mode_def)
  then obtain s1 where s1: "start_finish e UC_TRANSMISSION_MODE False freq s0 = Some (5, s1)"
      "gateway_mq (gm s1) = Some (p, pool, rt_mq_init 4 32)" "gateway_task_run (gm s1) = 0"
      "wiota_gw_connect_flag s1 = UC_GW_CONNECT_SUCESS" "pool \<notin> set (live (hist s1))"
    using e(3) by (auto simp: start_finish_def Let_def uc_wiota_gateway_dele_queue_def uc_wiota_gateway_del_fn_sem_def free_hist)
  show ?thesis
    using end_frees_again[OF s1(2) init_ok(1)[OF refl] s1(5,3)] s0(1) s1(1,4) by auto
qed

lemma gateway_start_failure_double_free_witness:
  "let e = good_env\<lparr>e_timer_create := (\<lambda>h. False)\<rparr> in
   \<exists>s1 s2 s3. uc_wiota_gateway_start e UC_TRANSMISSION_MODE (Some [107, 101, 121, 0]) None init_gw = Some (5, s1) \<and>
     end_request s1 = Some s2 \<and> end_finish s2 = Some s3 \<and> \<not> frees_ok (hist s3)"
  unfolding Let_def
  using gateway_start_failure_double_free[of "good_env\<lparr>e_timer_create := (\<lambda>h. False)\<rparr>" init_gw "[107, 101, 121, 0]" 3 None]
  by (auto simp: good_env_def init_gw_def)

end
