(* ===== verification/GatewayUpdate.thy ===== *)
theory GatewayUpdate
  imports GatewayLife
begin

text \<open>
  Firmware updates over the air: which messages start one, the blocks of an image in whatever order
  they arrive, the check of the complete image before the reboot, and the request for what is
  missing.
\<close>

section \<open>The map of received blocks\<close>

definition received :: "gw \<Rightarrow> nat \<Rightarrow> bool" where
  "received s k \<longleftrightarrow> bit (mask_map (gm s) ! (k div 8)) (k mod 8)"

lemma map_bit_eq: "i < 8 * length mm \<Longrightarrow> map_bit mm i = Some (bit (mm ! (i div 8)) (i mod 8))"
  by (simp add: map_bit_def rd_def less_mult_imp_div_less mult.commute)

lemma map_bit_None: "8 * length mm \<le> i \<Longrightarrow> map_bit mm i = None"
  by (simp add: map_bit_def rd_def)

lemma count_set_eq:
  "i + n \<le> 8 * length mm \<Longrightarrow>
     count_set mm i n k = Some (k + length (filter (\<lambda>j. bit (mm ! (j div 8)) (j mod 8)) [i..<i + n]))"
proof (induction n arbitrary: i k)
  case (Suc n)
  then have "i < 8 * length mm" by simp
  moreover have "[i..<i + Suc n] = i # [Suc i..<Suc i + n]" by (simp add: upt_conv_Cons)
  ultimately show ?case using Suc.IH[of "Suc i"] Suc.prems by (simp add: map_bit_eq)
qed simp

lemma whether_recved_eq:
  assumes "unat (block_count (gm s)) \<le> 8 * length (mask_map (gm s))"
  shows "uc_wiota_gateway_whether_the_ota_upgrade_data_is_recved s =
    Some (\<forall>k < unat (block_count (gm s)). received s k)"
proof -
  let ?n = "unat (block_count (gm s))" and ?P = "\<lambda>j. bit (mask_map (gm s) ! (j div 8)) (j mod 8)"
  have "(?n \<le> length (filter ?P [0..<?n])) = (\<forall>j < ?n. ?P j)"
  proof
    assume "?n \<le> length (filter ?P [0..<?n])"
    then have "\<not> length (filter ?P [0..<?n]) < length [0..<?n]" by simp
    then show "\<forall>j < ?n. ?P j" using length_filter_less[of _ "[0..<?n]" ?P] by force
  next
    assume "\<forall>j < ?n. ?P j"
    then have "filter ?P [0..<?n] = [0..<?n]" by simp
    then show "?n \<le> length (filter ?P [0..<?n])" by simp
  qed
  then show ?thesis
    using count_set_eq[of 0 ?n "mask_map (gm s)" 0] assms
    by (simp add: uc_wiota_gateway_whether_the_ota_upgrade_data_is_recved_def received_def)
qed

lemma set_map_bit_bit:
  assumes "i < 8 * length mm"
  shows "\<exists>mm'. set_map_bit mm i = Some mm' \<and> length mm' = length mm \<and>
    (\<forall>j < 8 * length mm. bit (mm' ! (j div 8)) (j mod 8) \<longleftrightarrow> j = i \<or> bit (mm ! (j div 8)) (j mod 8))"
proof -
  have d: "k div 8 < length mm" if "k < 8 * length mm" for k
    using that by (simp add: less_mult_imp_div_less mult.commute)
  have b: "bit (push_bit (i mod 8) (1 :: u8)) (j mod 8) \<longleftrightarrow> j mod 8 = i mod 8" for j
    by (auto simp: bit_simps)
  have "j div 8 = i div 8 \<Longrightarrow> j mod 8 = i mod 8 \<Longrightarrow> j = i" for j by (metis div_mult_mod_eq)
  then show ?thesis
    using d[OF assms] d b by (auto simp: set_map_bit_def rd_def nth_list_update bit_or_iff)
qed

section \<open>Blocks in any order\<close>

text \<open>Block \<open>k\<close> of an image, the message that carries it, and a sequence of messages.\<close>

definition image_block :: "u8 list \<Rightarrow> nat \<Rightarrow> u8 list" where
  "image_block img k = take 512 (drop (512 * k) img)"

definition block_count_of :: "u8 list \<Rightarrow> nat" where
  "block_count_of img = (length img + 511) div 512"

definition carries_block :: "u8 list \<Rightarrow> nat \<Rightarrow> u8 list \<Rightarrow> bool" where
  "carries_block img k m \<longleftrightarrow>
     k < block_count_of img \<and>
     req_data_offset m = Some (word_of_nat (512 * k)) \<and>
     req_data_length m = Some (word_of_nat (length (image_block img k))) \<and>
     length (image_block img k) \<le> length (req_data m) \<and>
     take (length (image_block img k)) (req_data m) = image_block img k"

fun store_blocks :: "env \<Rightarrow> u32 \<Rightarrow> u8 list list \<Rightarrow> gw \<Rightarrow> gw option" where
  "store_blocks e wa [] s = Some s"
| "store_blocks e wa (m # ms) s = do { s \<leftarrow> ota_store_block e m wa s; store_blocks e wa ms s }"

text \<open>
  The state after the blocks \<open>K\<close> have arrived: their bits are set, and the flash, which held \<open>B0\<close>,
  has their bytes.
\<close>

definition downloaded ::
  "(nat \<Rightarrow> u8) \<Rightarrow> (nat \<Rightarrow> u8) \<Rightarrow> nat \<Rightarrow> u8 list \<Rightarrow> nat set \<Rightarrow> gw \<Rightarrow> bool" where
  "downloaded F0 B0 a img K s \<longleftrightarrow>
     length (mask_map (gm s)) = 28 \<and> (\<forall>k < 224. received s k \<longleftrightarrow> k \<in> K) \<and>
     flash_byte (flash_mem F0 (hist s)) =
       (\<lambda>i. if a \<le> i \<and> i < a + length img \<and> (i - a) div 512 \<in> K then img ! (i - a) else B0 i)"

lemma sint_small: "n < 2 ^ 31 \<Longrightarrow> sint (word_of_nat n :: u32) = int n"
  by (simp add: signed_of_nat signed_take_bit_int_eq_self)

lemma unat_small: "n < 2 ^ 32 \<Longrightarrow> unat (word_of_nat n :: u32) = n"
  by (simp add: unsigned_of_nat take_bit_nat_eq_self)

lemma block_of_eq:
  assumes "k < 224" shows "block_of (word_of_nat (512 * k)) = k"
proof -
  have "sint (word_of_nat (512 * k) :: u32) sdiv 512 = int k"
    using assms by (subst sint_small) (simp_all add: signed_divide_int_def sgn_if)
  then show ?thesis using assms unat_small[of k] by (simp add: block_of_def del: of_nat_mult)
qed

lemma length_image_block: "k < block_count_of img \<Longrightarrow>
  0 < length (image_block img k) \<and> length (image_block img k) \<le> 512 \<and>
  512 * k + length (image_block img k) \<le> length img"
  by (auto simp: image_block_def block_count_of_def)

lemma image_block_range:
  assumes "k < block_count_of img"
  shows "512 * k \<le> j \<and> j < 512 * k + length (image_block img k) \<longleftrightarrow> j < length img \<and> j div 512 = k"
  using assms by (auto simp: image_block_def block_count_of_def)

lemma image_block_nth: "j < length (image_block img k) \<Longrightarrow> image_block img k ! j = img ! (512 * k + j)"
  by (cases "512 * k \<le> length img") (simp_all add: image_block_def)

lemma flash_write_spec:
  assumes "flash_contract e F0" "0 < sz" "sz \<le> length buf" "addr + sz \<le> 1048576"
  shows "\<exists>s'. uc_wiota_ota_flash_write e buf addr sz s = Some s' \<and> only_hist s s' \<and>
    flash_byte (flash_mem F0 (hist s')) = written (flash_byte (flash_mem F0 (hist s))) addr (take sz buf)"
  using ota_flash_write_spec[OF assms, of "suspend_radio e s"] suspend_radio_frame[of s e]
  by (auto simp: uc_wiota_ota_flash_write_def flash_frame_def dest: only_hist_trans)

lemma store_block_step:
  assumes con: "flash_contract e F0" and d: "downloaded F0 B0 (unat wa) img K s"
    and room: "unat wa + length img \<le> 1048576" "length img \<le> 224 * 512"
    and er: "\<And>i. unat wa \<le> i \<Longrightarrow> i < unat wa + length img \<Longrightarrow> B0 i = 0xFF"
    and m: "carries_block img k m"
  shows "\<exists>s' mm. ota_store_block e m wa s = Some s' \<and> downloaded F0 B0 (unat wa) img (insert k K) s' \<and>
    gm s' = (gm s)\<lparr>mask_map := mm, ota_recved_len := ota_recved_len (gm s) +
      (if k \<in> K then 0 else word_of_nat (length (image_block img k)))\<rparr>"
proof -
  let ?b = "image_block img k"
  have k: "k < block_count_of img" "k < 224" using m room(2) by (auto simp: carries_block_def block_count_of_def)
  have mm: "length (mask_map (gm s)) = 28" "\<And>j. j < 224 \<Longrightarrow> received s j \<longleftrightarrow> j \<in> K"
    using d by (simp_all add: downloaded_def)
  have rd: "req_data_offset m = Some (word_of_nat (512 * k))" "req_data_length m = Some (word_of_nat (length ?b))"
      "length ?b \<le> length (req_data m)" "take (length ?b) (req_data m) = ?b"
    using m by (simp_all add: carries_block_def)
  note len = length_image_block[OF k(1)]
  have bit: "map_bit (mask_map (gm s)) k = Some (k \<in> K)"
    using map_bit_eq[of k "mask_map (gm s)"] mm k(2) by (simp add: received_def)
  show ?thesis
  proof (cases "k \<in> K")
    case True
    then have "ota_store_block e m wa s = Some s" "insert k K = K"
      using rd(1) bit block_of_eq[OF k(2)] by (auto simp: ota_store_block_def Let_def simp del: of_nat_mult)
    then show ?thesis using d True by (intro exI[of _ s] exI[of _ "mask_map (gm s)"]) simp
  next
    case False
    have n: "unat (word_of_nat (length ?b) :: u16) = length ?b"
      using len by (simp add: unsigned_of_nat take_bit_nat_eq_self)
    have "unat (word_of_nat (512 * k) :: u32) = 512 * k" using k(2) by (intro unat_small) simp
    then have a: "unat (wa + word_of_nat (512 * k)) = unat wa + 512 * k"
      using room len unat_add_lem[of wa "word_of_nat (512 * k)"] by (simp del: of_nat_mult)
    obtain s1 where s1: "uc_wiota_ota_flash_write e (req_data m) (unat wa + 512 * k) (length ?b) s = Some s1"
        "only_hist s s1" "flash_byte (flash_mem F0 (hist s1)) =
          written (flash_byte (flash_mem F0 (hist s))) (unat wa + 512 * k) ?b"
      using flash_write_spec[OF con _ rd(3), of "unat wa + 512 * k" s] len room rd(4) by auto
    obtain mm' where mm': "set_map_bit (mask_map (gm s)) k = Some mm'" "length mm' = 28"
        "\<And>j. j < 224 \<Longrightarrow> bit (mm' ! (j div 8)) (j mod 8) \<longleftrightarrow> j = k \<or> received s j"
      using set_map_bit_bit[of k "mask_map (gm s)"] mm k(2) by (auto simp: received_def)
    have g: "gm s1 = gm s" using s1(2) by (auto elim!: only_hist_fields)
    define s' where "s' = gm_update (\<lambda>g. g\<lparr>mask_map := mm', ota_recved_len := ota_recved_len g + word_of_nat (length ?b)\<rparr>) s1"
    have l: "(ucast (word_of_nat (length ?b) :: u16) :: u32) = word_of_nat (length ?b)"
      using len by (simp add: unsigned_of_nat take_bit_nat_eq_self)
    have "ota_store_block e m wa s = Some s'"
      using rd(1,2) bit False block_of_eq[OF k(2)] s1(1) mm'(1) g n a l
      by (simp add: ota_store_block_def Let_def s'_def del: of_nat_mult)
    moreover have "flash_byte (flash_mem F0 (hist s')) = (\<lambda>i. if unat wa \<le> i \<and> i < unat wa + length img \<and>
        (i - unat wa) div 512 \<in> insert k K then img ! (i - unat wa) else B0 i)"
    proof (rule ext)
      fix i
      let ?in = "unat wa + 512 * k \<le> i \<and> i < unat wa + 512 * k + length ?b"
      let ?r = "unat wa \<le> i \<and> i < unat wa + length img"
      have eq: "?in \<longleftrightarrow> ?r \<and> (i - unat wa) div 512 = k"
      proof (cases "unat wa \<le> i")
        case True
        then show ?thesis using image_block_range[OF k(1), of "i - unat wa"] by linarith
      qed simp
      have B: "flash_byte (flash_mem F0 (hist s)) i =
          (if ?r \<and> (i - unat wa) div 512 \<in> K then img ! (i - unat wa) else B0 i)"
        using d by (simp add: downloaded_def)
      have w: "flash_byte (flash_mem F0 (hist s')) i =
          (if ?in then flash_byte (flash_mem F0 (hist s)) i AND ?b ! (i - (unat wa + 512 * k))
           else flash_byte (flash_mem F0 (hist s)) i)"
        by (simp add: s'_def s1(3) written_def)
      show "flash_byte (flash_mem F0 (hist s')) i = (if unat wa \<le> i \<and> i < unat wa + length img \<and>
          (i - unat wa) div 512 \<in> insert k K then img ! (i - unat wa) else B0 i)"
      proof (cases ?in)
        case True
        then have "?b ! (i - (unat wa + 512 * k)) = img ! (i - unat wa)"
          using image_block_nth[of "i - (unat wa + 512 * k)" img k] by auto
        moreover have "?r" "(i - unat wa) div 512 = k" using True eq by blast+
        moreover from this have "flash_byte (flash_mem F0 (hist s)) i = 0xFF" using B False er[of i] by simp
        ultimately show ?thesis using w True by simp
      next
        case False
        then have "\<not> ?r \<or> (i - unat wa) div 512 \<noteq> k" using eq by blast
        then show ?thesis using w B False by auto
      qed
    qed
    ultimately show ?thesis
      using mm mm'(2,3) g False by (intro exI[of _ s'] exI[of _ mm']) (auto simp: downloaded_def received_def s'_def)
  qed
qed

lemma store_blocks_downloaded:
  assumes con: "flash_contract e F0"
    and room: "unat wa + length img \<le> 1048576" "length img \<le> 224 * 512"
    and er: "\<And>i. unat wa \<le> i \<Longrightarrow> i < unat wa + length img \<Longrightarrow> B0 i = 0xFF"
  shows "downloaded F0 B0 (unat wa) img K s \<Longrightarrow> list_all2 (carries_block img) ks ms \<Longrightarrow>
    \<exists>s'. store_blocks e wa ms s = Some s' \<and> downloaded F0 B0 (unat wa) img (K \<union> set ks) s' \<and>
      block_count (gm s') = block_count (gm s)"
proof (induction ks arbitrary: K s ms)
  case (Cons k ks)
  then obtain m ms' where ms: "ms = m # ms'" "carries_block img k m" "list_all2 (carries_block img) ks ms'"
    by (auto simp: list_all2_Cons1)
  obtain s1 mm l where s1: "ota_store_block e m wa s = Some s1" "downloaded F0 B0 (unat wa) img (insert k K) s1"
      "gm s1 = (gm s)\<lparr>mask_map := mm, ota_recved_len := l\<rparr>"
    using store_block_step[OF con Cons.prems(1) room er ms(2)] by blast
  then show ?case using Cons.IH[OF s1(2) ms(3)] s1 ms(1) by auto
qed auto

lemma downloaded_clear:
  "mask_map (gm s) = replicate 28 0 \<Longrightarrow> downloaded F0 (flash_byte (flash_mem F0 (hist s))) a img {} s"
  by (simp add: downloaded_def received_def less_mult_imp_div_less)

lemma all_received:
  assumes d: "downloaded F0 B0 a img K s" and n: "unat (block_count (gm s)) = block_count_of img"
    and l: "length img \<le> 224 * 512"
  shows "uc_wiota_gateway_whether_the_ota_upgrade_data_is_recved s = Some ({..<block_count_of img} \<subseteq> K)"
    and "{..<block_count_of img} \<subseteq> K \<Longrightarrow> map (flash_byte (flash_mem F0 (hist s))) [a..<a + length img] = img"
proof -
  have c: "block_count_of img \<le> 224" using l by (auto simp: block_count_of_def)
  have mm: "length (mask_map (gm s)) = 28" "\<And>k. k < 224 \<Longrightarrow> received s k \<longleftrightarrow> k \<in> K"
    and B: "flash_byte (flash_mem F0 (hist s)) =
      (\<lambda>i. if a \<le> i \<and> i < a + length img \<and> (i - a) div 512 \<in> K then img ! (i - a) else B0 i)"
    using d by (simp_all add: downloaded_def)
  show "uc_wiota_gateway_whether_the_ota_upgrade_data_is_recved s = Some ({..<block_count_of img} \<subseteq> K)"
    using whether_recved_eq[of s] mm n c by auto
  assume K: "{..<block_count_of img} \<subseteq> K"
  have "j div 512 \<in> K" if "j < length img" for j
  proof -
    have "j div 512 < block_count_of img" using that by (simp add: block_count_of_def)
    then show ?thesis using K by auto
  qed
  then show "map (flash_byte (flash_mem F0 (hist s))) [a..<a + length img] = img"
    by (intro nth_equalityI) (simp_all add: B)
qed

text \<open>C4.
  The blocks of an image may arrive in any order and any number of times: into erased flash, an
  image of at most 224 blocks below the 1 MiB limit is stored by \<open>ota_store_block\<close> without a
  fault; the update counts as complete exactly when every block has arrived, the flash then holds
  the image, and no byte outside its place has changed.
\<close>

theorem ota_download_any_order:
  assumes con: "flash_contract e F0"
    and room: "unat wa + length img \<le> 1048576" "length img \<le> 224 * 512"
    and fresh: "mask_map (gm s) = replicate 28 0" "unat (block_count (gm s)) = block_count_of img"
    and er: "\<And>i. unat wa \<le> i \<Longrightarrow> i < unat wa + length img \<Longrightarrow> flash_byte (flash_mem F0 (hist s)) i = 0xFF"
    and ms: "list_all2 (carries_block img) ks ms"
  shows "\<exists>s'. store_blocks e wa ms s = Some s' \<and>
    uc_wiota_gateway_whether_the_ota_upgrade_data_is_recved s' = Some ({..<block_count_of img} \<subseteq> set ks) \<and>
    ({..<block_count_of img} \<subseteq> set ks \<longrightarrow>
      map (flash_byte (flash_mem F0 (hist s'))) [unat wa..<unat wa + length img] = img) \<and>
    (\<forall>i. i < unat wa \<or> unat wa + length img \<le> i \<longrightarrow>
      flash_byte (flash_mem F0 (hist s')) i = flash_byte (flash_mem F0 (hist s)) i)"
proof -
  obtain s' where s': "store_blocks e wa ms s = Some s'"
      "downloaded F0 (flash_byte (flash_mem F0 (hist s))) (unat wa) img (set ks) s'"
      "block_count (gm s') = block_count (gm s)"
    using store_blocks_downloaded[OF con room er downloaded_clear[OF fresh(1)] ms] by auto
  then show ?thesis
    using all_received[OF s'(2) _ room(2)] fresh(2) by (auto simp: downloaded_def)
qed

text \<open>A message for the examples.\<close>

definition block_message :: "u8 list \<Rightarrow> nat \<Rightarrow> u8 list" where
  "block_message img k = replicate 128 0 @ put32 (word_of_nat (512 * k)) @
     put16 (word_of_nat (length (image_block img k))) @ replicate 6 0 @ image_block img k"

lemma carries_block_message: "k < block_count_of img \<Longrightarrow> carries_block img k (block_message img k)"
  using rd32_at_append[of "replicate 128 0" 128 "word_of_nat (512 * k)"]
    rd16_at_append[of "replicate 128 0 @ put32 (word_of_nat (512 * k))" 132 "word_of_nat (length (image_block img k))"]
  by (simp add: carries_block_def block_message_def req_defs del: of_nat_mult)

theorem ota_download_any_order_witness:
  "let img = replicate 600 7; s = init_gw\<lparr>gm := zero_mode\<lparr>block_count := 2\<rparr>\<rparr> in
   \<exists>s'. store_blocks (flash_env (\<lambda>_. 0xFF)) 0x1000 [block_message img 1, block_message img 0, block_message img 1] s = Some s' \<and>
     uc_wiota_gateway_whether_the_ota_upgrade_data_is_recved s' = Some True \<and>
     map (flash_byte (flash_mem (\<lambda>_. 0xFF) (hist s'))) [0x1000..<0x1000 + 600] = img"
proof -
  define img where "img = replicate 600 (7 :: u8)"
  define s where "s = init_gw\<lparr>gm := zero_mode\<lparr>block_count := 2\<rparr>\<rparr>"
  define e where "e = flash_env (\<lambda>_. 0xFF)"
  have n: "length img = 600" "unat (0x1000 :: u32) = 0x1000" by (simp_all add: img_def)
  have c: "block_count_of img = 2" using n(1) by (simp add: block_count_of_def)
  have ms: "list_all2 (carries_block img) [1, 0, 1] [block_message img 1, block_message img 0, block_message img 1]"
    using carries_block_message[of _ img] c by simp
  have e: "flash_contract e (\<lambda>_. 0xFF)" by (simp add: e_def)
  have room: "unat (0x1000 :: u32) + length img \<le> 1048576" "length img \<le> 224 * 512" using n by simp_all
  have f: "mask_map (gm s) = replicate 28 0" "unat (block_count (gm s)) = block_count_of img"
    using c by (simp_all add: s_def zero_mode_def)
  have er: "flash_byte (flash_mem (\<lambda>_. 0xFF) (hist s)) i = 0xFF" for i by (simp add: s_def init_gw_def)
  define ms where "ms = [block_message img 1, block_message img 0, block_message img 1]"
  define full where "full \<longleftrightarrow> {..<block_count_of img} \<subseteq> set [1, 0, 1]"
  have full: "full" unfolding full_def c by auto
  have "\<exists>s'. store_blocks e 0x1000 ms s = Some s' \<and>
     uc_wiota_gateway_whether_the_ota_upgrade_data_is_recved s' = Some full \<and>
     (full \<longrightarrow> map (flash_byte (flash_mem (\<lambda>_. 0xFF) (hist s')))
        [unat (0x1000 :: u32)..<unat (0x1000 :: u32) + length img] = img) \<and>
     (\<forall>i. i < unat (0x1000 :: u32) \<or> unat (0x1000 :: u32) + length img \<le> i \<longrightarrow>
       flash_byte (flash_mem (\<lambda>_. 0xFF) (hist s')) i = flash_byte (flash_mem (\<lambda>_. 0xFF) (hist s)) i)"
    unfolding full_def ms_def by (rule ota_download_any_order[OF e room f _ ms]) (rule er)
  then have "\<exists>s'. store_blocks e 0x1000 ms s = Some s' \<and>
     uc_wiota_gateway_whether_the_ota_upgrade_data_is_recved s' = Some True \<and>
     map (flash_byte (flash_mem (\<lambda>_. 0xFF) (hist s'))) [0x1000..<0x1000 + 600] = img"
    unfolding n by (elim exE conjE) (rule exI, intro conjI, assumption, simp only: full, simp only: full simp_thms)
  then show ?thesis unfolding Let_def img_def s_def e_def ms_def .
qed

section \<open>The reboot into a new image\<close>

lemma memcmp_true: "rt_memcmp_eq as bs n = Some True \<Longrightarrow> take n bs = take n as"
  by (induction as bs n rule: rt_memcmp_eq.induct) (auto split: if_splits)

text \<open>\<open>resets s\<close>: the chip was reset, which is how the boot loader is told to install an image.\<close>

definition resets :: "gw \<Rightarrow> bool" where
  "resets s \<longleftrightarrow> C_boot B_reset_8288 \<in> set (hist s)"

lemma resets_simps [simp]:
  "c \<noteq> C_boot B_reset_8288 \<Longrightarrow> resets (emit c s) = resets s" "resets (gm_update f s) = resets s"
  "resets (rt_free p s) = resets s" "resets (s\<lparr>wiota_gw_connect_flag := v\<rparr>) = resets s"
  by (auto simp: resets_def rt_free_def split: option.splits)

lemma resets_adds: "adds flash_call s s' \<Longrightarrow> resets s' = resets s"
  by (force simp: adds_def resets_def)

lemma resets_ops [simp]:
  "resets (uc_gateway_stop_ota_timer s) = resets s" "resets (uc_gateway_control_ota_timer t s) = resets s"
  "resets (uc_gateway_clear_state s) = resets s"
  by (simp_all add: uc_gateway_stop_ota_timer_def uc_gateway_control_ota_timer_def uc_gateway_clear_state_def)

lemma check_required_resets:
  "uc_wiota_gateway_check_if_upgrade_required e m ex s = Some (b, s') \<Longrightarrow> resets s' = resets s"
proof -
  assume c: "uc_wiota_gateway_check_if_upgrade_required e m ex s = Some (b, s')"
  obtain r s1 f n p where r: "in_upgrade_range e m s = Some (r, s1)"
      "(if f then upgrade_decision ex n p s1 else (False, s1)) = (b, s')"
    using c by (auto simp: uc_wiota_gateway_check_if_upgrade_required_def split del: if_split)
  have "resets s1 = resets s" using r(1) by (auto simp: in_upgrade_range_def split del: if_split split: if_split_asm)
  moreover have "resets (snd (upgrade_decision ex n p s1)) = resets s1"
    by (simp add: upgrade_decision_def split: uc_gateway_ota_state.splits)
  ultimately show ?thesis using r(2) by (cases f) auto
qed

lemma ota_begin_resets: "ota_begin e m fs wa s = Some s' \<Longrightarrow> resets s' = resets s"
  by (auto simp: ota_begin_def Let_def call_report_def dest!: flash_erase_adds resets_adds)

lemma ota_store_block_resets: "ota_store_block e m wa s = Some s' \<Longrightarrow> resets s' = resets s"
  by (auto simp: ota_store_block_def Let_def split: if_split_asm dest!: flash_write_adds resets_adds)

lemma check_resets:
  assumes c: "uc_wiota_ota_check_flash_data e a n md5 s = Some (rc, s')"
  shows "resets s' = resets s"
proof (cases rule: rt_malloc_cases[of e s 512])
  case fail
  then show ?thesis using c by (simp add: uc_wiota_ota_check_flash_data_def)
next
  case ok
  let ?p = "length (hist s)"
  let ?s = "suspend_radio e (emit (C_malloc ?p 512) s)"
  obtain ctx s1 where l: "check_loop e a n 0 (tiny_md5_starts blank_context) ?s = Some (ctx, s1)"
      "s' = emit (C_wiota W_recover_connect) (rt_free (Some ?p) s1) \<or>
       s' = rt_free (Some ?p) (emit (C_wiota W_recover_connect) s1)"
    using c ok by (auto simp: uc_wiota_ota_check_flash_data_def Let_def split: option.splits)
  have "resets s1 = resets ?s" by (rule resets_adds[OF check_loop_adds[OF l(1)]])
  moreover have "resets ?s = resets s" by (simp add: suspend_radio_def Let_def)
  ultimately show ?thesis using l(2) by auto
qed

text \<open>What an accepted image looks like.\<close>

lemma check_accepts:
  assumes con: "flash_contract e F0" and sz: "a + sz \<le> 2 ^ 32" "sz < 2 ^ 31"
    and c: "uc_wiota_ota_check_flash_data e a sz md5 s = Some (rc, s')"
  shows "resets s' = resets s \<and> flash_mem F0 (hist s') = flash_mem F0 (hist s) \<and> gm s' = gm s \<and>
    (rc = 0 \<longrightarrow> take 32 md5 = hex_string (md5_spec (map (flash_byte (flash_mem F0 (hist s'))) [a..<a + sz])))"
proof -
  let ?p = "length (hist s)"
  let ?s = "suspend_radio e (emit (C_malloc ?p 512) s)"
  have m: "e_malloc e (hist s) 512" using c by (auto simp: uc_wiota_ota_check_flash_data_def rt_malloc_def split: if_splits)
  have B: "flash_byte (flash_mem F0 (hist s)) = flash_byte (flash_mem F0 (hist ?s))" by simp
  have rep: "represents (tiny_md5_starts blank_context) (map (flash_byte (flash_mem F0 (hist s))) [a..<a + 0])"
    using represents_starts[of blank_context] by (simp add: blank_context_def)
  define img where "img = map (flash_byte (flash_mem F0 (hist s))) [a..<a + sz]"
  obtain ctx s1 where k: "check_loop e a sz 0 (tiny_md5_starts blank_context) ?s = Some (Some ctx, s1)"
      "represents ctx img" "only_reads ?s s1"
    using check_loop_spec[OF con sz _ B rep] unfolding img_def by blast
  obtain ctx' where f: "tiny_md5_finish ctx = Some (ctx', md5_spec img)"
    using finish_represents[OF k(2)] by blast
  obtain eq where eq: "rt_memcmp_eq (hex_string (md5_spec img)) md5 32 = Some eq" "rc = (if eq then 0 else 2)"
      "s' = rt_free (Some ?p) (emit (C_wiota W_recover_connect) s1)"
    using c k(1) f m by (auto simp: uc_wiota_ota_check_flash_data_def rt_malloc_def Let_def)
  have "flash_mem F0 (hist s1) = flash_mem F0 (hist s)" "resets s1 = resets s"
    using k(3) only_reads_simps(1)[OF k(3)]
    by (auto simp: only_reads_def resets_def suspend_radio_def Let_def)
  moreover have "gm s1 = gm s"
    using only_reads_simps(3)[OF k(3)] by (auto elim!: only_hist_fields simp: suspend_radio_def Let_def)
  moreover have "eq \<Longrightarrow> take 32 md5 = hex_string (md5_spec img)"
    using memcmp_true[of "hex_string (md5_spec img)" md5 32] eq(1) by (auto simp: length_md5_spec)
  ultimately show ?thesis using eq by (simp add: img_def rt_free_def)
qed

lemma ota_complete_resets:
  assumes c: "ota_complete e m fs wa s = Some s'" and r: "\<not> resets s" "resets s'"
    and con: "flash_contract e F0" and sz: "unat wa + unat fs \<le> 2 ^ 32" "unat fs < 2 ^ 31"
  shows "take 32 (req_md5 m) =
      hex_string (md5_spec (map (flash_byte (flash_mem F0 (hist s'))) [unat wa..<unat wa + unat fs])) \<and>
    is_ex_mcu_req m = Some False \<and> mask_map (gm s') = mask_map (gm s) \<and> block_count (gm s') = block_count (gm s)"
proof -
  obtain rc s1 where k: "uc_wiota_ota_check_flash_data e (unat wa) (unat fs) (req_md5 m)
      (uc_gateway_stop_ota_timer s) = Some (rc, s1)"
    using c by (auto simp: ota_complete_def)
  from check_accepts[OF con sz k] have s1: "\<not> resets s1" "gm s1 = gm (uc_gateway_stop_ota_timer s)"
      "rc = 0 \<Longrightarrow> take 32 (req_md5 m) =
         hex_string (md5_spec (map (flash_byte (flash_mem F0 (hist s1))) [unat wa..<unat wa + unat fs]))"
    using r(1) by simp_all
  have rc: "rc = 0" using c k r s1(1) by (auto simp: ota_complete_def split: if_splits)
  let ?s2 = "gm_update (\<lambda>g. g\<lparr>ota_dl_state := 2, ota_recved_len := fs, upgrade_num := 0\<rparr>) s1"
  obtain ex where ex: "is_ex_mcu_req m = Some ex"
      "(if \<not> ex then ota_program m fs ?s2 else ota_hand_over m fs wa ?s2) = Some s'"
    using c k rc by (auto simp: ota_complete_def Let_def)
  have "\<not> ex"
    using ex(2) r s1(1) by (auto simp: ota_hand_over_def Let_def split: option.splits)
  then have p: "ota_program m fs ?s2 = Some s'" using ex(2) by simp
  then have "flash_mem F0 (hist s') = flash_mem F0 (hist s1)" "mask_map (gm s') = mask_map (gm s1)"
      "block_count (gm s') = block_count (gm s1)"
    by (auto simp: ota_program_def Let_def call_report_def uc_wiota_ota_jump_program_def)
  then show ?thesis using s1(2,3) rc ex(1) \<open>\<not> ex\<close> by (simp add: uc_gateway_stop_ota_timer_def)
qed

text \<open>Whom an update is for.\<close>

lemma find_iote_iff:
  "find_iote m off n a = Some b \<Longrightarrow> b \<longleftrightarrow> (\<exists>j < n. rd32 m (off + 4 * j) = Some a)"
proof (induction n arbitrary: off)
  case (Suc n)
  obtain x where x: "rd32 m off = Some x" "if a = x then b else find_iote m (off + 4) n a = Some b"
    using Suc.prems by (auto split: if_splits)
  have "(\<exists>j < Suc n. rd32 m (off + 4 * j) = Some a) \<longleftrightarrow>
      rd32 m off = Some a \<or> (\<exists>j < n. rd32 m (off + 4 + 4 * j) = Some a)"
    by (simp add: Ex_less_Suc2 add.assoc)
  then show ?case using x Suc.IH[of "off + 4"] by (auto split: if_splits)
qed simp

definition begins_with_str :: "u8 list \<Rightarrow> u8 list \<Rightarrow> bool" where
  "begins_with_str a b \<longleftrightarrow> (\<exists>n. rt_strlen b = Some n \<and> take n a = take n b)"

lemma strncmp_iff:
  "rt_strncmp_eq a b n = Some t \<Longrightarrow> (\<And>i. i < n \<Longrightarrow> i < length b \<Longrightarrow> b ! i \<noteq> 0) \<Longrightarrow> t \<longleftrightarrow> take n a = take n b"
proof (induction a b n rule: rt_strncmp_eq.induct)
  case (2 a as b bs n)
  have "b \<noteq> 0" using "2.prems"(2)[of 0] by simp
  moreover have "\<And>i. i < n \<Longrightarrow> i < length bs \<Longrightarrow> bs ! i \<noteq> 0" using "2.prems"(2)[of "Suc _"] by simp
  ultimately show ?case using "2.prems"(1) "2.IH" by (auto split: if_splits)
qed auto

lemma begins_with_iff: "begins_with a b = Some t \<Longrightarrow> t \<longleftrightarrow> begins_with_str a b"
  using strncmp_iff strlen_no_zero by (fastforce simp: begins_with_def begins_with_str_def)

lemma upgrade_required_iff:
  assumes c: "uc_wiota_gateway_check_if_upgrade_required e m ex s = Some (b, s')"
    and f: "req_upgrade_range m = Some rng" "req_upgrade_num m = Some num" "req_packet_type m = Some pt"
    and d: "uc_wiota_gateway_get_dev_address e s = Some a" "get_version e s = Some v"
  shows "b \<longleftrightarrow>
    (if rng = 1 then \<exists>j < 8. rd32 m (8 + 4 * j) = Some a else rng = 0 \<and> ota_state (gm s) \<noteq> GATEWAY_OTA_STOP) \<and>
    (ex \<or> begins_with_str v (req_old_version m) \<and> begins_with_str (device_type (gm s)) (req_device_type m)) \<and>
    (ota_state (gm s) = GATEWAY_OTA_DOWNLOAD \<or>
     ota_state (gm s) \<in> {GATEWAY_OTA_DEFAULT, GATEWAY_OTA_STOP} \<and>
       (if ex then ota_dl_state (gm s) = 0 else upgrade_num (gm s) = 0 \<and> pt = 0))"
proof -
  obtain r s1 where r: "in_upgrade_range e m s = Some (r, s1)" using c
    by (auto simp: uc_wiota_gateway_check_if_upgrade_required_def)
  have r': "r \<longleftrightarrow> (if rng = 1 then \<exists>j < 8. rd32 m (8 + 4 * j) = Some a
      else rng = 0 \<and> ota_state (gm s) \<noteq> GATEWAY_OTA_STOP)"
    "s1 = (if rng = 1 \<and> r \<and> ota_state (gm s) = GATEWAY_OTA_STOP
           then gm_update (ota_state_update (\<lambda>_. GATEWAY_OTA_DEFAULT)) s else s)"
    using r f d find_iote_iff[of m 8 8 a] by (auto simp: in_upgrade_range_def split: if_splits)
  have v: "get_version e s1 = Some v" "device_type (gm s1) = device_type (gm s)"
      "ota_dl_state (gm s1) = ota_dl_state (gm s)" "upgrade_num (gm s1) = upgrade_num (gm s)"
    using d(2) r'(2) by (simp_all add: get_version_def)
  obtain fu where fu: "(if \<not> r then Some False else if ex then Some True else matches_device e m s1) = Some fu"
      "(if fu then upgrade_decision ex num pt s1 else (False, s1)) = (b, s')"
    using c r f by (auto simp: uc_wiota_gateway_check_if_upgrade_required_def split del: if_split)
  define match where "match \<longleftrightarrow> ex \<or> begins_with_str v (req_old_version m) \<and>
      begins_with_str (device_type (gm s)) (req_device_type m)"
  have fu': "fu \<longleftrightarrow> r \<and> match"
    using fu(1) v begins_with_iff by (fastforce simp: matches_device_def match_def split: if_splits)
  define free where "free \<longleftrightarrow> (if ex then ota_dl_state (gm s) = 0 else upgrade_num (gm s) = 0 \<and> pt = 0)"
  have dec: "fst (upgrade_decision ex num pt s1) \<longleftrightarrow>
      ota_state (gm s1) = GATEWAY_OTA_DOWNLOAD \<or> ota_state (gm s1) = GATEWAY_OTA_DEFAULT \<and> free"
    using v by (auto simp: upgrade_decision_def free_def split: uc_gateway_ota_state.splits)
  have st: "r \<Longrightarrow> ota_state (gm s1) = (if ota_state (gm s) = GATEWAY_OTA_STOP then GATEWAY_OTA_DEFAULT else ota_state (gm s))"
    using r' by (auto split: if_splits)
  have b: "b \<longleftrightarrow> fu \<and> fst (upgrade_decision ex num pt s1)" using fu(2) by (cases fu) auto
  show ?thesis
    unfolding r'(1)[symmetric] match_def[symmetric] free_def[symmetric] b fu' dec using st by (auto split: if_splits)
qed

text \<open>
  An update message for this device: addressed to it by name in the list of eight, or to all while
  the update was not stopped, and with the old version and the device type of the device.
\<close>

definition meant_for_us :: "env \<Rightarrow> gw \<Rightarrow> u8 list \<Rightarrow> bool" where
  "meant_for_us e s m \<longleftrightarrow>
     (\<exists>rng a v. req_upgrade_range m = Some rng \<and> uc_wiota_gateway_get_dev_address e s = Some a \<and> get_version e s = Some v \<and>
        (if rng = 1 then \<exists>j < 8. rd32 m (8 + 4 * j) = Some a else rng = 0 \<and> ota_state (gm s) \<noteq> GATEWAY_OTA_STOP) \<and>
        begins_with_str v (req_old_version m) \<and> begins_with_str (device_type (gm s)) (req_device_type m))"

lemma meant_reset_count:
  "meant_for_us e (gm_update (miss_data_invalid_req_update f) s) m = meant_for_us e s m"
proof -
  let ?s = "gm_update (miss_data_invalid_req_update f) s"
  have "ota_state (gm ?s) = ota_state (gm s)" "device_type (gm ?s) = device_type (gm s)"
    "get_version e ?s = get_version e s" "uc_wiota_gateway_get_dev_address e ?s = uc_wiota_gateway_get_dev_address e s"
    by (simp_all add: get_version_def uc_wiota_gateway_get_dev_address_def)
  then show ?thesis by (simp only: meant_for_us_def)
qed

lemma required_meant:
  assumes c: "uc_wiota_gateway_check_if_upgrade_required e m False s = Some (True, s')"
  shows "meant_for_us e s m"
proof -
  obtain s1 where r: "in_upgrade_range e m s = Some (True, s1)" "matches_device e m s1 = Some True"
    using c by (auto simp: uc_wiota_gateway_check_if_upgrade_required_def split: if_splits)
  obtain rng a where f: "req_upgrade_range m = Some rng" "uc_wiota_gateway_get_dev_address e s = Some a"
    using r(1) by (auto simp: in_upgrade_range_def)
  obtain num pt where n: "req_upgrade_num m = Some num" "req_packet_type m = Some pt"
    using c by (auto simp: uc_wiota_gateway_check_if_upgrade_required_def)
  have "get_version e s = get_version e s1"
    using r(1) by (auto simp: in_upgrade_range_def get_version_def split: if_splits)
  then obtain v where v: "get_version e s = Some v" using r(2) by (auto simp: matches_device_def)
  from upgrade_required_iff[OF c f(1) n f(2) v] show ?thesis
    unfolding meant_for_us_def using f v by blast
qed

text \<open>What happened before a message reset the chip.\<close>

lemma ota_reset_steps:
  assumes c: "uc_wiota_gateway_ota_upgrade_res_msg e (Some m) s = Some s'" and r: "\<not> resets s" "resets s'"
    and fs: "req_file_size m = Some fs"
  obtains ex req' wa' max' s4 where "is_ex_mcu_req m = Some ex"
    "uc_wiota_gateway_check_if_upgrade_required e m ex
       (gm_update (miss_data_invalid_req_update (\<lambda>_. 0)) (if ex then gm_update (ota_dev_type_update (\<lambda>_. 1)) s else s)) = Some (True, req')"
    "ota_target e ex (if ex then gm_update (ota_dev_type_update (\<lambda>_. 1)) s else s) = (wa', max')" "\<not> sint max' < sint fs"
    "\<not> resets s4" "uc_wiota_gateway_whether_the_ota_upgrade_data_is_recved s4 = Some True" "ota_complete e m fs wa' s4 = Some s'"
proof -
  obtain ex where ex: "is_ex_mcu_req m = Some ex" using c fs by (auto simp: uc_wiota_gateway_ota_upgrade_res_msg_def)
  define s0 where "s0 = (if ex then gm_update (ota_dev_type_update (\<lambda>_. 1)) s else s)"
  obtain wa' max' where w: "ota_target e ex s0 = (wa', max')" by fastforce
  define s1 where "s1 = gm_update (miss_data_invalid_req_update (\<lambda>_. 0)) s0"
  have r1: "\<not> resets s0" "\<not> resets s1" using r(1) by (simp_all add: s0_def s1_def)
  have fits: "\<not> sint max' < sint fs"
    using c fs ex w r r1 by (auto simp: uc_wiota_gateway_ota_upgrade_res_msg_def Let_def s0_def[symmetric])
  obtain req s2 where q: "uc_wiota_gateway_check_if_upgrade_required e m ex s1 = Some (req, s2)"
      "(if \<not> req then Some s2
        else do { s \<leftarrow> (if ota_state (gm s2) = GATEWAY_OTA_DEFAULT then ota_begin e m fs wa' s2 else Some s2);
             if ota_state (gm s) = GATEWAY_OTA_DOWNLOAD
             then do { s \<leftarrow> ota_store_block e m wa' s;
                       recved \<leftarrow> uc_wiota_gateway_whether_the_ota_upgrade_data_is_recved s;
                       if recved then ota_complete e m fs wa' s else Some s }
             else Some s }) = Some s'"
    using c fs ex w fits
    by (auto simp: uc_wiota_gateway_ota_upgrade_res_msg_def Let_def s0_def[symmetric] s1_def[symmetric])
  have r2: "\<not> resets s2" using check_required_resets[OF q(1)] r1 by simp
  then have req: "req = True" using q(2) r(2) by (auto split: if_splits)
  obtain s3 where s3: "(if ota_state (gm s2) = GATEWAY_OTA_DEFAULT then ota_begin e m fs wa' s2 else Some s2) = Some s3"
      "(if ota_state (gm s3) = GATEWAY_OTA_DOWNLOAD
        then do { s \<leftarrow> ota_store_block e m wa' s3;
                  recved \<leftarrow> uc_wiota_gateway_whether_the_ota_upgrade_data_is_recved s;
                  if recved then ota_complete e m fs wa' s else Some s }
        else Some s3) = Some s'"
    using q(2) req by (auto split del: if_split)
  have r3: "\<not> resets s3" using s3(1) r2 by (auto split: if_splits dest: ota_begin_resets)
  obtain s4 where s4: "ota_store_block e m wa' s3 = Some s4"
      "uc_wiota_gateway_whether_the_ota_upgrade_data_is_recved s4 = Some True" "ota_complete e m fs wa' s4 = Some s'"
  proof -
    obtain s4 recved where "ota_store_block e m wa' s3 = Some s4"
        "uc_wiota_gateway_whether_the_ota_upgrade_data_is_recved s4 = Some recved"
        "(if recved then ota_complete e m fs wa' s4 else Some s4) = Some s'"
      using s3(2) r3 r(2) by (auto split: if_split_asm)
    then show ?thesis using that ota_store_block_resets[of e m wa' s3 s4] r3 r(2) by (cases recved) auto
  qed
  have r4: "\<not> resets s4" using ota_store_block_resets[OF s4(1)] r3 by simp
  show ?thesis by (rule that[OF ex q(1)[unfolded s1_def s0_def req] w[unfolded s0_def] fits r4 s4(2,3)])
qed

text \<open>C3.
  The device never reboots into an unverified image. Whatever update message was received in whatever
  state, if handling it resets the chip then the message is for this device (its address is in the
  list or the update is for all, and its old version and device type are those of the device) and
  not for an external controller, the image fits its partition, every block is marked as received,
  and the MD5 digest of the image in flash is the one in the message. This is for an announced size
  below 2 GiB (a larger one is negative in the comparison with the partition and passes it), an
  image that ends within the 32-bit addresses, and at most the 224 blocks that the map has bits for.
\<close>

theorem ota_reset_verified:
  assumes c: "uc_wiota_gateway_ota_upgrade_res_msg e (Some m) s = Some s'" and r: "\<not> resets s" "resets s'"
    and con: "flash_contract e F0" and fs: "req_file_size m = Some fs" "unat fs < 2 ^ 31"
    and wa: "ota_target e False s = (wa, max_size)" "unat wa + unat fs \<le> 2 ^ 32"
    and mm: "8 * length (mask_map (gm s')) \<ge> unat (block_count (gm s'))"
  shows "take 32 (req_md5 m) =
      hex_string (md5_spec (map (flash_byte (flash_mem F0 (hist s'))) [unat wa..<unat wa + unat fs])) \<and>
    meant_for_us e s m \<and> is_ex_mcu_req m = Some False \<and> sint fs \<le> sint max_size \<and>
    (\<forall>k < unat (block_count (gm s')). received s' k)"
proof -
  obtain ex req' wa' max' s4 where ex: "is_ex_mcu_req m = Some ex"
    and q: "uc_wiota_gateway_check_if_upgrade_required e m ex
       (gm_update (miss_data_invalid_req_update (\<lambda>_. 0)) (if ex then gm_update (ota_dev_type_update (\<lambda>_. 1)) s else s)) = Some (True, req')"
    and w: "ota_target e ex (if ex then gm_update (ota_dev_type_update (\<lambda>_. 1)) s else s) = (wa', max')" and fits: "\<not> sint max' < sint fs"
    and r4: "\<not> resets s4" and s4: "uc_wiota_gateway_whether_the_ota_upgrade_data_is_recved s4 = Some True" "ota_complete e m fs wa' s4 = Some s'"
    using ota_reset_steps[OF c r fs(1)] .
  have "is_ex_mcu_req m = Some False"
    using s4(2) r4 r(2) ex check_resets[of e "unat wa'" "unat fs" "req_md5 m" "uc_gateway_stop_ota_timer s4"]
    by (cases ex) (auto simp: ota_complete_def ota_hand_over_def Let_def split: if_splits option.splits)
  then have nex: "\<not> ex" using ex by simp
  then have wa': "wa' = wa" "max' = max_size" using w wa(1) by (simp_all)
  note C = ota_complete_resets[OF s4(2) r4 r(2) con, unfolded wa', OF wa(2) fs(2)]
  have "unat (block_count (gm s4)) \<le> 8 * length (mask_map (gm s4))" using mm C by simp
  then have "\<forall>k < unat (block_count (gm s4)). received s4 k" using whether_recved_eq s4(1) by simp
  moreover have "meant_for_us e s m"
    using q required_meant[of e m "gm_update (miss_data_invalid_req_update (\<lambda>_. 0)) s"] nex
    by (simp only: if_False meant_reset_count)
  ultimately show ?thesis using C fits wa' by (simp add: received_def)
qed

text \<open>A run for the example: the last message of an update whose image, one erased byte, is in place.\<close>

definition last_digest :: "u8 list" where
  "last_digest = hex_string (md5_spec [0xFF])"

definition last_message :: "u8 list" where
  "last_message = replicate 72 0 @ last_digest @ replicate 4 0 @ put32 1 @ replicate 28 0"

definition last_state :: gw where
  "last_state = init_gw\<lparr>exce_report := Some 7, gm := zero_mode\<lparr>ota_state := GATEWAY_OTA_DOWNLOAD,
     block_count := 1, mask_map := 1 # replicate 27 0\<rparr>\<rparr>"

lemma length_last_digest [simp]: "length last_digest = 32"
  by (simp add: last_digest_def length_md5_spec)

lemma rd_zeros:
  "take 4 (drop i m) = replicate 4 0 \<Longrightarrow> rd32 m i = Some 0"
  "take 2 (drop i m) = replicate 2 0 \<Longrightarrow> rd16 m i = Some 0"
proof -
  assume a: "take 4 (drop i m) = replicate 4 0"
  then have "length (take 4 (drop i m)) = 4" by simp
  then have "i + 4 \<le> length m" by simp
  then show "rd32 m i = Some 0" using a by (simp add: rd32_def rdn_def replicate_numeral)
next
  assume a: "take 2 (drop i m) = replicate 2 0"
  then have "length (take 2 (drop i m)) = 2" by simp
  then have "i + 2 \<le> length m" by simp
  then show "rd16 m i = Some 0" using a by (simp add: rd16_def rdn_def replicate_numeral)
qed

lemma last_message_fields:
  "req_upgrade_type last_message = Some 0" "req_upgrade_range last_message = Some 0"
  "req_file_size last_message = Some 1" "req_data_offset last_message = Some 0"
  "req_packet_type last_message = Some 0" "req_upgrade_num last_message = Some 0"
  "take 32 (req_md5 last_message) = last_digest" "32 \<le> length (req_md5 last_message)"
  "req_old_version last_message = 0 # drop 57 last_message"
  "req_device_type last_message = replicate 24 0"
proof -
  show "req_upgrade_type last_message = Some 0" "req_upgrade_range last_message = Some 0"
    by (simp_all add: req_defs rd_zeros last_message_def)
  show "req_file_size last_message = Some 1"
    using rd32_at_append[of "replicate 72 0 @ last_digest @ replicate 4 0" 108 1 "replicate 28 0"]
    by (simp add: req_defs last_message_def)
  show "req_data_offset last_message = Some 0" "req_packet_type last_message = Some 0"
    "req_upgrade_num last_message = Some 0"
    by (simp_all add: req_defs rd_zeros last_message_def)
  show "take 32 (req_md5 last_message) = last_digest" "32 \<le> length (req_md5 last_message)"
    by (simp_all add: req_defs last_message_def)
  have "replicate 16 (0 :: u8) = 0 # replicate 15 0" by (simp add: replicate_numeral)
  then show "req_old_version last_message = 0 # drop 57 last_message"
    "req_device_type last_message = replicate 24 0"
    by (simp_all add: req_defs last_message_def)
qed

lemma begins_with_empty: "begins_with a (0 # b) = Some True"
  by (simp add: begins_with_def)

lemma last_is_ex_mcu: "is_ex_mcu_req last_message = Some False"
proof -
  have "rt_memcmp_eq (0 # x) EXTERN_MCU (Suc n) = Some False" for x n
    by (simp add: EXTERN_MCU_def cstr_def)
  from this[of "replicate 23 0" 5] have "rt_memcmp_eq (0 # replicate 23 0) EXTERN_MCU 6 = Some False" by simp
  moreover have "replicate 24 (0 :: u8) = 0 # replicate 23 0" by (simp add: replicate_numeral)
  ultimately show ?thesis by (simp only: is_ex_mcu_req_def last_message_fields)
qed

lemma last_required:
  assumes s: "ota_state (gm s) = GATEWAY_OTA_DOWNLOAD" "upgrade_num (gm s) = 0"
  shows "uc_wiota_gateway_check_if_upgrade_required (flash_env (\<lambda>_. 0xFF)) last_message False s = Some (True, s)"
proof -
  let ?e = "flash_env (\<lambda>_. 0xFF)"
  obtain a where a: "uc_wiota_gateway_get_dev_address ?e s = Some a"
    using get_dev_address_ok[of ?e s] by (auto simp: flash_env_def good_env_def)
  obtain v where v: "get_version ?e s = Some v"
    by (simp add: get_version_def wr_def flash_env_def good_env_def cstr_def)
  have "replicate 24 (0 :: u8) = 0 # replicate 23 0" by (simp add: replicate_numeral)
  then have d: "begins_with (device_type (gm s)) (req_device_type last_message) = Some True"
    by (simp add: last_message_fields(10) begins_with_empty)
  show ?thesis
    using s a v d by (simp add: uc_wiota_gateway_check_if_upgrade_required_def in_upgrade_range_def
        matches_device_def last_message_fields begins_with_empty upgrade_decision_def)
qed

theorem ota_reset_verified_witness:
  "\<exists>s'. uc_wiota_gateway_ota_upgrade_res_msg (flash_env (\<lambda>_. 0xFF)) (Some last_message) last_state = Some s' \<and>
     \<not> resets last_state \<and> resets s' \<and> take 32 (req_md5 last_message) = hex_string (md5_spec [0xFF]) \<and>
     meant_for_us (flash_env (\<lambda>_. 0xFF)) last_state last_message \<and> (\<forall>k < 1. received s' k)"
proof -
  let ?e = "flash_env (\<lambda>_. 0xFF)" and ?m = last_message
  let ?s1 = "gm_update (miss_data_invalid_req_update (\<lambda>_. 0)) last_state"
  have st: "mask_map (gm last_state) = 1 # replicate 27 0" "block_count (gm last_state) = 1" "hist last_state = []"
      "ota_state (gm ?s1) = GATEWAY_OTA_DOWNLOAD" "upgrade_num (gm ?s1) = 0" "exce_report last_state = Some 7"
    by (simp_all add: last_state_def zero_mode_def init_gw_def)
  have tgt: "ota_target ?e False last_state = (0x90000, 0x80000)"
    by (simp add: ota_target_def flash_env_def good_env_def)
  have store: "ota_store_block ?e ?m 0x90000 ?s1 = Some ?s1"
    using st by (simp add: ota_store_block_def last_message_fields block_of_def map_bit_def rd_def)
  have all: "uc_wiota_gateway_whether_the_ota_upgrade_data_is_recved ?s1 = Some True"
    using st by (simp add: whether_recved_eq received_def)
  have u: "unat (0x90000 :: u32) = 0x90000" "unat (1 :: u32) = 1" by simp_all
  have img: "[0xFF] = map (flash_byte (flash_mem (\<lambda>_. 0xFF) (hist (uc_gateway_stop_ota_timer ?s1)))) [0x90000..<0x90000 + 1]"
    using st by (simp add: uc_gateway_stop_ota_timer_def last_state_def zero_mode_def)
  have "\<exists>s2. uc_wiota_ota_check_flash_data ?e 0x90000 1 (req_md5 ?m) (uc_gateway_stop_ota_timer ?s1) =
      Some (if take 32 (req_md5 ?m) = hex_string (md5_spec [0xFF]) then 0 else 2, s2) \<and>
      live (hist s2) = live (hist (uc_gateway_stop_ota_timer ?s1)) \<and>
      flash_mem (\<lambda>_. 0xFF) (hist s2) = flash_mem (\<lambda>_. 0xFF) (hist (uc_gateway_stop_ota_timer ?s1))"
    using st last_message_fields(8)
    by (intro check_flash_data_spec[OF flash_env_contract _ _ _ _ _ img])
      (simp_all add: uc_gateway_stop_ota_timer_def last_state_def zero_mode_def heap_ok_def flash_env_def)
  then obtain s2 where s2: "uc_wiota_ota_check_flash_data ?e 0x90000 1 (req_md5 ?m) (uc_gateway_stop_ota_timer ?s1) = Some (0, s2)"
    using last_message_fields(7) by (auto simp: last_digest_def)
  have "holds {#} (hist (uc_gateway_stop_ota_timer ?s1))"
    using st by (simp add: holds_def heap_ok_def uc_gateway_stop_ota_timer_def last_state_def zero_mode_def)
  then have "only_hist (uc_gateway_stop_ota_timer ?s1) s2" using check_flash_data_holds[OF s2] by blast
  then have g: "exce_report s2 = Some 7" "gm s2 = gm ?s1" "\<not> resets s2"
    using st check_resets[OF s2]
    by (auto elim!: only_hist_fields simp: uc_gateway_stop_ota_timer_def last_state_def zero_mode_def resets_def)
  obtain s' where s': "ota_program ?m 1 (gm_update (\<lambda>g. g\<lparr>ota_dl_state := 2, ota_recved_len := 1, upgrade_num := 0\<rparr>) s2) = Some s'"
      "resets s'" "mask_map (gm s') = mask_map (gm s2)" "block_count (gm s') = block_count (gm s2)"
    using g(1) by (simp add: ota_program_def call_report_def last_message_fields uc_wiota_ota_jump_program_def
        Let_def resets_def)
  have "ota_complete ?e ?m 1 0x90000 ?s1 = Some s'"
    using s2 s'(1) last_is_ex_mcu by (simp add: ota_complete_def u)
  then have msg: "uc_wiota_gateway_ota_upgrade_res_msg ?e (Some ?m) last_state = Some s'"
    using st(4,5) tgt last_required[of ?s1] store all
    by (simp add: uc_wiota_gateway_ota_upgrade_res_msg_def last_message_fields last_is_ex_mcu)
  have "\<not> resets last_state" using st(3) by (simp add: resets_def)
  moreover have "unat (block_count (gm s')) \<le> 8 * length (mask_map (gm s'))" using s'(3,4) g(2) st by simp
  ultimately show ?thesis
    using ota_reset_verified[OF msg _ s'(2) flash_env_contract last_message_fields(3) _ tgt] msg s' g(2) st
      last_message_fields(7)
    by (simp add: last_digest_def)
qed

text \<open>C19.
  An update message is acted on exactly when it is addressed to this device (by name in its list,
  or to all unless the update was stopped), its old version and device type are those of the
  device (they are not looked at for an external controller), and the client is either
  downloading or idle: for an external controller nothing downloaded may wait to be cleared, for
  the device itself no other update may be running and the message must be the first of its kind.
\<close>

theorem ota_update_required:
  assumes c: "uc_wiota_gateway_check_if_upgrade_required e m ex s = Some (b, s')"
    and f: "req_upgrade_range m = Some rng" "req_upgrade_num m = Some num" "req_packet_type m = Some pt"
    and d: "uc_wiota_gateway_get_dev_address e s = Some a" "get_version e s = Some v"
  shows "b \<longleftrightarrow>
    (if rng = 1 then \<exists>j < 8. rd32 m (8 + 4 * j) = Some a else rng = 0 \<and> ota_state (gm s) \<noteq> GATEWAY_OTA_STOP) \<and>
    (ex \<or> begins_with_str v (req_old_version m) \<and> begins_with_str (device_type (gm s)) (req_device_type m)) \<and>
    (ota_state (gm s) = GATEWAY_OTA_DOWNLOAD \<or>
     ota_state (gm s) \<in> {GATEWAY_OTA_DEFAULT, GATEWAY_OTA_STOP} \<and>
       (if ex then ota_dl_state (gm s) = 0 else upgrade_num (gm s) = 0 \<and> pt = 0))"
  by (rule upgrade_required_iff[OF assms])

theorem ota_update_required_witness:
  "\<exists>s'. uc_wiota_gateway_check_if_upgrade_required (flash_env (\<lambda>_. 0xFF)) last_message False last_state = Some (True, s') \<and>
     begins_with_str (device_type (gm last_state)) (req_device_type last_message)"
proof -
  let ?e = "flash_env (\<lambda>_. 0xFF)"
  have st: "ota_state (gm last_state) = GATEWAY_OTA_DOWNLOAD" "upgrade_num (gm last_state) = 0"
    by (simp_all add: last_state_def zero_mode_def)
  note c = last_required[OF st]
  obtain a where a: "uc_wiota_gateway_get_dev_address ?e last_state = Some a"
    using get_dev_address_ok[of ?e last_state] by (auto simp: flash_env_def good_env_def)
  obtain v where v: "get_version ?e last_state = Some v"
    by (simp add: get_version_def wr_def flash_env_def good_env_def cstr_def)
  show ?thesis
    using c ota_update_required[OF c last_message_fields(2,6,5) a v] by blast
qed

section \<open>Asking for missing blocks\<close>

lemma collect_missing_eq:
  "i + n \<le> 8 * length mm \<Longrightarrow> length acc < 15 \<Longrightarrow>
     collect_missing mm i n acc =
       Some (take 15 (acc @ filter (\<lambda>j. \<not> bit (mm ! (j div 8)) (j mod 8)) [i..<i + n]))"
proof (induction n arbitrary: i acc)
  case (Suc n)
  have "i < 8 * length mm" using Suc.prems(1) by simp
  moreover have "[i..<i + Suc n] = i # [Suc i..<Suc i + n]" by (simp add: upt_conv_Cons)
  moreover have "take 15 (acc @ [i] @ xs) = acc @ [i]" if "Suc (length acc) = 15" for xs
    using that by simp
  ultimately show ?case
    using Suc.IH[of "Suc i" acc] Suc.IH[of "Suc i" "acc @ [i]"] Suc.prems
    by (simp add: map_bit_eq)
qed simp

lemma strncpy_drop:
  assumes "rt_strncpy d off src n = Some d'" "off + n \<le> k"
  shows "drop k d' = drop k d \<and> length d' = length d"
proof -
  obtain bs where bs: "strncpy_bytes src n = Some bs" "wr d off bs = Some d'"
    using assms(1) by (auto simp: rt_strncpy_def)
  have l: "length bs = n" "off + n \<le> length d" using bs strncpy_bytes_length[OF bs(1)] by (auto simp: wr_def split: if_splits)
  have d': "d' = take off d @ bs @ drop (off + n) d" using bs(2) l by (simp add: wr_def)
  have "drop k d' = drop (k - (off + n)) (drop (off + n) d)"
    using l assms(2) unfolding d' by (simp del: drop_drop)
  then show ?thesis using assms(2) l d' by simp
qed

lemma rd32_drop: "k \<le> i \<Longrightarrow> i \<le> length d \<Longrightarrow> rd32 (drop k d) (i - k) = rd32 d i"
  by (simp add: rd32_def rdn_def)

lemma rd32_word_list:
  assumes "i < length ws"
  shows "rd32 (p @ concat (map put32 ws) @ r) (length p + 4 * i) = Some (ws ! i)"
  using assms
proof (induction ws arbitrary: p i)
  case (Cons w ws)
  show ?case
  proof (cases i)
    case 0
    then show ?thesis using rd32_at_append[of p "length p" w "concat (map put32 ws) @ r"] by simp
  next
    case (Suc j)
    then show ?thesis using Cons.IH[of j "p @ put32 w"] Cons.prems by (simp add: ac_simps)
  qed
qed simp

lemma length_concat_put32: "length (concat (map put32 ws)) = 4 * length ws"
  by (induction ws) simp_all

text \<open>C20.
  The request for missing blocks lists the first fifteen blocks of the image that are not marked
  as received, in ascending order: their number, and for each its offset in the image and the
  block size, in the fields of \<^verbatim>\<open>app_ps_iote_missing_data_req_t\<close>.
\<close>

theorem ota_miss_request:
  assumes bl: "collect_missing (mask_map (gm s)) 0 n [] = Some blocks" "n \<le> 8 * length (mask_map (gm s))"
    and d: "miss_req_bytes e blocks s = Some d"
    and len: "length (device_type (gm s)) = 16" "length (new_version (gm s)) = 16"
  shows "blocks = take 15 (filter (\<lambda>k. \<not> received s k) [0..<n]) \<and> length d = 180 \<and>
    rd32 d 48 = Some (word_of_nat (length blocks)) \<and>
    (\<forall>i < length blocks. rd32 d (52 + 4 * i) = Some (word_of_nat (512 * blocks ! i)) \<and>
      rd32 d (116 + 4 * i) = Some 512)"
proof -
  let ?offs = "map (\<lambda>i. word_of_nat (i * GATEWAY_OTA_BLOCK_SIZE)) blocks :: u32 list"
  let ?sizes = "map (\<lambda>_. word_of_nat GATEWAY_OTA_BLOCK_SIZE) blocks :: u32 list"
  let ?d0 = "replicate 44 0 @ put32 (ucast (upgrade_type (gm s))) @ put32 (word_of_nat (length blocks)) @
    pad_words ?offs @ pad_words ?sizes"
  have b: "blocks = take 15 (filter (\<lambda>k. \<not> received s k) [0..<n])"
    using bl collect_missing_eq[of 0 n "mask_map (gm s)" "[]"] by (simp add: received_def)
  then have lb: "length blocks \<le> 15" by simp
  obtain version n1 d1 n2 d2 n3 where v: "get_version e s = Some version"
      "rt_strlen (device_type (gm s)) = Some n1" "rt_strncpy ?d0 0 (device_type (gm s)) n1 = Some d1"
      "rt_strlen (new_version (gm s)) = Some n2" "rt_strncpy d1 12 (new_version (gm s)) n2 = Some d2"
      "rt_strlen version = Some n3" "rt_strncpy d2 28 version n3 = Some d"
    using d by (auto simp: miss_req_bytes_def Let_def)
  have "length version = 16" using length_wr[of "replicate 16 0"] v(1) by (fastforce simp: get_version_def)
  then have n: "0 + n1 \<le> 44" "12 + n2 \<le> 44" "28 + n3 \<le> 44"
    using strlen_bound[OF v(2)] strlen_bound[OF v(4)] strlen_bound[OF v(6)] len by simp_all
  have "drop 44 d = drop 44 ?d0 \<and> length d = length ?d0"
    using strncpy_drop[OF v(3) n(1)] strncpy_drop[OF v(5) n(2)] strncpy_drop[OF v(7) n(3)] by simp
  moreover have pl: "length (pad_words ws) = 64" if "length ws \<le> 15" for ws
    using that by (simp add: pad_words_def length_concat_put32)
  ultimately have dd: "drop 44 d = drop 44 ?d0" "length d = 180" using lb by simp_all
  have rd: "rd32 d i = rd32 ?d0 i" if "44 \<le> i" "i \<le> 180" for i
    using rd32_drop[of 44 i d] rd32_drop[of 44 i ?d0] dd pl lb that by simp
  have "rd32 ?d0 48 = Some (word_of_nat (length blocks))"
    using rd32_at_append[of "replicate 44 0 @ put32 (ucast (upgrade_type (gm s)))" 48 "word_of_nat (length blocks)"
        "pad_words ?offs @ pad_words ?sizes"] by simp
  moreover have "rd32 ?d0 (52 + 4 * i) = Some (word_of_nat (512 * blocks ! i))" if "i < length blocks" for i
    using rd32_word_list[of i ?offs "replicate 44 0 @ put32 (ucast (upgrade_type (gm s))) @ put32 (word_of_nat (length blocks))"
        "replicate (64 - 4 * length blocks) 0 @ pad_words ?sizes"] that
    by (simp add: pad_words_def GATEWAY_OTA_BLOCK_SIZE_def mult.commute)
  moreover have "rd32 ?d0 (116 + 4 * i) = Some 512" if "i < length blocks" for i
    unfolding pad_words_def[of ?sizes]
    using rd32_word_list[of i ?sizes "replicate 44 0 @ put32 (ucast (upgrade_type (gm s))) @ put32 (word_of_nat (length blocks)) @
        pad_words ?offs" "replicate (64 - 4 * length blocks) 0"] that pl[of ?offs] lb
    by (simp add: GATEWAY_OTA_BLOCK_SIZE_def)
  ultimately show ?thesis using b dd(2) rd lb by auto
qed

theorem ota_miss_request_witness:
  "let s = init_gw\<lparr>gm := zero_mode\<lparr>mask_map := 5 # replicate 27 0\<rparr>\<rparr> in
   \<exists>d. miss_req_bytes good_env [1, 3, 4] s = Some d \<and>
     rd32 d 48 = Some 3 \<and> rd32 d 52 = Some 512 \<and> rd32 d 60 = Some 2048"
proof -
  define s where "s = init_gw\<lparr>gm := zero_mode\<lparr>mask_map := 5 # replicate 27 0\<rparr>\<rparr>"
  have mm: "mask_map (gm s) = 5 # replicate 27 0" "device_type (gm s) = 0 # replicate 15 0"
      "new_version (gm s) = 0 # replicate 15 0"
    by (simp_all add: s_def zero_mode_def replicate_numeral)
  have bl: "collect_missing (mask_map (gm s)) 0 5 [] = Some [1, 3, 4]"
    using collect_missing_eq[of 0 5 "mask_map (gm s)" "[]"] by (simp add: mm upt_rec)
  obtain v where v: "get_version good_env s = Some v" "rt_strlen v = Some 4"
  proof -
    have "get_version good_env s = get_version good_env init_gw" by (simp add: get_version_def good_env_def)
    moreover have "(case get_version good_env init_gw of None \<Rightarrow> False | Some v \<Rightarrow> rt_strlen v = Some 4)"
      by code_simp
    ultimately show ?thesis using that by (auto split: option.splits)
  qed
  have none: "rt_strncpy d off src 0 = Some d" if "off \<le> length d" for d off src
    using that by (simp add: rt_strncpy_def wr_def)
  obtain d where d: "miss_req_bytes good_env [1, 3, 4] s = Some d"
    using v strncpy_strlen[OF v(2)] strlen_bound[OF v(2)]
    by (simp add: miss_req_bytes_def mm none Let_def pad_words_def length_concat_put32)
      (simp add: rt_strncpy_def wr_def)
  have "length (mask_map (gm s)) = 28" "length (device_type (gm s)) = 16" "length (new_version (gm s)) = 16"
    by (simp_all add: mm)
  then show ?thesis
    using ota_miss_request[OF bl _ d] d unfolding s_def[symmetric] Let_def by (force simp: nth_Cons')
qed

end
