(* ===== verification/GatewayMessages.thy ===== *)
theory GatewayMessages
  imports GatewayUpdate
begin

text \<open>
  Messages end to end: what one client sends as user data reaches the application of another,
  packets of other gateways are dropped, and the times at which a client sends and sleeps.
\<close>

section \<open>Operations that only use the heap\<close>

definition heap_only :: "'a sys_scheme \<Rightarrow> 'a sys_scheme \<Rightarrow> bool" where
  "heap_only s s' \<longleftrightarrow> only_hist s s' \<and> (\<exists>cs. hist s' = map C_heap cs @ hist s)"

lemma heap_only_refl [simp]: "heap_only s s"
  by (auto simp: heap_only_def intro: exI[of _ "[]"])

lemma heap_only_trans [trans]: "heap_only s s' \<Longrightarrow> heap_only s' s'' \<Longrightarrow> heap_only s s''"
  unfolding heap_only_def by (metis append.assoc map_append only_hist_trans)

lemma heap_only_emit [simp]: "heap_only s t \<Longrightarrow> heap_only s (emit (C_heap c) t)"
  by (auto simp: heap_only_def intro: exI[of _ "c # cs" for cs])

lemma heap_only_free [simp]: "heap_only s t \<Longrightarrow> heap_only s (rt_free p t)"
  by (cases p) (simp_all add: rt_free_def)

lemma decoding_heap_only:
  assumes "app_data_decoding e input len h s = Some (rc, blk, h', s')"
  shows "heap_only s s'"
  using assms
  by (auto simp: app_data_decoding_def app_data_decoding_with_def rt_malloc_def Let_def
      split: option.splits if_split_asm)

section \<open>User data from client to client\<close>

text \<open>A transmission that succeeded handed the first bytes of the block to the radio.\<close>

lemma transmit_sent:
  assumes "transmit e (Some (p, mem, k)) t s = Some (UC_OP_SUCC, s')"
  shows "\<exists>h. hist s' = C_free p # C_wiota (W_send_data (take k mem) (word_of_nat (length (take k mem))) (ucast t)) # h"
  using assms by (auto simp: transmit_def wiota_send_def Let_def rt_free_def split: if_splits)

lemma user_data_header_flags:
  "flag PRO_RESPONSE_FLAG (property (user_data_header e s)) = False"
  "cmd_type (user_data_header e s) = 100"
  by (simp_all add: user_data_header_def dest_header_def zero_header_def app_set_header_property_def flag_def Let_def bit_simps)

lemma send_data_coded:
  assumes c: "uc_wiota_gateway_send_data e (Some m) n timeout s = Some (1, s')" and h: "heap_ok (hist s)"
  shows "0 < n \<and> n \<le> 300 \<and> (\<exists>s0 p mem k h' s1. heap_ok (hist s0) \<and>
    app_data_coding e (user_data_header e s0) (Some m) n s0 = Some (0, Some (p, mem, k), h', s1) \<and>
    transmit e (Some (p, mem, k)) timeout s1 = Some (UC_OP_SUCC, s'))"
proof -
  define s0 where "s0 = (if is_force_active (gm s) = 0 then emit (C_query Q_state) s else s)"
  have h0: "heap_ok (hist s0)" using h by (auto simp: s0_def heap_ok_def)
  have n: "0 < n" "n \<le> 300"
    using c by (auto simp: uc_wiota_gateway_send_data_def GATEWAY_SEND_MAX_LEN_def split: if_splits)
  obtain ret blk h' s1 res where s1: "app_data_coding e (user_data_header e s0) (Some m) n s0 = Some (ret, blk, h', s1)"
      "ret = 0" "transmit e blk timeout s1 = Some (res, s')" "res = UC_OP_SUCC"
    using c by (auto simp: uc_wiota_gateway_send_data_def Let_def s0_def[symmetric]
        split del: if_split split: if_split_asm)
  then obtain p mem k where "blk = Some (p, mem, k)" by (auto simp: transmit_def)
  then show ?thesis using n h0 s1 by blast
qed

lemma coded_length:
  assumes c: "app_data_coding e h (Some m) n s = Some (0, Some (p, mem, k), h', s1)" and l: "n \<le> length m" "n \<le> 300"
    and h: "heap_ok (hist s)"
  shows "k \<le> 1024 \<and> length (take k mem) = k \<and> h' \<in> {h, h\<lparr>property := clear_flag PRO_COMPRESS_FLAG (property h)\<rparr>}"
proof -
  have "packet_post fastlz_decompress h (packet_data (Some m) n) s (0, Some (p, mem, k), h', s1)"
    using fz.coding_post[OF c[unfolded app_data_coding_def]] l h by simp
  then show ?thesis
    using header_length_bounds(2)[of "property h'"] l by (auto simp: packet_post_def packet_data_def)
qed

lemma user_data_delivered:
  assumes sent: "uc_wiota_gateway_send_data e (Some m) n timeout s = Some (1, s')"
    and s: "n \<le> length m" "heap_ok (hist s)"
    and r: "user_recv r = Some cb" "gw_verity (gm r) = 0" "\<And>h k. e_malloc e2 h k" "heap_ok (hist r)"
  shows "\<exists>p bytes h q cs.
    hist s' = C_free p # C_wiota (W_send_data bytes (word_of_nat (length bytes)) (ucast timeout)) # h \<and>
    uc_wiota_gateway_analisys_dl_msg e2 (Some bytes) ty r =
      Some (r\<lparr>hist := C_free q # C_cb (U_user_recv cb (take n m) ty) # map C_heap cs @ hist r\<rparr>) \<and>
    live (C_free q # C_cb (U_user_recv cb (take n m) ty) # map C_heap cs @ hist r) = live (hist r) \<and>
    heap_ok (C_free q # C_cb (U_user_recv cb (take n m) ty) # map C_heap cs @ hist r)"
proof -
  obtain s0 p mem k h' s1 where c: "0 < n" "n \<le> 300" "heap_ok (hist s0)"
      "app_data_coding e (user_data_header e s0) (Some m) n s0 = Some (0, Some (p, mem, k), h', s1)"
      "transmit e (Some (p, mem, k)) timeout s1 = Some (UC_OP_SUCC, s')"
    using send_data_coded[OF sent s(2)] by blast
  note cl = coded_length[OF c(4) s(1) c(2,3)]
  obtain h where h: "hist s' = C_free p # C_wiota (W_send_data (take k mem) (word_of_nat (length (take k mem))) (ucast timeout)) # h"
    using transmit_sent[OF c(5)] by blast
  have nl: "n \<le> 1024" "k \<le> APP_MAX_DECODING_DATA_LEN" using c(2) cl by (simp_all add: APP_MAX_DECODING_DATA_LEN_def)
  obtain q mem' r1 where d: "app_data_decoding e2 (Some (take k mem)) k zero_header r =
      Some (0, Some (q, mem', n), received_header h' zero_header, r1)" "take n mem' = take n m"
    using packet_decodes[OF c(4,1) s(1) nl(1,2) c(3) r(4), of e2 zero_header] r(3) by blast
  have len: "length (take k mem) = k"
    using cl by simp
  have fl: "\<not> flag PRO_RESPONSE_FLAG (property h')" "cmd_type h' = 100"
    using cl user_data_header_flags by (auto simp: flag_clear)
  have r1: "only_hist r r1" "live (hist r1) = q # live (hist r)" "q \<notin> set (live (hist r))"
    using fz.decoding_heap[of e2 "Some (take k mem)" k zero_header r] d(1) r(4)
    by (auto simp: app_data_decoding_def)
  then have u: "user_recv r1 = Some cb" "gw_verity (gm r1) = 0" using r(1,2) by (auto elim!: only_hist_fields)
  define hd where "hd = received_header h' zero_header"
  have hd: "cmd_type hd = 100" "\<not> flag PRO_RESPONSE_FLAG (property hd)"
    using fl by (simp_all add: hd_def received_header_def)
  have "mem_len (Some (take k mem)) = k" using len by (simp add: mem_len_def)
  then have "uc_wiota_gateway_analisys_dl_msg e2 (Some (take k mem)) ty r =
      Some (rt_free (Some q) (emit (C_cb (U_user_recv cb (take n m) ty)) r1))"
    using d(1)[folded hd_def] u hd d(2)
    by (simp add: uc_wiota_gateway_analisys_dl_msg_def uc_wiota_gateway_get_verity_def
        dispatch_def block_bytes_def block_ptr_def uc_wiota_gateway_recv_dl_msg_def Let_def del: length_take)
  moreover obtain cs where cs: "r1 = r\<lparr>hist := map C_heap cs @ hist r\<rparr>"
    using decoding_heap_only[OF d(1)] unfolding heap_only_def only_hist_def by (metis (no_types))
  moreover have "heap_ok (hist r1)" using fz.decoding_heap[of e2 "Some (take k mem)" k zero_header r] d(1) r(4)
    by (auto simp: app_data_decoding_def)
  then have "heap_ok (C_free q # C_cb (U_user_recv cb (take n m) ty) # map C_heap cs @ hist r)"
    using cs by (intro heap_ok_free heap_ok_skip) simp_all
  ultimately show ?thesis
    using h r1 by (intro exI[of _ p] exI[of _ "take k mem"] exI[of _ h] exI[of _ q] exI[of _ cs]) (simp add: rt_free_def emit_def)
qed

text \<open>C5.
  User data arrives: when \<open>uc_wiota_gateway_send_data\<close> reports success, the last thing it did
  before it freed its block was to hand a packet to the radio, and the dispatcher of any client
  that receives this packet with enough memory (and without the filter on the sender) calls the
  receive callback of its application with exactly the bytes that were sent, and frees its block.
\<close>

theorem gateway_user_data_delivered:
  assumes sent: "uc_wiota_gateway_send_data e (Some m) n timeout s = Some (1, s')"
    and s: "n \<le> length m" "heap_ok (hist s)"
    and r: "user_recv r = Some cb" "gw_verity (gm r) = 0" "\<And>h k. e_malloc e2 h k" "heap_ok (hist r)"
  shows "\<exists>p bytes h r'.
    hist s' = C_free p # C_wiota (W_send_data bytes (word_of_nat (length bytes)) (ucast timeout)) # h \<and>
    uc_wiota_gateway_analisys_dl_msg e2 (Some bytes) ty r = Some r' \<and>
    C_cb (U_user_recv cb (take n m) ty) \<in> set (hist r') \<and> live (hist r') = live (hist r)"
  using user_data_delivered[OF assms] by fastforce

definition sender :: gw where
  "sender = init_gw\<lparr>wiota_gw_connect_flag := UC_GW_CONNECT_SUCESS, uc_gateway_state := GATEWAY_NORMAL\<rparr>"

definition receiver :: gw where
  "receiver = init_gw\<lparr>user_recv := Some 7\<rparr>"

lemma sender_codes:
  "\<exists>mem h' s1. app_data_coding good_env (user_data_header good_env sender) (Some [65]) 1
     (emit (C_query Q_state) sender) = Some (0, Some (1, mem, 3), h', s1) \<and> gm s1 = zero_mode"
  by (simp cong: bind_weak add: packet_eval user_data_header_def dest_header_def sender_def init_gw_def
      uc_wiota_gateway_get_verity_def zero_mode_def app_set_header_property_def wire_header_def)

lemma sender_sends: "\<exists>s'. uc_wiota_gateway_send_data good_env (Some [65]) 1 60000 sender = Some (1, s')"
proof -
  obtain mem h' s1 where c: "app_data_coding good_env (user_data_header good_env sender) (Some [65]) 1
      (emit (C_query Q_state) sender) = Some (0, Some (1, mem, 3), h', s1)" "gm s1 = zero_mode"
    using sender_codes by blast
  have "user_data_header good_env (emit (C_query Q_state) sender) = user_data_header good_env sender"
    by (simp add: user_data_header_def dest_header_def sender_def init_gw_def zero_mode_def emit_def
        uc_wiota_gateway_get_verity_def)
  then show ?thesis
    using c by (simp add: uc_wiota_gateway_send_data_def GATEWAY_SEND_MAX_LEN_def sender_def init_gw_def
        zero_mode_def emit_def uc_wiota_gateway_get_state_def transmit_def wiota_send_def
        uc_wiota_gateway_wait_send_time_slot_def rt_free_def)
qed

theorem gateway_user_data_delivered_witness:
  "\<exists>bytes r'. uc_wiota_gateway_analisys_dl_msg good_env (Some bytes) 1 receiver = Some r' \<and>
     C_cb (U_user_recv 7 [65] 1) \<in> set (hist r')"
proof -
  obtain s' where s: "uc_wiota_gateway_send_data good_env (Some [65]) 1 60000 sender = Some (1, s')"
    using sender_sends by blast
  show ?thesis
    using gateway_user_data_delivered[OF s, of receiver 7 good_env 1]
    by (auto simp: sender_def receiver_def init_gw_def zero_mode_def)
qed


section \<open>Packets of other gateways\<close>

text \<open>C22.
  With verification on, a packet of another gateway that is not an authentication response has no
  effect: the state of the client is unchanged, no callback, no transmission and no other service
  of the platform is called, only memory is allocated, and all of it is freed again.
\<close>

theorem gateway_ignores_foreign:
  assumes d: "app_data_decoding e (Some m) (length m) zero_header s = Some (rc, blk, h, s1)"
    and v: "gw_verity (gm s) = 1" "cmd_type h \<noteq> 2" "src_addr h \<noteq> gwi_gw_id (e_gateway_info e (hist s1))"
    and s: "heap_ok (hist s)"
  shows "\<exists>s' cs. uc_wiota_gateway_analisys_dl_msg e (Some m) ty s = Some s' \<and>
    s' = s\<lparr>hist := map C_heap cs @ hist s\<rparr> \<and> live (hist s') = live (hist s)"
proof -
  have o: "heap_only s s1" by (rule decoding_heap_only[OF d])
  then have "gw_verity (gm s1) = 1" using v(1) by (auto simp: heap_only_def elim!: only_hist_fields)
  then have "uc_wiota_gateway_get_verity s1 \<noteq> 0" by (simp add: uc_wiota_gateway_get_verity_def)
  then have a: "uc_wiota_gateway_analisys_dl_msg e (Some m) ty s = Some (if rc \<noteq> 0 then s1 else rt_free (block_ptr blk) s1)"
    using d v by (simp add: uc_wiota_gateway_analisys_dl_msg_def mem_len_def uc_wiota_get_gateway_id_def)
  let ?s = "if rc \<noteq> 0 then s1 else rt_free (block_ptr blk) s1"
  have "heap_only s ?s" using o by (auto intro: heap_only_trans)
  moreover have "live (hist ?s) = live (hist s)"
    using fz.decoding_heap[of e "Some m" "length m" zero_header s] d s
    by (cases blk) (auto simp: app_data_decoding_def block_ptr_def rt_free_def)
  ultimately show ?thesis using a by (auto simp: heap_only_def only_hist_def)
qed


theorem gateway_ignores_foreign_witness:
  "\<exists>s' cs. uc_wiota_gateway_analisys_dl_msg good_env (Some [0x80, 1, 2, 3, 4, 100, 65]) 1
       (receiver\<lparr>gm := zero_mode\<lparr>gw_verity := 1\<rparr>\<rparr>) = Some s' \<and>
     hist s' = map C_heap cs \<and> live (hist s') = []"
proof -
  let ?s = "receiver\<lparr>gm := zero_mode\<lparr>gw_verity := 1\<rparr>\<rparr>"
  obtain blk h s1 where d: "app_data_decoding good_env (Some [0x80, 1, 2, 3, 4, 100, 65])
      (length ([0x80, 1, 2, 3, 4, 100, 65] :: u8 list)) zero_header ?s = Some (0, blk, h, s1)"
      "cmd_type h = 100" "src_addr h = 0x04030201"
    by (simp cong: bind_weak add: packet_eval rd32_def)
  show ?thesis
    using gateway_ignores_foreign[OF d(1), of 1] d(2,3)
    by (auto simp: receiver_def init_gw_def good_env_def)
qed

section \<open>The third attempt\<close>

text \<open>
  An authentication that is granted at the third attempt is refused: when the first two attempts
  fail, the connection ends with code 8 (\<^verbatim>\<open>UC_GATEWAY_AUTH_FAIL\<close>) whatever the third attempt
  returns, and the client is left as that attempt leaves it, with its queue allocated.
\<close>

lemma gateway_third_attempt_refused:
  assumes "\<And>h. e_state e h = UC_STATUS_SYNC"
    and "uc_wiota_gateway_auth e mode (emit (C_query Q_state) s) = Some (r1, s1)" "r1 \<noteq> 0"
    and "uc_wiota_gateway_auth e mode (emit (C_query Q_state) s1) = Some (r2, s2)" "r2 \<noteq> 0"
    and "uc_wiota_gateway_auth e mode (emit (C_query Q_state) s2) = Some (r3, s3)"
  shows "start_connect e mode True freq_list s = Some (8, s3)"
  using assms by (simp add: start_connect_def ask_def numeral_3_eq_3)

text \<open>
  An environment in which the first two requests are not sent and the third is answered with a
  granted authentication.
\<close>

definition third_env :: env where
  "third_env = good_env\<lparr>
     e_send_data := (\<lambda>h. if 3 \<le> count_calls (\<lambda>c. case c of C_wiota (W_send_data _ _ _) \<Rightarrow> True | _ \<Rightarrow> False) h
                         then UC_OP_SUCC else UC_OP_FAIL),
     e_arrivals := (\<lambda>h. [(UC_OP_SUCC, 1, Some ([0, 2, 0, 0, 0, 0, 0, 0, 0, 0, 0]))])\<rparr>"

definition connecting :: gw where
  "connecting = init_gw\<lparr>gm := zero_mode\<lparr>gateway_mq := Some (0, 1, rt_mq_init 4 32)\<rparr>,
     hist := [C_malloc 1 32, C_malloc 0 60], recv_cb := CB_gateway_recv\<rparr>"


lemma zero_key_bytes:
  "do { n \<leftarrow> rt_strlen (replicate 16 0); d \<leftarrow> rt_strncpy (replicate 28 0) 4 (replicate 16 0) n;
        rt_strncpy d 20 (replicate 8 0) 8 } = Some (replicate 28 0)"
  by code_simp

lemma connecting_auth_bytes: "auth_req_bytes (connecting\<lparr>hist := h\<rparr>) = Some (replicate 28 0)"
  using zero_key_bytes by (simp add: auth_req_bytes_def connecting_def init_gw_def zero_mode_def)

abbreviation (input) is_send :: "call \<Rightarrow> bool" where
  "is_send c \<equiv> (case c of C_wiota (W_send_data _ _ _) \<Rightarrow> True | _ \<Rightarrow> False)"

lemmas auth_req_eval =
  uc_wiota_gateway_send_auth_req_def uc_wiota_gateway_set_id_def uc_wiota_gateway_get_dev_address_def
  connecting_def init_gw_def zero_mode_def packet_eval count_calls_def uc_wiota_gateway_calc_auth_time_slot_fn_def
  uc_wiota_gateway_send_ps_cmd_data_def transmit_def wiota_send_def uc_wiota_gateway_wait_send_time_slot_def
  delay_frame_def rd32_def app_set_header_property_def bit_simps block_ptr_def

lemma third_attempt:
  "\<exists>h'. uc_wiota_gateway_send_auth_req third_env (connecting\<lparr>hist := h\<rparr>) =
     Some (if 2 \<le> count_calls is_send h then 1 else 0, connecting\<lparr>hist := h'\<rparr>) \<and>
   count_calls is_send h' = Suc (count_calls is_send h)"
  using connecting_auth_bytes[of "C_os (O_thread_delay 102) # C_wiota (W_set_userid 16843009 4) # h"]
  by (simp cong: bind_weak add: auth_req_eval third_env_def good_env_def)

lemma first_attempts:
  assumes "count_calls is_send h < 2"
  shows "\<exists>h'. uc_wiota_gateway_auth third_env UC_GATEWAY_MODE (emit (C_query Q_state) (connecting\<lparr>hist := h\<rparr>)) =
     Some (1, connecting\<lparr>hist := h'\<rparr>) \<and> count_calls is_send h' = Suc (count_calls is_send h)"
  using third_attempt[of "C_query Q_state # h"] assms
  by (auto simp: uc_wiota_gateway_auth_def emit_def count_calls_def)


lemma link_free_numeral:
  "link_free t (numeral k) q = link_free (t + 1) (pred_numeral k)
     (q\<lparr>next_of := (next_of q)[t := msg_queue_free q], msg_queue_free := Some t\<rparr>)"
  by (simp only: numeral_eq_Suc link_free.simps)

lemma queue_of_four:
  "(rt_mq_init 4 32 :: uc_wiota_gateway_msg rt_messagequeue) = \<lparr>next_of = [None, Some 0, Some 1, Some 2], msg_of = [None, None, None, None],
     msg_size = 4, max_msgs = 4, entry = 0, msg_queue_head = None, msg_queue_tail = None, msg_queue_free = Some 3\<rparr>"
  by (simp add: rt_mq_init_def RT_ALIGN4_def sizeof_rt_mq_message_def replicate_numeral link_free_numeral)

lemma third_received:
  "\<exists>s' p q. uc_wiota_gateway_recv_queue third_env 6000 (connecting\<lparr>hist := h\<rparr>) =
     Some (RT_EOK, Some (Dl_msg p (Some (q, [0, 2, 0, 0, 0, 0, 0, 0, 0, 0, 0])) 1), s') \<and>
     is_ts_mode (gm s') = 0 \<and> uc_gateway_state s' = GATEWAY_DEFAULT \<and> exce_report s' = None"
  by (simp cong: bind_weak add: third_env_def good_env_def connecting_def init_gw_def zero_mode_def
      uc_wiota_gateway_recv_queue_def mq_send4_def Let_def deliver_def uc_wiota_gateway_recv_data_callback_def
      queue_of_four rt_mq_send_wait_def rt_mq_recv_def rd_def emit_def rt_malloc_def uc_wiota_gateway_send_queue_def rt_codes
      RT_MQ_ENTRY_MAX_def UC_RECV_FN_CHANGE_def)

lemma third_message:
  assumes "is_ts_mode (gm s) = 0" "uc_gateway_state s = GATEWAY_DEFAULT" "exce_report s = None"
  shows "\<exists>s'. auth_message third_env UC_GATEWAY_MODE p (Some (q, [0, 2, 0, 0, 0, 0, 0, 0, 0, 0, 0])) 0 6000 0 s =
     Some (Auth_break, s') \<and> uc_gateway_state s' = GATEWAY_NORMAL"
  using assms by (simp cong: bind_weak add: auth_message_def packet_eval mem_len_def third_env_def good_env_def
      block_mem_def block_ptr_def uc_wiota_gateway_auth_res_msg_def rd16_def rd32_def accept_identity_def lengthen_active_def delay_frame_def
      report_state_def)

lemma granted:
  "\<exists>s'. auth_loop third_env UC_GATEWAY_MODE 0 6000 0 (connecting\<lparr>hist := h\<rparr>) = Some (0, s')"
proof -
  obtain s1 p q where r: "uc_wiota_gateway_recv_queue third_env 6000 (connecting\<lparr>hist := C_query Q_tick # h\<rparr>) =
     Some (RT_EOK, Some (Dl_msg p (Some (q, [0, 2, 0, 0, 0, 0, 0, 0, 0, 0, 0])) 1), s1)"
     "is_ts_mode (gm s1) = 0" "uc_gateway_state s1 = GATEWAY_DEFAULT" "exce_report s1 = None"
    using third_received[of "C_query Q_tick # h"] by blast
  obtain s2 where "auth_message third_env UC_GATEWAY_MODE p (Some (q, [0, 2, 0, 0, 0, 0, 0, 0, 0, 0, 0])) 0 6000 0 s1 =
     Some (Auth_break, s2)" "uc_gateway_state s2 = GATEWAY_NORMAL"
    using third_message[OF r(2-4)] by blast
  then show ?thesis
    using r(1) by (subst auth_loop.simps) (simp add: ask_def third_env_def good_env_def emit_def auth_verdict_def)
qed

lemma third_granted:
  assumes "2 \<le> count_calls is_send h"
  shows "\<exists>s'. uc_wiota_gateway_auth third_env UC_GATEWAY_MODE (emit (C_query Q_state) (connecting\<lparr>hist := h\<rparr>)) = Some (0, s')"
proof -
  obtain h' where "uc_wiota_gateway_send_auth_req third_env (connecting\<lparr>hist := C_query Q_state # h\<rparr>) = Some (1, connecting\<lparr>hist := h'\<rparr>)"
    using third_attempt[of "C_query Q_state # h"] assms by (auto simp: count_calls_def)
  then show ?thesis
    using granted[of "C_query Q_tick # h'"]
    by (simp add: uc_wiota_gateway_auth_def emit_def ask_def third_env_def good_env_def)
qed

lemma gateway_third_attempt_refused_witness:
  "\<exists>s1 s2 s3. uc_wiota_gateway_auth third_env UC_GATEWAY_MODE (emit (C_query Q_state) s2) = Some (0, s3) \<and>
     start_connect third_env UC_GATEWAY_MODE True None (s1 :: gw) = Some (8, s3)"
proof -
  obtain h1 where h1: "uc_wiota_gateway_auth third_env UC_GATEWAY_MODE (emit (C_query Q_state) (connecting\<lparr>hist := []\<rparr>)) =
      Some (1, connecting\<lparr>hist := h1\<rparr>)" "count_calls is_send h1 = 1"
    using first_attempts[of "[]"] by (auto simp: count_calls_def)
  obtain h2 where h2: "uc_wiota_gateway_auth third_env UC_GATEWAY_MODE (emit (C_query Q_state) (connecting\<lparr>hist := h1\<rparr>)) =
      Some (1, connecting\<lparr>hist := h2\<rparr>)" "count_calls is_send h2 = 2"
    using first_attempts[of h1] h1(2) by auto
  obtain s3 where s3: "uc_wiota_gateway_auth third_env UC_GATEWAY_MODE (emit (C_query Q_state) (connecting\<lparr>hist := h2\<rparr>)) = Some (0, s3)"
    using third_granted[OF eq_refl[OF h2(2)[symmetric]]] by blast
  have "\<And>h. e_state third_env h = UC_STATUS_SYNC" by (simp add: third_env_def)
  then show ?thesis
    using gateway_third_attempt_refused[OF _ h1(1) _ h2(1) _ s3, of None] s3 by fastforce
qed


section \<open>Time slots\<close>

lemma slot_bound:
  assumes "k < (pof :: nat) div p + (if pof mod p \<noteq> 0 then 1 else 0)" "0 < p"
  shows "k * p < pof"
proof (cases "pof mod p = 0")
  case True
  then have "k * p < pof div p * p" using assms by simp
  also have "\<dots> = pof" using True by (metis add.right_neutral div_mult_mod_eq)
  finally show ?thesis .
next
  case False
  then have "k * p \<le> pof div p * p" using assms by simp
  also have "\<dots> < pof" using False by (metis div_mult_mod_eq less_add_same_cancel1 not_gr_zero)
  finally show ?thesis .
qed

text \<open>
  A request in the time slot mode is sent at a frame that is a multiple of the period of the
  gateway and lies inside its cycle.
\<close>

lemma gateway_auth_time_slot:
  assumes "is_ts_mode (gm s) = 1" "auth_period (gm s) \<noteq> 0"
    and "gwi_pof (e_gateway_info e (hist s)) = pof" "0 < pof" "pof \<le> 65536"
  shows "\<exists>s' k. uc_wiota_gateway_calc_auth_time_slot_fn e s = Some s' \<and>
    unat (auth_ts_fn (gm s')) = k * unat (auth_period (gm s)) \<and> unat (auth_ts_fn (gm s')) < unat pof"
proof -
  let ?p = "(ucast (auth_period (gm s)) :: u32)"
  let ?n = "pof div ?p + (if pof mod ?p \<noteq> 0 then 1 else 0)"
  let ?r = "e_rand e (hist (emit (C_os O_srand) s))"
  have "unat (auth_period (gm s)) < 2 ^ 32"
    using unsigned_less[of "auth_period (gm s)", where 'a = nat] by simp
  then have p1: "unat ?p = unat (auth_period (gm s))"
    by (simp add: unsigned_ucast_eq take_bit_nat_eq_self)
  then have p: "unat ?p = unat (auth_period (gm s))" "0 < unat ?p" "?p \<noteq> 0"
    using assms(2) by (simp_all add: unat_gt_0, metis unsigned_0 unsigned_eq_0_iff)
  have pof: "0 < unat pof" "unat pof \<le> 65536"
    using assms(4,5) by (simp_all add: word_less_nat_alt word_le_nat_alt)
  have "unat pof div unat ?p \<le> 65536" using pof by (meson div_le_dividend order_trans)
  moreover have m: "pof mod ?p = 0 \<longleftrightarrow> unat pof mod unat ?p = 0"
    by (metis unat_mod_distrib unsigned_0 unsigned_eq_0_iff)
  ultimately have n: "unat ?n = unat pof div unat ?p + (if unat pof mod unat ?p \<noteq> 0 then 1 else 0)"
    using m by (simp add: unat_word_ariths(1) unat_div_distrib)
  then have n0: "0 < unat ?n" "unat ?n \<le> 65537"
    using pof p(2) \<open>unat pof div unat ?p \<le> 65536\<close> by (auto simp: div_eq_0_iff)
  then have si: "sint ?n = int (unat ?n)"
    using sint_small[of "unat ?n"] by simp
  have sm: "int ?r smod sint ?n = int (?r mod unat ?n)"
    using si n0(1) by (simp add: smod_int_alt_def sgn_if zmod_int)
  have "?r mod unat ?n < unat ?n" using n0 by simp
  then have k: "?r mod unat ?n * unat ?p < unat pof"
    using slot_bound[OF _ p(2)] n by simp
  then have "?r mod unat ?n * unat ?p < 65536" using pof by simp
  moreover have "int (?r mod unat ?n) * uint ?p = int (?r mod unat ?n * unat ?p)" by simp
  ultimately have t: "unat (word_of_int (int (?r mod unat ?n) * uint ?p) :: u16) = ?r mod unat ?n * unat ?p"
    by (simp only: of_int_of_nat_eq unsigned_of_nat) (simp add: take_bit_nat_eq_self)
  have "?n \<noteq> 0" using n0(1) by (metis unsigned_0 less_irrefl)
  then show ?thesis
    using assms(1,3) p(3) k t sm p(1)
    by (simp add: uc_wiota_gateway_calc_auth_time_slot_fn_def Let_def ask_def unat_gt_0)
qed

theorem gateway_auth_time_slot_witness:
  "\<exists>s' k. uc_wiota_gateway_calc_auth_time_slot_fn
     (good_env\<lparr>e_gateway_info := (\<lambda>h. \<lparr>gwi_gw_id = 0, gwi_pof = 100, gwi_ts_fn = 0, gwi_resend_times = 0, gwi_ul_mcs = 0\<rparr>),
                e_rand := (\<lambda>h. 1000)\<rparr>)
     (init_gw\<lparr>gm := zero_mode\<lparr>is_ts_mode := 1, auth_period := 7\<rparr>\<rparr>) = Some s' \<and>
   unat (auth_ts_fn (gm s')) = k * 7 \<and> unat (auth_ts_fn (gm s')) < 100"
  using gateway_auth_time_slot[of "init_gw\<lparr>gm := zero_mode\<lparr>is_ts_mode := 1, auth_period := 7\<rparr>\<rparr>"
      "good_env\<lparr>e_gateway_info := (\<lambda>h. \<lparr>gwi_gw_id = 0, gwi_pof = 100, gwi_ts_fn = 0, gwi_resend_times = 0, gwi_ul_mcs = 0\<rparr>),
                e_rand := (\<lambda>h. 1000)\<rparr>" 100]
  by simp

lemma split_period:
  assumes "0 < (sleep :: nat)"
  defines "n \<equiv> (sleep - 1) div 44000000 + 1"
  shows "0 < sleep div n" "sleep div n \<le> 44000000" "sleep div n * n \<le> sleep" "sleep < (sleep div n + 1) * n"
proof -
  have le: "sleep \<le> 44000000 * n"
    using assms(1) dividend_less_times_div[of 44000000 "sleep - 1"] unfolding n_def by simp
  have "n \<le> sleep" using assms(1) div_le_dividend[of "sleep - 1" 44000000] unfolding n_def by linarith
  moreover have n: "0 < n" by (simp add: n_def)
  ultimately show "0 < sleep div n" by (simp add: div_greater_zero_iff)
  show "sleep div n \<le> 44000000" using le n by (metis div_le_mono nonzero_mult_div_cancel_right less_numeral_extra(3))
  show "sleep div n * n \<le> sleep" by simp
  show "sleep < (sleep div n + 1) * n" using n by (metis dividend_less_div_times mult.commute add_mult_distrib mult_1 add.commute)
qed

text \<open>
  The same computation in words: the period and the number of periods that the client asks for.
\<close>

lemma split_period_word:
  assumes "0 < unat (sleep :: u32)"
  defines "n \<equiv> (sleep - 1) div 44000000 + 1"
  shows "1 \<le> unat n" "unat n \<le> 98" "0 < unat (sleep div n)" "unat (sleep div n) \<le> 44000000"
    "unat (sleep div n) * unat n \<le> unat sleep" "unat sleep < (unat (sleep div n) + 1) * unat n"
proof -
  have "unat (sleep - 1) = unat sleep - 1" using assms(1) by (simp add: unat_minus_one unat_gt_0)
  moreover have "unat sleep < 2 ^ 32" using unsigned_less[of sleep, where 'a = nat] by simp
  ultimately have d: "unat ((sleep - 1) div 44000000) = (unat sleep - 1) div 44000000"
      "(unat sleep - 1) div 44000000 \<le> 97"
    by (simp_all add: unat_div_distrib div_le_mono[of _ 4294967295 44000000, simplified])
  then have n: "unat n = (unat sleep - 1) div 44000000 + 1" "unat n \<le> 98"
    by (simp_all add: n_def unat_word_ariths(1))
  then show "1 \<le> unat n" "unat n \<le> 98" by simp_all
  have q: "unat (sleep div n) = unat sleep div unat n" by (rule unat_div_distrib)
  show "0 < unat (sleep div n)" "unat (sleep div n) \<le> 44000000"
    "unat (sleep div n) * unat n \<le> unat sleep" "unat sleep < (unat (sleep div n) + 1) * unat n"
    unfolding q n(1) by (rule split_period[OF assms(1)])+
qed

text \<open>
  The frame of the cycle, counted from the slot of the device when the frame number is valid, and
  the microseconds from the head of the current frame to the next slot.
\<close>

definition cycle_frame :: "bool \<Rightarrow> u32 \<Rightarrow> u32 \<Rightarrow> u16 \<Rightarrow> u32" where
  "cycle_frame ok fn pof ts = (if ok then (fn + pof - ucast ts) mod pof else fn mod pof)"

definition time_to_slot :: "bool \<Rightarrow> u32 \<Rightarrow> u32 \<Rightarrow> u16 \<Rightarrow> u32 \<Rightarrow> nat" where
  "time_to_slot ok fn pof ts frame_len = (unat pof - unat (cycle_frame ok fn pof ts)) * unat frame_len"

lemma time_to_slot_word:
  assumes "0 < unat pof" "unat pof * unat (len :: u32) < 2 ^ 32"
  shows "unat ((pof - cycle_frame ok fn pof ts) * len) = time_to_slot ok fn pof ts len"
proof -
  let ?c = "cycle_frame ok fn pof ts"
  have "unat ?c < unat pof" using assms(1) by (simp add: cycle_frame_def unat_mod_distrib)
  then have s: "unat (pof - ?c) = unat pof - unat ?c"
    by (simp add: unat_sub word_le_nat_alt)
  have "(unat pof - unat ?c) * unat len \<le> unat pof * unat len" by simp
  then have "(unat pof - unat ?c) * unat len < 2 ^ 32" using assms(2) by linarith
  then show ?thesis by (simp add: time_to_slot_def unat_word_ariths(2) s)
qed

text \<open>
  A client that goes to sleep wakes up in time for its slot: while the clock stands still and
  the sums fit into 32 bits, \<^verbatim>\<open>uc_gateway_enter_sync_paging_by_time_slot\<close> asks for between 1 and 98
  periods of at most 44 seconds that end, with the time to start up, before the slot and less than
  the number of periods in microseconds before it; when the slot is too close it does not sleep.
\<close>

lemma gateway_sleeps_until_slot:
  assumes env: "e_gateway_info e = (\<lambda>h. gi)" "e_frame_num e = (\<lambda>h. fn)" "e_frame_len e = (\<lambda>h. len)"
      "e_frame_valid e = (\<lambda>h. ok)" "e_rf_cnt e = (\<lambda>h. dfe)" "e_frame_head e = (\<lambda>h. (True, head))"
      "e_subframe_len e = (\<lambda>h. sub)"
    and st: "startup = 120000 + 3 * unat sub + unat (dfe - head)"
    and fit: "0 < unat (gwi_pof gi)" "unat (gwi_pof gi) * unat len < 2 ^ 32" "startup + 2 * unat len < 2 ^ 32"
  shows "\<exists>s'. uc_gateway_enter_sync_paging_by_time_slot e s = Some s' \<and>
    (if startup + unat len + unat len div 2 < time_to_slot ok fn (gwi_pof gi) (gwi_ts_fn gi) len
     then \<exists>period n h. hist s' = C_setup (S_sync_paging_enter 1 period 0 n) # h \<and>
            1 \<le> unat n \<and> unat n \<le> 98 \<and> 0 < unat period \<and> unat period \<le> 44000000 \<and>
            unat period * unat n + startup \<le> time_to_slot ok fn (gwi_pof gi) (gwi_ts_fn gi) len \<and>
            time_to_slot ok fn (gwi_pof gi) (gwi_ts_fn gi) len < (unat period + 1) * unat n + startup
     else hd (hist s') = C_query Q_frame_head)"
proof -
  let ?pof = "gwi_pof gi" and ?st = "SYSTME_STARTUP_TIME + sub * 3 + (dfe - head)"
  let ?c = "cycle_frame ok fn ?pof (gwi_ts_fn gi)"
  let ?total = "(?pof - ?c) * len"
  have t: "unat ?total = time_to_slot ok fn ?pof (gwi_ts_fn gi) len"
    using fit by (intro time_to_slot_word)
  have u: "unat ?st = startup"
    using fit(3) by (simp add: SYSTME_STARTUP_TIME_def unat_word_ariths st)
  then have v: "unat (?st + (len + len div 2)) = startup + unat len + unat len div 2"
    using fit(3) by (simp add: unat_word_ariths(1) unat_div_distrib)
  have pof: "?pof \<noteq> 0" using fit(1) by auto
  show ?thesis
  proof (cases "startup + unat len + unat len div 2 < time_to_slot ok fn ?pof (gwi_ts_fn gi) len")
    case True
    then have lt: "?st + (len + len div 2) < ?total" by (simp add: word_less_nat_alt t v)
    have "unat ?st \<le> unat ?total" using True t u by simp
    then have sl: "unat (?total - ?st) = time_to_slot ok fn ?pof (gwi_ts_fn gi) len - startup"
      by (simp only: unat_sub word_le_nat_alt t u)
    then have "0 < unat (?total - ?st)" using True by simp
    note sp = split_period_word[OF this]
    have "\<exists>s'. uc_gateway_enter_sync_paging_by_time_slot e s = Some s' \<and>
        (\<exists>h. hist s' = C_setup (S_sync_paging_enter 1 ((?total - ?st) div ((?total - ?st - 1) div 44000000 + 1)) 0
          ((?total - ?st - 1) div 44000000 + 1)) # h)"
      using lt pof by (simp add: uc_gateway_enter_sync_paging_by_time_slot_def env ask_def Let_def
          cycle_frame_def split: prod.splits)
    then show ?thesis using sp True unfolding sl by fastforce
  next
    case False
    then have "\<not> ?st + (len + len div 2) < ?total" by (simp add: word_less_nat_alt t v)
    then show ?thesis
      using False pof by (simp add: uc_gateway_enter_sync_paging_by_time_slot_def env ask_def Let_def
          cycle_frame_def split: prod.splits)
  qed
qed

lemma gateway_sleeps_until_slot_witness:
  "\<exists>s' period n h. uc_gateway_enter_sync_paging_by_time_slot
      (good_env\<lparr>e_gateway_info := (\<lambda>h. \<lparr>gwi_gw_id = 0, gwi_pof = 1000, gwi_ts_fn = 5, gwi_resend_times = 0, gwi_ul_mcs = 0\<rparr>)\<rparr>)
      init_gw = Some s' \<and> hist s' = C_setup (S_sync_paging_enter 1 period 0 n) # h \<and> unat period * unat n \<le> 365000"
  using gateway_sleeps_until_slot[of
      "good_env\<lparr>e_gateway_info := (\<lambda>h. \<lparr>gwi_gw_id = 0, gwi_pof = 1000, gwi_ts_fn = 5, gwi_resend_times = 0, gwi_ul_mcs = 0\<rparr>)\<rparr>"
      "\<lparr>gwi_gw_id = 0, gwi_pof = 1000, gwi_ts_fn = 5, gwi_resend_times = 0, gwi_ul_mcs = 0\<rparr>"
      1000 100000 True 0 0 5000 135000 init_gw]
  by (auto simp: good_env_def time_to_slot_def cycle_frame_def)

end
