(* ===== verification/Rtlist.thy ===== *)
theory Rtlist
  imports Platform
begin

text \<open>
  The intrusive doubly linked lists of \<^verbatim>\<open>rt-thread/include/rtservice.h\<close>: a static head and nodes
  that lie in blocks of the heap. Each link field is one function of the address, so a store to a
  field is a function update; a field of a block that is not allocated cannot be accessed.

  The abstraction \<open>ring\<close> relates the links to the list of the node addresses in order; inserting
  before or behind a member inserts into that list.
\<close>

section \<open>Links and the operations of the header\<close>

datatype link = Head | Node ptr

record lists = sys +
  nxt :: "link \<Rightarrow> link"
  prv :: "link \<Rightarrow> link"

definition valid_link :: "link \<Rightarrow> 'a lists_scheme \<Rightarrow> bool" where
  "valid_link l s = (case l of Head \<Rightarrow> True | Node p \<Rightarrow> p \<in> set (live (hist s)))"

definition get_next :: "link \<Rightarrow> 'a lists_scheme \<Rightarrow> link option" where
  "get_next l s = (if valid_link l s then Some (nxt s l) else None)"

definition get_prev :: "link \<Rightarrow> 'a lists_scheme \<Rightarrow> link option" where
  "get_prev l s = (if valid_link l s then Some (prv s l) else None)"

definition set_next :: "link \<Rightarrow> link \<Rightarrow> 'a lists_scheme \<Rightarrow> 'a lists_scheme option" where
  "set_next l v s = (if valid_link l s then Some (s\<lparr>nxt := (nxt s)(l := v)\<rparr>) else None)"

definition set_prev :: "link \<Rightarrow> link \<Rightarrow> 'a lists_scheme \<Rightarrow> 'a lists_scheme option" where
  "set_prev l v s = (if valid_link l s then Some (s\<lparr>prv := (prv s)(l := v)\<rparr>) else None)"

definition rt_list_init :: "link \<Rightarrow> 'a lists_scheme \<Rightarrow> 'a lists_scheme option" where
  "rt_list_init l s = do { s \<leftarrow> set_prev l l s; set_next l l s }"

definition rt_list_insert_after :: "link \<Rightarrow> link \<Rightarrow> 'a lists_scheme \<Rightarrow> 'a lists_scheme option" where
  "rt_list_insert_after l n s =
     do { x \<leftarrow> get_next l s;
          s \<leftarrow> set_prev x n s;
          x \<leftarrow> get_next l s;
          s \<leftarrow> set_next n x s;
          s \<leftarrow> set_next l n s;
          set_prev n l s }"

definition rt_list_insert_before :: "link \<Rightarrow> link \<Rightarrow> 'a lists_scheme \<Rightarrow> 'a lists_scheme option" where
  "rt_list_insert_before l n s =
     do { x \<leftarrow> get_prev l s;
          s \<leftarrow> set_next x n s;
          x \<leftarrow> get_prev l s;
          s \<leftarrow> set_prev n x s;
          s \<leftarrow> set_prev l n s;
          set_next n l s }"

definition rt_list_isempty :: "link \<Rightarrow> 'a lists_scheme \<Rightarrow> bool option" where
  "rt_list_isempty l s = do { x \<leftarrow> get_next l s; Some (x = l) }"

section \<open>The list that the links form\<close>

definition linked :: "(link \<Rightarrow> link) \<Rightarrow> (link \<Rightarrow> link) \<Rightarrow> link \<Rightarrow> link \<Rightarrow> bool" where
  "linked nx pv a b \<longleftrightarrow> nx a = b \<and> pv b = a"

definition ring :: "'a lists_scheme \<Rightarrow> ptr list \<Rightarrow> bool" where
  "ring s ps \<longleftrightarrow> successively (linked (nxt s) (prv s)) (Head # map Node ps @ [Head]) \<and>
     distinct ps \<and> set ps \<subseteq> set (live (hist s))"

lemma successively_local:
  assumes "successively r xs" "\<And>x y. x \<in> set (butlast xs) \<Longrightarrow> y \<in> set (tl xs) \<Longrightarrow> r x y \<Longrightarrow> q x y"
  shows "successively q xs"
  using assms
proof (induction r xs rule: successively.induct)
  case (3 r x y zs)
  then have "successively q (y # zs)"
    by (intro 3(1)) (auto dest: in_set_butlastD split: if_splits list.splits)
  then show ?case using 3(2,3) by simp
qed simp_all

text \<open>Splicing a new node between two neighbours.\<close>

lemma splice:
  assumes "successively (linked nx pv) (L @ R)" "L \<noteq> []" "R \<noteq> []"
    and n: "n \<notin> set L" "n \<notin> set R"
    and a: "last L \<notin> set (butlast L)" "last L \<notin> set (butlast R)"
    and b: "hd R \<notin> set (tl R)" "hd R \<notin> set (tl L)"
  shows "successively (linked (nx(last L := n, n := hd R)) (pv(n := last L, hd R := n))) (L @ n # R)"
proof -
  let ?Q = "linked (nx(last L := n, n := hd R)) (pv(n := last L, hd R := n))"
  have s: "successively (linked nx pv) L" "successively (linked nx pv) R"
    using assms(1) by (simp_all add: successively_append_iff)
  have L: "successively ?Q L"
    using s(1) by (rule successively_local)
      (use n(1) a(1) b(2) in \<open>auto simp: linked_def dest: in_set_butlastD list.set_sel(2)[OF assms(2)]\<close>)
  have R: "successively ?Q R"
    using s(2) by (rule successively_local)
      (use n(2) a(2) b(1) in \<open>auto simp: linked_def dest: in_set_butlastD list.set_sel(2)[OF assms(3)]\<close>)
  have "last L \<noteq> n" "hd R \<noteq> n" using n assms(2,3) by auto
  then have "?Q (last L) n" "?Q n (hd R)" by (auto simp: linked_def)
  then show ?thesis using L R assms(2,3) by (auto simp: successively_append_iff successively_Cons)
qed

lemma splice_ring:
  assumes r: "ring s (xs @ ys)" and n: "n \<in> set (live (hist s))" "n \<notin> set (xs @ ys)"
    and a: "a = last (Head # map Node xs)" and b: "b = hd (map Node ys @ [Head])"
  shows "ring (s\<lparr>nxt := (nxt s)(a := Node n, Node n := b), prv := (prv s)(Node n := a, b := Node n)\<rparr>) (xs @ n # ys)"
proof -
  let ?L = "Head # map Node xs" and ?R = "map Node ys @ [Head]"
  have d: "distinct xs" "distinct ys" "set xs \<inter> set ys = {}" using r by (auto simp: ring_def)
  have "successively (linked (nxt s) (prv s)) (?L @ ?R)" using r by (simp add: ring_def)
  moreover have "last ?L \<notin> set (butlast ?L)" using d(1)
    by (cases xs rule: rev_cases) (auto simp: butlast_append)
  moreover have "last ?L \<notin> set (butlast ?R)" using d(3)
    by (cases xs rule: rev_cases) (auto simp: butlast_append)
  moreover have "hd ?R \<notin> set (tl ?R)" using d(2) by (cases ys) auto
  moreover have "hd ?R \<notin> set (tl ?L)" using d(3) by (cases ys) auto
  moreover have "Node n \<notin> set ?L" "Node n \<notin> set ?R" using n(2) by auto
  ultimately have "successively (linked ((nxt s)(last ?L := Node n, Node n := hd ?R)) ((prv s)(Node n := last ?L, hd ?R := Node n)))
      (?L @ Node n # ?R)"
    by (intro splice) simp_all
  then show ?thesis using r n a b by (simp add: ring_def)
qed

lemma ring_links:
  assumes "ring s (xs @ ys)"
  shows "nxt s (last (Head # map Node xs)) = hd (map Node ys @ [Head])"
    "prv s (hd (map Node ys @ [Head])) = last (Head # map Node xs)"
    "valid_link (last (Head # map Node xs)) s" "valid_link (hd (map Node ys @ [Head])) s"
proof -
  have "successively (linked (nxt s) (prv s)) ((Head # map Node xs) @ (map Node ys @ [Head]))"
    using assms by (simp add: ring_def)
  then have "linked (nxt s) (prv s) (last (Head # map Node xs)) (hd (map Node ys @ [Head]))"
    unfolding successively_append_iff by blast
  then show "nxt s (last (Head # map Node xs)) = hd (map Node ys @ [Head])"
    "prv s (hd (map Node ys @ [Head])) = last (Head # map Node xs)"
    by (simp_all add: linked_def)
  show "valid_link (last (Head # map Node xs)) s" "valid_link (hd (map Node ys @ [Head])) s"
    using assms by (cases xs rule: rev_cases; cases ys; auto simp: valid_link_def ring_def)+
qed

lemma ring_insert_before:
  assumes r: "ring s (xs @ ys)" and n: "n \<in> set (live (hist s))" "n \<notin> set (xs @ ys)"
    and l: "l = hd (map Node ys @ [Head])"
  shows "\<exists>nx pv. rt_list_insert_before l (Node n) s = Some (s\<lparr>nxt := nx, prv := pv\<rparr>) \<and>
    ring (s\<lparr>nxt := nx, prv := pv\<rparr>) (xs @ n # ys)"
proof -
  note k = ring_links[OF r, folded l]
  have "l \<noteq> Node n" using n(2) l by (cases ys) auto
  then have "rt_list_insert_before l (Node n) s = Some (s\<lparr>nxt := (nxt s)(last (Head # map Node xs) := Node n, Node n := l),
      prv := (prv s)(Node n := last (Head # map Node xs), l := Node n)\<rparr>)"
    using k n(1) by (simp add: rt_list_insert_before_def get_prev_def set_next_def set_prev_def valid_link_def
        split: link.splits)
  then show ?thesis using splice_ring[OF r n refl l] by blast
qed

lemma ring_insert_last:
  assumes r: "ring s xs" and n: "n \<in> set (live (hist s))" "n \<notin> set xs"
  shows "\<exists>l nx pv. get_prev Head s = Some l \<and> rt_list_insert_after l (Node n) s = Some (s\<lparr>nxt := nx, prv := pv\<rparr>) \<and>
    ring (s\<lparr>nxt := nx, prv := pv\<rparr>) (xs @ [n])"
proof -
  let ?a = "last (Head # map Node xs)"
  have k: "nxt s ?a = Head" "prv s Head = ?a" "valid_link ?a s"
    using ring_links[of s xs "[]"] r by (simp_all del: last.simps)
  have a: "?a \<noteq> Node n" using n(2) by (cases xs rule: rev_cases) auto
  have "rt_list_insert_after ?a (Node n) s = Some (s\<lparr>nxt := (nxt s)(?a := Node n, Node n := Head),
      prv := (prv s)(Node n := ?a, Head := Node n)\<rparr>)"
    using k n(1) a by (simp add: rt_list_insert_after_def get_next_def set_next_def set_prev_def valid_link_def
        fun_upd_twist del: last.simps split: link.splits)
  moreover have "get_prev Head s = Some ?a" using k by (simp add: get_prev_def valid_link_def del: last.simps)
  ultimately show ?thesis
    using splice_ring[of s xs "[]" n ?a Head] r n by (intro exI[of _ ?a]) (auto simp del: last.simps)
qed

lemma ring_init: "\<exists>nx pv. rt_list_init Head s = Some (s\<lparr>nxt := nx, prv := pv\<rparr>) \<and> ring (s\<lparr>nxt := nx, prv := pv\<rparr>) []"
  by (rule exI[of _ "(nxt s)(Head := Head)"], rule exI[of _ "(prv s)(Head := Head)"])
    (simp add: rt_list_init_def set_prev_def set_next_def valid_link_def ring_def linked_def)

lemma ring_isempty: "ring s ps \<Longrightarrow> rt_list_isempty Head s = Some (ps = [])"
  by (cases ps) (auto simp: rt_list_isempty_def get_next_def valid_link_def ring_def linked_def)

text \<open>Walking along the list: the node behind a member is the next member, or the head.\<close>

lemma ring_first: "ring s ps \<Longrightarrow> get_next Head s = Some (hd (map Node ps @ [Head]))"
  using ring_links(1)[of s "[]" ps] by (simp add: get_next_def valid_link_def)

lemma ring_next:
  assumes "ring s (xs @ p # ys)"
  shows "get_next (Node p) s = Some (hd (map Node ys @ [Head]))" "p \<in> set (live (hist s))"
  using ring_links(1,3)[of s "xs @ [p]" ys] assms by (simp_all add: get_next_def ring_def)

text \<open>Steps that keep the links and the blocks of the list keep the list.\<close>

lemma ring_frame:
  "ring s ps \<Longrightarrow> nxt s' = nxt s \<Longrightarrow> prv s' = prv s \<Longrightarrow> set ps \<subseteq> set (live (hist s')) \<Longrightarrow> ring s' ps"
  by (simp add: ring_def)

end
