(* ===== verification/AutoManager.thy ===== *)
theory AutoManager
  imports Rtlist GatewayState
begin

text \<open>
  The automatic connection manager of \<^verbatim>\<open>PS/at/at_wiota_auto_manager.c\<close>: a task that scans the
  configured frequencies and subsystems, keeps the gateways it can hear in a list, connects to the
  one that its list puts first, and watches the connection.

  The list is an \<^verbatim>\<open>rt_list_t\<close> of blocks from the heap. A block that has been freed keeps its
  contents until it is allocated again; the one place that reads such a block,
  \<^verbatim>\<open>at_wiota_clean_freq_list\<close>, counts it in \<open>stale_reads\<close>. Every other access to a block that is
  not allocated is a fault.
\<close>

section \<open>State\<close>

datatype at_wiota_manager_process =
  AT_WIOTA_MANAGER_PROCESS_DEFAULT | AT_WIOTA_MANAGER_PROCESS_SCAN | AT_WIOTA_MANAGER_PROCESS_INIT
| AT_WIOTA_MANAGER_PROCESS_RUN | AT_WIOTA_MANAGER_PROCESS_STRATEGY | AT_WIOTA_MANAGER_PROCESS_EXIT
| AT_WIOTA_MANAGER_PROCESS_GW_MODE_EXIT | AT_WIOTA_MANAGER_PROCESS_END

datatype at_wiota_manager_report_state =
  AT_WIOTA_MANAGER_REPORT_FREQ_SUC | AT_WIOTA_MANAGER_REPORT_FREQ_FAIL | AT_WIOTA_MANAGER_USER_FREQ
| AT_WIOTA_MANAGER_CONNECT_SUC | AT_WIOTA_MANAGER_CONNECT_FAIL | AT_WIOTA_MANAGER_EXIT

datatype at_wiota_state = AT_WIOTA_DEFAULT | AT_WIOTA_INIT | AT_WIOTA_RUN | AT_WIOTA_EXIT

definition AT_WIOTA_SCAN_TIMEOUT :: u32 where "AT_WIOTA_SCAN_TIMEOUT = 40000"
definition AT_WIOTA_FULL_SCAN_TIMEOUT :: u32 where "AT_WIOTA_FULL_SCAN_TIMEOUT = 500000"

record t_freq_node_manager =
  subsystem_id :: u32
  freq :: u8
  snr :: u8
  rssi :: u8
  is_synced :: u8
  send_cucess_rate :: u8

text \<open>
  \<^verbatim>\<open>t_at_wiota_manager\<close>: the data of the nodes by address, the node in use (\<open>None\<close> is the null
  pointer, \<open>Some Head\<close> the address of the list head itself), and the state of the AT server
  that \<^verbatim>\<open>at_wiota_set_state\<close> sets.
\<close>

record mgr = lists +
  info :: "ptr \<Rightarrow> t_freq_node_manager"
  current_freq_node :: "link option"
  continue_scan_fail :: u32
  manager_state :: at_wiota_manager_process
  task_handle :: bool
  wiota_state :: at_wiota_state
  stale_reads :: nat

definition empty_node :: t_freq_node_manager where
  "empty_node = \<lparr>subsystem_id = 0, freq = 0, snr = 0, rssi = 0, is_synced = 0, send_cucess_rate = 0\<rparr>"

definition init_mgr :: mgr where
  "init_mgr = \<lparr>hist = [], nxt = (\<lambda>l. Head), prv = (\<lambda>l. Head), info = (\<lambda>p. empty_node),
     current_freq_node = None, continue_scan_fail = 0, manager_state = AT_WIOTA_MANAGER_PROCESS_DEFAULT,
     task_handle = False, wiota_state = AT_WIOTA_DEFAULT, stale_reads = 0\<rparr>"

definition at_wiota_set_state :: "at_wiota_state \<Rightarrow> mgr \<Rightarrow> mgr" where
  "at_wiota_set_state st s = s\<lparr>wiota_state := st\<rparr>"

definition set_manager_process :: "at_wiota_manager_process \<Rightarrow> mgr \<Rightarrow> mgr" where
  "set_manager_process st s = s\<lparr>manager_state := st\<rparr>"

definition node_info :: "ptr \<Rightarrow> mgr \<Rightarrow> t_freq_node_manager option" where
  "node_info p s = (if p \<in> set (live (hist s)) then Some (info s p) else None)"

definition set_info :: "ptr \<Rightarrow> t_freq_node_manager \<Rightarrow> mgr \<Rightarrow> mgr option" where
  "set_info p x s = (if p \<in> set (live (hist s)) then Some (s\<lparr>info := (info s)(p := x)\<rparr>) else None)"

section \<open>Configured frequencies and subsystems\<close>

text \<open>The number of frequencies before the first 0xFF, at most 16.\<close>

fun static_freq_loop :: "u8 list \<Rightarrow> nat \<Rightarrow> nat \<Rightarrow> nat option" where
  "static_freq_loop l num 0 = Some num"
| "static_freq_loop l num (Suc k) =
     do { x \<leftarrow> rd l num; if x = 0xFF then Some num else static_freq_loop l (num + 1) k }"

definition at_wiota_get_static_freq :: "env \<Rightarrow> mgr \<Rightarrow> (nat \<times> u8 list) option" where
  "at_wiota_get_static_freq e s =
     do { l \<leftarrow> wr (replicate 16 0) 0 (e_freq_list e (hist s));
          num \<leftarrow> static_freq_loop l 0 16;
          Some (num, l) }"

text \<open>
  The loop over the subsystems runs to the number of \<^emph>\<open>bytes\<close> of the list of eight words, so a
  list without an end mark is read behind its end.
\<close>

fun subsystem_loop :: "u32 list \<Rightarrow> nat \<Rightarrow> nat \<Rightarrow> nat option" where
  "subsystem_loop l num 0 = Some num"
| "subsystem_loop l num (Suc k) =
     do { x \<leftarrow> rd l num; if x = NOT 0 \<or> x = 0 then Some num else subsystem_loop l (num + 1) k }"

definition at_wiota_get_subsystem_id_list :: "env \<Rightarrow> mgr \<Rightarrow> (nat \<times> u32 list) option" where
  "at_wiota_get_subsystem_id_list e s =
     do { let config = e_system_config e (hist s);
          l \<leftarrow> wr (replicate 8 0) 0 (cfg_subsystemid_list config);
          num \<leftarrow> subsystem_loop l 0 32;
          if num = 0 then
            (let l = l[0 := cfg_subsystemid config]
             in Some (if l ! 0 \<noteq> NOT 0 \<and> l ! 0 \<noteq> 0 then 1 else 0, l))
          else Some (num, l) }"

section \<open>The list of gateways\<close>

definition at_wiota_init_freq_list :: "mgr \<Rightarrow> mgr option" where
  "at_wiota_init_freq_list s = rt_list_init Head s"

text \<open>Loops over the list; one that does not come back to the head does not end.\<close>

partial_function (option) find_loop :: "u8 \<Rightarrow> link \<Rightarrow> mgr \<Rightarrow> ptr option option" where
  "find_loop f l s =
     (case l of
        Head \<Rightarrow> Some None
      | Node p \<Rightarrow>
          do { x \<leftarrow> node_info p s;
               if freq x = f then Some (Some p)
               else do { l \<leftarrow> get_next l s; find_loop f l s } })"

declare find_loop.simps [code]

definition manager_wiota_find_node :: "u8 \<Rightarrow> mgr \<Rightarrow> ptr option option" where
  "manager_wiota_find_node f s = do { l \<leftarrow> get_next Head s; find_loop f l s }"

text \<open>The first node with a weaker signal than \<open>r\<close>.\<close>

partial_function (option) weaker_loop :: "u8 \<Rightarrow> link \<Rightarrow> mgr \<Rightarrow> link option option" where
  "weaker_loop r l s =
     (case l of
        Head \<Rightarrow> Some None
      | Node p \<Rightarrow>
          do { x \<leftarrow> node_info p s;
               if sint (rssi x) < sint r then Some (Some l)
               else do { l \<leftarrow> get_next l s; weaker_loop r l s } })"

declare weaker_loop.simps [code]

definition sizeof_freq_list_manager :: nat where "sizeof_freq_list_manager = 20"

definition node_of :: "u32 \<Rightarrow> uc_freq_scan_result \<Rightarrow> t_freq_node_manager" where
  "node_of subid node = \<lparr>subsystem_id = subid, freq = sr_freq_idx node, snr = sr_snr node, rssi = sr_rssi node,
     is_synced = sr_is_synced node, send_cucess_rate = 0\<rparr>"

definition at_wiota_add_freq_list :: "env \<Rightarrow> u32 \<Rightarrow> uc_freq_scan_result \<Rightarrow> mgr \<Rightarrow> mgr option" where
  "at_wiota_add_freq_list e subid node s =
     do { temp \<leftarrow> manager_wiota_find_node (sr_freq_idx node) s;
          case temp of
            Some p \<Rightarrow>
              do { x \<leftarrow> node_info p s; set_info p ((node_of subid node)\<lparr>freq := freq x\<rparr>) s }
          | None \<Rightarrow>
              (case rt_malloc e sizeof_freq_list_manager s of
                 (None, s) \<Rightarrow> Some s
               | (Some p, s) \<Rightarrow>
                   do { s \<leftarrow> set_info p (node_of subid node) s;
                        first \<leftarrow> get_next Head s;
                        temp_node \<leftarrow> weaker_loop (sr_rssi node) first s;
                        case temp_node of
                          Some l \<Rightarrow> rt_list_insert_before l (Node p) s
                        | None \<Rightarrow> do { l \<leftarrow> get_prev Head s; rt_list_insert_after l (Node p) s } }) }"

text \<open>The node is freed before its link is followed.\<close>

partial_function (option) clean_loop :: "link \<Rightarrow> mgr \<Rightarrow> mgr option" where
  "clean_loop l s =
     (case l of
        Head \<Rightarrow> Some s
      | Node p \<Rightarrow>
          (let s = rt_free (Some p) s
           in clean_loop (nxt s l) (s\<lparr>stale_reads := stale_reads s + 1\<rparr>)))"

declare clean_loop.simps [code]

definition at_wiota_clean_freq_list :: "mgr \<Rightarrow> mgr option" where
  "at_wiota_clean_freq_list s =
     do { l \<leftarrow> get_next Head s;
          s \<leftarrow> clean_loop l s;
          at_wiota_init_freq_list (s\<lparr>current_freq_node := None\<rparr>) }"

text \<open>The node behind the current one, in a list whose head counts as a node.\<close>

definition at_wiota_choose_freq :: "mgr \<Rightarrow> (int \<times> mgr) option" where
  "at_wiota_choose_freq s =
     do { let the_node = (case current_freq_node s of None \<Rightarrow> Head | Some l \<Rightarrow> l);
          empty \<leftarrow> rt_list_isempty Head s;
          if empty then Some (1, s)
          else do {
            l \<leftarrow> get_next the_node s;
            let s = (if l \<noteq> the_node then s\<lparr>current_freq_node := Some l\<rparr> else s);
            Some (if current_freq_node s = Some Head then 2 else 0, s) } }"

definition at_wiota_only_freq :: "env \<Rightarrow> u32 \<Rightarrow> u8 \<Rightarrow> mgr \<Rightarrow> mgr option" where
  "at_wiota_only_freq e subid f s =
     at_wiota_add_freq_list e subid
       \<lparr>sr_freq_idx = f, sr_snr = 0, sr_rssi = 0, sr_is_synced = 0, sr_sub_sys_id = 0\<rparr> s"

fun add_synced :: "env \<Rightarrow> u32 \<Rightarrow> uc_freq_scan_result list \<Rightarrow> int \<Rightarrow> mgr \<Rightarrow> (int \<times> mgr) option" where
  "add_synced e subid [] re s = Some (re, s)"
| "add_synced e subid (r # rs) re s =
     (if sr_is_synced r \<noteq> 0
      then do { s \<leftarrow> at_wiota_add_freq_list e subid r s; add_synced e subid rs 0 s }
      else add_synced e subid rs re s)"

text \<open>The result of a scan that succeeded is a block of the library that the caller frees.\<close>

definition at_wiota_freq_manager ::
  "env \<Rightarrow> u32 \<Rightarrow> (ptr \<times> uc_freq_scan_result list) option \<Rightarrow> mgr \<Rightarrow> (int \<times> mgr) option" where
  "at_wiota_freq_manager e subid result s =
     (case result of
        None \<Rightarrow> Some (1, s)
      | Some (p, rs) \<Rightarrow>
          do { (re, s) \<leftarrow> add_synced e subid rs 1 s; Some (re, rt_free (Some p) s) })"


section \<open>Scanning\<close>

definition scan_freq ::
  "env \<Rightarrow> u8 list \<Rightarrow> u32 \<Rightarrow> mgr \<Rightarrow> (ptr \<times> uc_freq_scan_result list) option \<times> mgr" where
  "scan_freq e freqs timeout s =
     (let s = emit (C_wiota (W_scan_freq freqs timeout)) s
      in case e_scan_freq e (hist s) of
           (UC_OP_SUCC, rs) \<Rightarrow>
             (Some (length (hist s), rs), emit (C_malloc (length (hist s)) (8 * length rs)) s)
         | _ \<Rightarrow> (None, s))"

definition register_callbacks :: "mgr \<Rightarrow> mgr" where
  "register_callbacks s =
     emit (C_setup (S_register_recv_cb CB_wiota_recv)) (emit (C_setup (S_register_recv_cb CB_wiota_recv)) s)"

text \<open>One scan for every subsystem, beginning with the one that the user id selects.\<close>

fun scan_loop ::
  "env \<Rightarrow> sub_system_config \<Rightarrow> u8 list \<Rightarrow> u32 list \<Rightarrow> nat \<Rightarrow> nat \<Rightarrow> nat \<Rightarrow> nat \<Rightarrow> mgr \<Rightarrow> (nat \<times> mgr) option" where
  "scan_loop e config freqs ids n i 0 failed s = Some (failed, s)"
| "scan_loop e config freqs ids n i (Suc k) failed s =
     do { subid \<leftarrow> rd ids (i mod n);
          let s = emit (C_wiota (W_set_system_config (config\<lparr>cfg_subsystemid := subid\<rparr>))) s;
          let (result, s) = scan_freq e freqs AT_WIOTA_SCAN_TIMEOUT s;
          (res, s) \<leftarrow> at_wiota_freq_manager e subid result s;
          scan_loop e config freqs ids n (i + 1) k (if res \<noteq> 0 then failed + 1 else failed) s }"

definition scan_strategy ::
  "env \<Rightarrow> sub_system_config \<Rightarrow> nat \<Rightarrow> u8 list \<Rightarrow> nat \<Rightarrow> u32 list \<Rightarrow> mgr \<Rightarrow> (bool \<times> mgr) option" where
  "scan_strategy e config nf freqs n ids s =
     (if nf * n = 0 then
        do { let (result, s) = scan_freq e [] AT_WIOTA_FULL_SCAN_TIMEOUT s;
             (res, s) \<leftarrow> at_wiota_freq_manager e (cfg_subsystemid config) result s;
             Some (res \<noteq> 0, if res \<noteq> 0 then s\<lparr>continue_scan_fail := continue_scan_fail s + 1\<rparr> else s) }
      else if nf * n = 1 then
        do { f \<leftarrow> rd freqs 0;
             s \<leftarrow> at_wiota_only_freq e (cfg_subsystemid config) f s;
             let fails = sint (continue_scan_fail s);
             Some (fails > 2 \<and> fails smod 2 = 0, s\<lparr>continue_scan_fail := continue_scan_fail s + 1\<rparr>) }
      else
        do { let start = unat (e_userid e (hist s)) mod n;
             (failed, s) \<leftarrow> scan_loop e config (take nf freqs) ids n start n 0 s;
             Some (failed = n, if failed \<noteq> 0 then s\<lparr>continue_scan_fail := continue_scan_fail s + 1\<rparr> else s) })"

text \<open>\<open>True\<close> is the nonzero result: nothing was found.\<close>

definition at_wiota_manager_scan :: "env \<Rightarrow> mgr \<Rightarrow> (bool \<times> mgr) option" where
  "at_wiota_manager_scan e s =
     do { let s = emit (C_wiota W_init) s;
          userid \<leftarrow> uc_wiota_gateway_get_dev_address e s;
          let s = at_wiota_set_state AT_WIOTA_INIT (emit (C_wiota (W_set_userid userid 4)) s);
          let config = e_system_config e (hist s);
          let s = at_wiota_set_state AT_WIOTA_RUN (register_callbacks (emit (C_wiota W_run) s));
          s \<leftarrow> at_wiota_clean_freq_list s;
          (nf, freqs) \<leftarrow> at_wiota_get_static_freq e s;
          (n, ids) \<leftarrow> at_wiota_get_subsystem_id_list e s;
          (res, s) \<leftarrow> scan_strategy e config nf freqs n ids s;
          Some (res, at_wiota_set_state AT_WIOTA_EXIT (emit (C_wiota W_exit) s)) }"

section \<open>Connecting and watching the connection\<close>

definition at_wiota_manager_run :: "env \<Rightarrow> mgr \<Rightarrow> int \<times> mgr" where
  "at_wiota_manager_run e s =
     (let s = at_wiota_set_state AT_WIOTA_RUN (register_callbacks (emit (C_wiota W_run) s));
          s = emit (C_wiota W_connect) s;
          s = emit (C_wiota (W_wait_sync (uint (e_frame_len e (hist s) div 100)) 2)) s
      in (e_wait_sync e (hist s), s))"

text \<open>
  The watch ends when the application has started the gateway client, whose task then runs here, or
  when the connection is lost or too few transmissions succeed. As long as neither happens it goes
  on; \<open>None\<close> is a watch that never ends.
\<close>

partial_function (option) startegy_loop :: "env \<Rightarrow> mgr \<Rightarrow> mgr option" where
  "startegy_loop e s =
     (let (allow, s) = ask Q_allow_run (e_allow_run e) s
      in if allow then Some (emit (C_os O_gateway_task) (emit (C_wiota W_reset_stats) s))
         else
           (let (connect_state, s) = ask Q_state (e_state e) s;
                ((succ, total), s) = ask Q_stats (e_sm_stats e) s
            in if succ * 5 < total \<and> total > 10 \<or> connect_state \<in> {UC_STATUS_SYNC_LOST, UC_STATUS_ERROR}
               then Some s
               else startegy_loop e (emit (C_os (O_thread_mdelay 5)) s)))"

declare startegy_loop.simps [code]

definition at_wiota_manager_startegy :: "env \<Rightarrow> mgr \<Rightarrow> mgr option" where
  "at_wiota_manager_startegy e s = startegy_loop e (emit (C_wiota W_reset_stats) s)"

definition at_wiota_set_config :: "env \<Rightarrow> u32 \<Rightarrow> mgr \<Rightarrow> mgr" where
  "at_wiota_set_config e subid s =
     emit (C_wiota (W_set_system_config ((e_system_config e (hist s))\<lparr>cfg_subsystemid := subid\<rparr>))) s"

section \<open>Reports\<close>

partial_function (option) report_loop :: "link \<Rightarrow> mgr \<Rightarrow> mgr option" where
  "report_loop l s =
     (case l of
        Head \<Rightarrow> Some s
      | Node p \<Rightarrow>
          do { x \<leftarrow> node_info p s;
               let s = emit (C_at (At_println ''+SCANFFREQ''
                         [uint (freq x), sint (snr x), sint (rssi x), uint (is_synced x)])) s;
               l \<leftarrow> get_next l s;
               report_loop l s })"

declare report_loop.simps [code]

definition at_wiota_auto_report_state :: "at_wiota_manager_report_state \<Rightarrow> mgr \<Rightarrow> mgr option" where
  "at_wiota_auto_report_state type s =
     (case type of
        AT_WIOTA_MANAGER_REPORT_FREQ_SUC \<Rightarrow> do { l \<leftarrow> get_next Head s; report_loop l s }
      | AT_WIOTA_MANAGER_REPORT_FREQ_FAIL \<Rightarrow> Some (emit (C_at (At_println ''+WIOTASCANF:FAIL'' [])) s)
      | AT_WIOTA_MANAGER_USER_FREQ \<Rightarrow>
          (case current_freq_node s of
             None \<Rightarrow> Some s
           | Some Head \<Rightarrow> Some (emit (C_at (At_println ''+WIOTAFREQ'' [0, 0, 0])) s)
           | Some (Node p) \<Rightarrow>
               do { x \<leftarrow> node_info p s;
                    Some (emit (C_at (At_println ''+WIOTAFREQ''
                           [uint (subsystem_id x), uint (freq x), sint (snr x)])) s) })
      | AT_WIOTA_MANAGER_CONNECT_SUC \<Rightarrow> Some (emit (C_at (At_println ''+WIOTA:READY'' [])) s)
      | AT_WIOTA_MANAGER_CONNECT_FAIL \<Rightarrow> Some (emit (C_at (At_println ''+WIOTA:CONNECT FAIL'' [])) s)
      | AT_WIOTA_MANAGER_EXIT \<Rightarrow> Some (emit (C_at (At_println ''+WIOTA:EXIT'' [])) s))"

section \<open>The task\<close>

definition manager_scan_step :: "env \<Rightarrow> mgr \<Rightarrow> mgr option" where
  "manager_scan_step e s =
     do { (res, s) \<leftarrow> at_wiota_manager_scan e s;
          if res then
            do { s \<leftarrow> at_wiota_auto_report_state AT_WIOTA_MANAGER_REPORT_FREQ_FAIL s;
                 Some (emit (C_os (O_thread_mdelay (unat (1000 * continue_scan_fail s)))) s) }
          else at_wiota_auto_report_state AT_WIOTA_MANAGER_REPORT_FREQ_SUC
                 (set_manager_process AT_WIOTA_MANAGER_PROCESS_INIT s) }"

text \<open>The data of the current node; that of the head is static and zero.\<close>

definition current_info :: "mgr \<Rightarrow> t_freq_node_manager option" where
  "current_info s =
     (case current_freq_node s of
        None \<Rightarrow> None | Some Head \<Rightarrow> Some empty_node | Some (Node p) \<Rightarrow> node_info p s)"

definition manager_init_step :: "env \<Rightarrow> mgr \<Rightarrow> mgr option" where
  "manager_init_step e s =
     do { (res, s) \<leftarrow> at_wiota_choose_freq s;
          if res \<noteq> 0 then Some (set_manager_process AT_WIOTA_MANAGER_PROCESS_SCAN s)
          else do {
            s \<leftarrow> at_wiota_auto_report_state AT_WIOTA_MANAGER_USER_FREQ s;
            let s = emit (C_wiota W_init) s;
            userid \<leftarrow> uc_wiota_gateway_get_dev_address e s;
            x \<leftarrow> current_info s;
            let s = at_wiota_set_config e (subsystem_id x) (emit (C_wiota (W_set_userid userid 4)) s);
            let s = at_wiota_set_state AT_WIOTA_INIT (emit (C_wiota (W_set_freq_info (freq x))) s);
            Some (set_manager_process AT_WIOTA_MANAGER_PROCESS_RUN s) } }"

definition manager_run_step :: "env \<Rightarrow> mgr \<Rightarrow> mgr option" where
  "manager_run_step e s =
     (case at_wiota_manager_run e s of (res, s) \<Rightarrow>
        if res \<noteq> 0
        then at_wiota_auto_report_state AT_WIOTA_MANAGER_CONNECT_FAIL
               (set_manager_process AT_WIOTA_MANAGER_PROCESS_EXIT s)
        else Some ((set_manager_process AT_WIOTA_MANAGER_PROCESS_STRATEGY s)\<lparr>continue_scan_fail := 0\<rparr>))"

definition manager_strategy_step :: "env \<Rightarrow> mgr \<Rightarrow> mgr option" where
  "manager_strategy_step e s =
     do { s \<leftarrow> at_wiota_auto_report_state AT_WIOTA_MANAGER_CONNECT_SUC s;
          s \<leftarrow> at_wiota_manager_startegy e s;
          Some (set_manager_process AT_WIOTA_MANAGER_PROCESS_EXIT s) }"

text \<open>The exit is reported with the value of \<^verbatim>\<open>AT_WIOTA_MANAGER_PROCESS_EXIT\<close>, which is that of
  \<^verbatim>\<open>AT_WIOTA_MANAGER_EXIT\<close>.\<close>

definition manager_exit_step :: "mgr \<Rightarrow> mgr option" where
  "manager_exit_step s =
     do { s \<leftarrow> at_wiota_clean_freq_list (emit (C_wiota W_exit) s);
          s \<leftarrow> at_wiota_auto_report_state AT_WIOTA_MANAGER_EXIT s;
          Some (set_manager_process AT_WIOTA_MANAGER_PROCESS_INIT (at_wiota_set_state AT_WIOTA_EXIT s)) }"

text \<open>One round of the loop of \<^verbatim>\<open>at_wiota_manager_task\<close>.\<close>

definition manager_step :: "env \<Rightarrow> mgr \<Rightarrow> mgr option" where
  "manager_step e s =
     (case manager_state s of
        AT_WIOTA_MANAGER_PROCESS_SCAN \<Rightarrow> manager_scan_step e s
      | AT_WIOTA_MANAGER_PROCESS_INIT \<Rightarrow> manager_init_step e s
      | AT_WIOTA_MANAGER_PROCESS_RUN \<Rightarrow> manager_run_step e s
      | AT_WIOTA_MANAGER_PROCESS_STRATEGY \<Rightarrow> manager_strategy_step e s
      | AT_WIOTA_MANAGER_PROCESS_EXIT \<Rightarrow> manager_exit_step s
      | _ \<Rightarrow> Some s)"

definition manager_task_begin :: "mgr \<Rightarrow> mgr" where
  "manager_task_begin = set_manager_process AT_WIOTA_MANAGER_PROCESS_SCAN"

section \<open>Interface to other threads\<close>

text \<open>The other frequencies of the list, into a buffer of the caller.\<close>

partial_function (option) avail_loop :: "u8 \<Rightarrow> nat \<Rightarrow> link \<Rightarrow> u8 list \<Rightarrow> nat \<Rightarrow> mgr \<Rightarrow> u8 list option" where
  "avail_loop used_freq list_len l out index s =
     (case l of
        Head \<Rightarrow> Some out
      | Node p \<Rightarrow>
          do { x \<leftarrow> node_info p s;
               if freq x \<noteq> used_freq
               then do { out \<leftarrow> wr out index [freq x];
                         if index + 1 \<ge> list_len then Some out
                         else do { l \<leftarrow> get_next l s; avail_loop used_freq list_len l out (index + 1) s } }
               else do { l \<leftarrow> get_next l s; avail_loop used_freq list_len l out index s } })"

declare avail_loop.simps [code]

definition at_wiota_get_avail_freq_list :: "env \<Rightarrow> u8 list \<Rightarrow> nat \<Rightarrow> mgr \<Rightarrow> u8 list option" where
  "at_wiota_get_avail_freq_list e out list_len s =
     (case current_freq_node s of
        None \<Rightarrow> Some out
      | Some _ \<Rightarrow>
          do { l \<leftarrow> get_next Head s; avail_loop (e_freq_info e (hist s)) list_len l out 0 s })"

definition at_wiota_manager_suspend :: "mgr \<Rightarrow> mgr" where
  "at_wiota_manager_suspend s = (if task_handle s then emit (C_os O_thread_suspend) s else s)"

definition at_wiota_manager :: "env \<Rightarrow> mgr \<Rightarrow> mgr option" where
  "at_wiota_manager e s =
     (if e_auto_connect e (hist s) then
        do { s \<leftarrow> at_wiota_init_freq_list s;
             let s = emit (C_os O_thread_create) s;
             let s = s\<lparr>task_handle := e_thread_create e (hist s)\<rparr>;
             Some (if task_handle s then emit (C_os O_thread_startup) s else s) }
      else Some s)"

end
