(* ===== verification/ManagerList.thy ===== *)
theory ManagerList
  imports AutoManager HeapSafety
begin

text \<open>
  The list of gateways as a list: \<open>entries\<close> reads it off the heap. Adding a scan result refines
  insertion in front of the first weaker entry, or replacement of the entry with its frequency;
  the list, the blocks and the reports of the manager stay consistent in every reachable state.
\<close>

section \<open>The abstract list\<close>

definition entries :: "mgr \<Rightarrow> ptr list \<Rightarrow> t_freq_node_manager list" where
  "entries s ps = map (info s) ps"

fun insert_freq :: "t_freq_node_manager \<Rightarrow> t_freq_node_manager list \<Rightarrow> t_freq_node_manager list" where
  "insert_freq x [] = [x]"
| "insert_freq x (y # ys) = (if sint (rssi y) < sint (rssi x) then x # y # ys else y # insert_freq x ys)"

definition add_freq :: "t_freq_node_manager \<Rightarrow> t_freq_node_manager list \<Rightarrow> t_freq_node_manager list" where
  "add_freq x ys =
     (if freq x \<in> freq ` set ys then map (\<lambda>y. if freq y = freq x then x else y) ys else insert_freq x ys)"

text \<open>Strongest signal first.\<close>

definition by_strength :: "t_freq_node_manager list \<Rightarrow> bool" where
  "by_strength = sorted_wrt (\<lambda>x y. sint (rssi y) \<le> sint (rssi x))"

lemma mset_insert_freq: "mset (insert_freq x ys) = {#x#} + mset ys"
  by (induction ys) auto

lemma set_insert_freq [simp]: "set (insert_freq x ys) = insert x (set ys)"
  using mset_insert_freq[of x ys] by (metis set_mset_add_mset_insert set_mset_mset add_mset_add_single union_commute)

lemma distinct_insert_freq:
  "distinct (map freq (insert_freq x ys)) \<longleftrightarrow> freq x \<notin> freq ` set ys \<and> distinct (map freq ys)"
  by (induction ys) auto

lemma by_strength_insert: "by_strength ys \<Longrightarrow> by_strength (insert_freq x ys)"
  by (induction ys) (fastforce simp: by_strength_def)+

lemma insert_freq_split:
  "insert_freq x ys = takeWhile (\<lambda>y. \<not> sint (rssi y) < sint (rssi x)) ys @
     x # dropWhile (\<lambda>y. \<not> sint (rssi y) < sint (rssi x)) ys"
  by (induction ys) auto

lemma distinct_add_freq:
  assumes "distinct (map freq ys)"
  shows "distinct (map freq (add_freq x ys))"
proof (cases "freq x \<in> freq ` set ys")
  case True
  have "map freq (map (\<lambda>y. if freq y = freq x then x else y) ys) = map freq ys" by simp
  then show ?thesis using assms True by (simp only: add_freq_def if_True)
next
  case False
  then show ?thesis using assms by (simp add: add_freq_def distinct_insert_freq)
qed

section \<open>Invariant\<close>

text \<open>\<open>X\<close> are the blocks that are allocated and do not belong to the list.\<close>

definition mgr_inv :: "ptr set \<Rightarrow> ptr list \<Rightarrow> mgr \<Rightarrow> bool" where
  "mgr_inv X ps s \<longleftrightarrow> ring s ps \<and> distinct (map freq (entries s ps)) \<and> heap_ok (hist s) \<and> frees_ok (hist s) \<and>
     set (live (hist s)) = set ps \<union> X \<and> set ps \<inter> X = {}"

lemma mgr_inv_frame:
  "mgr_inv X ps s \<Longrightarrow> nxt s' = nxt s \<Longrightarrow> prv s' = prv s \<Longrightarrow> info s' = info s \<Longrightarrow> live (hist s') = live (hist s) \<Longrightarrow>
     heap_ok (hist s') \<Longrightarrow> frees_ok (hist s') \<Longrightarrow> mgr_inv X ps s'"
  by (auto simp: mgr_inv_def ring_def entries_def)

section \<open>Loops over the list\<close>

lemma find_loop_ring:
  "ring s (xs @ ys) \<Longrightarrow>
     find_loop f (hd (map Node ys @ [Head])) s = Some (find (\<lambda>p. freq (info s p) = f) ys)"
proof (induction ys arbitrary: xs)
  case (Cons p ys)
  then show ?case
    using ring_next[of s xs p ys] Cons.IH[of "xs @ [p]"]
    by (subst find_loop.simps) (simp add: node_info_def)
qed (simp add: find_loop.simps)

lemma weaker_loop_ring:
  "ring s (xs @ ys) \<Longrightarrow>
     weaker_loop r (hd (map Node ys @ [Head])) s =
       Some (case dropWhile (\<lambda>p. \<not> sint (rssi (info s p)) < sint r) ys of [] \<Rightarrow> None | p # _ \<Rightarrow> Some (Node p))"
proof (induction ys arbitrary: xs)
  case (Cons p ys)
  then show ?case
    using ring_next[of s xs p ys] Cons.IH[of "xs @ [p]"]
    by (subst weaker_loop.simps) (simp add: node_info_def)
qed (simp add: weaker_loop.simps)

lemma find_node_ring:
  "ring s ps \<Longrightarrow> manager_wiota_find_node f s = Some (find (\<lambda>p. freq (info s p) = f) ps)"
  using find_loop_ring[of s "[]" ps f] ring_first[of s ps] by (simp add: manager_wiota_find_node_def)

section \<open>Adding an entry\<close>

text \<open>The fields that adding does not touch.\<close>

definition list_only :: "mgr \<Rightarrow> mgr \<Rightarrow> bool" where
  "list_only s s' \<longleftrightarrow> current_freq_node s' = current_freq_node s \<and> continue_scan_fail s' = continue_scan_fail s \<and>
     manager_state s' = manager_state s \<and> wiota_state s' = wiota_state s \<and> stale_reads s' = stale_reads s"

lemma list_only_refl [simp]: "list_only s s"
  by (simp add: list_only_def)

lemma list_only_trans [trans]: "list_only s s' \<Longrightarrow> list_only s' s'' \<Longrightarrow> list_only s s''"
  by (simp add: list_only_def)

lemma add_replace:
  assumes i: "mgr_inv X ps s" and f: "find (\<lambda>p. freq (info s p) = sr_freq_idx r) ps = Some p"
  shows "\<exists>s'. at_wiota_add_freq_list e subid r s = Some s' \<and> mgr_inv X ps s' \<and> list_only s s' \<and>
    entries s' ps = add_freq (node_of subid r) (entries s ps) \<and> hist s' = hist s"
proof -
  let ?x = "node_of subid r" and ?s = "s\<lparr>info := (info s)(p := node_of subid r)\<rparr>"
  have p: "p \<in> set ps" "freq (info s p) = sr_freq_idx r" using f by (auto simp: find_Some_iff)
  have d: "distinct (map (\<lambda>p. freq (info s p)) ps)" "distinct ps" "ring s ps"
    using i by (auto simp: mgr_inv_def entries_def comp_def ring_def)
  have "(node_of subid r)\<lparr>freq := freq (info s p)\<rparr> = ?x" using p(2) by (simp add: node_of_def)
  then have a: "at_wiota_add_freq_list e subid r s = Some ?s"
    using p(1) f find_node_ring[OF d(3)] i
    by (simp add: at_wiota_add_freq_list_def node_info_def set_info_def mgr_inv_def)
  have "freq (info s q) = freq (info s p) \<longleftrightarrow> q = p" if "q \<in> set ps" for q
    using d(1) p(1) that by (auto simp: distinct_map inj_on_def)
  moreover have "freq ?x = freq (info s p)" using p(2) by (simp add: node_of_def)
  moreover have "freq ?x \<in> freq ` set (entries s ps)"
    using p calculation(2) by (auto simp: entries_def intro: rev_image_eqI)
  ultimately have en: "entries ?s ps = add_freq ?x (entries s ps)"
    by (auto simp: entries_def add_freq_def)
  then have "distinct (map freq (entries ?s ps))"
    using distinct_add_freq[of "entries s ps" ?x] i by (simp add: mgr_inv_def)
  then have "mgr_inv X ps ?s" using i by (simp add: mgr_inv_def ring_def)
  then show ?thesis using a en by (simp add: list_only_def)
qed

lemma add_insert:
  assumes i: "mgr_inv X ps s" and f: "find (\<lambda>p. freq (info s p) = sr_freq_idx r) ps = None"
    and m: "e_malloc e (hist s) sizeof_freq_list_manager"
  shows "\<exists>s' qs. at_wiota_add_freq_list e subid r s = Some s' \<and> mgr_inv X qs s' \<and> list_only s s' \<and>
    entries s' qs = add_freq (node_of subid r) (entries s ps)"
proof -
  let ?n = "length (hist s)" and ?x = "node_of subid r"
  let ?s = "(emit (C_malloc (length (hist s)) sizeof_freq_list_manager) s)\<lparr>info := (info s)(length (hist s) := node_of subid r)\<rparr>"
  have fresh: "?n \<notin> set (live (hist s))" "?n \<notin> set ps" "?n \<notin> X"
    using i fresh_not_live[of "hist s"] by (auto simp: mgr_inv_def)
  have r0: "ring s ps" using i by (simp add: mgr_inv_def)
  have r: "ring ?s ps" using i by (auto simp: mgr_inv_def ring_def emit_def)
  define tw where "tw = takeWhile (\<lambda>p. \<not> sint (rssi (info s p)) < sint (sr_rssi r)) ps"
  define dw where "dw = dropWhile (\<lambda>p. \<not> sint (rssi (info s p)) < sint (sr_rssi r)) ps"
  have ps: "ps = tw @ dw" by (simp add: tw_def dw_def)
  have "dropWhile (\<lambda>p. \<not> sint (rssi (info ?s p)) < sint (sr_rssi r)) ps = dw"
    unfolding dw_def using fresh(2) by (intro dropWhile_cong refl) auto
  then have w: "weaker_loop (sr_rssi r) (hd (map Node ps @ [Head])) ?s =
      Some (case dw of [] \<Rightarrow> None | p # _ \<Rightarrow> Some (Node p))"
    using weaker_loop_ring[of ?s "[]" ps "sr_rssi r"] r by simp
  have nl: "?n \<in> set (live (hist ?s))" by simp
  have "\<exists>nx pv. at_wiota_add_freq_list e subid r s = Some (?s\<lparr>nxt := nx, prv := pv\<rparr>) \<and>
      ring (?s\<lparr>nxt := nx, prv := pv\<rparr>) (tw @ ?n # dw)"
  proof -
    have a: "at_wiota_add_freq_list e subid r s =
        (case dw of p # _ \<Rightarrow> rt_list_insert_before (Node p) (Node ?n) ?s
         | [] \<Rightarrow> do { l \<leftarrow> get_prev Head ?s; rt_list_insert_after l (Node ?n) ?s })"
      using f m w ring_first[OF r] find_node_ring[OF r0]
      by (simp add: at_wiota_add_freq_list_def rt_malloc_def set_info_def emit_def split: list.split)
    show ?thesis
    proof (cases dw)
      case Nil
      then show ?thesis
        using a ring_insert_last[OF r nl fresh(2)] ps by fastforce
    next
      case (Cons p ds)
      then show ?thesis
        using a ring_insert_before[of ?s tw dw ?n "Node p"] r nl fresh(2) ps by fastforce
    qed
  qed
  then obtain nx pv where s': "at_wiota_add_freq_list e subid r s = Some (?s\<lparr>nxt := nx, prv := pv\<rparr>)"
      "ring (?s\<lparr>nxt := nx, prv := pv\<rparr>) (tw @ ?n # dw)" by blast
  let ?s' = "?s\<lparr>nxt := nx, prv := pv\<rparr>"
  have x: "freq ?x = sr_freq_idx r" "rssi ?x = sr_rssi r" by (simp_all add: node_of_def)
  have nf: "freq ?x \<notin> freq ` set (entries s ps)" using f x(1) by (auto simp: find_None_iff entries_def)
  have "insert_freq ?x (entries s ps) = map (info s) tw @ ?x # map (info s) dw"
    unfolding insert_freq_split x(2) entries_def takeWhile_map dropWhile_map
    by (simp add: comp_def tw_def dw_def)
  moreover have "entries ?s' (tw @ ?n # dw) = map (info s) tw @ ?x # map (info s) dw"
    using fresh(2) ps by (auto simp: entries_def)
  ultimately have "entries ?s' (tw @ ?n # dw) = insert_freq ?x (entries s ps)" by simp
  then have en: "entries ?s' (tw @ ?n # dw) = add_freq ?x (entries s ps)" using nf by (simp add: add_freq_def)
  have "distinct (map freq (entries ?s' (tw @ ?n # dw)))"
    unfolding en using distinct_add_freq i by (simp add: mgr_inv_def)
  then have "mgr_inv X (tw @ ?n # dw) ?s'"
    using s'(2) i fresh ps by (auto simp: mgr_inv_def)
  then show ?thesis using s'(1) en by (intro exI[of _ ?s'] exI[of _ "tw @ ?n # dw"]) (simp add: list_only_def emit_def)
qed

lemma add_no_memory:
  assumes i: "mgr_inv X ps s" and f: "find (\<lambda>p. freq (info s p) = sr_freq_idx r) ps = None"
    and m: "\<not> e_malloc e (hist s) sizeof_freq_list_manager"
  shows "\<exists>s'. at_wiota_add_freq_list e subid r s = Some s' \<and> mgr_inv X ps s' \<and> list_only s s' \<and>
    entries s' ps = entries s ps"
proof -
  let ?s = "emit (C_malloc_fail sizeof_freq_list_manager) s"
  have "ring s ps" using i by (simp add: mgr_inv_def)
  from find_node_ring[OF this] have "at_wiota_add_freq_list e subid r s = Some ?s"
    using f m by (simp add: at_wiota_add_freq_list_def rt_malloc_def)
  moreover have "mgr_inv X ps ?s" using i by (rule mgr_inv_frame) (use i in \<open>simp_all add: emit_def mgr_inv_def\<close>)
  ultimately show ?thesis by (simp add: list_only_def emit_def entries_def)
qed


lemma add_ok:
  assumes "mgr_inv X ps s"
  shows "\<exists>s' qs. at_wiota_add_freq_list e subid r s = Some s' \<and> mgr_inv X qs s' \<and> list_only s s' \<and>
    (entries s' qs = add_freq (node_of subid r) (entries s ps) \<or>
     entries s' qs = entries s ps \<and> \<not> e_malloc e (hist s) sizeof_freq_list_manager)"
proof (cases "find (\<lambda>p. freq (info s p) = sr_freq_idx r) ps")
  case None
  then show ?thesis
    using add_insert[OF assms None] add_no_memory[OF assms None]
    by (cases "e_malloc e (hist s) sizeof_freq_list_manager") blast+
next
  case (Some p)
  then show ?thesis using add_replace[OF assms Some] by blast
qed

section \<open>A scan result\<close>

lemma add_synced_ok:
  assumes "mgr_inv X ps s"
  shows "\<exists>s' qs. add_synced e subid rs re s = Some (if \<exists>r \<in> set rs. sr_is_synced r \<noteq> 0 then 0 else re, s') \<and>
    mgr_inv X qs s' \<and> list_only s s' \<and>
    ((\<forall>h. e_malloc e h sizeof_freq_list_manager) \<longrightarrow>
      entries s' qs = fold (\<lambda>r. add_freq (node_of subid r)) (filter (\<lambda>r. sr_is_synced r \<noteq> 0) rs) (entries s ps))"
  using assms
proof (induction rs arbitrary: re s ps)
  case (Cons r rs)
  show ?case
  proof (cases "sr_is_synced r = 0")
    case True
    then show ?thesis using Cons.IH[OF Cons.prems, of re] by simp
  next
    case False
    obtain s1 qs where s1: "at_wiota_add_freq_list e subid r s = Some s1" "mgr_inv X qs s1" "list_only s s1"
        "entries s1 qs = add_freq (node_of subid r) (entries s ps) \<or>
         entries s1 qs = entries s ps \<and> \<not> e_malloc e (hist s) sizeof_freq_list_manager"
      using add_ok[OF Cons.prems] by blast
    obtain s2 rs' where s2: "add_synced e subid rs 0 s1 = Some (0, s2)" "mgr_inv X rs' s2" "list_only s1 s2"
        "(\<forall>h. e_malloc e h sizeof_freq_list_manager) \<longrightarrow>
          entries s2 rs' = fold (\<lambda>r. add_freq (node_of subid r)) (filter (\<lambda>r. sr_is_synced r \<noteq> 0) rs) (entries s1 qs)"
      using Cons.IH[OF s1(2), of 0] by (auto split: if_splits)
    show ?thesis
      using False s1 s2 list_only_trans[OF s1(3) s2(3)] by auto
  qed
qed auto

lemma mgr_inv_malloc:
  "mgr_inv X ps s \<Longrightarrow> mgr_inv (insert (length (hist s)) X) ps (emit (C_malloc (length (hist s)) n) s)"
  using fresh_not_live[of "hist s"] by (auto simp: mgr_inv_def ring_def entries_def emit_def)

lemma mgr_inv_free:
  assumes "mgr_inv (insert p X) ps s" "p \<notin> X"
  shows "mgr_inv X ps (rt_free (Some p) s)"
  using assms by (auto simp: mgr_inv_def ring_def entries_def rt_free_def emit_def)

lemma freq_manager_ok:
  assumes "mgr_inv (case result of None \<Rightarrow> X | Some (p, rs) \<Rightarrow> insert p X) ps s"
    and "case result of None \<Rightarrow> True | Some (p, rs) \<Rightarrow> p \<notin> X"
  shows "\<exists>re s' qs. at_wiota_freq_manager e subid result s = Some (re, s') \<and> mgr_inv X qs s' \<and> list_only s s' \<and>
    (re = 0 \<longleftrightarrow> (\<exists>p rs. result = Some (p, rs) \<and> (\<exists>r \<in> set rs. sr_is_synced r \<noteq> 0))) \<and>
    ((\<forall>h. e_malloc e h sizeof_freq_list_manager) \<longrightarrow>
      entries s' qs = fold (\<lambda>r. add_freq (node_of subid r))
        (filter (\<lambda>r. sr_is_synced r \<noteq> 0) (case result of None \<Rightarrow> [] | Some (p, rs) \<Rightarrow> rs)) (entries s ps))"
proof (cases result)
  case None
  then show ?thesis using assms(1) by (auto simp: at_wiota_freq_manager_def intro!: exI[of _ ps])
next
  case (Some a)
  then obtain p rs where r: "result = Some (p, rs)" by (cases a) auto
  then have "mgr_inv (insert p X) ps s" "p \<notin> X" using assms by simp_all
  from add_synced_ok[OF this(1), of e subid rs 1] obtain s1 qs where
    s1: "add_synced e subid rs 1 s = Some (if \<exists>r \<in> set rs. sr_is_synced r \<noteq> 0 then 0 else 1, s1)"
      "mgr_inv (insert p X) qs s1" "list_only s s1"
      "(\<forall>h. e_malloc e h sizeof_freq_list_manager) \<longrightarrow>
        entries s1 qs = fold (\<lambda>r. add_freq (node_of subid r)) (filter (\<lambda>r. sr_is_synced r \<noteq> 0) rs) (entries s ps)"
    by blast
  have e: "list_only s (rt_free (Some p) s1)" "entries (rt_free (Some p) s1) qs = entries s1 qs"
    using s1(3) by (simp_all add: list_only_def rt_free_def emit_def entries_def)
  show ?thesis
    using r s1(1,4) e mgr_inv_free[OF s1(2) \<open>p \<notin> X\<close>]
    by (intro exI[of _ "if \<exists>r \<in> set rs. sr_is_synced r \<noteq> 0 then 0 else 1"] exI[of _ "rt_free (Some p) s1"] exI[of _ qs])
      (auto simp: at_wiota_freq_manager_def)
qed

section \<open>Emptying the list\<close>

lemma clean_loop_frees:
  assumes "successively (linked (nxt s) (prv s)) (a # map Node ps @ [Head])"
  shows "clean_loop (hd (map Node ps @ [Head])) s =
    Some (s\<lparr>hist := map C_free (rev ps) @ hist s, stale_reads := stale_reads s + length ps\<rparr>)"
  using assms
proof (induction ps arbitrary: a s)
  case (Cons p ps)
  let ?s = "(rt_free (Some p) s)\<lparr>stale_reads := stale_reads s + 1\<rparr>"
  have l: "nxt s (Node p) = hd (map Node ps @ [Head])"
    using Cons.prems by (cases ps) (auto simp: linked_def)
  have "successively (linked (nxt ?s) (prv ?s)) (Node p # map Node ps @ [Head])"
    using Cons.prems by (simp add: rt_free_def emit_def)
  from Cons.IH[OF this] show ?case
    by (subst clean_loop.simps) (simp add: rt_free_def emit_def l)
qed (simp add: clean_loop.simps)

lemma live_frees: "live (map C_free ps @ h) = filter (\<lambda>p. p \<notin> set ps) (live h)"
  by (induction ps) (auto simp: removeAll_filter_not_eq intro: filter_cong)

lemma frees_ok_frees: "distinct ps \<Longrightarrow> set ps \<subseteq> set (live h) \<Longrightarrow> frees_ok h \<Longrightarrow> frees_ok (map C_free ps @ h)"
  by (induction ps) (auto simp: live_frees)

lemma heap_ok_frees: "heap_ok h \<Longrightarrow> heap_ok (map C_free ps @ h)"
  by (induction ps) auto

lemma clean_ok:
  assumes "mgr_inv X ps s"
  shows "\<exists>s'. at_wiota_clean_freq_list s = Some s' \<and> mgr_inv X [] s' \<and>
    hist s' = map C_free (rev ps) @ hist s \<and> stale_reads s' = stale_reads s + length ps \<and>
    current_freq_node s' = None \<and> manager_state s' = manager_state s \<and>
    continue_scan_fail s' = continue_scan_fail s \<and> wiota_state s' = wiota_state s"
proof -
  have r: "ring s ps" using assms by (simp add: mgr_inv_def)
  let ?s = "s\<lparr>hist := map C_free (rev ps) @ hist s, stale_reads := stale_reads s + length ps, current_freq_node := None\<rparr>"
  obtain nx pv where i: "rt_list_init Head ?s = Some (?s\<lparr>nxt := nx, prv := pv\<rparr>)" "ring (?s\<lparr>nxt := nx, prv := pv\<rparr>) []"
    using ring_init[of ?s] by blast
  have "clean_loop (hd (map Node ps @ [Head])) s =
      Some (s\<lparr>hist := map C_free (rev ps) @ hist s, stale_reads := stale_reads s + length ps\<rparr>)"
    using r by (intro clean_loop_frees[of _ Head]) (simp add: ring_def)
  then have "at_wiota_clean_freq_list s = Some (?s\<lparr>nxt := nx, prv := pv\<rparr>)"
    using i(1) ring_first[OF r] by (simp add: at_wiota_clean_freq_list_def at_wiota_init_freq_list_def)
  moreover have "mgr_inv X [] (?s\<lparr>nxt := nx, prv := pv\<rparr>)"
    using assms i(2) frees_ok_frees[of "rev ps" "hist s"]
    by (auto simp: mgr_inv_def live_frees entries_def heap_ok_frees ring_def)
  ultimately show ?thesis by simp
qed


section \<open>Steps that only call the platform\<close>

definition quiet :: "'a sys_scheme \<Rightarrow> 'a sys_scheme \<Rightarrow> bool" where
  "quiet s s' \<longleftrightarrow> only_hist s s' \<and> live (hist s') = live (hist s) \<and>
     (heap_ok (hist s) \<longrightarrow> heap_ok (hist s')) \<and> (frees_ok (hist s) \<longrightarrow> frees_ok (hist s'))"

lemma quiet_refl [simp]: "quiet s s"
  by (simp add: quiet_def)

lemma quiet_trans [trans]: "quiet s s' \<Longrightarrow> quiet s' s'' \<Longrightarrow> quiet s s''"
  by (auto simp: quiet_def intro: only_hist_trans)

lemma quiet_emit [simp]: "quiet s t \<Longrightarrow> \<not> heap_call c \<Longrightarrow> quiet s (emit c t)"
  by (auto simp: quiet_def)

lemma quiet_mgr:
  fixes s s' :: mgr
  assumes "quiet s s'"
  obtains h where "s' = s\<lparr>hist := h\<rparr>" "live h = live (hist s)" "heap_ok (hist s) \<longrightarrow> heap_ok h" "frees_ok (hist s) \<longrightarrow> frees_ok h"
  using assms by (auto simp: quiet_def only_hist_def)

lemma mgr_inv_quiet: "mgr_inv X ps s \<Longrightarrow> quiet s s' \<Longrightarrow> mgr_inv X ps s'"
  by (erule quiet_mgr) (auto simp: mgr_inv_def ring_def entries_def)

lemma list_only_quiet: "quiet s s' \<Longrightarrow> list_only s s'"
  by (erule quiet_mgr) (simp add: list_only_def)

text \<open>Assignments to the fields beside the list.\<close>

lemma mgr_inv_fields [simp]:
  "mgr_inv X ps (at_wiota_set_state w s) = mgr_inv X ps s"
  "mgr_inv X ps (set_manager_process st s) = mgr_inv X ps s"
  "mgr_inv X ps (s\<lparr>continue_scan_fail := n\<rparr>) = mgr_inv X ps s"
  "mgr_inv X ps (s\<lparr>current_freq_node := c\<rparr>) = mgr_inv X ps s"
  "mgr_inv X ps (s\<lparr>task_handle := b\<rparr>) = mgr_inv X ps s"
  by (simp_all add: mgr_inv_def ring_def entries_def at_wiota_set_state_def set_manager_process_def)

lemma report_loop_quiet:
  "ring s (xs @ ys) \<Longrightarrow> \<exists>s'. report_loop (hd (map Node ys @ [Head])) s = Some s' \<and> quiet s s'"
proof (induction ys arbitrary: xs s)
  case (Cons p ys)
  let ?s = "emit (C_at (At_println ''+SCANFFREQ'' [uint (freq (info s p)), sint (snr (info s p)), sint (rssi (info s p)), uint (is_synced (info s p))])) s"
  have r: "ring ?s ((xs @ [p]) @ ys)" using Cons.prems by (simp add: ring_def emit_def)
  obtain s' where "report_loop (hd (map Node ys @ [Head])) ?s = Some s'" "quiet ?s s'"
    using Cons.IH[OF r] by blast
  moreover have "quiet s ?s" by simp
  ultimately show ?case
    using ring_next[of ?s xs p ys] r Cons.prems
    by (subst report_loop.simps) (auto simp: node_info_def ring_def emit_def intro: quiet_trans)
qed (simp add: report_loop.simps)

lemma report_ok:
  assumes "mgr_inv X ps s"
    and "type = AT_WIOTA_MANAGER_USER_FREQ \<Longrightarrow> current_freq_node s \<in> insert None (Some ` insert Head (Node ` set ps))"
  shows "\<exists>s'. at_wiota_auto_report_state type s = Some s' \<and> quiet s s'"
proof (cases type)
  case AT_WIOTA_MANAGER_REPORT_FREQ_SUC
  then show ?thesis
    using report_loop_quiet[of s "[]" ps] ring_first[of s ps] assms(1)
    by (simp add: at_wiota_auto_report_state_def mgr_inv_def)
next
  case AT_WIOTA_MANAGER_USER_FREQ
  then show ?thesis
    using assms by (auto simp: at_wiota_auto_report_state_def node_info_def mgr_inv_def)
qed (simp_all add: at_wiota_auto_report_state_def)

lemma startegy_loop_quiet: "startegy_loop e s = Some s' \<Longrightarrow> quiet s s'"
proof (induction rule: startegy_loop.raw_induct[rotated, consumes 1])
  case (1 loop e s s')
  let ?s = "emit (C_query Q_stats) (emit (C_query Q_state) (emit (C_query Q_allow_run) s))"
  let ?t = "emit (C_os (O_thread_mdelay 5)) ?s"
  have "quiet s ?s" "quiet s ?t" "quiet s (emit (C_os O_gateway_task) (emit (C_wiota W_reset_stats) (emit (C_query Q_allow_run) s)))"
    by simp_all
  moreover have "loop e ?t = Some s' \<Longrightarrow> quiet ?t s'" by (rule 1(1))
  moreover have "s' = emit (C_os O_gateway_task) (emit (C_wiota W_reset_stats) (emit (C_query Q_allow_run) s)) \<or>
      s' = ?s \<or> loop e ?t = Some s'"
    using 1(2) by (auto simp: ask_def Let_def split: if_splits prod.splits)
  ultimately show ?case using quiet_trans by blast
qed


section \<open>What the manager relies on\<close>

text \<open>
  The arrays of the library have their sizes: 16 frequencies, eight subsystems, a serial number of at
  most 16 bytes. Whether the list of subsystems has an end mark is another matter.
\<close>

definition library_sizes :: "env \<Rightarrow> bool" where
  "library_sizes e \<longleftrightarrow> (\<forall>h. length (e_freq_list e h) = 16 \<and> length (e_dev_serial e h) \<le> 16 \<and>
     length (cfg_subsystemid_list (e_system_config e h)) = 8)"

definition marked :: "env \<Rightarrow> call list \<Rightarrow> bool" where
  "marked e h \<longleftrightarrow> (\<exists>x \<in> set (cfg_subsystemid_list (e_system_config e h)). x = 0 \<or> x = NOT 0)"

lemma static_freq_loop_total: "i + k \<le> length l \<Longrightarrow> \<exists>n \<le> i + k. static_freq_loop l i k = Some n"
proof (induction k arbitrary: i)
  case (Suc k)
  then show ?case using Suc.IH[of "i + 1"] by (auto simp: rd_def)
qed simp

lemma subsystem_loop_eq:
  assumes "i \<le> length l" "length l < i + k" "\<forall>j < i. l ! j \<noteq> 0 \<and> l ! j \<noteq> NOT 0"
  shows "subsystem_loop l i k =
    (if \<exists>x \<in> set l. x = 0 \<or> x = NOT 0 then Some (length (takeWhile (\<lambda>x. x \<noteq> 0 \<and> x \<noteq> NOT 0) l)) else None)"
  using assms
proof (induction k arbitrary: i)
  case (Suc k)
  show ?case
  proof (cases "i < length l")
    case False
    then have "\<forall>x \<in> set l. x \<noteq> 0 \<and> x \<noteq> NOT 0" using Suc.prems by (auto simp: in_set_conv_nth)
    then show ?thesis using False Suc.prems by (auto simp: rd_def)
  next
    case True
    show ?thesis
    proof (cases "l ! i = NOT 0 \<or> l ! i = 0")
      case stop: True
      have "takeWhile (\<lambda>x. x \<noteq> 0 \<and> x \<noteq> NOT 0) l = take i l"
        using Suc.prems(3) stop True by (intro takeWhile_eq_take_P_nth) auto
      moreover have "\<exists>x \<in> set l. x = 0 \<or> x = NOT 0" using stop True by (intro bexI[of _ "l ! i"]) auto
      ultimately show ?thesis using stop True by (auto simp: rd_def)
    next
      case go: False
      have "subsystem_loop l (i + 1) k = (if \<exists>x \<in> set l. x = 0 \<or> x = NOT 0
          then Some (length (takeWhile (\<lambda>x. x \<noteq> 0 \<and> x \<noteq> NOT 0) l)) else None)"
        using Suc.prems True go by (intro Suc.IH) (auto simp: less_Suc_eq)
      then show ?thesis using go True by (simp add: rd_def)
    qed
  qed
qed simp

lemma subsystem_list_eq:
  assumes "length (cfg_subsystemid_list (e_system_config e (hist s))) = 8"
  defines "l \<equiv> cfg_subsystemid_list (e_system_config e (hist s))"
  shows "at_wiota_get_subsystem_id_list e s = None \<longleftrightarrow> (\<forall>x \<in> set l. x \<noteq> 0 \<and> x \<noteq> NOT 0)"
    "at_wiota_get_subsystem_id_list e s = Some (n, ids) \<Longrightarrow> n \<le> length ids"
proof -
  have "subsystem_loop l 0 32 = (if \<exists>x \<in> set l. x = 0 \<or> x = NOT 0
      then Some (length (takeWhile (\<lambda>x. x \<noteq> 0 \<and> x \<noteq> NOT 0) l)) else None)"
    using assms by (intro subsystem_loop_eq) auto
  moreover have "wr (replicate 8 0) 0 l = Some l" using assms by (simp add: wr_def)
  ultimately show "at_wiota_get_subsystem_id_list e s = None \<longleftrightarrow> (\<forall>x \<in> set l. x \<noteq> 0 \<and> x \<noteq> NOT 0)"
    "at_wiota_get_subsystem_id_list e s = Some (n, ids) \<Longrightarrow> n \<le> length ids"
    using assms length_takeWhile_le[of "\<lambda>x. x \<noteq> 0 \<and> x \<noteq> NOT 0" l]
    by (auto simp: at_wiota_get_subsystem_id_list_def Let_def l_def split: if_splits)
qed

section \<open>Scanning\<close>

lemma scan_freq_ok:
  assumes "mgr_inv X ps s" "scan_freq e freqs t s = (result, s')"
  shows "mgr_inv (case result of None \<Rightarrow> X | Some (p, rs) \<Rightarrow> insert p X) ps s'" "list_only s s'"
    "case result of None \<Rightarrow> True | Some (p, rs) \<Rightarrow> p \<notin> X"
proof -
  let ?s = "emit (C_wiota (W_scan_freq freqs t)) s"
  have i: "mgr_inv X ps ?s" using assms(1) by (rule mgr_inv_quiet) simp
  have "length (hist ?s) \<notin> X" using i fresh_not_live[of "hist ?s"] by (auto simp: mgr_inv_def)
  then show "mgr_inv (case result of None \<Rightarrow> X | Some (p, rs) \<Rightarrow> insert p X) ps s'" "list_only s s'"
    "case result of None \<Rightarrow> True | Some (p, rs) \<Rightarrow> p \<notin> X"
    using assms(2) i mgr_inv_malloc[OF i]
    by (auto simp: scan_freq_def Let_def list_only_def emit_def split: prod.splits op_result.splits)
qed

lemma scan_and_add_ok:
  assumes i: "mgr_inv X ps s" and f: "scan_freq e freqs t s = (result, s1)"
  shows "\<exists>re s' qs. at_wiota_freq_manager e subid result s1 = Some (re, s') \<and> mgr_inv X qs s' \<and> list_only s s'"
proof -
  note sf = scan_freq_ok[OF i f]
  obtain re s' qs where "at_wiota_freq_manager e subid result s1 = Some (re, s')" "mgr_inv X qs s'" "list_only s1 s'"
    using freq_manager_ok[OF sf(1,3), of e subid] by blast
  then show ?thesis using list_only_trans[OF sf(2)] by blast
qed

lemma scan_loop_ok:
  assumes "mgr_inv X ps s" "0 < n" "n \<le> length ids"
  shows "\<exists>failed' s' qs. scan_loop e config freqs ids n i k failed s = Some (failed', s') \<and> mgr_inv X qs s' \<and> list_only s s'"
  using assms(1)
proof (induction k arbitrary: i failed s ps)
  case (Suc k)
  have r: "rd ids (i mod n) = Some (ids ! (i mod n))"
    using assms(2,3) less_le_trans[of "i mod n" n "length ids"] by (simp add: rd_def)
  let ?s = "emit (C_wiota (W_set_system_config (config\<lparr>cfg_subsystemid := ids ! (i mod n)\<rparr>))) s"
  have i: "mgr_inv X ps ?s" using Suc.prems by (rule mgr_inv_quiet) simp
  obtain result s1 where f: "scan_freq e freqs AT_WIOTA_SCAN_TIMEOUT ?s = (result, s1)" by fastforce
  obtain re s2 qs where m: "at_wiota_freq_manager e (ids ! (i mod n)) result s1 = Some (re, s2)" "mgr_inv X qs s2" "list_only ?s s2"
    using scan_and_add_ok[OF i f] by blast
  have "list_only s ?s" by (intro list_only_quiet) simp
  then show ?case
    using Suc.IH[OF m(2), of "i + 1" "if re \<noteq> 0 then failed + 1 else failed"] r f m(1,3)
    by (fastforce simp: Let_def intro: list_only_trans)
qed auto

text \<open>What scanning may change beside the list.\<close>

lemma scan_strategy_ok:
  assumes i: "mgr_inv X ps s" and l: "length freqs = 16" "n \<le> length ids"
  shows "\<exists>res s' qs. scan_strategy e config nf freqs n ids s = Some (res, s') \<and> mgr_inv X qs s' \<and>
    current_freq_node s' = current_freq_node s \<and> manager_state s' = manager_state s \<and> stale_reads s' = stale_reads s"
proof -
  consider "nf * n = 0" | "nf * n = 1" | "nf * n \<noteq> 0" "nf * n \<noteq> 1" by blast
  then show ?thesis
  proof cases
    case 1
    obtain result s1 where f: "scan_freq e [] AT_WIOTA_FULL_SCAN_TIMEOUT s = (result, s1)" by fastforce
    then show ?thesis
      using 1 scan_and_add_ok[OF i f, of "cfg_subsystemid config"]
      by (fastforce simp: scan_strategy_def list_only_def)
  next
    case 2
    obtain s' qs where "at_wiota_only_freq e (cfg_subsystemid config) (freqs ! 0) s = Some s'" "mgr_inv X qs s'" "list_only s s'"
      using add_ok[OF i] unfolding at_wiota_only_freq_def by blast
    then show ?thesis
      using 2 l(1) by (auto simp: scan_strategy_def rd_def list_only_def Let_def intro!: exI[of _ qs])
  next
    case 3
    then have "0 < n" by simp
    then obtain failed s' qs where "scan_loop e config (take nf freqs) ids n (unat (e_userid e (hist s)) mod n) n 0 s = Some (failed, s')"
        "mgr_inv X qs s'" "list_only s s'"
      using scan_loop_ok[OF i _ l(2)] by blast
    then show ?thesis using 3 by (auto simp: scan_strategy_def list_only_def)
  qed
qed

text \<open>C25. Adding a scan result. On a consistent list \<open>at_wiota_add_freq_list\<close> does not fault and keeps the
  list consistent; it does to the entries what \<open>add_freq\<close> does (the entry of the frequency is
  replaced in its place, or a new one goes in front of the first weaker one), unless there is no
  memory for a new node, which leaves them as they were; a new frequency keeps a sorted list
  sorted.
\<close>

theorem manager_add_refines:
  assumes "mgr_inv X ps s"
  shows "\<exists>s' qs. at_wiota_add_freq_list e subid r s = Some s' \<and> mgr_inv X qs s' \<and>
    (entries s' qs = add_freq (node_of subid r) (entries s ps) \<or>
     entries s' qs = entries s ps \<and> sr_freq_idx r \<notin> freq ` set (entries s ps) \<and>
       \<not> e_malloc e (hist s) sizeof_freq_list_manager) \<and>
    (by_strength (entries s ps) \<and> sr_freq_idx r \<notin> freq ` set (entries s ps) \<longrightarrow> by_strength (entries s' qs))"
proof (cases "find (\<lambda>p. freq (info s p) = sr_freq_idx r) ps")
  case None
  then have "sr_freq_idx r \<notin> freq ` set (entries s ps)" by (auto simp: find_None_iff entries_def)
  moreover have "freq (node_of subid r) = sr_freq_idx r" by (simp add: node_of_def)
  ultimately show ?thesis
    using add_insert[OF assms None, of e subid] add_no_memory[OF assms None, of e subid] by_strength_insert
    by (cases "e_malloc e (hist s) sizeof_freq_list_manager") (fastforce simp: add_freq_def)+
next
  case (Some p)
  then have "sr_freq_idx r \<in> freq ` set (entries s ps)"
    by (auto simp: find_Some_iff entries_def intro!: image_eqI[of _ _ "info s p"])
  then show ?thesis using add_replace[OF assms Some, of e subid] by blast
qed

theorem manager_add_refines_witness:
  "\<exists>s' qs. at_wiota_add_freq_list good_env 7 \<lparr>sr_freq_idx = 100, sr_snr = 5, sr_rssi = 0xA0, sr_is_synced = 1, sr_sub_sys_id = 0\<rparr>
      init_mgr = Some s' \<and> map freq (entries s' qs) = [100]"
proof -
  let ?r = "\<lparr>sr_freq_idx = 100, sr_snr = 5, sr_rssi = 0xA0, sr_is_synced = 1, sr_sub_sys_id = 0\<rparr> :: uc_freq_scan_result"
  have i: "mgr_inv {} [] init_mgr" by (simp add: mgr_inv_def init_mgr_def ring_def linked_def entries_def)
  have n: "entries init_mgr [] = []" by (simp add: entries_def)
  obtain s' qs where "at_wiota_add_freq_list good_env 7 ?r init_mgr = Some s'" "entries s' qs = [node_of 7 ?r]"
    using manager_add_refines[OF i, of good_env 7 ?r] by (auto simp: add_freq_def n)
  then show ?thesis by (intro exI[of _ s'] exI[of _ qs]) (simp add: node_of_def)
qed

text \<open>
  A signal that has changed. When a frequency that is already in the list is reported again, its
  entry is replaced in its place, whatever its new strength is: with two reported gateways, a later
  report in which the weaker one has become the stronger one leaves it behind the other.
\<close>

definition report :: "u8 \<Rightarrow> u8 \<Rightarrow> uc_freq_scan_result" where
  "report f r = \<lparr>sr_freq_idx = f, sr_snr = 0, sr_rssi = r, sr_is_synced = 1, sr_sub_sys_id = 0\<rparr>"

lemma manager_update_keeps_place:
  "\<exists>s ps. add_synced good_env 7 [report 100 0xB0, report 101 0xA0, report 101 0xC0] 1 init_mgr = Some (0, s) \<and>
     ring s ps \<and> map freq (entries s ps) = [100, 101] \<and> \<not> by_strength (entries s ps)"
proof -
  have i: "mgr_inv {} [] init_mgr" by (simp add: mgr_inv_def init_mgr_def ring_def linked_def entries_def)
  obtain s ps where s: "add_synced good_env 7 [report 100 0xB0, report 101 0xA0, report 101 0xC0] 1 init_mgr = Some (0, s)"
      "mgr_inv {} ps s" "entries s ps = fold (\<lambda>r. add_freq (node_of 7 r)) [report 100 0xB0, report 101 0xA0, report 101 0xC0] []"
    using add_synced_ok[OF i, of good_env 7 "[report 100 0xB0, report 101 0xA0, report 101 0xC0]" 1]
    by (auto simp: report_def entries_def)
  then show ?thesis
    by (intro exI[of _ s] exI[of _ ps]) (simp add: mgr_inv_def report_def add_freq_def node_of_def by_strength_def)
qed

end
