(* ===== verification/ManagerTask.thy ===== *)
theory ManagerTask
  imports ManagerList
begin

text \<open>
  The task of the connection manager: its reachable states, what they have in common, and what it
  does with the list when a connection fails.
\<close>

lemma ring_walk:
  "successively (linked nx pv) (l # map Node xs @ [Head]) \<Longrightarrow> successively (linked nx pv) (l # map Node ys @ [Head]) \<Longrightarrow> xs = ys"
proof (induction xs arbitrary: l ys)
  case Nil
  then show ?case by (cases ys) (auto simp: linked_def)
next
  case (Cons x xs)
  then show ?case by (cases ys) (auto simp: linked_def)
qed

lemma ring_unique: "ring s xs \<Longrightarrow> ring s ys \<Longrightarrow> xs = ys"
  using ring_walk[of "nxt s" "prv s" Head xs ys] by (simp add: ring_def)

section \<open>Reachable states\<close>

text \<open>The list is empty or, from the choice of a gateway on, the first entry is the one in use.\<close>

definition task_inv :: "ptr list \<Rightarrow> mgr \<Rightarrow> bool" where
  "task_inv ps s \<longleftrightarrow> mgr_inv {} ps s \<and>
     (case manager_state s of
        AT_WIOTA_MANAGER_PROCESS_SCAN \<Rightarrow> current_freq_node s = None
      | AT_WIOTA_MANAGER_PROCESS_INIT \<Rightarrow> current_freq_node s = None
      | AT_WIOTA_MANAGER_PROCESS_RUN \<Rightarrow> ps \<noteq> [] \<and> current_freq_node s = Some (Node (hd ps))
      | AT_WIOTA_MANAGER_PROCESS_STRATEGY \<Rightarrow> ps \<noteq> [] \<and> current_freq_node s = Some (Node (hd ps))
      | AT_WIOTA_MANAGER_PROCESS_EXIT \<Rightarrow> ps \<noteq> [] \<and> current_freq_node s = Some (Node (hd ps))
      | _ \<Rightarrow> False)"

inductive mgr_reach :: "env \<Rightarrow> mgr \<Rightarrow> bool" for e where
  begins: "at_wiota_manager e init_mgr = Some s \<Longrightarrow> task_handle s \<Longrightarrow> mgr_reach e (manager_task_begin s)"
| step: "mgr_reach e s \<Longrightarrow> manager_step e s = Some s' \<Longrightarrow> mgr_reach e s'"

lemma entries_quiet: "quiet s s' \<Longrightarrow> entries s' ps = entries s ps"
  by (erule quiet_mgr) (simp add: entries_def)

lemma manager_scan_cases:
  assumes i: "mgr_inv {} ps s" and e: "library_sizes e"
  shows "at_wiota_manager_scan e s = None \<and> (\<exists>h. \<not> marked e h) \<or>
    (\<exists>res s' qs. at_wiota_manager_scan e s = Some (res, s') \<and> mgr_inv {} qs s' \<and>
       current_freq_node s' = None \<and> manager_state s' = manager_state s \<and> stale_reads s' = stale_reads s + length ps)"
proof -
  let ?s = "emit (C_wiota W_init) s"
  obtain a where a: "uc_wiota_gateway_get_dev_address e ?s = Some a"
    using get_dev_address_ok[of e ?s] e by (auto simp: library_sizes_def)
  let ?s1 = "at_wiota_set_state AT_WIOTA_INIT (emit (C_wiota (W_set_userid a 4)) ?s)"
  let ?s2 = "at_wiota_set_state AT_WIOTA_RUN (register_callbacks (emit (C_wiota W_run) ?s1))"
  have "mgr_inv {} ps ?s1" using i by (simp, elim mgr_inv_quiet) simp
  then have i2: "mgr_inv {} ps ?s2" by (simp, elim mgr_inv_quiet) (simp add: register_callbacks_def)
  have f2: "current_freq_node ?s2 = current_freq_node s" "manager_state ?s2 = manager_state s" "stale_reads ?s2 = stale_reads s"
    by (simp_all add: at_wiota_set_state_def register_callbacks_def emit_def)
  obtain s3 where s3: "at_wiota_clean_freq_list ?s2 = Some s3" "mgr_inv {} [] s3" "current_freq_node s3 = None"
      "manager_state s3 = manager_state s" "stale_reads s3 = stale_reads s + length ps"
    using clean_ok[OF i2] f2 by auto
  obtain nf where nf: "static_freq_loop (e_freq_list e (hist s3)) 0 16 = Some nf"
    using static_freq_loop_total[of 0 16 "e_freq_list e (hist s3)"] e by (auto simp: library_sizes_def)
  then have fr: "at_wiota_get_static_freq e s3 = Some (nf, e_freq_list e (hist s3))"
    using e by (simp add: at_wiota_get_static_freq_def wr_def library_sizes_def)
  have l8: "length (cfg_subsystemid_list (e_system_config e (hist s3))) = 8" using e by (simp add: library_sizes_def)
  show ?thesis
  proof (cases "at_wiota_get_subsystem_id_list e s3")
    case None
    then have "\<not> marked e (hist s3)" using subsystem_list_eq(1)[of e s3] l8 by (auto simp: marked_def)
    moreover have "at_wiota_manager_scan e s = None"
      using a s3(1) fr None by (simp add: at_wiota_manager_scan_def Let_def)
    ultimately show ?thesis by blast
  next
    case (Some r)
    obtain n ids where r: "r = (n, ids)" by (cases r)
    then have n: "n \<le> length ids" using subsystem_list_eq(2)[of e s3 n ids] Some l8 by simp
    obtain res s4 qs where s4: "scan_strategy e (e_system_config e (hist ?s1)) nf (e_freq_list e (hist s3)) n ids s3 = Some (res, s4)"
        "mgr_inv {} qs s4" "current_freq_node s4 = None" "manager_state s4 = manager_state s" "stale_reads s4 = stale_reads s3"
      using scan_strategy_ok[OF s3(2) _ n] e s3(3,4) unfolding library_sizes_def by metis
    have "mgr_inv {} qs (at_wiota_set_state AT_WIOTA_EXIT (emit (C_wiota W_exit) s4))"
      using s4(2) by (simp, elim mgr_inv_quiet) simp
    then show ?thesis
      using a s3(1,5) fr Some r s4(1,3-5)
      by (intro disjI2 exI[of _ res] exI[of _ "at_wiota_set_state AT_WIOTA_EXIT (emit (C_wiota W_exit) s4)"] exI[of _ qs])
        (simp add: at_wiota_manager_scan_def at_wiota_set_state_def Let_def emit_def)
  qed
qed

lemma scan_step_cases:
  assumes i: "task_inv ps s" and st: "manager_state s = AT_WIOTA_MANAGER_PROCESS_SCAN" and e: "library_sizes e"
  shows "manager_scan_step e s = None \<and> (\<exists>h. \<not> marked e h) \<or>
    (\<exists>s' qs. manager_scan_step e s = Some s' \<and> task_inv qs s' \<and> stale_reads s' = stale_reads s + length ps)"
proof -
  consider (unmarked) "at_wiota_manager_scan e s = None" "\<exists>h. \<not> marked e h"
    | (ok) res s1 qs where "at_wiota_manager_scan e s = Some (res, s1)" "mgr_inv {} qs s1" "current_freq_node s1 = None"
      "manager_state s1 = AT_WIOTA_MANAGER_PROCESS_SCAN" "stale_reads s1 = stale_reads s + length ps"
    using manager_scan_cases[of ps s e] i st e by (auto simp: task_inv_def)
  then show ?thesis
  proof cases
    case unmarked
    then show ?thesis by (simp add: manager_scan_step_def)
  next
    case s1: ok
    show ?thesis
    proof (cases res)
      case True
      obtain s2 where s2: "at_wiota_auto_report_state AT_WIOTA_MANAGER_REPORT_FREQ_FAIL s1 = Some s2" "quiet s1 s2"
        using report_ok[OF s1(2)] by blast
      let ?s = "emit (C_os (O_thread_mdelay (unat (1000 * continue_scan_fail s2)))) s2"
      have q: "quiet s1 ?s" using s2(2) by simp
      then have "task_inv qs ?s" "stale_reads ?s = stale_reads s1"
        using mgr_inv_quiet[OF s1(2)] s1(3,4) list_only_quiet[OF q] by (fastforce simp: task_inv_def list_only_def)+
      then show ?thesis using s1(1,5) s2(1) True by (auto simp: manager_scan_step_def)
    next
      case False
      let ?s = "set_manager_process AT_WIOTA_MANAGER_PROCESS_INIT s1"
      have i: "mgr_inv {} qs ?s" using s1(2) by simp
      obtain s2 where s2: "at_wiota_auto_report_state AT_WIOTA_MANAGER_REPORT_FREQ_SUC ?s = Some s2" "quiet ?s s2"
        using report_ok[OF i] by blast
      then have "task_inv qs s2" "stale_reads s2 = stale_reads s1"
        using mgr_inv_quiet[OF i s2(2)] s1(3) list_only_quiet[OF s2(2)]
        by (simp_all add: task_inv_def list_only_def set_manager_process_def)
      then show ?thesis using s1(1,5) s2(1) False by (auto simp: manager_scan_step_def)
    qed
  qed
qed

text \<open>The choice: without a current node, the first of the list.\<close>

lemma choose_first:
  assumes "mgr_inv X ps s" "current_freq_node s = None"
  shows "at_wiota_choose_freq s =
    Some (if ps = [] then (1, s) else (0, s\<lparr>current_freq_node := Some (Node (hd ps))\<rparr>))"
proof -
  have r: "ring s ps" using assms(1) by (simp add: mgr_inv_def)
  show ?thesis
    using assms(2) ring_isempty[OF r] ring_first[OF r]
    by (cases ps) (simp_all add: at_wiota_choose_freq_def)
qed

lemma init_step_ok:
  assumes i: "task_inv ps s" and st: "manager_state s = AT_WIOTA_MANAGER_PROCESS_INIT" and e: "library_sizes e"
  shows "\<exists>s'. manager_init_step e s = Some s' \<and> task_inv ps s' \<and>
    manager_state s' = (if ps = [] then AT_WIOTA_MANAGER_PROCESS_SCAN else AT_WIOTA_MANAGER_PROCESS_RUN) \<and>
    stale_reads s' = stale_reads s \<and> entries s' ps = entries s ps \<and>
    (ps \<noteq> [] \<longrightarrow> (\<exists>h. hist s' = C_wiota (W_set_freq_info (freq (info s (hd ps)))) #
       C_wiota (W_set_system_config ((e_system_config e h)\<lparr>cfg_subsystemid := subsystem_id (info s (hd ps))\<rparr>)) # h))"
proof (cases ps)
  case Nil
  then show ?thesis
    using choose_first[of "{}" ps s] i st
    by (simp add: task_inv_def manager_init_step_def set_manager_process_def entries_def mgr_inv_def ring_def)
next
  case (Cons p qs)
  let ?s = "s\<lparr>current_freq_node := Some (Node p)\<rparr>"
  have i1: "mgr_inv {} ps ?s" using i by (simp add: task_inv_def)
  have ch: "at_wiota_choose_freq s = Some (0, ?s)"
    using choose_first[of "{}" ps s] i st Cons by (simp add: task_inv_def)
  obtain s1 where s1: "at_wiota_auto_report_state AT_WIOTA_MANAGER_USER_FREQ ?s = Some s1" "quiet ?s s1"
    using report_ok[OF i1] Cons by auto
  let ?s2 = "emit (C_wiota W_init) s1"
  obtain a where a: "uc_wiota_gateway_get_dev_address e ?s2 = Some a"
    using get_dev_address_ok[of e ?s2] e by (auto simp: library_sizes_def)
  have q: "quiet ?s ?s2" using s1(2) by simp
  have i2: "mgr_inv {} ps ?s2" by (rule mgr_inv_quiet[OF i1 q])
  have cur: "current_freq_node ?s2 = Some (Node p)" using list_only_quiet[OF q] by (simp add: list_only_def)
  then have x: "current_info ?s2 = Some (info ?s2 p)"
    using i2 Cons by (simp add: current_info_def node_info_def mgr_inv_def)
  let ?x = "info ?s2 p"
  let ?s3 = "emit (C_wiota (W_set_freq_info (freq ?x))) (at_wiota_set_config e (subsystem_id ?x) (emit (C_wiota (W_set_userid a 4)) ?s2))"
  have q3: "quiet ?s ?s3" using q by (simp add: at_wiota_set_config_def)
  have i3: "mgr_inv {} ps ?s3" by (rule mgr_inv_quiet[OF i1 q3])
  have f3: "current_freq_node ?s3 = Some (Node p)" "stale_reads ?s3 = stale_reads s"
    using list_only_quiet[OF q3] by (simp_all add: list_only_def)
  have en: "entries ?s3 ps = entries s ps"
    using entries_quiet[OF q3] by (simp add: entries_def)
  let ?s4 = "set_manager_process AT_WIOTA_MANAGER_PROCESS_RUN (at_wiota_set_state AT_WIOTA_INIT ?s3)"
  have "manager_init_step e s = Some ?s4"
    using ch s1(1) a x by (simp add: manager_init_step_def Let_def)
  moreover have "task_inv ps ?s4"
    using i3 f3(1) Cons by (simp add: task_inv_def set_manager_process_def at_wiota_set_state_def mgr_inv_def ring_def entries_def)
  moreover have "?x = info s p" using entries_quiet[OF q, of "[p]"] by (simp add: entries_def)
  moreover have "hist ?s4 = C_wiota (W_set_freq_info (freq ?x)) #
      C_wiota (W_set_system_config ((e_system_config e (C_wiota (W_set_userid a 4) # hist ?s2))\<lparr>cfg_subsystemid := subsystem_id ?x\<rparr>)) #
      C_wiota (W_set_userid a 4) # hist ?s2"
    by (simp add: set_manager_process_def at_wiota_set_state_def at_wiota_set_config_def emit_def)
  moreover have "entries ?s4 ps = entries s ps" "stale_reads ?s4 = stale_reads s" "manager_state ?s4 = AT_WIOTA_MANAGER_PROCESS_RUN"
    using f3(2) en by (simp_all add: set_manager_process_def at_wiota_set_state_def entries_def)
  ultimately show ?thesis
    using Cons by (intro exI[of _ ?s4]) auto
qed

lemma run_step_ok:
  assumes i: "task_inv ps s" and st: "manager_state s = AT_WIOTA_MANAGER_PROCESS_RUN"
  shows "\<exists>s'. manager_run_step e s = Some s' \<and> task_inv ps s' \<and> stale_reads s' = stale_reads s \<and>
    manager_state s' = (if fst (at_wiota_manager_run e s) \<noteq> 0 then AT_WIOTA_MANAGER_PROCESS_EXIT
                        else AT_WIOTA_MANAGER_PROCESS_STRATEGY)"
proof -
  obtain res s1 where r: "at_wiota_manager_run e s = (res, s1)" by fastforce
  have i1: "mgr_inv {} ps s1" and f1: "list_only (at_wiota_set_state AT_WIOTA_RUN s) s1"
  proof -
    have "quiet (at_wiota_set_state AT_WIOTA_RUN s) s1"
      using r by (auto simp: at_wiota_manager_run_def Let_def quiet_def only_hist_def at_wiota_set_state_def
          register_callbacks_def emit_def)
    then show "mgr_inv {} ps s1" "list_only (at_wiota_set_state AT_WIOTA_RUN s) s1"
      using i mgr_inv_quiet[of "{}" ps "at_wiota_set_state AT_WIOTA_RUN s" s1] by (simp_all add: task_inv_def list_only_quiet)
  qed
  show ?thesis
  proof (cases "res = 0")
    case True
    then show ?thesis
      using r i i1 f1 st by (simp add: manager_run_step_def task_inv_def set_manager_process_def list_only_def
          at_wiota_set_state_def mgr_inv_def ring_def entries_def)
  next
    case False
    let ?s = "set_manager_process AT_WIOTA_MANAGER_PROCESS_EXIT s1"
    have i2: "mgr_inv {} ps ?s" using i1 by simp
    obtain s2 where s2: "at_wiota_auto_report_state AT_WIOTA_MANAGER_CONNECT_FAIL ?s = Some s2" "quiet ?s s2"
      using report_ok[OF i2] by blast
    then show ?thesis
      using r False i st f1 mgr_inv_quiet[OF i2 s2(2)] list_only_quiet[OF s2(2)]
      by (simp add: manager_run_step_def task_inv_def set_manager_process_def list_only_def at_wiota_set_state_def)
  qed
qed

lemma strategy_step_ok:
  assumes i: "task_inv ps s" and st: "manager_state s = AT_WIOTA_MANAGER_PROCESS_STRATEGY"
    and s': "manager_strategy_step e s = Some s'"
  shows "task_inv ps s' \<and> manager_state s' = AT_WIOTA_MANAGER_PROCESS_EXIT \<and> stale_reads s' = stale_reads s"
proof -
  have m: "mgr_inv {} ps s" using i by (simp add: task_inv_def)
  obtain s1 where s1: "at_wiota_auto_report_state AT_WIOTA_MANAGER_CONNECT_SUC s = Some s1" "quiet s s1"
    using report_ok[OF m] by blast
  obtain s2 where s2: "at_wiota_manager_startegy e s1 = Some s2" "s' = set_manager_process AT_WIOTA_MANAGER_PROCESS_EXIT s2"
    using s' s1(1) by (auto simp: manager_strategy_step_def)
  have "quiet s1 (emit (C_wiota W_reset_stats) s1)" by simp
  then have "quiet s1 s2"
    by (rule quiet_trans) (rule startegy_loop_quiet[OF s2(1)[unfolded at_wiota_manager_startegy_def]])
  then have q: "quiet s s2" using s1(2) quiet_trans by blast
  then show ?thesis
    using s2(2) mgr_inv_quiet[OF m q] list_only_quiet[OF q] i st
    by (simp add: task_inv_def set_manager_process_def list_only_def mgr_inv_def ring_def entries_def)
qed

lemma exit_step_ok:
  assumes i: "task_inv ps s" and st: "manager_state s = AT_WIOTA_MANAGER_PROCESS_EXIT"
  shows "\<exists>s'. manager_exit_step s = Some s' \<and> task_inv [] s' \<and> manager_state s' = AT_WIOTA_MANAGER_PROCESS_INIT \<and>
    stale_reads s' = stale_reads s + length ps"
proof -
  let ?s = "emit (C_wiota W_exit) s"
  have m: "mgr_inv {} ps ?s" using i by (simp add: task_inv_def, elim conjE mgr_inv_quiet) simp
  obtain s1 where s1: "at_wiota_clean_freq_list ?s = Some s1" "mgr_inv {} [] s1" "stale_reads s1 = stale_reads s + length ps"
      "current_freq_node s1 = None"
    using clean_ok[OF m] by (auto simp: emit_def)
  obtain s2 where s2: "at_wiota_auto_report_state AT_WIOTA_MANAGER_EXIT s1 = Some s2" "quiet s1 s2"
    using report_ok[OF s1(2)] by blast
  have "mgr_inv {} [] s2" "list_only s1 s2" using mgr_inv_quiet[OF s1(2) s2(2)] list_only_quiet[OF s2(2)] by simp_all
  then show ?thesis
    using s1 s2(1) by (simp add: manager_exit_step_def task_inv_def set_manager_process_def at_wiota_set_state_def
        list_only_def mgr_inv_def ring_def entries_def)
qed


section \<open>What holds in every reachable state\<close>

lemma begin_ok:
  assumes "at_wiota_manager e init_mgr = Some s" "task_handle s"
  shows "task_inv [] (manager_task_begin s)"
proof -
  obtain nx pv where i: "rt_list_init Head init_mgr = Some (init_mgr\<lparr>nxt := nx, prv := pv\<rparr>)" "ring (init_mgr\<lparr>nxt := nx, prv := pv\<rparr>) []"
    using ring_init[of init_mgr] by blast
  have "mgr_inv {} [] (init_mgr\<lparr>nxt := nx, prv := pv\<rparr>)"
    using i(2) by (simp add: mgr_inv_def init_mgr_def entries_def)
  moreover have "quiet (init_mgr\<lparr>nxt := nx, prv := pv, task_handle := True\<rparr>) s"
    using assms i(1) by (auto simp: at_wiota_manager_def at_wiota_init_freq_list_def init_mgr_def quiet_def
        only_hist_def emit_def Let_def split: if_splits)
  ultimately have "mgr_inv {} [] s" and f: "list_only (init_mgr\<lparr>nxt := nx, prv := pv, task_handle := True\<rparr>) s"
    using mgr_inv_quiet[of "{}" "[]" "init_mgr\<lparr>nxt := nx, prv := pv, task_handle := True\<rparr>" s] list_only_quiet
    by (simp_all add: mgr_inv_def ring_def entries_def)
  then show ?thesis
    by (simp add: task_inv_def manager_task_begin_def set_manager_process_def list_only_def init_mgr_def
        mgr_inv_def ring_def entries_def)
qed

lemma task_inv_step:
  assumes i: "task_inv ps s" and e: "library_sizes e" and st: "manager_step e s = Some s'"
  shows "\<exists>qs. task_inv qs s'"
proof -
  consider "manager_state s = AT_WIOTA_MANAGER_PROCESS_SCAN" | "manager_state s = AT_WIOTA_MANAGER_PROCESS_INIT"
    | "manager_state s = AT_WIOTA_MANAGER_PROCESS_RUN" | "manager_state s = AT_WIOTA_MANAGER_PROCESS_STRATEGY"
    | "manager_state s = AT_WIOTA_MANAGER_PROCESS_EXIT"
    using i by (cases "manager_state s") (auto simp: task_inv_def)
  then show ?thesis
  proof cases
    case 1 then show ?thesis using scan_step_cases[OF i 1 e] st by (auto simp: manager_step_def)
  next
    case 2 then show ?thesis using init_step_ok[OF i 2 e] st by (auto simp: manager_step_def)
  next
    case 3 then show ?thesis using run_step_ok[OF i 3, of e] st by (auto simp: manager_step_def)
  next
    case 4 then show ?thesis using strategy_step_ok[OF i 4] st by (auto simp: manager_step_def)
  next
    case 5 then show ?thesis using exit_step_ok[OF i 5] st by (auto simp: manager_step_def)
  qed
qed

lemma reach_inv: "mgr_reach e s \<Longrightarrow> library_sizes e \<Longrightarrow> \<exists>ps. task_inv ps s"
  by (induction rule: mgr_reach.induct) (blast intro: begin_ok task_inv_step)+

text \<open>Reads of freed nodes: one for each node of the list, in the steps that empty it.\<close>

lemma step_stale:
  assumes i: "task_inv ps s" and e: "library_sizes e"
  shows "(manager_state s \<noteq> AT_WIOTA_MANAGER_PROCESS_STRATEGY \<and> manager_step e s = None \<longrightarrow>
      manager_state s = AT_WIOTA_MANAGER_PROCESS_SCAN \<and> (\<exists>h. \<not> marked e h)) \<and>
    (\<forall>s'. manager_step e s = Some s' \<longrightarrow> stale_reads s' = stale_reads s +
      (if manager_state s \<in> {AT_WIOTA_MANAGER_PROCESS_SCAN, AT_WIOTA_MANAGER_PROCESS_EXIT} then length ps else 0))"
proof (cases "manager_state s")
  case AT_WIOTA_MANAGER_PROCESS_SCAN
  then show ?thesis using scan_step_cases[OF i _ e] by (auto simp: manager_step_def)
next
  case AT_WIOTA_MANAGER_PROCESS_INIT
  then show ?thesis using init_step_ok[OF i _ e] by (auto simp: manager_step_def)
next
  case AT_WIOTA_MANAGER_PROCESS_RUN
  then show ?thesis using run_step_ok[OF i, of e] by (auto simp: manager_step_def)
next
  case AT_WIOTA_MANAGER_PROCESS_STRATEGY
  then show ?thesis using strategy_step_ok[OF i] by (auto simp: manager_step_def)
next
  case AT_WIOTA_MANAGER_PROCESS_EXIT
  then show ?thesis using exit_step_ok[OF i] by (auto simp: manager_step_def)
qed (use i in \<open>auto simp: task_inv_def\<close>)

text \<open>C23. The list of the connection manager, for a library that fills its arrays (16 frequencies, eight
  subsystems, a serial number of at most 16 bytes). In every state that its task reaches, the links form a
  list without repetition of exactly the blocks that are allocated, no frequency occurs twice in it,
  nothing was freed that was not allocated, and the node in use is the first of the list. The next
  step accesses memory outside the allocated blocks in two ways only. Emptying the list, in the scan
  step and in the exit step, reads the link of each node once after the node was freed; the model
  counts these reads instead of failing on them, and there are exactly as many as the list has nodes,
  and none in any other step. And a scan step can read behind the list of subsystems, when the
  library gives a configuration without an end mark; no other step faults. Only the watch over a
  connection (the strategy step) may go on for ever, and when it returns it has read no freed node.
\<close>

theorem manager_list_memory:
  assumes "mgr_reach e s" "library_sizes e"
  shows "\<exists>ps. ring s ps \<and> set (live (hist s)) = set ps \<and> distinct (map freq (entries s ps)) \<and> frees_ok (hist s) \<and>
    (current_freq_node s \<noteq> None \<longrightarrow> ps \<noteq> [] \<and> current_freq_node s = Some (Node (hd ps))) \<and>
    (manager_state s \<noteq> AT_WIOTA_MANAGER_PROCESS_STRATEGY \<and> manager_step e s = None \<longrightarrow>
      manager_state s = AT_WIOTA_MANAGER_PROCESS_SCAN \<and> (\<exists>h. \<not> marked e h)) \<and>
    (\<forall>s'. manager_step e s = Some s' \<longrightarrow> stale_reads s' = stale_reads s +
      (if manager_state s \<in> {AT_WIOTA_MANAGER_PROCESS_SCAN, AT_WIOTA_MANAGER_PROCESS_EXIT} then length ps else 0))"
proof -
  obtain ps where i: "task_inv ps s" using reach_inv[OF assms] by blast
  have "ring s ps \<and> set (live (hist s)) = set ps \<and> distinct (map freq (entries s ps)) \<and> frees_ok (hist s) \<and>
      (current_freq_node s \<noteq> None \<longrightarrow> ps \<noteq> [] \<and> current_freq_node s = Some (Node (hd ps)))"
    using i by (auto simp: task_inv_def mgr_inv_def split: at_wiota_manager_process.splits)
  then show ?thesis using step_stale[OF i assms(2)] by blast
qed

text \<open>A library that reports two gateways, of which the second is the stronger one.\<close>

definition two_gateways :: env where
  "two_gateways = good_env\<lparr>e_auto_connect := (\<lambda>h. True),
     e_scan_freq := (\<lambda>h. (UC_OP_SUCC,
       [\<lparr>sr_freq_idx = 100, sr_snr = 5, sr_rssi = 0xA0, sr_is_synced = 1, sr_sub_sys_id = 0\<rparr>,
        \<lparr>sr_freq_idx = 101, sr_snr = 9, sr_rssi = 0xB0, sr_is_synced = 1, sr_sub_sys_id = 0\<rparr>])),
     e_wait_sync := (\<lambda>h. 1)\<rparr>"

lemma two_gateways_config: "library_sizes two_gateways" "marked two_gateways h"
  by (simp_all add: library_sizes_def marked_def two_gateways_def good_env_def default_config_def)

definition after_steps :: "nat \<Rightarrow> env \<Rightarrow> mgr option" where
  "after_steps n e = ((\<lambda>r. Option.bind r (manager_step e)) ^^ n)
     (map_option manager_task_begin (at_wiota_manager e init_mgr))"

lemma after_steps_reach:
  assumes "\<exists>s. at_wiota_manager e init_mgr = Some s \<and> task_handle s" "after_steps n e = Some s"
  shows "mgr_reach e s"
  using assms
proof (induction n arbitrary: s)
  case 0
  then show ?case by (auto simp: after_steps_def intro: mgr_reach.begins)
next
  case (Suc n)
  then obtain s1 where "after_steps n e = Some s1" "manager_step e s1 = Some s"
    by (auto simp: after_steps_def bind_eq_Some_conv)
  then show ?case using Suc.IH Suc.prems(1) mgr_reach.step by blast
qed

lemma two_gateways_begin: "\<exists>s. at_wiota_manager two_gateways init_mgr = Some s \<and> task_handle s"
proof -
  have "case at_wiota_manager two_gateways init_mgr of None \<Rightarrow> False | Some s \<Rightarrow> task_handle s" by code_simp
  then show ?thesis by (cases "at_wiota_manager two_gateways init_mgr") auto
qed

lemma mset_pair: "mset xs = {#a, b#} \<Longrightarrow> xs = [a, b] \<or> xs = [b, a]"
  by (cases xs; cases "tl xs") (auto simp: add_eq_conv_ex)

theorem manager_list_memory_witness:
  "\<exists>s ps. after_steps 2 two_gateways = Some s \<and> ring s ps \<and> set (live (hist s)) = set ps \<and> frees_ok (hist s) \<and>
     current_freq_node s = Some (Node (hd ps)) \<and> manager_step two_gateways s \<noteq> None"
proof -
  have ev: "case after_steps 2 two_gateways of None \<Rightarrow> False
      | Some s \<Rightarrow> manager_state s = AT_WIOTA_MANAGER_PROCESS_RUN \<and> current_freq_node s \<noteq> None"
    by code_simp
  then obtain s where s: "after_steps 2 two_gateways = Some s" "manager_state s = AT_WIOTA_MANAGER_PROCESS_RUN"
      "current_freq_node s \<noteq> None"
    by (cases "after_steps 2 two_gateways") auto
  have "mgr_reach two_gateways s" by (rule after_steps_reach[OF two_gateways_begin s(1)])
  from manager_list_memory[OF this two_gateways_config(1)] show ?thesis using s by auto
qed

section \<open>The candidates of a scan\<close>

lemma fold_add_freq:
  assumes "distinct (map freq ys @ map freq xs)" "by_strength ys"
  shows "mset (fold add_freq xs ys) = mset xs + mset ys \<and> by_strength (fold add_freq xs ys)"
  using assms
proof (induction xs arbitrary: ys)
  case (Cons x xs)
  have a: "add_freq x ys = insert_freq x ys" using Cons.prems(1) by (auto simp: add_freq_def)
  have "mset (map freq (insert_freq x ys)) = mset (freq x # map freq ys)" by (simp add: mset_insert_freq)
  then have "mset (map freq (insert_freq x ys) @ map freq xs) = mset (map freq ys @ map freq (x # xs))" by simp
  then have "distinct (map freq (insert_freq x ys) @ map freq xs)"
    using Cons.prems(1) mset_eq_imp_distinct_iff by blast
  from Cons.IH[OF this by_strength_insert[OF Cons.prems(2)]] show ?case
    by (simp add: a mset_insert_freq)
qed simp

text \<open>C24. The candidates of a scan. With enough memory, a scan that reports at least one gateway in
  synchronisation, none of them twice, fills an empty list with exactly the reported gateways in
  synchronisation, the strongest signal first; the block of the results is freed; and the choice
  that follows takes the first of the list, so the strongest.
\<close>

theorem manager_scan_sorted:
  assumes "mgr_inv {p} [] s" "\<And>h. e_malloc e h sizeof_freq_list_manager" "current_freq_node s = None"
    and "distinct (map sr_freq_idx (filter (\<lambda>r. sr_is_synced r \<noteq> 0) rs))" "\<exists>r \<in> set rs. sr_is_synced r \<noteq> 0"
  shows "\<exists>s' ps. at_wiota_freq_manager e subid (Some (p, rs)) s = Some (0, s') \<and> ring s' ps \<and>
    set (live (hist s')) = set ps \<and>
    mset (entries s' ps) = mset (map (node_of subid) (filter (\<lambda>r. sr_is_synced r \<noteq> 0) rs)) \<and>
    by_strength (entries s' ps) \<and>
    at_wiota_choose_freq s' = Some (0, s'\<lparr>current_freq_node := Some (Node (hd ps))\<rparr>)"
proof -
  let ?rs = "filter (\<lambda>r. sr_is_synced r \<noteq> 0) rs"
  obtain re s' ps where f: "at_wiota_freq_manager e subid (Some (p, rs)) s = Some (re, s')" "mgr_inv {} ps s'" "list_only s s'"
      "re = 0" "entries s' ps = fold (\<lambda>r. add_freq (node_of subid r)) ?rs []"
    using freq_manager_ok[of "{}" "Some (p, rs)" "[]" s e subid] assms by (auto simp: entries_def)
  have "map freq (map (node_of subid) ?rs) = map sr_freq_idx ?rs" by (simp add: node_of_def)
  then have d: "distinct (map freq [] @ map freq (map (node_of subid) ?rs))" using assms(4) by (simp only: append.simps list.map)
  have m: "mset (entries s' ps) = mset (map (node_of subid) ?rs)" "by_strength (entries s' ps)"
    using fold_add_freq[OF d] f(5) by (simp_all add: fold_map comp_def by_strength_def)
  have "?rs \<noteq> []" using assms(5) by (auto simp: filter_empty_conv)
  then have "entries s' ps \<noteq> []" using m(1) by (metis mset_zero_iff list.map_disc_iff)
  then have "ps \<noteq> []" by (simp add: entries_def)
  then show ?thesis
    using f m choose_first[OF f(2)] assms(3) by (auto simp: mgr_inv_def list_only_def)
qed

definition after_scan :: mgr where
  "after_scan = emit (C_malloc 0 16) init_mgr"

theorem manager_scan_sorted_witness:
  "\<exists>s' ps. at_wiota_freq_manager two_gateways 7 (Some (0, snd (e_scan_freq two_gateways []))) after_scan = Some (0, s') \<and>
     ring s' ps \<and> map freq (entries s' ps) = [101, 100]"
proof -
  have i: "mgr_inv {0} [] after_scan"
    by (simp add: mgr_inv_def after_scan_def init_mgr_def emit_def ring_def linked_def entries_def)
  have m: "e_malloc two_gateways h sizeof_freq_list_manager" for h by (simp add: two_gateways_def good_env_def)
  have c: "current_freq_node after_scan = None" by (simp add: after_scan_def init_mgr_def emit_def)
  obtain s' ps where s': "at_wiota_freq_manager two_gateways 7 (Some (0, snd (e_scan_freq two_gateways []))) after_scan = Some (0, s')"
      "ring s' ps" "mset (entries s' ps) = mset (map (node_of 7) (snd (e_scan_freq two_gateways [])))" "by_strength (entries s' ps)"
    using manager_scan_sorted[OF i m c, of "snd (e_scan_freq two_gateways [])" 7] by (auto simp: two_gateways_def)
  let ?a = "node_of 7 \<lparr>sr_freq_idx = 100, sr_snr = 5, sr_rssi = 0xA0, sr_is_synced = 1, sr_sub_sys_id = 0\<rparr>"
  let ?b = "node_of 7 \<lparr>sr_freq_idx = 101, sr_snr = 9, sr_rssi = 0xB0, sr_is_synced = 1, sr_sub_sys_id = 0\<rparr>"
  have "entries s' ps = [?a, ?b] \<or> entries s' ps = [?b, ?a]"
    using s'(3) by (auto simp: two_gateways_def add_mset_eq_single dest!: mset_pair)
  then show ?thesis using s' by (auto simp: by_strength_def node_of_def)
qed


lemma takeWhile_full: "length (takeWhile q xs) = length xs \<longleftrightarrow> (\<forall>x \<in> set xs. q x)"
  by (induction xs) auto


text \<open>The gateway that is tried. From every reachable state before a connection with a non-empty
  list, one step tells the radio library the subsystem and the frequency of the first entry of the
  list, in this order and last of all calls, and goes on to connect.
\<close>

lemma manager_tries_first:
  assumes "mgr_reach e s" "library_sizes e" "manager_state s = AT_WIOTA_MANAGER_PROCESS_INIT" "ring s ps" "ps \<noteq> []"
  shows "\<exists>s' h. manager_step e s = Some s' \<and> manager_state s' = AT_WIOTA_MANAGER_PROCESS_RUN \<and>
    entries s' ps = entries s ps \<and>
    hist s' = C_wiota (W_set_freq_info (freq (hd (entries s ps)))) #
      C_wiota (W_set_system_config ((e_system_config e h)\<lparr>cfg_subsystemid := subsystem_id (hd (entries s ps))\<rparr>)) # h"
proof -
  obtain qs where i: "task_inv qs s" using reach_inv[OF assms(1,2)] by blast
  then have "qs = ps" using ring_unique[of s qs ps] assms(4) by (simp add: task_inv_def mgr_inv_def)
  then show ?thesis
    using init_step_ok[OF i assms(3,2)] assms(3,5) by (auto simp: manager_step_def entries_def hd_map)
qed

lemma manager_tries_first_witness:
  "\<exists>s s' ps h. after_steps 1 two_gateways = Some s \<and> manager_step two_gateways s = Some s' \<and>
     hist s' = C_wiota (W_set_freq_info (freq (hd (entries s ps)))) #
      C_wiota (W_set_system_config ((e_system_config two_gateways h)\<lparr>cfg_subsystemid := subsystem_id (hd (entries s ps))\<rparr>)) # h"
proof -
  have "case after_steps 1 two_gateways of None \<Rightarrow> False
      | Some s \<Rightarrow> manager_state s = AT_WIOTA_MANAGER_PROCESS_INIT \<and> live (hist s) \<noteq> []"
    by code_simp
  then obtain s where s: "after_steps 1 two_gateways = Some s" "manager_state s = AT_WIOTA_MANAGER_PROCESS_INIT"
      "live (hist s) \<noteq> []"
    by (cases "after_steps 1 two_gateways") auto
  have r: "mgr_reach two_gateways s" by (rule after_steps_reach[OF two_gateways_begin s(1)])
  obtain ps where ps: "task_inv ps s" using reach_inv[OF r two_gateways_config(1)] by blast
  then have "ring s ps" "ps \<noteq> []" using s(3) by (auto simp: task_inv_def mgr_inv_def)
  from manager_tries_first[OF r two_gateways_config(1) s(2) this] show ?thesis using s(1) by blast
qed

text \<open>A connection that fails. From every reachable state in which the task connects, when the
  library does not synchronise, three steps later the task is back at scanning with an empty list:
  every other candidate of the scan is thrown away untried. On the way the task read every node of
  the list after it had been freed.
\<close>

lemma manager_gives_up_list:
  assumes "mgr_reach e s" "library_sizes e" "manager_state s = AT_WIOTA_MANAGER_PROCESS_RUN" "\<And>h. e_wait_sync e h \<noteq> 0"
  shows "\<exists>ps s1 s2 s3. ring s ps \<and> ps \<noteq> [] \<and>
    manager_step e s = Some s1 \<and> manager_step e s1 = Some s2 \<and> manager_step e s2 = Some s3 \<and>
    manager_state s3 = AT_WIOTA_MANAGER_PROCESS_SCAN \<and> ring s3 [] \<and> live (hist s3) = [] \<and>
    stale_reads s3 = stale_reads s + length ps"
proof -
  obtain ps where i: "task_inv ps s" using reach_inv[OF assms(1,2)] by blast
  have ps: "ring s ps" "ps \<noteq> []" using i assms(3) by (auto simp: task_inv_def mgr_inv_def)
  obtain s1 where s1: "manager_run_step e s = Some s1" "task_inv ps s1" "stale_reads s1 = stale_reads s"
      "manager_state s1 = AT_WIOTA_MANAGER_PROCESS_EXIT"
    using run_step_ok[OF i assms(3), of e] assms(4) by (auto simp: at_wiota_manager_run_def Let_def)
  obtain s2 where s2: "manager_exit_step s1 = Some s2" "task_inv [] s2" "manager_state s2 = AT_WIOTA_MANAGER_PROCESS_INIT"
      "stale_reads s2 = stale_reads s + length ps"
    using exit_step_ok[OF s1(2,4)] s1(3) by auto
  obtain s3 where s3: "manager_init_step e s2 = Some s3" "task_inv [] s3" "manager_state s3 = AT_WIOTA_MANAGER_PROCESS_SCAN"
      "stale_reads s3 = stale_reads s + length ps"
    using init_step_ok[OF s2(2,3) assms(2)] s2(4) by auto
  have "manager_step e s = Some s1" "manager_step e s1 = Some s2" "manager_step e s2 = Some s3"
    using s1(1,4) s2(1,3) s3(1) assms(3) by (simp_all add: manager_step_def)
  moreover have "ring s3 []" "live (hist s3) = []" using s3(2) by (simp_all add: task_inv_def mgr_inv_def)
  ultimately show ?thesis using ps s3(3,4) by blast
qed

lemma manager_gives_up_list_witness:
  "\<exists>s s1 s2 s3. after_steps 2 two_gateways = Some s \<and> length (live (hist s)) = 2 \<and>
    manager_step two_gateways s = Some s1 \<and> manager_step two_gateways s1 = Some s2 \<and> manager_step two_gateways s2 = Some s3 \<and>
    manager_state s3 = AT_WIOTA_MANAGER_PROCESS_SCAN \<and> live (hist s3) = []"
proof -
  have "case after_steps 2 two_gateways of None \<Rightarrow> False
      | Some s \<Rightarrow> manager_state s = AT_WIOTA_MANAGER_PROCESS_RUN \<and> length (live (hist s)) = 2"
    by code_simp
  then obtain s where s: "after_steps 2 two_gateways = Some s" "manager_state s = AT_WIOTA_MANAGER_PROCESS_RUN"
      "length (live (hist s)) = 2"
    by (cases "after_steps 2 two_gateways") auto
  have r: "mgr_reach two_gateways s" by (rule after_steps_reach[OF two_gateways_begin s(1)])
  have "e_wait_sync two_gateways h \<noteq> 0" for h by (simp add: two_gateways_def)
  from manager_gives_up_list[OF r two_gateways_config(1) s(2) this] show ?thesis using s(1,3) by blast
qed

text \<open>
  The list of subsystems. The configuration holds eight subsystem identifiers; if one of them is
  an end mark (0 or 0xFFFFFFFF) the loop counts the identifiers in front of the first one and
  falls back to the single identifier of the configuration if there is none, and otherwise, and only
  then, it reads behind the end of the list.
\<close>

lemma subsystem_list_counts:
  fixes e :: env and s :: mgr
  defines "cfg \<equiv> e_system_config e (hist s)"
  assumes "length (cfg_subsystemid_list cfg) = 8"
  shows "at_wiota_get_subsystem_id_list e s =
    (let l = cfg_subsystemid_list cfg; n = length (takeWhile (\<lambda>x. x \<noteq> 0 \<and> x \<noteq> NOT 0) l)
     in if n = 8 then None
        else if n = 0 then Some (if cfg_subsystemid cfg \<noteq> 0 \<and> cfg_subsystemid cfg \<noteq> NOT 0 then 1 else 0, l[0 := cfg_subsystemid cfg])
        else Some (n, l))"
proof -
  let ?l = "cfg_subsystemid_list cfg"
  have "subsystem_loop ?l 0 32 = (if \<exists>x \<in> set ?l. x = 0 \<or> x = NOT 0
      then Some (length (takeWhile (\<lambda>x. x \<noteq> 0 \<and> x \<noteq> NOT 0) ?l)) else None)"
    using assms(2) by (intro subsystem_loop_eq) auto
  moreover have "(\<exists>x \<in> set ?l. x = 0 \<or> x = NOT 0) \<longleftrightarrow> length (takeWhile (\<lambda>x. x \<noteq> 0 \<and> x \<noteq> NOT 0) ?l) \<noteq> 8"
    using takeWhile_full[of "\<lambda>x. x \<noteq> 0 \<and> x \<noteq> NOT 0" ?l] assms(2) by auto
  moreover have "wr (replicate 8 0) 0 ?l = Some ?l" using assms(2) by (simp add: wr_def)
  moreover have "?l[0 := y] ! 0 = y" for y using assms(2) by simp
  ultimately show ?thesis
    by (simp add: at_wiota_get_subsystem_id_list_def Let_def cfg_def[symmetric])
qed

theorem subsystem_list_counts_witness:
  "at_wiota_get_subsystem_id_list two_gateways init_mgr = Some (1, 0x21456981 # replicate 7 0xFFFFFFFF)"
proof -
  have c: "e_system_config two_gateways h = default_config" for h by (simp add: two_gateways_def good_env_def)
  have l: "length (cfg_subsystemid_list (e_system_config two_gateways (hist init_mgr))) = 8"
    by (simp add: c default_config_def)
  have "(let l = cfg_subsystemid_list default_config; n = length (takeWhile (\<lambda>x. x \<noteq> 0 \<and> x \<noteq> NOT 0) l)
     in if n = 8 then None
        else if n = 0 then Some (if cfg_subsystemid default_config \<noteq> 0 \<and> cfg_subsystemid default_config \<noteq> NOT 0
          then 1 else 0, l[0 := cfg_subsystemid default_config])
        else Some (n, l)) = Some (1, 0x21456981 # replicate 7 0xFFFFFFFF)" by code_simp
  then show ?thesis using subsystem_list_counts[OF l] by (simp only: c)
qed

end
