(* ===== verification/QuickConnect.thy ===== *)
theory QuickConnect
  imports AutoManager
begin

text \<open>
  Quick connect, \<^verbatim>\<open>applications/quick_connect/quick_connect.c\<close>: a task that scans one frequency,
  remembers the strongest gateway and connects to it, started and stopped from another thread.

  The task and the two interface functions are cut where they block: before the radio runs (a delay
  of 50 ms), in the scan, after the scan (a delay of 200 ms), and after the radio was left (100 ms).
  The pieces are composed to the functions of the source, and the system interleaves them.
\<close>

section \<open>State\<close>

datatype e_qc_state = QC_DEF | QC_INIT | QC_RUN | QC_EXIT

definition QC_SCAN_TIMEOUT :: u32 where "QC_SCAN_TIMEOUT = 40000"
definition QC_MODE_MAX :: nat where "QC_MODE_MAX = 5"

record s_qc_cfg =
  symbol_len :: u8
  dlul_ratio :: u8
  group_num :: u8
  qc_mcs :: u8
  up_pow :: u8
  down_pow :: u8

definition qc_cfg :: "s_qc_cfg list" where
  "qc_cfg =
    [\<lparr>symbol_len = 0, dlul_ratio = 1, group_num = 1, qc_mcs = 2, up_pow = 42, down_pow = 44\<rparr>,
     \<lparr>symbol_len = 1, dlul_ratio = 0, group_num = 0, qc_mcs = 3, up_pow = 42, down_pow = 44\<rparr>,
     \<lparr>symbol_len = 1, dlul_ratio = 1, group_num = 1, qc_mcs = 2, up_pow = 42, down_pow = 44\<rparr>,
     \<lparr>symbol_len = 2, dlul_ratio = 0, group_num = 0, qc_mcs = 0, up_pow = 42, down_pow = 44\<rparr>,
     \<lparr>symbol_len = 3, dlul_ratio = 0, group_num = 0, qc_mcs = 0, up_pow = 42, down_pow = 44\<rparr>]"

text \<open>The static variables of the file, the state of the AT server, and the locals of the task.\<close>

record qc = sys +
  p_mutex_qc_state :: bool
  p_mutex_qc_run :: bool
  qc_wiota_state :: e_qc_state
  qc_auto_run :: u8
  best_freq :: uc_freq_scan_result
  cur_mode :: nat
  cur_freq :: u16
  qc_at_state :: at_wiota_state
  connect_flag :: bool
  cnt :: u32

definition init_qc :: qc where
  "init_qc = \<lparr>hist = [], p_mutex_qc_state = False, p_mutex_qc_run = False, qc_wiota_state = QC_EXIT, qc_auto_run = 0,
     best_freq = \<lparr>sr_freq_idx = 0, sr_snr = 0, sr_rssi = 0, sr_is_synced = 0, sr_sub_sys_id = 0\<rparr>,
     cur_mode = 1, cur_freq = 100, qc_at_state = AT_WIOTA_DEFAULT, connect_flag = False, cnt = 0\<rparr>"

text \<open>A mutex that could not be created is a null pointer, which \<^verbatim>\<open>rt_mutex_take\<close> asserts not to get.\<close>

definition quick_connect_init :: "env \<Rightarrow> qc \<Rightarrow> qc" where
  "quick_connect_init e s =
     (let s = emit (C_ipc I_mutex_create) s; s = s\<lparr>p_mutex_qc_state := e_mutex_create e (hist s)\<rparr>
      in if \<not> p_mutex_qc_state s then s
         else (let s = emit (C_ipc I_mutex_create) s in s\<lparr>p_mutex_qc_run := e_mutex_create e (hist s)\<rparr>))"

definition set_qc_wiota_state :: "e_qc_state \<Rightarrow> qc \<Rightarrow> qc option" where
  "set_qc_wiota_state st s = (if p_mutex_qc_state s then Some (s\<lparr>qc_wiota_state := st\<rparr>) else None)"

definition set_qc_auto_run :: "qc \<Rightarrow> qc option" where
  "set_qc_auto_run s = (if p_mutex_qc_run s then Some (s\<lparr>qc_auto_run := 1\<rparr>) else None)"

definition clr_qc_auto_run :: "qc \<Rightarrow> qc option" where
  "clr_qc_auto_run s = (if p_mutex_qc_run s then Some (s\<lparr>qc_auto_run := 0\<rparr>) else None)"

definition qc_set_at_state :: "at_wiota_state \<Rightarrow> qc \<Rightarrow> qc" where
  "qc_set_at_state st s = s\<lparr>qc_at_state := st\<rparr>"

section \<open>The best gateway\<close>

definition cleared_freq :: uc_freq_scan_result where
  "cleared_freq = \<lparr>sr_freq_idx = 0xFF, sr_snr = -126, sr_rssi = -126, sr_is_synced = 0, sr_sub_sys_id = 0\<rparr>"

definition quick_clr_best_freq :: "qc \<Rightarrow> qc" where
  "quick_clr_best_freq s = s\<lparr>best_freq := cleared_freq\<rparr>"

definition quick_set_best_freq :: "uc_freq_scan_result \<Rightarrow> qc \<Rightarrow> qc" where
  "quick_set_best_freq r s = s\<lparr>best_freq := r\<rparr>"

fun scan_results :: "uc_freq_scan_result list \<Rightarrow> qc \<Rightarrow> qc" where
  "scan_results [] s = s"
| "scan_results (r # rs) s =
     (let s = (if sr_is_synced r = 1 \<and> sint (sr_rssi r) \<ge> sint (sr_rssi (best_freq s)) \<and> sr_rssi r \<noteq> -126
               then quick_set_best_freq r s else s);
          s = (if qc_auto_run s = 1
               then emit (C_at (At_println ''+QCCONN'' [uint (sr_freq_idx r), sint (sr_rssi r), uint (sr_is_synced r)])) s
               else s)
      in scan_results rs s)"

section \<open>Interface\<close>

definition leave_radio :: "qc \<Rightarrow> qc option" where
  "leave_radio s = set_qc_wiota_state QC_EXIT (qc_set_at_state AT_WIOTA_EXIT (emit (C_wiota W_exit) s))"

definition leave_if_running :: "qc \<Rightarrow> qc option" where
  "leave_if_running s = (if qc_wiota_state s \<noteq> QC_EXIT then leave_radio s else Some s)"

text \<open>
  The frequency is 16 bits wide and passed on as a byte. The result says whether the start goes on
  after the delay.
\<close>

definition start_begin :: "env \<Rightarrow> u16 \<Rightarrow> nat \<Rightarrow> qc \<Rightarrow> (bool \<times> qc) option" where
  "start_begin e f mode s =
     (if mode \<ge> QC_MODE_MAX then Some (False, s)
      else
        (let s = emit (C_wiota (W_set_freq_info (ucast f))) s
         in if \<not> e_set_freq_ok e (hist s) then Some (False, s)
            else do {
              s \<leftarrow> clr_qc_auto_run (s\<lparr>cur_freq := f, cur_mode := mode\<rparr>);
              s' \<leftarrow> leave_if_running s;
              Some (True, if qc_wiota_state s \<noteq> QC_EXIT then emit (C_os (O_thread_mdelay 100)) s' else s') }))"

definition start_end :: "qc \<Rightarrow> qc option" where
  "start_end s = set_qc_auto_run (quick_clr_best_freq s)"

definition wiota_quick_connect_start :: "env \<Rightarrow> u16 \<Rightarrow> nat \<Rightarrow> qc \<Rightarrow> (int \<times> qc) option" where
  "wiota_quick_connect_start e f mode s =
     do { (go, s) \<leftarrow> start_begin e f mode s;
          if go then do { s \<leftarrow> start_end s; Some (0, s) } else Some (-1, s) }"

definition wiota_quick_connect_stop :: "qc \<Rightarrow> (int \<times> qc) option" where
  "wiota_quick_connect_stop s =
     do { s \<leftarrow> clr_qc_auto_run s;
          s' \<leftarrow> leave_if_running s;
          Some (0, if qc_wiota_state s \<noteq> QC_EXIT then emit (C_os (O_thread_mdelay 100)) s' else s') }"

section \<open>The scan\<close>

text \<open>\<^verbatim>\<open>str_to_16\<close>: other characters count as the digit 0.\<close>

definition hex_value :: "u8 \<Rightarrow> u32" where
  "hex_value c =
     (if 0x30 \<le> c \<and> c \<le> 0x39 then ucast c - 0x30
      else if 0x61 \<le> c \<and> c \<le> 0x66 then ucast c - 0x61 + 10
      else if 0x41 \<le> c \<and> c \<le> 0x46 then ucast c - 0x41 + 10 else 0)"

fun str_to_16 :: "u8 list \<Rightarrow> u32 \<Rightarrow> u32 option" where
  "str_to_16 [] n = None"
| "str_to_16 (c # cs) n = (if c = 0 then Some n else str_to_16 cs (n * 16 + hex_value c))"

definition quick_scan_begin :: "env \<Rightarrow> qc \<Rightarrow> qc option" where
  "quick_scan_begin e s =
     do { s \<leftarrow> leave_if_running s;
          s \<leftarrow> set_qc_wiota_state QC_INIT (emit (C_wiota W_init) s);
          let s = quick_clr_best_freq s;
          guard (cur_mode s < QC_MODE_MAX);
          let c = qc_cfg ! cur_mode s;
          let config = (e_system_config e (hist s))\<lparr>cfg_freq_idx := ucast (cur_freq s), cfg_symbol_length := symbol_len c,
                cfg_dlul_ratio := dlul_ratio c, cfg_group_number := group_num c, cfg_ap_tx_power := down_pow c - 20\<rparr>;
          let s = emit (C_wiota W_save_static_info) (emit (C_wiota (W_set_system_config config)) s);
          m \<leftarrow> wr (replicate 19 0) 0 (e_module_id e (hist s));
          userid \<leftarrow> str_to_16 m 0;
          let s = emit (C_wiota (W_set_userid userid 4)) s;
          let s = emit (C_at (At_println ''+QCSTART''
                [uint (e_userid e (hist s)), uint (cur_freq s), uint (cfg_symbol_length config), uint (cfg_dlul_ratio config),
                 uint (cfg_group_number config), sint (up_pow c) - 20, sint (cfg_ap_tx_power config), uint (qc_mcs c)])) s;
          Some (emit (C_os (O_thread_mdelay 50)) s) }"

text \<open>The first half of \<^verbatim>\<open>quick_freq_scan_op\<close> ends in the scan, the second half handles its results.\<close>

definition scan_request :: "env \<Rightarrow> qc \<Rightarrow> qc" where
  "scan_request e s =
     (let f = cfg_freq_idx (e_system_config e (hist s))
      in emit (C_wiota (W_scan_freq [if f > 200 then 100 else f] QC_SCAN_TIMEOUT)) s)"

definition scan_reply :: "env \<Rightarrow> qc \<Rightarrow> op_result \<times> qc" where
  "scan_reply e s =
     (case e_scan_freq e (hist s) of
        (UC_OP_SUCC, rs) \<Rightarrow>
          (let p = length (hist s); s = emit (C_malloc p (8 * length rs)) s
           in (UC_OP_SUCC, rt_free (Some p) (scan_results rs s)))
      | (r, rs) \<Rightarrow> (r, s))"

definition quick_scan_run :: "env \<Rightarrow> qc \<Rightarrow> qc option" where
  "quick_scan_run e s =
     do { s \<leftarrow> set_qc_wiota_state QC_RUN (qc_set_at_state AT_WIOTA_RUN (emit (C_wiota W_run) s));
          Some (scan_request e s) }"

definition quick_scan_end :: "env \<Rightarrow> qc \<Rightarrow> (op_result \<times> qc) option" where
  "quick_scan_end e s =
     do { let (res, s) = scan_reply e s;
          s \<leftarrow> leave_radio s;
          Some (res, s) }"

definition quick_scan :: "env \<Rightarrow> qc \<Rightarrow> (op_result \<times> qc) option" where
  "quick_scan e s =
     do { s \<leftarrow> quick_scan_begin e s;
          s \<leftarrow> quick_scan_run e s;
          quick_scan_end e s }"

section \<open>The task\<close>

definition open_scanned :: "env \<Rightarrow> qc \<Rightarrow> qc option" where
  "open_scanned e s =
     do { (res, s) \<leftarrow> quick_scan_end e s;
          s \<leftarrow> leave_if_running s;
          Some (emit (C_os (O_thread_mdelay 200)) s) }"

definition open_connect :: "qc \<Rightarrow> qc option" where
  "open_connect s =
     (if sr_freq_idx (best_freq s) \<noteq> 0xFF then
        do { s \<leftarrow> set_qc_wiota_state QC_INIT (emit (C_wiota W_init) s);
             let s = emit (C_wiota W_run) (emit (C_wiota (W_set_freq_info (sr_freq_idx (best_freq s)))) s);
             let s = emit (C_setup (S_register_recv_cb CB_wiota_recv)) (emit (C_setup (S_register_recv_cb CB_wiota_recv)) s);
             s \<leftarrow> set_qc_wiota_state QC_RUN (qc_set_at_state AT_WIOTA_RUN s);
             Some (emit (C_wiota W_connect) s) }
      else Some s)"

definition quick_open_wiota :: "env \<Rightarrow> qc \<Rightarrow> qc option" where
  "quick_open_wiota e s =
     do { s \<leftarrow> quick_scan_begin e s;
          s \<leftarrow> quick_scan_run e s;
          s \<leftarrow> open_scanned e s;
          open_connect s }"

text \<open>The loop of the task: the counter, and every tenth time what depends on the state of the radio.\<close>

definition tick_begin :: "env \<Rightarrow> qc \<Rightarrow> wiota_status option \<times> qc" where
  "tick_begin e s =
     (let s = s\<lparr>cnt := cnt s + 1\<rparr>
      in if cnt s mod 10 = 0
         then (let (st, s) = ask Q_state (e_state e) s in (Some st, s))
         else (None, s))"

definition opens :: "wiota_status option \<Rightarrow> qc \<Rightarrow> bool" where
  "opens st s \<longleftrightarrow> st \<noteq> None \<and> st \<noteq> Some UC_STATUS_SYNC \<and> qc_auto_run s = 1"

definition report_connected :: "env \<Rightarrow> qc \<Rightarrow> qc option" where
  "report_connected e s =
     (if connect_flag s then Some s
      else
        (let s = s\<lparr>connect_flag := True\<rparr>
         in if qc_auto_run s = 1 then
              do { guard (cur_mode s < QC_MODE_MAX);
                   let c = qc_cfg ! cur_mode s;
                   let s = emit (C_wiota (W_set_data_rate 0 (qc_mcs c))) (emit (C_wiota (W_set_cur_power (up_pow c - 20))) s);
                   Some (emit (C_at (At_println ''+QCRESULT'' [uint (e_userid e (hist s)), uint (sr_freq_idx (best_freq s)),
                           sint (sr_rssi (best_freq s))])) s) }
            else Some s))"

definition tick_end :: "env \<Rightarrow> wiota_status option \<Rightarrow> qc \<Rightarrow> qc option" where
  "tick_end e st s =
     do { s \<leftarrow> (case st of
                   None \<Rightarrow> Some s
                 | Some st \<Rightarrow>
                     do { s \<leftarrow> (if st = UC_STATUS_SYNC then report_connected e s else Some (s\<lparr>connect_flag := False\<rparr>));
                          Some (s\<lparr>cnt := cnt s + 1\<rparr>) });
          Some (emit (C_os (O_thread_mdelay 100)) s) }"

text \<open>One round of the loop that nothing interrupts.\<close>

definition quick_connect_round :: "env \<Rightarrow> qc \<Rightarrow> qc option" where
  "quick_connect_round e s =
     do { let (st, s) = tick_begin e s;
          s \<leftarrow> (if opens st s then quick_open_wiota e s else Some s);
          tick_end e st s }"

definition quick_connect_task_init :: "env \<Rightarrow> qc \<Rightarrow> bool \<times> qc" where
  "quick_connect_task_init e s =
     (let s = emit (C_os O_thread_create) s
      in if e_thread_create e (hist s) then (True, emit (C_os O_thread_startup) s) else (False, s))"

section \<open>The task and the calls of another thread\<close>

text \<open>
  Where the task is blocked, with the state of the radio that its round began with, and whether the
  other thread is in the delay of a start. In a polite system the other thread calls only between two
  rounds.
\<close>

datatype qc_pc =
  Q_idle | Q_configured "wiota_status option" | Q_scanning "wiota_status option" | Q_scanned "wiota_status option"

type_synonym qc_system = "qc \<times> qc_pc \<times> bool"

inductive qc_step :: "bool \<Rightarrow> env \<Rightarrow> qc_system \<Rightarrow> qc_system \<Rightarrow> bool" for polite e where
  tick: "tick_begin e s = (st, s1) \<Longrightarrow> \<not> opens st s1 \<Longrightarrow> tick_end e st s1 = Some s2 \<Longrightarrow>
    qc_step polite e (s, Q_idle, b) (s2, Q_idle, b)"
| configure: "tick_begin e s = (st, s1) \<Longrightarrow> opens st s1 \<Longrightarrow> quick_scan_begin e s1 = Some s2 \<Longrightarrow>
    qc_step polite e (s, Q_idle, b) (s2, Q_configured st, b)"
| scan: "quick_scan_run e s = Some s1 \<Longrightarrow> qc_step polite e (s, Q_configured st, b) (s1, Q_scanning st, b)"
| scanned: "open_scanned e s = Some s1 \<Longrightarrow> qc_step polite e (s, Q_scanning st, b) (s1, Q_scanned st, b)"
| connect: "open_connect s = Some s1 \<Longrightarrow> tick_end e st s1 = Some s2 \<Longrightarrow>
    qc_step polite e (s, Q_scanned st, b) (s2, Q_idle, b)"
| start: "(polite \<Longrightarrow> pc = Q_idle) \<Longrightarrow> start_begin e f mode s = Some (go, s1) \<Longrightarrow>
    qc_step polite e (s, pc, False) (s1, pc, go)"
| started: "(polite \<Longrightarrow> pc = Q_idle) \<Longrightarrow> start_end s = Some s1 \<Longrightarrow> qc_step polite e (s, pc, True) (s1, pc, False)"
| stop: "(polite \<Longrightarrow> pc = Q_idle) \<Longrightarrow> wiota_quick_connect_stop s = Some (r, s1) \<Longrightarrow>
    qc_step polite e (s, pc, False) (s1, pc, False)"

inductive qc_reach :: "bool \<Rightarrow> env \<Rightarrow> qc_system \<Rightarrow> bool" for polite e where
  begins: "qc_reach polite e (quick_connect_init e init_qc, Q_idle, False)"
| step: "qc_reach polite e c \<Longrightarrow> qc_step polite e c c' \<Longrightarrow> qc_reach polite e c'"

end
