(* ===== verification/QuickConnectInv.thy ===== *)
theory QuickConnectInv
  imports QuickConnect HeapSafety
begin

text \<open>
  Properties of quick connect: the choice of the strongest gateway, the sessions of the radio, and
  what a stop does to a scan that is under way.
\<close>

section \<open>Sessions of the radio\<close>

text \<open>Whether the radio library is initialised; \<open>None\<close> when it was initialised or left twice.\<close>

fun radio_on :: "call list \<Rightarrow> bool option" where
  "radio_on [] = Some False"
| "radio_on (C_wiota W_init # h) = (if radio_on h = Some False then Some True else None)"
| "radio_on (C_wiota W_exit # h) = (if radio_on h = Some True then Some False else None)"
| "radio_on (_ # h) = radio_on h"

definition session_ok :: "qc \<Rightarrow> bool" where
  "session_ok s \<longleftrightarrow> radio_on (hist s) = Some (qc_wiota_state s \<noteq> QC_EXIT) \<and> cur_mode s < QC_MODE_MAX"

fun polite_inv :: "qc_system \<Rightarrow> bool" where
  "polite_inv (s, pc, b) \<longleftrightarrow> session_ok s \<and>
     (case pc of
        Q_idle \<Rightarrow> True
      | Q_configured st \<Rightarrow> qc_wiota_state s = QC_INIT
      | Q_scanning st \<Rightarrow> qc_wiota_state s = QC_RUN
      | Q_scanned st \<Rightarrow> qc_wiota_state s = QC_EXIT)"

lemma scan_results_frame:
  "radio_on (hist (scan_results rs s)) = radio_on (hist s) \<and> qc_wiota_state (scan_results rs s) = qc_wiota_state s \<and>
   cur_mode (scan_results rs s) = cur_mode s \<and> p_mutex_qc_state (scan_results rs s) = p_mutex_qc_state s \<and>
   qc_auto_run (scan_results rs s) = qc_auto_run s"
  by (induction rs s rule: scan_results.induct) (simp_all add: Let_def quick_set_best_freq_def emit_def)

lemma scan_reply_frame:
  assumes "scan_reply e s = (r, s')"
  shows "radio_on (hist s') = radio_on (hist s) \<and> qc_wiota_state s' = qc_wiota_state s \<and> cur_mode s' = cur_mode s \<and>
    p_mutex_qc_state s' = p_mutex_qc_state s \<and> qc_auto_run s' = qc_auto_run s"
  using assms scan_results_frame
  by (auto simp: scan_reply_def Let_def rt_free_def emit_def split: prod.splits op_result.splits)

lemma leave_if_running_ok:
  "session_ok s \<Longrightarrow> leave_if_running s = Some s' \<Longrightarrow> session_ok s' \<and> qc_wiota_state s' = QC_EXIT \<and> cur_mode s' = cur_mode s"
  by (auto simp: leave_if_running_def leave_radio_def set_qc_wiota_state_def qc_set_at_state_def session_ok_def emit_def
      split: if_splits)

lemma quick_scan_begin_ok:
  assumes "session_ok s" "quick_scan_begin e s = Some s'"
  shows "session_ok s' \<and> qc_wiota_state s' = QC_INIT"
proof -
  obtain s1 where s1: "leave_if_running s = Some s1" using assms(2) by (auto simp: quick_scan_begin_def bind_eq_Some_conv)
  have "session_ok s1" "qc_wiota_state s1 = QC_EXIT" using leave_if_running_ok[OF assms(1) s1] by simp_all
  then show ?thesis
    using assms(2) s1
    by (auto simp: quick_scan_begin_def bind_eq_Some_conv Let_def set_qc_wiota_state_def session_ok_def
        quick_clr_best_freq_def emit_def split: if_splits)
qed

lemma quick_scan_run_ok:
  "session_ok s \<Longrightarrow> qc_wiota_state s \<noteq> QC_EXIT \<Longrightarrow> quick_scan_run e s = Some s' \<Longrightarrow>
     session_ok s' \<and> qc_wiota_state s' = QC_RUN"
  by (auto simp: quick_scan_run_def set_qc_wiota_state_def session_ok_def qc_set_at_state_def scan_request_def Let_def emit_def
      split: if_splits)

lemma open_scanned_ok:
  assumes "session_ok s" "qc_wiota_state s = QC_RUN" "open_scanned e s = Some s'"
  shows "session_ok s' \<and> qc_wiota_state s' = QC_EXIT"
proof -
  obtain r s1 where s1: "scan_reply e s = (r, s1)" by fastforce
  then show ?thesis
    using assms scan_reply_frame[OF s1]
    by (auto simp: open_scanned_def quick_scan_end_def leave_radio_def leave_if_running_def set_qc_wiota_state_def
        qc_set_at_state_def session_ok_def emit_def split: if_splits)
qed

lemma open_connect_ok:
  "session_ok s \<Longrightarrow> qc_wiota_state s = QC_EXIT \<Longrightarrow> open_connect s = Some s' \<Longrightarrow> session_ok s'"
  by (auto simp: open_connect_def set_qc_wiota_state_def session_ok_def qc_set_at_state_def Let_def emit_def split: if_splits)

lemma tick_end_ok: "session_ok s \<Longrightarrow> tick_end e st s = Some s' \<Longrightarrow> session_ok s'"
  by (auto simp: tick_end_def report_connected_def session_ok_def Let_def emit_def split: if_splits option.splits)

lemma tick_begin_ok: "session_ok s \<Longrightarrow> tick_begin e s = (st, s') \<Longrightarrow> session_ok s'"
  by (auto simp: tick_begin_def session_ok_def Let_def ask_def emit_def split: if_splits)

lemma radio_on_skip [simp]: "c \<noteq> C_wiota W_init \<Longrightarrow> c \<noteq> C_wiota W_exit \<Longrightarrow> radio_on (c # h) = radio_on h"
  by (cases "c # h" rule: radio_on.cases) auto

lemma session_ok_emit [simp]: "c \<noteq> C_wiota W_init \<Longrightarrow> c \<noteq> C_wiota W_exit \<Longrightarrow> session_ok (emit c s) = session_ok s"
  by (simp add: session_ok_def emit_def)

lemma clr_auto_run_ok: "clr_qc_auto_run s = Some s' \<Longrightarrow> session_ok s \<Longrightarrow> session_ok s'"
  by (auto simp: clr_qc_auto_run_def session_ok_def split: if_splits)

lemma start_begin_ok:
  assumes "session_ok s" "start_begin e f mode s = Some (go, s')"
  shows "session_ok s'"
proof (cases "mode < QC_MODE_MAX \<and> e_set_freq_ok e (C_wiota (W_set_freq_info (ucast f)) # hist s)")
  case False
  then show ?thesis using assms by (auto simp: start_begin_def Let_def split: if_splits)
next
  case True
  let ?s = "(emit (C_wiota (W_set_freq_info (ucast f))) s)\<lparr>cur_freq := f, cur_mode := mode\<rparr>"
  obtain s1 s2 where s1: "clr_qc_auto_run ?s = Some s1" "leave_if_running s1 = Some s2"
      "s' = emit (C_os (O_thread_mdelay 100)) s2 \<or> s' = s2"
    using assms(2) True by (auto simp: start_begin_def Let_def bind_eq_Some_conv)
  have "session_ok ?s" using assms(1) True by (simp add: session_ok_def emit_def)
  then have "session_ok s2" using clr_auto_run_ok[OF s1(1)] leave_if_running_ok[OF _ s1(2)] by simp
  then show ?thesis using s1(3) by auto
qed

lemma stop_ok:
  assumes "session_ok s" "wiota_quick_connect_stop s = Some (r, s')"
  shows "session_ok s'"
proof -
  obtain s1 s2 where s1: "clr_qc_auto_run s = Some s1" "leave_if_running s1 = Some s2"
      "s' = emit (C_os (O_thread_mdelay 100)) s2 \<or> s' = s2"
    using assms(2) by (auto simp: wiota_quick_connect_stop_def bind_eq_Some_conv)
  have "session_ok s2" using clr_auto_run_ok[OF s1(1) assms(1)] leave_if_running_ok[OF _ s1(2)] by simp
  then show ?thesis using s1(3) by auto
qed

lemma polite_step: "qc_step True e c c' \<Longrightarrow> polite_inv c \<Longrightarrow> polite_inv c'"
proof (induction rule: qc_step.induct)
  case (start pc f mode s go s1)
  then show ?case using start_begin_ok by simp
next
  case (started pc s s1)
  then show ?case by (auto simp: start_end_def set_qc_auto_run_def quick_clr_best_freq_def session_ok_def split: if_splits)
next
  case (stop pc s r s1)
  then show ?case using stop_ok by simp
qed (auto intro: tick_end_ok tick_begin_ok open_connect_ok
    dest: quick_scan_begin_ok[OF tick_begin_ok] quick_scan_run_ok open_scanned_ok)


text \<open>C31. Sessions of the radio. As long as the other thread calls only between two rounds of the task,
  the radio library is never initialised twice without being left and never left twice, whatever the
  radio reports; it is initialised exactly when the state of quick connect is not QC_EXIT, and it runs
  during a scan.
\<close>

theorem qc_sessions_balanced:
  assumes "qc_reach True e (s, pc, b)"
  shows "radio_on (hist s) = Some (qc_wiota_state s \<noteq> QC_EXIT) \<and>
    (case pc of Q_scanning st \<Rightarrow> qc_wiota_state s = QC_RUN | Q_scanned st \<Rightarrow> qc_wiota_state s = QC_EXIT | _ \<Rightarrow> True)"
proof -
  have "polite_inv (s, pc, b)"
    using assms
  proof (induction "(s, pc, b)" arbitrary: s pc b rule: qc_reach.induct)
    case begins
    then show ?case
      by (simp add: session_ok_def quick_connect_init_def init_qc_def QC_MODE_MAX_def Let_def emit_def)
  next
    case (step c)
    then show ?case using polite_step by (cases c) auto
  qed
  then show ?thesis by (simp add: session_ok_def split: qc_pc.splits)
qed

theorem qc_sessions_balanced_witness:
  "\<exists>s. start_begin good_env 100 3 (quick_connect_init good_env init_qc) = Some (True, s) \<and>
     radio_on (hist s) = Some (qc_wiota_state s \<noteq> QC_EXIT)"
proof -
  let ?s = "quick_connect_init good_env init_qc"
  have "start_begin good_env 100 3 ?s \<noteq> None \<and> fst (the (start_begin good_env 100 3 ?s))"
    by (simp add: start_begin_def quick_connect_init_def good_env_def init_qc_def QC_MODE_MAX_def clr_qc_auto_run_def
        leave_if_running_def Let_def emit_def)
  then obtain s where s: "start_begin good_env 100 3 ?s = Some (True, s)" by (cases "start_begin good_env 100 3 ?s") auto
  have "qc_step True good_env (?s, Q_idle, False) (s, Q_idle, True)" by (rule qc_step.start[OF _ s]) simp
  then have "qc_reach True good_env (s, Q_idle, True)" by (rule qc_reach.step[OF qc_reach.begins])
  from qc_sessions_balanced[OF this] show ?thesis using s by auto
qed

section \<open>The strongest gateway\<close>

definition heard :: "uc_freq_scan_result \<Rightarrow> bool" where
  "heard r \<longleftrightarrow> sr_is_synced r = 1 \<and> sint (sr_rssi r) > -126"

text \<open>The last of the strongest.\<close>

definition strongest :: "uc_freq_scan_result \<Rightarrow> uc_freq_scan_result list \<Rightarrow> bool" where
  "strongest b xs \<longleftrightarrow> (\<exists>ys zs. xs = ys @ b # zs \<and> (\<forall>y \<in> set ys. sint (sr_rssi y) \<le> sint (sr_rssi b)) \<and>
     (\<forall>z \<in> set zs. sint (sr_rssi z) < sint (sr_rssi b)))"

definition stronger :: "uc_freq_scan_result \<Rightarrow> uc_freq_scan_result \<Rightarrow> uc_freq_scan_result" where
  "stronger r b = (if sint (sr_rssi r) \<ge> sint (sr_rssi b) then r else b)"

lemma strongest_max: "strongest b xs \<Longrightarrow> y \<in> set xs \<Longrightarrow> sint (sr_rssi y) \<le> sint (sr_rssi b)"
  by (fastforce simp: strongest_def)

lemma strongest_mem: "strongest b xs \<Longrightarrow> b \<in> set xs"
  by (auto simp: strongest_def)

lemma strongest_snoc:
  assumes "strongest b xs" "sint (sr_rssi x) < sint (sr_rssi b)"
  shows "strongest b (xs @ [x])"
proof -
  obtain ys zs where "xs = ys @ b # zs" "\<forall>y \<in> set ys. sint (sr_rssi y) \<le> sint (sr_rssi b)"
      "\<forall>z \<in> set zs. sint (sr_rssi z) < sint (sr_rssi b)"
    using assms(1) by (auto simp: strongest_def)
  then show ?thesis using assms(2) unfolding strongest_def by (intro exI[of _ ys] exI[of _ "zs @ [x]"]) simp
qed

lemma fold_stronger:
  "(fold stronger xs b = b \<and> (\<forall>x \<in> set xs. sint (sr_rssi x) < sint (sr_rssi b))) \<or> strongest (fold stronger xs b) xs"
proof (induction xs rule: rev_induct)
  case (snoc x xs)
  let ?m = "fold stronger xs b"
  show ?case
  proof (cases "sint (sr_rssi x) \<ge> sint (sr_rssi ?m)")
    case True
    have "\<forall>y \<in> set xs. sint (sr_rssi y) \<le> sint (sr_rssi ?m)"
      using snoc by (auto intro: less_imp_le strongest_max)
    then have "strongest x (xs @ [x])"
      unfolding strongest_def using True by (intro exI[of _ xs] exI[of _ "[]"]) fastforce
    moreover have "fold stronger (xs @ [x]) b = x" using True by (simp add: stronger_def[of x])
    ultimately show ?thesis by (simp only: simp_thms)
  next
    case False
    have n: "fold stronger (xs @ [x]) b = ?m" using False by (simp add: stronger_def[of x])
    have "strongest ?m xs \<Longrightarrow> strongest ?m (xs @ [x])" using False by (intro strongest_snoc) simp_all
    then show ?thesis unfolding n using snoc False by auto
  qed
qed simp

lemma scan_results_best:
  "sint (sr_rssi (best_freq s)) \<ge> -126 \<Longrightarrow>
     best_freq (scan_results rs s) = fold stronger (filter heard rs) (best_freq s)"
proof (induction rs s rule: scan_results.induct)
  case (2 r rs s)
  let ?s = "if sr_is_synced r = 1 \<and> sint (sr_rssi r) \<ge> sint (sr_rssi (best_freq s)) \<and> sr_rssi r \<noteq> -126
     then quick_set_best_freq r s else s"
  let ?t = "if qc_auto_run ?s = 1
     then emit (C_at (At_println ''+QCCONN'' [uint (sr_freq_idx r), sint (sr_rssi r), uint (sr_is_synced r)])) ?s else ?s"
  have "sint (sr_rssi r) = -126 \<longleftrightarrow> sr_rssi r = -126"
    using signed_word_eqI[of "sr_rssi r" "-126"] by auto
  then have b: "best_freq ?t = (if heard r then stronger r (best_freq s) else best_freq s)"
    using 2(2) by (auto simp: quick_set_best_freq_def emit_def heard_def stronger_def)
  moreover have "sint (sr_rssi (best_freq ?t)) \<ge> -126"
    using 2(2) by (simp add: b heard_def stronger_def)
  moreover have "scan_results (r # rs) s = scan_results rs ?t" by (simp only: scan_results.simps Let_def)
  moreover have "fold stronger (filter heard (r # rs)) (best_freq s) = fold stronger (filter heard rs) (best_freq ?t)"
    by (simp add: b)
  ultimately show ?case using 2(1)[OF refl refl] by (simp only:)
qed simp


definition module_id_ok :: "env \<Rightarrow> bool" where
  "module_id_ok e \<longleftrightarrow> (\<forall>h. length (e_module_id e h) \<le> 19 \<and> 0 \<in> set (e_module_id e h))"

lemma str_to_16_total: "0 \<in> set cs \<Longrightarrow> str_to_16 cs n \<noteq> None"
  by (induction cs n rule: str_to_16.induct) auto

lemma leave_if_running_total:
  assumes "p_mutex_qc_state s"
  shows "\<exists>s'. leave_if_running s = Some s' \<and> p_mutex_qc_state s' \<and> qc_wiota_state s' = QC_EXIT \<and>
    cur_mode s' = cur_mode s \<and> best_freq s' = best_freq s \<and> qc_auto_run s' = qc_auto_run s"
  using assms by (auto simp: leave_if_running_def leave_radio_def set_qc_wiota_state_def qc_set_at_state_def emit_def)

lemma quick_scan_begin_total:
  assumes "p_mutex_qc_state s" "cur_mode s < QC_MODE_MAX" "module_id_ok e"
  shows "\<exists>s'. quick_scan_begin e s = Some s' \<and> p_mutex_qc_state s' \<and> best_freq s' = cleared_freq \<and>
    qc_auto_run s' = qc_auto_run s"
proof -
  obtain s1 where s1: "leave_if_running s = Some s1" "p_mutex_qc_state s1" "cur_mode s1 = cur_mode s"
      "qc_auto_run s1 = qc_auto_run s"
    using leave_if_running_total[OF assms(1)] by auto
  have m: "wr (replicate 19 0) 0 (e_module_id e h) = Some (e_module_id e h @ drop (length (e_module_id e h)) (replicate 19 0))" for h
    using assms(3) by (simp add: wr_def module_id_ok_def)
  have "\<exists>u. str_to_16 (e_module_id e h @ drop (length (e_module_id e h)) (replicate 19 0)) 0 = Some u" for h
    using str_to_16_total assms(3) by (auto simp: module_id_ok_def)
  then obtain u where "\<And>h. str_to_16 (e_module_id e h @ drop (length (e_module_id e h)) (replicate 19 0)) 0 = Some (u h)"
    by metis
  then show ?thesis
    using s1 assms(2) m
    by (auto simp: quick_scan_begin_def set_qc_wiota_state_def quick_clr_best_freq_def Let_def emit_def)
qed

lemma open_scanned_total:
  assumes "p_mutex_qc_state s" "e_scan_freq e (hist s) = (UC_OP_SUCC, rs)" "best_freq s = cleared_freq"
  shows "\<exists>s'. open_scanned e s = Some s' \<and> p_mutex_qc_state s' \<and> qc_wiota_state s' = QC_EXIT \<and>
    qc_auto_run s' = qc_auto_run s \<and>
    (filter heard rs = [] \<and> best_freq s' = cleared_freq \<or> strongest (best_freq s') (filter heard rs))"
proof -
  obtain s1 where s1: "scan_reply e s = (UC_OP_SUCC, s1)"
    "best_freq s1 = best_freq (scan_results rs (emit (C_malloc (length (hist s)) (8 * length rs)) s))"
    using assms(2) by (auto simp: scan_reply_def rt_free_def emit_def Let_def)
  have c: "sint (sr_rssi cleared_freq) = -126" by (simp add: cleared_freq_def)
  have "best_freq s1 = fold stronger (filter heard rs) cleared_freq"
    unfolding s1(2) using assms(3) c scan_results_best[of "emit (C_malloc (length (hist s)) (8 * length rs)) s" rs]
    by (simp add: emit_def)
  moreover have "\<forall>x \<in> set (filter heard rs). \<not> sint (sr_rssi x) < sint (sr_rssi cleared_freq)"
    by (auto simp: heard_def c)
  ultimately have "filter heard rs = [] \<and> best_freq s1 = cleared_freq \<or> strongest (best_freq s1) (filter heard rs)"
    using fold_stronger[of "filter heard rs" cleared_freq] by (cases "filter heard rs = []") auto
  moreover obtain s2 where "leave_radio s1 = Some s2" "p_mutex_qc_state s2" "qc_wiota_state s2 = QC_EXIT"
      "best_freq s2 = best_freq s1" "qc_auto_run s2 = qc_auto_run s"
    using scan_reply_frame[OF s1(1)] assms(1)
    by (auto simp: leave_radio_def set_qc_wiota_state_def qc_set_at_state_def emit_def)
  ultimately show ?thesis
    using s1(1) by (auto simp: open_scanned_def quick_scan_end_def leave_if_running_def emit_def)
qed

text \<open>C30. The gateway that quick connect takes. An uninterrupted scan and connection does not fault if
  the mutex exists, the mode is one of the five and the module identifier is a string of at most 18
  characters. If the scan hears a gateway in synchronisation (stronger than -126), the radio is set to
  the frequency of the strongest one, the last of several, and connects; otherwise it does not connect.
\<close>

theorem qc_connects_to_strongest:
  assumes "p_mutex_qc_state s" "cur_mode s < QC_MODE_MAX" "module_id_ok e" "\<And>h. e_scan_freq e h = (UC_OP_SUCC, rs)"
    and "\<And>r. r \<in> set rs \<Longrightarrow> sr_freq_idx r \<noteq> 0xFF"
  shows "\<exists>s'. quick_open_wiota e s = Some s' \<and>
    (if filter heard rs = [] then qc_wiota_state s' = QC_EXIT \<and> (\<exists>h. hist s' = C_os (O_thread_mdelay 200) # C_wiota W_exit # h)
     else qc_wiota_state s' = QC_RUN \<and> (\<exists>b h. strongest b (filter heard rs) \<and>
       hist s' = C_wiota W_connect # C_setup (S_register_recv_cb CB_wiota_recv) # C_setup (S_register_recv_cb CB_wiota_recv) #
         C_wiota W_run # C_wiota (W_set_freq_info (sr_freq_idx b)) # C_wiota W_init # h))"
proof -
  obtain s1 where s1: "quick_scan_begin e s = Some s1" "p_mutex_qc_state s1" "best_freq s1 = cleared_freq"
    using quick_scan_begin_total[OF assms(1-3)] by blast
  obtain s2 where s2: "quick_scan_run e s1 = Some s2" "p_mutex_qc_state s2" "best_freq s2 = cleared_freq" "qc_wiota_state s2 = QC_RUN"
    using s1(2,3) by (auto simp: quick_scan_run_def set_qc_wiota_state_def qc_set_at_state_def scan_request_def Let_def emit_def)
  obtain s3 where s3: "open_scanned e s2 = Some s3" "p_mutex_qc_state s3" "qc_wiota_state s3 = QC_EXIT"
      "filter heard rs = [] \<and> best_freq s3 = cleared_freq \<or> strongest (best_freq s3) (filter heard rs)"
    using open_scanned_total[OF s2(2) assms(4) s2(3)] by blast
  have h3: "\<exists>h. hist s3 = C_os (O_thread_mdelay 200) # C_wiota W_exit # h"
    using s3(1) by (auto simp: open_scanned_def quick_scan_end_def leave_radio_def leave_if_running_def set_qc_wiota_state_def
        qc_set_at_state_def bind_eq_Some_conv Let_def emit_def split: if_splits prod.splits)
  have op: "quick_open_wiota e s = open_connect s3" using s1(1) s2(1) s3(1) by (simp add: quick_open_wiota_def)
  show ?thesis
  proof (cases "filter heard rs = []")
    case True
    then have "best_freq s3 = cleared_freq" using s3(4) by (auto simp: strongest_def)
    then show ?thesis using op s3(3) h3 True by (simp add: open_connect_def cleared_freq_def)
  next
    case False
    then have b: "strongest (best_freq s3) (filter heard rs)" using s3(4) by blast
    then have "best_freq s3 \<in> set (filter heard rs)" by (rule strongest_mem)
    then have "sr_freq_idx (best_freq s3) \<noteq> 0xFF" using assms(5) by simp
    then show ?thesis
      using op s3(2) b False
      by (auto simp: open_connect_def set_qc_wiota_state_def qc_set_at_state_def Let_def emit_def)
  qed
qed


definition hears_two :: env where
  "hears_two = good_env\<lparr>e_scan_freq := (\<lambda>h. (UC_OP_SUCC,
       [\<lparr>sr_freq_idx = 100, sr_snr = 5, sr_rssi = 0xA0, sr_is_synced = 1, sr_sub_sys_id = 0\<rparr>,
        \<lparr>sr_freq_idx = 101, sr_snr = 9, sr_rssi = 0xB0, sr_is_synced = 1, sr_sub_sys_id = 0\<rparr>])),
     e_state := (\<lambda>h. UC_STATUS_NULL)\<rparr>"

lemma hears_two_module: "module_id_ok hears_two"
  by (simp add: module_id_ok_def hears_two_def good_env_def cstr_def)

lemma hears_two_scan:
  "e_scan_freq hears_two h = (UC_OP_SUCC, snd (e_scan_freq hears_two []))"
  "map sr_freq_idx (filter heard (snd (e_scan_freq hears_two []))) = [100, 101]"
  "strongest b (filter heard (snd (e_scan_freq hears_two []))) \<Longrightarrow> sr_freq_idx b = 101"
  by (auto simp: hears_two_def heard_def strongest_def Cons_eq_append_conv)

theorem qc_connects_to_strongest_witness:
  "\<exists>s' h. quick_open_wiota hears_two (quick_connect_init hears_two init_qc) = Some s' \<and> qc_wiota_state s' = QC_RUN \<and>
     hist s' = C_wiota W_connect # C_setup (S_register_recv_cb CB_wiota_recv) # C_setup (S_register_recv_cb CB_wiota_recv) #
       C_wiota W_run # C_wiota (W_set_freq_info 101) # C_wiota W_init # h"
proof -
  let ?s = "quick_connect_init hears_two init_qc" and ?rs = "snd (e_scan_freq hears_two [])"
  have s: "p_mutex_qc_state ?s" "cur_mode ?s < QC_MODE_MAX"
    by (simp_all add: quick_connect_init_def hears_two_def good_env_def init_qc_def QC_MODE_MAX_def Let_def emit_def)
  have f: "sr_freq_idx r \<noteq> 0xFF" if "r \<in> set ?rs" for r
    using that by (auto simp: hears_two_def)
  have n: "filter heard ?rs \<noteq> []" using hears_two_scan(2) by auto
  show ?thesis
    using qc_connects_to_strongest[OF s hears_two_module hears_two_scan(1) f] n hears_two_scan(3) by auto
qed

text \<open>A stop during a scan. When the other thread stops quick connect while the task is in the scan,
  the stop reports success and leaves the radio, but the task goes on when the scan returns: it leaves
  the radio a second time, and if the scan heard a gateway it initialises the radio again and
  connects, although quick connect is stopped.
\<close>

lemma qc_stop_lost:
  assumes "p_mutex_qc_state s" "p_mutex_qc_run s" "qc_wiota_state s = QC_RUN" "best_freq s = cleared_freq"
    and "\<And>h. e_scan_freq e h = (UC_OP_SUCC, rs)" "filter heard rs \<noteq> []" "\<And>r. r \<in> set rs \<Longrightarrow> sr_freq_idx r \<noteq> 0xFF"
    and "st \<noteq> UC_STATUS_SYNC"
  shows "\<exists>s1 s2 s3. wiota_quick_connect_stop s = Some (0, s1) \<and> qc_auto_run s1 = 0 \<and> qc_wiota_state s1 = QC_EXIT \<and>
    qc_step False e (s, Q_scanning (Some st), False) (s1, Q_scanning (Some st), False) \<and>
    qc_step False e (s1, Q_scanning (Some st), False) (s2, Q_scanned (Some st), False) \<and>
    qc_step False e (s2, Q_scanned (Some st), False) (s3, Q_idle, False) \<and>
    qc_auto_run s3 = 0 \<and> qc_wiota_state s3 = QC_RUN \<and> hd (tl (hist s3)) = C_wiota W_connect \<and> radio_on (hist s3) = None"
proof -
  let ?s = "s\<lparr>qc_auto_run := 0, hist := C_wiota W_exit # hist s, qc_at_state := AT_WIOTA_EXIT, qc_wiota_state := QC_EXIT\<rparr>"
  let ?s1 = "emit (C_os (O_thread_mdelay 100)) ?s"
  have stop: "wiota_quick_connect_stop s = Some (0, ?s1)"
    using assms(1-3) by (simp add: wiota_quick_connect_stop_def clr_qc_auto_run_def leave_if_running_def leave_radio_def
        set_qc_wiota_state_def qc_set_at_state_def emit_def)
  obtain s2 where s2: "open_scanned e ?s1 = Some s2" "p_mutex_qc_state s2" "qc_wiota_state s2 = QC_EXIT" "qc_auto_run s2 = 0"
      "strongest (best_freq s2) (filter heard rs)"
    using open_scanned_total[of ?s1 e rs] assms by (auto simp: emit_def)
  have r2: "radio_on (hist s2) = None"
  proof -
    obtain r s' where s': "scan_reply e ?s1 = (r, s')" by fastforce
    have "radio_on (hist s') \<noteq> Some True" using scan_reply_frame[OF s'] by (simp add: emit_def)
    then show ?thesis
      using s2(1) s' by (auto simp: open_scanned_def quick_scan_end_def leave_radio_def leave_if_running_def set_qc_wiota_state_def
          qc_set_at_state_def emit_def split: if_splits)
  qed
  let ?s3 = "s2\<lparr>hist := C_wiota W_connect # C_setup (S_register_recv_cb CB_wiota_recv) # C_setup (S_register_recv_cb CB_wiota_recv) #
      C_wiota W_run # C_wiota (W_set_freq_info (sr_freq_idx (best_freq s2))) # C_wiota W_init # hist s2,
      qc_at_state := AT_WIOTA_RUN, qc_wiota_state := QC_RUN\<rparr>"
  have "best_freq s2 \<in> set (filter heard rs)" using s2(5) by (rule strongest_mem)
  then have con: "open_connect s2 = Some ?s3"
    using assms(7) s2(2) by (auto simp: open_connect_def set_qc_wiota_state_def qc_set_at_state_def Let_def emit_def)
  let ?s4 = "emit (C_os (O_thread_mdelay 100)) (?s3\<lparr>connect_flag := False, cnt := cnt s2 + 1\<rparr>)"
  have "tick_end e (Some st) ?s3 = Some ?s4" using assms(8) by (simp add: tick_end_def emit_def)
  then have "qc_step False e (s2, Q_scanned (Some st), False) (?s4, Q_idle, False)" by (rule qc_step.connect[OF con])
  moreover have "qc_step False e (?s1, Q_scanning (Some st), False) (s2, Q_scanned (Some st), False)"
    by (rule qc_step.scanned[OF s2(1)])
  moreover have "qc_step False e (s, Q_scanning (Some st), False) (?s1, Q_scanning (Some st), False)"
    by (rule qc_step.stop[OF _ stop]) simp
  moreover have "qc_auto_run ?s4 = 0" "qc_wiota_state ?s4 = QC_RUN" "hd (tl (hist ?s4)) = C_wiota W_connect"
      "radio_on (hist ?s4) = None"
    using s2(4) r2 by (simp_all add: emit_def)
  moreover have "qc_auto_run ?s1 = 0" "qc_wiota_state ?s1 = QC_EXIT" by (simp_all add: emit_def)
  ultimately show ?thesis using stop by blast
qed


definition in_scan :: qc where
  "in_scan = (quick_connect_init hears_two init_qc)\<lparr>qc_wiota_state := QC_RUN, best_freq := cleared_freq, qc_auto_run := 1\<rparr>"

lemma qc_stop_lost_witness:
  "\<exists>s1 s2 s3. wiota_quick_connect_stop in_scan = Some (0, s1) \<and> qc_wiota_state s1 = QC_EXIT \<and>
    qc_step False hears_two (s1, Q_scanning (Some UC_STATUS_NULL), False) (s2, Q_scanned (Some UC_STATUS_NULL), False) \<and>
    qc_step False hears_two (s2, Q_scanned (Some UC_STATUS_NULL), False) (s3, Q_idle, False) \<and>
    qc_auto_run s3 = 0 \<and> qc_wiota_state s3 = QC_RUN"
proof -
  let ?rs = "snd (e_scan_freq hears_two [])"
  have s: "p_mutex_qc_state in_scan" "p_mutex_qc_run in_scan" "qc_wiota_state in_scan = QC_RUN" "best_freq in_scan = cleared_freq"
    by (simp_all add: in_scan_def quick_connect_init_def hears_two_def good_env_def init_qc_def Let_def emit_def)
  have f: "sr_freq_idx r \<noteq> 0xFF" if "r \<in> set ?rs" for r
    using that by (auto simp: hears_two_def)
  have n: "filter heard ?rs \<noteq> []" using hears_two_scan(2) by auto
  show ?thesis
    using qc_stop_lost[OF s hears_two_scan(1) n f, of UC_STATUS_NULL] by (metis wiota_status.distinct(1))
qed

end
