(* ===== verification/GpioReport.thy ===== *)
theory GpioReport
  imports HeapSafety
begin

text \<open>
  The store mode of the AT server, \<^verbatim>\<open>PS/at/at_wiota_gpio_report.c\<close>: received data is kept in a ring
  of five entries, a pulse on a pin tells the host that there is some, and the host asks for it.

  An entry keeps its block together with the bytes in it. \<^verbatim>\<open>parse\<close> is a function of a binary; the
  command handlers get the values that it leaves in their variables. The ring is proved to be the
  queue of the five latest packets.
\<close>

section \<open>State\<close>

definition WIOTA_DATA_NUM :: nat where "WIOTA_DATA_NUM = 5"
definition WIOTA_MODE_OUT_UART :: u32 where "WIOTA_MODE_OUT_UART = 0"

text \<open>\<^verbatim>\<open>uc_recv_back_t\<close>; the data is \<open>None\<close> for the null pointer.\<close>

record recv_back =
  rb_type :: u8
  rb_data_len :: u16
  rb_data :: "(ptr \<times> u8 list) option"

record gpio = sys +
  wiota_gpio_mode :: u32
  wiota_gpio_state :: bool
  wiota_gpio_timer :: bool
  wiota_save_data :: "recv_back list"
  wiota_save_index :: int
  s_wake_out_timer :: bool

definition no_data :: recv_back where
  "no_data = \<lparr>rb_type = 0, rb_data_len = 0, rb_data = None\<rparr>"

definition init_gpio :: gpio where
  "init_gpio = \<lparr>hist = [], wiota_gpio_mode = WIOTA_MODE_OUT_UART, wiota_gpio_state = False, wiota_gpio_timer = False,
     wiota_save_data = replicate WIOTA_DATA_NUM no_data, wiota_save_index = -1, s_wake_out_timer = False\<rparr>"

section \<open>The pulse\<close>

definition wiota_gpio_report_state :: "env \<Rightarrow> gpio \<Rightarrow> gpio" where
  "wiota_gpio_report_state e s =
     (if \<not> wiota_gpio_timer s then s
      else if \<not> e_timer_active e (hist s)
      then emit (C_ipc I_timer_start)
             ((emit (C_os (O_pin_write (fst (e_store_pin e (hist s))) True)) s)\<lparr>wiota_gpio_state := True\<rparr>)
      else s)"

definition wiota_gpio_timer_cb :: "env \<Rightarrow> gpio \<Rightarrow> gpio" where
  "wiota_gpio_timer_cb e s =
     (emit (C_os (O_pin_write (fst (e_store_pin e (hist s))) False)) s)\<lparr>wiota_gpio_state := False\<rparr>"

definition at_wiota_gpio_report_init :: "env \<Rightarrow> gpio \<Rightarrow> int \<times> gpio" where
  "at_wiota_gpio_report_init e s =
     (let (pin, wid) = e_store_pin e (hist s);
          s = s\<lparr>wiota_gpio_mode := WIOTA_MODE_OUT_UART, wiota_gpio_state := False, wiota_save_index := -1,
                wiota_save_data := replicate WIOTA_DATA_NUM no_data\<rparr>
      in if \<not> (pin \<le> 18 \<and> wid > 0) then (-1, s)
         else
           (let s = emit (C_os (O_pin_write pin False)) (emit (C_os (O_pin_mode pin)) s);
                s = emit (C_ipc I_timer_create) s;
                s = s\<lparr>wiota_gpio_timer := e_timer_create e (hist s)\<rparr>
            in (if wiota_gpio_timer s then 0 else -1, s)))"

definition wake_out_timer_cb :: "env \<Rightarrow> gpio \<Rightarrow> gpio" where
  "wake_out_timer_cb e s = emit (C_os (O_pin_write (fst (e_wake_out e (hist s))) False)) s"

definition wake_out_pulse_init :: "env \<Rightarrow> gpio \<Rightarrow> int \<times> gpio" where
  "wake_out_pulse_init e s =
     (let (pin, wid) = e_wake_out e (hist s)
      in if pin > 18 \<or> wid = 0 then (-1, s)
         else
           (let s = emit (C_ipc I_timer_create) s;
                s = s\<lparr>s_wake_out_timer := e_timer_create e (hist s)\<rparr>
            in if \<not> s_wake_out_timer s then (-1, s)
               else (0, emit (C_ipc I_timer_start) (emit (C_os (O_pin_write pin True)) (emit (C_os (O_pin_mode pin)) s)))))"

section \<open>Storing and showing\<close>

text \<open>An index outside the array is a fault.\<close>

definition saved :: "nat \<Rightarrow> gpio \<Rightarrow> recv_back option" where
  "saved i s = rd (wiota_save_data s) i"

definition save :: "nat \<Rightarrow> recv_back \<Rightarrow> gpio \<Rightarrow> gpio option" where
  "save i d s = (if i < length (wiota_save_data s) then Some (s\<lparr>wiota_save_data := (wiota_save_data s)[i := d]\<rparr>) else None)"

definition wiota_data_insert :: "env \<Rightarrow> recv_back \<Rightarrow> gpio \<Rightarrow> gpio option" where
  "wiota_data_insert e d s =
     (if rb_data d = None then Some s
      else
        (let index = (if wiota_save_index s + 1 \<ge> int WIOTA_DATA_NUM then -1 else wiota_save_index s) + 1;
             s = s\<lparr>wiota_save_index := index\<rparr>;
             i = nat index mod WIOTA_DATA_NUM
         in do { old \<leftarrow> saved i s;
                 let s = rt_free (map_option fst (rb_data old)) s;
                 s \<leftarrow> save i d s;
                 Some (wiota_gpio_report_state e s) }))"

definition show_one :: "nat \<Rightarrow> gpio \<Rightarrow> gpio option" where
  "show_one i s =
     do { d \<leftarrow> saved i s;
          let s = (case rb_data d of
                     None \<Rightarrow> s
                   | Some (p, mem) \<Rightarrow>
                       if rb_data_len d > 0 then
                         rt_free (Some p) (emit (C_at (At_println '''' []))
                           (emit (C_at (At_send (take (unat (rb_data_len d)) mem)))
                             (emit (C_at (At_println ''+WIOTARECV'' [uint (rb_type d), uint (rb_data_len d)])) s)))
                       else s);
          save i (d\<lparr>rb_data := None, rb_data_len := 0\<rparr>) s }"

fun show_loop :: "nat \<Rightarrow> nat \<Rightarrow> gpio \<Rightarrow> gpio option" where
  "show_loop i 0 s = Some s"
| "show_loop i (Suc k) s = do { s \<leftarrow> show_one (i mod WIOTA_DATA_NUM) s; show_loop (i + 1) k s }"

text \<open>The five entries in the order of their age.\<close>

definition wiota_data_show :: "gpio \<Rightarrow> gpio option" where
  "wiota_data_show s =
     (if wiota_save_index s = -1 then Some s
      else
        (let i = (if wiota_save_index s + 1 \<ge> int WIOTA_DATA_NUM then 0 else wiota_save_index s + 1)
         in do { s \<leftarrow> show_loop (nat i) WIOTA_DATA_NUM s;
                 Some (s\<lparr>wiota_save_index := -1\<rparr>) }))"

definition wiota_gpio_mode_set :: "u32 \<Rightarrow> gpio \<Rightarrow> gpio" where
  "wiota_gpio_mode_set mode s = s\<lparr>wiota_gpio_mode := and mode 1\<rparr>"

section \<open>Commands\<close>

datatype at_result =
  AT_RESULT_OK | AT_RESULT_FAILE | AT_RESULT_NULL | AT_RESULT_CMD_ERR | AT_RESULT_CHECK_FAILE | AT_RESULT_PARSE_FAILE
| AT_RESULT_REPETITIVE_FAILE | AT_RESULT_REFUSED

definition at_pulse_setup :: "env \<Rightarrow> u32 \<Rightarrow> u32 \<Rightarrow> gpio \<Rightarrow> at_result \<times> gpio" where
  "at_pulse_setup e pin wid s =
     (if pin > 18 \<or> wid > 255 then (AT_RESULT_PARSE_FAILE, s)
      else
        (let s = emit (C_setup (S_store_pin (ucast pin) (ucast wid))) s
         in if wid \<noteq> 0 then
              (let s = emit (C_os (O_pin_mode (ucast pin))) s;
                   s = (if \<not> wiota_gpio_timer s
                        then (let s = emit (C_ipc I_timer_create) s in s\<lparr>wiota_gpio_timer := e_timer_create e (hist s)\<rparr>)
                        else s)
               in if \<not> wiota_gpio_timer s then (AT_RESULT_PARSE_FAILE, s)
                  else (AT_RESULT_OK, emit (C_ipc (I_timer_control wid)) s))
            else if wiota_gpio_timer s then
              (AT_RESULT_OK, (emit (C_ipc I_timer_delete) (emit (C_ipc I_timer_stop) s))\<lparr>wiota_gpio_timer := False\<rparr>)
            else (AT_RESULT_OK, s)))"

definition at_pulse_query :: "env \<Rightarrow> gpio \<Rightarrow> at_result \<times> gpio" where
  "at_pulse_query e s =
     (let s = emit (C_at (At_println ''+PIN'' [uint (fst (e_store_pin e (hist s)))])) s;
          s = emit (C_at (At_println ''+PULSEWIDTH'' [uint (snd (e_store_pin e (hist s)))])) s
      in (AT_RESULT_OK, s))"

definition at_store_data_query :: "gpio \<Rightarrow> (at_result \<times> gpio) option" where
  "at_store_data_query s = do { s \<leftarrow> wiota_data_show s; Some (AT_RESULT_OK, s) }"

definition at_mode_setup :: "u32 \<Rightarrow> gpio \<Rightarrow> at_result \<times> gpio" where
  "at_mode_setup mode s = (AT_RESULT_OK, wiota_gpio_mode_set mode s)"

definition at_mode_query :: "gpio \<Rightarrow> at_result \<times> gpio" where
  "at_mode_query s = (AT_RESULT_OK, emit (C_at (At_println ''+MODE'' [sint (wiota_gpio_mode s)])) s)"

definition at_wake_out_pin_setup :: "u32 \<Rightarrow> u32 \<Rightarrow> gpio \<Rightarrow> at_result \<times> gpio" where
  "at_wake_out_pin_setup pin wid s =
     (if pin > 18 \<or> wid > 255 then (AT_RESULT_FAILE, s)
      else (AT_RESULT_OK, emit (C_setup (S_wake_out (ucast pin) (ucast wid))) s))"

definition at_wake_out_pin_query :: "env \<Rightarrow> gpio \<Rightarrow> at_result \<times> gpio" where
  "at_wake_out_pin_query e s =
     (let s = emit (C_at (At_println ''+PIN'' [uint (fst (e_wake_out e (hist s)))])) s;
          s = emit (C_at (At_println ''+WIDTH'' [uint (snd (e_wake_out e (hist s)))])) s
      in (AT_RESULT_OK, s))"


section \<open>The ring is a queue of the five latest entries\<close>

definition ring_ok :: "gpio \<Rightarrow> bool" where
  "ring_ok s \<longleftrightarrow> length (wiota_save_data s) = 5 \<and> -1 \<le> wiota_save_index s \<and> wiota_save_index s \<le> 4"

text \<open>The entries from the oldest to the latest.\<close>

definition contents :: "gpio \<Rightarrow> recv_back list" where
  "contents s = rotate (nat (wiota_save_index s + 1)) (wiota_save_data s)"

lemma length_contents [simp]: "length (contents s) = length (wiota_save_data s)"
  by (simp add: contents_def)

lemma wrap_next:
  fixes a n i :: nat
  assumes "a < n" "i + 1 < n"
  shows "(a + 1 + i) mod n \<noteq> a"
proof (cases "a + 1 + i < n")
  case False
  then have "(a + 1 + i) mod n = a + 1 + i - n" using assms by (simp add: le_mod_geq)
  then show ?thesis using assms False by simp
qed simp

lemma rotate_update:
  assumes "xs \<noteq> []"
  shows "rotate (m mod length xs + 1) (xs[m mod length xs := d]) = tl (rotate m xs) @ [d]"
proof (rule nth_equalityI)
  show "length (rotate (m mod length xs + 1) (xs[m mod length xs := d])) = length (tl (rotate m xs) @ [d])"
    using assms by simp
  fix i assume "i < length (rotate (m mod length xs + 1) (xs[m mod length xs := d]))"
  then have i: "i < length xs" by simp
  let ?m = "m mod length xs"
  have ml: "?m < length xs" using assms by simp
  show "rotate (?m + 1) (xs[?m := d]) ! i = (tl (rotate m xs) @ [d]) ! i"
  proof (cases "i = length xs - 1")
    case True
    then have "?m + 1 + i = ?m + length xs" using assms by (cases xs) simp_all
    then have "(?m + 1 + i) mod length xs = ?m" by (metis mod_add_self2 mod_mod_trivial)
    moreover have "rotate (?m + 1) (xs[?m := d]) ! i = xs[?m := d] ! ((?m + 1 + i) mod length xs)"
      using nth_rotate[of i "xs[?m := d]" "?m + 1"] i by (simp only: length_list_update)
    ultimately have "rotate (?m + 1) (xs[?m := d]) ! i = d" using ml by simp
    then show ?thesis using True i by (simp add: nth_append)
  next
    case False
    then have l: "i + 1 < length xs" using i by simp
    have "(?m + 1 + i) mod length xs \<noteq> ?m" by (rule wrap_next[OF ml l])
    moreover have "rotate (?m + 1) (xs[?m := d]) ! i = xs[?m := d] ! ((?m + 1 + i) mod length xs)"
      using nth_rotate[of i "xs[?m := d]" "?m + 1"] i by (simp only: length_list_update)
    moreover have "(?m + 1 + i) mod length xs = (m + (i + 1)) mod length xs"
      by (metis add.assoc add.commute mod_add_left_eq)
    ultimately have "rotate (?m + 1) (xs[?m := d]) ! i = xs ! ((m + (i + 1)) mod length xs)"
      by (metis nth_list_update_neq)
    moreover have "i < length xs - 1" using l by linarith
    ultimately show ?thesis using l nth_rotate[of "i + 1" xs m] by (simp add: nth_append nth_tl)
  qed
qed

lemma report_state_frame:
  "wiota_save_data (wiota_gpio_report_state e s) = wiota_save_data s"
  "wiota_save_index (wiota_gpio_report_state e s) = wiota_save_index s"
  "live (hist (wiota_gpio_report_state e s)) = live (hist s)"
  "frees_ok (hist (wiota_gpio_report_state e s)) = frees_ok (hist s)"
  by (simp_all add: wiota_gpio_report_state_def emit_def)

text \<open>The blocks of entries.\<close>

definition ptrs :: "recv_back list \<Rightarrow> ptr list" where
  "ptrs ds = concat (map (\<lambda>d. case rb_data d of None \<Rightarrow> [] | Some (p, mem) \<Rightarrow> [p]) ds)"

lemma ptrs_simps [simp]:
  "ptrs [] = []" "ptrs (xs @ ys) = ptrs xs @ ptrs ys"
  "ptrs (d # ds) = (case rb_data d of None \<Rightarrow> [] | Some (p, mem) \<Rightarrow> [p]) @ ptrs ds"
  by (simp_all add: ptrs_def)

lemma insert_ring:
  assumes s: "ring_ok s" and d: "rb_data d \<noteq> None"
  shows "\<exists>s'. wiota_data_insert e d s = Some s' \<and> ring_ok s' \<and> contents s' = tl (contents s) @ [d] \<and> wiota_save_index s' \<noteq> -1 \<and>
    live (hist s') = filter (\<lambda>p. p \<notin> set (ptrs [hd (contents s)])) (live (hist s)) \<and>
    (frees_ok (hist s) \<and> set (ptrs [hd (contents s)]) \<subseteq> set (live (hist s)) \<longrightarrow> frees_ok (hist s'))"
proof -
  obtain x where d': "rb_data d = Some x" using d by blast
  let ?m = "nat (wiota_save_index s + 1)" and ?xs = "wiota_save_data s"
  let ?i = "(if wiota_save_index s + 1 \<ge> 5 then -1 else wiota_save_index s) + 1"
  have l: "length ?xs = 5" "?xs \<noteq> []" using s by (auto simp: ring_ok_def)
  have i: "?i = int (?m mod 5)" "nat ?i mod 5 = ?m mod 5" "?m mod 5 < 5" using s by (auto simp: ring_ok_def nat_mod_distrib)
  have le: "?m mod 5 \<le> 4" using i(3) by linarith
  have h: "hd (contents s) = ?xs ! (?m mod 5)"
    using l by (simp add: contents_def hd_rotate_conv_nth)
  let ?s1 = "rt_free (map_option fst (rb_data (?xs ! (?m mod 5)))) (s\<lparr>wiota_save_index := ?i\<rparr>)"
  let ?s2 = "?s1\<lparr>wiota_save_data := ?xs[?m mod 5 := d]\<rparr>"
  have f: "wiota_save_data ?s1 = ?xs" "wiota_save_index ?s1 = ?i"
    by (cases "rb_data (?xs ! (?m mod 5))"; simp add: rt_free_def emit_def)+
  have "wiota_data_insert e d s = Some (wiota_gpio_report_state e ?s2)"
    using d' l i f by (simp add: wiota_data_insert_def saved_def save_def rd_def WIOTA_DATA_NUM_def Let_def)
  moreover have "ring_ok (wiota_gpio_report_state e ?s2)"
    using l i(1) f le by (simp add: ring_ok_def report_state_frame)
  moreover have "wiota_save_index (wiota_gpio_report_state e ?s2) \<noteq> -1"
    using i(1) f by (simp add: report_state_frame)
  moreover have "contents (wiota_gpio_report_state e ?s2) = tl (contents s) @ [d]"
    using rotate_update[OF l(2), of ?m d] l(1) i(1) f(2)
    by (simp add: contents_def report_state_frame nat_add_distrib)
  moreover have "live (hist (wiota_gpio_report_state e ?s2)) = filter (\<lambda>p. p \<notin> set (ptrs [hd (contents s)])) (live (hist s))"
    unfolding h report_state_frame
    by (cases "rb_data (?xs ! (?m mod 5))") (auto simp: rt_free_def emit_def ptrs_def removeAll_filter_not_eq intro: filter_cong)
  moreover have "frees_ok (hist s) \<and> set (ptrs [hd (contents s)]) \<subseteq> set (live (hist s)) \<longrightarrow>
      frees_ok (hist (wiota_gpio_report_state e ?s2))"
    unfolding h report_state_frame
    by (cases "rb_data (?xs ! (?m mod 5))") (auto simp: rt_free_def emit_def ptrs_def)
  ultimately show ?thesis by blast
qed

text \<open>What showing an entry does, oldest event first.\<close>

definition shown :: "recv_back \<Rightarrow> call list" where
  "shown d =
     (case rb_data d of
        None \<Rightarrow> []
      | Some (p, mem) \<Rightarrow>
          if rb_data_len d > 0 then
            [C_at (At_println ''+WIOTARECV'' [uint (rb_type d), uint (rb_data_len d)]),
             C_at (At_send (take (unat (rb_data_len d)) mem)), C_at (At_println '''' []), C_free p]
          else [])"

definition emptied :: "recv_back \<Rightarrow> recv_back" where
  "emptied d = d\<lparr>rb_data := None, rb_data_len := 0\<rparr>"

lemma show_one_eq:
  "i < length (wiota_save_data s) \<Longrightarrow> show_one i s =
     Some (s\<lparr>hist := rev (shown (wiota_save_data s ! i)) @ hist s,
             wiota_save_data := (wiota_save_data s)[i := emptied (wiota_save_data s ! i)]\<rparr>)"
  by (cases "rb_data (wiota_save_data s ! i)")
    (auto simp: show_one_def saved_def save_def rd_def shown_def emptied_def rt_free_def emit_def)

lemma show_five:
  "show_loop i 5 s = do { s \<leftarrow> show_one (i mod 5) s; s \<leftarrow> show_one ((i + 1) mod 5) s; s \<leftarrow> show_one ((i + 1 + 1) mod 5) s;
     s \<leftarrow> show_one ((i + 1 + 1 + 1) mod 5) s; s \<leftarrow> show_one ((i + 1 + 1 + 1 + 1) mod 5) s; Some s }"
proof -
  have five: "(5 :: nat) = Suc (Suc (Suc (Suc (Suc 0))))" by simp
  show ?thesis by (subst five) (simp only: show_loop.simps(1)[abs_def] show_loop.simps(2)[abs_def] WIOTA_DATA_NUM_def)
qed

lemma rotate_five:
  "rotate 1 [a, b, c, d, f] = [b, c, d, f, a]" "rotate 2 [a, b, c, d, f] = [c, d, f, a, b]"
  "rotate 3 [a, b, c, d, f] = [d, f, a, b, c]" "rotate 4 [a, b, c, d, f] = [f, a, b, c, d]"
  by (simp_all add: rotate_def eval_nat_numeral)

lemma update_numeral: "(x # xs)[numeral n := y] = x # xs[pred_numeral n := y]"
  by (simp add: numeral_eq_Suc)

lemma show_ring:
  assumes "ring_ok s" "wiota_save_index s \<noteq> -1"
  shows "\<exists>s'. wiota_data_show s = Some s' \<and> ring_ok s' \<and>
    hist s' = rev (concat (map shown (contents s))) @ hist s \<and> contents s' = map emptied (wiota_save_data s)"
proof -
  let ?m = "nat (wiota_save_index s + 1) mod 5"
  obtain a b c d f where xs: "wiota_save_data s = [a, b, c, d, f]"
    using assms(1) by (auto simp: ring_ok_def numeral_eq_Suc length_Suc_conv)
  have i: "(if wiota_save_index s + 1 \<ge> 5 then 0 else wiota_save_index s + 1) = int ?m"
    using assms by (auto simp: ring_ok_def nat_mod_distrib)
  have c: "contents s = rotate ?m (wiota_save_data s)"
    using rotate_conv_mod[of "nat (wiota_save_index s + 1)" "wiota_save_data s"] xs by (simp add: contents_def)
  have "k = 0 \<or> k = 1 \<or> k = 2 \<or> k = 3 \<or> k = 4" if "k < 5" for k :: nat using that by auto
  then have "?m = 0 \<or> ?m = 1 \<or> ?m = 2 \<or> ?m = 3 \<or> ?m = 4" by simp
  then have "show_loop ?m 5 s = Some (s\<lparr>hist := rev (concat (map shown (contents s))) @ hist s,
      wiota_save_data := map emptied (wiota_save_data s)\<rparr>)"
    unfolding c xs show_five by (elim disjE; simp add: show_one_eq xs rotate_five update_numeral)
  then have "wiota_data_show s = Some (s\<lparr>hist := rev (concat (map shown (contents s))) @ hist s,
      wiota_save_data := map emptied (wiota_save_data s), wiota_save_index := -1\<rparr>)"
    using assms(2) i by (simp add: wiota_data_show_def WIOTA_DATA_NUM_def Let_def)
  then show ?thesis using xs by (simp add: ring_ok_def contents_def)
qed


fun insert_all :: "env \<Rightarrow> recv_back list \<Rightarrow> gpio \<Rightarrow> gpio option" where
  "insert_all e [] s = Some s"
| "insert_all e (d # ds) s = do { s \<leftarrow> wiota_data_insert e d s; insert_all e ds s }"

lemma insert_all_ring:
  assumes "ring_ok s" "\<forall>d \<in> set ds. rb_data d \<noteq> None" "distinct (ptrs (contents s @ ds))" "frees_ok (hist s)"
    and "set (live (hist s)) = set (ptrs (contents s @ ds))"
  shows "\<exists>s'. insert_all e ds s = Some s' \<and> ring_ok s' \<and> contents s' = drop (length ds) (contents s @ ds) \<and>
    frees_ok (hist s') \<and> set (live (hist s')) = set (ptrs (contents s')) \<and> (ds \<noteq> [] \<longrightarrow> wiota_save_index s' \<noteq> -1)"
  using assms
proof (induction ds arbitrary: s)
  case (Cons d ds)
  have "contents s \<noteq> []" using Cons.prems(1) by (auto simp: ring_ok_def contents_def)
  then obtain x xs where c: "contents s = x # xs" by (cases "contents s") auto
  obtain s1 where s1: "wiota_data_insert e d s = Some s1" "ring_ok s1" "contents s1 = xs @ [d]"
      "live (hist s1) = filter (\<lambda>p. p \<notin> set (ptrs [x])) (live (hist s))"
      "frees_ok (hist s) \<and> set (ptrs [x]) \<subseteq> set (live (hist s)) \<longrightarrow> frees_ok (hist s1)"
      "wiota_save_index s1 \<noteq> -1"
    using insert_ring[OF Cons.prems(1), of d e] Cons.prems(2) c by auto
  have d: "ptrs (contents s @ d # ds) = ptrs [x] @ ptrs (contents s1 @ ds)"
    unfolding c s1(3) by simp
  have f: "frees_ok (hist s1)" using s1(5) Cons.prems(4,5) unfolding d by auto
  have l: "set (live (hist s1)) = set (ptrs (contents s1 @ ds))"
    unfolding s1(4) using Cons.prems(3,5) unfolding d by auto
  have p: "distinct (ptrs (contents s1 @ ds))" using Cons.prems(3) unfolding d by simp
  have n: "\<forall>d \<in> set ds. rb_data d \<noteq> None" using Cons.prems(2) by simp
  obtain s2 where s2: "insert_all e ds s1 = Some s2" "ring_ok s2" "contents s2 = drop (length ds) (contents s1 @ ds)"
      "frees_ok (hist s2)" "set (live (hist s2)) = set (ptrs (contents s2))" "ds \<noteq> [] \<longrightarrow> wiota_save_index s2 \<noteq> -1"
    using Cons.IH[OF s1(2) n p f l] by blast
  have "drop (length (d # ds)) (contents s @ d # ds) = drop (length ds) (contents s1 @ ds)"
    unfolding c s1(3) by simp
  then have "contents s2 = drop (length (d # ds)) (contents s @ d # ds)" using s2(3) by (simp only:)
  moreover have "wiota_save_index s2 \<noteq> -1"
  proof (cases "ds = []")
    case True
    then have "s2 = s1" using s2(1) by simp
    then show ?thesis using s1(6) by (simp only: not_False_eq_True)
  qed (use s2(6) in blast)
  moreover have "insert_all e (d # ds) s = Some s2" using s1(1) s2(1) by simp
  ultimately show ?case using s2(2,4,5) by blast
qed auto

text \<open>Showing frees the blocks of the entries with a length; it forgets those of length 0.\<close>

definition sized :: "recv_back list \<Rightarrow> recv_back list" where
  "sized ds = filter (\<lambda>d. rb_data_len d \<noteq> 0) ds"

definition zero_length :: "recv_back list \<Rightarrow> recv_back list" where
  "zero_length ds = filter (\<lambda>d. rb_data_len d = 0) ds"

lemma ptrs_split: "set (ptrs ds) = set (ptrs (sized ds)) \<union> set (ptrs (zero_length ds))"
  by (induction ds) (auto simp: sized_def zero_length_def)

lemma ptrs_disjoint: "distinct (ptrs ds) \<Longrightarrow> set (ptrs (sized ds)) \<inter> set (ptrs (zero_length ds)) = {}"
proof (induction ds)
  case (Cons d ds)
  then show ?case
    using ptrs_split[of ds] by (auto simp: sized_def zero_length_def split: option.splits)
qed (simp add: sized_def)

lemma frees_shown:
  assumes "frees_ok h" "distinct (ptrs ds)" "set (ptrs ds) \<subseteq> set (live h)"
  shows "frees_ok (rev (concat (map shown ds)) @ h) \<and>
    live (rev (concat (map shown ds)) @ h) = filter (\<lambda>p. p \<notin> set (ptrs (sized ds))) (live h)"
  using assms
proof (induction ds arbitrary: h)
  case (Cons d ds)
  show ?case
  proof (cases "rb_data d = None \<or> rb_data_len d = 0")
    case True
    then have "shown d = []" "ptrs (sized (d # ds)) = ptrs (sized ds)"
      by (auto simp: shown_def sized_def split: option.splits)
    then show ?thesis using Cons by (auto split: option.splits)
  next
    case False
    then obtain p mem where x: "rb_data d = Some (p, mem)" "rb_data_len d \<noteq> 0" by (cases "rb_data d") auto
    let ?h = "rev (shown d) @ h"
    have "0 < rb_data_len d" using x(2) by (simp only: word_gt_0 not_False_eq_True)
    then have "shown d =
        [C_at (At_println ''+WIOTARECV'' [uint (rb_type d), uint (rb_data_len d)]),
         C_at (At_send (take (unat (rb_data_len d)) mem)), C_at (At_println '''' []), C_free p]"
      using x(1) by (simp add: shown_def)
    then have h: "frees_ok ?h" "live ?h = removeAll p (live h)"
      using Cons.prems(1,3) x by simp_all
    have "set (ptrs ds) \<subseteq> set (live ?h)" using Cons.prems(2,3) x h(2) by auto
    then show ?thesis
      using Cons.IH[of ?h] h Cons.prems(2) x
      by (auto simp: removeAll_filter_not_eq sized_def intro: filter_cong)
  qed
qed (simp add: sized_def)

text \<open>C32. The store mode. Let a run of packets, each with an allocated block of its own, arrive in the store
  mode, from any well-formed ring whose blocks and theirs are the allocated ones. Then the ring holds
  the five latest packets, and the request for them prints those with data from the oldest to the latest, each with its type, length
  and bytes, and empties the ring. No block is freed twice on the way. The displaced blocks are freed
  when their successors arrive and the blocks of packets with data when they are printed; the block of
  a packet of length 0 that is still in the ring is forgotten without being printed or freed, and
  these leaked blocks are exactly what is left.
\<close>

theorem gpio_store_latest_five:
  assumes "ring_ok s" "ds \<noteq> []"
    and "\<And>d. d \<in> set ds \<Longrightarrow> rb_data d \<noteq> None" "distinct (ptrs (contents s @ ds))" "frees_ok (hist s)"
    and "set (live (hist s)) = set (ptrs (contents s @ ds))"
  shows "\<exists>s1 s2. insert_all e ds s = Some s1 \<and> contents s1 = drop (length ds) (contents s @ ds) \<and> length (contents s1) = 5 \<and>
    set (live (hist s1)) = set (ptrs (contents s1)) \<and>
    at_store_data_query s1 = Some (AT_RESULT_OK, s2) \<and> hist s2 = rev (concat (map shown (contents s1))) @ hist s1 \<and>
    ring_ok s2 \<and> ptrs (contents s2) = [] \<and> frees_ok (hist s2) \<and>
    set (live (hist s2)) = set (ptrs (zero_length (contents s1)))"
proof -
  obtain s1 where s1: "insert_all e ds s = Some s1" "ring_ok s1" "contents s1 = drop (length ds) (contents s @ ds)"
      "frees_ok (hist s1)" "set (live (hist s1)) = set (ptrs (contents s1))" "wiota_save_index s1 \<noteq> -1"
    using insert_all_ring[OF assms(1) _ assms(4,5,6)] assms(2,3) by blast
  obtain s2 where s2: "wiota_data_show s1 = Some s2" "ring_ok s2" "hist s2 = rev (concat (map shown (contents s1))) @ hist s1"
      "contents s2 = map emptied (wiota_save_data s1)"
    using show_ring[OF s1(2,6)] by blast
  have sub: "contents s @ ds = take (length ds) (contents s @ ds) @ contents s1" unfolding s1(3) by (simp only: append_take_drop_id)
  have "distinct (ptrs (contents s1))" using assms(4) by (subst (asm) sub) simp
  then have "frees_ok (hist s2) \<and> set (live (hist s2)) = set (ptrs (zero_length (contents s1)))"
    unfolding s2(3) using frees_shown[OF s1(4), of "contents s1"] s1(5)
      ptrs_split[of "contents s1"] ptrs_disjoint[of "contents s1"] by auto
  moreover have "ptrs (map emptied xs) = []" for xs by (induction xs) (simp_all add: emptied_def)
  ultimately show ?thesis using s1 s2 by (auto simp: at_store_data_query_def ring_ok_def)
qed


text \<open>Six packets, the third of length 0.\<close>

definition six :: "recv_back list" where
  "six = map (\<lambda>i. \<lparr>rb_type = 0, rb_data_len = (if i = 2 then 0 else 1), rb_data = Some (i, [of_nat i])\<rparr>) [0..<6]"

definition with_six :: gpio where
  "with_six = init_gpio\<lparr>hist := map (\<lambda>i. C_malloc i 1) (rev [0..<6])\<rparr>"

theorem gpio_store_latest_five_witness:
  "\<exists>s1 s2. insert_all good_env six with_six = Some s1 \<and> contents s1 = tl six \<and>
     at_store_data_query s1 = Some (AT_RESULT_OK, s2) \<and> set (live (hist s2)) = {2}"
proof -
  have c: "contents with_six = replicate 5 no_data"
    by (simp add: contents_def with_six_def init_gpio_def WIOTA_DATA_NUM_def)
  have r: "ring_ok with_six" by (simp add: ring_ok_def with_six_def init_gpio_def WIOTA_DATA_NUM_def)
  have x: "\<And>d. d \<in> set six \<Longrightarrow> rb_data d \<noteq> None" "six \<noteq> []"
    by (auto simp: six_def)
  have p: "ptrs (replicate n no_data) = []" for n by (induction n) (simp_all add: no_data_def)
  have q: "ptrs six = [0, 1, 2, 3, 4, 5]" "ptrs (zero_length (tl six)) = [2]"
    by (simp_all add: six_def ptrs_def zero_length_def upt_rec)
  have d: "distinct (ptrs (contents with_six @ six))" by (simp add: c p q)
  have h: "hist with_six = map (\<lambda>i. C_malloc i 1) [5, 4, 3, 2, 1, 0]"
    by (simp add: with_six_def upt_rec)
  have f: "frees_ok (hist with_six)" "set (live (hist with_six)) = set (ptrs (contents with_six @ six))"
    by (auto simp: h c p q)
  have "drop (length six) (contents with_six @ six) = tl six"
    by (simp add: c six_def drop_Suc)
  then show ?thesis
    using gpio_store_latest_five[OF r x(2,1) d f, of good_env] q(2) by auto
qed

end
