(* ===== verification/Cbor.thy ===== *)
theory Cbor
  imports HeapSafety
begin

text \<open>
  The CBOR codec of \<^verbatim>\<open>applications/codec/cbor\<close>: values are trees of nodes on the heap with links to the
  first and last child, the next sibling and the parent; the decoder builds such a tree from a byte
  string without recursion, the encoder walks over it.

  The members of the union of a node are separate fields, since a member is only read that was
  written last: \<open>v_num\<close> for the 32 bit numbers, \<open>v_str\<close> for the string pointer (the bytes from where
  it points). Floating point is compiled out (\<^verbatim>\<open>CBOR_NO_FLOAT\<close>). \<open>None\<close> is a fault: an access to a
  node that is not allocated or outside a buffer, or the endless loop of \<^verbatim>\<open>CBOR_ASSERT\<close>.
\<close>

section \<open>Nodes\<close>

datatype cn_cbor_type =
  CN_CBOR_FALSE | CN_CBOR_TRUE | CN_CBOR_NULL | CN_CBOR_UNDEF | CN_CBOR_UINT | CN_CBOR_INT | CN_CBOR_BYTES | CN_CBOR_TEXT
| CN_CBOR_BYTES_CHUNKED | CN_CBOR_TEXT_CHUNKED | CN_CBOR_ARRAY | CN_CBOR_MAP | CN_CBOR_TAG | CN_CBOR_SIMPLE | CN_CBOR_DOUBLE
| CN_CBOR_FLOAT | CN_CBOR_INVALID

datatype cn_cbor_error =
  CN_CBOR_NO_ERROR | CN_CBOR_ERR_OUT_OF_DATA | CN_CBOR_ERR_NOT_ALL_DATA_CONSUMED | CN_CBOR_ERR_ODD_SIZE_INDEF_MAP
| CN_CBOR_ERR_BREAK_OUTSIDE_INDEF | CN_CBOR_ERR_MT_UNDEF_FOR_INDEF | CN_CBOR_ERR_RESERVED_AI
| CN_CBOR_ERR_WRONG_NESTING_IN_INDEF_STRING | CN_CBOR_ERR_INVALID_PARAMETER | CN_CBOR_ERR_OUT_OF_MEMORY
| CN_CBOR_ERR_FLOAT_NOT_SUPPORTED

type_synonym u64 = "64 word"

text \<open>A node is the static catcher of the decoder or a block of the heap.\<close>

datatype cref = Catcher | Cell ptr

record cn_cbor =
  cb_type :: cn_cbor_type
  fl_count :: bool
  fl_indef :: bool
  v_num :: u32
  v_str :: "u8 list"
  cb_length :: u32
  first_child :: "cref option"
  last_child :: "cref option"
  next_sib :: "cref option"
  cb_parent :: "cref option"

record cbs = sys +
  node :: "cref \<Rightarrow> cn_cbor"

definition zero_node :: cn_cbor where
  "zero_node = \<lparr>cb_type = CN_CBOR_FALSE, fl_count = False, fl_indef = False, v_num = 0, v_str = [], cb_length = 0,
     first_child = None, last_child = None, next_sib = None, cb_parent = None\<rparr>"

definition alive :: "cref \<Rightarrow> cbs \<Rightarrow> bool" where
  "alive r s = (case r of Catcher \<Rightarrow> True | Cell p \<Rightarrow> p \<in> set (live (hist s)))"

definition rd_node :: "cref \<Rightarrow> cbs \<Rightarrow> cn_cbor option" where
  "rd_node r s = (if alive r s then Some (node s r) else None)"

definition upd_node :: "cref \<Rightarrow> (cn_cbor \<Rightarrow> cn_cbor) \<Rightarrow> cbs \<Rightarrow> cbs option" where
  "upd_node r f s = (if alive r s then Some (s\<lparr>node := (node s)(r := f (node s r))\<rparr>) else None)"

definition sizeof_cn_cbor :: nat where "sizeof_cn_cbor = 40"

text \<open>\<^verbatim>\<open>CN_CALLOC\<close>: a zeroed block.\<close>

definition cn_calloc :: "env \<Rightarrow> cbs \<Rightarrow> ptr option \<times> cbs" where
  "cn_calloc e s =
     (case rt_malloc e sizeof_cn_cbor s of
        (None, s) \<Rightarrow> (None, s)
      | (Some p, s) \<Rightarrow> (Some p, s\<lparr>node := (node s)(Cell p := zero_node)\<rparr>))"

section \<open>Freeing a tree\<close>

partial_function (option) go_down :: "cref \<Rightarrow> cbs \<Rightarrow> cref option" where
  "go_down r s =
     do { n \<leftarrow> rd_node r s;
          case first_child n of None \<Rightarrow> Some r | Some c \<Rightarrow> go_down c s }"

declare go_down.simps [code]

definition free_cell :: "cref \<Rightarrow> cbs \<Rightarrow> cbs option" where
  "free_cell r s = (case r of Catcher \<Rightarrow> None | Cell p \<Rightarrow> Some (rt_free (Some p) s))"

partial_function (option) free_loop :: "cref option \<Rightarrow> cbs \<Rightarrow> cbs option" where
  "free_loop r s =
     (case r of
        None \<Rightarrow> Some s
      | Some r \<Rightarrow>
          do { r \<leftarrow> go_down r s;
               n \<leftarrow> rd_node r s;
               case next_sib n of
                 Some q \<Rightarrow> do { s \<leftarrow> free_cell r s; free_loop (Some q) s }
               | None \<Rightarrow>
                   do { s \<leftarrow> (case cb_parent n of None \<Rightarrow> Some s | Some q \<Rightarrow> upd_node q (\<lambda>m. m\<lparr>first_child := None\<rparr>) s);
                        s \<leftarrow> free_cell r s;
                        free_loop (cb_parent n) s } })"

declare free_loop.simps [code]

definition cn_cbor_free :: "cref option \<Rightarrow> cbs \<Rightarrow> cbs option" where
  "cn_cbor_free cb s =
     do { (case cb of None \<Rightarrow> Some () | Some r \<Rightarrow> do { n \<leftarrow> rd_node r s; guard (cb_parent n = None) });
          free_loop cb s }"

section \<open>Decoding\<close>

definition mt_trans :: "nat \<Rightarrow> cn_cbor_type" where
  "mt_trans mt = [CN_CBOR_UINT, CN_CBOR_INT, CN_CBOR_BYTES, CN_CBOR_TEXT, CN_CBOR_ARRAY, CN_CBOR_MAP, CN_CBOR_TAG, CN_CBOR_SIMPLE] ! mt"

text \<open>The big endian number in the next \<open>n\<close> bytes, if there are so many.\<close>

definition be_value :: "u8 list \<Rightarrow> u64" where
  "be_value bs = foldl (\<lambda>v b. push_bit 8 v + ucast b) 0 bs"

definition take_be :: "u8 list \<Rightarrow> nat \<Rightarrow> nat \<Rightarrow> cn_cbor_error + u64 \<times> nat" where
  "take_be buf pos n =
     (if n > length buf - pos then Inl CN_CBOR_ERR_OUT_OF_DATA
      else Inr (be_value (take n (drop pos buf)), pos + n))"

text \<open>The argument of an item: the additional information or the bytes that it announces.\<close>

definition decode_arg :: "u8 list \<Rightarrow> nat \<Rightarrow> nat \<Rightarrow> cn_cbor_error + u64 \<times> nat" where
  "decode_arg buf ai pos =
     (if ai = 24 then take_be buf pos 1
      else if ai = 25 then take_be buf pos 2
      else if ai = 26 then take_be buf pos 4
      else if ai = 27 then take_be buf pos 8
      else if ai \<in> {28, 29, 30} then Inl CN_CBOR_ERR_RESERVED_AI
      else Inr (of_nat ai, pos))"

text \<open>
  What the major type makes of it: the new contents of the node, the position, and whether the item
  has children that follow. The subtraction in the test for indefinite length is unsigned.
\<close>

definition decode_content ::
  "u8 list \<Rightarrow> nat \<Rightarrow> nat \<Rightarrow> u64 \<Rightarrow> nat \<Rightarrow> cn_cbor \<Rightarrow> cn_cbor_error + bool \<times> nat \<times> cn_cbor" where
  "decode_content buf mt ai val pos n =
     (if mt = 0 then Inr (False, pos, n\<lparr>v_num := ucast val\<rparr>)
      else if mt = 1 then Inr (False, pos, n\<lparr>v_num := ucast (NOT val)\<rparr>)
      else if mt = 2 \<or> mt = 3 then
        (if unat val > length buf - pos then Inl CN_CBOR_ERR_OUT_OF_DATA
         else Inr (False, pos + unat val, n\<lparr>v_str := drop pos buf, cb_length := ucast val\<rparr>))
      else if mt = 4 \<or> mt = 5 then
        (let count = ucast (if mt = 5 then push_bit 1 val else val)
         in if count \<noteq> 0 then Inr (True, pos, n\<lparr>v_num := count, fl_count := True\<rparr>)
            else Inr (False, pos, n\<lparr>v_num := 0\<rparr>))
      else if mt = 6 then Inr (True, pos, n\<lparr>v_num := ucast val\<rparr>)
      else if ai = 20 then Inr (False, pos, n\<lparr>cb_type := CN_CBOR_FALSE\<rparr>)
      else if ai = 21 then Inr (False, pos, n\<lparr>cb_type := CN_CBOR_TRUE\<rparr>)
      else if ai = 22 then Inr (False, pos, n\<lparr>cb_type := CN_CBOR_NULL\<rparr>)
      else if ai = 23 then Inr (False, pos, n\<lparr>cb_type := CN_CBOR_UNDEF\<rparr>)
      else if ai = 25 \<or> ai = 26 \<or> ai = 27 then Inl CN_CBOR_ERR_FLOAT_NOT_SUPPORTED
      else Inr (False, pos, n\<lparr>v_num := ucast val\<rparr>))"

definition indef_ok :: "nat \<Rightarrow> bool" where
  "indef_ok mt \<longleftrightarrow> (of_nat mt - 2 :: u32) \<le> 5"

text \<open>Everything between the label \<^verbatim>\<open>again\<close> and a jump: how an item is read.\<close>

datatype dec_next = Dec_fail cn_cbor_error | Dec_push ptr | Dec_fill ptr | Dec_complete

definition append_child :: "cref \<Rightarrow> ptr \<Rightarrow> cbs \<Rightarrow> cbs option" where
  "append_child parent p s =
     do { s \<leftarrow> upd_node (Cell p) (\<lambda>n. n\<lparr>cb_parent := Some parent\<rparr>) s;
          n \<leftarrow> rd_node parent s;
          s \<leftarrow> (case last_child n of
                  Some l \<Rightarrow> upd_node l (\<lambda>m. m\<lparr>next_sib := Some (Cell p)\<rparr>) s
                | None \<Rightarrow> upd_node parent (\<lambda>m. m\<lparr>first_child := Some (Cell p)\<rparr>) s);
          upd_node parent (\<lambda>m. m\<lparr>last_child := Some (Cell p), cb_length := cb_length m + 1\<rparr>) s }"

definition read_break :: "cref \<Rightarrow> cbs \<Rightarrow> (dec_next \<times> cbs) option" where
  "read_break parent s =
     do { n \<leftarrow> rd_node parent s;
          if \<not> fl_indef n then Some (Dec_fail CN_CBOR_ERR_BREAK_OUTSIDE_INDEF, s)
          else
            (case cb_type n of
               CN_CBOR_BYTES \<Rightarrow>
                 do { s \<leftarrow> upd_node parent (\<lambda>n. n\<lparr>cb_type := CN_CBOR_BYTES_CHUNKED\<rparr>) s; Some (Dec_complete, s) }
             | CN_CBOR_TEXT \<Rightarrow>
                 do { s \<leftarrow> upd_node parent (\<lambda>n. n\<lparr>cb_type := CN_CBOR_TEXT_CHUNKED\<rparr>) s; Some (Dec_complete, s) }
             | CN_CBOR_MAP \<Rightarrow>
                 (if odd (unat (cb_length n)) then Some (Dec_fail CN_CBOR_ERR_ODD_SIZE_INDEF_MAP, s)
                  else Some (Dec_complete, s))
             | _ \<Rightarrow> Some (Dec_complete, s)) }"

definition read_item :: "env \<Rightarrow> u8 list \<Rightarrow> cref \<Rightarrow> nat \<Rightarrow> cbs \<Rightarrow> (dec_next \<times> nat \<times> cbs) option" where
  "read_item e buf parent pos s =
     (if 1 > length buf - pos then Some (Dec_fail CN_CBOR_ERR_OUT_OF_DATA, pos, s)
      else do {
        b \<leftarrow> rd buf pos;
        let ib = unat b;
        let pos = pos + 1;
        if ib = 0xFF then do { (nx, s) \<leftarrow> read_break parent s; Some (nx, pos, s) }
        else
          (case cn_calloc e s of
             (None, s) \<Rightarrow> Some (Dec_fail CN_CBOR_ERR_OUT_OF_MEMORY, pos, s)
           | (Some p, s) \<Rightarrow>
               do { let mt = ib div 32;
                    let ai = ib mod 32;
                    s \<leftarrow> upd_node (Cell p) (\<lambda>n. n\<lparr>cb_type := mt_trans mt\<rparr>) s;
                    s \<leftarrow> append_child parent p s;
                    if ai = 31 then
                      (if indef_ok mt then
                         do { s \<leftarrow> upd_node (Cell p) (\<lambda>n. n\<lparr>fl_indef := True\<rparr>) s; Some (Dec_push p, pos, s) }
                       else Some (Dec_fail CN_CBOR_ERR_MT_UNDEF_FOR_INDEF, pos, s))
                    else
                      (case decode_arg buf ai pos of
                         Inl err \<Rightarrow> Some (Dec_fail err, pos, s)
                       | Inr (val, pos) \<Rightarrow>
                           do { n \<leftarrow> rd_node (Cell p) s;
                                case decode_content buf mt ai val pos n of
                                  Inl err \<Rightarrow> Some (Dec_fail err, pos, s)
                                | Inr (push, pos, n) \<Rightarrow>
                                    do { s \<leftarrow> upd_node (Cell p) (\<lambda>m. n) s;
                                         Some (if push then Dec_push p else Dec_fill p, pos, s) } }) }) })"

text \<open>What follows the label \<^verbatim>\<open>fill\<close>: the parent of an item that is complete.\<close>

definition fill_parent :: "cref \<Rightarrow> ptr \<Rightarrow> cbs \<Rightarrow> (dec_next option \<times> cbs) option" where
  "fill_parent parent cb s =
     do { n \<leftarrow> rd_node parent s;
          m \<leftarrow> rd_node (Cell cb) s;
          if fl_indef n then
            (if cb_type n \<in> {CN_CBOR_BYTES, CN_CBOR_TEXT} \<and> cb_type m \<noteq> cb_type n
             then Some (Some (Dec_fail CN_CBOR_ERR_WRONG_NESTING_IN_INDEF_STRING), s)
             else Some (None, s))
          else if fl_count n then
            do { s \<leftarrow> upd_node parent (\<lambda>n. n\<lparr>v_num := v_num n - 1\<rparr>) s;
                 Some (if v_num n - 1 \<noteq> 0 then None else Some Dec_complete, s) }
          else Some (Some Dec_complete, s) }"

text \<open>
  The jumps: \<open>Inl\<close> is at \<^verbatim>\<open>again\<close>, \<open>Inr cb\<close> at \<^verbatim>\<open>fill\<close>. The result is the error or the item, and the
  position.
\<close>

partial_function (option) decode_loop ::
  "env \<Rightarrow> u8 list \<Rightarrow> ptr option \<Rightarrow> cref \<Rightarrow> nat \<Rightarrow> cbs \<Rightarrow> ((cn_cbor_error + ptr) \<times> nat \<times> cbs) option" where
  "decode_loop e buf cb parent pos s =
     do { (nx, pos, s) \<leftarrow>
            (case cb of
               None \<Rightarrow> do { (nx, pos, s) \<leftarrow> read_item e buf parent pos s; Some (Some nx, pos, s) }
             | Some p \<Rightarrow> do { (nx, s) \<leftarrow> fill_parent parent p s; Some (nx, pos, s) });
          case nx of
            None \<Rightarrow> decode_loop e buf None parent pos s
          | Some (Dec_fail err) \<Rightarrow> Some (Inl err, pos, s)
          | Some (Dec_push p) \<Rightarrow> decode_loop e buf None (Cell p) pos s
          | Some (Dec_fill p) \<Rightarrow> decode_loop e buf (Some p) parent pos s
          | Some Dec_complete \<Rightarrow>
              (case parent of
                 Catcher \<Rightarrow>
                   (case cb of
                      None \<Rightarrow> None
                    | Some p \<Rightarrow>
                        if pos \<noteq> length buf then Some (Inl CN_CBOR_ERR_NOT_ALL_DATA_CONSUMED, pos, s)
                        else Some (Inr p, pos, s))
               | Cell q \<Rightarrow>
                   do { n \<leftarrow> rd_node parent s;
                        r \<leftarrow> cb_parent n;
                        decode_loop e buf (Some q) r pos s }) }"

declare decode_loop.simps [code]

text \<open>The error and its position, or the node; on an error everything that was built is freed.\<close>

definition cn_cbor_decode :: "env \<Rightarrow> u8 list \<Rightarrow> cbs \<Rightarrow> ((cn_cbor_error \<times> nat + ptr) \<times> cbs) option" where
  "cn_cbor_decode e buf s =
     do { let s = s\<lparr>node := (node s)(Catcher := zero_node\<lparr>cb_type := CN_CBOR_INVALID\<rparr>)\<rparr>;
          (res, pos, s) \<leftarrow> decode_loop e buf None Catcher 0 s;
          case res of
            Inr p \<Rightarrow>
              do { s \<leftarrow> upd_node (Cell p) (\<lambda>n. n\<lparr>cb_parent := None\<rparr>) s; Some (Inr p, s) }
          | Inl err \<Rightarrow>
              (case first_child (node s Catcher) of
                 None \<Rightarrow> Some (Inl (err, pos), s)
               | Some c \<Rightarrow>
                   do { s \<leftarrow> upd_node c (\<lambda>n. n\<lparr>cb_parent := None\<rparr>) s;
                        s \<leftarrow> cn_cbor_free (Some c) s;
                        Some (Inl (err, pos), s) }) }"

end
