(* ===== verification/CborWrite.thy ===== *)
theory CborWrite
  imports Cbor "HOL-Library.Signed_Division"
begin

text \<open>
  The rest of the CBOR codec: the encoder, which visits the nodes of a tree in order and writes into
  a buffer of the caller, the constructors and the look-up functions.
\<close>

section \<open>Writing\<close>

record cn_write_state =
  ws_buf :: "u8 list"
  ws_offset :: int
  ws_size :: int

text \<open>After a failure the offset is -1 and nothing more is written.\<close>

definition failed :: "cn_write_state \<Rightarrow> cn_write_state" where
  "failed ws = ws\<lparr>ws_offset := -1\<rparr>"

definition writable :: "cn_write_state \<Rightarrow> int \<Rightarrow> bool" where
  "writable ws sz \<longleftrightarrow> \<not> (ws_offset ws < 0 \<or> ws_offset ws + sz \<ge> ws_size ws)"

definition put :: "u8 list \<Rightarrow> cn_write_state \<Rightarrow> cn_write_state option" where
  "put bs ws =
     do { guard (ws_offset ws \<ge> 0);
          b \<leftarrow> wr (ws_buf ws) (nat (ws_offset ws)) bs;
          Some (ws\<lparr>ws_buf := b, ws_offset := ws_offset ws + int (length bs)\<rparr>) }"

definition put_ensured :: "u8 list \<Rightarrow> cn_write_state \<Rightarrow> cn_write_state option" where
  "put_ensured bs ws = (if writable ws (int (length bs)) then put bs ws else Some (failed ws))"

definition be_bytes :: "nat \<Rightarrow> u64 \<Rightarrow> u8 list" where
  "be_bytes n val = rev (map (\<lambda>i. ucast (drop_bit (8 * i) val)) [0..<n])"

text \<open>\<^verbatim>\<open>_xlate\<close>; \<open>None\<close> is the assertion on the type, \<open>Some 0xFF\<close> a type that has no initial byte.\<close>

definition xlate :: "cn_cbor_type \<Rightarrow> u8 option" where
  "xlate t =
     (case t of
        CN_CBOR_FALSE \<Rightarrow> Some 0xF4 | CN_CBOR_TRUE \<Rightarrow> Some 0xF5 | CN_CBOR_NULL \<Rightarrow> Some 0xF6 | CN_CBOR_UNDEF \<Rightarrow> Some 0xF7
      | CN_CBOR_UINT \<Rightarrow> Some 0x00 | CN_CBOR_INT \<Rightarrow> Some 0x20 | CN_CBOR_BYTES \<Rightarrow> Some 0x40 | CN_CBOR_TEXT \<Rightarrow> Some 0x60
      | CN_CBOR_BYTES_CHUNKED \<Rightarrow> Some 0x40 | CN_CBOR_TEXT_CHUNKED \<Rightarrow> Some 0x60 | CN_CBOR_ARRAY \<Rightarrow> Some 0x80
      | CN_CBOR_MAP \<Rightarrow> Some 0xA0 | CN_CBOR_TAG \<Rightarrow> Some 0xC0 | CN_CBOR_SIMPLE \<Rightarrow> Some 0xE0 | CN_CBOR_DOUBLE \<Rightarrow> Some 0xFF
      | CN_CBOR_FLOAT \<Rightarrow> Some 0xFF | CN_CBOR_INVALID \<Rightarrow> None)"

definition head_bytes :: "u8 \<Rightarrow> u64 \<Rightarrow> u8 list" where
  "head_bytes ib val =
     (if val < 24 then [ib OR ucast val]
      else if val < 256 then (ib OR 24) # be_bytes 1 val
      else if val < 65536 then (ib OR 25) # be_bytes 2 val
      else if val < 0x100000000 then (ib OR 26) # be_bytes 4 val
      else (ib OR 27) # be_bytes 8 val)"

definition write_positive :: "cn_cbor_type \<Rightarrow> u64 \<Rightarrow> cn_write_state \<Rightarrow> cn_write_state option" where
  "write_positive t val ws =
     do { ib \<leftarrow> xlate t;
          if ib = 0xFF then Some (failed ws) else put_ensured (head_bytes ib val) ws }"

text \<open>The \<^verbatim>\<open>int\<close> of a length, widened to 64 bits.\<close>

definition wide :: "int \<Rightarrow> u64" where "wide n = word_of_int n"

definition write_string :: "cn_cbor \<Rightarrow> cn_write_state \<Rightarrow> cn_write_state option" where
  "write_string n ws =
     do { ws \<leftarrow> write_positive (cb_type n) (wide (sint (cb_length n))) ws;
          if ws_offset ws < 0 then Some ws
          else if \<not> writable ws (sint (cb_length n)) then Some (failed ws)
          else do { guard (sint (cb_length n) \<ge> 0); bs \<leftarrow> rdn (v_str n) 0 (nat (sint (cb_length n))); put bs ws } }"

definition encoder_visitor :: "cn_cbor \<Rightarrow> cn_write_state \<Rightarrow> cn_write_state option" where
  "encoder_visitor n ws =
     (case cb_type n of
        CN_CBOR_ARRAY \<Rightarrow>
          if fl_indef n then put_ensured [0x9F] ws else write_positive CN_CBOR_ARRAY (wide (sint (cb_length n))) ws
      | CN_CBOR_MAP \<Rightarrow>
          if fl_indef n then put_ensured [0xBF] ws else write_positive CN_CBOR_MAP (wide (sint (cb_length n) sdiv 2)) ws
      | CN_CBOR_BYTES_CHUNKED \<Rightarrow> put_ensured [0x5F] ws
      | CN_CBOR_TEXT_CHUNKED \<Rightarrow> put_ensured [0x7F] ws
      | CN_CBOR_TEXT \<Rightarrow> write_string n ws
      | CN_CBOR_BYTES \<Rightarrow> write_string n ws
      | CN_CBOR_FALSE \<Rightarrow> put_ensured [0xF4] ws
      | CN_CBOR_TRUE \<Rightarrow> put_ensured [0xF5] ws
      | CN_CBOR_NULL \<Rightarrow> put_ensured [0xF6] ws
      | CN_CBOR_UNDEF \<Rightarrow> put_ensured [0xF7] ws
      | CN_CBOR_TAG \<Rightarrow> write_positive CN_CBOR_TAG (ucast (v_num n)) ws
      | CN_CBOR_UINT \<Rightarrow> write_positive CN_CBOR_UINT (ucast (v_num n)) ws
      | CN_CBOR_SIMPLE \<Rightarrow> write_positive CN_CBOR_SIMPLE (ucast (v_num n)) ws
      | CN_CBOR_INT \<Rightarrow>
          do { guard (sint (v_num n) < 0); write_positive CN_CBOR_INT (wide (sint (NOT (v_num n)))) ws }
      | CN_CBOR_DOUBLE \<Rightarrow> Some ws
      | CN_CBOR_FLOAT \<Rightarrow> Some ws
      | CN_CBOR_INVALID \<Rightarrow> Some (failed ws))"

definition encoder_breaker :: "cn_write_state \<Rightarrow> cn_write_state option" where
  "encoder_breaker ws = put_ensured [0xFF] ws"

text \<open>
  \<^verbatim>\<open>_visit\<close>: down to the children or on to the sibling (\<open>False\<close>), or up from a node that has no next
  sibling (\<open>True\<close>), until a node without a parent.
\<close>

partial_function (option) visit :: "bool \<Rightarrow> cref \<Rightarrow> cbs \<Rightarrow> cn_write_state \<Rightarrow> cn_write_state option" where
  "visit up r s ws =
     do { n \<leftarrow> rd_node r s;
          if up then
            (case cb_parent n of
               None \<Rightarrow> Some ws
             | Some q \<Rightarrow>
                 do { m \<leftarrow> rd_node q s;
                      ws \<leftarrow> (if fl_indef m then encoder_breaker ws else Some ws);
                      case next_sib m of
                        Some x \<Rightarrow> visit False x s ws
                      | None \<Rightarrow> visit True q s ws })
          else
            do { ws \<leftarrow> encoder_visitor n ws;
                 case first_child n of
                   Some c \<Rightarrow> visit False c s ws
                 | None \<Rightarrow>
                     do { ws \<leftarrow> (if fl_indef n then encoder_breaker ws else Some ws);
                          case next_sib n of
                            Some x \<Rightarrow> visit False x s ws
                          | None \<Rightarrow> visit True r s ws } } }"

declare visit.simps [code]

text \<open>The number of bytes written, or -1, and the buffer.\<close>

definition cn_cbor_encoder_write :: "u8 list \<Rightarrow> int \<Rightarrow> int \<Rightarrow> cref option \<Rightarrow> cbs \<Rightarrow> (int \<times> u8 list) option" where
  "cn_cbor_encoder_write buf buf_offset buf_size cb s =
     do { let ws = \<lparr>ws_buf = buf, ws_offset = buf_offset, ws_size = buf_size\<rparr>;
          ws \<leftarrow> (case cb of None \<Rightarrow> Some ws | Some r \<Rightarrow> visit False r s ws);
          Some (if ws_offset ws < 0 then -1 else ws_offset ws - buf_offset, ws_buf ws) }"

section \<open>Building\<close>

text \<open>A new node; \<open>None\<close> inside the result is the null pointer for a failed allocation.\<close>

definition create :: "env \<Rightarrow> (cn_cbor \<Rightarrow> cn_cbor) \<Rightarrow> cbs \<Rightarrow> ptr option \<times> cbs" where
  "create e f s =
     (case cn_calloc e s of
        (None, s) \<Rightarrow> (None, s)
      | (Some p, s) \<Rightarrow> (Some p, s\<lparr>node := (node s)(Cell p := f (node s (Cell p)))\<rparr>))"

definition cn_cbor_map_create :: "env \<Rightarrow> cbs \<Rightarrow> ptr option \<times> cbs" where
  "cn_cbor_map_create e = create e (\<lambda>n. n\<lparr>cb_type := CN_CBOR_MAP, fl_count := True\<rparr>)"

definition cn_cbor_array_create :: "env \<Rightarrow> cbs \<Rightarrow> ptr option \<times> cbs" where
  "cn_cbor_array_create e = create e (\<lambda>n. n\<lparr>cb_type := CN_CBOR_ARRAY, fl_count := True\<rparr>)"

definition cn_cbor_data_create :: "env \<Rightarrow> u8 list \<Rightarrow> u32 \<Rightarrow> cbs \<Rightarrow> ptr option \<times> cbs" where
  "cn_cbor_data_create e data len = create e (\<lambda>n. n\<lparr>cb_type := CN_CBOR_BYTES, cb_length := len, v_str := data\<rparr>)"

definition cn_cbor_string_create :: "env \<Rightarrow> u8 list \<Rightarrow> cbs \<Rightarrow> (ptr option \<times> cbs) option" where
  "cn_cbor_string_create e data s =
     do { let (r, s) = cn_calloc e s;
          case r of
            None \<Rightarrow> Some (None, s)
          | Some p \<Rightarrow>
              do { len \<leftarrow> rt_strlen data;
                   s \<leftarrow> upd_node (Cell p) (\<lambda>n. n\<lparr>cb_type := CN_CBOR_TEXT, cb_length := of_nat len, v_str := data\<rparr>) s;
                   Some (Some p, s) } }"

text \<open>The value is stored in a 32 bit member.\<close>

definition cn_cbor_int_create :: "env \<Rightarrow> u64 \<Rightarrow> cbs \<Rightarrow> ptr option \<times> cbs" where
  "cn_cbor_int_create e val =
     create e (\<lambda>n. n\<lparr>cb_type := (if sint val < 0 then CN_CBOR_INT else CN_CBOR_UINT), v_num := ucast val\<rparr>)"

definition append_kv :: "cref \<Rightarrow> cref \<Rightarrow> cref \<Rightarrow> cbs \<Rightarrow> cbs option" where
  "append_kv cb_map key val s =
     do { s \<leftarrow> upd_node key (\<lambda>n. n\<lparr>cb_parent := Some cb_map, next_sib := Some val\<rparr>) s;
          s \<leftarrow> upd_node val (\<lambda>n. n\<lparr>cb_parent := Some cb_map, next_sib := None\<rparr>) s;
          n \<leftarrow> rd_node cb_map s;
          s \<leftarrow> (case last_child n of
                  Some l \<Rightarrow> upd_node l (\<lambda>m. m\<lparr>next_sib := Some key\<rparr>) s
                | None \<Rightarrow> upd_node cb_map (\<lambda>m. m\<lparr>first_child := Some key\<rparr>) s);
          upd_node cb_map (\<lambda>m. m\<lparr>last_child := Some val, cb_length := cb_length m + 2\<rparr>) s }"

definition is_a :: "cn_cbor_type \<Rightarrow> cref option \<Rightarrow> cbs \<Rightarrow> bool option" where
  "is_a t r s = (case r of None \<Rightarrow> Some False | Some r \<Rightarrow> do { n \<leftarrow> rd_node r s; Some (cb_type n = t) })"

definition cn_cbor_map_put :: "cref option \<Rightarrow> cref option \<Rightarrow> cref option \<Rightarrow> cbs \<Rightarrow> (bool \<times> cbs) option" where
  "cn_cbor_map_put cb_map cb_key cb_value s =
     (case (cb_map, cb_key, cb_value) of
        (Some m, Some k, Some v) \<Rightarrow>
          do { ok \<leftarrow> is_a CN_CBOR_MAP (Some m) s;
               if ok then do { s \<leftarrow> append_kv m k v s; Some (True, s) } else Some (False, s) }
      | _ \<Rightarrow> Some (False, s))"

definition cn_cbor_mapput_int :: "env \<Rightarrow> cref option \<Rightarrow> u64 \<Rightarrow> cref option \<Rightarrow> cbs \<Rightarrow> (bool \<times> cbs) option" where
  "cn_cbor_mapput_int e cb_map key cb_value s =
     (case (cb_map, cb_value) of
        (Some m, Some v) \<Rightarrow>
          do { ok \<leftarrow> is_a CN_CBOR_MAP (Some m) s;
               if \<not> ok then Some (False, s)
               else
                 (case cn_cbor_int_create e key s of
                    (None, s) \<Rightarrow> Some (False, s)
                  | (Some k, s) \<Rightarrow> do { s \<leftarrow> append_kv m (Cell k) v s; Some (True, s) }) }
      | _ \<Rightarrow> Some (False, s))"

definition cn_cbor_mapput_string :: "env \<Rightarrow> cref option \<Rightarrow> u8 list \<Rightarrow> cref option \<Rightarrow> cbs \<Rightarrow> (bool \<times> cbs) option" where
  "cn_cbor_mapput_string e cb_map key cb_value s =
     (case (cb_map, cb_value) of
        (Some m, Some v) \<Rightarrow>
          do { ok \<leftarrow> is_a CN_CBOR_MAP (Some m) s;
               if \<not> ok then Some (False, s)
               else
                 do { (k, s) \<leftarrow> cn_cbor_string_create e key s;
                      case k of
                        None \<Rightarrow> Some (False, s)
                      | Some k \<Rightarrow> do { s \<leftarrow> append_kv m (Cell k) v s; Some (True, s) } } }
      | _ \<Rightarrow> Some (False, s))"

definition cn_cbor_array_append :: "cref option \<Rightarrow> cref option \<Rightarrow> cbs \<Rightarrow> (bool \<times> cbs) option" where
  "cn_cbor_array_append cb_array cb_value s =
     (case (cb_array, cb_value) of
        (Some a, Some v) \<Rightarrow>
          do { ok \<leftarrow> is_a CN_CBOR_ARRAY (Some a) s;
               if \<not> ok then Some (False, s)
               else
                 do { s \<leftarrow> upd_node v (\<lambda>n. n\<lparr>cb_parent := Some a, next_sib := None\<rparr>) s;
                      n \<leftarrow> rd_node a s;
                      s \<leftarrow> (case last_child n of
                              Some l \<Rightarrow> upd_node l (\<lambda>m. m\<lparr>next_sib := Some v\<rparr>) s
                            | None \<Rightarrow> upd_node a (\<lambda>m. m\<lparr>first_child := Some v\<rparr>) s);
                      s \<leftarrow> upd_node a (\<lambda>m. m\<lparr>last_child := Some v, cb_length := cb_length m + 1\<rparr>) s;
                      Some (True, s) } }
      | _ \<Rightarrow> Some (False, s))"

section \<open>Looking up\<close>

text \<open>The loops over the keys of a map: every other child, as long as it has a sibling.\<close>

partial_function (option) keys_loop :: "(cn_cbor \<Rightarrow> bool option) \<Rightarrow> cref option \<Rightarrow> cbs \<Rightarrow> cref option option" where
  "keys_loop match cp s =
     (case cp of
        None \<Rightarrow> Some None
      | Some r \<Rightarrow>
          do { n \<leftarrow> rd_node r s;
               case next_sib n of
                 None \<Rightarrow> Some None
               | Some v \<Rightarrow>
                   do { found \<leftarrow> match n;
                        if found then Some (Some v)
                        else do { m \<leftarrow> rd_node v s; keys_loop match (next_sib m) s } } })"

declare keys_loop.simps [code]

text \<open>Numbers are compared as words of 32 bits, \<^verbatim>\<open>unsigned long\<close> and \<^verbatim>\<open>long\<close> on the target.\<close>

definition int_key :: "u32 \<Rightarrow> cn_cbor \<Rightarrow> bool" where
  "int_key key n \<longleftrightarrow> cb_type n \<in> {CN_CBOR_UINT, CN_CBOR_INT} \<and> v_num n = key"

definition cn_cbor_mapget_int :: "cref \<Rightarrow> u32 \<Rightarrow> cbs \<Rightarrow> cref option option" where
  "cn_cbor_mapget_int cb key s =
     do { n \<leftarrow> rd_node cb s; keys_loop (\<lambda>n. Some (int_key key n)) (first_child n) s }"

definition string_key :: "u8 list \<Rightarrow> nat \<Rightarrow> cn_cbor \<Rightarrow> bool option" where
  "string_key key keylen n =
     (if cb_type n \<in> {CN_CBOR_TEXT, CN_CBOR_BYTES} \<and> cb_length n = of_nat keylen
      then do { a \<leftarrow> rdn key 0 keylen; b \<leftarrow> rdn (v_str n) 0 keylen; Some (a = b) }
      else Some False)"

definition cn_cbor_mapget_string :: "cref \<Rightarrow> u8 list \<Rightarrow> cbs \<Rightarrow> cref option option" where
  "cn_cbor_mapget_string cb key s =
     do { keylen \<leftarrow> rt_strlen key;
          n \<leftarrow> rd_node cb s;
          keys_loop (string_key key keylen) (first_child n) s }"

partial_function (option) index_loop :: "nat \<Rightarrow> cref option \<Rightarrow> cbs \<Rightarrow> cref option option" where
  "index_loop i cp s =
     (case cp of
        None \<Rightarrow> Some None
      | Some r \<Rightarrow>
          if i = 0 then Some (Some r)
          else do { n \<leftarrow> rd_node r s; index_loop (i - 1) (next_sib n) s })"

declare index_loop.simps [code]

definition cn_cbor_index :: "cref \<Rightarrow> nat \<Rightarrow> cbs \<Rightarrow> cref option option" where
  "cn_cbor_index cb idx s = do { n \<leftarrow> rd_node cb s; index_loop idx (first_child n) s }"

end
