(* ===== verification/CborTree.thy ===== *)
theory CborTree
  imports CborWrite
begin

text \<open>
  The trees that the nodes form, and what freeing and encoding do to them. A shape \<open>ptree\<close> names the
  nodes; \<open>links\<close> says that the pointers of the heap follow a forest of shapes; \<open>contents_of\<close> reads the
  values off it.
\<close>

section \<open>Forests of nodes\<close>

datatype ptree = Br (root: ptr) (kids: "ptree list")

fun nodes :: "ptree list \<Rightarrow> ptr list" where
  "nodes [] = []"
| "nodes (Br p cs # ts) = p # nodes cs @ nodes ts"

definition hd_ref :: "cref option \<Rightarrow> ptree list \<Rightarrow> cref option" where
  "hd_ref nx ts = (case ts of [] \<Rightarrow> nx | t # _ \<Rightarrow> Some (Cell (root t)))"

lemma hd_ref_simps [simp]: "hd_ref nx [] = nx" "hd_ref nx (t # ts) = Some (Cell (root t))"
  by (simp_all add: hd_ref_def)

lemma hd_ref_append [simp]: "hd_ref nx (xs @ ys) = hd_ref (hd_ref nx ys) xs"
  by (cases xs) simp_all

text \<open>The first and the last child of a node.\<close>

definition fam :: "cn_cbor \<Rightarrow> ptree list \<Rightarrow> bool" where
  "fam n cs \<longleftrightarrow> first_child n = hd_ref None cs \<and>
     last_child n = (if cs = [] then None else Some (Cell (root (last cs))))"

fun links :: "(cref \<Rightarrow> cn_cbor) \<Rightarrow> cref option \<Rightarrow> cref option \<Rightarrow> ptree list \<Rightarrow> bool" where
  "links h par nx [] \<longleftrightarrow> True"
| "links h par nx (Br p cs # ts) \<longleftrightarrow>
     cb_parent (h (Cell p)) = par \<and> next_sib (h (Cell p)) = hd_ref nx ts \<and> fam (h (Cell p)) cs \<and>
     links h (Some (Cell p)) None cs \<and> links h par nx ts"

lemma links_append: "links h par nx (xs @ ys) \<longleftrightarrow> links h par (hd_ref nx ys) xs \<and> links h par nx ys"
proof (induction xs)
  case (Cons x xs)
  then show ?case by (cases x) auto
qed simp

lemma nodes_append [simp]: "nodes (xs @ ys) = nodes xs @ nodes ys"
proof (induction xs)
  case (Cons x xs)
  then show ?case by (cases x) auto
qed simp

definition same_links :: "cn_cbor \<Rightarrow> cn_cbor \<Rightarrow> bool" where
  "same_links n m \<longleftrightarrow> cb_parent n = cb_parent m \<and> next_sib n = next_sib m \<and> first_child n = first_child m \<and>
     last_child n = last_child m"

lemma same_links_refl [simp]: "same_links n n"
  by (simp add: same_links_def)

lemma links_cong:
  "(\<And>p. p \<in> set (nodes ts) \<Longrightarrow> same_links (h (Cell p)) (h' (Cell p))) \<Longrightarrow> links h par nx ts = links h' par nx ts"
proof (induction ts arbitrary: par nx rule: nodes.induct)
  case (2 p cs ts)
  have "links h (Some (Cell p)) None cs = links h' (Some (Cell p)) None cs" by (rule 2(1)) (use 2(3) in simp)
  moreover have "links h par nx ts = links h' par nx ts" by (rule 2(2)) (use 2(3) in simp)
  moreover have "same_links (h (Cell p)) (h' (Cell p))" using 2(3) by simp
  ultimately show ?case by (auto simp: same_links_def fam_def)
qed simp

lemma root_in_nodes: "t \<in> set ts \<Longrightarrow> root t \<in> set (nodes ts)"
proof (induction ts)
  case (Cons x xs)
  then show ?case by (cases x) auto
qed simp

section \<open>Freeing\<close>

fun post :: "ptree list \<Rightarrow> ptr list" where
  "post [] = []"
| "post (Br p cs # ts) = post cs @ p # post ts"

lemma mset_post: "mset (post ts) = mset (nodes ts)"
  by (induction ts rule: nodes.induct) auto

lemma set_post [simp]: "set (post ts) = set (nodes ts)"
  using mset_post[of ts] by (metis set_mset_mset)

lemma live_map_free: "live (map C_free ps @ h) = filter (\<lambda>p. p \<notin> set ps) (live h)"
  by (induction ps) (auto simp: removeAll_filter_not_eq intro: filter_cong)

lemma rd_node_Cell: "p \<in> set (live (hist s)) \<Longrightarrow> rd_node (Cell p) s = Some (node s (Cell p))"
  by (simp add: rd_node_def alive_def)

lemma upd_node_Cell:
  "p \<in> set (live (hist s)) \<Longrightarrow> upd_node (Cell p) f s = Some (s\<lparr>node := (node s)(Cell p := f (node s (Cell p)))\<rparr>)"
  by (simp add: upd_node_def alive_def)

lemma free_loop_down:
  assumes "p \<in> set (live (hist s))" "first_child (node s (Cell p)) = Some c"
  shows "free_loop (Some (Cell p)) s = free_loop (Some c) s"
proof -
  have "go_down (Cell p) s = go_down c s"
    by (subst go_down.simps) (simp add: rd_node_Cell[OF assms(1)] assms(2))
  then show ?thesis by (subst (1 2) free_loop.simps) simp
qed

lemma free_loop_leaf:
  assumes "p \<in> set (live (hist s))" "first_child (node s (Cell p)) = None"
  shows "free_loop (Some (Cell p)) s =
    (case next_sib (node s (Cell p)) of
       Some q \<Rightarrow> free_loop (Some q) (emit (C_free p) s)
     | None \<Rightarrow>
         do { s' \<leftarrow> (case cb_parent (node s (Cell p)) of None \<Rightarrow> Some s | Some q \<Rightarrow> upd_node q (\<lambda>m. m\<lparr>first_child := None\<rparr>) s);
              free_loop (cb_parent (node s (Cell p))) (emit (C_free p) s') })"
proof -
  have "go_down (Cell p) s = Some (Cell p)"
    by (subst go_down.simps) (simp add: rd_node_Cell[OF assms(1)] assms(2))
  then show ?thesis
    by (subst free_loop.simps) (simp add: rd_node_Cell[OF assms(1)] free_cell_def rt_free_def split: option.split)
qed

definition freed :: "cref option \<Rightarrow> ptree list \<Rightarrow> cbs \<Rightarrow> cbs \<Rightarrow> bool" where
  "freed par ts s s' \<longleftrightarrow> hist s' = map C_free (rev (post ts)) @ hist s \<and>
     (\<forall>r. r \<notin> Cell ` set (nodes ts) \<longrightarrow>
        node s' r = (if par = Some r then (node s r)\<lparr>first_child := None\<rparr> else node s r))"

lemma free_forest:
  assumes "links (node s) par None ts" "ts \<noteq> []" "distinct (nodes ts)" "set (nodes ts) \<subseteq> set (live (hist s))"
    and "case par of None \<Rightarrow> True | Some q \<Rightarrow> alive q s \<and> q \<notin> Cell ` set (nodes ts)"
  shows "\<exists>s'. free_loop (hd_ref None ts) s = free_loop par s' \<and> freed par ts s s'"
  using assms
proof (induction ts arbitrary: s par rule: nodes.induct)
  case (2 p cs ts)
  let ?p = "Cell p"
  have pl: "p \<in> set (live (hist s))" using 2(6) by simp
  have lk: "cb_parent (node s ?p) = par" "next_sib (node s ?p) = hd_ref None ts" "fam (node s ?p) cs"
      "links (node s) (Some ?p) None cs" "links (node s) par None ts"
    using 2(3) by simp_all
  have pn: "p \<notin> set (nodes cs)" "p \<notin> set (nodes ts)" "set (nodes cs) \<inter> set (nodes ts) = {}"
    using 2(5) by auto
  \<comment> \<open>the children first\<close>
  obtain s1 where s1: "free_loop (Some ?p) s = free_loop (Some ?p) s1" "hist s1 = map C_free (rev (post cs)) @ hist s"
      "first_child (node s1 ?p) = None"
      "\<And>r. r \<notin> Cell ` set (nodes cs) \<Longrightarrow> r \<noteq> ?p \<Longrightarrow> node s1 r = node s r"
      "cb_parent (node s1 ?p) = par" "next_sib (node s1 ?p) = hd_ref None ts"
  proof (cases "cs = []")
    case True
    then show ?thesis using that[of s] lk(1-3) by (simp add: fam_def)
  next
    case False
    have a: "case Some ?p of None \<Rightarrow> True | Some q \<Rightarrow> alive q s \<and> q \<notin> Cell ` set (nodes cs)"
      using pl pn(1) by (auto simp: alive_def)
    obtain s1 where s1: "free_loop (hd_ref None cs) s = free_loop (Some ?p) s1" "freed (Some ?p) cs s s1"
      using 2(1)[OF lk(4) False _ _ a] 2(5,6) by auto
    have "first_child (node s ?p) = hd_ref None cs" using lk(3) by (simp add: fam_def)
    then have "free_loop (Some ?p) s = free_loop (Some ?p) s1"
      using free_loop_down[OF pl] s1(1) False by (cases cs) simp_all
    moreover have "node s1 ?p = (node s ?p)\<lparr>first_child := None\<rparr>" using s1(2) pn(1) by (auto simp: freed_def)
    ultimately show ?thesis using that[of s1] s1(2) lk(1,2) by (auto simp: freed_def)
  qed
  have pl1: "p \<in> set (live (hist s1))"
    using pl pn(1) by (simp add: s1(2) live_map_free)
  let ?s2 = "emit (C_free p) s1"
  show ?case
  proof (cases "ts = []")
    case False
    have l2: "links (node ?s2) par None ts"
    proof -
      have "node s1 (Cell q) = node s (Cell q)" if "q \<in> set (nodes ts)" for q
        using that pn s1(4)[of "Cell q"] by auto
      then have "links (node ?s2) par None ts = links (node s) par None ts"
        by (intro links_cong) (simp add: emit_def)
      then show ?thesis using lk(5) by simp
    qed
    have v2: "set (nodes ts) \<subseteq> set (live (hist ?s2))"
      using 2(6) pn by (auto simp: s1(2) live_map_free)
    have p2: "case par of None \<Rightarrow> True | Some q \<Rightarrow> alive q ?s2 \<and> q \<notin> Cell ` set (nodes ts)"
      using 2(7) by (auto simp: alive_def s1(2) live_map_free split: option.splits cref.splits)
    obtain s3 where s3: "free_loop (hd_ref None ts) ?s2 = free_loop par s3" "freed par ts ?s2 s3"
      using 2(2)[OF l2 False _ v2 p2] 2(5) by auto
    have "free_loop (Some ?p) s = free_loop par s3"
      using s1(1) free_loop_leaf[OF pl1 s1(3)] s1(6) s3(1) False by (cases ts) simp_all
    moreover have "freed par (Br p cs # ts) s s3"
      unfolding freed_def
    proof (intro conjI allI impI)
      show "hist s3 = map C_free (rev (post (Br p cs # ts))) @ hist s" using s3(2) s1(2) by (simp add: freed_def)
      fix r assume "r \<notin> Cell ` set (nodes (Br p cs # ts))"
      then have "r \<notin> Cell ` set (nodes ts)" "r \<notin> Cell ` set (nodes cs)" "r \<noteq> ?p" by auto
      then show "node s3 r = (if par = Some r then (node s r)\<lparr>first_child := None\<rparr> else node s r)"
        using s3(2) s1(4)[of r] by (simp add: freed_def emit_def)
    qed
    ultimately show ?thesis by auto
  next
    case True
    show ?thesis
    proof (cases par)
      case None
      then have "free_loop (Some ?p) s = free_loop par ?s2"
        using s1(1) free_loop_leaf[OF pl1 s1(3)] s1(5,6) True by simp
      moreover have "freed par (Br p cs # ts) s ?s2"
        using True None s1(2,4) by (auto simp: freed_def emit_def)
      ultimately show ?thesis using True by auto
    next
      case (Some q)
      let ?s3 = "emit (C_free p) (s1\<lparr>node := (node s1)(q := (node s1 q)\<lparr>first_child := None\<rparr>)\<rparr>)"
      have "alive q s1" "q \<noteq> ?p" "q \<notin> Cell ` set (nodes cs)"
        using 2(7) Some by (auto simp: alive_def s1(2) live_map_free split: cref.splits)
      then have "free_loop (Some ?p) s = free_loop par ?s3" "freed par (Br p cs # ts) s ?s3"
        using s1(1) free_loop_leaf[OF pl1 s1(3)] s1(5,6) True Some s1(2,4)
        by (auto simp: upd_node_def freed_def emit_def)
      then show ?thesis using True by auto
    qed
  qed
qed simp

text \<open>Freeing a whole tree gives back exactly its blocks, each once.\<close>

lemma cn_cbor_free_tree:
  assumes "links (node s) None None [t]" "distinct (nodes [t])" "set (nodes [t]) \<subseteq> set (live (hist s))" "frees_ok (hist s)"
  shows "\<exists>s'. cn_cbor_free (Some (Cell (root t))) s = Some s' \<and>
    live (hist s') = filter (\<lambda>p. p \<notin> set (nodes [t])) (live (hist s)) \<and> frees_ok (hist s')"
proof -
  obtain s' where s': "free_loop (hd_ref None [t]) s = free_loop None s'" "freed None [t] s s'"
    using free_forest[OF assms(1) _ assms(2,3)] by auto
  have "root t \<in> set (live (hist s))" using assms(3) root_in_nodes[of t "[t]"] by auto
  moreover have "cb_parent (node s (Cell (root t))) = None" using assms(1) by (cases t) simp
  moreover have "free_loop None s' = Some s'" by (simp add: free_loop.simps)
  moreover have "distinct (post [t])" using assms(2) mset_post[of "[t]"] mset_eq_imp_distinct_iff by blast
  moreover have "frees_ok (map C_free (rev (post [t])) @ h)"
    if "distinct (post [t])" "set (post [t]) \<subseteq> set (live h)" "frees_ok h" for h
  proof -
    have "distinct qs \<Longrightarrow> set qs \<subseteq> set (live h) \<Longrightarrow> frees_ok (map C_free qs @ h)" for qs
      using that(3) by (induction qs) (auto simp: live_map_free)
    then show ?thesis using that(1,2) by simp
  qed
  ultimately show ?thesis
    using s' assms(3,4) by (auto simp: cn_cbor_free_def rd_node_Cell freed_def live_map_free)
qed

end
