(* ===== verification/CborEncode.thy ===== *)
theory CborEncode
  imports CborTree
begin

text \<open>
  The encoder against the encoding as a function: a value is an abstract item, \<open>enc\<close> is its byte
  string, and the walk over the nodes writes exactly that, or reports that it does not fit.
\<close>

section \<open>Values and their encoding\<close>

text \<open>Type, whether the length is indefinite, number, bytes and children.\<close>

datatype cbor = Item cn_cbor_type bool u32 "u8 list" "cbor list"

definition has_number :: "cn_cbor_type \<Rightarrow> bool" where
  "has_number t \<longleftrightarrow> t \<in> {CN_CBOR_UINT, CN_CBOR_INT, CN_CBOR_TAG, CN_CBOR_SIMPLE}"

definition is_string :: "cn_cbor_type \<Rightarrow> bool" where
  "is_string t \<longleftrightarrow> t \<in> {CN_CBOR_BYTES, CN_CBOR_TEXT}"

definition item :: "cn_cbor \<Rightarrow> cbor list \<Rightarrow> cbor" where
  "item n vs = Item (cb_type n) (fl_indef n) (if has_number (cb_type n) then v_num n else 0)
     (if is_string (cb_type n) then take (unat (cb_length n)) (v_str n) else []) vs"

fun value_of :: "(cref \<Rightarrow> cn_cbor) \<Rightarrow> ptree list \<Rightarrow> cbor list" where
  "value_of h [] = []"
| "value_of h (Br p cs # ts) = item (h (Cell p)) (value_of h cs) # value_of h ts"

lemma length_value [simp]: "length (value_of h ts) = length ts"
proof (induction ts)
  case (Cons t ts)
  then show ?case by (cases t) simp
qed simp

lemma value_append [simp]: "value_of h (xs @ ys) = value_of h xs @ value_of h ys"
proof (induction xs)
  case (Cons x xs)
  then show ?case by (cases x) simp
qed simp

fun item_pieces :: "cn_cbor_type \<Rightarrow> bool \<Rightarrow> u32 \<Rightarrow> u8 list \<Rightarrow> nat \<Rightarrow> u8 list list" where
  "item_pieces CN_CBOR_ARRAY ind num bs n = [if ind then [0x9F] else head_bytes 0x80 (of_nat n)]"
| "item_pieces CN_CBOR_MAP ind num bs n = [if ind then [0xBF] else head_bytes 0xA0 (of_nat (n div 2))]"
| "item_pieces CN_CBOR_BYTES ind num bs n = [head_bytes 0x40 (of_nat (length bs)), bs]"
| "item_pieces CN_CBOR_TEXT ind num bs n = [head_bytes 0x60 (of_nat (length bs)), bs]"
| "item_pieces CN_CBOR_BYTES_CHUNKED ind num bs n = [[0x5F]]"
| "item_pieces CN_CBOR_TEXT_CHUNKED ind num bs n = [[0x7F]]"
| "item_pieces CN_CBOR_FALSE ind num bs n = [[0xF4]]"
| "item_pieces CN_CBOR_TRUE ind num bs n = [[0xF5]]"
| "item_pieces CN_CBOR_NULL ind num bs n = [[0xF6]]"
| "item_pieces CN_CBOR_UNDEF ind num bs n = [[0xF7]]"
| "item_pieces CN_CBOR_UINT ind num bs n = [head_bytes 0x00 (ucast num)]"
| "item_pieces CN_CBOR_INT ind num bs n = [head_bytes 0x20 (ucast (NOT num))]"
| "item_pieces CN_CBOR_TAG ind num bs n = [head_bytes 0xC0 (ucast num)]"
| "item_pieces CN_CBOR_SIMPLE ind num bs n = [head_bytes 0xE0 (ucast num)]"
| "item_pieces _ ind num bs n = []"

definition break_pieces :: "bool \<Rightarrow> u8 list list" where
  "break_pieces ind = (if ind then [[0xFF]] else [])"

fun pieces :: "cbor list \<Rightarrow> u8 list list" where
  "pieces [] = []"
| "pieces (Item ty ind num bs cs # vs) =
     item_pieces ty ind num bs (length cs) @ pieces cs @ break_pieces ind @ pieces vs"

definition enc :: "cbor list \<Rightarrow> u8 list" where "enc vs = concat (pieces vs)"

text \<open>What the encoder relies on: lengths that fit, strings that are there, negative numbers.\<close>

definition node_fits :: "cn_cbor \<Rightarrow> nat \<Rightarrow> bool" where
  "node_fits n k \<longleftrightarrow> k < 2 ^ 31 \<and> (cb_type n \<in> {CN_CBOR_ARRAY, CN_CBOR_MAP} \<longrightarrow> cb_length n = of_nat k) \<and>
     (is_string (cb_type n) \<longrightarrow> unat (cb_length n) \<le> length (v_str n) \<and> unat (cb_length n) < 2 ^ 31) \<and>
     (cb_type n = CN_CBOR_INT \<longrightarrow> sint (v_num n) < 0) \<and> cb_type n \<noteq> CN_CBOR_INVALID"

fun fits :: "(cref \<Rightarrow> cn_cbor) \<Rightarrow> ptree list \<Rightarrow> bool" where
  "fits h [] \<longleftrightarrow> True"
| "fits h (Br p cs # ts) \<longleftrightarrow> node_fits (h (Cell p)) (length cs) \<and> fits h cs \<and> fits h ts"

section \<open>Writing pieces\<close>

fun run :: "u8 list list \<Rightarrow> cn_write_state \<Rightarrow> cn_write_state option" where
  "run [] ws = Some ws"
| "run (b # bs) ws = do { ws \<leftarrow> put_ensured b ws; run bs ws }"

lemma run_append [simp]: "run (xs @ ys) ws = do { ws \<leftarrow> run xs ws; run ys ws }"
proof (induction xs arbitrary: ws)
  case (Cons x xs)
  then show ?case by (cases "put_ensured x ws") simp_all
qed simp

lemma run_failed: "ws_offset ws < 0 \<Longrightarrow> ws = failed ws \<Longrightarrow> run bs ws = Some ws"
  by (induction bs) (auto simp: put_ensured_def writable_def)

lemma run_writes:
  assumes "0 \<le> ws_offset ws" "ws_size ws \<le> int (length (ws_buf ws))"
  shows "\<exists>ws'. run bs ws = Some ws' \<and> length (ws_buf ws') = length (ws_buf ws) \<and>
    take (nat (ws_offset ws)) (ws_buf ws') = take (nat (ws_offset ws)) (ws_buf ws) \<and>
    drop (nat (ws_size ws)) (ws_buf ws') = drop (nat (ws_size ws)) (ws_buf ws) \<and>
    (if bs = [] then ws' = ws
     else if ws_offset ws + int (length (concat bs)) < ws_size ws
     then ws' = ws\<lparr>ws_offset := ws_offset ws + int (length (concat bs)),
            ws_buf := take (nat (ws_offset ws)) (ws_buf ws) @ concat bs @
              drop (nat (ws_offset ws) + length (concat bs)) (ws_buf ws)\<rparr>
     else ws_offset ws' = -1)"
  using assms
proof (induction bs arbitrary: ws)
  case (Cons b bs)
  show ?case
  proof (cases "writable ws (int (length b))")
    case False
    then have "run (b # bs) ws = Some (failed ws)"
      using run_failed[of "failed ws" bs] by (simp add: put_ensured_def failed_def)
    moreover have "\<not> ws_offset ws + int (length (concat (b # bs))) < ws_size ws"
      using False Cons.prems(1) by (auto simp: writable_def)
    ultimately show ?thesis by (intro exI[of _ "failed ws"]) (simp only: failed_def, simp)
  next
    case True
    let ?o = "nat (ws_offset ws)"
    let ?b = "take ?o (ws_buf ws) @ b @ drop (?o + length b) (ws_buf ws)"
    let ?ws = "ws\<lparr>ws_buf := ?b, ws_offset := ws_offset ws + int (length b)\<rparr>"
    have l: "?o + length b \<le> length (ws_buf ws)" "?o + length b \<le> nat (ws_size ws)"
      using True Cons.prems by (auto simp: writable_def)
    then have r: "run (b # bs) ws = run bs ?ws"
      using True Cons.prems(1) by (simp add: put_ensured_def put_def wr_def)
    have i: "0 \<le> ws_offset ?ws" "ws_size ?ws \<le> int (length (ws_buf ?ws))"
      using Cons.prems l by auto
    have lb: "length (take ?o (ws_buf ws)) = ?o" using l by simp
    have n: "nat (ws_offset ?ws) = ?o + length b" using Cons.prems(1) by (simp add: nat_add_distrib)
    obtain ws' where ws': "run bs ?ws = Some ws'" "length (ws_buf ws') = length (ws_buf ws)"
        "take (?o + length b) (ws_buf ws') = take (?o + length b) ?b"
        "drop (nat (ws_size ws)) (ws_buf ws') = drop (nat (ws_size ws)) ?b"
        "if bs = [] then ws' = ?ws
         else if ws_offset ?ws + int (length (concat bs)) < ws_size ws
         then ws' = ?ws\<lparr>ws_offset := ws_offset ?ws + int (length (concat bs)),
            ws_buf := take (?o + length b) ?b @ concat bs @ drop (?o + length b + length (concat bs)) ?b\<rparr>
         else ws_offset ws' = -1"
      using Cons.IH[OF i] l unfolding n by auto
    have "take ?o (take (?o + length b) (ws_buf ws')) = take ?o (take (?o + length b) ?b)" using ws'(3) by (simp only:)
    then have t: "take ?o (ws_buf ws') = take ?o (ws_buf ws)" using lb by simp
    have d: "drop (nat (ws_size ws)) ?b = drop (nat (ws_size ws)) (ws_buf ws)"
      using l by (simp add: drop_append)
    have e: "take (?o + length b) ?b = take ?o (ws_buf ws) @ b"
      "drop (?o + length b + length (concat bs)) ?b = drop (?o + length b + length (concat bs)) (ws_buf ws)"
      using lb l by (simp_all add: add.commute)
    show ?thesis
      using r ws'(1,2,4,5) t d True unfolding e
      by (intro exI[of _ ws']) (auto simp: writable_def add.assoc add.commute add.left_commute split: if_splits)
  qed
qed simp

section \<open>The walk\<close>

lemma put_ensured_negative: "put_ensured b ws = Some ws' \<Longrightarrow> ws_offset ws' < 0 \<Longrightarrow> ws' = failed ws'"
  by (auto simp: put_ensured_def put_def failed_def split: if_splits)

lemma sint_of_nat: "k < 2 ^ 31 \<Longrightarrow> sint (of_nat k :: u32) = int k"
  by (simp add: signed_of_nat signed_take_bit_int_eq_self)

lemma sint_nonneg: "0 \<le> sint (w :: u32) \<Longrightarrow> sint w = uint w"
  using sint_lt[of w] by (simp add: uint_sint take_bit_int_eq_self)

lemma word_of_int_uint_eq: "word_of_int (uint (w :: u32)) = (ucast w :: u64)"
  by (rule ucast_eq[symmetric])

lemma wide_not:
  assumes "sint (w :: u32) < 0"
  shows "wide (sint (NOT w)) = ucast (NOT w)"
proof -
  have "bit w 31" using assms bit_last_iff[of w] by simp
  then have "\<not> bit (NOT w) 31" by (simp add: bit_not_iff)
  then have "0 \<le> sint (NOT w)" using bit_last_iff[of "NOT w"] by simp
  then show ?thesis using sint_nonneg[of "NOT w"] by (simp only: wide_def word_of_int_uint_eq)
qed

lemma bind_assoc_option: "do { y \<leftarrow> do { x \<leftarrow> r; f x }; g y } = do { x \<leftarrow> r; y \<leftarrow> f x; g y }"
  for r :: "'a option"
  by (cases r) simp_all

lemma run_Nil [simp]: "run [] = Some"
  by (rule ext) simp

lemma visitor_pieces:
  assumes "node_fits n k"
  shows "encoder_visitor n ws =
    run (item_pieces (cb_type n) (fl_indef n) (v_num n) (take (unat (cb_length n)) (v_str n)) k) ws"
proof -
  note len = sint_of_nat
  have k: "k < 2 ^ 31" using assms by (simp add: node_fits_def)
  have str: "write_string n ws = run [head_bytes ib (of_nat (length (take (unat (cb_length n)) (v_str n)))),
      take (unat (cb_length n)) (v_str n)] ws"
    if "is_string (cb_type n)" "xlate (cb_type n) = Some ib" "ib \<noteq> 0xFF" for ib
  proof -
    let ?l = "unat (cb_length n)"
    have l: "?l \<le> length (v_str n)" "sint (cb_length n) = int ?l"
      using assms that(1) len[of ?l] by (auto simp: node_fits_def)
    have w: "write_positive (cb_type n) (wide (sint (cb_length n))) ws = put_ensured (head_bytes ib (of_nat ?l)) ws"
      using that(2,3) l by (simp add: write_positive_def wide_def)
    show ?thesis
    proof (cases "put_ensured (head_bytes ib (of_nat ?l)) ws")
      case None
      then show ?thesis using w l by (simp add: write_string_def)
    next
      case (Some ws1)
      show ?thesis
      proof (cases "ws_offset ws1 < 0")
        case True
        then have f: "ws1 = failed ws1" using put_ensured_negative[OF Some] by blast
        have "write_string n ws = Some ws1" using w l Some True by (simp add: write_string_def)
        moreover have "put_ensured (take ?l (v_str n)) ws1 = Some ws1"
          using True f by (auto simp: put_ensured_def writable_def)
        ultimately show ?thesis using l Some by simp
      next
        case False
        then show ?thesis
          using w l Some by (simp add: write_string_def put_ensured_def rdn_def run_Nil)
      qed
    qed
  qed
  show ?thesis
  proof (cases "cb_type n")
    case CN_CBOR_BYTES
    then show ?thesis using str[where ib = "0x40"] by (simp add: encoder_visitor_def is_string_def xlate_def)
  next
    case CN_CBOR_TEXT
    then show ?thesis using str[where ib = "0x60"] by (simp add: encoder_visitor_def is_string_def xlate_def)
  next
    case CN_CBOR_ARRAY
    then show ?thesis
      using assms len[OF k] by (simp add: encoder_visitor_def write_positive_def xlate_def node_fits_def wide_def)
  next
    case CN_CBOR_MAP
    have "int k sdiv 2 = int (k div 2)" by (simp add: signed_divide_int_def sgn_if zdiv_int)
    then show ?thesis
      using CN_CBOR_MAP assms len[OF k] by (simp add: encoder_visitor_def write_positive_def xlate_def node_fits_def wide_def)
  next
    case CN_CBOR_INT
    then show ?thesis
      using assms wide_not[of "v_num n"] by (simp add: encoder_visitor_def write_positive_def xlate_def node_fits_def)
  qed (use assms in \<open>simp_all add: encoder_visitor_def write_positive_def xlate_def node_fits_def\<close>)
qed


lemma pieces_append [simp]: "pieces (xs @ ys) = pieces xs @ pieces ys"
proof (induction xs)
  case (Cons x xs)
  then show ?case by (cases x) simp
qed simp

lemma item_pieces_value:
  "pieces [item n vs] = item_pieces (cb_type n) (fl_indef n) (v_num n) (take (unat (cb_length n)) (v_str n)) (length vs) @
     pieces vs @ break_pieces (fl_indef n)"
  by (cases "cb_type n") (simp_all add: item_def has_number_def is_string_def)

lemma links_parent: "links h par nx ts \<Longrightarrow> t \<in> set ts \<Longrightarrow> cb_parent (h (Cell (root t))) = par"
  by (induction h par nx ts rule: links.induct) auto

lemma links_last_next: "links h par nx ts \<Longrightarrow> ts \<noteq> [] \<Longrightarrow> next_sib (h (Cell (root (last ts)))) = nx"
proof (induction h par nx ts rule: links.induct)
  case (2 h par nx p cs ts)
  then show ?case by (cases "ts = []") auto
qed simp

text \<open>Going on behind a node: to its next sibling, or up.\<close>

definition go_on :: "cref \<Rightarrow> cbs \<Rightarrow> cn_write_state \<Rightarrow> cn_write_state option" where
  "go_on r s ws = (case next_sib (node s r) of Some x \<Rightarrow> visit False x s ws | None \<Rightarrow> visit True r s ws)"

lemma visit_forest:
  assumes "links (node s) par None ts" "ts \<noteq> []" "set (nodes ts) \<subseteq> set (live (hist s))" "fits (node s) ts"
  shows "visit False (Cell (root (hd ts))) s ws =
    do { ws \<leftarrow> run (pieces (value_of (node s) ts)) ws; visit True (Cell (root (last ts))) s ws }"
  using assms
proof (induction ts arbitrary: par ws rule: nodes.induct)
  case (2 p cs ts)
  let ?n = "node s (Cell p)"
  have pl: "rd_node (Cell p) s = Some ?n" using 2(5) by (simp add: rd_node_Cell)
  have lk: "next_sib ?n = hd_ref None ts" "first_child ?n = hd_ref None cs" "links (node s) (Some (Cell p)) None cs"
      "links (node s) par None ts"
    using 2(3) by (simp_all add: fam_def)
  have v: "encoder_visitor ?n ws =
      run (item_pieces (cb_type ?n) (fl_indef ?n) (v_num ?n) (take (unat (cb_length ?n)) (v_str ?n)) (length cs)) ws" for ws
    using 2(6) by (intro visitor_pieces) simp
  have b: "(if fl_indef ?n then encoder_breaker ws else Some ws) = run (break_pieces (fl_indef ?n)) ws" for ws
    by (simp add: encoder_breaker_def break_pieces_def)
  have up: "visit True (Cell (root (last cs))) s ws = do { ws \<leftarrow> run (break_pieces (fl_indef ?n)) ws; go_on (Cell p) s ws }"
    if "cs \<noteq> []" for ws
  proof -
    have l: "root (last cs) \<in> set (live (hist s))" using root_in_nodes[of "last cs" cs] that 2(5) by auto
    have "cb_parent (node s (Cell (root (last cs)))) = Some (Cell p)" using links_parent[OF lk(3)] that by simp
    then show ?thesis
      by (subst visit.simps) (simp add: rd_node_Cell[OF l] pl b go_on_def[abs_def])
  qed
  have one: "visit False (Cell p) s ws = do { ws \<leftarrow> run (pieces (value_of (node s) [Br p cs])) ws; go_on (Cell p) s ws }"
  proof (cases "cs = []")
    case True
    then show ?thesis
      using lk(2) by (subst visit.simps) (simp add: pl v b go_on_def[abs_def] item_pieces_value bind_assoc_option)
  next
    case False
    have "visit False (Cell p) s ws = do { ws \<leftarrow> encoder_visitor ?n ws; visit False (Cell (root (hd cs))) s ws }"
      using lk(2) False by (subst visit.simps) (cases cs; simp add: pl)
    also have "\<dots> = do { ws \<leftarrow> encoder_visitor ?n ws; ws \<leftarrow> run (pieces (value_of (node s) cs)) ws;
        visit True (Cell (root (last cs))) s ws }"
      using 2(1)[OF lk(3) False] 2(5,6) by simp
    finally show ?thesis
      by (simp add: v up[OF False] item_pieces_value bind_assoc_option)
  qed
  have ps: "pieces (value_of (node s) (Br p cs # ts)) = pieces (value_of (node s) [Br p cs]) @ pieces (value_of (node s) ts)"
    by (simp only: value_append[of _ "[Br p cs]" ts, simplified append_Cons append_Nil] pieces_append)
  show ?case
  proof (cases "ts = []")
    case True
    have "go_on (Cell p) s = visit True (Cell p) s" using lk(1) True by (simp add: go_on_def[abs_def])
    then show ?thesis using one unfolding True by (simp only: list.sel last.simps ptree.sel simp_thms if_True)
  next
    case False
    have a: "go_on (Cell p) s = visit False (Cell (root (hd ts))) s" using lk(1) False by (cases ts) (simp_all add: go_on_def[abs_def])
    have b: "visit False (Cell (root (hd ts))) s =
        (\<lambda>ws. do { ws \<leftarrow> run (pieces (value_of (node s) ts)) ws; visit True (Cell (root (last ts))) s ws })"
      using 2(2)[OF lk(4) False] 2(5,6) by (intro ext) simp
    show ?thesis
      using one unfolding ps run_append bind_assoc_option a b by (simp only: list.sel last_ConsR[OF False] ptree.sel)
  qed
qed simp

text \<open>The encoder on a whole tree.\<close>

lemma encoder_tree:
  assumes "links (node s) None None [t]" "set (nodes [t]) \<subseteq> set (live (hist s))" "fits (node s) [t]"
    and "0 \<le> off" "sz \<le> int (length buf)"
  shows "\<exists>n buf'. cn_cbor_encoder_write buf off sz (Some (Cell (root t))) s = Some (n, buf') \<and>
    take (nat off) buf' = take (nat off) buf \<and> drop (nat sz) buf' = drop (nat sz) buf \<and>
    (let bs = enc (value_of (node s) [t])
     in if pieces (value_of (node s) [t]) \<noteq> [] \<longrightarrow> off + int (length bs) < sz
        then n = int (length bs) \<and> take (length bs) (drop (nat off) buf') = bs
        else n = -1)"
proof -
  let ?ws = "\<lparr>ws_buf = buf, ws_offset = off, ws_size = sz\<rparr>"
  let ?ps = "pieces (value_of (node s) [t])"
  have rl: "root t \<in> set (live (hist s))" using assms(2) root_in_nodes[of t "[t]"] by auto
  have up: "visit True (Cell (root t)) s ws = Some ws" for ws
    using links_parent[OF assms(1), of t] by (subst visit.simps) (simp add: rd_node_Cell[OF rl])
  have v: "visit False (Cell (root t)) s ?ws = run ?ps ?ws"
    using visit_forest[OF assms(1) _ assms(2,3), of ?ws] by (simp add: up)
  obtain ws' where ws': "run ?ps ?ws = Some ws'" "take (nat off) (ws_buf ws') = take (nat off) buf"
      "drop (nat sz) (ws_buf ws') = drop (nat sz) buf" "length (ws_buf ws') = length buf"
      "if ?ps = [] then ws' = ?ws
       else if off + int (length (concat ?ps)) < sz
       then ws' = ?ws\<lparr>ws_offset := off + int (length (concat ?ps)),
         ws_buf := take (nat off) buf @ concat ?ps @ drop (nat off + length (concat ?ps)) buf\<rparr>
       else ws_offset ws' = -1"
    using run_writes[of ?ws ?ps] assms(4,5) by auto
  have w: "cn_cbor_encoder_write buf off sz (Some (Cell (root t))) s =
      Some (if ws_offset ws' < 0 then -1 else ws_offset ws' - off, ws_buf ws')"
    using v ws'(1) by (simp add: cn_cbor_encoder_write_def)
  show ?thesis
    using w ws'(2-5) assms(4,5)
    by (intro exI[of _ "if ws_offset ws' < 0 then -1 else ws_offset ws' - off"] exI[of _ "ws_buf ws'"])
      (auto simp: enc_def Let_def split: if_splits)
qed

text \<open>C35. The encoder writes exactly the encoding. For a tree of the heap whose lengths and numbers are
  those of its type, the encoder does not fault and writes the encoding of its value at the offset,
  and nothing else, if at least one byte of the buffer remains free behind it; otherwise it
  returns -1. In both cases it leaves the bytes in front of the offset and behind the size alone.
\<close>

theorem cbor_encoder_exact:
  assumes "links (node s) None None [t]" "set (nodes [t]) \<subseteq> set (live (hist s))" "fits (node s) [t]"
    and "0 \<le> off" "sz \<le> int (length buf)"
  shows "\<exists>n buf'. cn_cbor_encoder_write buf off sz (Some (Cell (root t))) s = Some (n, buf') \<and>
    take (nat off) buf' = take (nat off) buf \<and> drop (nat sz) buf' = drop (nat sz) buf \<and>
    (let bs = enc (value_of (node s) [t])
     in if pieces (value_of (node s) [t]) \<noteq> [] \<longrightarrow> off + int (length bs) < sz
        then n = int (length bs) \<and> take (length bs) (drop (nat off) buf') = bs
        else n = -1)"
  by (rule encoder_tree[OF assms])

text \<open>A tree to try it on: the array of 500 and the text ab.\<close>

definition small_tree :: ptree where "small_tree = Br 0 [Br 1 [], Br 2 []]"

definition small_nodes :: cbs where
  "small_nodes = \<lparr>hist = [C_malloc 2 40, C_malloc 1 40, C_malloc 0 40],
     node = (\<lambda>_. zero_node)
       (Cell 0 := zero_node\<lparr>cb_type := CN_CBOR_ARRAY, fl_count := True, cb_length := 2, first_child := Some (Cell 1),
          last_child := Some (Cell 2)\<rparr>,
        Cell 1 := zero_node\<lparr>cb_type := CN_CBOR_UINT, v_num := 500, next_sib := Some (Cell 2), cb_parent := Some (Cell 0)\<rparr>,
        Cell 2 := zero_node\<lparr>cb_type := CN_CBOR_TEXT, v_str := [97, 98, 0], cb_length := 2, cb_parent := Some (Cell 0)\<rparr>)\<rparr>"

lemma small_tree_fits:
  "links (node small_nodes) None None [small_tree]" "set (nodes [small_tree]) \<subseteq> set (live (hist small_nodes))"
  "fits (node small_nodes) [small_tree]"
  "value_of (node small_nodes) [small_tree] = [Item CN_CBOR_ARRAY False 0 []
     [Item CN_CBOR_UINT False 500 [] [], Item CN_CBOR_TEXT False 0 [97, 98] []]]"
  by (simp_all add: small_tree_def small_nodes_def zero_node_def fam_def node_fits_def is_string_def has_number_def item_def)

lemma small_tree_enc: "enc (value_of (node small_nodes) [small_tree]) = [0x82, 0x19, 0x01, 0xF4, 0x62, 97, 98]"
  unfolding small_tree_fits(4) by code_simp

theorem cbor_encoder_exact_witness:
  "\<exists>buf'. cn_cbor_encoder_write (replicate 12 0) 1 10 (Some (Cell 0)) small_nodes = Some (7, buf') \<and>
     take 7 (drop 1 buf') = [0x82, 0x19, 0x01, 0xF4, 0x62, 97, 98] \<and> drop 10 buf' = [0, 0]"
proof -
  have "root small_tree = 0" "drop 10 (replicate 12 0) = [0, 0 :: u8]" by (simp_all add: small_tree_def numeral_2_eq_2)
  then show ?thesis
    using cbor_encoder_exact[OF small_tree_fits(1-3), of 1 10 "replicate 12 0"] unfolding small_tree_enc
    by (auto simp: Let_def eval_nat_numeral)
qed

end
