(* ===== verification/CborDecode.thy ===== *)
theory CborDecode
  imports CborEncode
begin

text \<open>
  The decoder on any input: it does not fault, returns, and either frees everything that it built or
  returns the root of a tree of its own blocks. The proof follows the path from the catcher to the
  node whose children are being read.
\<close>

section \<open>The tree under construction\<close>

text \<open>
  The open nodes, innermost first, each with its finished left siblings; \<open>plug\<close> puts the finished
  children of the innermost one into them.
\<close>

type_synonym path = "(ptr \<times> ptree list) list"

fun plug :: "path \<Rightarrow> ptree list \<Rightarrow> ptree list" where
  "plug [] ts = ts"
| "plug ((q, xs) # stk) ts = plug stk (xs @ [Br q ts])"

fun cur :: "path \<Rightarrow> cref" where
  "cur [] = Catcher"
| "cur ((q, xs) # stk) = Cell q"

fun path_nodes :: "path \<Rightarrow> ptr list" where
  "path_nodes [] = []"
| "path_nodes ((q, xs) # stk) = q # nodes xs @ path_nodes stk"

fun spine :: "(cref \<Rightarrow> cn_cbor) \<Rightarrow> path \<Rightarrow> ptree list \<Rightarrow> bool" where
  "spine h [] ts \<longleftrightarrow> fam (h Catcher) ts"
| "spine h ((q, xs) # stk) ts \<longleftrightarrow>
     fam (h (Cell q)) ts \<and> next_sib (h (Cell q)) = None \<and> cb_parent (h (Cell q)) = Some (cur stk) \<and>
     links h (Some (cur stk)) (Some (Cell q)) xs \<and> spine h stk (xs @ [Br q []])"

lemma fam_last: "fam n (xs @ [Br q ts]) = fam n (xs @ [Br q us])"
  by (simp add: fam_def)

lemma mset_plug: "mset (nodes (plug stk ts)) = mset (path_nodes stk) + mset (nodes ts)"
  by (induction stk arbitrary: ts rule: path_nodes.induct) auto

lemma set_plug [simp]: "set (nodes (plug stk ts)) = set (path_nodes stk) \<union> set (nodes ts)"
  using mset_plug[of stk ts] by (metis set_mset_mset set_mset_union)

lemma distinct_plug: "distinct (nodes (plug stk ts)) \<longleftrightarrow> distinct (path_nodes stk @ nodes ts)"
  using mset_plug[of stk ts] by (metis mset_append mset_eq_imp_distinct_iff)

lemma spine_tail: "spine h stk (xs @ [Br q ts]) = spine h stk (xs @ [Br q us])"
  by (cases stk) (auto simp: fam_last[of _ xs q ts us])

lemma plug_links:
  "links h (Some Catcher) None (plug stk ts) \<and> fam (h Catcher) (plug stk ts) \<longleftrightarrow>
     spine h stk ts \<and> links h (Some (cur stk)) None ts"
proof (induction stk arbitrary: ts rule: path_nodes.induct)
  case (2 q xs stk)
  show ?case
    using 2[of "xs @ [Br q ts]"] spine_tail[of h stk xs q ts "[]"] by (auto simp: links_append)
qed auto

lemma spine_cong:
  assumes "\<And>r. r = Catcher \<or> r \<in> Cell ` set (path_nodes stk) \<Longrightarrow> same_links (h r) (h' r)"
  shows "spine h stk ts = spine h' stk ts"
  using assms
proof (induction stk arbitrary: ts rule: path_nodes.induct)
  case (2 q xs stk)
  have "links h (Some (cur stk)) (Some (Cell q)) xs = links h' (Some (cur stk)) (Some (Cell q)) xs"
    by (rule links_cong) (use 2(2) in auto)
  moreover have "same_links (h (Cell q)) (h' (Cell q))" using 2(2) by simp
  moreover have "spine h stk ys = spine h' stk ys" for ys using 2(1)[of ys] 2(2) by auto
  ultimately show ?case by (auto simp: same_links_def fam_def)
qed (auto simp: same_links_def fam_def)

text \<open>New children of the innermost open node.\<close>

lemma spine_extend:
  assumes "spine h stk ts" "distinct (path_nodes stk)"
    and "\<And>r. r = Catcher \<or> r \<in> Cell ` set (path_nodes stk) \<Longrightarrow> r \<noteq> cur stk \<Longrightarrow> same_links (h r) (h' r)"
    and "next_sib (h' (cur stk)) = next_sib (h (cur stk))" "cb_parent (h' (cur stk)) = cb_parent (h (cur stk))"
    and "fam (h' (cur stk)) us"
  shows "spine h' stk us"
proof (cases stk)
  case (Cons f stk')
  obtain q xs where f: "f = (q, xs)" by (cases f)
  have "same_links (h r) (h' r)" if "r = Catcher \<or> r \<in> Cell ` set (nodes xs @ path_nodes stk')" for r
    using assms(2) assms(3)[of r] that Cons f by auto
  then have "links h (Some (cur stk')) (Some (Cell q)) xs = links h' (Some (cur stk')) (Some (Cell q)) xs"
      "spine h stk' (xs @ [Br q []]) = spine h' stk' (xs @ [Br q []])"
    by (auto intro!: links_cong spine_cong)
  then show ?thesis using assms(1,4-6) Cons f by simp
qed (use assms(6) in simp)

section \<open>Invariant of the decoder\<close>

text \<open>\<open>X\<close> are the blocks that were allocated before.\<close>

definition dec_inv :: "ptr set \<Rightarrow> cbs \<Rightarrow> ptree list \<Rightarrow> bool" where
  "dec_inv X s ts \<longleftrightarrow> links (node s) (Some Catcher) None ts \<and> fam (node s Catcher) ts \<and> distinct (nodes ts) \<and>
     set (live (hist s)) = set (nodes ts) \<union> X \<and> set (nodes ts) \<inter> X = {} \<and> heap_ok (hist s) \<and> frees_ok (hist s) \<and>
     \<not> fl_indef (node s Catcher) \<and> \<not> fl_count (node s Catcher)"

lemma dec_inv_cur: "dec_inv X s (plug stk ts) \<Longrightarrow> alive (cur stk) s"
  by (cases stk rule: cur.cases) (auto simp: dec_inv_def alive_def)

text \<open>Assignments to the contents of a node.\<close>

lemma dec_inv_contents:
  assumes i: "dec_inv X s ts" and l: "same_links (f (node s r)) (node s r)"
    and c: "r = Catcher \<Longrightarrow> \<not> fl_indef (f (node s r)) \<and> \<not> fl_count (f (node s r))" and a: "alive r s"
  shows "\<exists>s'. upd_node r f s = Some s' \<and> s' = s\<lparr>node := (node s)(r := f (node s r))\<rparr> \<and> dec_inv X s' ts"
proof -
  let ?s = "s\<lparr>node := (node s)(r := f (node s r))\<rparr>"
  have "links (node ?s) (Some Catcher) None ts = links (node s) (Some Catcher) None ts"
    by (rule links_cong) (use l in auto)
  moreover have "fam (node ?s Catcher) ts = fam (node s Catcher) ts"
    using l by (auto simp: fam_def same_links_def)
  moreover have "\<not> fl_indef (node ?s Catcher) \<and> \<not> fl_count (node ?s Catcher)" using c i by (auto simp: dec_inv_def)
  ultimately have "dec_inv X ?s ts" using i by (simp add: dec_inv_def)
  then show ?thesis using a by (simp add: upd_node_def)
qed

lemma cn_calloc_cases:
  assumes "dec_inv X s ts"
  obtains (fails) s' where "cn_calloc e s = (None, s')" "dec_inv X s' ts"
  | (ok) p s' where "cn_calloc e s = (Some p, s')" "p = length (hist s)" "p \<notin> set (nodes ts)" "p \<notin> X"
      "dec_inv (insert p X) s' ts" "node s' = (node s)(Cell p := zero_node)"
proof (cases "e_malloc e (hist s) sizeof_cn_cbor")
  case False
  then have "cn_calloc e s = (None, emit (C_malloc_fail sizeof_cn_cbor) s)" by (simp add: cn_calloc_def rt_malloc_def)
  moreover have "dec_inv X (emit (C_malloc_fail sizeof_cn_cbor) s) ts" using assms by (simp add: dec_inv_def emit_def)
  ultimately show ?thesis by (rule fails)
next
  case True
  let ?p = "length (hist s)"
  let ?s = "(emit (C_malloc ?p sizeof_cn_cbor) s)\<lparr>node := (node s)(Cell ?p := zero_node)\<rparr>"
  have f: "?p \<notin> set (nodes ts)" "?p \<notin> X" using assms fresh_not_live[of "hist s"] by (auto simp: dec_inv_def)
  have "links (node ?s) (Some Catcher) None ts = links (node s) (Some Catcher) None ts"
    by (rule links_cong) (use f in auto)
  then have "dec_inv (insert ?p X) ?s ts" using assms f by (auto simp: dec_inv_def emit_def)
  moreover have "cn_calloc e s = (Some ?p, ?s)" using True by (simp add: cn_calloc_def rt_malloc_def emit_def)
  ultimately show ?thesis using ok[of ?p ?s] f by simp
qed

section \<open>A new child\<close>

lemma links_next:
  assumes "links h par None ts" "ts \<noteq> []" "distinct (nodes ts)"
  shows "links (h(Cell (root (last ts)) := (h (Cell (root (last ts))))\<lparr>next_sib := Some x\<rparr>)) par (Some x) ts"
proof -
  obtain xs t where ts: "ts = xs @ [t]" using assms(2) by (metis rev_exhaust)
  obtain q cs where t: "t = Br q cs" by (cases t)
  let ?h = "h(Cell q := (h (Cell q))\<lparr>next_sib := Some x\<rparr>)"
  have "q \<notin> set (nodes xs)" "q \<notin> set (nodes cs)" using assms(3) ts t by auto
  then have "links h par (Some (Cell q)) xs = links ?h par (Some (Cell q)) xs"
      "links h (Some (Cell q)) None cs = links ?h (Some (Cell q)) None cs"
    by (auto intro!: links_cong)
  then show ?thesis using assms(1) ts t by (simp add: links_append fam_def)
qed

text \<open>The assignments of \<^const>\<open>append_child\<close>, seen from the forest.\<close>

definition appended :: "cref \<Rightarrow> ptr \<Rightarrow> ptree list \<Rightarrow> (cref \<Rightarrow> cn_cbor) \<Rightarrow> cref \<Rightarrow> cn_cbor" where
  "appended par p ts h =
     (let h = h(Cell p := (h (Cell p))\<lparr>cb_parent := Some par\<rparr>);
          h = (if ts = [] then h(par := (h par)\<lparr>first_child := Some (Cell p)\<rparr>)
               else h(Cell (root (last ts)) := (h (Cell (root (last ts))))\<lparr>next_sib := Some (Cell p)\<rparr>))
      in h(par := (h par)\<lparr>last_child := Some (Cell p), cb_length := cb_length (h par) + 1\<rparr>))"

lemma appended_other:
  "r \<noteq> Cell p \<Longrightarrow> r \<noteq> par \<Longrightarrow> ts = [] \<or> r \<noteq> Cell (root (last ts)) \<Longrightarrow> appended par p ts h r = h r"
  by (auto simp: appended_def Let_def)

lemma links_appended:
  assumes "links h (Some par) None ts" "distinct (nodes ts)" "p \<notin> set (nodes ts)" "par \<notin> Cell ` set (nodes ts)" "Cell p \<noteq> par"
    and "first_child (h (Cell p)) = None" "last_child (h (Cell p)) = None" "next_sib (h (Cell p)) = None"
  shows "links (appended par p ts h) (Some par) None (ts @ [Br p []])"
proof -
  let ?h = "appended par p ts h"
  have p: "root (last ts) \<noteq> p" if "ts \<noteq> []" using that assms(3) root_in_nodes[of "last ts" ts] by auto
  have "links ?h (Some par) (Some (Cell p)) ts"
  proof (cases "ts = []")
    case False
    let ?l = "Cell (root (last ts))"
    have "links ?h (Some par) (Some (Cell p)) ts = links (h(?l := (h ?l)\<lparr>next_sib := Some (Cell p)\<rparr>)) (Some par) (Some (Cell p)) ts"
      by (rule links_cong) (use assms(3,4) False p in \<open>auto simp: appended_def Let_def\<close>)
    then show ?thesis using links_next[OF assms(1) False assms(2)] by simp
  qed simp
  then show ?thesis
    using assms(5-8) p by (auto simp: links_append fam_def appended_def Let_def)
qed

lemma spine_appended:
  assumes "spine h stk ts" "distinct (path_nodes stk @ nodes ts)" "p \<notin> set (nodes ts)" "p \<notin> set (path_nodes stk)"
  shows "spine (appended (cur stk) p ts h) stk (ts @ [Br p []])"
proof (rule spine_extend[OF assms(1)])
  have c: "cur stk \<noteq> Cell p" "\<And>q. q \<in> set (nodes ts) \<Longrightarrow> cur stk \<noteq> Cell q"
    using assms(2,4) by (cases stk rule: cur.cases; auto)+
  have l: "root (last ts) \<in> set (nodes ts)" if "ts \<noteq> []" using that root_in_nodes[of "last ts" ts] by simp
  have "fam (h (cur stk)) ts" using assms(1) by (cases stk rule: cur.cases) auto
  then show "fam (appended (cur stk) p ts h (cur stk)) (ts @ [Br p []])"
    using c l by (cases ts) (auto simp: fam_def appended_def Let_def)
  show "next_sib (appended (cur stk) p ts h (cur stk)) = next_sib (h (cur stk))"
    "cb_parent (appended (cur stk) p ts h (cur stk)) = cb_parent (h (cur stk))"
    using c l by (auto simp: appended_def Let_def)
  show "distinct (path_nodes stk)" using assms(2) by simp
  show "same_links (h r) (appended (cur stk) p ts h r)" if "r = Catcher \<or> r \<in> Cell ` set (path_nodes stk)" "r \<noteq> cur stk" for r
  proof -
    have "ts = [] \<or> r \<noteq> Cell (root (last ts))" using that(1) l assms(2) by auto
    moreover have "r \<noteq> Cell p" using that(1) assms(4) by auto
    ultimately show ?thesis using appended_other[of r p "cur stk" ts h] that(2) by simp
  qed
qed

lemma dec_inv_append:
  assumes i: "dec_inv (insert p X) s (plug stk ts)" and p: "p \<in> set (live (hist s))" "p \<notin> X" "p \<notin> set (nodes (plug stk ts))"
    and z: "first_child (node s (Cell p)) = None" "last_child (node s (Cell p)) = None" "next_sib (node s (Cell p)) = None"
  shows "append_child (cur stk) p s = Some (s\<lparr>node := appended (cur stk) p ts (node s)\<rparr>) \<and>
    dec_inv X (s\<lparr>node := appended (cur stk) p ts (node s)\<rparr>) (plug stk (ts @ [Br p []]))"
proof
  let ?h = "appended (cur stk) p ts (node s)"
  have sp: "spine (node s) stk ts" "links (node s) (Some (cur stk)) None ts"
    using i plug_links[of "node s" stk ts] by (auto simp: dec_inv_def)
  have d: "distinct (path_nodes stk @ nodes ts)" using i distinct_plug[of stk ts] by (simp add: dec_inv_def)
  have pn: "p \<notin> set (nodes ts)" "p \<notin> set (path_nodes stk)" using p(3) by auto
  have c: "cur stk \<noteq> Cell p" "cur stk \<notin> Cell ` set (nodes ts)"
    using d pn by (cases stk rule: cur.cases; auto)+
  have l: "root (last ts) \<in> set (nodes ts)" if "ts \<noteq> []" using that root_in_nodes[of "last ts" ts] by simp
  have al: "alive (cur stk) s" using dec_inv_cur[OF i] .
  have ll: "root (last ts) \<in> set (live (hist s))" if "ts \<noteq> []" using l[OF that] i by (auto simp: dec_inv_def)
  have f: "fam (node s (cur stk)) ts" using sp(1) by (cases stk rule: cur.cases) auto
  show "append_child (cur stk) p s = Some (s\<lparr>node := ?h\<rparr>)"
  proof (cases "ts = []")
    case True
    then show ?thesis
      using f al p(1) c(1) by (simp add: append_child_def upd_node_def rd_node_def alive_def fam_def appended_def Let_def split: cref.splits)
  next
    case False
    then show ?thesis
      using f al p(1) c(1) ll[OF False]
      by (simp add: append_child_def upd_node_def rd_node_def alive_def fam_def appended_def Let_def split: cref.splits)
  qed
  have "spine ?h stk (ts @ [Br p []]) \<and> links ?h (Some (cur stk)) None (ts @ [Br p []])"
    using spine_appended[OF sp(1) d pn] links_appended[OF sp(2) _ pn(1) c(2) c(1)[symmetric] z] d by simp
  then have "links ?h (Some Catcher) None (plug stk (ts @ [Br p []])) \<and> fam (?h Catcher) (plug stk (ts @ [Br p []]))"
    using plug_links[of ?h stk "ts @ [Br p []]"] by simp
  moreover have "distinct (nodes (plug stk (ts @ [Br p []])))"
    using d pn by (simp add: distinct_plug)
  moreover have "fl_indef (?h Catcher) = fl_indef (node s Catcher)" "fl_count (?h Catcher) = fl_count (node s Catcher)"
    by (simp_all add: appended_def Let_def)
  ultimately show "dec_inv X (s\<lparr>node := ?h\<rparr>) (plug stk (ts @ [Br p []]))"
    using i p pn by (auto simp: dec_inv_def)
qed

text \<open>The node is opened.\<close>

lemma plug_open: "plug ((p, ts) # stk) [] = plug stk (ts @ [Br p []])"
  by simp

section \<open>Reading an item\<close>

lemma take_be_pos: "take_be buf pos n = Inr (v, pos') \<Longrightarrow> pos \<le> length buf \<Longrightarrow> pos \<le> pos' \<and> pos' \<le> length buf"
  by (auto simp: take_be_def split: if_splits)

lemma decode_arg_pos:
  "decode_arg buf ai pos = Inr (v, pos') \<Longrightarrow> pos \<le> length buf \<Longrightarrow> pos \<le> pos' \<and> pos' \<le> length buf"
  by (auto simp: decode_arg_def dest: take_be_pos split: if_splits)

lemma decode_content_pos:
  "decode_content buf mt ai v pos n = Inr (c, pos', n') \<Longrightarrow> pos \<le> length buf \<Longrightarrow>
     pos \<le> pos' \<and> pos' \<le> length buf \<and> same_links n' n"
  by (auto simp: decode_content_def same_links_def Let_def split: if_splits)

lemma length_plug: "length (plug (f # stk) ts) = length (plug (f # stk) us)"
proof (induction stk arbitrary: f ts us)
  case (Cons g stk)
  obtain q xs p ys where fg: "f = (q, xs)" "g = (p, ys)" by (cases f; cases g)
  have "plug (f # g # stk) vs = plug (g # stk) (xs @ [Br q vs])" for vs using fg by simp
  then show ?case using Cons[of g "xs @ [Br q ts]" "xs @ [Br q us]"] by (simp del: plug.simps)
next
  case Nil
  then show ?case by (cases f) simp
qed

text \<open>At the top level there is at most one item.\<close>

definition single :: "path \<Rightarrow> ptree list \<Rightarrow> bool" where
  "single stk ts \<longleftrightarrow> (stk = [] \<longrightarrow> ts = []) \<and> length (plug stk ts) \<le> 1"

lemma single_snoc: "single stk ts \<Longrightarrow> length (plug stk (ts @ [t])) \<le> 1"
  by (cases stk) (auto simp: single_def length_plug[of _ _ "ts @ [t]" ts])

lemma single_open: "single stk ts \<Longrightarrow> single ((p, ts) # stk) []"
  using single_snoc[of stk ts "Br p []"] by (simp add: single_def)

definition read_post :: "ptr set \<Rightarrow> path \<Rightarrow> ptree list \<Rightarrow> u8 list \<Rightarrow> nat \<Rightarrow> dec_next \<Rightarrow> nat \<Rightarrow> cbs \<Rightarrow> bool" where
  "read_post X stk ts buf pos nx pos' s' \<longleftrightarrow> pos \<le> pos' \<and> pos' \<le> length buf \<and>
     (case nx of
        Dec_fail err \<Rightarrow> \<exists>us. dec_inv X s' us \<and> length us \<le> 1
      | Dec_push p \<Rightarrow> pos < pos' \<and> dec_inv X s' (plug ((p, ts) # stk) [])
      | Dec_fill p \<Rightarrow> pos < pos' \<and> dec_inv X s' (plug stk (ts @ [Br p []]))
      | Dec_complete \<Rightarrow> pos < pos' \<and> stk \<noteq> [] \<and> dec_inv X s' (plug stk ts))"

lemma read_break_total:
  assumes i: "dec_inv X s (plug stk ts)" and l: "length (plug stk ts) \<le> 1" and p: "pos < length buf"
  shows "\<exists>nx s'. read_break (cur stk) s = Some (nx, s') \<and> read_post X stk ts buf pos nx (pos + 1) s'"
proof -
  let ?n = "node s (cur stk)"
  have r: "rd_node (cur stk) s = Some ?n" using dec_inv_cur[OF i] by (simp add: rd_node_def)
  have u: "\<exists>s'. upd_node (cur stk) (\<lambda>n. n\<lparr>cb_type := t\<rparr>) s = Some s' \<and> dec_inv X s' (plug stk ts)" for t
    using dec_inv_contents[OF i _ _ dec_inv_cur[OF i], of "\<lambda>n. n\<lparr>cb_type := t\<rparr>"] i
    by (fastforce simp: same_links_def dec_inv_def)
  have ne: "stk \<noteq> []" if "fl_indef ?n" using that i by (auto simp: dec_inv_def)
  show ?thesis
    using u[of CN_CBOR_BYTES_CHUNKED] u[of CN_CBOR_TEXT_CHUNKED] i l p ne
    by (auto simp: read_break_def r read_post_def split: cn_cbor_type.split)
qed

lemma cn_calloc_live: "cn_calloc e s = (Some p, s') \<Longrightarrow> p \<in> set (live (hist s'))"
  by (auto simp: cn_calloc_def rt_malloc_def emit_def split: if_splits)

text \<open>What follows once the node is allocated and linked.\<close>

definition read_rest :: "u8 list \<Rightarrow> nat \<Rightarrow> ptr \<Rightarrow> nat \<Rightarrow> cbs \<Rightarrow> (dec_next \<times> nat \<times> cbs) option" where
  "read_rest buf ib p pos s =
     (if ib mod 32 = 31 then
        (if indef_ok (ib div 32) then do { s \<leftarrow> upd_node (Cell p) (\<lambda>n. n\<lparr>fl_indef := True\<rparr>) s; Some (Dec_push p, pos, s) }
         else Some (Dec_fail CN_CBOR_ERR_MT_UNDEF_FOR_INDEF, pos, s))
      else
        (case decode_arg buf (ib mod 32) pos of
           Inl err \<Rightarrow> Some (Dec_fail err, pos, s)
         | Inr (val, pos) \<Rightarrow>
             (case decode_content buf (ib div 32) (ib mod 32) val pos (node s (Cell p)) of
                Inl err \<Rightarrow> Some (Dec_fail err, pos, s)
              | Inr (push, pos, n) \<Rightarrow>
                  do { s \<leftarrow> upd_node (Cell p) (\<lambda>m. n) s; Some (if push then Dec_push p else Dec_fill p, pos, s) })))"

lemma read_item_new:
  assumes i: "dec_inv X s (plug stk ts)" and b: "pos < length buf" "unat (buf ! pos) \<noteq> 0xFF"
    and c: "cn_calloc e s = (Some p, s1)" "p \<notin> set (nodes (plug stk ts))" "p \<notin> X"
      "dec_inv (insert p X) s1 (plug stk ts)" "node s1 = (node s)(Cell p := zero_node)"
  obtains s3 where "read_item e buf (cur stk) pos s = read_rest buf (unat (buf ! pos)) p (pos + 1) s3"
    "node s3 = appended (cur stk) p ts ((node s)(Cell p := zero_node\<lparr>cb_type := mt_trans (unat (buf ! pos) div 32)\<rparr>))"
    "hist s3 = hist s1" "p \<in> set (live (hist s3))" "dec_inv X s3 (plug stk (ts @ [Br p []]))"
proof -
  let ?f = "\<lambda>n. n\<lparr>cb_type := mt_trans (unat (buf ! pos) div 32)\<rparr>"
  obtain s2 where s2: "upd_node (Cell p) ?f s1 = Some s2" "s2 = s1\<lparr>node := (node s1)(Cell p := ?f (node s1 (Cell p)))\<rparr>"
      "dec_inv (insert p X) s2 (plug stk ts)"
    using dec_inv_contents[OF c(4), of ?f "Cell p"] cn_calloc_live[OF c(1)] by (auto simp: same_links_def alive_def)
  let ?s3 = "s2\<lparr>node := appended (cur stk) p ts (node s2)\<rparr>"
  have pl: "p \<in> set (live (hist s2))" using cn_calloc_live[OF c(1)] s2(2) by simp
  have s3: "append_child (cur stk) p s2 = Some ?s3" "dec_inv X ?s3 (plug stk (ts @ [Br p []]))"
    using dec_inv_append[OF s2(3) pl c(3,2)] c(5) s2(2) by (simp_all add: zero_node_def)
  have rn: "rd_node (Cell p) ?s3 = Some (node ?s3 (Cell p))" using pl by (simp add: rd_node_def alive_def)
  have "read_item e buf (cur stk) pos s = read_rest buf (unat (buf ! pos)) p (pos + 1) ?s3"
    using b c(1) s2(1) s3(1) rn by (simp add: read_item_def read_rest_def Let_def rd_def split: sum.split)
  then show ?thesis using that[of ?s3] s3(2) pl c(5) s2(2) by simp
qed

lemma read_item_total:
  assumes i: "dec_inv X s (plug stk ts)" and sg: "single stk ts" and p: "pos \<le> length buf"
  shows "\<exists>nx pos' s'. read_item e buf (cur stk) pos s = Some (nx, pos', s') \<and> read_post X stk ts buf pos nx pos' s'"
proof (cases "pos < length buf")
  case False
  then show ?thesis using i sg p by (auto simp: read_item_def read_post_def single_def)
next
  case True
  let ?ib = "unat (buf ! pos)"
  have b: "rd buf pos = Some (buf ! pos)" using True by (simp add: rd_def)
  have sg': "length (plug stk ts) \<le> 1" using sg by (simp add: single_def)
  show ?thesis
  proof (cases "?ib = 0xFF")
    case ff: True
    then show ?thesis using read_break_total[OF i sg' True] b True by (fastforce simp: read_item_def)
  next
    case nf: False
    show ?thesis
      using i
    proof (cases rule: cn_calloc_cases[where e = e])
      case (fails s1)
      then show ?thesis using nf b True sg' by (auto simp: read_item_def read_post_def)
    next
      case (ok p s1)
      let ?ts = "ts @ [Br p []]"
      have fresh: "p \<notin> set (nodes (plug stk ts))" using ok by simp
      obtain s3 where s3: "read_item e buf (cur stk) pos s = read_rest buf ?ib p (pos + 1) s3"
          "p \<in> set (live (hist s3))" "dec_inv X s3 (plug stk ?ts)"
        using read_item_new[OF i True nf ok(1) fresh ok(4-6)] by blast
      have al: "alive (Cell p) s3" using s3(2) by (simp add: alive_def)
      have up: "\<exists>s'. upd_node (Cell p) f s3 = Some s' \<and> dec_inv X s' (plug stk ?ts)"
        if "same_links (f (node s3 (Cell p))) (node s3 (Cell p))" for f
        using dec_inv_contents[OF s3(3), where r = "Cell p" and f = f] that al by auto
      have l: "length (plug stk ?ts) \<le> 1" by (rule single_snoc[OF sg])
      note ib = s3(1)[unfolded read_rest_def]
      consider (indef) "?ib mod 32 = 31" | (arg) err where "?ib mod 32 \<noteq> 31" "decode_arg buf (?ib mod 32) (pos + 1) = Inl err"
        | (content) val pos1 err where "?ib mod 32 \<noteq> 31" "decode_arg buf (?ib mod 32) (pos + 1) = Inr (val, pos1)"
            "decode_content buf (?ib div 32) (?ib mod 32) val pos1 (node s3 (Cell p)) = Inl err"
        | (fine) val pos1 push pos2 n where "?ib mod 32 \<noteq> 31" "decode_arg buf (?ib mod 32) (pos + 1) = Inr (val, pos1)"
            "decode_content buf (?ib div 32) (?ib mod 32) val pos1 (node s3 (Cell p)) = Inr (push, pos2, n)"
        by (metis surj_pair sumE)
      then show ?thesis
      proof cases
        case indef
        then show ?thesis
          using ib True s3(3) l up[of "\<lambda>n. n\<lparr>fl_indef := True\<rparr>"]
          by (auto simp: read_post_def same_links_def)
      next
        case arg
        then show ?thesis using ib True s3(3) l by (auto simp: read_post_def)
      next
        case content
        then show ?thesis using ib True s3(3) l decode_arg_pos[OF content(2)] by (auto simp: read_post_def)
      next
        case fine
        then have pos: "pos + 1 \<le> pos1" "pos1 \<le> pos2" "pos2 \<le> length buf" "same_links n (node s3 (Cell p))"
          using decode_arg_pos[OF fine(2)] decode_content_pos[OF fine(3)] True by auto
        then show ?thesis
          using ib fine up[of "\<lambda>m. n"] by (auto simp: read_post_def)
      qed
    qed
  qed
qed

section \<open>The whole loop\<close>

lemma fill_parent_total:
  assumes i: "dec_inv X s (plug stk ts)" and p: "Cell p \<in> Cell ` set (nodes ts)"
  shows "\<exists>nx s'. fill_parent (cur stk) p s = Some (nx, s') \<and> dec_inv X s' (plug stk ts) \<and>
    (nx = None \<and> stk \<noteq> [] \<or> nx = Some Dec_complete \<or> (\<exists>err. nx = Some (Dec_fail err)))"
proof -
  let ?f = "\<lambda>n. n\<lparr>v_num := v_num n - 1\<rparr>"
  have pl: "p \<in> set (live (hist s))" using i p by (auto simp: dec_inv_def)
  have r: "rd_node (cur stk) s = Some (node s (cur stk))" using dec_inv_cur[OF i] by (simp add: rd_node_def)
  have ne: "stk \<noteq> []" if "fl_indef (node s (cur stk)) \<or> fl_count (node s (cur stk))" using that i by (auto simp: dec_inv_def)
  obtain s' where "upd_node (cur stk) ?f s = Some s'" "dec_inv X s' (plug stk ts)"
    using dec_inv_contents[OF i, of ?f "cur stk"] dec_inv_cur[OF i] i by (auto simp: same_links_def dec_inv_def)
  then show ?thesis using i r ne by (auto simp: fill_parent_def rd_node_Cell[OF pl])
qed

definition loop_pre :: "ptr set \<Rightarrow> u8 list \<Rightarrow> ptr option \<Rightarrow> path \<Rightarrow> ptree list \<Rightarrow> nat \<Rightarrow> cbs \<Rightarrow> bool" where
  "loop_pre X buf cb stk ts pos s \<longleftrightarrow> dec_inv X s (plug stk ts) \<and> pos \<le> length buf \<and>
     (case cb of None \<Rightarrow> single stk ts | Some p \<Rightarrow> length (plug stk ts) \<le> 1 \<and> (\<exists>us cs. ts = us @ [Br p cs]))"

definition loop_post :: "ptr set \<Rightarrow> u8 list \<Rightarrow> cn_cbor_error + ptr \<Rightarrow> nat \<Rightarrow> cbs \<Rightarrow> bool" where
  "loop_post X buf res pos s \<longleftrightarrow> pos \<le> length buf \<and>
     (case res of
        Inl err \<Rightarrow> \<exists>us. dec_inv X s us \<and> length us \<le> 1
      | Inr p \<Rightarrow> pos = length buf \<and> (\<exists>cs. dec_inv X s [Br p cs]))"

text \<open>An open node that is complete becomes a child of the next one.\<close>

lemma close_parent:
  assumes "dec_inv X s (plug ((q, xs) # stk) ts)"
  shows "cb_parent (node s (Cell q)) = Some (cur stk)" "rd_node (Cell q) s = Some (node s (Cell q))"
    "q \<in> set (live (hist s))"
proof -
  have "spine (node s) ((q, xs) # stk) ts"
    using assms plug_links[of "node s" "(q, xs) # stk" ts] by (simp add: dec_inv_def)
  then show "cb_parent (node s (Cell q)) = Some (cur stk)" by simp
  show q: "q \<in> set (live (hist s))" using assms by (auto simp: dec_inv_def)
  show "rd_node (Cell q) s = Some (node s (Cell q))" by (rule rd_node_Cell[OF q])
qed

lemma close_path:
  assumes "dec_inv X s (plug ((q, xs) # stk) ts)" "length (plug ((q, xs) # stk) ts) \<le> 1" "pos \<le> length buf"
  shows "cb_parent (node s (Cell q)) = Some (cur stk)" "loop_pre X buf (Some q) stk (xs @ [Br q ts]) pos s"
    "rd_node (Cell q) s = Some (node s (Cell q))"
  using close_parent[OF assms(1)] assms by (simp_all add: loop_pre_def)

lemma decode_loop_total:
  "loop_pre X buf cb stk ts pos s \<Longrightarrow>
     \<exists>res pos' s'. decode_loop e buf cb (cur stk) pos s = Some (res, pos', s') \<and> loop_post X buf res pos' s'"
proof (induction "(length buf - pos, case cb of None \<Rightarrow> 0 | Some p \<Rightarrow> Suc (length stk))" arbitrary: cb stk ts pos s
    rule: wf_induct_rule[OF wf_lex_prod[OF wf_less wf_less]])
  case 1
  have IH: "\<exists>res pos' s'. decode_loop e buf cb' (cur stk') pos1 s1 = Some (res, pos', s') \<and> loop_post X buf res pos' s'"
    if "length buf - pos1 < length buf - pos \<or>
        length buf - pos1 = length buf - pos \<and>
          (case cb' of None \<Rightarrow> 0 | Some p \<Rightarrow> Suc (length stk')) < (case cb of None \<Rightarrow> 0 | Some p \<Rightarrow> Suc (length stk))"
      "loop_pre X buf cb' stk' ts' pos1 s1"
    for cb' stk' ts' pos1 s1
    using 1(1)[OF _ that(2)] that(1) by (simp add: lex_prod_def)
  have i: "dec_inv X s (plug stk ts)" "pos \<le> length buf" using 1(2) by (simp_all add: loop_pre_def)
  show ?case
  proof (cases cb)
    case None
    have sg: "single stk ts" using 1(2) None by (simp add: loop_pre_def)
    then have l: "length (plug stk ts) \<le> 1" by (simp add: single_def)
    obtain nx pos1 s1 where r: "read_item e buf (cur stk) pos s = Some (nx, pos1, s1)" "read_post X stk ts buf pos nx pos1 s1"
      using read_item_total[OF i(1) sg i(2)] by blast
    show ?thesis
    proof (cases nx)
      case (Dec_fail err)
      then show ?thesis using r None by (subst decode_loop.simps) (simp add: read_post_def loop_post_def)
    next
      case (Dec_push p)
      have "loop_pre X buf None ((p, ts) # stk) [] pos1 s1"
        using r(2) Dec_push single_open[OF sg] by (simp add: read_post_def loop_pre_def)
      from IH[OF _ this] show ?thesis
        using r Dec_push None by (subst decode_loop.simps) (auto simp: read_post_def)
    next
      case (Dec_fill p)
      have "loop_pre X buf (Some p) stk (ts @ [Br p []]) pos1 s1"
        using r(2) Dec_fill single_snoc[OF sg] by (simp add: read_post_def loop_pre_def)
      from IH[OF _ this] show ?thesis
        using r Dec_fill None by (subst decode_loop.simps) (auto simp: read_post_def)
    next
      case Dec_complete
      then have c: "pos < pos1" "pos1 \<le> length buf" "stk \<noteq> []" "dec_inv X s1 (plug stk ts)" using r(2) by (simp_all add: read_post_def)
      obtain q xs stk' where stk: "stk = (q, xs) # stk'" using c(3) by (cases stk) auto
      note cl = close_path[OF c(4)[unfolded stk] l[unfolded stk] c(2)]
      from IH[OF _ cl(2)] show ?thesis
        using r(1) Dec_complete None stk cl(1,3) c(1,2) by (subst decode_loop.simps) auto
    qed
  next
    case (Some p)
    obtain us cs where ts: "ts = us @ [Br p cs]" and l: "length (plug stk ts) \<le> 1" using 1(2) Some by (auto simp: loop_pre_def)
    obtain nx s1 where r: "fill_parent (cur stk) p s = Some (nx, s1)" "dec_inv X s1 (plug stk ts)"
        "nx = None \<and> stk \<noteq> [] \<or> nx = Some Dec_complete \<or> (\<exists>err. nx = Some (Dec_fail err))"
      using fill_parent_total[OF i(1), of p] ts by auto
    from r(3) consider (again) "nx = None" "stk \<noteq> []" | (complete) "nx = Some Dec_complete" | (fails) err where "nx = Some (Dec_fail err)"
      by auto
    then show ?thesis
    proof cases
      case again
      have "loop_pre X buf None stk ts pos s1" using r(2) again(2) l i(2) by (simp add: loop_pre_def single_def)
      from IH[OF _ this] show ?thesis
        using r(1) again Some by (subst decode_loop.simps) auto
    next
      case fails
      then show ?thesis using r(1,2) Some l i(2) by (subst decode_loop.simps) (auto simp: loop_post_def)
    next
      case complete
      show ?thesis
      proof (cases stk)
        case Nil
        then have "us = []" using l ts by (cases us) auto
        then show ?thesis
          using r(1,2) Some complete Nil ts i(2) by (subst decode_loop.simps) (auto simp: loop_post_def)
      next
        case (Cons f stk')
        obtain q xs where stk: "stk = (q, xs) # stk'" using Cons by (cases f) auto
        note cl = close_path[OF r(2)[unfolded stk] l[unfolded stk] i(2)]
        from IH[OF _ cl(2)] show ?thesis
          using r(1) complete Some stk cl(1,3) by (subst decode_loop.simps) auto
      qed
    qed
  qed
qed

section \<open>The decoder\<close>

lemma links_top:
  assumes "links h (Some Catcher) None [t]" "distinct (nodes [t])"
  shows "links (h(Cell (root t) := (h (Cell (root t)))\<lparr>cb_parent := None\<rparr>)) None None [t]"
proof -
  obtain p cs where t: "t = Br p cs" by (cases t)
  have "links h (Some (Cell p)) None cs = links (h(Cell p := (h (Cell p))\<lparr>cb_parent := None\<rparr>)) (Some (Cell p)) None cs"
    by (rule links_cong) (use assms(2) t in auto)
  then show ?thesis using assms(1) t by (simp add: fam_def)
qed

lemma dec_inv_top:
  assumes "dec_inv X s [t]"
  shows "\<exists>s'. upd_node (Cell (root t)) (\<lambda>n. n\<lparr>cb_parent := None\<rparr>) s = Some s' \<and> hist s' = hist s \<and>
    node s' = (node s)(Cell (root t) := (node s (Cell (root t)))\<lparr>cb_parent := None\<rparr>) \<and>
    links (node s') None None [t]"
proof -
  have "root t \<in> set (live (hist s))" using assms root_in_nodes[of t "[t]"] by (auto simp: dec_inv_def)
  then show ?thesis using assms links_top[of "node s" t] by (simp add: upd_node_Cell dec_inv_def)
qed

lemma dec_inv_start:
  assumes "heap_ok (hist s)" "frees_ok (hist s)"
  shows "dec_inv (set (live (hist s))) (s\<lparr>node := (node s)(Catcher := zero_node\<lparr>cb_type := CN_CBOR_INVALID\<rparr>)\<rparr>) (plug [] [])"
  using assms by (simp add: dec_inv_def fam_def zero_node_def)

lemma decode_loop_start:
  assumes "heap_ok (hist s)" "frees_ok (hist s)"
  obtains res pos s1 where
    "decode_loop e buf None Catcher 0 (s\<lparr>node := (node s)(Catcher := zero_node\<lparr>cb_type := CN_CBOR_INVALID\<rparr>)\<rparr>) = Some (res, pos, s1)"
    "loop_post (set (live (hist s))) buf res pos s1"
proof -
  have "loop_pre (set (live (hist s))) buf None [] [] 0 (s\<lparr>node := (node s)(Catcher := zero_node\<lparr>cb_type := CN_CBOR_INVALID\<rparr>)\<rparr>)"
    using dec_inv_start[OF assms] by (simp add: loop_pre_def single_def)
  from decode_loop_total[OF this, of e] show ?thesis using that by auto
qed

lemma decode_total:
  assumes "heap_ok (hist s)" "frees_ok (hist s)"
  shows "\<exists>res s'. cn_cbor_decode e buf s = Some (res, s') \<and> frees_ok (hist s') \<and>
    (case res of
       Inl (err, pos) \<Rightarrow> pos \<le> length buf \<and> set (live (hist s')) = set (live (hist s))
     | Inr p \<Rightarrow>
         (\<exists>t. root t = p \<and> links (node s') None None [t] \<and> distinct (nodes [t]) \<and>
            set (nodes [t]) \<inter> set (live (hist s)) = {} \<and> set (live (hist s')) = set (nodes [t]) \<union> set (live (hist s))) \<and>
         (\<exists>s''. cn_cbor_free (Some (Cell p)) s' = Some s'' \<and> frees_ok (hist s'') \<and>
            set (live (hist s'')) = set (live (hist s))))"
proof -
  let ?X = "set (live (hist s))"
  obtain res pos s1 where d:
      "decode_loop e buf None Catcher 0 (s\<lparr>node := (node s)(Catcher := zero_node\<lparr>cb_type := CN_CBOR_INVALID\<rparr>)\<rparr>) = Some (res, pos, s1)"
      "loop_post ?X buf res pos s1"
    by (rule decode_loop_start[OF assms])
  have tree: "\<exists>s2 s3. upd_node (Cell (root t)) (\<lambda>n. n\<lparr>cb_parent := None\<rparr>) s1 = Some s2 \<and> hist s2 = hist s1 \<and>
      links (node s2) None None [t] \<and> cn_cbor_free (Some (Cell (root t))) s2 = Some s3 \<and> frees_ok (hist s3) \<and>
      set (live (hist s3)) = ?X" if i: "dec_inv ?X s1 [t]" for t
  proof -
    obtain s2 where s2: "upd_node (Cell (root t)) (\<lambda>n. n\<lparr>cb_parent := None\<rparr>) s1 = Some s2" "hist s2 = hist s1"
        "links (node s2) None None [t]"
      using dec_inv_top[OF i] by blast
    obtain s3 where s3: "cn_cbor_free (Some (Cell (root t))) s2 = Some s3"
        "live (hist s3) = filter (\<lambda>p. p \<notin> set (nodes [t])) (live (hist s2))" "frees_ok (hist s3)"
      using cn_cbor_free_tree[OF s2(3)] i s2(2) by (auto simp: dec_inv_def)
    moreover have "set (live (hist s3)) = ?X" using s3(2) s2(2) i by (auto simp: dec_inv_def)
    ultimately show ?thesis using s2 by blast
  qed
  show ?thesis
  proof (cases res)
    case (Inl err)
    then obtain us where us: "dec_inv ?X s1 us" "length us \<le> 1" "pos \<le> length buf" using d(2) by (auto simp: loop_post_def)
    show ?thesis
    proof (cases us)
      case Nil
      then show ?thesis using d(1) Inl us by (simp add: cn_cbor_decode_def dec_inv_def fam_def)
    next
      case (Cons t us')
      then have t: "us = [t]" using us(2) by simp
      then have "first_child (node s1 Catcher) = Some (Cell (root t))" using us(1) by (simp add: dec_inv_def fam_def)
      then show ?thesis using d(1) Inl us(3) tree[OF us(1)[unfolded t]] by (auto simp: cn_cbor_decode_def)
    qed
  next
    case (Inr p)
    then obtain cs where cs: "dec_inv ?X s1 [Br p cs]" using d(2) by (auto simp: loop_post_def)
    obtain s2 s3 where s2: "upd_node (Cell p) (\<lambda>n. n\<lparr>cb_parent := None\<rparr>) s1 = Some s2" "hist s2 = hist s1"
        "links (node s2) None None [Br p cs]" "cn_cbor_free (Some (Cell p)) s2 = Some s3" "frees_ok (hist s3)"
        "set (live (hist s3)) = ?X"
      using tree[OF cs] by auto
    have "root (Br p cs) = p \<and> links (node s2) None None [Br p cs] \<and> distinct (nodes [Br p cs]) \<and>
        set (nodes [Br p cs]) \<inter> ?X = {} \<and> set (live (hist s2)) = set (nodes [Br p cs]) \<union> ?X"
      using cs s2(2,3) by (simp add: dec_inv_def)
    moreover have "cn_cbor_decode e buf s = Some (Inr p, s2)" using d(1) Inr s2(1) by (simp add: cn_cbor_decode_def)
    moreover have "frees_ok (hist s2)" using cs s2(2) by (simp add: dec_inv_def)
    ultimately show ?thesis using s2(4-6) by (fastforce intro!: exI[of _ "Br p cs"])
  qed
qed

text \<open>C34. The decoder is total. On any bytes, whatever memory is left, it reads nothing outside the input,
  touches no node that is not allocated, and returns. When it reports an error, the position is
  inside the input and every block that it allocated is free again, each freed once. When it returns
  an item, this is the root of a tree, well linked and of blocks of its own, which are all that it
  allocated; freeing the item gives back all of them.
\<close>

theorem cbor_decode_total:
  assumes "heap_ok (hist s)" "frees_ok (hist s)"
  shows "\<exists>res s'. cn_cbor_decode e buf s = Some (res, s') \<and> frees_ok (hist s') \<and>
    (case res of
       Inl (err, pos) \<Rightarrow> pos \<le> length buf \<and> set (live (hist s')) = set (live (hist s))
     | Inr p \<Rightarrow>
         (\<exists>t. root t = p \<and> links (node s') None None [t] \<and> distinct (nodes [t]) \<and>
            set (nodes [t]) \<inter> set (live (hist s)) = {} \<and> set (live (hist s')) = set (nodes [t]) \<union> set (live (hist s))) \<and>
         (\<exists>s''. cn_cbor_free (Some (Cell p)) s' = Some s'' \<and> frees_ok (hist s'') \<and>
            set (live (hist s'')) = set (live (hist s))))"
  by (rule decode_total[OF assms])

text \<open>Evaluation of the decoder on given bytes.\<close>

lemmas decoder_eval = cn_cbor_decode_def decode_loop.simps read_item_def read_break_def fill_parent_def append_child_def
  cn_calloc_def rt_malloc_def emit_def rd_node_def upd_node_def alive_def decode_arg_def decode_content_def take_be_def
  be_value_def rd_def zero_node_def mt_trans_def indef_ok_def good_env_def

theorem cbor_decode_total_witness:
  "\<exists>p s' s''. cn_cbor_decode good_env [0x82, 0x01, 0x20] \<lparr>hist = [], node = (\<lambda>_. zero_node)\<rparr> = Some (Inr p, s') \<and>
     live (hist s') = [2, 1, 0] \<and> cn_cbor_free (Some (Cell p)) s' = Some s'' \<and> live (hist s'') = []"
proof -
  let ?s = "\<lparr>hist = [], node = (\<lambda>_. zero_node)\<rparr> :: cbs"
  obtain p s' where d: "cn_cbor_decode good_env [0x82, 0x01, 0x20] ?s = Some (Inr p, s')" "live (hist s') = [2, 1, 0]"
    by (simp cong: bind_weak add: decoder_eval)
  have "heap_ok (hist ?s)" "frees_ok (hist ?s)" by simp_all
  from cbor_decode_total[OF this, of good_env "[0x82, 0x01, 0x20]"] show ?thesis using d by auto
qed

text \<open>An input that ends too early: the error, its position, and nothing is left.\<close>

lemma decode_short_input:
  "\<exists>s'. cn_cbor_decode good_env [0x82, 0x01] \<lparr>hist = [], node = (\<lambda>_. zero_node)\<rparr> =
       Some (Inl (CN_CBOR_ERR_OUT_OF_DATA, 2), s') \<and> live (hist s') = []"
proof -
  let ?s = "\<lparr>hist = [], node = (\<lambda>_. zero_node)\<rparr> :: cbs"
  have d: "\<exists>s1. decode_loop good_env [0x82, 0x01] None Catcher 0 (?s\<lparr>node := (node ?s)(Catcher := zero_node\<lparr>cb_type := CN_CBOR_INVALID\<rparr>)\<rparr>) =
      Some (Inl CN_CBOR_ERR_OUT_OF_DATA, 2, s1)"
    by (simp cong: bind_weak add: decoder_eval)
  have "heap_ok (hist ?s)" "frees_ok (hist ?s)" by simp_all
  from decode_total[OF this, of good_env "[0x82, 0x01]"] show ?thesis
    using d by (auto simp: cn_cbor_decode_def Let_def split: option.splits bind_splits)
qed

end
