(* ===== verification/CborRoundtrip.thy ===== *)
theory CborRoundtrip
  imports CborDecode
begin

text \<open>
  Decoding what was encoded: on the encoding of a well-formed value the decoder builds a tree with
  that value, if memory lasts; with the encoder's theorem, writing a tree and reading it back gives
  an equal tree.
\<close>

section \<open>Big endian numbers and heads\<close>

lemma be_bytes_Suc: "be_bytes (Suc n) v = ucast (drop_bit (8 * n) v) # be_bytes n v"
  by (simp add: be_bytes_def)

lemma length_be_bytes [simp]: "length (be_bytes n v) = n"
  by (simp add: be_bytes_def)

lemma split_byte: "push_bit n (take_bit 8 (drop_bit n v)) + take_bit n v = take_bit (n + 8) (v :: u64)"
proof -
  have "push_bit n (drop_bit n (take_bit (n + 8) v)) + take_bit n (take_bit (n + 8) v) = take_bit (n + 8) v"
    by (rule bits_ident)
  then show ?thesis by (simp add: drop_bit_take_bit)
qed

lemma ucast_byte: "(ucast (ucast v :: u8) :: u64) = take_bit 8 v"
  by (simp add: unsigned_ucast_eq)

lemma foldl_be_bytes:
  "foldl (\<lambda>v b. push_bit 8 v + ucast (b :: u8)) a (be_bytes n v) = push_bit (8 * n) a + take_bit (8 * n) (v :: u64)"
proof (induction n arbitrary: a)
  case (Suc n)
  have "push_bit (8 * n) (push_bit 8 a + take_bit 8 (drop_bit (8 * n) v)) + take_bit (8 * n) v =
      push_bit (8 * n + 8) a + take_bit (8 * n + 8) v"
    using split_byte[of "8 * n" v] by (simp add: push_bit_add add.assoc)
  then show ?case by (simp add: be_bytes_Suc Suc ucast_byte add.commute[of _ 8])
qed (simp add: be_bytes_def)

lemma be_value_bytes: "take_bit (8 * n) v = v \<Longrightarrow> be_value (be_bytes n v) = v"
  by (simp add: be_value_def foldl_be_bytes)

lemma take_be_bytes:
  assumes "drop pos buf = be_bytes n v @ rest" "take_bit (8 * n) v = v"
  shows "take_be buf pos n = Inr (v, pos + n)"
proof -
  have "length buf - pos = n + length rest" using arg_cong[OF assms(1), of length] by simp
  then show ?thesis using assms be_value_bytes[OF assms(2)] by (simp add: take_be_def)
qed

text \<open>The additional information of a head.\<close>

definition head_ai :: "u64 \<Rightarrow> nat" where
  "head_ai v = (if v < 24 then unat v else if v < 256 then 24 else if v < 65536 then 25 else if v < 0x100000000 then 26 else 27)"

lemma head_ai_less: "head_ai v < 28"
proof (cases "v < 24")
  case True
  then have "unat v < 24" by (simp add: word_less_nat_alt)
  then show ?thesis using True by (simp add: head_ai_def)
qed (simp add: head_ai_def)

lemma or_initial: "mt < 8 \<Longrightarrow> k < 28 \<Longrightarrow> unat ((of_nat (32 * mt) :: u8) OR of_nat k) = 32 * mt + k"
proof -
  have "\<forall>mt \<in> {..<8}. \<forall>k \<in> {..<28::nat}. unat ((of_nat (32 * mt) :: u8) OR of_nat k) = 32 * mt + k"
    by code_simp
  then show "mt < 8 \<Longrightarrow> k < 28 \<Longrightarrow> unat ((of_nat (32 * mt) :: u8) OR of_nat k) = 32 * mt + k" by simp
qed

lemma take_bit_below:
  "v < 0x100 \<Longrightarrow> take_bit 8 (v :: u64) = v" "v < 0x10000 \<Longrightarrow> take_bit 16 v = v" "v < 0x100000000 \<Longrightarrow> take_bit 32 v = v"
  by (rule word_uint_eqI; simp add: unsigned_take_bit_eq take_bit_int_eq_self word_less_def)+

lemma head_decodes:
  assumes "drop pos buf = head_bytes (of_nat (32 * mt)) v @ rest" "mt < 8"
  shows "pos < length buf" "unat (buf ! pos) = 32 * mt + head_ai v"
    "decode_arg buf (head_ai v) (pos + 1) = Inr (v, pos + length (head_bytes (of_nat (32 * mt)) v))"
proof -
  define bs where "bs = tl (head_bytes (of_nat (32 * mt)) v)"
  define b where "b = hd (head_bytes (of_nat (32 * mt)) v)"
  have h: "head_bytes (of_nat (32 * mt)) v = b # bs" by (simp add: b_def bs_def head_bytes_def)
  have d: "drop pos buf = b # bs @ rest" using assms(1) h by simp
  then show p: "pos < length buf" by (metis drop_all list.distinct(1) not_le)
  have bp: "buf ! pos = b" using d p by (metis Cons_nth_drop_Suc list.inject)
  have d1: "drop (pos + 1) buf = bs @ rest" using d p by (metis Cons_nth_drop_Suc Suc_eq_plus1 list.inject)
  note o = or_initial[OF assms(2)]
  have s: "(ucast v :: u8) = of_nat (unat v)" by (rule ucast_eq[of v, unfolded uint_nat of_int_of_nat_eq])
  have "unat b = 32 * mt + head_ai v"
    using o[of "unat v"] o[of 24] o[of 25] o[of 26] o[of 27]
    by (auto simp: b_def head_bytes_def head_ai_def word_less_nat_alt)
  then show "unat (buf ! pos) = 32 * mt + head_ai v" using bp by simp
  show "decode_arg buf (head_ai v) (pos + 1) = Inr (v, pos + length (head_bytes (of_nat (32 * mt)) v))"
  proof (cases "v < 24")
    case True
    then have "unat v < 24" by (simp add: word_less_nat_alt)
    then show ?thesis using True by (simp add: head_ai_def decode_arg_def head_bytes_def)
  next
    case False
    have t: "take_bit 64 v = v" by (simp add: take_bit_word_beyond_length_eq)
    show ?thesis
      using False d1 take_be_bytes[of "pos + 1" buf 1 v rest] take_be_bytes[of "pos + 1" buf 2 v rest]
        take_be_bytes[of "pos + 1" buf 4 v rest] take_be_bytes[of "pos + 1" buf 8 v rest]
        take_bit_below[of v] t
      by (auto simp: bs_def head_ai_def decode_arg_def head_bytes_def)
  qed
qed

section \<open>Well-formed values\<close>

fun type_of :: "cbor \<Rightarrow> cn_cbor_type" where
  "type_of (Item t ind num bs cs) = t"

definition item_ok :: "cn_cbor_type \<Rightarrow> bool \<Rightarrow> u32 \<Rightarrow> u8 list \<Rightarrow> cbor list \<Rightarrow> bool" where
  "item_ok t ind num bs cs \<longleftrightarrow> length cs < 2 ^ 31 \<and> length bs < 2 ^ 31 \<and> (\<not> has_number t \<longrightarrow> num = 0) \<and> (\<not> is_string t \<longrightarrow> bs = []) \<and>
     (case t of
        CN_CBOR_ARRAY \<Rightarrow> True
      | CN_CBOR_MAP \<Rightarrow> even (length cs)
      | CN_CBOR_TAG \<Rightarrow> \<not> ind \<and> length cs = 1
      | CN_CBOR_BYTES_CHUNKED \<Rightarrow> ind \<and> (\<forall>v \<in> set cs. type_of v = CN_CBOR_BYTES)
      | CN_CBOR_TEXT_CHUNKED \<Rightarrow> ind \<and> (\<forall>v \<in> set cs. type_of v = CN_CBOR_TEXT)
      | CN_CBOR_INT \<Rightarrow> \<not> ind \<and> cs = [] \<and> sint num < 0
      | CN_CBOR_SIMPLE \<Rightarrow> \<not> ind \<and> cs = [] \<and> (num < 20 \<or> 24 \<le> num \<and> num < 256)
      | CN_CBOR_DOUBLE \<Rightarrow> False | CN_CBOR_FLOAT \<Rightarrow> False | CN_CBOR_INVALID \<Rightarrow> False
      | _ \<Rightarrow> \<not> ind \<and> cs = [])"

fun wf_values :: "cbor list \<Rightarrow> bool" where
  "wf_values [] \<longleftrightarrow> True"
| "wf_values (Item t ind num bs cs # vs) \<longleftrightarrow> item_ok t ind num bs cs \<and> wf_values cs \<and> wf_values vs"

lemma wf_values_iff: "wf_values vs \<longleftrightarrow> (\<forall>v \<in> set vs. wf_values [v])"
proof (induction vs)
  case (Cons v vs)
  then show ?case by (cases v) auto
qed simp

lemma enc_Nil [simp]: "enc [] = []"
  by (simp add: enc_def)

lemma enc_append [simp]: "enc (xs @ ys) = enc xs @ enc ys"
  by (simp add: enc_def)

lemma enc_Cons: "enc (v # vs) = enc [v] @ enc vs"
  using enc_append[of "[v]" vs] by simp

section \<open>What decoding leaves alone\<close>

definition vals :: "cn_cbor \<Rightarrow> cn_cbor_type \<times> bool \<times> bool \<times> u32 \<times> u8 list \<times> u32" where
  "vals n = (cb_type n, fl_count n, fl_indef n, v_num n, v_str n, cb_length n)"

definition agree :: "cref set \<Rightarrow> (cref \<Rightarrow> cn_cbor) \<Rightarrow> (cref \<Rightarrow> cn_cbor) \<Rightarrow> bool" where
  "agree R h h' \<longleftrightarrow> (\<forall>r \<in> R. vals (h' r) = vals (h r))"

lemma agree_refl [simp]: "agree R h h"
  by (simp add: agree_def)

lemma agree_trans: "agree R h h' \<Longrightarrow> agree R' h' h'' \<Longrightarrow> agree (R \<inter> R') h h''"
  by (simp add: agree_def)

lemma agree_mono: "agree R h h' \<Longrightarrow> R' \<subseteq> R \<Longrightarrow> agree R' h h'"
  by (auto simp: agree_def)

text \<open>The catcher, the open nodes and everything that is finished.\<close>

definition outer :: "path \<Rightarrow> ptree list \<Rightarrow> cref set" where
  "outer stk ts = insert Catcher (Cell ` (set (path_nodes stk) \<union> set (nodes ts)))"

lemma outer_open: "outer ((p, ts) # stk) us = insert (Cell p) (outer stk ts \<union> Cell ` set (nodes us))"
  by (auto simp: outer_def)

lemma value_agree: "agree (Cell ` set (nodes ts)) h h' \<Longrightarrow> value_of h' ts = value_of h ts"
proof (induction ts rule: nodes.induct)
  case (2 p cs ts)
  then have "vals (h' (Cell p)) = vals (h (Cell p))" "agree (Cell ` set (nodes cs)) h h'" "agree (Cell ` set (nodes ts)) h h'"
    by (auto simp: agree_def)
  then show ?case using 2 by (simp add: item_def vals_def)
qed simp

text \<open>A new node: its parent counts it, all others keep their values.\<close>

definition counted :: "nat \<Rightarrow> cn_cbor \<Rightarrow> cn_cbor" where
  "counted k n = n\<lparr>cb_length := cb_length n + of_nat k\<rparr>"

definition changed :: "(cn_cbor \<Rightarrow> cn_cbor) \<Rightarrow> path \<Rightarrow> ptree list \<Rightarrow> (cref \<Rightarrow> cn_cbor) \<Rightarrow> (cref \<Rightarrow> cn_cbor) \<Rightarrow> bool" where
  "changed f stk ts h h' \<longleftrightarrow> agree (outer stk ts - {cur stk}) h h' \<and> vals (h' (cur stk)) = vals (f (h (cur stk)))"

abbreviation grown :: "nat \<Rightarrow> path \<Rightarrow> ptree list \<Rightarrow> (cref \<Rightarrow> cn_cbor) \<Rightarrow> (cref \<Rightarrow> cn_cbor) \<Rightarrow> bool" where
  "grown k \<equiv> changed (counted k)"

lemma vals_appended:
  "r \<noteq> par \<Longrightarrow> vals (appended par p ts h r) = vals (h r)"
  "vals (appended par p ts h par) = vals (counted 1 (h par))"
  by (auto simp: appended_def Let_def vals_def counted_def)

lemma grown_appended:
  assumes "Cell p \<notin> outer stk ts"
  shows "grown 1 stk ts h ((appended (cur stk) p ts (h(Cell p := m)))(Cell p := n))"
proof -
  have c: "cur stk \<in> outer stk ts" by (cases stk rule: cur.cases) (auto simp: outer_def)
  then have "cur stk \<noteq> Cell p" using assms by auto
  then have "vals (((appended (cur stk) p ts (h(Cell p := m)))(Cell p := n)) (cur stk)) = vals (counted 1 (h (cur stk)))"
    by (simp add: vals_appended(2) counted_def)
  then show ?thesis using assms by (auto simp: changed_def agree_def vals_appended(1))
qed

section \<open>Reading the head of an item\<close>

lemma decode_content_update:
  "decode_content buf mt ai v pos (n\<lparr>cb_parent := q\<rparr>) =
     map_sum id (map_prod id (map_prod id (\<lambda>n. n\<lparr>cb_parent := q\<rparr>))) (decode_content buf mt ai v pos n)"
  unfolding decode_content_def Let_def by (simp split: if_split)

lemma decode_content_parent:
  "decode_content buf mt ai v pos n = Inr (c, pos', n') \<Longrightarrow>
     decode_content buf mt ai v pos (n\<lparr>cb_parent := q\<rparr>) = Inr (c, pos', n'\<lparr>cb_parent := q\<rparr>)"
  by (simp add: decode_content_update)

lemma decode_content_links: "decode_content buf mt ai v pos n = Inr (c, pos', n') \<Longrightarrow> same_links n' n"
  by (auto simp: decode_content_def same_links_def Let_def split: if_splits)

definition plenty :: "env \<Rightarrow> bool" where
  "plenty e \<longleftrightarrow> (\<forall>h. e_malloc e h sizeof_cn_cbor)"

lemma not_outer: "p \<notin> set (nodes (plug stk ts)) \<Longrightarrow> Cell p \<notin> outer stk ts"
  by (auto simp: outer_def)

text \<open>A fresh node in its place, for the next item at \<open>pos\<close>.\<close>

lemma new_node:
  assumes i: "dec_inv X s (plug stk ts)" and m: "plenty e" and b: "pos < length buf" "unat (buf ! pos) = ib" "ib \<noteq> 0xFF"
  obtains p s3 where "read_item e buf (cur stk) pos s = read_rest buf ib p (pos + 1) s3"
    "Cell p \<notin> outer stk ts" "p \<in> set (live (hist s3))" "dec_inv X s3 (plug stk (ts @ [Br p []]))"
    "node s3 (Cell p) = zero_node\<lparr>cb_type := mt_trans (ib div 32), cb_parent := Some (cur stk)\<rparr>"
    "\<forall>n. grown 1 stk ts (node s) ((node s3)(Cell p := n))"
  using i
proof (cases rule: cn_calloc_cases[where e = e])
  case (fails s')
  then have False using m by (auto simp: cn_calloc_def rt_malloc_def plenty_def split: if_splits)
  then show ?thesis by simp
next
  case (ok p s1)
  have fresh: "p \<notin> set (nodes (plug stk ts))" using ok(3) .
  have nff: "unat (buf ! pos) \<noteq> 0xFF" using b by simp
  obtain s3 where s3: "read_item e buf (cur stk) pos s = read_rest buf (unat (buf ! pos)) p (pos + 1) s3"
      "node s3 = appended (cur stk) p ts ((node s)(Cell p := zero_node\<lparr>cb_type := mt_trans (unat (buf ! pos) div 32)\<rparr>))"
      "p \<in> set (live (hist s3))" "dec_inv X s3 (plug stk (ts @ [Br p []]))"
    using read_item_new[OF i b(1) nff ok(1) fresh ok(4-6)] by blast
  have o: "Cell p \<notin> outer stk ts" by (rule not_outer[OF fresh])
  moreover have "cur stk \<in> outer stk ts" by (cases stk rule: cur.cases) (auto simp: outer_def)
  ultimately have "Cell p \<noteq> cur stk" by auto
  moreover have "ts \<noteq> [] \<Longrightarrow> root (last ts) \<noteq> p" using fresh root_in_nodes[of "last ts" ts] by auto
  ultimately have "node s3 (Cell p) = zero_node\<lparr>cb_type := mt_trans (ib div 32), cb_parent := Some (cur stk)\<rparr>"
    using s3(2) b(2) by (auto simp: appended_def Let_def)
  then show ?thesis
    using that[of p s3] s3 b(2) o grown_appended[OF o] by simp
qed

text \<open>The node of an item with a head, with the values that its content gives it.\<close>

lemma read_head:
  assumes i: "dec_inv X s (plug stk ts)" and m: "plenty e"
    and d: "drop pos buf = head_bytes (of_nat (32 * mt)) v @ rest" "mt < 8"
    and c: "decode_content buf mt (head_ai v) v (pos + length (head_bytes (of_nat (32 * mt)) v))
        (zero_node\<lparr>cb_type := mt_trans mt\<rparr>) = Inr (push, pos', n)"
  obtains p s' where
    "read_item e buf (cur stk) pos s = Some (if push then Dec_push p else Dec_fill p, pos', s')"
    "dec_inv X s' (plug stk (ts @ [Br p []]))" "grown 1 stk ts (node s) (node s')" "vals (node s' (Cell p)) = vals n"
    "Cell p \<notin> outer stk ts"
proof -
  note h = head_decodes[OF d]
  have ib: "32 * mt + head_ai v \<noteq> 0xFF" "(32 * mt + head_ai v) div 32 = mt" "(32 * mt + head_ai v) mod 32 = head_ai v"
      "head_ai v \<noteq> 31"
    using head_ai_less[of v] d(2) by auto
  obtain p s3 where s3: "read_item e buf (cur stk) pos s = read_rest buf (32 * mt + head_ai v) p (pos + 1) s3"
      "Cell p \<notin> outer stk ts" "p \<in> set (live (hist s3))" "dec_inv X s3 (plug stk (ts @ [Br p []]))"
      "node s3 (Cell p) = zero_node\<lparr>cb_type := mt_trans mt, cb_parent := Some (cur stk)\<rparr>"
      "\<forall>n. grown 1 stk ts (node s) ((node s3)(Cell p := n))"
    by (rule new_node[OF i m h(1,2) ib(1), unfolded ib(2)])
  let ?n = "n\<lparr>cb_parent := Some (cur stk)\<rparr>"
  have c': "decode_content buf mt (head_ai v) v (pos + length (head_bytes (of_nat (32 * mt)) v)) (node s3 (Cell p)) =
      Inr (push, pos', ?n)"
    using decode_content_parent[OF c, of "Some (cur stk)"] s3(5) by simp
  have sl: "same_links ?n (node s3 (Cell p))"
    using decode_content_links[OF c] s3(5) by (simp add: same_links_def)
  have al: "alive (Cell p) s3" using s3(3) by (simp add: alive_def)
  obtain s4 where s4: "upd_node (Cell p) (\<lambda>m. ?n) s3 = Some s4" "s4 = s3\<lparr>node := (node s3)(Cell p := ?n)\<rparr>"
      "dec_inv X s4 (plug stk (ts @ [Br p []]))"
    using dec_inv_contents[OF s3(4), where r = "Cell p" and f = "\<lambda>m. ?n"] sl al by auto
  have "read_item e buf (cur stk) pos s = Some (if push then Dec_push p else Dec_fill p, pos', s4)"
    using s3(1) h(3) c' s4(1) ib by (simp add: read_rest_def)
  moreover have "vals (node s4 (Cell p)) = vals n" using s4(2) by (simp add: vals_def)
  moreover have "grown 1 stk ts (node s) (node s4)" using s3(6) s4(2) by simp
  ultimately show ?thesis using that[of p s4] s4(3) s3(2) by simp
qed

lemma read_indef:
  assumes i: "dec_inv X s (plug stk ts)" and m: "plenty e" and d: "drop pos buf = b # rest" "unat b = 32 * mt + 31" "mt = 2 \<or> mt = 3 \<or> mt = 4 \<or> mt = 5"
  obtains p s' where "read_item e buf (cur stk) pos s = Some (Dec_push p, pos + 1, s')"
    "dec_inv X s' (plug stk (ts @ [Br p []]))" "grown 1 stk ts (node s) (node s')"
    "vals (node s' (Cell p)) = vals (zero_node\<lparr>cb_type := mt_trans mt, fl_indef := True\<rparr>)" "Cell p \<notin> outer stk ts"
proof -
  have p: "pos < length buf" using d(1) by (metis drop_all list.distinct(1) not_le)
  have bp: "unat (buf ! pos) = 32 * mt + 31" using d p by (metis Cons_nth_drop_Suc list.inject)
  have ib: "32 * mt + 31 \<noteq> 0xFF" "(32 * mt + 31) div 32 = mt" "(32 * mt + 31) mod 32 = 31" "indef_ok mt"
    using d(3) by (auto simp: indef_ok_def)
  obtain p s3 where s3: "read_item e buf (cur stk) pos s = read_rest buf (32 * mt + 31) p (pos + 1) s3"
      "Cell p \<notin> outer stk ts" "p \<in> set (live (hist s3))" "dec_inv X s3 (plug stk (ts @ [Br p []]))"
      "node s3 (Cell p) = zero_node\<lparr>cb_type := mt_trans mt, cb_parent := Some (cur stk)\<rparr>"
      "\<forall>n. grown 1 stk ts (node s) ((node s3)(Cell p := n))"
    by (rule new_node[OF i m p bp ib(1), unfolded ib(2)])
  let ?f = "\<lambda>n. n\<lparr>fl_indef := True\<rparr>"
  obtain s4 where s4: "upd_node (Cell p) ?f s3 = Some s4" "s4 = s3\<lparr>node := (node s3)(Cell p := ?f (node s3 (Cell p)))\<rparr>"
      "dec_inv X s4 (plug stk (ts @ [Br p []]))"
    using dec_inv_contents[OF s3(4), where r = "Cell p" and f = ?f] s3(3) by (auto simp: alive_def same_links_def)
  have "read_item e buf (cur stk) pos s = Some (Dec_push p, pos + 1, s4)"
    using s3(1) s4(1) ib by (simp add: read_rest_def)
  moreover have "grown 1 stk ts (node s) (node s4)" using s3(6) s4(2) by simp
  moreover have "vals (node s4 (Cell p)) = vals (zero_node\<lparr>cb_type := mt_trans mt, fl_indef := True\<rparr>)"
    using s3(5) s4(2) by (simp add: vals_def)
  ultimately show ?thesis using that[of p s4] s4(3) s3(2) by simp
qed

section \<open>Reading the children\<close>

lemma vals_fields:
  "vals n = vals m \<longleftrightarrow> cb_type n = cb_type m \<and> fl_count n = fl_count m \<and> fl_indef n = fl_indef m \<and> v_num n = v_num m \<and>
     v_str n = v_str m \<and> cb_length n = cb_length m"
  by (simp add: vals_def)

lemma item_vals: "vals n = vals m \<Longrightarrow> item n vs = item m vs"
  by (simp add: item_def vals_def)

lemma cur_not_kid:
  assumes "dec_inv X s (plug stk ts)"
  shows "cur stk \<notin> Cell ` set (nodes ts)"
proof -
  have "distinct (path_nodes stk @ nodes ts)" using assms distinct_plug[of stk ts] by (simp add: dec_inv_def)
  then show ?thesis by (cases stk rule: cur.cases) auto
qed

lemma outer_append: "outer stk (ts @ us) = outer stk ts \<union> Cell ` set (nodes us)"
  by (auto simp: outer_def)

lemma changed_trans:
  assumes "changed f stk ts h h'" "changed g stk (ts @ us) h' h''" "\<And>n m. vals n = vals m \<Longrightarrow> vals (g n) = vals (g m)"
  shows "changed (\<lambda>n. g (f n)) stk ts h h''"
  using assms(1,2) assms(3)[of "h' (cur stk)" "f (h (cur stk))"] by (auto simp: changed_def agree_def outer_append)

lemma changed_value:
  assumes "changed f stk (ts @ us) h h'" "cur stk \<notin> Cell ` set (nodes us)"
  shows "value_of h' us = value_of h us"
proof (rule value_agree)
  show "agree (Cell ` set (nodes us)) h h'"
    using assms by (auto simp: changed_def outer_append intro: agree_mono)
qed

lemma changed_cur: "changed f stk ts h (h(cur stk := f (h (cur stk))))"
  by (simp add: changed_def agree_def)

lemma close_item:
  assumes "changed g stk ts h h3" "Cell p \<notin> outer stk ts" "changed f ((p, ts) # stk) [] h3 h'"
  shows "changed g stk ts h h'" "vals (h' (Cell p)) = vals (f (h3 (Cell p)))"
proof -
  have "agree (outer stk ts) h3 h'" using assms(2,3) by (auto simp: changed_def outer_open intro: agree_mono)
  moreover have "cur stk \<in> outer stk ts" by (cases stk rule: cur.cases) (auto simp: outer_def)
  ultimately show "changed g stk ts h h'" using assms(1) by (auto simp: changed_def agree_def)
  show "vals (h' (Cell p)) = vals (f (h3 (Cell p)))" using assms(3) by (simp add: changed_def)
qed

text \<open>Reading one item from its encoding.\<close>

definition item_done :: "env \<Rightarrow> u8 list \<Rightarrow> ptr set \<Rightarrow> cbor \<Rightarrow> bool" where
  "item_done e buf X v \<longleftrightarrow> (\<forall>stk ts pos s rest. dec_inv X s (plug stk ts) \<longrightarrow> drop pos buf = enc [v] @ rest \<longrightarrow>
     (\<exists>p cs s'. decode_loop e buf None (cur stk) pos s = decode_loop e buf (Some p) (cur stk) (pos + length (enc [v])) s' \<and>
        dec_inv X s' (plug stk (ts @ [Br p cs])) \<and> value_of (node s') [Br p cs] = [v] \<and> grown 1 stk ts (node s) (node s')))"

lemma item_doneE:
  assumes "item_done e buf X v" "dec_inv X s (plug stk ts)" "drop pos buf = enc [v] @ rest"
  obtains p cs s' where
    "decode_loop e buf None (cur stk) pos s = decode_loop e buf (Some p) (cur stk) (pos + length (enc [v])) s'"
    "dec_inv X s' (plug stk (ts @ [Br p cs]))" "value_of (node s') [Br p cs] = [v]" "grown 1 stk ts (node s) (node s')"
    "drop (pos + length (enc [v])) buf = rest" "p \<in> set (live (hist s'))"
proof -
  obtain p cs s' where r:
    "decode_loop e buf None (cur stk) pos s = decode_loop e buf (Some p) (cur stk) (pos + length (enc [v])) s'"
    "dec_inv X s' (plug stk (ts @ [Br p cs]))" "value_of (node s') [Br p cs] = [v]" "grown 1 stk ts (node s) (node s')"
    using assms unfolding item_done_def by blast
  moreover have "drop (pos + length (enc [v])) buf = rest" using assms(3) by (metis add.commute append_eq_conv_conj drop_drop)
  moreover have "p \<in> set (live (hist s'))" using r(2) by (auto simp: dec_inv_def)
  ultimately show ?thesis using that by blast
qed

lemma value_type: "value_of h [Br p cs] = [v] \<Longrightarrow> cb_type (h (Cell p)) = type_of v"
  by (auto simp: item_def)

lemma indef_children:
  assumes "\<forall>v \<in> set vs. item_done e buf X v" "dec_inv X s (plug ((q, xs) # stk) ts)" "fl_indef (node s (Cell q))"
    and "cb_type (node s (Cell q)) \<in> {CN_CBOR_BYTES, CN_CBOR_TEXT} \<longrightarrow> (\<forall>v \<in> set vs. type_of v = cb_type (node s (Cell q)))"
    and "drop pos buf = enc vs @ rest"
  shows "\<exists>us s'. decode_loop e buf None (Cell q) pos s = decode_loop e buf None (Cell q) (pos + length (enc vs)) s' \<and>
    dec_inv X s' (plug ((q, xs) # stk) (ts @ us)) \<and> value_of (node s') us = vs \<and>
    grown (length vs) ((q, xs) # stk) ts (node s) (node s') \<and> drop (pos + length (enc vs)) buf = rest"
  using assms
proof (induction vs arbitrary: ts pos s)
  case Nil
  have "grown 0 ((q, xs) # stk) ts (node s) (node s)" by (simp add: changed_def counted_def)
  then show ?case using Nil by (intro exI[of _ "[]"] exI[of _ s]) simp
next
  case (Cons v vs)
  let ?stk = "(q, xs) # stk"
  obtain p cs s1 where p: "decode_loop e buf None (cur ?stk) pos s = decode_loop e buf (Some p) (cur ?stk) (pos + length (enc [v])) s1"
    "dec_inv X s1 (plug ?stk (ts @ [Br p cs]))" "value_of (node s1) [Br p cs] = [v]" "grown 1 ?stk ts (node s) (node s1)"
    "drop (pos + length (enc [v])) buf = enc vs @ rest" "p \<in> set (live (hist s1))"
    by (rule item_doneE[of e buf X v s ?stk ts pos "enc vs @ rest"]) (use Cons.prems in \<open>simp_all add: enc_Cons[of v vs]\<close>)
  have q: "fl_indef (node s1 (Cell q))" "cb_type (node s1 (Cell q)) = cb_type (node s (Cell q))"
    using p(4) Cons.prems(3) by (simp_all add: changed_def vals_def counted_def)
  have "fill_parent (Cell q) p s1 = Some (None, s1)"
    using close_parent(2)[OF p(2)] rd_node_Cell[OF p(6)] q Cons.prems(4) value_type[OF p(3)] by (auto simp: fill_parent_def)
  then have l: "decode_loop e buf (Some p) (Cell q) (pos + length (enc [v])) s1 = decode_loop e buf None (Cell q) (pos + length (enc [v])) s1"
    by (subst decode_loop.simps) simp
  obtain us s2 where s2: "decode_loop e buf None (Cell q) (pos + length (enc [v])) s1 =
      decode_loop e buf None (Cell q) (pos + length (enc [v]) + length (enc vs)) s2"
    "dec_inv X s2 (plug ?stk ((ts @ [Br p cs]) @ us))" "value_of (node s2) us = vs"
    "grown (length vs) ?stk (ts @ [Br p cs]) (node s1) (node s2)" "drop (pos + length (enc [v]) + length (enc vs)) buf = rest"
    using Cons.IH[OF _ p(2) _ _ p(5)] Cons.prems(1,4) q by auto
  have "value_of (node s2) [Br p cs] = [v]"
    using changed_value[OF s2(4) _] cur_not_kid[OF p(2)] p(3) by (simp add: image_Un)
  then have "value_of (node s2) ([Br p cs] @ us) = [v] @ vs" using s2(3) by (simp only: value_append)
  moreover have "grown (length (v # vs)) ?stk ts (node s) (node s2)"
    using changed_trans[OF p(4) s2(4)] by (simp add: counted_def vals_def changed_def add.assoc)
  moreover have "dec_inv X s2 (plug ?stk (ts @ ([Br p cs] @ us)))" using s2(2) by (simp del: plug.simps)
  ultimately show ?case
    using p(1) l s2(1,5) unfolding enc_Cons[of v vs]
    by (intro exI[of _ "[Br p cs] @ us"] exI[of _ s2]) (simp del: plug.simps value_of.simps add: add.assoc)
qed


text \<open>The children of a container that announced their number.\<close>

definition taken :: "nat \<Rightarrow> cn_cbor \<Rightarrow> cn_cbor" where
  "taken k n = (counted k n)\<lparr>v_num := v_num n - of_nat k\<rparr>"

lemma counted_children:
  assumes "\<forall>v \<in> set vs. item_done e buf X v" "vs \<noteq> []" "dec_inv X s (plug ((q, xs) # stk) ts)"
    and "\<not> fl_indef (node s (Cell q))" "fl_count (node s (Cell q))" "v_num (node s (Cell q)) = of_nat (length vs)"
    and "length vs < 2 ^ 32" "drop pos buf = enc vs @ rest"
  shows "\<exists>us s'. decode_loop e buf None (Cell q) pos s = decode_loop e buf (Some q) (cur stk) (pos + length (enc vs)) s' \<and>
    dec_inv X s' (plug ((q, xs) # stk) (ts @ us)) \<and> value_of (node s') us = vs \<and>
    changed (taken (length vs)) ((q, xs) # stk) ts (node s) (node s')"
  using assms
proof (induction vs arbitrary: ts pos s)
  case (Cons v vs)
  let ?stk = "(q, xs) # stk"
  let ?f = "\<lambda>n. n\<lparr>v_num := v_num n - 1\<rparr>"
  obtain p cs s1 where p: "decode_loop e buf None (cur ?stk) pos s = decode_loop e buf (Some p) (cur ?stk) (pos + length (enc [v])) s1"
    "dec_inv X s1 (plug ?stk (ts @ [Br p cs]))" "value_of (node s1) [Br p cs] = [v]" "grown 1 ?stk ts (node s) (node s1)"
    "drop (pos + length (enc [v])) buf = enc vs @ rest" "p \<in> set (live (hist s1))"
    by (rule item_doneE[of e buf X v s ?stk ts pos "enc vs @ rest"]) (use Cons.prems in \<open>simp_all add: enc_Cons[of v vs]\<close>)
  have q: "\<not> fl_indef (node s1 (Cell q))" "fl_count (node s1 (Cell q))" "v_num (node s1 (Cell q)) = of_nat (Suc (length vs))"
    using p(4) Cons.prems(4-6) by (simp_all add: changed_def vals_def counted_def)
  obtain s2 where s2: "upd_node (Cell q) ?f s1 = Some s2" "s2 = s1\<lparr>node := (node s1)(Cell q := ?f (node s1 (Cell q)))\<rparr>"
      "dec_inv X s2 (plug ?stk (ts @ [Br p cs]))"
    using dec_inv_contents[OF p(2), where r = "Cell q" and f = ?f] close_parent(3)[OF p(2)] by (auto simp: alive_def same_links_def)
  have v: "v_num (node s1 (Cell q)) - 1 = of_nat (length vs)" using q(3) by simp
  have "unat (of_nat (length vs) :: u32) = length vs" using Cons.prems(7) by (simp add: unat_of_nat take_bit_nat_eq_self)
  then have nz: "(of_nat (length vs) :: u32) \<noteq> 0 \<longleftrightarrow> vs \<noteq> []" by (cases vs) (auto simp del: of_nat_Suc simp: unat_eq_0[symmetric])
  have fl: "fill_parent (Cell q) p s1 = Some (if vs \<noteq> [] then None else Some Dec_complete, s2)"
    using close_parent(2)[OF p(2)] rd_node_Cell[OF p(6)] q(1,2) s2(1) v nz by (simp add: fill_parent_def)
  have c2: "changed ?f ?stk (ts @ [Br p cs]) (node s1) (node s2)"
    using s2(2) changed_cur[of ?f ?stk "ts @ [Br p cs]" "node s1"] by simp
  have c12: "changed (taken 1) ?stk ts (node s) (node s2)"
    using changed_trans[OF p(4) c2] by (simp add: taken_def counted_def vals_def changed_def)
  have nk: "cur ?stk \<notin> Cell ` set (nodes [Br p cs])" using cur_not_kid[OF p(2)] by (simp add: image_Un)
  have val2: "value_of (node s2) [Br p cs] = [v]" using changed_value[OF c2 nk] p(3) by simp
  show ?case
  proof (cases "vs = []")
    case True
    have "decode_loop e buf (Some p) (Cell q) (pos + length (enc [v])) s1 =
        decode_loop e buf (Some q) (cur stk) (pos + length (enc [v])) s2"
      using fl True close_parent(1,2)[OF s2(3)] by (subst decode_loop.simps) simp
    then show ?thesis
      using p(1) s2(3) val2 c12 True by (intro exI[of _ "[Br p cs]"] exI[of _ s2]) simp
  next
    case False
    have l: "decode_loop e buf (Some p) (Cell q) (pos + length (enc [v])) s1 =
        decode_loop e buf None (Cell q) (pos + length (enc [v])) s2"
      using fl False by (subst decode_loop.simps) simp
    have q2: "\<not> fl_indef (node s2 (Cell q))" "fl_count (node s2 (Cell q))" "v_num (node s2 (Cell q)) = of_nat (length vs)"
      using q v s2(2) by simp_all
    obtain us s3 where s3: "decode_loop e buf None (Cell q) (pos + length (enc [v])) s2 =
        decode_loop e buf (Some q) (cur stk) (pos + length (enc [v]) + length (enc vs)) s3"
      "dec_inv X s3 (plug ?stk ((ts @ [Br p cs]) @ us))" "value_of (node s3) us = vs"
      "changed (taken (length vs)) ?stk (ts @ [Br p cs]) (node s2) (node s3)"
      using Cons.IH[OF _ False s2(3) q2 _ p(5)] Cons.prems(1,7) by auto
    have "value_of (node s3) ([Br p cs] @ us) = [v] @ vs"
      using changed_value[OF s3(4) nk] val2 s3(3) by (simp only: value_append)
    moreover have "changed (taken (length (v # vs))) ?stk ts (node s) (node s3)"
      using changed_trans[OF c12 s3(4)] by (simp add: taken_def counted_def vals_def changed_def algebra_simps)
    moreover have "dec_inv X s3 (plug ?stk (ts @ ([Br p cs] @ us)))" using s3(2) by (simp del: plug.simps)
    ultimately show ?thesis
      using p(1) l s3(1) unfolding enc_Cons[of v vs]
      by (intro exI[of _ "[Br p cs] @ us"] exI[of _ s3]) (simp del: plug.simps value_of.simps add: add.assoc)
  qed
qed simp

text \<open>The break behind the children of an indefinite container.\<close>

definition chunked :: "cn_cbor \<Rightarrow> cn_cbor" where
  "chunked n = n\<lparr>cb_type := (case cb_type n of CN_CBOR_BYTES \<Rightarrow> CN_CBOR_BYTES_CHUNKED
                                | CN_CBOR_TEXT \<Rightarrow> CN_CBOR_TEXT_CHUNKED | t \<Rightarrow> t)\<rparr>"

lemma chunked_simps [simp]:
  "cb_type n = CN_CBOR_BYTES \<Longrightarrow> chunked n = n\<lparr>cb_type := CN_CBOR_BYTES_CHUNKED\<rparr>"
  "cb_type n = CN_CBOR_TEXT \<Longrightarrow> chunked n = n\<lparr>cb_type := CN_CBOR_TEXT_CHUNKED\<rparr>"
  "cb_type n \<noteq> CN_CBOR_BYTES \<Longrightarrow> cb_type n \<noteq> CN_CBOR_TEXT \<Longrightarrow> chunked n = n"
  by (simp_all add: chunked_def split: cn_cbor_type.split)

lemma break_done:
  assumes i: "dec_inv X s (plug ((q, xs) # stk) ts)" and f: "fl_indef (node s (Cell q))" and d: "drop pos buf = 0xFF # rest"
    and m: "cb_type (node s (Cell q)) = CN_CBOR_MAP \<Longrightarrow> even (unat (cb_length (node s (Cell q))))"
  shows "\<exists>s'. decode_loop e buf None (Cell q) pos s = decode_loop e buf (Some q) (cur stk) (pos + 1) s' \<and>
    dec_inv X s' (plug ((q, xs) # stk) ts) \<and> changed chunked ((q, xs) # stk) ts (node s) (node s')"
proof -
  let ?stk = "(q, xs) # stk"
  let ?s = "s\<lparr>node := (node s)(Cell q := chunked (node s (Cell q)))\<rparr>"
  have p: "pos < length buf" using d by (metis drop_all list.distinct(1) not_le)
  have b: "rd buf pos = Some 0xFF" using d p by (simp add: rd_def) (metis Cons_nth_drop_Suc list.inject)
  have al: "q \<in> set (live (hist s))" by (rule close_parent(3)[OF i])
  have i': "dec_inv X ?s (plug ?stk ts)"
    using dec_inv_contents[OF i, where r = "Cell q" and f = chunked] al
    by (auto simp: alive_def same_links_def chunked_def)
  have br: "read_break (Cell q) s = Some (Dec_complete, ?s)"
    using close_parent(2)[OF i] f m
    by (cases "cb_type (node s (Cell q))") (simp_all add: read_break_def upd_node_Cell[OF al])
  have "read_item e buf (Cell q) pos s = Some (Dec_complete, pos + 1, ?s)"
    using p b br by (simp add: read_item_def)
  then have "decode_loop e buf None (Cell q) pos s = decode_loop e buf (Some q) (cur stk) (pos + 1) ?s"
    using close_parent(1,2)[OF i'] by (subst decode_loop.simps) simp
  then show ?thesis using i' changed_cur[of chunked ?stk ts "node s"] by (intro exI[of _ ?s]) simp
qed

section \<open>Every well-formed value\<close>

lemma drop_more: "drop pos buf = xs @ ys \<Longrightarrow> drop (pos + length xs) buf = ys"
  by (metis add.commute append_eq_conv_conj drop_drop)

lemma unat_u32: "k < 2 ^ 31 \<Longrightarrow> unat (of_nat k :: u32) = k"
  by (simp add: unat_of_nat take_bit_nat_eq_self)

lemma unat_u64: "k < 2 ^ 32 \<Longrightarrow> unat (of_nat k :: u64) = k"
  by (simp add: unat_of_nat take_bit_nat_eq_self)

lemma ucast_small: "k < 2 ^ 31 \<Longrightarrow> (ucast (of_nat k :: u64) :: u32) = of_nat k"
  by (simp add: ucast_eq uint_nat unat_u64)

lemma leaf_done:
  assumes m: "plenty e" and mt: "mt < 8"
    and v: "\<And>pos rest. drop pos buf = enc [v] @ rest \<Longrightarrow>
      \<exists>w body n. enc [v] = head_bytes (of_nat (32 * mt)) w @ body \<and>
        decode_content buf mt (head_ai w) w (pos + length (head_bytes (of_nat (32 * mt)) w)) (zero_node\<lparr>cb_type := mt_trans mt\<rparr>) =
          Inr (False, pos + length (enc [v]), n) \<and> item n [] = v"
  shows "item_done e buf X v"
  unfolding item_done_def
proof (intro allI impI)
  fix stk ts pos and s :: cbs and rest
  assume i: "dec_inv X s (plug stk ts)" and d: "drop pos buf = enc [v] @ rest"
  obtain w body n where w: "enc [v] = head_bytes (of_nat (32 * mt)) w @ body"
      "decode_content buf mt (head_ai w) w (pos + length (head_bytes (of_nat (32 * mt)) w)) (zero_node\<lparr>cb_type := mt_trans mt\<rparr>) =
        Inr (False, pos + length (enc [v]), n)" "item n [] = v"
    using v[OF d] by blast
  have d': "drop pos buf = head_bytes (of_nat (32 * mt)) w @ body @ rest" using d w(1) by simp
  obtain p s' where s': "read_item e buf (cur stk) pos s = Some (if False then Dec_push p else Dec_fill p, pos + length (enc [v]), s')"
      "dec_inv X s' (plug stk (ts @ [Br p []]))" "grown 1 stk ts (node s) (node s')" "vals (node s' (Cell p)) = vals n"
      "Cell p \<notin> outer stk ts"
    by (rule read_head[OF i m d' mt w(2)])
  have "decode_loop e buf None (cur stk) pos s = decode_loop e buf (Some p) (cur stk) (pos + length (enc [v])) s'"
    using s'(1) by (subst decode_loop.simps) simp
  moreover have "value_of (node s') [Br p []] = [v]" using w(3) item_vals[OF s'(4)] by simp
  ultimately show "\<exists>p cs s'. decode_loop e buf None (cur stk) pos s = decode_loop e buf (Some p) (cur stk) (pos + length (enc [v])) s' \<and>
      dec_inv X s' (plug stk (ts @ [Br p cs])) \<and> value_of (node s') [Br p cs] = [v] \<and> grown 1 stk ts (node s) (node s')"
    using s'(2,3) by blast
qed

lemma counted_done:
  assumes m: "plenty e" and cs: "\<forall>c \<in> set cs. item_done e buf X c" "cs \<noteq> []" "length cs < 2 ^ 31"
    and v: "v = Item (mt_trans mt) False 0 [] cs" "mt = 4 \<or> mt = 5 \<and> even (length cs)"
  shows "item_done e buf X v"
  unfolding item_done_def
proof (intro allI impI)
  fix stk ts pos and s :: cbs and rest
  assume i: "dec_inv X s (plug stk ts)" and d: "drop pos buf = enc [v] @ rest"
  let ?w = "of_nat (if mt = 5 then length cs div 2 else length cs) :: u64"
  let ?h = "head_bytes (of_nat (32 * mt)) ?w"
  let ?n = "zero_node\<lparr>cb_type := mt_trans mt, v_num := of_nat (length cs), fl_count := True\<rparr>"
  have e: "enc [v] = ?h @ enc cs" using v by (auto simp: enc_def mt_trans_def break_pieces_def)
  have d': "drop pos buf = ?h @ enc cs @ rest" using d e by simp
  have w: "(ucast (if mt = 5 then push_bit 1 ?w else ?w) :: u32) = of_nat (length cs)"
  proof (cases "mt = 5")
    case True
    have "push_bit 1 (of_nat (length cs div 2) :: u64) = of_nat (length cs div 2 * 2)" by (simp add: push_bit_eq_mult)
    moreover have "length cs div 2 * 2 = length cs" using v(2) True by simp
    ultimately have "push_bit 1 (of_nat (length cs div 2) :: u64) = of_nat (length cs)" by (simp only:)
    then show ?thesis using True cs(3) ucast_small[of "length cs"] by simp
  qed (use cs(3) ucast_small[of "length cs"] in simp)
  have nz: "(of_nat (length cs) :: u32) \<noteq> 0" using cs(2,3) unat_u32[of "length cs"] by (auto simp: unat_eq_0[symmetric])
  have c: "decode_content buf mt (head_ai ?w) ?w (pos + length ?h) (zero_node\<lparr>cb_type := mt_trans mt\<rparr>) = Inr (True, pos + length ?h, ?n)"
    using v(2) w nz by (auto simp: decode_content_def Let_def)
  obtain p s3 where s3: "read_item e buf (cur stk) pos s = Some (if True then Dec_push p else Dec_fill p, pos + length ?h, s3)"
      "dec_inv X s3 (plug stk (ts @ [Br p []]))" "grown 1 stk ts (node s) (node s3)" "vals (node s3 (Cell p)) = vals ?n"
      "Cell p \<notin> outer stk ts"
    by (rule read_head[OF i m d' _ c]) (use v(2) in auto)
  have l: "decode_loop e buf None (cur stk) pos s = decode_loop e buf None (Cell p) (pos + length ?h) s3"
    using s3(1) by (subst decode_loop.simps) simp
  have q: "\<not> fl_indef (node s3 (Cell p))" "fl_count (node s3 (Cell p))" "v_num (node s3 (Cell p)) = of_nat (length cs)"
    using s3(4) by (simp_all add: vals_def zero_node_def)
  have i3: "dec_inv X s3 (plug ((p, ts) # stk) [])" using s3(2) by simp
  obtain us s' where s': "decode_loop e buf None (Cell p) (pos + length ?h) s3 =
        decode_loop e buf (Some p) (cur stk) (pos + length ?h + length (enc cs)) s'"
      "dec_inv X s' (plug ((p, ts) # stk) ([] @ us))" "value_of (node s') us = cs"
      "changed (taken (length cs)) ((p, ts) # stk) [] (node s3) (node s')"
    using counted_children[OF cs(1,2) i3 q _ drop_more[OF d']] cs(3) by auto
  note cl = close_item[OF s3(3) s3(5) s'(4)]
  have t: "cb_type (node s' (Cell p)) = mt_trans mt" "\<not> fl_indef (node s' (Cell p))"
    using cl(2) s3(4) by (simp_all add: vals_def taken_def counted_def zero_node_def)
  have "value_of (node s') [Br p us] = [v]"
    using s'(3) t v by (auto simp: item_def has_number_def is_string_def mt_trans_def)
  then show "\<exists>p cs s'. decode_loop e buf None (cur stk) pos s = decode_loop e buf (Some p) (cur stk) (pos + length (enc [v])) s' \<and>
      dec_inv X s' (plug stk (ts @ [Br p cs])) \<and> value_of (node s') [Br p cs] = [v] \<and> grown 1 stk ts (node s) (node s')"
    using l s'(1,2) cl(1) e by (intro exI[of _ p] exI[of _ us] exI[of _ s']) (simp add: add.assoc)
qed

lemma tag_done:
  assumes m: "plenty e" and c: "item_done e buf X c" and v: "v = Item CN_CBOR_TAG False num [] [c]"
  shows "item_done e buf X v"
  unfolding item_done_def
proof (intro allI impI)
  fix stk ts pos and s :: cbs and rest
  assume i: "dec_inv X s (plug stk ts)" and d: "drop pos buf = enc [v] @ rest"
  let ?w = "ucast num :: u64"
  let ?h = "head_bytes (of_nat (32 * 6)) ?w"
  let ?n = "zero_node\<lparr>cb_type := CN_CBOR_TAG, v_num := num\<rparr>"
  have e: "enc [v] = ?h @ enc [c]" using v by (simp add: enc_def break_pieces_def)
  have d': "drop pos buf = ?h @ enc [c] @ rest" using d e by simp
  have c6: "decode_content buf 6 (head_ai ?w) ?w (pos + length ?h) (zero_node\<lparr>cb_type := mt_trans 6\<rparr>) = Inr (True, pos + length ?h, ?n)"
    by (simp add: decode_content_def mt_trans_def unsigned_ucast_eq take_bit_word_beyond_length_eq)
  obtain p s3 where s3: "read_item e buf (cur stk) pos s = Some (if True then Dec_push p else Dec_fill p, pos + length ?h, s3)"
      "dec_inv X s3 (plug stk (ts @ [Br p []]))" "grown 1 stk ts (node s) (node s3)" "vals (node s3 (Cell p)) = vals ?n"
      "Cell p \<notin> outer stk ts"
    by (rule read_head[OF i m d' _ c6]) simp
  have l: "decode_loop e buf None (cur stk) pos s = decode_loop e buf None (Cell p) (pos + length ?h) s3"
    using s3(1) by (subst decode_loop.simps) simp
  have i3: "dec_inv X s3 (plug ((p, ts) # stk) [])" using s3(2) by simp
  obtain r cs s4 where s4: "decode_loop e buf None (cur ((p, ts) # stk)) (pos + length ?h) s3 =
        decode_loop e buf (Some r) (cur ((p, ts) # stk)) (pos + length ?h + length (enc [c])) s4"
      "dec_inv X s4 (plug ((p, ts) # stk) ([] @ [Br r cs]))" "value_of (node s4) [Br r cs] = [c]"
      "grown 1 ((p, ts) # stk) [] (node s3) (node s4)"
      "drop (pos + length ?h + length (enc [c])) buf = rest" "r \<in> set (live (hist s4))"
    by (rule item_doneE[OF c i3 drop_more[OF d']])
  note cl = close_item[OF s3(3) s3(5) s4(4)]
  have t: "cb_type (node s4 (Cell p)) = CN_CBOR_TAG" "\<not> fl_indef (node s4 (Cell p))" "\<not> fl_count (node s4 (Cell p))"
      "v_num (node s4 (Cell p)) = num"
    using cl(2) s3(4) by (simp_all add: vals_def counted_def zero_node_def)
  have "fill_parent (Cell p) r s4 = Some (Some Dec_complete, s4)"
    using close_parent(2)[OF s4(2)] rd_node_Cell[OF s4(6)] t by (simp add: fill_parent_def)
  then have "decode_loop e buf (Some r) (Cell p) (pos + length ?h + length (enc [c])) s4 =
      decode_loop e buf (Some p) (cur stk) (pos + length ?h + length (enc [c])) s4"
    using close_parent(1,2)[OF s4(2)] by (subst decode_loop.simps) simp
  moreover have "value_of (node s4) [Br p [Br r cs]] = [v]"
    using s4(3) t v by (simp add: item_def has_number_def is_string_def)
  ultimately show "\<exists>p cs s'. decode_loop e buf None (cur stk) pos s = decode_loop e buf (Some p) (cur stk) (pos + length (enc [v])) s' \<and>
      dec_inv X s' (plug stk (ts @ [Br p cs])) \<and> value_of (node s') [Br p cs] = [v] \<and> grown 1 stk ts (node s) (node s')"
    using l s4(1,2) cl(1) e by (intro exI[of _ p] exI[of _ "[Br r cs]"] exI[of _ s4]) (simp add: add.assoc)
qed


text \<open>Containers that end with a break.\<close>

lemma indef_done:
  assumes m: "plenty e" and cs: "\<forall>c \<in> set cs. item_done e buf X c" "length cs < 2 ^ 31"
    and v: "v = Item t True 0 [] cs"
    and t: "(mt = (2 :: nat) \<and> t = CN_CBOR_BYTES_CHUNKED \<and> (\<forall>c \<in> set cs. type_of c = CN_CBOR_BYTES)) \<or>
      (mt = 3 \<and> t = CN_CBOR_TEXT_CHUNKED \<and> (\<forall>c \<in> set cs. type_of c = CN_CBOR_TEXT)) \<or>
      (mt = 4 \<and> t = CN_CBOR_ARRAY) \<or> (mt = 5 \<and> t = CN_CBOR_MAP \<and> even (length cs))"
  shows "item_done e buf X v"
  unfolding item_done_def
proof (intro allI impI)
  fix stk ts pos and s :: cbs and rest
  assume i: "dec_inv X s (plug stk ts)" and d: "drop pos buf = enc [v] @ rest"
  let ?b = "of_nat (32 * mt + 31) :: u8"
  let ?n = "zero_node\<lparr>cb_type := mt_trans mt, fl_indef := True\<rparr>"
  have mt: "mt = 2 \<or> mt = 3 \<or> mt = 4 \<or> mt = 5" "unat ?b = 32 * mt + 31" using t by auto
  have e: "enc [v] = ?b # enc cs @ [0xFF]" using v t by (auto simp: enc_def break_pieces_def)
  have d': "drop pos buf = ?b # enc cs @ 0xFF # rest" using d e by simp
  obtain p s3 where s3: "read_item e buf (cur stk) pos s = Some (Dec_push p, pos + 1, s3)"
      "dec_inv X s3 (plug stk (ts @ [Br p []]))" "grown 1 stk ts (node s) (node s3)" "vals (node s3 (Cell p)) = vals ?n"
      "Cell p \<notin> outer stk ts"
    by (rule read_indef[OF i m d' mt(2,1)])
  have l: "decode_loop e buf None (cur stk) pos s = decode_loop e buf None (Cell p) (pos + 1) s3"
    using s3(1) by (subst decode_loop.simps) simp
  have q: "fl_indef (node s3 (Cell p))" "cb_type (node s3 (Cell p)) = mt_trans mt" "cb_length (node s3 (Cell p)) = 0"
    using s3(4) by (simp_all add: vals_def zero_node_def)
  have i3: "dec_inv X s3 (plug ((p, ts) # stk) [])" using s3(2) by simp
  have d3: "drop (pos + 1) buf = enc cs @ 0xFF # rest" using drop_more[of pos buf "[?b]"] d' by simp
  have ty: "cb_type (node s3 (Cell p)) \<in> {CN_CBOR_BYTES, CN_CBOR_TEXT} \<longrightarrow> (\<forall>c \<in> set cs. type_of c = cb_type (node s3 (Cell p)))"
    using t q(2) by (auto simp: mt_trans_def)
  obtain us s4 where s4: "decode_loop e buf None (Cell p) (pos + 1) s3 = decode_loop e buf None (Cell p) (pos + 1 + length (enc cs)) s4"
      "dec_inv X s4 (plug ((p, ts) # stk) ([] @ us))" "value_of (node s4) us = cs"
      "grown (length cs) ((p, ts) # stk) [] (node s3) (node s4)" "drop (pos + 1 + length (enc cs)) buf = 0xFF # rest"
    using indef_children[OF cs(1) i3 q(1) ty d3] by blast
  have i4: "dec_inv X s4 (plug ((p, ts) # stk) us)" using s4(2) by simp
  have q4: "fl_indef (node s4 (Cell p))" "cb_type (node s4 (Cell p)) = mt_trans mt" "cb_length (node s4 (Cell p)) = of_nat (length cs)"
    using s4(4) q by (simp_all add: changed_def vals_def counted_def)
  have ev: "cb_type (node s4 (Cell p)) = CN_CBOR_MAP \<Longrightarrow> even (unat (cb_length (node s4 (Cell p))))"
    using q4(2,3) t cs(2) by (auto simp: mt_trans_def unat_u32)
  obtain s5 where s5: "decode_loop e buf None (Cell p) (pos + 1 + length (enc cs)) s4 =
        decode_loop e buf (Some p) (cur stk) (pos + 1 + length (enc cs) + 1) s5"
      "dec_inv X s5 (plug ((p, ts) # stk) us)" "changed chunked ((p, ts) # stk) us (node s4) (node s5)"
    using break_done[OF i4 q4(1) s4(5) ev] by blast
  have vs: "value_of (node s5) us = cs"
    using changed_value[of chunked "(p, ts) # stk" "[]" us "node s4" "node s5"] s5(3) cur_not_kid[OF i4] s4(3) by simp
  have c5: "changed (\<lambda>n. chunked (counted (length cs) n)) ((p, ts) # stk) [] (node s3) (node s5)"
    using changed_trans[OF s4(4), where g = chunked and us = us] s5(3) by (simp add: vals_def chunked_def)
  note cl = close_item[OF s3(3) s3(5) c5]
  have "cb_type (node s5 (Cell p)) = t" "fl_indef (node s5 (Cell p))"
    using cl(2) q(1,2) t by (auto simp: vals_def chunked_def counted_def mt_trans_def)
  then have "value_of (node s5) [Br p us] = [v]"
    using vs v t by (auto simp: item_def has_number_def is_string_def)
  then show "\<exists>p cs s'. decode_loop e buf None (cur stk) pos s = decode_loop e buf (Some p) (cur stk) (pos + length (enc [v])) s' \<and>
      dec_inv X s' (plug stk (ts @ [Br p cs])) \<and> value_of (node s') [Br p cs] = [v] \<and> grown 1 stk ts (node s) (node s')"
    using l s4(1) s5(1,2) cl(1) e by (intro exI[of _ p] exI[of _ us] exI[of _ s5]) (simp add: add.assoc)
qed


lemma string_done:
  assumes m: "plenty e" and v: "v = Item (mt_trans mt) False 0 bs []" "mt = 2 \<or> mt = 3" "length bs < 2 ^ 31"
  shows "item_done e buf X v"
proof (rule leaf_done[OF m, where mt = mt])
  show "mt < 8" using v(2) by auto
  fix pos rest
  let ?w = "of_nat (length bs) :: u64"
  let ?h = "head_bytes (of_nat (32 * mt)) ?w"
  let ?n = "zero_node\<lparr>cb_type := mt_trans mt, v_str := drop (pos + length ?h) buf, cb_length := of_nat (length bs)\<rparr>"
  assume d: "drop pos buf = enc [v] @ rest"
  have e: "enc [v] = ?h @ bs" using v by (auto simp: enc_def mt_trans_def break_pieces_def)
  have d': "drop (pos + length ?h) buf = bs @ rest" using d e drop_more[of pos buf ?h "bs @ rest"] by simp
  then have "length buf - (pos + length ?h) = length bs + length rest" by (metis length_append length_drop)
  then have "decode_content buf mt (head_ai ?w) ?w (pos + length ?h) (zero_node\<lparr>cb_type := mt_trans mt\<rparr>) =
      Inr (False, pos + length (enc [v]), ?n)"
    using v(2,3) e by (auto simp: decode_content_def unat_u64 ucast_small)
  moreover have "item ?n [] = v"
    using v d' by (auto simp: item_def has_number_def is_string_def mt_trans_def unat_u32 zero_node_def)
  ultimately show "\<exists>w body n. enc [v] = head_bytes (of_nat (32 * mt)) w @ body \<and>
        decode_content buf mt (head_ai w) w (pos + length (head_bytes (of_nat (32 * mt)) w)) (zero_node\<lparr>cb_type := mt_trans mt\<rparr>) =
          Inr (False, pos + length (enc [v]), n) \<and> item n [] = v"
    using e by blast
qed

lemma number_done:
  assumes m: "plenty e" and mt: "mt < 8" and e: "enc [v] = head_bytes (of_nat (32 * mt)) w"
    and c: "\<And>pos. decode_content buf mt (head_ai w) w pos (zero_node\<lparr>cb_type := mt_trans mt\<rparr>) = Inr (False, pos, n)" "item n [] = v"
  shows "item_done e buf X v"
  by (rule leaf_done[OF m mt]) (use e c in \<open>auto intro!: exI[of _ w]\<close>)

lemma ucast_not: "(ucast (NOT (ucast (NOT num) :: u64)) :: u32) = num"
  by (rule bit_word_eqI) (auto simp: bit_simps)

lemma unat_up: "unat (ucast (num :: u32) :: u64) = unat num"
proof -
  have "unat num < 2 ^ 32" using unsigned_less[of num] by simp
  then have "unat num < 2 ^ 64" by simp
  then show ?thesis by (simp add: unsigned_ucast_eq take_bit_nat_eq_self)
qed

lemma simple_ai: "num < 20 \<or> 24 \<le> num \<and> num < 256 \<Longrightarrow> head_ai (ucast (num :: u32)) < 20 \<or> head_ai (ucast num) = 24"
  by (auto simp: head_ai_def word_less_nat_alt word_le_nat_alt unat_up)

lemma wf_item_done:
  assumes "plenty e"
  shows "wf_values [v] \<Longrightarrow> item_done e buf X v"
proof (induction v)
  case (Item t ind num bs cs)
  have ok: "item_ok t ind num bs cs" and cs: "\<forall>c \<in> set cs. item_done e buf X c"
    using Item wf_values_iff[of cs] by auto
  note iv = item_def has_number_def is_string_def zero_node_def mt_trans_def
  note dc = decode_content_def mt_trans_def
  have z: "num = 0" if "\<not> has_number t" using ok that by (simp add: item_ok_def)
  have zb: "bs = []" if "\<not> is_string t" using ok that by (simp add: item_ok_def)
  show ?case
  proof (cases t)
    case CN_CBOR_UINT
    then show ?thesis
      using ok number_done[OF assms, of 0 _ "ucast num" buf "zero_node\<lparr>cb_type := CN_CBOR_UINT, v_num := num\<rparr>" X]
      by (auto simp: item_ok_def enc_def break_pieces_def iv dc unsigned_ucast_eq take_bit_word_beyond_length_eq)
  next
    case CN_CBOR_INT
    then show ?thesis
      using ok number_done[OF assms, of 1 _ "ucast (NOT num)" buf "zero_node\<lparr>cb_type := CN_CBOR_INT, v_num := num\<rparr>" X]
      by (auto simp: item_ok_def enc_def break_pieces_def iv dc ucast_not)
  next
    case CN_CBOR_FALSE
    then show ?thesis
      using ok z zb number_done[OF assms, of 7 _ "20" buf "zero_node\<lparr>cb_type := CN_CBOR_FALSE\<rparr>" X]
      by (auto simp: item_ok_def enc_def break_pieces_def iv dc head_bytes_def head_ai_def)
  next
    case CN_CBOR_TRUE
    then show ?thesis
      using ok z zb number_done[OF assms, of 7 _ "21" buf "zero_node\<lparr>cb_type := CN_CBOR_TRUE\<rparr>" X]
      by (auto simp: item_ok_def enc_def break_pieces_def iv dc head_bytes_def head_ai_def)
  next
    case CN_CBOR_NULL
    then show ?thesis
      using ok z zb number_done[OF assms, of 7 _ "22" buf "zero_node\<lparr>cb_type := CN_CBOR_NULL\<rparr>" X]
      by (auto simp: item_ok_def enc_def break_pieces_def iv dc head_bytes_def head_ai_def)
  next
    case CN_CBOR_UNDEF
    then show ?thesis
      using ok z zb number_done[OF assms, of 7 _ "23" buf "zero_node\<lparr>cb_type := CN_CBOR_UNDEF\<rparr>" X]
      by (auto simp: item_ok_def enc_def break_pieces_def iv dc head_bytes_def head_ai_def)
  next
    case CN_CBOR_SIMPLE
    then have "num < 20 \<or> 24 \<le> num \<and> num < 256" using ok by (simp add: item_ok_def)
    from simple_ai[OF this] show ?thesis
      using CN_CBOR_SIMPLE ok number_done[OF assms, of 7 _ "ucast num" buf "zero_node\<lparr>cb_type := CN_CBOR_SIMPLE, v_num := num\<rparr>" X]
      by (auto simp: item_ok_def enc_def break_pieces_def iv dc unsigned_ucast_eq take_bit_word_beyond_length_eq)
  next
    case CN_CBOR_BYTES
    then show ?thesis
      using ok z string_done[OF assms, of v 2 bs buf X for v] by (auto simp: item_ok_def iv)
  next
    case CN_CBOR_TEXT
    then show ?thesis
      using ok z string_done[OF assms, of v 3 bs buf X for v] by (auto simp: item_ok_def iv)
  next
    case CN_CBOR_TAG
    then obtain c where "cs = [c]" using ok by (auto simp: item_ok_def length_Suc_conv)
    then show ?thesis
      using CN_CBOR_TAG ok zb cs tag_done[OF assms, of buf X c _ num] by (auto simp: item_ok_def iv)
  next
    case CN_CBOR_BYTES_CHUNKED
    then show ?thesis
      using ok z zb indef_done[OF assms cs, of _ t 2] by (auto simp: item_ok_def iv)
  next
    case CN_CBOR_TEXT_CHUNKED
    then show ?thesis
      using ok z zb indef_done[OF assms cs, of _ t 3] by (auto simp: item_ok_def iv)
  next
    case CN_CBOR_ARRAY
    then show ?thesis
    proof (cases ind)
      case True
      then show ?thesis using CN_CBOR_ARRAY ok z zb indef_done[OF assms cs, of _ t 4] by (auto simp: item_ok_def iv)
    next
      case False
      have "item_done e buf X (Item t False 0 [] [])"
        using CN_CBOR_ARRAY number_done[OF assms, of 4 _ 0 buf "zero_node\<lparr>cb_type := CN_CBOR_ARRAY\<rparr>" X]
        by (auto simp: enc_def break_pieces_def iv dc head_ai_def)
      then show ?thesis
        using False CN_CBOR_ARRAY ok z zb counted_done[OF assms cs, of _ 4] by (cases "cs = []") (auto simp: item_ok_def iv)
    qed
  next
    case CN_CBOR_MAP
    then show ?thesis
    proof (cases ind)
      case True
      then show ?thesis using CN_CBOR_MAP ok z zb indef_done[OF assms cs, of _ t 5] by (auto simp: item_ok_def iv)
    next
      case False
      have "item_done e buf X (Item t False 0 [] [])"
        using CN_CBOR_MAP number_done[OF assms, of 5 _ 0 buf "zero_node\<lparr>cb_type := CN_CBOR_MAP\<rparr>" X]
        by (auto simp: enc_def break_pieces_def iv dc head_ai_def)
      then show ?thesis
        using False CN_CBOR_MAP ok z zb counted_done[OF assms cs, of _ 5] by (cases "cs = []") (auto simp: item_ok_def iv)
    qed
  qed (use ok in \<open>simp_all add: item_ok_def\<close>)
qed


section \<open>Round trip\<close>

text \<open>The decoder on the encoding of a well-formed value.\<close>

lemma decode_encoding:
  assumes "plenty e" "wf_values [v]" "heap_ok (hist s)" "frees_ok (hist s)"
  shows "\<exists>t s'. cn_cbor_decode e (enc [v]) s = Some (Inr (root t), s') \<and> value_of (node s') [t] = [v] \<and>
    links (node s') None None [t] \<and> set (nodes [t]) \<inter> set (live (hist s)) = {} \<and>
    set (live (hist s')) = set (nodes [t]) \<union> set (live (hist s))"
proof -
  let ?X = "set (live (hist s))"
  let ?s = "s\<lparr>node := (node s)(Catcher := zero_node\<lparr>cb_type := CN_CBOR_INVALID\<rparr>)\<rparr>"
  have d: "drop 0 (enc [v]) = enc [v] @ []" by simp
  obtain p cs s1 where r: "decode_loop e (enc [v]) None (cur []) 0 ?s = decode_loop e (enc [v]) (Some p) (cur []) (0 + length (enc [v])) s1"
      "dec_inv ?X s1 (plug [] ([] @ [Br p cs]))" "value_of (node s1) [Br p cs] = [v]" "grown 1 [] [] (node ?s) (node s1)"
      "drop (0 + length (enc [v])) (enc [v]) = []" "p \<in> set (live (hist s1))"
    by (rule item_doneE[OF wf_item_done[OF assms(1,2)] dec_inv_start[OF assms(3,4)] d])
  have i: "dec_inv ?X s1 [Br p cs]" using r(2) by simp
  have "fill_parent Catcher p s1 = Some (Some Dec_complete, s1)"
    using i rd_node_Cell[OF r(6)] by (simp add: fill_parent_def rd_node_def alive_def dec_inv_def)
  then have "decode_loop e (enc [v]) (Some p) Catcher (length (enc [v])) s1 = Some (Inr p, length (enc [v]), s1)"
    by (subst decode_loop.simps) simp
  then have l: "decode_loop e (enc [v]) None Catcher 0 ?s = Some (Inr p, length (enc [v]), s1)" using r(1) by simp
  obtain s2 where s2: "upd_node (Cell p) (\<lambda>n. n\<lparr>cb_parent := None\<rparr>) s1 = Some s2" "hist s2 = hist s1"
      "node s2 = (node s1)(Cell p := (node s1 (Cell p))\<lparr>cb_parent := None\<rparr>)" "links (node s2) None None [Br p cs]"
    using dec_inv_top[OF i] by auto
  have "value_of (node s2) [Br p cs] = value_of (node s1) [Br p cs]"
    by (rule value_agree) (use s2(3) in \<open>auto simp: agree_def vals_def\<close>)
  then show ?thesis
    using l s2 r(3) i by (intro exI[of _ "Br p cs"] exI[of _ s2]) (simp add: cn_cbor_decode_def dec_inv_def)
qed

text \<open>C33. Writing a tree and reading it back. A tree whose lengths and numbers are those of its types, and
  whose value is well-formed (the children of a map come in pairs, a tag has one child, the parts of
  a chunked string are strings of its type, a simple value is not one of those with a name), is
  written if the buffer is large enough, and the decoder reads the bytes written as a tree of new
  nodes with the same value: types, numbers, strings, order and nesting.
\<close>

theorem cbor_roundtrip:
  assumes "links (node s) None None [t]" "set (nodes [t]) \<subseteq> set (live (hist s))" "fits (node s) [t]"
    and "wf_values (value_of (node s) [t])" "heap_ok (hist s)" "frees_ok (hist s)"
    and "0 \<le> off" "sz \<le> int (length buf)" "off + int (length (enc (value_of (node s) [t]))) < sz" "plenty e"
  shows "\<exists>n buf' u s'. cn_cbor_encoder_write buf off sz (Some (Cell (root t))) s = Some (int n, buf') \<and>
    cn_cbor_decode e (take n (drop (nat off) buf')) s = Some (Inr (root u), s') \<and>
    links (node s') None None [u] \<and> set (nodes [u]) \<inter> set (live (hist s)) = {} \<and>
    value_of (node s') [u] = value_of (node s) [t]"
proof -
  let ?bs = "enc (value_of (node s) [t])"
  obtain v where v: "value_of (node s) [t] = [v]" by (cases t) simp
  obtain n buf' where w: "cn_cbor_encoder_write buf off sz (Some (Cell (root t))) s = Some (n, buf')"
      "n = int (length ?bs)" "take (length ?bs) (drop (nat off) buf') = ?bs"
    using encoder_tree[OF assms(1-3,7,8)] assms(9) by (auto simp: Let_def)
  have "wf_values [v]" using assms(4) v by simp
  from decode_encoding[OF assms(10) this assms(5,6)] show ?thesis using w v by fastforce
qed

theorem cbor_roundtrip_witness:
  "\<exists>buf' u s'. cn_cbor_encoder_write (replicate 12 0) 1 10 (Some (Cell 0)) small_nodes = Some (7, buf') \<and>
     cn_cbor_decode good_env (take 7 (drop 1 buf')) small_nodes = Some (Inr (root u), s') \<and>
     value_of (node s') [u] = [Item CN_CBOR_ARRAY False 0 []
       [Item CN_CBOR_UINT False 500 [] [], Item CN_CBOR_TEXT False 0 [97, 98] []]]"
proof -
  have v: "value_of (node small_nodes) [small_tree] = [Item CN_CBOR_ARRAY False 0 []
       [Item CN_CBOR_UINT False 500 [] [], Item CN_CBOR_TEXT False 0 [97, 98] []]]"
    by (rule small_tree_fits(4))
  have w: "wf_values (value_of (node small_nodes) [small_tree])"
    unfolding v by (simp add: item_ok_def has_number_def is_string_def)
  have h: "heap_ok (hist small_nodes)" "frees_ok (hist small_nodes)"
      "plenty good_env" "root small_tree = 0"
    by (simp_all add: small_nodes_def small_tree_def heap_ok_def plenty_def good_env_def)
  have e: "\<exists>n buf' u s'. cn_cbor_encoder_write (replicate 12 0) 1 10 (Some (Cell (root small_tree))) small_nodes = Some (int n, buf') \<and>
      cn_cbor_decode good_env (take n (drop (nat 1) buf')) small_nodes = Some (Inr (root u), s') \<and>
      links (node s') None None [u] \<and> set (nodes [u]) \<inter> set (live (hist small_nodes)) = {} \<and>
      value_of (node s') [u] = value_of (node small_nodes) [small_tree]"
    by (rule cbor_roundtrip[OF small_tree_fits(1-3) w h(1,2) _ _ _ h(3)]) (simp_all add: small_tree_enc)
  obtain n buf' where "cn_cbor_encoder_write (replicate 12 0) 1 10 (Some (Cell 0)) small_nodes = Some (7, buf')"
    using encoder_tree[OF small_tree_fits(1-3), of 1 10 "replicate 12 0"] h(4) unfolding small_tree_enc by (auto simp: Let_def)
  then show ?thesis using e h(4) v by auto
qed

text \<open>
  The other direction fails for large negative numbers: the decoder keeps 32 bits of them and does
  not check, so that -2147483649 becomes an item of type INT with a positive number, on which the
  assertion of the encoder loops for ever.
\<close>

lemma reencode_hangs:
  "\<exists>p s. cn_cbor_decode good_env [0x3A, 0x80, 0, 0, 0] \<lparr>hist = [], node = (\<lambda>_. zero_node)\<rparr> = Some (Inr p, s) \<and>
     cn_cbor_encoder_write (replicate 9 0) 0 9 (Some (Cell p)) s = None"
  by (simp cong: bind_weak add: decoder_eval cn_cbor_encoder_write_def visit.simps encoder_visitor_def)

text \<open>The number of elements of an array loses its upper 32 bits: this array of \<open>2 ^ 32\<close> items is accepted as empty.\<close>

lemma huge_array_is_empty:
  "\<exists>s. cn_cbor_decode good_env [0x9B, 0, 0, 0, 1, 0, 0, 0, 0] \<lparr>hist = [], node = (\<lambda>_. zero_node)\<rparr> = Some (Inr 0, s) \<and>
     value_of (node s) [Br 0 []] = [Item CN_CBOR_ARRAY False 0 [] []] \<and> first_child (node s (Cell 0)) = None"
  by (simp cong: bind_weak add: decoder_eval item_def has_number_def is_string_def)

end
