(* ===== verification/GatewayAt.thy ===== *)
theory GatewayAt
  imports GatewayMessages AutoManager GpioReport
begin

text \<open>
  The AT commands of the gateway client, \<^verbatim>\<open>PS/at/at_wiota_gateway_api.c\<close>: what a host on the serial
  line makes of the client, the connection manager and the store mode. The three components keep
  their states and share the platform, that is, its history.

  \<^verbatim>\<open>parse\<close> is a function of a binary; a command gets the values that it leaves in the variables, or
  \<open>None\<close> when it returns the null pointer. The callbacks that the commands register have numbers.
\<close>

section \<open>State\<close>

record at_srv = sys +
  at_gw :: gw
  at_gpio :: gpio
  at_mgr :: mgr
  at_task :: task_pc

lemma at_srv_fields [simp]:
  "hist (at_gw_update gf s) = hist s" "hist (at_gpio_update pf s) = hist s" "hist (at_mgr_update mf s) = hist s"
  "at_gw (hist_update hf s) = at_gw s" "at_gpio (hist_update hf s) = at_gpio s" "at_mgr (hist_update hf s) = at_mgr s"
  for s :: "'a at_srv_scheme"
  by (cases s; simp)+

definition init_at :: at_srv where
  "init_at = \<lparr>hist = [], at_gw = init_gw, at_gpio = init_gpio, at_mgr = init_mgr, at_task = T_none\<rparr>"

definition on_gw :: "(gw \<Rightarrow> ('a \<times> gw) option) \<Rightarrow> at_srv \<Rightarrow> ('a \<times> at_srv) option" where
  "on_gw f s =
     do { (x, g) \<leftarrow> f ((at_gw s)\<lparr>hist := hist s\<rparr>); Some (x, s\<lparr>hist := hist g, at_gw := g\<rparr>) }"

definition on_gpio :: "(gpio \<Rightarrow> gpio option) \<Rightarrow> 'a at_srv_scheme \<Rightarrow> 'a at_srv_scheme option" where
  "on_gpio f s = do { g \<leftarrow> f ((at_gpio s)\<lparr>hist := hist s\<rparr>); Some (s\<lparr>hist := hist g, at_gpio := g\<rparr>) }"

definition set_at_state :: "at_wiota_state \<Rightarrow> 'a at_srv_scheme \<Rightarrow> 'a at_srv_scheme" where
  "set_at_state st s = s\<lparr>at_mgr := at_wiota_set_state st (at_mgr s)\<rparr>"

definition at_say :: "string \<Rightarrow> int list \<Rightarrow> 'a sys_scheme \<Rightarrow> 'a sys_scheme" where
  "at_say t xs s = emit (C_at (At_println t xs)) s"

section \<open>Callbacks\<close>

definition USER_RECV_DATA :: nat where "USER_RECV_DATA = 1"
definition USER_GET_EXCEPTION_STATE :: nat where "USER_GET_EXCEPTION_STATE = 2"
definition EXTERN_MCU_CB :: nat where "EXTERN_MCU_CB = 3"
definition AT_GET_RTC_CALLBACK :: nat where "AT_GET_RTC_CALLBACK = 4"

text \<open>Received data goes to the host, or into the ring of the store mode, if there is memory for a copy.\<close>

definition user_recv_data :: "env \<Rightarrow> u8 list \<Rightarrow> u8 \<Rightarrow> at_srv \<Rightarrow> at_srv option" where
  "user_recv_data e data data_type s =
     (if wiota_gpio_mode (at_gpio s) = WIOTA_MODE_OUT_UART then
        Some (at_say '''' [] (emit (C_at (At_send data)) (at_say ''+GATEWAYRECV'' [uint data_type, int (length data)] s)))
      else
        (case rt_malloc e (length data) s of
           (None, s) \<Rightarrow> Some s
         | (Some p, s) \<Rightarrow>
             on_gpio (wiota_data_insert e
               \<lparr>rb_type = data_type, rb_data_len = of_nat (length data), rb_data = Some (p, data)\<rparr>) s))"

definition exception_string :: "string list" where
  "exception_string = [''GATEWAY_DEFAULT'', ''GATEWAY_NORMAL'', ''GATEWAY_FAILED'', ''GATEWAY_END'', ''GATEWAY_RECONNECT'',
     ''GATEWAY_OTA_UPGRADE'', ''GATEWAY_OTA_PROGRAMING'']"

definition user_get_exception_state :: "nat \<Rightarrow> at_srv \<Rightarrow> at_srv option" where
  "user_get_exception_state exception_type s =
     do { t \<leftarrow> rd exception_string exception_type; Some (at_say (''+GATEWAYSTATE:'' @ t) [] s) }"

definition extern_mcu_cb :: "u32 \<Rightarrow> u32 \<Rightarrow> u8 list \<Rightarrow> at_srv \<Rightarrow> at_srv" where
  "extern_mcu_cb start_addr len md5 s = at_say ''+EXMCUOTA'' (uint start_addr # uint len # map uint md5) s"

definition at_get_rtc_callback :: "u32 \<Rightarrow> u8 list \<Rightarrow> at_srv \<Rightarrow> at_srv option" where
  "at_get_rtc_callback fmt time s =
     do { t \<leftarrow> rd32 time 0; Some (at_say (if fmt = 0 then ''+GATEWAYRTC'' else ''+GATEWAYRTC:ctime'') [uint t] s) }"

definition at_callback :: "env \<Rightarrow> cb_event \<Rightarrow> at_srv \<Rightarrow> at_srv option" where
  "at_callback e ev s =
     (case ev of
        U_user_recv cb data type \<Rightarrow> if cb = USER_RECV_DATA then user_recv_data e data type s else Some s
      | U_state_report cb st \<Rightarrow> if cb = USER_GET_EXCEPTION_STATE then user_get_exception_state st s else Some s
      | U_ex_mcu cb addr len md5 \<Rightarrow> Some (if cb = EXTERN_MCU_CB then extern_mcu_cb addr len md5 s else s)
      | U_rtc cb fmt time \<Rightarrow> if cb = AT_GET_RTC_CALLBACK then at_get_rtc_callback fmt time s else Some s)"

text \<open>The callbacks among some events, in their order.\<close>

fun run_callbacks :: "env \<Rightarrow> call list \<Rightarrow> at_srv \<Rightarrow> at_srv option" where
  "run_callbacks e [] s = Some s"
| "run_callbacks e (C_cb ev # cs) s = do { s \<leftarrow> at_callback e ev s; run_callbacks e cs s }"
| "run_callbacks e (c # cs) s = run_callbacks e cs s"

text \<open>A downlink that the task of the client takes from its queue, and what the callbacks do with it.\<close>

definition at_downlink :: "env \<Rightarrow> u8 list option \<Rightarrow> u8 \<Rightarrow> at_srv \<Rightarrow> at_srv option" where
  "at_downlink e data data_type s =
     do { (_, s') \<leftarrow> on_gw (\<lambda>g. map_option (Pair ()) (uc_wiota_gateway_analisys_dl_msg e data data_type g)) s;
          run_callbacks e (rev (take (length (hist s') - length (hist s)) (hist s'))) s' }"

section \<open>Start and end\<close>

definition gateway_mode_of :: "u32 \<Rightarrow> uc_gatway_mode" where
  "gateway_mode_of m =
     (if m = 0 then UC_GATEWAY_MODE else if m = 2 then UC_TRANSMISSION_MODE
      else if m = 3 then UC_GATEWAY_TIME_SLOT_MODE else UC_OTHER_MODE)"

definition register_at_callbacks :: "gw \<Rightarrow> gw" where
  "register_at_callbacks s =
     snd (uc_wiota_gateway_register_ex_mcu_cb (Some EXTERN_MCU_CB)
       (snd (uc_wiota_gateway_register_user_recv_cb (Some USER_RECV_DATA) (Some USER_GET_EXCEPTION_STATE) s)))"

definition at_gateway_start :: "env \<Rightarrow> uc_gatway_mode \<Rightarrow> u8 list \<Rightarrow> at_srv \<Rightarrow> (int \<times> at_srv) option" where
  "at_gateway_start e mode key s =
     do { let s = s\<lparr>at_gw := register_at_callbacks (at_gw s)\<rparr>;
          freqs \<leftarrow> at_wiota_get_avail_freq_list e (0xFF # replicate 7 0) 8 ((at_mgr s)\<lparr>hist := hist s\<rparr>);
          (rc, s) \<leftarrow> on_gw (uc_wiota_gateway_start e mode (Some key) (Some freqs)) s;
          let s = (if rc = 0 then s\<lparr>at_task := T_ready\<rparr> else s);
          Some (rc, emit (C_os (O_thread_delay 2)) s) }"

text \<open>While \<^verbatim>\<open>uc_wiota_gateway_end\<close> waits, the task runs. \<open>None\<close> is also a wait that does not end.\<close>

partial_function (option) wait_exit_loop :: "env \<Rightarrow> task_pc \<Rightarrow> gw \<Rightarrow> (task_pc \<times> gw) option" where
  "wait_exit_loop e t s =
     (if exit_flag (gm s) = 1 then Some (t, s)
      else
        (case t of
           T_ready \<Rightarrow> (case task_start e s of (t, s) \<Rightarrow> wait_exit_loop e t s)
         | T_run timeout l f \<Rightarrow> do { (t, s) \<leftarrow> task_iteration e timeout l f s; wait_exit_loop e t s }
         | _ \<Rightarrow> wait_exit_loop e t s))"

declare wait_exit_loop.simps [code]

definition uc_wiota_gateway_end :: "env \<Rightarrow> task_pc \<Rightarrow> gw \<Rightarrow> ((int \<times> task_pc) \<times> gw) option" where
  "uc_wiota_gateway_end e t s =
     (if wiota_gw_connect_flag s = UC_GW_NO_CONNECT then Some ((1, t), s)
      else do { s \<leftarrow> end_request s;
                (t, s) \<leftarrow> (if uc_wiota_gateway_wait_exit s = A_wait_exit then wait_exit_loop e t s else Some (t, s));
                s \<leftarrow> end_finish s;
                Some ((0, t), s) })"

definition at_gateway_end :: "env \<Rightarrow> at_srv \<Rightarrow> at_srv option" where
  "at_gateway_end e s =
     do { ((rc, t), s) \<leftarrow> on_gw (uc_wiota_gateway_end e (at_task s)) s; Some (s\<lparr>at_task := t\<rparr>) }"

definition AUTH_KEY_LEN :: nat where "AUTH_KEY_LEN = 18"

text \<open>
  The key buffer as \<^verbatim>\<open>parse\<close> leaves it. The last two characters before its end are cleared; the
  indices are computed without a check, so a shorter key is an access outside the array.
\<close>

definition trim_key :: "u8 list \<Rightarrow> u8 list option" where
  "trim_key key =
     do { n \<leftarrow> rt_strlen key;
          let auth_key_len = n mod 256;
          guard (auth_key_len \<ge> 2);
          key \<leftarrow> wr key (auth_key_len - 2) [0];
          wr key (auth_key_len - 1) [0] }"

definition at_wiota_gateway_api_init :: "env \<Rightarrow> (u32 \<times> u8 list) option \<Rightarrow> at_srv \<Rightarrow> (at_result \<times> at_srv) option" where
  "at_wiota_gateway_api_init e args s =
     (case args of
        None \<Rightarrow> Some (AT_RESULT_PARSE_FAILE, s)
      | Some (mode, auth_key) \<Rightarrow>
          if gateway_mode_of mode = UC_OTHER_MODE then Some (AT_RESULT_PARSE_FAILE, s)
          else do { auth_key \<leftarrow> trim_key auth_key;
                    (init_state, s) \<leftarrow> at_gateway_start e (gateway_mode_of mode) auth_key s;
                    Some (if init_state = 0 then AT_RESULT_OK else AT_RESULT_FAILE, s) })"

definition at_wiota_gateway_api_deinit :: "env \<Rightarrow> at_srv \<Rightarrow> (at_result \<times> at_srv) option" where
  "at_wiota_gateway_api_deinit e s = do { s \<leftarrow> at_gateway_end e s; Some (AT_RESULT_OK, s) }"

section \<open>Sending\<close>

text \<open>The characters that the host sends, one by one into the buffer.\<close>

fun read_chars :: "env \<Rightarrow> nat \<Rightarrow> nat \<Rightarrow> u8 list \<Rightarrow> 'a sys_scheme \<Rightarrow> (bool \<times> u8 list \<times> 'a sys_scheme) option" where
  "read_chars e 0 i buf s = Some (True, buf, s)"
| "read_chars e (Suc n) i buf s =
     (let s = emit (C_at At_get_char) s
      in case e_get_char e (hist s) of
           None \<Rightarrow> Some (False, buf, at_say ''WAIT TIMEOUT'' [] s)
         | Some c \<Rightarrow> do { buf \<leftarrow> wr buf i [c]; read_chars e n (i + 1) buf s })"

definition at_wiota_gateway_api_send_data :: "env \<Rightarrow> (u32 \<times> u32) option \<Rightarrow> at_srv \<Rightarrow> (at_result \<times> at_srv) option" where
  "at_wiota_gateway_api_send_data e args s =
     (case args of
        None \<Rightarrow> Some (AT_RESULT_PARSE_FAILE, s)
      | Some (timeout, buf_len) \<Rightarrow>
          if unat buf_len > GATEWAY_SEND_MAX_LEN then Some (AT_RESULT_PARSE_FAILE, s)
          else
            do { (all_read, send_buf, s) \<leftarrow>
                   read_chars e (unat buf_len) 0 (replicate (GATEWAY_SEND_MAX_LEN + 2) 0) (at_say ''>'' [] s);
                 if \<not> all_read then Some (AT_RESULT_NULL, s)
                 else
                   do { (send_state, s) \<leftarrow> on_gw (uc_wiota_gateway_send_data e (Some send_buf) (unat buf_len) timeout) s;
                        if send_state = 0 then Some (AT_RESULT_FAILE, at_say ''SEND FAIL'' [] s)
                        else Some (AT_RESULT_OK, at_say ''SEND SUCC'' [] s) } })"

definition at_wiota_gateway_send_and_sleep_setup ::
  "env \<Rightarrow> (u32 \<times> u32 \<times> u32 \<times> u32) option \<Rightarrow> at_srv \<Rightarrow> (at_result \<times> at_srv) option" where
  "at_wiota_gateway_send_and_sleep_setup e args s =
     (case args of
        None \<Rightarrow> Some (AT_RESULT_PARSE_FAILE, s)
      | Some (timeout, buf_len, is_sleep, sleep_delay) \<Rightarrow>
          if unat buf_len > GATEWAY_SEND_MAX_LEN then Some (AT_RESULT_CHECK_FAILE, s)
          else
            do { (all_read, send_buf, s) \<leftarrow>
                   read_chars e (unat buf_len) 0 (replicate (GATEWAY_SEND_MAX_LEN + 2) 0) (at_say ''>'' [] s);
                 if \<not> all_read then Some (AT_RESULT_NULL, s)
                 else
                   do { let s = s\<lparr>at_gw := uc_gateway_set_send_sleep_flag (ucast is_sleep) (at_gw s)\<rparr>;
                        (send_state, s) \<leftarrow> on_gw (uc_wiota_gateway_send_data e (Some send_buf) (unat buf_len) timeout) s;
                        let (result, s) = (if send_state = 0 then (AT_RESULT_FAILE, at_say ''SEND FAIL'' [] s)
                                           else (AT_RESULT_OK, at_say ''SEND SUCC'' [] s));
                        if is_sleep \<noteq> 0 then
                          do { let s = (if sleep_delay > 0 then emit (C_os (O_thread_mdelay (unat sleep_delay))) s else s);
                               (_, s) \<leftarrow> on_gw (\<lambda>g. map_option (Pair ()) (uc_gateway_enter_sync_paging_by_time_slot e g)) s;
                               Some (result, s) }
                        else Some (result, s) } })"

section \<open>Other commands\<close>

definition result_of :: "int \<Rightarrow> at_result" where
  "result_of ret = (if ret \<noteq> 0 then AT_RESULT_OK else AT_RESULT_FAILE)"

definition at_wiota_gateway_api_ota_req :: "env \<Rightarrow> at_srv \<Rightarrow> (at_result \<times> at_srv) option" where
  "at_wiota_gateway_api_ota_req e s =
     do { (ret, s) \<leftarrow> on_gw (uc_wiota_gateway_ota_req e) s; Some (result_of ret, s) }"

definition at_wiota_gateway_ota_state_setup :: "u32 option \<Rightarrow> at_srv \<Rightarrow> at_result \<times> at_srv" where
  "at_wiota_gateway_ota_state_setup args s =
     (case args of
        None \<Rightarrow> (AT_RESULT_PARSE_FAILE, s)
      | Some type \<Rightarrow>
          if type = 0 then
            (AT_RESULT_OK,
             at_say ''+GATEWAYOTASTATE''
               [uint (uc_wiota_gateway_get_ota_dev_type (at_gw s)), uint (uc_wiota_gateway_get_ota_state (at_gw s)),
                uint (uc_wiota_gateway_get_ota_recved_len (at_gw s)), uint (uc_wiota_gateway_get_ota_bin_addr (at_gw s))] s)
          else if type = 1 then (AT_RESULT_OK, s\<lparr>at_gw := uc_wiota_gateway_clear_ota_state (at_gw s)\<rparr>)
          else (AT_RESULT_FAILE, s))"

definition at_wiota_gateway_api_report_state :: "env \<Rightarrow> at_srv \<Rightarrow> (at_result \<times> at_srv) option" where
  "at_wiota_gateway_api_report_state e s =
     do { (ret, s) \<leftarrow> on_gw (uc_wiota_gateway_state_update_info_msg e) s; Some (result_of ret, s) }"

definition at_wiota_gateway_api_get_rtc :: "env \<Rightarrow> u32 option \<Rightarrow> at_srv \<Rightarrow> (at_result \<times> at_srv) option" where
  "at_wiota_gateway_api_get_rtc e args s =
     (case args of
        None \<Rightarrow> Some (AT_RESULT_PARSE_FAILE, s)
      | Some fmt \<Rightarrow>
          do { (ret, s) \<leftarrow> on_gw (uc_wiota_gateway_get_rtc e fmt (Some AT_GET_RTC_CALLBACK)) s;
               Some (if ret \<noteq> 0 then AT_RESULT_FAILE else AT_RESULT_OK, s) })"

definition at_wiota_gateway_verity_setup :: "u32 option \<Rightarrow> at_srv \<Rightarrow> at_result \<times> at_srv" where
  "at_wiota_gateway_verity_setup args s =
     (case args of
        None \<Rightarrow> (AT_RESULT_PARSE_FAILE, s)
      | Some is_open \<Rightarrow> (AT_RESULT_OK, s\<lparr>at_gw := uc_wiota_gateway_set_verity (ucast is_open) (at_gw s)\<rparr>))"

text \<open>The image for another controller that an update left in flash, with the radio suspended.\<close>

definition at_wiota_gateway_ex_mcu_read :: "env \<Rightarrow> (u32 \<times> u32) option \<Rightarrow> at_srv \<Rightarrow> (at_result \<times> at_srv) option" where
  "at_wiota_gateway_ex_mcu_read e args s =
     (case args of
        None \<Rightarrow> Some (AT_RESULT_PARSE_FAILE, s)
      | Some (read_addr, read_len) \<Rightarrow>
          if read_len > 512 \<or> uc_wiota_gateway_get_ota_state (at_gw s) = 1 then Some (AT_RESULT_FAILE, s)
          else
            do { let (buffer, s) = rt_malloc e (unat read_len) s;
                 guard (buffer \<noteq> None);
                 let s = emit (C_wiota W_suspend_connect) s;
                 let s = emit (C_os (O_thread_mdelay (unat (e_frame_len e (hist s) div 1000 + 2)))) s;
                 (n, data, s) \<leftarrow> uc_wiota_ota_flash_read e (unat read_addr) (unat read_len) s;
                 if n \<noteq> unat read_len
                 then Some (AT_RESULT_FAILE, emit (C_wiota W_recover_connect) (rt_free buffer s))
                 else
                   do { let s = emit (C_wiota W_recover_connect) s;
                        let s = at_say ''+GATEWAYEXMCU'' [uint read_len] s;
                        let s = at_say '''' [] (emit (C_at (At_send data)) s);
                        Some (AT_RESULT_OK, rt_free buffer s) } })"

section \<open>Quick connect and disconnect\<close>

definition quick_connect_radio :: "env \<Rightarrow> u32 \<Rightarrow> u32 \<Rightarrow> u32 \<Rightarrow> at_srv \<Rightarrow> at_srv" where
  "quick_connect_radio e freq_idx subsystemid force_active s =
     (let s = set_at_state AT_WIOTA_INIT (emit (C_wiota W_init) s);
          s = (if freq_idx \<noteq> 0 \<and> freq_idx \<noteq> ucast (e_freq_info e (hist s)) then emit (C_wiota (W_set_freq_info (ucast freq_idx))) s else s);
          config = e_system_config e (hist s);
          s = (if subsystemid \<noteq> 0 \<and> subsystemid \<noteq> cfg_subsystemid config
               then emit (C_wiota (W_set_system_config (config\<lparr>cfg_subsystemid := subsystemid\<rparr>))) s else s);
          s = set_at_state AT_WIOTA_RUN (emit (C_wiota W_run) s);
          s = emit (C_setup (S_connect_quick (ucast force_active))) s;
          s = s\<lparr>at_gw := uc_gateway_set_force_actice (ucast force_active) (at_gw s)\<rparr>;
          gw_info = e_gateway_info e (hist s);
          s = emit (C_wiota (W_set_sm_resend_times (gwi_resend_times gw_info))) s
      in emit (C_wiota (W_set_data_rate 0 (gwi_ul_mcs gw_info))) s)"

definition at_wiota_gateway_quick_connect ::
  "env \<Rightarrow> (u32 \<times> u32 \<times> u32 \<times> u32) option \<Rightarrow> at_srv \<Rightarrow> (at_result \<times> at_srv) option" where
  "at_wiota_gateway_quick_connect e args s =
     (case args of
        None \<Rightarrow> Some (AT_RESULT_PARSE_FAILE, s)
      | Some (freq_idx, subsystemid, force_active, mode) \<Rightarrow>
          if gateway_mode_of mode = UC_OTHER_MODE then Some (AT_RESULT_CHECK_FAILE, s)
          else
            (let s = quick_connect_radio e freq_idx subsystemid force_active s;
                 s = (if force_active = 0 then emit (C_wiota (W_wait_sync 5000 0)) s else s)
             in if force_active = 0 \<and> e_wait_sync e (hist s) \<noteq> 0
                then Some (AT_RESULT_FAILE, set_at_state AT_WIOTA_EXIT (emit (C_wiota W_exit) s))
                else
                  do { (init_state, s) \<leftarrow> at_gateway_start e (gateway_mode_of mode) (cstr ''123456'') s;
                       if init_state \<noteq> 0 then
                         do { s \<leftarrow> at_gateway_end e s;
                              Some (AT_RESULT_FAILE, set_at_state AT_WIOTA_EXIT (emit (C_wiota W_exit) s)) }
                       else Some (AT_RESULT_OK, s) }))"

definition at_wiota_gateway_quick_disconnect :: "env \<Rightarrow> at_srv \<Rightarrow> (at_result \<times> at_srv) option" where
  "at_wiota_gateway_quick_disconnect e s =
     do { s \<leftarrow> at_gateway_end e s;
          Some (AT_RESULT_OK, set_at_state AT_WIOTA_EXIT (emit (C_wiota W_exit) s)) }"

end
