(* ===== verification/GatewayHost.thy ===== *)
theory GatewayHost
  imports GatewayAt
begin

text \<open>
  What a host sees of the AT commands of the gateway client: the characters it types at one device
  arrive at the host of another or in its store, the key of the client, the memory of an image for
  another controller, and what becomes of a connection that cannot be set up.
\<close>

section \<open>From host to host\<close>

text \<open>The next characters that the host sends, if it sends so many in time.\<close>

fun typed :: "env \<Rightarrow> nat \<Rightarrow> call list \<Rightarrow> u8 list option" where
  "typed e 0 h = Some []"
| "typed e (Suc n) h =
     (let h = C_at At_get_char # h
      in case e_get_char e h of None \<Rightarrow> None | Some c \<Rightarrow> map_option ((#) c) (typed e n h))"

lemma read_chars_typed:
  assumes "read_chars e n i buf s = Some (True, buf', s')" "i + n \<le> length buf"
  shows "\<exists>cs. typed e n (hist s) = Some cs \<and> length cs = n \<and> buf' = take i buf @ cs @ drop (i + n) buf \<and>
    s' = s\<lparr>hist := replicate n (C_at At_get_char) @ hist s\<rparr>"
  using assms
proof (induction n arbitrary: i buf s)
  case (Suc n)
  let ?s = "emit (C_at At_get_char) s"
  obtain c where c: "e_get_char e (hist ?s) = Some c"
    using Suc.prems(1) by (cases "e_get_char e (hist ?s)") (simp_all add: Let_def)
  let ?b = "take i buf @ [c] @ drop (i + 1) buf"
  have r: "read_chars e n (i + 1) ?b ?s = Some (True, buf', s')"
    using Suc.prems c by (simp add: Let_def wr_def)
  have l: "i + 1 + n \<le> length ?b" using Suc.prems(2) by simp
  obtain cs where cs: "typed e n (hist ?s) = Some cs" "length cs = n"
      "buf' = take (i + 1) ?b @ cs @ drop (i + 1 + n) ?b"
      "s' = ?s\<lparr>hist := replicate n (C_at At_get_char) @ hist ?s\<rparr>"
    using Suc.IH[OF r l] by blast
  have "take (i + 1) ?b = take i buf @ [c]" "drop (i + 1 + n) ?b = drop (i + Suc n) buf"
    using Suc.prems(2) by (simp_all add: drop_append add.commute)
  then show ?case
    using cs c by (simp add: Let_def emit_def replicate_app_Cons_same)
qed simp

lemma send_data_result:
  "uc_wiota_gateway_send_data e data n timeout s = Some (rc, s') \<Longrightarrow> rc = 0 \<or> rc = 1"
  by (auto simp: uc_wiota_gateway_send_data_def Let_def split: if_splits Option.bind_splits)

lemma at_send_typed:
  assumes "at_wiota_gateway_api_send_data e (Some (timeout, n)) s = Some (AT_RESULT_OK, s')" "heap_ok (hist s)"
  shows "\<exists>cs buf g g'. typed e (unat n) (C_at (At_println ''>'' []) # hist s) = Some cs \<and> length cs = unat n \<and>
    unat n \<le> length buf \<and> take (unat n) buf = cs \<and> heap_ok (hist g) \<and>
    uc_wiota_gateway_send_data e (Some buf) (unat n) timeout g = Some (1, g') \<and>
    hist s' = C_at (At_println ''SEND SUCC'' []) # hist g'"
proof -
  let ?s = "at_say ''>'' [] s"
  have n: "unat n \<le> 300" using assms(1) by (simp add: at_wiota_gateway_api_send_data_def GATEWAY_SEND_MAX_LEN_def split: if_splits)
  obtain buf s1 rc s2 where r: "read_chars e (unat n) 0 (replicate 302 0) ?s = Some (True, buf, s1)"
      "on_gw (uc_wiota_gateway_send_data e (Some buf) (unat n) timeout) s1 = Some (rc, s2)" "rc \<noteq> 0"
      "s' = at_say ''SEND SUCC'' [] s2"
    using assms(1) n
    by (auto simp: at_wiota_gateway_api_send_data_def GATEWAY_SEND_MAX_LEN_def split: if_splits Option.bind_splits prod.splits)
  obtain cs where cs: "typed e (unat n) (hist ?s) = Some cs" "length cs = unat n" "buf = cs @ drop (unat n) (replicate 302 0)"
      "s1 = ?s\<lparr>hist := replicate (unat n) (C_at At_get_char) @ hist ?s\<rparr>"
    using read_chars_typed[OF r(1)] n by auto
  let ?g = "(at_gw s1)\<lparr>hist := hist s1\<rparr>"
  obtain g' where g': "uc_wiota_gateway_send_data e (Some buf) (unat n) timeout ?g = Some (rc, g')" "hist s2 = hist g'"
    using r(2) by (auto simp: on_gw_def split: Option.bind_splits)
  have "heap_ok (replicate k (C_at At_get_char) @ hist ?s)" for k
    by (induction k) (use assms(2) in \<open>simp_all add: at_say_def\<close>)
  then have "heap_ok (hist ?g)" using cs(4) by simp
  moreover have "rc = 1" using send_data_result[OF g'(1)] r(3) by simp
  ultimately show ?thesis
    using cs(1-3) g' r(4) n
    by (intro exI[of _ cs] exI[of _ buf] exI[of _ ?g] exI[of _ g']) (simp add: at_say_def)
qed

lemma run_callbacks_heap [simp]: "run_callbacks e (map C_heap cs @ xs) s = run_callbacks e xs s"
  by (induction cs) simp_all

text \<open>The one callback of a packet with user data.\<close>

lemma downlink_user_data:
  assumes "uc_wiota_gateway_analisys_dl_msg e (Some bytes) ty ((at_gw r)\<lparr>hist := hist r\<rparr>) =
      Some ((at_gw r)\<lparr>hist := C_free q # C_cb (U_user_recv USER_RECV_DATA cs ty) # map C_heap hs @ hist r\<rparr>)"
  shows "\<exists>r1. at_downlink e (Some bytes) ty r = user_recv_data e cs ty r1 \<and> at_gpio r1 = at_gpio r \<and>
    hist r1 = C_free q # C_cb (U_user_recv USER_RECV_DATA cs ty) # map C_heap hs @ hist r"
proof -
  let ?h = "C_free q # C_cb (U_user_recv USER_RECV_DATA cs ty) # map C_heap hs @ hist r"
  let ?r = "r\<lparr>hist := ?h, at_gw := (at_gw r)\<lparr>hist := ?h\<rparr>\<rparr>"
  have "rev (take (length ?h - length (hist r)) ?h) =
      map C_heap (rev hs) @ [C_cb (U_user_recv USER_RECV_DATA cs ty), C_free q]"
    by (simp add: rev_map)
  then have "at_downlink e (Some bytes) ty r = user_recv_data e cs ty ?r"
    using assms
    by (cases "user_recv_data e cs ty ?r") (simp_all add: at_downlink_def on_gw_def at_callback_def del: length_append)
  then show ?thesis by (intro exI[of _ ?r]) simp
qed

lemma user_data_stored:
  assumes "wiota_gpio_mode (at_gpio r) \<noteq> WIOTA_MODE_OUT_UART" "\<And>h k. e_malloc e h k" "ring_ok (at_gpio r)"
  shows "\<exists>g. user_recv_data e data ty r = Some (r\<lparr>hist := hist g, at_gpio := g\<rparr>) \<and> ring_ok g \<and>
    contents g = tl (contents (at_gpio r)) @ [\<lparr>rb_type = ty, rb_data_len = of_nat (length data), rb_data = Some (length (hist r), data)\<rparr>]"
proof -
  let ?p = "length (hist r)"
  let ?h = "C_malloc ?p (length data) # hist r"
  let ?d = "\<lparr>rb_type = ty, rb_data_len = of_nat (length data), rb_data = Some (?p, data)\<rparr>"
  have ring: "ring_ok ((at_gpio r)\<lparr>hist := ?h\<rparr>)" "contents ((at_gpio r)\<lparr>hist := ?h\<rparr>) = contents (at_gpio r)"
    using assms(3) by (simp_all add: ring_ok_def contents_def)
  obtain g where g: "wiota_data_insert e ?d ((at_gpio r)\<lparr>hist := ?h\<rparr>) = Some g" "ring_ok g"
      "contents g = tl (contents (at_gpio r)) @ [?d]"
    using insert_ring[OF ring(1), of ?d e] ring(2) by auto
  have "user_recv_data e data ty r = Some (r\<lparr>hist := hist g, at_gpio := g\<rparr>)"
    using assms(1,2) g(1) by (simp add: user_recv_data_def rt_malloc_def on_gpio_def emit_def)
  then show ?thesis using g(2,3) by blast
qed

text \<open>C7. From host to host. When the command AT+GATEWAYSEND answers with success, the client handed a packet
  to the radio for which the following holds: any device that receives it, with the callbacks of the AT
  commands registered, without the filter on the sender and with memory, makes exactly the characters
  that the first host typed of it. In the output mode the last thing it sends to its host is the line with
  the type and the number of the characters, the characters and an empty line; in the store mode they
  become the latest entry of the ring, in a fresh block, and the oldest entry is dropped.
\<close>

theorem host_to_host:
  assumes sent: "at_wiota_gateway_api_send_data e (Some (timeout, n)) s = Some (AT_RESULT_OK, s')" "heap_ok (hist s)"
    and r: "user_recv (at_gw r) = Some USER_RECV_DATA" "gw_verity (gm (at_gw r)) = 0" "\<And>h k. e_malloc e2 h k" "heap_ok (hist r)"
      "ring_ok (at_gpio r)"
  shows "\<exists>cs bytes r'. typed e (unat n) (C_at (At_println ''>'' []) # hist s) = Some cs \<and> length cs = unat n \<and>
    C_wiota (W_send_data bytes (word_of_nat (length bytes)) (ucast timeout)) \<in> set (hist s') \<and>
    at_downlink e2 (Some bytes) ty r = Some r' \<and>
    (if wiota_gpio_mode (at_gpio r) = WIOTA_MODE_OUT_UART
     then (\<exists>h. hist r' = C_at (At_println '''' []) # C_at (At_send cs) #
             C_at (At_println ''+GATEWAYRECV'' [uint ty, uint n]) # h \<and> live h = live (hist r))
     else (\<exists>p. p \<notin> set (live (hist r)) \<and> ring_ok (at_gpio r') \<and>
             contents (at_gpio r') =
               tl (contents (at_gpio r)) @ [\<lparr>rb_type = ty, rb_data_len = ucast n, rb_data = Some (p, cs)\<rparr>]))"
proof -
  obtain cs buf g g' where g: "typed e (unat n) (C_at (At_println ''>'' []) # hist s) = Some cs" "length cs = unat n"
      "unat n \<le> length buf" "take (unat n) buf = cs" "heap_ok (hist g)"
      "uc_wiota_gateway_send_data e (Some buf) (unat n) timeout g = Some (1, g')"
      "hist s' = C_at (At_println ''SEND SUCC'' []) # hist g'"
    using at_send_typed[OF sent] by metis
  let ?r = "(at_gw r)\<lparr>hist := hist r\<rparr>"
  have rr: "user_recv ?r = Some USER_RECV_DATA" "gw_verity (gm ?r) = 0" "heap_ok (hist ?r)" using r by simp_all
  obtain p bytes h q hs where d: "hist g' = C_free p # C_wiota (W_send_data bytes (word_of_nat (length bytes)) (ucast timeout)) # h"
      "uc_wiota_gateway_analisys_dl_msg e2 (Some bytes) ty ?r =
         Some (?r\<lparr>hist := C_free q # C_cb (U_user_recv USER_RECV_DATA cs ty) # map C_heap hs @ hist ?r\<rparr>)"
      "live (C_free q # C_cb (U_user_recv USER_RECV_DATA cs ty) # map C_heap hs @ hist ?r) = live (hist ?r)"
      "heap_ok (C_free q # C_cb (U_user_recv USER_RECV_DATA cs ty) # map C_heap hs @ hist ?r)"
    using user_data_delivered[OF g(6,3,5) rr(1,2) r(3) rr(3), of ty] unfolding g(4) by blast
  have "uc_wiota_gateway_analisys_dl_msg e2 (Some bytes) ty ?r =
      Some ((at_gw r)\<lparr>hist := C_free q # C_cb (U_user_recv USER_RECV_DATA cs ty) # map C_heap hs @ hist r\<rparr>)"
    using d(2) by simp
  from downlink_user_data[OF this] obtain r1 where r1: "at_downlink e2 (Some bytes) ty r = user_recv_data e2 cs ty r1"
      "at_gpio r1 = at_gpio r" "live (hist r1) = live (hist r)" "heap_ok (hist r1)"
    using d(3,4) by auto
  have s: "C_wiota (W_send_data bytes (word_of_nat (length bytes)) (ucast timeout)) \<in> set (hist s')" using g(7) d(1) by simp
  show ?thesis
  proof (cases "wiota_gpio_mode (at_gpio r) = WIOTA_MODE_OUT_UART")
    case True
    then show ?thesis
      using g(1,2) s r1 by (intro exI[of _ cs] exI[of _ bytes]) (simp add: user_recv_data_def at_say_def)
  next
    case False
    let ?d = "\<lparr>rb_type = ty, rb_data_len = ucast n, rb_data = Some (length (hist r1), cs)\<rparr>"
    have "of_nat (length cs) = (ucast n :: u16)" unfolding g(2) by (rule ucast_eq[of n, unfolded uint_nat of_int_of_nat_eq, symmetric])
    then obtain g1 where g1: "user_recv_data e2 cs ty r1 = Some (r1\<lparr>hist := hist g1, at_gpio := g1\<rparr>)" "ring_ok g1"
        "contents g1 = tl (contents (at_gpio r)) @ [?d]"
      using user_data_stored[of r1 e2 cs ty] False r1(2) r(3,5) by auto
    moreover have "length (hist r1) \<notin> set (live (hist r))" using fresh_not_live[OF r1(4)] r1(3) by simp
    ultimately show ?thesis
      using False g(1,2) s r1(1) g1 by (intro exI[of _ cs] exI[of _ bytes]) auto
  qed
qed


definition sending_at :: at_srv where "sending_at = init_at\<lparr>at_gw := sender\<rparr>"
definition receiving_at :: at_srv where "receiving_at = init_at\<lparr>at_gw := register_at_callbacks init_gw\<rparr>"
definition heard :: gw where "heard = sender\<lparr>hist := [C_at At_get_char, C_at (At_println ''>'' [])]\<rparr>"

lemma heard_codes:
  "\<exists>mem h' s1. app_data_coding good_env (user_data_header good_env (emit (C_query Q_state) heard)) (Some (65 # replicate 301 0)) 1
     (emit (C_query Q_state) heard) = Some (0, Some (3, mem, 3), h', s1) \<and> gm s1 = zero_mode"
  by (simp cong: bind_weak add: packet_eval user_data_header_def dest_header_def sender_def init_gw_def heard_def
      uc_wiota_gateway_get_verity_def zero_mode_def app_set_header_property_def wire_header_def)

lemma heard_sends: "\<exists>s'. uc_wiota_gateway_send_data good_env (Some (65 # replicate 301 0)) 1 60000 heard = Some (1, s')"
proof -
  obtain mem h' s1 where c: "app_data_coding good_env (user_data_header good_env (emit (C_query Q_state) heard))
      (Some (65 # replicate 301 0)) 1 (emit (C_query Q_state) heard) = Some (0, Some (3, mem, 3), h', s1)" "gm s1 = zero_mode"
    using heard_codes by blast
  then show ?thesis
    by (simp add: uc_wiota_gateway_send_data_def GATEWAY_SEND_MAX_LEN_def heard_def sender_def init_gw_def good_env_def
        zero_mode_def emit_def uc_wiota_gateway_get_state_def transmit_def wiota_send_def
        uc_wiota_gateway_wait_send_time_slot_def rt_free_def)
qed

lemma sending_succeeds: "\<exists>s'. at_wiota_gateway_api_send_data good_env (Some (60000, 1)) sending_at = Some (AT_RESULT_OK, s')"
proof -
  let ?s = "emit (C_at At_get_char) (at_say ''>'' [] sending_at)"
  obtain g where g: "uc_wiota_gateway_send_data good_env (Some (65 # replicate 301 0)) 1 60000 heard = Some (1, g)"
    using heard_sends by blast
  have "(at_gw ?s)\<lparr>hist := hist ?s\<rparr> = heard"
    by (simp add: heard_def sending_at_def init_at_def at_say_def emit_def)
  then have o: "on_gw (uc_wiota_gateway_send_data good_env (Some (65 # replicate 301 0)) 1 60000) ?s =
      Some (1, ?s\<lparr>hist := hist g, at_gw := g\<rparr>)"
    using g by (simp add: on_gw_def)
  have "e_get_char good_env h = Some 65" for h by (simp add: good_env_def)
  then have "read_chars good_env 1 0 (replicate 302 0) (at_say ''>'' [] sending_at) = Some (True, 65 # replicate 301 0, ?s)"
    by (simp add: wr_def Let_def)
  then show ?thesis using o by (simp add: at_wiota_gateway_api_send_data_def GATEWAY_SEND_MAX_LEN_def)
qed

theorem host_to_host_witness:
  "\<exists>bytes r'. at_downlink good_env (Some bytes) 1 receiving_at = Some r' \<and>
     take 3 (hist r') = [C_at (At_println '''' []), C_at (At_send [65]), C_at (At_println ''+GATEWAYRECV'' [1, 1])]"
proof -
  obtain s' where s': "at_wiota_gateway_api_send_data good_env (Some (60000, 1)) sending_at = Some (AT_RESULT_OK, s')"
    using sending_succeeds by blast
  have h: "heap_ok (hist sending_at)" "heap_ok (hist receiving_at)" "ring_ok (at_gpio receiving_at)"
      "user_recv (at_gw receiving_at) = Some USER_RECV_DATA" "gw_verity (gm (at_gw receiving_at)) = 0"
      "wiota_gpio_mode (at_gpio receiving_at) = WIOTA_MODE_OUT_UART" "\<And>h k. e_malloc good_env h k"
    by (simp_all add: sending_at_def receiving_at_def init_at_def init_gpio_def init_gw_def zero_mode_def ring_ok_def good_env_def
        register_at_callbacks_def uc_wiota_gateway_register_user_recv_cb_def uc_wiota_gateway_register_ex_mcu_cb_def
        WIOTA_DATA_NUM_def)
  have t: "typed good_env (unat (1 :: u32)) x = Some [65]" for x by (simp add: good_env_def)
  obtain cs bytes r' h' where "typed good_env (unat (1 :: u32)) (C_at (At_println ''>'' []) # hist sending_at) = Some cs"
      "at_downlink good_env (Some bytes) 1 receiving_at = Some r'"
      "hist r' = C_at (At_println '''' []) # C_at (At_send cs) # C_at (At_println ''+GATEWAYRECV'' [uint (1 :: u8), uint (1 :: u32)]) # h'"
    using host_to_host[OF s' h(1,4,5,7,2,3), of 1] h(6) by auto
  then show ?thesis unfolding t by (intro exI[of _ bytes] exI[of _ r']) (simp add: numeral_3_eq_3)
qed

section \<open>The key of the client\<close>

lemma strlen_terminated: "0 \<notin> set xs \<Longrightarrow> rt_strlen (xs @ [0, 0] @ ys) = Some (length xs)"
  by (induction xs) auto

text \<open>
  The key of AT+GATEWAYINIT. With a valid mode, the command clears the last two characters of the key
  that \<^verbatim>\<open>parse\<close> left (the line end) and starts the client with the rest; when the key has fewer than two
  characters, it writes in front of the array.
\<close>

lemma gateway_init_key:
  assumes "gateway_mode_of mode \<noteq> UC_OTHER_MODE" "length key = AUTH_KEY_LEN" "rt_strlen key = Some n"
  shows "(n < 2 \<longrightarrow> at_wiota_gateway_api_init e (Some (mode, key)) s = None) \<and>
    (2 \<le> n \<longrightarrow>
       (let key' = take (n - 2) key @ [0, 0] @ drop n key
        in rt_strlen key' = Some (n - 2) \<and>
           at_wiota_gateway_api_init e (Some (mode, key)) s =
             do { (rc, s) \<leftarrow> at_gateway_start e (gateway_mode_of mode) key' s;
                  Some (if rc = 0 then AT_RESULT_OK else AT_RESULT_FAILE, s) }))"
proof -
  have n: "n < 18" "n mod 256 = n" using strlen_bound[OF assms(3)] assms(2) by (simp_all add: AUTH_KEY_LEN_def)
  show ?thesis
  proof (cases "n < 2")
    case True
    then show ?thesis using assms(1,3) n by (simp add: at_wiota_gateway_api_init_def trim_key_def)
  next
    case False
    let ?k = "take (n - 2) key @ [0, 0] @ drop n key"
    have "wr key (n - 2) [0] = Some (take (n - 2) key @ [0] @ drop (n - 1) key)"
      using False n assms(2) by (simp add: wr_def AUTH_KEY_LEN_def Suc_diff_Suc numeral_2_eq_2)
    moreover have "wr (take (n - 2) key @ [0] @ drop (n - 1) key) (n - 1) [0] = Some ?k"
      using False n assms(2) by (simp add: wr_def AUTH_KEY_LEN_def drop_Cons' min_absorb2)
    ultimately have t: "trim_key key = Some ?k" using False n assms(3) by (simp add: trim_key_def)
    have "rt_strlen ?k = Some (length (take (n - 2) key))"
      by (rule strlen_terminated) (use strlen_no_zero[OF assms(3)] in \<open>auto simp: in_set_conv_nth\<close>)
    then have "rt_strlen ?k = Some (n - 2)" using n assms(2) by (simp add: AUTH_KEY_LEN_def)
    then show ?thesis using False t assms(1) by (simp add: at_wiota_gateway_api_init_def Let_def)
  qed
qed

lemma gateway_init_key_witness:
  "at_wiota_gateway_api_init good_env (Some (0, 13 # replicate 17 0)) init_at = None \<and>
   at_wiota_gateway_api_init good_env (Some (2, [49, 50, 51, 13, 10] @ replicate 13 0)) init_at =
     do { (rc, s) \<leftarrow> at_gateway_start good_env UC_TRANSMISSION_MODE ([49, 50, 51] @ [0, 0] @ replicate 13 0) init_at;
          Some (if rc = 0 then AT_RESULT_OK else AT_RESULT_FAILE, s) }"
proof -
  have "replicate 17 (0 :: u8) = 0 # replicate 16 0" "replicate 13 (0 :: u8) = 0 # replicate 12 0"
    by (simp_all flip: replicate_Suc)
  then have l: "rt_strlen (13 # replicate 17 0) = Some 1" "rt_strlen ([49, 50, 51, 13, 10] @ replicate 13 0) = Some 5"
    by simp_all
  have m: "gateway_mode_of 0 \<noteq> UC_OTHER_MODE" "gateway_mode_of 2 \<noteq> UC_OTHER_MODE"
      "length (13 # replicate 17 (0 :: u8)) = AUTH_KEY_LEN" "length ([49, 50, 51, 13, 10] @ replicate 13 (0 :: u8)) = AUTH_KEY_LEN"
      "gateway_mode_of 2 = UC_TRANSMISSION_MODE"
    by (simp_all add: gateway_mode_of_def AUTH_KEY_LEN_def)
  have "take (5 - 2) ([49, 50, 51, 13, 10] @ replicate 13 0) @ [0, 0] @ drop 5 ([49, 50, 51, 13, 10] @ replicate 13 0) =
      [49, 50, 51] @ [0, 0] @ replicate 13 (0 :: u8)"
    by simp
  then show ?thesis
    using gateway_init_key[OF m(1,3) l(1), of good_env init_at] gateway_init_key[OF m(2,4) l(2), of good_env init_at]
    unfolding m(5) Let_def by simp
qed

end
