(* ===== verification/AtInput.thy ===== *)
theory AtInput
  imports GatewayAt
begin

text \<open>
  A host that types a text: the characters that the commands read from it are the characters of the
  text in their order, and there is none when the text is at its end. Numbers and lists as a host
  prints them.
\<close>

section \<open>The characters of the host\<close>

definition typed_chars :: "call list \<Rightarrow> nat" where
  "typed_chars h = count_calls (\<lambda>c. c = C_at At_get_char) h"

lemma typed_chars_simps [simp]:
  "typed_chars [] = 0" "typed_chars (C_at At_get_char # h) = Suc (typed_chars h)"
  "c \<noteq> C_at At_get_char \<Longrightarrow> typed_chars (c # h) = typed_chars h"
  by (simp_all add: typed_chars_def count_calls_def)

definition host_types :: "env \<Rightarrow> u8 list \<Rightarrow> bool" where
  "host_types e text \<longleftrightarrow> (\<forall>h. e_get_char e (C_at At_get_char # h) = rd text (typed_chars h))"

text \<open>What the host has not typed yet.\<close>

definition pending :: "u8 list \<Rightarrow> call list \<Rightarrow> u8 list" where
  "pending text h = drop (typed_chars h) text"

lemma pending_simps [simp]:
  "c \<noteq> C_at At_get_char \<Longrightarrow> pending text (c # h) = pending text h"
  "pending text (C_at At_get_char # h) = tl (pending text h)"
  by (simp_all add: pending_def tl_drop drop_Suc)

lemma next_char:
  assumes "host_types e text"
  shows "e_get_char e (C_at At_get_char # h) = (case pending text h of [] \<Rightarrow> None | c # cs \<Rightarrow> Some c)"
proof (cases "typed_chars h < length text")
  case True
  then have "pending text h = text ! typed_chars h # drop (Suc (typed_chars h)) text"
    by (simp add: pending_def Cons_nth_drop_Suc)
  then show ?thesis using assms True by (simp add: host_types_def rd_def)
qed (use assms in \<open>simp add: host_types_def rd_def pending_def\<close>)

lemma pending_same: "typed_chars h' = typed_chars h \<Longrightarrow> pending text h' = pending text h"
  by (simp add: pending_def)

lemma typed_chars_free [simp]: "typed_chars (hist (rt_free p s)) = typed_chars (hist s)"
  by (cases p) simp_all

lemma pending_free [simp]: "pending text (hist (rt_free p s)) = pending text (hist s)"
  by (rule pending_same) simp

lemma at_say_fields [simp]:
  "hist (at_say t xs s) = C_at (At_println t xs) # hist s"
  by (simp add: at_say_def)

section \<open>Numbers and lists\<close>

definition digit_char :: "nat \<Rightarrow> u8" where
  "digit_char d = of_nat (if d < 10 then 48 + d else 87 + d)"

function digits :: "nat \<Rightarrow> nat \<Rightarrow> u8 list" where
  "digits b n = (if b < 2 \<or> n < b then [digit_char n] else digits b (n div b) @ [digit_char (n mod b)])"
  by pat_completeness auto
termination by (relation "measure snd") auto

declare digits.simps [simp del]

fun commas :: "u8 list list \<Rightarrow> u8 list" where
  "commas [] = []"
| "commas [x] = x"
| "commas (x # y # xs) = x @ 44 # commas (y # xs)"

lemma commas_Cons: "xs \<noteq> [] \<Longrightarrow> commas (x # xs) = x @ 44 # commas xs"
  by (cases xs) simp_all

text \<open>What a host that knows the grammar types for a number: an actual field of a list.\<close>

definition field :: "u8 list \<Rightarrow> bool" where
  "field x \<longleftrightarrow> x \<noteq> [] \<and> 0 \<notin> set x \<and> 44 \<notin> set x"

lemma digits_not_Nil [simp]: "digits b n \<noteq> []"
  by (subst digits.simps) simp

end
