(* ===== verification/AtScan.thy ===== *)
theory AtScan
  imports GatewayAt
begin

text \<open>
  The command AT+WIOTASCANFREQ of \<^verbatim>\<open>PS/at/at_wiota.c\<close>: the host gives a number of frequencies, the
  command reads a line of decimal frequencies and, in one mode, hexadecimal subsystem ids, and asks
  the radio for a scan of them.

  The line goes to a block of 13 bytes for each announced frequency. Memory that was not written is
  not part of a block here, so reading it is a fault as well.
\<close>

section \<open>Numbers\<close>

definition digit_of :: "u8 \<Rightarrow> u32 option" where
  "digit_of c =
     (if 48 \<le> c \<and> c \<le> 57 then Some (ucast (c - 48))
      else if 65 \<le> c \<and> c \<le> 70 then Some (ucast (c - 65 + 10))
      else if 97 \<le> c \<and> c \<le> 102 then Some (ucast (c - 97 + 10))
      else None)"

fun power_loop :: "u32 \<Rightarrow> nat \<Rightarrow> u32 \<Rightarrow> u32" where
  "power_loop num 0 s = s"
| "power_loop num (Suc n) s = power_loop num n (s * num)"

definition nth_power :: "u32 \<Rightarrow> nat \<Rightarrow> u32" where
  "nth_power num n = power_loop num n 1"

text \<open>The counter is the number of characters that are left; the loop stops at the first that is no digit.\<close>

fun digits_loop :: "u32 \<Rightarrow> u8 list \<Rightarrow> nat \<Rightarrow> nat \<Rightarrow> u32 \<Rightarrow> u32 option" where
  "digits_loop scale mem p 0 v = Some v"
| "digits_loop scale mem p (Suc n) v =
     do { c \<leftarrow> rd mem p;
          case digit_of c of
            None \<Rightarrow> Some v
          | Some d \<Rightarrow> digits_loop scale mem (p + 1) n (v + nth_power scale n * d) }"

definition convert_string_to_int ::
  "env \<Rightarrow> nat \<Rightarrow> u8 list \<Rightarrow> nat \<Rightarrow> u32 \<Rightarrow> 'a sys_scheme \<Rightarrow> (u32 \<times> 'a sys_scheme) option" where
  "convert_string_to_int e numLen mem p scale s =
     (case rt_malloc e numLen s of
        (None, s) \<Rightarrow> Some (0, s)
      | (Some t, s) \<Rightarrow> do { v \<leftarrow> digits_loop scale mem p numLen 0; Some (v, rt_free (Some t) s) })"

section \<open>The line\<close>

record scan_req =
  sub_sys_id :: u32
  freq_idx :: u8

definition COMMA :: u8 where "COMMA = 44"

definition SCAN_MODE_NORMAL :: u32 where "SCAN_MODE_NORMAL = 0"
definition SCAN_MODE_SUBSYSID :: u32 where "SCAN_MODE_SUBSYSID = 1"
definition SCAN_MODE_ONLY_FAST :: u32 where "SCAN_MODE_ONLY_FAST = 2"

definition store_field ::
  "env \<Rightarrow> u32 \<Rightarrow> u8 list \<Rightarrow> nat \<Rightarrow> nat \<Rightarrow> u32 \<Rightarrow> scan_req list \<Rightarrow> 'a sys_scheme \<Rightarrow> (scan_req list \<times> 'a sys_scheme) option"
where
  "store_field e freq_num mem p numLen num arr s =
     (if num < freq_num then
        do { (v, s) \<leftarrow> convert_string_to_int e numLen mem p 10 s;
             x \<leftarrow> rd arr (unat num);
             Some (arr[unat num := x\<lparr>freq_idx := ucast v\<rparr>], s) }
      else if num < freq_num * 2 then
        do { (v, s) \<leftarrow> convert_string_to_int e numLen mem p 16 s;
             x \<leftarrow> rd arr (unat (num - freq_num));
             Some (arr[unat (num - freq_num) := x\<lparr>sub_sys_id := v\<rparr>], s) }
      else Some (arr, s))"

text \<open>After a comma the character behind it is counted without being looked at.\<close>

function fields_loop ::
  "env \<Rightarrow> u32 \<Rightarrow> u8 list \<Rightarrow> nat \<Rightarrow> nat \<Rightarrow> nat \<Rightarrow> u32 \<Rightarrow> scan_req list \<Rightarrow> 'a sys_scheme \<Rightarrow>
     (nat \<times> nat \<times> u32 \<times> scan_req list \<times> 'a sys_scheme) option"
where
  "fields_loop e freq_num mem pStart pEnd numLen num arr s =
     do { c \<leftarrow> rd mem pEnd;
          if c = 0 then Some (pStart, numLen, num, arr, s)
          else if c = COMMA then
            do { (arr, s) \<leftarrow> store_field e freq_num mem pStart numLen num arr s;
                 fields_loop e freq_num mem (pEnd + 1) (pEnd + 2) 1 (num + 1) arr s }
          else fields_loop e freq_num mem pStart (pEnd + 1) (numLen + 1) num arr s }"
  by pat_completeness auto
termination
  by (relation "measure (\<lambda>(_, _, mem, _, pEnd, _). length mem - pEnd)") (auto simp: mem_simps)

declare fields_loop.simps [simp del]

text \<open>Behind its first pass the outer loop of the source is at the end of the string.\<close>

definition convert_string_to_freq_array ::
  "env \<Rightarrow> u8 list \<Rightarrow> scan_req list \<Rightarrow> u8 \<Rightarrow> u32 \<Rightarrow> 'a sys_scheme \<Rightarrow> (bool \<times> scan_req list \<times> 'a sys_scheme) option" where
  "convert_string_to_freq_array e mem arr mode freq_num s =
     do { c \<leftarrow> rd mem 0;
          (num, arr, s) \<leftarrow>
            (if c = 0 then Some (0, arr, s)
             else
               do { (pStart, numLen, num, arr, s) \<leftarrow> fields_loop e freq_num mem 0 0 0 0 arr s;
                    (arr, s) \<leftarrow> store_field e freq_num mem pStart numLen num arr s;
                    Some (num + 1, arr, s) });
          Some (if mode = ucast SCAN_MODE_SUBSYSID then num = freq_num * 2 else num = freq_num, arr, s) }"

text \<open>
  The characters of the host up to the line end, into a block with room for \<open>k\<close> more; no line is a
  time-out of the host.
\<close>

fun read_line :: "env \<Rightarrow> nat \<Rightarrow> u8 list \<Rightarrow> 'a sys_scheme \<Rightarrow> (u8 list option \<times> 'a sys_scheme) option" where
  "read_line e 0 mem s =
     (let s = emit (C_at At_get_char) s
      in case e_get_char e (hist s) of None \<Rightarrow> Some (None, s) | Some c \<Rightarrow> None)"
| "read_line e (Suc k) mem s =
     (let s = emit (C_at At_get_char) s
      in case e_get_char e (hist s) of
           None \<Rightarrow> Some (None, s)
         | Some c \<Rightarrow>
             if mem \<noteq> [] \<and> c = 10 \<and> last mem = 13 then Some (Some (mem @ [c]), s)
             else read_line e k (mem @ [c]) s)"

section \<open>The command\<close>

definition scan_req_bytes :: "scan_req \<Rightarrow> u8 list" where
  "scan_req_bytes r = put32 (sub_sys_id r) @ [freq_idx r, 0, 0, 0]"

type_synonym scan_result = "op_result \<times> (ptr \<times> uc_freq_scan_result list) option"

definition uc_wiota_scan_freq ::
  "env \<Rightarrow> u8 list \<Rightarrow> u8 \<Rightarrow> u32 \<Rightarrow> 'a sys_scheme \<Rightarrow> scan_result \<times> 'a sys_scheme" where
  "uc_wiota_scan_freq e data mode timeout s =
     (let s = emit (C_wiota (W_scan_freq_mode data mode timeout)) s
      in case e_scan_freq e (hist s) of
           (UC_OP_SUCC, rs) \<Rightarrow>
             ((UC_OP_SUCC, Some (length (hist s), rs)), emit (C_malloc (length (hist s)) (8 * length rs)) s)
         | (r, _) \<Rightarrow> ((r, None), s))"

definition show_result :: "uc_freq_scan_result \<Rightarrow> 'a sys_scheme \<Rightarrow> 'a sys_scheme" where
  "show_result r s =
     at_say '''' [uint (sr_freq_idx r), sint (sr_rssi r), sint (sr_snr r), uint (sr_is_synced r), uint (sr_sub_sys_id r)] s"

definition scan_report :: "scan_result \<Rightarrow> 'a sys_scheme \<Rightarrow> at_result \<times> 'a sys_scheme" where
  "scan_report result s =
     (case result of
        (UC_OP_SUCC, Some (p, rs)) \<Rightarrow>
          (AT_RESULT_OK, rt_free (Some p) (fold show_result rs (at_say ''+WIOTASCANFREQ:'' [] s)))
      | (UC_OP_TIMEOUT, _) \<Rightarrow> (AT_RESULT_NULL, at_say ''SCAN TOUT'' [] s)
      | _ \<Rightarrow> (AT_RESULT_NULL, s))"

text \<open>The frequencies of the array, or the whole array, for the scan; the length is cut to 16 bits.\<close>

definition scan_frequencies ::
  "env \<Rightarrow> u32 \<Rightarrow> u32 \<Rightarrow> u32 \<Rightarrow> ptr \<Rightarrow> scan_req list \<Rightarrow> 'a sys_scheme \<Rightarrow> (at_result \<times> 'a sys_scheme) option" where
  "scan_frequencies e timeout mode freqNum p arr s =
     (if mode = SCAN_MODE_NORMAL \<or> mode = SCAN_MODE_ONLY_FAST then
        (case rt_malloc e (unat freqNum) s of
           (None, s) \<Rightarrow> Some (AT_RESULT_NULL, at_say ''MEM FAIL'' [] (rt_free (Some p) s))
         | (Some q, s) \<Rightarrow>
             do { guard (unat freqNum \<le> length arr);
                  let freqArry = map freq_idx (take (unat freqNum) arr);
                  let s = rt_free (Some p) s;
                  let (result, s) = uc_wiota_scan_freq e (take (unat (ucast freqNum :: u16)) freqArry) (ucast mode) timeout s;
                  Some (scan_report result (rt_free (Some q) s)) })
      else
        (let (result, s) = uc_wiota_scan_freq e
               (take (unat (ucast (freqNum * 8) :: u16)) (concat (map scan_req_bytes arr))) (ucast mode) timeout s
         in Some (scan_report result (rt_free (Some p) s))))"

definition at_scan_freq_setup :: "env \<Rightarrow> (u32 \<times> u32 \<times> u32 \<times> u32) option \<Rightarrow> 'a at_srv_scheme \<Rightarrow> (at_result \<times> 'a at_srv_scheme) option" where
  "at_scan_freq_setup e args s =
     (if e_auto_connect e (hist s) then Some (AT_RESULT_REFUSED, s)
      else if wiota_state (at_mgr s) \<noteq> AT_WIOTA_RUN then Some (AT_RESULT_REPETITIVE_FAILE, s)
      else
        (case args of
           None \<Rightarrow> Some (AT_RESULT_PARSE_FAILE, s)
         | Some (timeout, mode, dataLen, freqNum) \<Rightarrow>
             if mode < SCAN_MODE_NORMAL \<and> mode > SCAN_MODE_ONLY_FAST then Some (AT_RESULT_PARSE_FAILE, s)
             else if freqNum > 0 then
               (case rt_malloc e (unat (freqNum * (4 + 9 * 1) + 1)) s of
                  (None, s) \<Rightarrow> Some (AT_RESULT_NULL, at_say ''MEM FAIL'' [] s)
                | (Some f, s) \<Rightarrow>
                    do { (line, s) \<leftarrow> read_line e (unat (freqNum * (4 + 9 * 1) + 1)) [] (at_say ''>'' [] (at_say ''OK'' [] s));
                         case line of
                           None \<Rightarrow> Some (AT_RESULT_NULL, at_say ''GET FAIL'' [] (rt_free (Some f) s))
                         | Some mem \<Rightarrow>
                             (case rt_malloc e (unat (freqNum * 8)) s of
                                (None, s) \<Rightarrow> Some (AT_RESULT_NULL, at_say ''MEM FAIL'' [] (rt_free (Some f) s))
                              | (Some p, s) \<Rightarrow>
                                  do { let arr = replicate (unat (freqNum * 8) div 8) \<lparr>sub_sys_id = 0, freq_idx = 0\<rparr>;
                                       mem \<leftarrow> wr mem (length mem - 2) [0];
                                       (isRight, arr, s) \<leftarrow> convert_string_to_freq_array e mem arr (ucast mode) freqNum s;
                                       if \<not> isRight
                                       then Some (AT_RESULT_NULL,
                                              at_say ''CONVERT FAIL'' [] (rt_free (Some p) (rt_free (Some f) s)))
                                       else scan_frequencies e timeout mode freqNum p arr (rt_free (Some f) s) }) })
             else
               (let (result, s) = uc_wiota_scan_freq e [] (ucast mode) 0 s in Some (scan_report result s))))"

definition at_scan_sort_setup :: "u32 option \<Rightarrow> 'a at_srv_scheme \<Rightarrow> at_result \<times> 'a at_srv_scheme" where
  "at_scan_sort_setup args s =
     (case args of
        None \<Rightarrow> (AT_RESULT_PARSE_FAILE, s)
      | Some mode \<Rightarrow>
          if mode > 1 then (AT_RESULT_PARSE_FAILE, s)
          else (AT_RESULT_OK, emit (C_lib (Lib ''uc_wiota_set_scan_sorted'' [uint mode])) s))"

end
