(* ===== verification/ScanLine.thy ===== *)
theory ScanLine
  imports AtScan AtInput
begin

text \<open>
  What AT+WIOTASCANFREQ makes of a line: the value of a number is the value of its digits, the array
  holds the values of the fields, a line that fits its block is read completely, and a longer one is
  written behind the block.
\<close>

section \<open>Numbers\<close>

definition digit_value :: "u8 \<Rightarrow> u32" where
  "digit_value c = the (digit_of c)"

text \<open>The value of a text, as far as it has digits.\<close>

definition text_value :: "u32 \<Rightarrow> u8 list \<Rightarrow> u32" where
  "text_value scale x = the (digits_loop scale x 0 (length x) 0)"

lemma digits_loop_window:
  "p + n \<le> length mem \<Longrightarrow> digits_loop scale mem p n v = digits_loop scale (take n (drop p mem)) 0 n v"
proof -
  have "q + n \<le> m \<Longrightarrow> m \<le> length mem - p \<Longrightarrow> p + m \<le> length mem \<Longrightarrow>
      digits_loop scale mem (p + q) n v = digits_loop scale (take m (drop p mem)) q n v" for q m
  proof (induction n arbitrary: q v)
    case (Suc n)
    have "rd mem (p + q) = Some (mem ! (p + q))" "rd (take m (drop p mem)) q = Some (mem ! (p + q))"
      using Suc.prems by (simp_all add: rd_def)
    then show ?case using Suc.IH[of "q + 1"] Suc.prems by (simp split: option.splits)
  qed simp
  from this[of 0 n] show "p + n \<le> length mem \<Longrightarrow> ?thesis" by simp
qed

lemma digits_loop_returns: "p + n \<le> length mem \<Longrightarrow> \<exists>w. digits_loop scale mem p n v = Some w"
  by (induction n arbitrary: p v) (simp_all add: rd_def split: option.split)

lemma text_value_eq: "p + n \<le> length mem \<Longrightarrow> digits_loop scale mem p n 0 = Some (text_value scale (take n (drop p mem)))"
  using digits_loop_window[of p n mem scale 0] digits_loop_returns[of 0 n "take n (drop p mem)" scale 0]
  by (auto simp: text_value_def)

lemma nth_power_eq: "nth_power b n = b ^ n"
proof -
  have "power_loop b n s = s * b ^ n" for s
    by (induction n arbitrary: s) (simp_all add: mult.assoc)
  then show ?thesis by (simp add: nth_power_def)
qed

lemma digits_loop_value:
  assumes "\<forall>c \<in> set x. digit_of c \<noteq> None"
  shows "digits_loop scale (ys @ x) (length ys) (length x) v = Some (v + horner_sum digit_value scale (rev x))"
  using assms
proof (induction x arbitrary: ys v)
  case (Cons c x)
  obtain d where d: "digit_of c = Some d" using Cons.prems by auto
  then have dv: "digit_value c = d" by (simp add: digit_value_def)
  have "digits_loop scale ((ys @ [c]) @ x) (length (ys @ [c])) (length x) (v + nth_power scale (length x) * d) =
      Some (v + nth_power scale (length x) * d + horner_sum digit_value scale (rev x))"
    using Cons.IH[of "ys @ [c]"] Cons.prems by simp
  then show ?case
    using d by (simp add: rd_def nth_append nth_power_eq horner_sum_append dv algebra_simps)
qed simp

lemma text_value_digits:
  "\<forall>c \<in> set x. digit_of c \<noteq> None \<Longrightarrow> text_value scale x = horner_sum digit_value scale (rev x)"
  using digits_loop_value[of x scale "[]" 0] by (simp add: text_value_def)

lemma digit_of_char: "d < 16 \<Longrightarrow> digit_of (digit_char d) = Some (of_nat d)"
proof -
  have "\<forall>d \<in> set [0..<16]. digit_of (digit_char d) = Some (of_nat d)" by code_simp
  then show "d < 16 \<Longrightarrow> ?thesis" by simp
qed

lemma digit_value_char: "d < 16 \<Longrightarrow> digit_value (digit_char d) = of_nat d"
  by (simp add: digit_value_def digit_of_char)

lemma digits_valid: "2 \<le> b \<Longrightarrow> b \<le> 16 \<Longrightarrow> c \<in> set (digits b n) \<Longrightarrow> \<exists>d < 16. c = digit_char d"
proof (induction b n rule: digits.induct)
  case (1 b n)
  have "n < b \<or> c \<in> set (digits b (n div b)) \<or> c = digit_char (n mod b)"
    using 1(2,4) by (subst (asm) digits.simps) (auto split: if_splits)
  moreover have "n < b \<Longrightarrow> c = digit_char n" using 1(4) by (subst (asm) digits.simps) simp
  moreover have "n mod b < 16" using 1(2,3) less_le_trans[OF mod_less_divisor[of b n]] by simp
  ultimately show ?case using 1(1)[OF _ 1(2,3)] 1(2,3) by (cases "n < b") (auto intro: exI[of _ n])
qed

lemma value_of_digits: "2 \<le> b \<Longrightarrow> b \<le> 16 \<Longrightarrow> text_value (of_nat b) (digits b n) = of_nat n"
proof -
  assume b: "2 \<le> b" "b \<le> 16"
  have "horner_sum digit_value (of_nat b) (rev (digits b n)) = (of_nat n :: u32)"
  proof (induction n rule: less_induct)
    case (less n)
    show ?case
    proof (cases "n < b")
      case True
      then show ?thesis using b by (subst digits.simps) (simp add: digit_value_char)
    next
      case False
      then have "n div b < n" "n mod b < 16" using b by (simp_all add: div_less_dividend less_le_trans[OF mod_less_divisor])
      moreover have "of_nat n = of_nat (n mod b) + of_nat b * (of_nat (n div b) :: u32)"
        by (metis mod_mult_div_eq of_nat_add of_nat_mult)
      ultimately show ?thesis using less.IH[of "n div b"] False b by (subst digits.simps) (simp add: digit_value_char)
    qed
  qed
  moreover have "\<forall>c \<in> set (digits b n). digit_of c \<noteq> None"
    using digits_valid[OF b] digit_of_char by fastforce
  ultimately show ?thesis by (simp add: text_value_digits)
qed

lemma digit_char_field: "d < 16 \<Longrightarrow> digit_char d \<noteq> 0 \<and> digit_char d \<noteq> 44 \<and> digit_char d \<noteq> 10 \<and> digit_char d \<noteq> 13"
proof -
  have "\<forall>d \<in> set [0..<16]. digit_char d \<noteq> 0 \<and> digit_char d \<noteq> 44 \<and> digit_char d \<noteq> 10 \<and> digit_char d \<noteq> 13" by code_simp
  then show "d < 16 \<Longrightarrow> ?thesis" by simp
qed

lemma digits_field: "2 \<le> b \<Longrightarrow> b \<le> 16 \<Longrightarrow> field (digits b n) \<and> 10 \<notin> set (digits b n) \<and> 13 \<notin> set (digits b n)"
  unfolding field_def using digits_valid[of b _ n] digit_char_field by fastforce


section \<open>Fields\<close>

text \<open>A field is stored by its value; with enough memory nothing else happens to the state.\<close>

definition stored :: "nat \<Rightarrow> nat \<Rightarrow> u8 list \<Rightarrow> scan_req list \<Rightarrow> scan_req list" where
  "stored n k x arr =
     (if k < n then arr[k := (arr ! k)\<lparr>freq_idx := ucast (text_value 10 x)\<rparr>]
      else if k < 2 * n then arr[k - n := (arr ! (k - n))\<lparr>sub_sys_id := text_value 16 x\<rparr>]
      else arr)"

lemma length_stored [simp]: "length (stored n k x arr) = length arr"
  by (simp add: stored_def)

fun store_fields :: "nat \<Rightarrow> nat \<Rightarrow> u8 list list \<Rightarrow> scan_req list \<Rightarrow> scan_req list" where
  "store_fields n k [] arr = arr"
| "store_fields n k (x # xs) arr = store_fields n (k + 1) xs (stored n k x arr)"

lemma length_store_fields [simp]: "length (store_fields n k xs arr) = length arr"
  by (induction xs arbitrary: k arr) simp_all

text \<open>States that differ in blocks that were allocated and freed again.\<close>

definition heap_same :: "'a sys_scheme \<Rightarrow> 'a sys_scheme \<Rightarrow> bool" where
  "heap_same s s' \<longleftrightarrow> only_hist s s' \<and> live (hist s') = live (hist s) \<and> heap_ok (hist s') \<and>
     typed_chars (hist s') = typed_chars (hist s) \<and> set (hist s) \<subseteq> set (hist s')"

lemma heap_same_refl: "heap_ok (hist s) \<Longrightarrow> heap_same s s"
  by (simp add: heap_same_def)

lemma heap_same_trans: "heap_same s s' \<Longrightarrow> heap_same s' s'' \<Longrightarrow> heap_same s s''"
  unfolding heap_same_def using only_hist_trans by auto

lemma convert_string_to_int_eq:
  assumes "\<And>h k. e_malloc e h k" "p + n \<le> length mem" "heap_ok (hist s)"
  shows "\<exists>s'. convert_string_to_int e n mem p scale s = Some (text_value scale (take n (drop p mem)), s') \<and> heap_same s s'"
proof -
  let ?s = "emit (C_free (length (hist s))) (emit (C_malloc (length (hist s)) n) s)"
  have "convert_string_to_int e n mem p scale s = Some (text_value scale (take n (drop p mem)), ?s)"
    using assms(1,2) by (simp add: convert_string_to_int_def rt_malloc_def rt_free_def text_value_eq)
  moreover have "heap_same s ?s" using assms(3) by (auto simp: heap_same_def)
  ultimately show ?thesis by blast
qed

lemma store_field_eq:
  assumes "\<And>h k. e_malloc e h k" "p + l \<le> length mem" "heap_ok (hist s)" "length arr = unat n" "unat n < 2 ^ 31"
    "k < 2 ^ 32"
  shows "\<exists>s'. store_field e n mem p l (of_nat k) arr s = Some (stored (unat n) k (take l (drop p mem)) arr, s') \<and> heap_same s s'"
proof -
  have k: "unat (of_nat k :: u32) = k" using assms(6) by (simp add: unat_of_nat)
  have n2: "unat (n * 2) = 2 * unat n" using assms(5) by (simp add: unat_word_ariths)
  have lt: "(of_nat k :: u32) < n \<longleftrightarrow> k < unat n" "(of_nat k :: u32) < n * 2 \<longleftrightarrow> k < 2 * unat n"
    by (simp_all add: word_less_nat_alt k n2)
  have sub: "unat n \<le> k \<Longrightarrow> unat (of_nat k - n) = k - unat n"
    using k by (simp add: unat_sub word_le_nat_alt)
  obtain s1 where s1: "convert_string_to_int e l mem p 10 s = Some (text_value 10 (take l (drop p mem)), s1)" "heap_same s s1"
    using convert_string_to_int_eq[OF assms(1-3)] by blast
  obtain s2 where s2: "convert_string_to_int e l mem p 16 s = Some (text_value 16 (take l (drop p mem)), s2)" "heap_same s s2"
    using convert_string_to_int_eq[OF assms(1-3)] by blast
  show ?thesis
    using s1 s2 assms(3,4) lt k sub heap_same_refl[of s]
    by (auto simp: store_field_def stored_def rd_def)
qed


section \<open>The line\<close>

lemma fields_loop_skip:
  assumes "\<And>i. i < m \<Longrightarrow> q + i < length mem \<and> mem ! (q + i) \<noteq> 0 \<and> mem ! (q + i) \<noteq> 44"
  shows "fields_loop e n mem p q l num arr s = fields_loop e n mem p (q + m) (l + m) num arr s"
  using assms
proof (induction m arbitrary: q l)
  case (Suc m)
  have "rd mem q = Some (mem ! q)" "mem ! q \<noteq> 0" "mem ! q \<noteq> 44" using Suc.prems[of 0] by (simp_all add: rd_def)
  then have "fields_loop e n mem p q l num arr s = fields_loop e n mem p (q + 1) (l + 1) num arr s"
    by (subst fields_loop.simps) (simp add: COMMA_def)
  also have "\<dots> = fields_loop e n mem p (q + 1 + m) (l + 1 + m) num arr s"
    using Suc.prems[of "Suc i" for i] by (intro Suc.IH) simp
  finally show ?case by simp
qed simp

lemma field_window:
  assumes "drop p mem = x @ c # r" "field x"
  shows "p + length x < length mem" "take (length x) (drop p mem) = x" "rd mem (p + length x) = Some c"
    "drop (p + length x + 1) mem = r"
    "i < length x \<Longrightarrow> p + i < length mem \<and> mem ! (p + i) \<noteq> 0 \<and> mem ! (p + i) \<noteq> 44"
proof -
  have l: "length mem - p = length x + 1 + length r" using arg_cong[OF assms(1), of length] by simp
  show w: "p + length x < length mem" using l by linarith
  show "take (length x) (drop p mem) = x" by (simp add: assms(1))
  have nth: "k < length x + 1 + length r \<Longrightarrow> mem ! (p + k) = (x @ c # r) ! k" for k
    using w unfolding assms(1)[symmetric] by simp
  show "rd mem (p + length x) = Some c" using w nth[of "length x"] by (simp add: rd_def)
  have "drop (p + length x + 1) mem = drop (length x + 1) (drop p mem)" by (simp add: add.commute add.left_commute)
  then show "drop (p + length x + 1) mem = r" by (simp add: assms(1))
  assume "i < length x"
  then show "p + i < length mem \<and> mem ! (p + i) \<noteq> 0 \<and> mem ! (p + i) \<noteq> 44"
    using w nth[of i] assms(2) by (auto simp: nth_append field_def in_set_conv_nth)
qed

lemma comma_not_0: "(44 :: u8) \<noteq> 0"
  by simp

lemma fields_loop_eq:
  assumes "\<And>h k. e_malloc e h k" "unat n < 2 ^ 31"
  shows "list_all field (x # xs) \<Longrightarrow> drop p mem = commas (x # xs) @ 0 # rest \<Longrightarrow> j \<le> 1 \<Longrightarrow>
    k + length (x # xs) < 2 ^ 32 \<Longrightarrow> length arr = unat n \<Longrightarrow> heap_ok (hist s) \<Longrightarrow>
    \<exists>s'. do { (p', l, num, arr, s) \<leftarrow> fields_loop e n mem p (p + j) j (of_nat k) arr s;
             (arr, s) \<leftarrow> store_field e n mem p' l num arr s;
             Some (num + 1, arr, s) } =
           Some (of_nat (k + length (x # xs)), store_fields (unat n) k (x # xs) arr, s') \<and> heap_same s s'"
proof (induction xs arbitrary: x p j k arr s)
  case Nil
  have f: "field x" and d: "drop p mem = x @ 0 # rest" using Nil.prems(1,2) by simp_all
  note w = field_window[OF d f]
  have j: "j \<le> length x" using Nil.prems(3) f by (cases x) (auto simp: field_def)
  have "fields_loop e n mem p (p + j) j (of_nat k) arr s =
      fields_loop e n mem p (p + j + (length x - j)) (j + (length x - j)) (of_nat k) arr s"
    by (rule fields_loop_skip) (use w(5)[of "j + i" for i] in \<open>simp add: add.assoc\<close>)
  also have "\<dots> = Some (p, length x, of_nat k, arr, s)"
    using j w(3) by (subst fields_loop.simps) simp
  finally have l: "fields_loop e n mem p (p + j) j (of_nat k) arr s = Some (p, length x, of_nat k, arr, s)" .
  obtain s' where "store_field e n mem p (length x) (of_nat k) arr s = Some (stored (unat n) k x arr, s')" "heap_same s s'"
    using store_field_eq[OF assms(1) less_imp_le[OF w(1)] Nil.prems(6,5) assms(2), of k] Nil.prems(4) w(2) by auto
  then show ?case using l by (intro exI[of _ s']) simp
next
  case (Cons y ys)
  have f: "field x" "list_all field (y # ys)" and d: "drop p mem = x @ 44 # commas (y # ys) @ 0 # rest"
    using Cons.prems(1,2) by simp_all
  note w = field_window[OF d f(1)]
  have j: "j \<le> length x" using Cons.prems(3) f(1) by (cases x) (auto simp: field_def)
  obtain s1 where s1: "store_field e n mem p (length x) (of_nat k) arr s = Some (stored (unat n) k x arr, s1)" "heap_same s s1"
    using store_field_eq[OF assms(1) less_imp_le[OF w(1)] Cons.prems(6,5) assms(2), of k] Cons.prems(4) w(2) by auto
  have "fields_loop e n mem p (p + j) j (of_nat k) arr s =
      fields_loop e n mem p (p + j + (length x - j)) (j + (length x - j)) (of_nat k) arr s"
    by (rule fields_loop_skip) (use w(5)[of "j + i" for i] in \<open>simp add: add.assoc\<close>)
  also have "\<dots> = fields_loop e n mem (p + length x + 1) (p + length x + 1 + 1) 1 (of_nat (k + 1)) (stored (unat n) k x arr) s1"
    using j w(3) s1(1) comma_not_0 by (subst fields_loop.simps) (simp add: COMMA_def add.commute)
  finally have l: "fields_loop e n mem p (p + j) j (of_nat k) arr s =
      fields_loop e n mem (p + length x + 1) (p + length x + 1 + 1) 1 (of_nat (k + 1)) (stored (unat n) k x arr) s1" .
  have ok: "heap_ok (hist s1)" using s1(2) by (simp add: heap_same_def)
  obtain s' where "do { (p', l, num, arr, s) \<leftarrow> fields_loop e n mem (p + length x + 1) (p + length x + 1 + 1) 1 (of_nat (k + 1)) (stored (unat n) k x arr) s1;
             (arr, s) \<leftarrow> store_field e n mem p' l num arr s;
             Some (num + 1, arr, s) } =
           Some (of_nat (k + 1 + length (y # ys)), store_fields (unat n) (k + 1) (y # ys) (stored (unat n) k x arr), s')"
      "heap_same s1 s'"
    using Cons.IH[OF f(2) w(4), of 1 "k + 1" "stored (unat n) k x arr" s1] Cons.prems(4,5) ok by auto
  then show ?case unfolding l using heap_same_trans[OF s1(2)] by (intro exI[of _ s']) (simp add: add.commute)
qed


lemma nth_store_fields:
  assumes "length arr = n" "i < n"
  shows "store_fields n k fs arr ! i =
    \<lparr>sub_sys_id = if k \<le> n + i \<and> n + i < k + length fs then text_value 16 (fs ! (n + i - k)) else sub_sys_id (arr ! i),
     freq_idx = if k \<le> i \<and> i < k + length fs then ucast (text_value 10 (fs ! (i - k))) else freq_idx (arr ! i)\<rparr>"
  using assms
proof (induction fs arbitrary: k arr)
  case (Cons x xs)
  have l: "length (stored n k x arr) = n" using Cons.prems(1) by simp
  have f: "k < n \<Longrightarrow> stored n k x arr ! i = (if i = k then (arr ! k)\<lparr>freq_idx := ucast (text_value 10 x)\<rparr> else arr ! i)"
      "n \<le> k \<Longrightarrow> k < 2 * n \<Longrightarrow> stored n k x arr ! i = (if n + i = k then (arr ! i)\<lparr>sub_sys_id := text_value 16 x\<rparr> else arr ! i)"
      "2 * n \<le> k \<Longrightarrow> stored n k x arr ! i = arr ! i"
    using Cons.prems by (auto simp: stored_def nth_list_update)
  show ?case
    using f Cons.IH[OF l Cons.prems(2), of "k + 1"] Cons.prems(2)
    by (cases "k < n"; cases "k < 2 * n"; cases "i = k"; cases "n + i = k")
      (auto simp: nth_Cons' Suc_diff_le)
qed auto

lemma commas_first: "list_all field (x # xs) \<Longrightarrow> \<exists>c r. commas (x # xs) = c # r \<and> c \<noteq> 0"
  by (cases xs; cases x) (auto simp: field_def)

lemma convert_line:
  assumes "\<And>h k. e_malloc e h k" "unat n < 2 ^ 31" "list_all field fs" "length fs < 2 ^ 32" "length arr = unat n"
    "heap_ok (hist s)"
  shows "\<exists>s'. convert_string_to_freq_array e (commas fs @ 0 # rest) arr mode n s =
    Some (length fs = (if mode = 1 then 2 * unat n else unat n), store_fields (unat n) 0 fs arr, s') \<and> heap_same s s'"
proof -
  have "unat (n * 2) = 2 * unat n" using assms(2) by (simp add: unat_word_ariths)
  moreover have "of_nat (length fs) = w \<longleftrightarrow> length fs = unat w" for w :: u32
    using assms(4) by (auto simp: unat_of_nat)
  ultimately have num: "of_nat (length fs) = n * 2 \<longleftrightarrow> length fs = 2 * unat n" "of_nat (length fs) = n \<longleftrightarrow> length fs = unat n"
    by simp_all
  show ?thesis
  proof (cases fs)
    case Nil
    then show ?thesis
      using num heap_same_refl[OF assms(6)]
      by (intro exI[of _ s]) (auto simp: convert_string_to_freq_array_def rd_def SCAN_MODE_SUBSYSID_def)
  next
    case (Cons x xs)
    obtain s' where s': "do { (p', l, num, arr, s) \<leftarrow> fields_loop e n (commas fs @ 0 # rest) 0 (0 + 0) 0 (of_nat 0) arr s;
             (arr, s) \<leftarrow> store_field e n (commas fs @ 0 # rest) p' l num arr s;
             Some (num + 1, arr, s) } =
           Some (of_nat (0 + length (x # xs)), store_fields (unat n) 0 (x # xs) arr, s')" "heap_same s s'"
      using fields_loop_eq[OF assms(1,2), of x xs 0 "commas fs @ 0 # rest" rest 0 0 arr s] assms(3-6) Cons by auto
    obtain c r where c: "commas fs = c # r" "c \<noteq> 0" using commas_first[of x xs] assms(3) Cons by auto
    then show ?thesis
      using s' num Cons by (intro exI[of _ s']) (auto simp: convert_string_to_freq_array_def rd_def SCAN_MODE_SUBSYSID_def add.commute)
  qed
qed


section \<open>Reading the line\<close>

lemma read_line_typed:
  assumes "host_types e text" "10 \<notin> set line" "pending text (hist s) = line @ 13 # 10 # rst"
  shows "read_line e k mem s =
    (if length line + 2 \<le> k
     then Some (Some (mem @ line @ [13, 10]), s\<lparr>hist := replicate (length line + 2) (C_at At_get_char) @ hist s\<rparr>)
     else None)"
  using assms(2,3)
proof (induction line arbitrary: k mem s)
  case Nil
  let ?s = "emit (C_at At_get_char) s"
  have c: "e_get_char e (hist ?s) = Some 13" using next_char[OF assms(1), of "hist s"] Nil.prems(2) by simp
  have d: "e_get_char e (hist (emit (C_at At_get_char) ?s)) = Some 10"
    using next_char[OF assms(1), of "hist ?s"] Nil.prems(2) by simp
  have n: "(13 :: u8) \<noteq> 10" by simp
  show ?case
  proof (cases k)
    case (Suc j)
    then show ?thesis using c d n by (cases j) (simp_all add: Let_def emit_def)
  qed (use c in \<open>simp add: Let_def\<close>)
next
  case (Cons c line)
  let ?s = "emit (C_at At_get_char) s"
  have c: "e_get_char e (hist ?s) = Some c" using next_char[OF assms(1), of "hist s"] Cons.prems(2) by simp
  have p: "pending text (hist ?s) = line @ 13 # 10 # rst" using Cons.prems(2) by simp
  show ?case
  proof (cases k)
    case (Suc j)
    then show ?thesis
      using c Cons.IH[OF _ p, of j "mem @ [c]"] Cons.prems(1) by (auto simp: Let_def emit_def replicate_app_Cons_same)
  qed (use c in \<open>simp add: Let_def\<close>)
qed


section \<open>The command\<close>

lemma cr_not_lf: "(13 :: u8) \<noteq> 10"
  by simp

lemma only_hist_update:
  assumes "only_hist s t"
  shows "only_hist s (t\<lparr>hist := h\<rparr>)"
proof -
  have "only_hist t (t\<lparr>hist := h\<rparr>)" by (cases t) (simp add: only_hist_def)
  then show ?thesis using assms only_hist_trans by blast
qed

text \<open>The command up to the array, for a line of fields.\<close>

lemma scan_command_line:
  assumes "host_types e text" "\<And>h k. e_malloc e h k" "\<not> e_auto_connect e (hist s)" "wiota_state (at_mgr s) = AT_WIOTA_RUN"
    "n \<noteq> 0" "unat n < 2 ^ 27" "list_all field fs" "length fs < 2 ^ 32" "10 \<notin> set (commas fs)"
    "pending text (hist s) = commas fs @ 13 # 10 # rst" "heap_ok (hist s)"
  shows "if 13 * unat n + 1 < length (commas fs) + 2
    then at_scan_freq_setup e (Some (timeout, mode, dl, n)) s = None
    else \<exists>f p s'. at_scan_freq_setup e (Some (timeout, mode, dl, n)) s =
        (if length fs = (if ucast mode = (1 :: u8) then 2 * unat n else unat n)
         then scan_frequencies e timeout mode n p
                (store_fields (unat n) 0 fs (replicate (unat n) \<lparr>sub_sys_id = 0, freq_idx = 0\<rparr>)) (rt_free (Some f) s')
         else Some (AT_RESULT_NULL, at_say ''CONVERT FAIL'' [] (rt_free (Some p) (rt_free (Some f) s')))) \<and>
      only_hist s s' \<and> live (hist s') = p # f # live (hist s) \<and> heap_ok (hist s') \<and> set (hist s) \<subseteq> set (hist s') \<and>
      p \<noteq> f \<and> p \<notin> set (live (hist s)) \<and> f \<notin> set (live (hist s))"
proof -
  have sz: "unat (n * 13 + 1) = 13 * unat n + 1" "unat (n * 8) = unat n * 8"
    using assms(6) by (simp_all add: unat_word_ariths)
  let ?f = "length (hist s)"
  let ?s1 = "at_say ''>'' [] (at_say ''OK'' [] (emit (C_malloc ?f (13 * unat n + 1)) s))"
  let ?l = "length (commas fs) + 2"
  let ?s2 = "?s1\<lparr>hist := replicate ?l (C_at At_get_char) @ hist ?s1\<rparr>"
  have pn: "pending text (hist ?s1) = commas fs @ 13 # 10 # rst" using assms(10) by simp
  have r: "read_line e (13 * unat n + 1) [] ?s1 =
      (if ?l \<le> 13 * unat n + 1 then Some (Some (commas fs @ [13, 10]), ?s2) else None)"
    using read_line_typed[OF assms(1,9) pn, of "13 * unat n + 1" "[]"] by simp
  have n0: "0 < n" using assms(5) by (simp add: word_neq_0_conv)
  have mode: "\<not> mode < SCAN_MODE_NORMAL" by (simp add: SCAN_MODE_NORMAL_def)
  show ?thesis
  proof (cases "13 * unat n + 1 < ?l")
    case True
    then show ?thesis
      using r assms(2-4) n0 mode by (simp add: at_scan_freq_setup_def rt_malloc_def sz Let_def)
  next
    case False
    let ?p = "length (hist ?s2)"
    let ?s3 = "emit (C_malloc ?p (unat n * 8)) ?s2"
    have ok2: "heap_ok (replicate m (C_at At_get_char) @ hist ?s1)"
        "live (replicate m (C_at At_get_char) @ hist ?s1) = ?f # live (hist s)" for m
      by (induction m) (use assms(11) in simp_all)
    have ok: "heap_ok (hist ?s3)" "live (hist ?s3) = ?p # ?f # live (hist s)" using ok2[of ?l] by simp_all
    have w: "wr (commas fs @ [13, 10]) (length (commas fs @ [13, 10]) - 2) [0] = Some (commas fs @ 0 # [10])"
      by (simp add: wr_def)
    have q: "unat n < 2 ^ 31" "length (replicate (unat n) \<lparr>sub_sys_id = 0, freq_idx = 0\<rparr>) = unat n" using assms(6) by simp_all
    obtain s' where s': "convert_string_to_freq_array e (commas fs @ 0 # [10]) (replicate (unat n) \<lparr>sub_sys_id = 0, freq_idx = 0\<rparr>)
          (ucast mode) n ?s3 =
        Some (length fs = (if ucast mode = (1 :: u8) then 2 * unat n else unat n),
          store_fields (unat n) 0 fs (replicate (unat n) \<lparr>sub_sys_id = 0, freq_idx = 0\<rparr>), s')" "heap_same ?s3 s'"
      using convert_line[OF assms(2) q(1) assms(7,8) q(2) ok(1)] by blast
    have "only_hist s ?s1" by (simp add: at_say_def)
    then have "only_hist s ?s2" by (rule only_hist_update)
    then have "only_hist s ?s3" by simp
    moreover have "only_hist ?s3 s'" using s'(2) by (simp add: heap_same_def)
    ultimately have "only_hist s s'" by (rule only_hist_trans)
    moreover have "set (hist s) \<subseteq> set (hist s')" using s'(2) by (auto simp: heap_same_def)
    moreover have "?f \<notin> set (live (hist s))" "?p \<notin> set (live (hist s))" "?p \<noteq> ?f"
      using assms(11) by (auto simp: heap_ok_def)
    moreover have "at_scan_freq_setup e (Some (timeout, mode, dl, n)) s =
        (if length fs = (if ucast mode = (1 :: u8) then 2 * unat n else unat n)
         then scan_frequencies e timeout mode n ?p
                (store_fields (unat n) 0 fs (replicate (unat n) \<lparr>sub_sys_id = 0, freq_idx = 0\<rparr>)) (rt_free (Some ?f) s')
         else Some (AT_RESULT_NULL, at_say ''CONVERT FAIL'' [] (rt_free (Some ?p) (rt_free (Some ?f) s'))))"
      using r False assms(2-4) n0 mode s'(1) w by (simp add: at_scan_freq_setup_def rt_malloc_def sz Let_def)
    moreover have "live (hist s') = ?p # ?f # live (hist s)" "heap_ok (hist s')"
      using s'(2) ok(2) by (simp_all add: heap_same_def)
    ultimately show ?thesis unfolding if_not_P[OF False] by blast
  qed
qed

lemma fold_show_result:
  "hist (fold show_result rs s) = rev (map (\<lambda>r. C_at (At_println '''' [uint (sr_freq_idx r), sint (sr_rssi r), sint (sr_snr r),
     uint (sr_is_synced r), uint (sr_sub_sys_id r)])) rs) @ hist s"
  by (induction rs arbitrary: s) (simp_all add: show_result_def)

lemma live_printed: "live (rev (map (\<lambda>r. C_at (f r)) rs) @ h) = live h"
  by (induction rs arbitrary: h rule: rev_induct) simp_all

lemma scan_report_eq:
  assumes "uc_wiota_scan_freq e data mode timeout s = (result, s1)"
  shows "\<exists>r s' new. scan_report result (rt_free (Some q) s1) = (r, s') \<and>
    hist s' = new @ C_wiota (W_scan_freq_mode data mode timeout) # hist s \<and>
    (r = AT_RESULT_OK \<longleftrightarrow> fst (e_scan_freq e (C_wiota (W_scan_freq_mode data mode timeout) # hist s)) = UC_OP_SUCC) \<and>
    (heap_ok (hist s) \<longrightarrow> live (hist s') = removeAll q (live (hist s)))"
proof -
  let ?h = "C_wiota (W_scan_freq_mode data mode timeout) # hist s"
  obtain r rs where r: "e_scan_freq e ?h = (r, rs)" by (cases "e_scan_freq e ?h")
  have fresh: "heap_ok (hist s) \<Longrightarrow> Suc (length (hist s)) \<notin> set (live (hist s))"
    using fresh_not_live[of ?h] by simp
  show ?thesis
  proof (cases r)
    case UC_OP_SUCC
    then show ?thesis
      using assms r fresh
      by (cases "q = Suc (length (hist s))")
        (auto simp: uc_wiota_scan_freq_def Let_def scan_report_def fold_show_result live_printed)
  qed (use assms r in \<open>auto simp: uc_wiota_scan_freq_def Let_def scan_report_def\<close>)
qed

text \<open>What the radio is asked for.\<close>

definition scan_data :: "u32 \<Rightarrow> scan_req list \<Rightarrow> u8 list" where
  "scan_data mode arr = (if mode = SCAN_MODE_NORMAL \<or> mode = SCAN_MODE_ONLY_FAST then map freq_idx arr else concat (map scan_req_bytes arr))"

lemma scan_frequencies_eq:
  assumes "\<And>h k. e_malloc e h k" "length arr = unat n" "unat n < 2 ^ 13" "heap_ok (hist s)"
  shows "\<exists>r s' new h. scan_frequencies e timeout mode n p arr s = Some (r, s') \<and>
    hist s' = new @ C_wiota (W_scan_freq_mode (scan_data mode arr) (ucast mode) timeout) # h \<and>
    (r = AT_RESULT_OK \<longleftrightarrow> fst (e_scan_freq e (C_wiota (W_scan_freq_mode (scan_data mode arr) (ucast mode) timeout) # h)) = UC_OP_SUCC) \<and>
    live (hist s') = removeAll p (live (hist s))"
proof -
  have cut: "unat (ucast n :: u16) = unat n" "unat (ucast (n * 8) :: u16) = unat n * 8"
    using assms(3) by (simp_all add: unat_word_ariths unsigned_ucast_eq take_bit_nat_eq_self)
  have len: "length (concat (map scan_req_bytes arr)) = unat n * 8"
    by (simp add: assms(2)[symmetric] length_concat scan_req_bytes_def o_def sum_list_triv)
  show ?thesis
  proof (cases "mode = SCAN_MODE_NORMAL \<or> mode = SCAN_MODE_ONLY_FAST")
    case True
    let ?q = "length (hist s)"
    let ?s = "rt_free (Some p) (emit (C_malloc ?q (unat n)) s)"
    obtain result s1 where u: "uc_wiota_scan_freq e (map freq_idx arr) (ucast mode) timeout ?s = (result, s1)"
      by (cases "uc_wiota_scan_freq e (map freq_idx arr) (ucast mode) timeout ?s")
    have e: "scan_frequencies e timeout mode n p arr s = Some (scan_report result (rt_free (Some ?q) s1))"
      using True u assms(1,2) cut by (simp add: scan_frequencies_def rt_malloc_def Let_def)
    have ok: "heap_ok (hist ?s)" using assms(4) by simp
    have l: "removeAll ?q (live (hist ?s)) = removeAll p (live (hist s))"
      using fresh_not_live[OF assms(4)] by (auto simp: removeAll_filter_not_eq intro: filter_cong)
    show ?thesis
      using scan_report_eq[OF u, of ?q] ok True unfolding e l scan_data_def if_P[OF True] by blast
  next
    case False
    obtain result s1 where u: "uc_wiota_scan_freq e (concat (map scan_req_bytes arr)) (ucast mode) timeout s = (result, s1)"
      by (cases "uc_wiota_scan_freq e (concat (map scan_req_bytes arr)) (ucast mode) timeout s")
    have e: "scan_frequencies e timeout mode n p arr s = Some (scan_report result (rt_free (Some p) s1))"
      using False u cut len by (simp add: scan_frequencies_def Let_def)
    show ?thesis
      using scan_report_eq[OF u, of p] assms(4) unfolding e scan_data_def if_not_P[OF False] by blast
  qed
qed

lemma digits_length: "2 \<le> b \<Longrightarrow> 0 < k \<Longrightarrow> n < b ^ k \<Longrightarrow> length (digits b n) \<le> k"
proof (induction b n arbitrary: k rule: digits.induct)
  case (1 b n)
  show ?case
  proof (cases "n < b")
    case False
    then have "1 < k" using 1(3,4) by (cases k; cases "k - 1") auto
    moreover from this have "n div b < b ^ (k - 1)"
      using 1(4) by (cases k) (simp_all add: less_mult_imp_div_less mult.commute)
    ultimately show ?thesis using 1(1)[of "k - 1"] 1(2) False by (subst digits.simps) simp
  qed (use 1(3) in \<open>subst digits.simps, simp\<close>)
qed

lemma length_commas: "fs \<noteq> [] \<Longrightarrow> length (commas fs) + 1 = sum_list (map length fs) + length fs"
  by (induction fs rule: commas.induct) simp_all

lemma set_commas: "set (commas fs) \<subseteq> insert 44 (\<Union> (set ` set fs))"
  by (induction fs rule: commas.induct) auto

lemma no_line_end: "(\<And>x. x \<in> set fs \<Longrightarrow> 10 \<notin> set x) \<Longrightarrow> 10 \<notin> set (commas fs)"
proof
  assume "10 \<in> set (commas fs)"
  then have "10 = (44 :: u8) \<or> (\<exists>x \<in> set fs. 10 \<in> set x)" using set_commas[of fs] by blast
  moreover have "10 \<noteq> (44 :: u8)" by simp
  ultimately show "(\<And>x. x \<in> set fs \<Longrightarrow> 10 \<notin> set x) \<Longrightarrow> False" by blast
qed

text \<open>
  Numbers of a scan request. When there is memory for the digits, \<^verbatim>\<open>convert_string_to_int\<close> of a
  text of digits is its value in the given base, modulo 2^32, and the memory is given back; without
  memory it is 0. (Digits are those of the base 16 in any base: '1a' has the decimal value 20.)
\<close>

lemma scan_number:
  assumes "\<forall>c \<in> set x. digit_of c \<noteq> None" "heap_ok (hist s)"
  shows "\<exists>s'. convert_string_to_int e (length x) (pre @ x @ post) (length pre) scale s =
      Some (if e_malloc e (hist s) (length x) then (\<Sum>i < length x. digit_value (x ! (length x - 1 - i)) * scale ^ i) else 0, s') \<and>
    live (hist s') = live (hist s)"
proof -
  have v: "horner_sum digit_value scale (rev x) = (\<Sum>i < length x. digit_value (x ! (length x - 1 - i)) * scale ^ i)"
    by (auto simp: horner_sum_eq_sum rev_nth atLeast0LessThan intro: sum.cong)
  have "take (length x) (drop (length pre) (pre @ x @ post)) = x" by simp
  then have d: "digits_loop scale (pre @ x @ post) (length pre) (length x) 0 = Some (horner_sum digit_value scale (rev x))"
    using text_value_eq[of "length pre" "length x" "pre @ x @ post" scale] text_value_digits[OF assms(1)] by simp
  show ?thesis
    using d fresh_not_live[OF assms(2)] v by (simp add: convert_string_to_int_def rt_malloc_def)
qed

lemma scan_number_witness:
  "\<exists>s'. convert_string_to_int good_env 3 ([44] @ [50, 48, 48] @ [0]) 1 10 init_at = Some (200, s') \<and> live (hist s') = []"
proof -
  have "\<forall>c \<in> set [50, 48, 48 :: u8]. digit_of c \<noteq> None" by (simp add: digit_of_def)
  moreover have "heap_ok (hist init_at)" by (simp add: init_at_def)
  ultimately show ?thesis
    using scan_number[of "[50, 48, 48]" init_at good_env "[44]" "[0]" 10]
    by (simp add: numeral_3_eq_3 lessThan_Suc digit_value_def digit_of_def init_at_def)
qed

definition scan_fields :: "u32 \<Rightarrow> scan_req list \<Rightarrow> u8 list list" where
  "scan_fields mode reqs = map (\<lambda>r. digits 10 (unat (freq_idx r))) reqs @
     (if mode = SCAN_MODE_SUBSYSID then map (\<lambda>r. digits 16 (unat (sub_sys_id r))) reqs else [])"

lemma scan_fields_typed:
  "x \<in> set (scan_fields mode reqs) \<Longrightarrow> field x \<and> 10 \<notin> set x"
  using digits_field[of 10] digits_field[of 16] by (auto simp: scan_fields_def split: if_splits)

text \<open>A frequency has at most 3 digits, an id at most 8.\<close>

lemma scan_fields_short:
  assumes "reqs \<noteq> []"
  shows "length (commas (scan_fields mode reqs)) + 2 \<le> 13 * length reqs + 1"
proof -
  let ?f = "map (\<lambda>r. digits 10 (unat (freq_idx r))) reqs" and ?i = "map (\<lambda>r. digits 16 (unat (sub_sys_id r))) reqs"
  have "length (digits 10 (unat (freq_idx r))) \<le> 3" for r :: scan_req
    using unsigned_less[of "freq_idx r", where ?'a = nat] by (intro digits_length) simp_all
  then have "sum_list (map length ?f) \<le> 3 * length reqs" unfolding map_map comp_def
    by (induction reqs) (simp_all add: add_mono)
  moreover have "length (digits 16 (unat (sub_sys_id r))) \<le> 8" for r :: scan_req
    using unsigned_less[of "sub_sys_id r", where ?'a = nat] by (intro digits_length) simp_all
  then have "sum_list (map length ?i) \<le> 8 * length reqs" unfolding map_map comp_def
    by (induction reqs) (simp_all add: add_mono)
  moreover have "scan_fields mode reqs \<noteq> []" using assms by (simp add: scan_fields_def)
  ultimately show ?thesis using length_commas[of "scan_fields mode reqs"] by (auto simp: scan_fields_def add.commute split: if_splits)
qed

lemma scan_fields_stored:
  assumes "length reqs < 2 ^ 13" "mode \<le> 2"
  shows "scan_data mode (store_fields (length reqs) 0 (scan_fields mode reqs) (replicate (length reqs) \<lparr>sub_sys_id = 0, freq_idx = 0\<rparr>)) = scan_data mode reqs"
    (is "scan_data mode ?arr = _")
proof -
  have v: "text_value 10 (digits 10 (unat (w :: u8))) = ucast w" "text_value 16 (digits 16 (unat (v :: u32))) = v" for w v
    using value_of_digits[of 10 "unat w"] value_of_digits[of 16 "unat v"] by (simp_all add: unsigned_ucast_eq)
  have uu: "ucast (ucast w :: u32) = w" for w :: u8 by (auto simp: bit_eq_iff bit_simps)
  have a: "?arr ! k = (if mode = SCAN_MODE_SUBSYSID then reqs ! k else \<lparr>sub_sys_id = 0, freq_idx = freq_idx (reqs ! k)\<rparr>)" if "k < length reqs" for k
    using that v uu by (cases "reqs ! k") (subst nth_store_fields; simp add: nth_append scan_fields_def)
  show ?thesis
  proof (cases "mode = SCAN_MODE_SUBSYSID")
    case True
    then have "?arr = reqs" using a by (intro nth_equalityI) simp_all
    then show ?thesis by simp
  next
    case False
    moreover have "unat mode = 0 \<or> unat mode = 1 \<or> unat mode = 2"
      using assms(2) by (simp add: word_le_nat_alt) linarith
    ultimately have "mode = SCAN_MODE_NORMAL \<or> mode = SCAN_MODE_ONLY_FAST"
      by (simp add: SCAN_MODE_NORMAL_def SCAN_MODE_ONLY_FAST_def SCAN_MODE_SUBSYSID_def word_unat_eq_iff)
    moreover have "map freq_idx ?arr = map freq_idx reqs" using a False by (intro nth_equalityI) simp_all
    ultimately show ?thesis by (simp add: scan_data_def)
  qed
qed

text \<open>C9. A scan of frequencies. The host types as many frequencies as it announced, in decimal, and in
  the mode with subsystem ids as many ids in hexadecimal, and ends the line. The block for the line
  is then large enough whatever the numbers are, the command asks the radio for a scan of exactly
  these frequencies (and ids), reports OK when the scan succeeds, and gives all memory back.
\<close>

theorem scan_command:
  assumes "host_types e text" "\<And>h k. e_malloc e h k" "\<not> e_auto_connect e (hist s)" "wiota_state (at_mgr s) = AT_WIOTA_RUN"
    "heap_ok (hist s)" "reqs \<noteq> []" "length reqs < 2 ^ 13" "mode \<le> 2"
    "pending text (hist s) =
      commas (map (\<lambda>r. digits 10 (unat (freq_idx r))) reqs @
        (if mode = SCAN_MODE_SUBSYSID then map (\<lambda>r. digits 16 (unat (sub_sys_id r))) reqs else [])) @ [13, 10] @ rst"
  shows "\<exists>r s' new h. at_scan_freq_setup e (Some (timeout, mode, dl, of_nat (length reqs))) s = Some (r, s') \<and>
    hist s' = new @ C_wiota (W_scan_freq_mode (scan_data mode reqs) (ucast mode) timeout) # h \<and>
    (r = AT_RESULT_OK \<longleftrightarrow> fst (e_scan_freq e (C_wiota (W_scan_freq_mode (scan_data mode reqs) (ucast mode) timeout) # h)) = UC_OP_SUCC) \<and>
    live (hist s') = live (hist s)"
proof -
  let ?n = "of_nat (length reqs) :: u32" and ?fs = "scan_fields mode reqs"
  have n: "unat ?n = length reqs" using assms(7) by (simp add: unat_of_nat)
  then have n0: "?n \<noteq> 0" using assms(6) by (metis length_0_conv unat_0)
  have f: "list_all field ?fs" using scan_fields_typed by (auto simp: list_all_iff)
  have lf: "10 \<notin> set (commas ?fs)" by (rule no_line_end) (use scan_fields_typed in blast)
  have m: "(ucast mode = (1 :: u8)) = (mode = SCAN_MODE_SUBSYSID)"
  proof -
    have "unat mode \<le> 2" using assms(8) by (simp add: word_le_nat_alt)
    then have "unat (ucast mode :: u8) = unat mode" by (simp add: unsigned_ucast_eq take_bit_nat_eq_self)
    then show ?thesis by (simp add: word_unat_eq_iff SCAN_MODE_SUBSYSID_def)
  qed
  have len: "length ?fs = (if ucast mode = (1 :: u8) then 2 * unat ?n else unat ?n)" using m n by (simp add: scan_fields_def)
  let ?arr = "store_fields (unat ?n) 0 ?fs (replicate (unat ?n) \<lparr>sub_sys_id = 0, freq_idx = 0\<rparr>)"
  have data: "scan_data mode ?arr = scan_data mode reqs" using scan_fields_stored[OF assms(7,8)] n by simp
  have q: "unat ?n < 2 ^ 27" "length ?fs < 2 ^ 32" "unat ?n < 2 ^ 13" using n assms(7) by (simp_all add: scan_fields_def)
  have pend: "pending text (hist s) = commas ?fs @ 13 # 10 # rst" using assms(9) by (simp add: scan_fields_def)
  obtain f p s1 where s1: "at_scan_freq_setup e (Some (timeout, mode, dl, ?n)) s = scan_frequencies e timeout mode ?n p ?arr (rt_free (Some f) s1)"
      "live (hist s1) = p # f # live (hist s)" "heap_ok (hist s1)" "p \<noteq> f" "p \<notin> set (live (hist s))" "f \<notin> set (live (hist s))"
    using scan_command_line[OF assms(1-4) n0 q(1) f q(2) lf pend assms(5), of timeout mode dl] scan_fields_short[OF assms(6), of mode] n len by auto
  have l: "removeAll p (live (hist (rt_free (Some f) s1))) = live (hist s)" "heap_ok (hist (rt_free (Some f) s1))"
    using s1(2-6) by simp_all
  have la: "length ?arr = unat ?n" by simp
  show ?thesis
    using scan_frequencies_eq[OF assms(2) la q(3) l(2), of timeout mode p] unfolding s1(1) l(1) data by blast
qed

definition typing :: "u8 list \<Rightarrow> env" where
  "typing text = good_env\<lparr>e_get_char := \<lambda>h. rd text (typed_chars h - 1)\<rparr>"

lemma typing_types: "host_types (typing text) text"
  by (simp add: host_types_def typing_def)

lemma typing_env [simp]:
  "e_malloc (typing text) h n" "\<not> e_auto_connect (typing text) h"
  by (simp_all add: typing_def good_env_def)

definition running_at :: at_srv where
  "running_at = set_at_state AT_WIOTA_RUN init_at"

lemma running_at_fields [simp]: "hist running_at = []" "wiota_state (at_mgr running_at) = AT_WIOTA_RUN"
  by (simp_all add: running_at_def set_at_state_def at_wiota_set_state_def init_at_def)

definition two_reqs :: "scan_req list" where
  "two_reqs = [\<lparr>sub_sys_id = 0, freq_idx = 100\<rparr>, \<lparr>sub_sys_id = 0, freq_idx = 7\<rparr>]"

lemma two_digits: "digits 10 100 = [49, 48, 48]" "digits 10 7 = [55]"
  by (simp_all add: digits.simps[of 10 100] digits.simps[of 10 10] digits.simps[of 10 "Suc 0"] digits.simps[of 10 7] digit_char_def)

theorem scan_command_witness:
  "\<exists>r s' new h. at_scan_freq_setup (typing [49, 48, 48, 44, 55, 13, 10]) (Some (1000, 0, 0, 2)) running_at = Some (r, s') \<and>
     hist s' = new @ C_wiota (W_scan_freq_mode [100, 7] 0 1000) # h"
proof -
  let ?e = "typing [49, 48, 48, 44, 55, 13, 10]"
  have p: "pending [49, 48, 48, 44, 55, 13, 10] (hist running_at) =
      commas (map (\<lambda>r. digits 10 (unat (freq_idx r))) two_reqs @
        (if (0 :: u32) = SCAN_MODE_SUBSYSID then map (\<lambda>r. digits 16 (unat (sub_sys_id r))) two_reqs else [])) @ [13, 10] @ []"
    by (simp add: pending_def two_reqs_def two_digits SCAN_MODE_SUBSYSID_def)
  have h: "heap_ok (hist running_at)" "two_reqs \<noteq> []" "length two_reqs < 2 ^ 13" "(0 :: u32) \<le> 2"
    by (simp_all add: two_reqs_def)
  have d: "scan_data 0 two_reqs = [100, 7]" "(of_nat (length two_reqs) :: u32) = 2"
    by (simp_all add: scan_data_def SCAN_MODE_NORMAL_def two_reqs_def)
  show ?thesis
    using scan_command[OF typing_types typing_env(1,2) running_at_fields(2) h p, of 1000 0] unfolding d by auto
qed

text \<open>C40. The block for the line of a scan request. With enough memory the command faults on a line of
  fields exactly when the line with its two end characters is longer than the 13 bytes for each
  announced frequency and one more that it allocated: then it writes behind the block. This does not
  depend on the number of fields, which is looked at later.
\<close>

theorem scan_line_overflow:
  assumes "host_types e text" "\<And>h k. e_malloc e h k" "\<not> e_auto_connect e (hist s)" "wiota_state (at_mgr s) = AT_WIOTA_RUN"
    "heap_ok (hist s)" "n \<noteq> 0" "unat n < 2 ^ 13" "list_all field fs" "length fs < 2 ^ 32" "10 \<notin> set (commas fs)"
    "pending text (hist s) = commas fs @ [13, 10] @ rst"
  shows "at_scan_freq_setup e (Some (timeout, mode, dl, n)) s = None \<longleftrightarrow> 13 * unat n + 1 < length (commas fs) + 2"
proof -
  have n: "unat n < 2 ^ 27" using assms(7) by simp
  have p: "pending text (hist s) = commas fs @ 13 # 10 # rst" using assms(11) by simp
  note c = scan_command_line[OF assms(1-4,6) n assms(8-10) p assms(5), of timeout mode dl]
  show ?thesis
  proof (cases "13 * unat n + 1 < length (commas fs) + 2")
    case False
    let ?arr = "store_fields (unat n) 0 fs (replicate (unat n) \<lparr>sub_sys_id = 0, freq_idx = 0\<rparr>)"
    obtain f p s1 where s1: "at_scan_freq_setup e (Some (timeout, mode, dl, n)) s =
        (if length fs = (if ucast mode = (1 :: u8) then 2 * unat n else unat n)
         then scan_frequencies e timeout mode n p ?arr (rt_free (Some f) s1)
         else Some (AT_RESULT_NULL, at_say ''CONVERT FAIL'' [] (rt_free (Some p) (rt_free (Some f) s1))))" "heap_ok (hist s1)"
      using c unfolding if_not_P[OF False] by blast
    have la: "length ?arr = unat n" by simp
    have "heap_ok (hist (rt_free (Some f) s1))" using s1(2) by simp
    then have "scan_frequencies e timeout mode n p ?arr (rt_free (Some f) s1) \<noteq> None"
      using scan_frequencies_eq[OF assms(2) la assms(7), of _ timeout mode p] by blast
    then have "at_scan_freq_setup e (Some (timeout, mode, dl, n)) s \<noteq> None" unfolding s1(1) by (simp split: if_split)
    then show ?thesis using False by blast
  qed (use c in \<open>simp only: if_True simp_thms\<close>)
qed

theorem scan_line_overflow_witness:
  "at_scan_freq_setup (typing (replicate 14 49 @ [13, 10])) (Some (1000, 0, 0, 1)) running_at = None"
proof -
  let ?x = "replicate 14 (49 :: u8)"
  have x: "list_all field [?x]" "length [?x] < 2 ^ 32" "10 \<notin> set (commas [?x])" "(1 :: u32) \<noteq> 0" "unat (1 :: u32) < 2 ^ 13"
      "pending (?x @ [13, 10]) (hist running_at) = commas [?x] @ [13, 10] @ []" "heap_ok (hist running_at)"
    by (simp_all add: field_def pending_def)
  show ?thesis
    using scan_line_overflow[OF typing_types typing_env(1,2) running_at_fields(2) x(7,4,5,1,2,3,6), of 1000 0 0] by simp
qed

text \<open>A comma at the end of the line hides the end of the string, and the loop leaves the memory of the line.\<close>

lemma trailing_comma_faults:
  "\<not> (\<exists>r. fields_loop (typing text) 1 [49, 44, 0, 10] 0 0 0 0 [\<lparr>sub_sys_id = 0, freq_idx = 0\<rparr>] running_at = Some r)"
  by (simp add: fields_loop.simps[of _ _ "[49, 44, 0, 10]"] rd_def COMMA_def store_field_def convert_string_to_int_def
      rt_malloc_def digit_of_def nth_power_def split: option.splits)

end
