(* ===== verification/AtTrans.thy ===== *)
theory AtTrans
  imports AtInput
begin

text \<open>
  Sending data over the radio from the serial line, \<^verbatim>\<open>PS/at/at_wiota.c\<close>: AT+WIOTASEND and its
  variant that does not wait, and the transmission mode of AT+WIOTATRANS, in which the host types
  lines until one of them ends with an agreed string.

  A character that the host does not type within the time-out of a read is \<open>None\<close>.
\<close>

section \<open>Sending a number of bytes\<close>

definition WIOTA_SEND_TIMEOUT :: u32 where "WIOTA_SEND_TIMEOUT = 60000"
definition WIOTA_SEND_DATA_MUX_LEN :: u32 where "WIOTA_SEND_DATA_MUX_LEN = 1024"
definition WIOTA_DATA_END :: u8 where "WIOTA_DATA_END = 0x1A"
definition CRC16_LEN :: u32 where "CRC16_LEN = 2"

text \<open>The library takes the length and the time-out in 16 bits.\<close>

definition uc_wiota_send_data :: "env \<Rightarrow> u8 list \<Rightarrow> u32 \<Rightarrow> u32 \<Rightarrow> 'a sys_scheme \<Rightarrow> op_result \<times> 'a sys_scheme" where
  "uc_wiota_send_data e buf len timeout s =
     (let n = ucast len :: u16;
          s = emit (C_wiota (W_send_data (take (unat n) buf) n (ucast timeout))) s
      in (e_send_data e (hist s), s))"

definition say_sent :: "op_result \<Rightarrow> 'a sys_scheme \<Rightarrow> 'a sys_scheme" where
  "say_sent r s =
     at_say (case r of UC_OP_SUCC \<Rightarrow> ''SEND SUCC'' | UC_OP_TIMEOUT \<Rightarrow> ''SEND TOUT'' | UC_OP_FAIL \<Rightarrow> ''SEND FAIL'') [] s"

text \<open>The characters before the end character, at most as many as the counter says.\<close>

fun send_chars :: "env \<Rightarrow> nat \<Rightarrow> bool \<Rightarrow> u8 list \<Rightarrow> 'a sys_scheme \<Rightarrow> u8 list option \<times> 'a sys_scheme" where
  "send_chars e 0 is_wait mem s = (Some mem, s)"
| "send_chars e (Suc n) is_wait mem s =
     (let s = emit (C_at At_get_char) s
      in case e_get_char e (hist s) of
           None \<Rightarrow> (None, s)
         | Some c \<Rightarrow> if is_wait \<and> c = WIOTA_DATA_END then (Some mem, s) else send_chars e n is_wait (mem @ [c]) s)"

text \<open>
  With a callback the library keeps the block until it calls \<^verbatim>\<open>at_send_callback\<close>; the result is then
  the block.
\<close>

definition at_wiotasend_handle_data ::
  "env \<Rightarrow> u32 \<Rightarrow> u32 \<Rightarrow> bool \<Rightarrow> bool \<Rightarrow> 'a sys_scheme \<Rightarrow> (at_result \<times> ptr option) \<times> 'a sys_scheme" where
  "at_wiotasend_handle_data e timeout len is_wait callback s =
     (let timeout = (if is_wait then WIOTA_SEND_TIMEOUT else timeout);
          len = (if is_wait then WIOTA_SEND_DATA_MUX_LEN else len);
          (p, s) = rt_malloc e (unat (len + CRC16_LEN)) s
      in if p = None \<or> sint len < 2 then ((AT_RESULT_NULL, None), at_say ''SEND FAIL'' [] (rt_free p s))
         else
           (case send_chars e (unat len) is_wait [] (at_say ''>'' [] s) of
              (None, s) \<Rightarrow> ((AT_RESULT_NULL, None), rt_free p (at_say ''SEND FAIL'' [] s))
            | (Some mem, s) \<Rightarrow>
                if mem = [] then ((AT_RESULT_NULL, None), at_say ''SEND FAIL'' [] (rt_free p s))
                else
                  (let (r, s) = uc_wiota_send_data e mem (of_nat (length mem))
                         (if sint timeout > 0 then timeout else WIOTA_SEND_TIMEOUT) s
                   in if callback then ((AT_RESULT_OK, p), s)
                      else ((if r = UC_OP_SUCC then AT_RESULT_OK else AT_RESULT_NULL, None), say_sent r (rt_free p s)))))"

definition at_wiotasend_exec :: "env \<Rightarrow> 'a at_srv_scheme \<Rightarrow> at_result \<times> 'a at_srv_scheme" where
  "at_wiotasend_exec e s =
     (if wiota_state (at_mgr s) \<noteq> AT_WIOTA_RUN then (AT_RESULT_FAILE, s)
      else (let ((r, _), s) = at_wiotasend_handle_data e 0 0 True False s in (r, s)))"

definition at_wiotasend_setup :: "env \<Rightarrow> (u32 \<times> u32) option \<Rightarrow> 'a at_srv_scheme \<Rightarrow> at_result \<times> 'a at_srv_scheme" where
  "at_wiotasend_setup e args s =
     (if wiota_state (at_mgr s) \<noteq> AT_WIOTA_RUN then (AT_RESULT_FAILE, s)
      else
        (case args of
           None \<Rightarrow> (AT_RESULT_PARSE_FAILE, s)
         | Some (timeout, len) \<Rightarrow>
             if sint len \<le> 0 then (AT_RESULT_PARSE_FAILE, s)
             else (let ((r, _), s) = at_wiotasend_handle_data e timeout len False False s in (r, s))))"

definition at_wiotasend_noblock_exec :: "env \<Rightarrow> 'a at_srv_scheme \<Rightarrow> (at_result \<times> ptr option) \<times> 'a at_srv_scheme" where
  "at_wiotasend_noblock_exec e s =
     (if wiota_state (at_mgr s) \<noteq> AT_WIOTA_RUN then ((AT_RESULT_FAILE, None), s)
      else at_wiotasend_handle_data e 0 0 True True s)"

definition at_wiotasend_noblock_setup :: "env \<Rightarrow> (u32 \<times> u32) option \<Rightarrow> 'a at_srv_scheme \<Rightarrow> (at_result \<times> ptr option) \<times> 'a at_srv_scheme" where
  "at_wiotasend_noblock_setup e args s =
     (if wiota_state (at_mgr s) \<noteq> AT_WIOTA_RUN then ((AT_RESULT_FAILE, None), s)
      else
        (case args of
           None \<Rightarrow> ((AT_RESULT_PARSE_FAILE, None), s)
         | Some (timeout, len) \<Rightarrow>
             if sint len \<le> 0 then ((AT_RESULT_PARSE_FAILE, None), s)
             else at_wiotasend_handle_data e timeout len False True s))"

text \<open>After a time-out the block is not freed.\<close>

definition at_send_callback :: "op_result \<Rightarrow> ptr option \<Rightarrow> 'a sys_scheme \<Rightarrow> 'a sys_scheme" where
  "at_send_callback r p s = say_sent r (if r = UC_OP_TIMEOUT then s else rt_free p s)"

section \<open>The transmission mode\<close>

definition WIOTA_TRANS_END_STRING :: "u8 list" where "WIOTA_TRANS_END_STRING = [69, 79, 70]"
definition WIOTA_TRANS_MAX_LEN :: nat where "WIOTA_TRANS_MAX_LEN = 310"
definition WIOTA_TRANS_END_STRING_MAX :: nat where "WIOTA_TRANS_END_STRING_MAX = 8"
definition WIOTA_TRANS_BUFF :: nat where "WIOTA_TRANS_BUFF = 321"

text \<open>Characters are thrown away until the host pauses. \<open>None\<close> is a host that never does.\<close>

partial_function (option) discard :: "env \<Rightarrow> 'a sys_scheme \<Rightarrow> 'a sys_scheme option" where
  "discard e s =
     (let s = emit (C_at At_get_char) s
      in case e_get_char e (hist s) of None \<Rightarrow> Some s | Some c \<Rightarrow> discard e s)"

declare discard.simps [code]

text \<open>Whether the first \<open>n\<close> characters of the buffer end with the string.\<close>

definition ends_with :: "u8 list \<Rightarrow> nat \<Rightarrow> u8 list \<Rightarrow> bool option" where
  "ends_with buf n strEnd =
     (if n < length strEnd then Some False
      else do { c \<leftarrow> rd buf (n - 1);
                d \<leftarrow> rd strEnd (length strEnd - 1);
                if c \<noteq> d then Some False
                else do { bs \<leftarrow> rdn buf (n - length strEnd) (length strEnd); Some (bs = strEnd) } })"

text \<open>
  The line end, from the third character of a line on: the length of the line without it and
  without the end string, whether it is to be sent, and whether the mode goes on.
\<close>

definition line_end :: "u8 list \<Rightarrow> nat \<Rightarrow> u8 list \<Rightarrow> (nat \<times> bool \<times> bool) option" where
  "line_end buf n strEnd =
     (if n \<le> 2 then Some (n, False, True)
      else
        do { c \<leftarrow> rd buf (n - 1);
             if c \<noteq> 10 then Some (n, False, True)
             else
               do { d \<leftarrow> rd buf (n - 2);
                    if d \<noteq> 13 then Some (n, False, True)
                    else
                      do { b \<leftarrow> ends_with buf (n - 2) strEnd;
                           Some (if b then (n - 2 - length strEnd, True, False) else (n - 2, True, True)) } } })"

definition trans_step ::
  "env \<Rightarrow> u32 \<Rightarrow> u8 list \<Rightarrow> u8 list \<Rightarrow> nat \<Rightarrow> 'a sys_scheme \<Rightarrow> ((u8 list \<times> nat \<times> bool) \<times> 'a sys_scheme) option" where
  "trans_step e timeout strEnd pBuff nSeekRx s =
     do { let s = emit (C_at At_get_char) s;
          pBuff \<leftarrow> (case e_get_char e (hist s) of None \<Rightarrow> Some pBuff | Some c \<Rightarrow> wr pBuff nSeekRx [c]);
          (nSeekRx, nSendFlag, nRun) \<leftarrow> line_end pBuff (nSeekRx + 1) strEnd;
          if nSeekRx > WIOTA_TRANS_MAX_LEN + length strEnd + 2 \<or> (nSendFlag \<and> nSeekRx > WIOTA_TRANS_MAX_LEN) then
            do { s \<leftarrow> discard e (at_say ''message too long'' [] s);
                 Some ((replicate WIOTA_TRANS_BUFF 0, 0, True), s) }
          else if nSendFlag then
            (let n = (if nSeekRx > WIOTA_TRANS_MAX_LEN then WIOTA_TRANS_MAX_LEN else nSeekRx);
                 s = (if n > 0 then (let (r, s) = uc_wiota_send_data e pBuff (of_nat n) timeout s in say_sent r s) else s)
             in Some ((replicate WIOTA_TRANS_BUFF 0, 0, nRun), s))
          else Some ((pBuff, nSeekRx, nRun), s) }"

partial_function (option) trans_loop :: "env \<Rightarrow> u32 \<Rightarrow> u8 list \<Rightarrow> u8 list \<Rightarrow> nat \<Rightarrow> 'a sys_scheme \<Rightarrow> 'a sys_scheme option" where
  "trans_loop e timeout strEnd pBuff nSeekRx s =
     do { ((pBuff, nSeekRx, nRun), s) \<leftarrow> trans_step e timeout strEnd pBuff nSeekRx s;
          if nRun then trans_loop e timeout strEnd pBuff nSeekRx s else Some s }"

declare trans_loop.simps [code]

definition at_wiotatrans_process :: "env \<Rightarrow> u16 \<Rightarrow> u8 list \<Rightarrow> 'a sys_scheme \<Rightarrow> (at_result \<times> 'a sys_scheme) option" where
  "at_wiotatrans_process e timeout strEnd s =
     (let timeout = (if timeout = 0 then WIOTA_SEND_TIMEOUT else ucast timeout);
          strEnd = (if strEnd = [] then WIOTA_TRANS_END_STRING else strEnd)
      in case rt_malloc e WIOTA_TRANS_BUFF s of
           (None, s) \<Rightarrow> Some (AT_RESULT_PARSE_FAILE, s)
         | (Some p, s) \<Rightarrow>
             do { s \<leftarrow> trans_loop e timeout strEnd (replicate WIOTA_TRANS_BUFF 0) 0 (at_say ''Enter transmission mode >'' [] s);
                  s \<leftarrow> discard e s;
                  Some (AT_RESULT_OK, rt_free (Some p) (at_say ''Leave transmission mode'' [] s)) })"

text \<open>
  The end string from the nine bytes that \<^verbatim>\<open>parse\<close> fills with at most eight characters: it is cut at
  the first line end, and an empty one is replaced.
\<close>

definition trans_end_string :: "u8 list \<Rightarrow> u8 list" where
  "trans_end_string strEnd =
     (let i = length (takeWhile (\<lambda>c. c \<noteq> 13 \<and> c \<noteq> 10) (take WIOTA_TRANS_END_STRING_MAX strEnd));
          strEnd = (if i < WIOTA_TRANS_END_STRING_MAX then strEnd[i := 0] else strEnd)
      in if i = 0 then WIOTA_TRANS_END_STRING else takeWhile (\<lambda>c. c \<noteq> 0) strEnd)"

definition at_wiotatrans_setup :: "env \<Rightarrow> (u32 \<times> u8 list) option \<Rightarrow> 'a at_srv_scheme \<Rightarrow> (at_result \<times> 'a at_srv_scheme) option" where
  "at_wiotatrans_setup e args s =
     (if wiota_state (at_mgr s) \<noteq> AT_WIOTA_RUN then Some (AT_RESULT_FAILE, s)
      else
        (case args of
           None \<Rightarrow> Some (AT_RESULT_PARSE_FAILE, s)
         | Some (timeout, strEnd) \<Rightarrow> at_wiotatrans_process e (ucast timeout) (trans_end_string strEnd) s))"

definition at_wiotatrans_exec :: "env \<Rightarrow> 'a at_srv_scheme \<Rightarrow> (at_result \<times> 'a at_srv_scheme) option" where
  "at_wiotatrans_exec e s =
     (if wiota_state (at_mgr s) \<noteq> AT_WIOTA_RUN then Some (AT_RESULT_FAILE, s)
      else at_wiotatrans_process e 0 [] s)"

end
