(* ===== verification/TransLines.thy ===== *)
theory TransLines
  imports AtTrans ScanLine "HOL-Library.Sublist"
begin

text \<open>
  What the transmission mode does with the lines of a host: it never leaves its buffer, it sends each
  line that fits as one packet, in order, up to the line with the end string, and it gives its memory
  back. The sending of a number of bytes: what goes over the air and what becomes of the block.
\<close>

section \<open>Packets of a history\<close>

text \<open>The data of the packets that were sent, oldest first.\<close>

definition sent :: "call list \<Rightarrow> u8 list list" where
  "sent h = concat (map (\<lambda>c. case c of C_wiota (W_send_data bs n t) \<Rightarrow> [bs] | _ \<Rightarrow> []) (rev h))"

lemma sent_simps [simp]:
  "sent [] = []" "sent (C_wiota (W_send_data bs n t) # h) = sent h @ [bs]"
  "sent (C_at a # h) = sent h" "sent (C_heap m # h) = sent h"
  by (simp_all add: sent_def)

lemma sent_reads [simp]: "sent (replicate n (C_at a) @ h) = sent h"
  by (induction n) simp_all

lemma live_at_calls [simp]: "live (replicate n (C_at a) @ h) = live h"
  by (induction n) simp_all

lemma heap_ok_at_calls [simp]: "heap_ok h \<Longrightarrow> heap_ok (replicate n (C_at a) @ h)"
  by (induction n) simp_all

lemma pending_reads [simp]: "pending text (replicate n (C_at At_get_char) @ h) = drop n (pending text h)"
  by (induction n) (simp_all add: drop_Suc tl_drop)

text \<open>Only packets were sent, lines printed and characters read.\<close>

definition sends :: "u8 list list \<Rightarrow> 'a sys_scheme \<Rightarrow> 'a sys_scheme \<Rightarrow> bool" where
  "sends bs s s' \<longleftrightarrow> only_hist s s' \<and> live (hist s') = live (hist s) \<and> sent (hist s') = sent (hist s) @ bs \<and>
     (heap_ok (hist s) \<longrightarrow> heap_ok (hist s'))"

lemma sends_refl [simp]: "sends [] s s"
  by (simp add: sends_def)

lemma sends_trans: "sends bs s s' \<Longrightarrow> sends cs s' s'' \<Longrightarrow> sends (bs @ cs) s s''"
  unfolding sends_def by (auto intro: only_hist_trans)

lemma sends_step: "sends bs s s' \<Longrightarrow> sends [] s' s'' \<Longrightarrow> sends bs s s''"
  using sends_trans[of bs s s' "[]"] by simp

lemma sends_at [simp]: "sends [] s (emit (C_at a) s)"
  by (simp add: sends_def)

lemma sends_reads: "sends [] s (s\<lparr>hist := replicate n (C_at a) @ hist s\<rparr>)"
  by (simp add: sends_def only_hist_update)

lemma sends_packet: "sends [bs] s (say_sent r (emit (C_wiota (W_send_data bs n t)) s))"
  by (simp add: sends_def say_sent_def at_say_def)

section \<open>The end of the input\<close>

lemma discard_eq:
  assumes "host_types e text"
  shows "discard e s = Some (s\<lparr>hist := replicate (Suc (length (pending text (hist s)))) (C_at At_get_char) @ hist s\<rparr>)"
proof (induction "length (pending text (hist s))" arbitrary: s)
  case 0
  then have "e_get_char e (C_at At_get_char # hist s) = None" using next_char[OF assms, of "hist s"] by simp
  then show ?case using 0 by (subst discard.simps) (simp add: Let_def emit_def)
next
  case (Suc n)
  let ?s = "emit (C_at At_get_char) s"
  obtain c cs where p: "pending text (hist s) = c # cs" using Suc.hyps(2) by (cases "pending text (hist s)") simp_all
  then have "e_get_char e (C_at At_get_char # hist s) = Some c" using next_char[OF assms, of "hist s"] by simp
  moreover have "n = length (pending text (hist ?s))" using Suc.hyps(2) p by simp
  ultimately show ?case
    using Suc.hyps(1)[of ?s] p by (subst discard.simps) (simp add: Let_def emit_def replicate_app_Cons_same)
qed

lemma discard_sends: "host_types e text \<Longrightarrow> \<exists>s'. discard e s = Some s' \<and> sends [] s s' \<and> pending text (hist s') = []"
  using discard_eq[of e "text" s] sends_reads[of s "Suc (length (pending text (hist s)))" At_get_char] by simp

section \<open>Steps\<close>

lemma ends_with_iff:
  assumes "n \<le> length buf" "0 < n" "strEnd \<noteq> []"
  shows "ends_with buf n strEnd = Some (suffix strEnd (take n buf))"
proof (cases "n < length strEnd")
  case True
  then have "\<not> suffix strEnd (take n buf)" using suffix_length_le[of strEnd "take n buf"] assms(1) by auto
  then show ?thesis using True by (simp add: ends_with_def)
next
  case False
  then have bs: "rdn buf (n - length strEnd) (length strEnd) = Some (drop (n - length strEnd) (take n buf))"
    using assms(1) by (simp add: rdn_def drop_take)
  have iff: "suffix strEnd (take n buf) \<longleftrightarrow> drop (n - length strEnd) (take n buf) = strEnd"
  proof
    assume "suffix strEnd (take n buf)"
    then obtain zs where "take n buf = zs @ strEnd" by (auto simp: suffix_def)
    moreover from this have "length (zs @ strEnd) = n" using assms(1) by (metis length_take min.absorb2)
    ultimately show "drop (n - length strEnd) (take n buf) = strEnd" by auto
  next
    assume d: "drop (n - length strEnd) (take n buf) = strEnd"
    show "suffix strEnd (take n buf)" using suffix_drop[of "n - length strEnd" "take n buf"] unfolding d .
  qed
  have l: "last (take n buf) = buf ! (n - 1)" "last strEnd = strEnd ! (length strEnd - 1)"
    using assms by (subst last_conv_nth; auto simp: min_absorb2)+
  have "suffix strEnd (take n buf) \<Longrightarrow> buf ! (n - 1) = strEnd ! (length strEnd - 1)"
    using assms(3) l by (auto simp: suffix_def)
  then show ?thesis
    using False assms bs iff by (auto simp: ends_with_def rd_def)
qed

lemma line_end_in_bounds:
  assumes "n \<le> length buf" "strEnd \<noteq> []"
  shows "\<exists>m f r. line_end buf n strEnd = Some (m, f, r) \<and> m \<le> n \<and> (\<not> f \<longrightarrow> m = n)"
proof (cases "n \<le> 2")
  case False
  then have "rd buf (n - 1) = Some (buf ! (n - 1))" "rd buf (n - 2) = Some (buf ! (n - 2))"
      "ends_with buf (n - 2) strEnd = Some (suffix strEnd (take (n - 2) buf))"
    using assms ends_with_iff[of "n - 2" buf strEnd] by (simp_all add: rd_def)
  then show ?thesis using False by (auto simp: line_end_def)
qed (auto simp: line_end_def)

lemma trans_safe:
  assumes "host_types e text" "strEnd \<noteq> []" "length strEnd \<le> 8" "length buf = WIOTA_TRANS_BUFF"
    "n \<le> WIOTA_TRANS_MAX_LEN + length strEnd + 2"
  shows "\<exists>buf' n' run s' bs. trans_step e timeout strEnd buf n s = Some ((buf', n', run), s') \<and>
    length buf' = WIOTA_TRANS_BUFF \<and> n' \<le> WIOTA_TRANS_MAX_LEN + length strEnd + 2 \<and> sends bs s s' \<and>
    length bs \<le> 1 \<and> (\<forall>b \<in> set bs. 0 < length b \<and> length b \<le> WIOTA_TRANS_MAX_LEN)"
proof -
  let ?s = "emit (C_at At_get_char) s"
  have n: "n < length buf" "length buf = 321" using assms(3-5) by (simp_all add: WIOTA_TRANS_BUFF_def WIOTA_TRANS_MAX_LEN_def)
  obtain buf1 where b: "(case e_get_char e (hist ?s) of None \<Rightarrow> Some buf | Some c \<Rightarrow> wr buf n [c]) = Some buf1" "length buf1 = 321"
    using n by (cases "e_get_char e (hist ?s)") (simp_all add: wr_def)
  obtain m f r where m: "line_end buf1 (n + 1) strEnd = Some (m, f, r)"
    using line_end_in_bounds[of "n + 1" buf1 strEnd] assms(2) b(2) n by auto
  show ?thesis
  proof (cases "m > WIOTA_TRANS_MAX_LEN + length strEnd + 2 \<or> (f \<and> m > WIOTA_TRANS_MAX_LEN)")
    case True
    obtain s' where s': "discard e (at_say ''message too long'' [] ?s) = Some s'" "sends [] (at_say ''message too long'' [] ?s) s'"
      using discard_sends[OF assms(1)] by blast
    have "sends [] s (at_say ''message too long'' [] ?s)" using sends_step[OF sends_at sends_at] by (simp add: at_say_def)
    then have "sends [] s s'" using sends_step s'(2) by blast
    then show ?thesis
      using b m True s'(1)
      by (intro exI[of _ "replicate WIOTA_TRANS_BUFF 0"] exI[of _ 0] exI[of _ True] exI[of _ s'] exI[of _ "[]"])
        (simp add: trans_step_def Let_def)
  next
    case False
    show ?thesis
    proof (cases f)
      case f: True
      then have m310: "m \<le> 310" using False by (simp add: WIOTA_TRANS_MAX_LEN_def)
      show ?thesis
      proof (cases "m = 0")
        case True
        then show ?thesis
          using b m False f
          by (intro exI[of _ "replicate WIOTA_TRANS_BUFF 0"] exI[of _ 0] exI[of _ r] exI[of _ ?s] exI[of _ "[]"])
            (simp add: trans_step_def Let_def)
      next
        case m0: False
        have c: "unat (ucast (of_nat m :: u32) :: u16) = m" using m310 by (simp add: unsigned_ucast_eq unat_of_nat take_bit_nat_eq_self)
        obtain rr s' where u: "uc_wiota_send_data e buf1 (of_nat m) timeout ?s = (rr, s')"
          by (cases "uc_wiota_send_data e buf1 (of_nat m) timeout ?s")
        then have s': "sends [take m buf1] ?s (say_sent rr s')"
          using sends_packet[of "take m buf1" ?s rr "ucast (of_nat m :: u32)" "ucast timeout"] c
          by (auto simp: uc_wiota_send_data_def Let_def)
        have "sends [take m buf1] s (say_sent rr s')" using sends_trans[OF sends_at s'] by simp
        then show ?thesis
          using b m False f u m310 m0
          by (intro exI[of _ "replicate WIOTA_TRANS_BUFF 0"] exI[of _ 0] exI[of _ r] exI[of _ "say_sent rr s'"] exI[of _ "[take m buf1]"])
            (simp add: trans_step_def Let_def WIOTA_TRANS_MAX_LEN_def)
      qed
    next
      case nf: False
      then show ?thesis
        using b m False
        by (intro exI[of _ buf1] exI[of _ m] exI[of _ r] exI[of _ ?s] exI[of _ "[]"])
          (simp add: trans_step_def Let_def WIOTA_TRANS_BUFF_def)
    qed
  qed
qed

section \<open>Lines\<close>

lemma trans_step_plain:
  assumes "host_types e text" "pending text (hist s) = c # rst" "c \<noteq> 10" "length buf = WIOTA_TRANS_BUFF"
    "n < WIOTA_TRANS_MAX_LEN + length strEnd + 2" "length strEnd \<le> 8"
  shows "trans_step e timeout strEnd buf n s =
    Some ((take n buf @ [c] @ drop (n + 1) buf, n + 1, True), emit (C_at At_get_char) s)"
proof -
  have n: "n + 1 \<le> length buf" using assms(4-6) by (simp add: WIOTA_TRANS_BUFF_def WIOTA_TRANS_MAX_LEN_def)
  have "e_get_char e (C_at At_get_char # hist s) = Some c" using next_char[OF assms(1), of "hist s"] assms(2) by simp
  moreover have "line_end (take n buf @ [c] @ drop (n + 1) buf) (n + 1) strEnd = Some (n + 1, False, True)"
    using n assms(3) rd_append_right[of "take n buf" n c "drop (n + 1) buf"] by (simp add: line_end_def)
  ultimately show ?thesis using n assms(5) by (simp add: trans_step_def wr_def Let_def)
qed

lemma trans_plain:
  assumes "host_types e text" "length strEnd \<le> 8"
  shows "10 \<notin> set l \<Longrightarrow> pending text (hist s) = l @ rst \<Longrightarrow> length buf = WIOTA_TRANS_BUFF \<Longrightarrow>
    n + length l \<le> WIOTA_TRANS_MAX_LEN + length strEnd + 2 \<Longrightarrow>
    trans_loop e timeout strEnd buf n s =
      trans_loop e timeout strEnd (take n buf @ l @ drop (n + length l) buf) (n + length l)
        (s\<lparr>hist := replicate (length l) (C_at At_get_char) @ hist s\<rparr>)"
proof (induction l arbitrary: n buf s)
  case (Cons c l)
  let ?s = "emit (C_at At_get_char) s" and ?b = "take n buf @ [c] @ drop (n + 1) buf"
  have n: "n + 1 \<le> length buf" using Cons.prems(3,4) assms(2) by (simp add: WIOTA_TRANS_BUFF_def WIOTA_TRANS_MAX_LEN_def)
  have st: "trans_step e timeout strEnd buf n s = Some ((?b, n + 1, True), ?s)"
    by (rule trans_step_plain[OF assms(1) _ _ Cons.prems(3) _ assms(2), where rst = "l @ rst"]) (use Cons.prems(1,2,4) in simp_all)
  have "trans_loop e timeout strEnd buf n s = trans_loop e timeout strEnd ?b (n + 1) ?s"
    by (subst trans_loop.simps) (simp add: st)
  also have "\<dots> = trans_loop e timeout strEnd (take (n + 1) ?b @ l @ drop (n + 1 + length l) ?b) (n + 1 + length l)
      (?s\<lparr>hist := replicate (length l) (C_at At_get_char) @ hist ?s\<rparr>)"
    using Cons.prems n by (intro Cons.IH) simp_all
  finally have "trans_loop e timeout strEnd buf n s = trans_loop e timeout strEnd
      (take (n + 1) ?b @ l @ drop (n + 1 + length l) ?b) (n + 1 + length l)
      (?s\<lparr>hist := replicate (length l) (C_at At_get_char) @ hist ?s\<rparr>)" .
  moreover have "take (n + 1) ?b = take n buf @ [c]" "drop (n + 1 + length l) ?b = drop (n + length (c # l)) buf"
    using n by (simp_all add: add.commute)
  ultimately show ?case by (simp add: emit_def replicate_app_Cons_same)
qed simp

text \<open>A whole line, from the empty buffer: one round of the loop for its characters.\<close>

lemma trans_line:
  assumes "host_types e text" "strEnd \<noteq> []" "length strEnd \<le> 8" "10 \<notin> set l" "l \<noteq> []"
    "length l \<le> WIOTA_TRANS_MAX_LEN + (if suffix strEnd l then length strEnd else 0)"
    "pending text (hist s) = l @ [13, 10] @ rst"
  shows "\<exists>s'. pending text (hist s') = rst \<and>
    (if suffix strEnd l
     then sends (if length l = length strEnd then [] else [take (length l - length strEnd) l]) s s' \<and>
       trans_loop e timeout strEnd (replicate WIOTA_TRANS_BUFF 0) 0 s = Some s'
     else sends [l] s s' \<and>
       trans_loop e timeout strEnd (replicate WIOTA_TRANS_BUFF 0) 0 s = trans_loop e timeout strEnd (replicate WIOTA_TRANS_BUFF 0) 0 s')"
proof -
  let ?Z = "replicate WIOTA_TRANS_BUFF (0 :: u8)" and ?n = "length l"
  let ?s1 = "s\<lparr>hist := replicate (?n + 1) (C_at At_get_char) @ hist s\<rparr>"
  let ?s2 = "emit (C_at At_get_char) ?s1"
  have n: "?n \<le> 318" "?n \<le> WIOTA_TRANS_MAX_LEN + length strEnd"
    using assms(3,6) by (auto simp: WIOTA_TRANS_MAX_LEN_def split: if_splits)
  have "10 \<notin> set (l @ [13])" using assms(4) by simp
  then have "trans_loop e timeout strEnd ?Z 0 s = trans_loop e timeout strEnd (take 0 ?Z @ (l @ [13]) @ drop (0 + length (l @ [13])) ?Z)
      (0 + length (l @ [13])) (s\<lparr>hist := replicate (length (l @ [13])) (C_at At_get_char) @ hist s\<rparr>)"
    by (rule trans_plain[OF assms(1,3), where rst = "10 # rst"]) (use assms(7) n in simp_all)
  then have r: "trans_loop e timeout strEnd ?Z 0 s = trans_loop e timeout strEnd (l @ 13 # drop (?n + 1) ?Z) (?n + 1) ?s1" by simp
  have c: "e_get_char e (C_at At_get_char # hist ?s1) = Some 10"
    using next_char[OF assms(1), of "hist ?s1"] assms(7) by simp
  let ?b = "l @ [13, 10] @ drop (?n + 2) ?Z"
  have w: "wr (l @ 13 # drop (?n + 1) ?Z) (?n + 1) [10] = Some ?b"
    using n by (simp add: wr_def WIOTA_TRANS_BUFF_def)
  have e: "ends_with ?b ?n strEnd = Some (suffix strEnd l)"
    using ends_with_iff[of ?n ?b strEnd] assms(2,5) by simp
  have le: "line_end ?b (?n + 2) strEnd =
      Some (if suffix strEnd l then (?n - length strEnd, True, False) else (?n, True, True))"
    using e assms(5) by (cases l) (simp_all add: line_end_def rd_def nth_append)
  have p: "pending text (hist ?s2) = rst" using assms(7) by simp
  have sd: "sends [] s ?s2" using sends_step[OF sends_reads sends_at] by blast
  have short: "m \<le> 310 \<Longrightarrow> unat (ucast (of_nat m :: u32) :: u16) = m" for m
    by (simp add: unsigned_ucast_eq unat_of_nat take_bit_nat_eq_self)
  have snd: "\<exists>rr s3. uc_wiota_send_data e ?b (of_nat m) timeout ?s2 = (rr, s3) \<and> sends [take m l] s (say_sent rr s3) \<and>
      pending text (hist (say_sent rr s3)) = rst" if "m \<le> ?n" "m \<le> 310" for m
  proof -
    obtain rr s3 where u: "uc_wiota_send_data e ?b (of_nat m) timeout ?s2 = (rr, s3)"
      by (cases "uc_wiota_send_data e ?b (of_nat m) timeout ?s2")
    then have s3: "s3 = emit (C_wiota (W_send_data (take m l) (ucast (of_nat m :: u32)) (ucast timeout))) ?s2"
      using short[OF that(2)] that(1) by (auto simp: uc_wiota_send_data_def Let_def)
    have "sends [take m l] s (say_sent rr s3)" unfolding s3 using sends_trans[OF sd sends_packet] by simp
    moreover have "pending text (hist (say_sent rr s3)) = rst" unfolding s3 say_sent_def using p by simp
    ultimately show ?thesis using u by blast
  qed
  show ?thesis
  proof (cases "suffix strEnd l")
    case False
    have n310: "?n \<le> 310" using assms(6) False by (simp add: WIOTA_TRANS_MAX_LEN_def)
    obtain rr s3 where s3: "uc_wiota_send_data e ?b (of_nat ?n) timeout ?s2 = (rr, s3)" "sends [take ?n l] s (say_sent rr s3)"
        "pending text (hist (say_sent rr s3)) = rst"
      using snd[of ?n] n310 by auto
    have "trans_step e timeout strEnd (l @ 13 # drop (?n + 1) ?Z) (?n + 1) ?s1 = Some ((?Z, 0, True), say_sent rr s3)"
      using c w le False n310 s3(1) assms(5) by (simp add: trans_step_def Let_def WIOTA_TRANS_MAX_LEN_def)
    then have "trans_loop e timeout strEnd ?Z 0 s = trans_loop e timeout strEnd ?Z 0 (say_sent rr s3)"
      unfolding r by (subst trans_loop.simps) simp
    then show ?thesis using False s3(2,3) by (intro exI[of _ "say_sent rr s3"]) simp
  next
    case True
    obtain m where md: "m = ?n - length strEnd" by blast
    have m: "m \<le> 310" "m \<le> ?n" using assms(6) True md by (simp_all add: WIOTA_TRANS_MAX_LEN_def)
    have le': "line_end ?b (?n + 2) strEnd = Some (m, True, False)" using le True md by simp
    have len: "length strEnd \<le> ?n" using True by (rule suffix_length_le)
    obtain rr s3 where s3: "uc_wiota_send_data e ?b (of_nat m) timeout ?s2 = (rr, s3)" "sends [take m l] s (say_sent rr s3)"
        "pending text (hist (say_sent rr s3)) = rst"
      using snd[OF m(2,1)] by blast
    let ?s' = "if m = 0 then ?s2 else say_sent rr s3"
    have "trans_step e timeout strEnd (l @ 13 # drop (?n + 1) ?Z) (?n + 1) ?s1 = Some ((?Z, 0, False), ?s')"
      using c w le' m s3(1) by (simp add: trans_step_def Let_def WIOTA_TRANS_MAX_LEN_def)
    then have "trans_loop e timeout strEnd ?Z 0 s = Some ?s'" unfolding r by (subst trans_loop.simps) simp
    moreover have z: "?n = length strEnd \<longleftrightarrow> m = 0" using len md by linarith
    moreover have "pending text (hist ?s') = rst" "sends (if m = 0 then [] else [take m l]) s ?s'"
      using s3(2,3) sd p by (cases "m = 0"; simp)+
    ultimately show ?thesis unfolding if_P[OF True] md[symmetric] z by blast
  qed
qed

lemma trans_lines:
  assumes "host_types e text" "strEnd \<noteq> []" "length strEnd \<le> 8" "10 \<notin> set strEnd"
    "10 \<notin> set final" "length final \<le> WIOTA_TRANS_MAX_LEN"
  shows "(\<And>l. l \<in> set lines \<Longrightarrow> l \<noteq> [] \<and> length l \<le> WIOTA_TRANS_MAX_LEN \<and> 10 \<notin> set l \<and> \<not> suffix strEnd l) \<Longrightarrow>
    pending text (hist s) = concat (map (\<lambda>l. l @ [13, 10]) lines) @ (final @ strEnd) @ [13, 10] @ rst \<Longrightarrow>
    \<exists>s'. trans_loop e timeout strEnd (replicate WIOTA_TRANS_BUFF 0) 0 s = Some s' \<and>
      sends (lines @ (if final = [] then [] else [final])) s s' \<and> pending text (hist s') = rst"
proof (induction lines arbitrary: s)
  case Nil
  have x: "suffix strEnd (final @ strEnd)" "10 \<notin> set (final @ strEnd)" "final @ strEnd \<noteq> []"
    using assms(2,4,5) by (simp_all add: suffix_def)
  have "length (final @ strEnd) \<le> WIOTA_TRANS_MAX_LEN + (if suffix strEnd (final @ strEnd) then length strEnd else 0)"
    using assms(6) x(1) by simp
  moreover have "pending text (hist s) = (final @ strEnd) @ [13, 10] @ rst" using Nil.prems(2) by simp
  ultimately show ?case
    using trans_line[OF assms(1-3) x(2,3), of s rst timeout] x(1) by (auto simp: suffix_def)
next
  case (Cons l ls)
  have l: "l \<noteq> []" "length l \<le> WIOTA_TRANS_MAX_LEN + (if suffix strEnd l then length strEnd else 0)" "10 \<notin> set l"
      "\<not> suffix strEnd l"
    using Cons.prems(1)[of l] by auto
  have p: "pending text (hist s) = l @ [13, 10] @ (concat (map (\<lambda>l. l @ [13, 10]) ls) @ (final @ strEnd) @ [13, 10] @ rst)"
    using Cons.prems(2) by simp
  obtain s1 where s1: "pending text (hist s1) = concat (map (\<lambda>l. l @ [13, 10]) ls) @ (final @ strEnd) @ [13, 10] @ rst"
      "sends [l] s s1"
      "trans_loop e timeout strEnd (replicate WIOTA_TRANS_BUFF 0) 0 s = trans_loop e timeout strEnd (replicate WIOTA_TRANS_BUFF 0) 0 s1"
    using trans_line[OF assms(1-3) l(3,1,2) p, of timeout] l(4) by auto
  obtain s' where s': "trans_loop e timeout strEnd (replicate WIOTA_TRANS_BUFF 0) 0 s1 = Some s'"
      "sends (ls @ (if final = [] then [] else [final])) s1 s'" "pending text (hist s') = rst"
    using Cons.IH[OF _ s1(1)] Cons.prems(1) by auto
  show ?case using s1(3) s' sends_trans[OF s1(2) s'(2)] by (intro exI[of _ s']) simp
qed

section \<open>The mode\<close>

text \<open>C39. The buffer of the transmission mode. From the empty buffer, and for whatever the host types, no
  round of the mode reads or writes outside the 321 bytes of its buffer, with any end string of one
  to eight characters: the index of the next character stays at most 312 and the length of the end
  string behind. A round sends at most one packet, of 1 to 310 bytes, and keeps the heap as it is.
\<close>

theorem trans_in_bounds:
  assumes "host_types e text" "strEnd \<noteq> []" "length strEnd \<le> WIOTA_TRANS_END_STRING_MAX" "length buf = WIOTA_TRANS_BUFF"
    "n \<le> WIOTA_TRANS_MAX_LEN + length strEnd + 2"
  shows "\<exists>buf' n' run s' bs. trans_step e timeout strEnd buf n s = Some ((buf', n', run), s') \<and>
    length buf' = WIOTA_TRANS_BUFF \<and> n' \<le> WIOTA_TRANS_MAX_LEN + length strEnd + 2 \<and>
    sent (hist s') = sent (hist s) @ bs \<and> live (hist s') = live (hist s) \<and>
    length bs \<le> 1 \<and> (\<forall>b \<in> set bs. 0 < length b \<and> length b \<le> WIOTA_TRANS_MAX_LEN)"
proof -
  have "length strEnd \<le> 8" using assms(3) by (simp add: WIOTA_TRANS_END_STRING_MAX_def)
  then show ?thesis using trans_safe[OF assms(1,2) _ assms(4,5), of timeout s] unfolding sends_def by blast
qed

theorem trans_in_bounds_witness:
  "\<exists>buf' n' run s'. trans_step (typing [65]) 100 (replicate 8 69) (replicate WIOTA_TRANS_BUFF 0) 320 running_at =
     Some ((buf', n', run), s') \<and> length buf' = 321 \<and> n' \<le> 320"
  using trans_in_bounds[OF typing_types, of "replicate 8 69" "replicate WIOTA_TRANS_BUFF 0" 320 "[65]" 100 running_at]
  by (auto simp: WIOTA_TRANS_MAX_LEN_def WIOTA_TRANS_BUFF_def WIOTA_TRANS_END_STRING_MAX_def)

text \<open>C8. The transmission mode. The host types lines of 1 to 310 characters, none of which ends with the
  end string, and a last line that does. The mode then returns, having sent exactly these lines as
  packets, in their order and without their ends, and what stands before the end string on the last
  line if that is not empty; everything the host types behind that is thrown away, and the memory of
  the mode is given back.
\<close>

theorem transmission_mode:
  assumes "host_types e text" "e_malloc e (hist s) WIOTA_TRANS_BUFF" "heap_ok (hist s)"
    "strEnd \<noteq> []" "length strEnd \<le> WIOTA_TRANS_END_STRING_MAX" "10 \<notin> set strEnd"
    "10 \<notin> set final" "length final \<le> WIOTA_TRANS_MAX_LEN"
    "\<And>l. l \<in> set lines \<Longrightarrow> l \<noteq> [] \<and> length l \<le> WIOTA_TRANS_MAX_LEN \<and> 10 \<notin> set l \<and> \<not> suffix strEnd l"
    "pending text (hist s) = concat (map (\<lambda>l. l @ [13, 10]) lines) @ (final @ strEnd) @ [13, 10] @ rst"
  shows "\<exists>s'. at_wiotatrans_process e timeout strEnd s = Some (AT_RESULT_OK, s') \<and>
    sent (hist s') = sent (hist s) @ lines @ (if final = [] then [] else [final]) \<and>
    live (hist s') = live (hist s) \<and> pending text (hist s') = []"
proof -
  have l8: "length strEnd \<le> 8" using assms(5) by (simp add: WIOTA_TRANS_END_STRING_MAX_def)
  let ?p = "length (hist s)" and ?t = "if timeout = 0 then WIOTA_SEND_TIMEOUT else ucast timeout"
  let ?s1 = "at_say ''Enter transmission mode >'' [] (emit (C_malloc ?p WIOTA_TRANS_BUFF) s)"
  have p: "pending text (hist ?s1) = concat (map (\<lambda>l. l @ [13, 10]) lines) @ (final @ strEnd) @ [13, 10] @ rst"
    using assms(10) by simp
  obtain s2 where s2: "trans_loop e ?t strEnd (replicate WIOTA_TRANS_BUFF 0) 0 ?s1 = Some s2"
      "sends (lines @ (if final = [] then [] else [final])) ?s1 s2" "pending text (hist s2) = rst"
    using trans_lines[OF assms(1,4) l8 assms(6-9) p] by blast
  obtain s3 where s3: "discard e s2 = Some s3" "sends [] s2 s3" "pending text (hist s3) = []"
    using discard_sends[OF assms(1)] by blast
  have "live (hist s3) = ?p # live (hist s)" "sent (hist s3) = sent (hist s) @ lines @ (if final = [] then [] else [final])"
    using s2(2) s3(2) by (simp_all add: sends_def)
  then show ?thesis
    using s2(1) s3(1,3) assms(2-4) fresh_not_live[OF assms(3)]
    by (simp add: at_wiotatrans_process_def rt_malloc_def Let_def)
qed

theorem transmission_mode_witness:
  "\<exists>s'. at_wiotatrans_process (typing ([72, 105, 13, 10] @ [66, 69, 79, 70, 13, 10, 65])) 0 [69, 79, 70] running_at = Some (AT_RESULT_OK, s') \<and>
     sent (hist s') = [[72, 105], [66]]"
proof -
  let ?t = "[72, 105, 13, 10] @ [66, 69, 79, 70, 13, 10, 65 :: u8]"
  have p: "pending ?t (hist running_at) = concat (map (\<lambda>l. l @ [13, 10]) [[72, 105]]) @ ([66] @ [69, 79, 70]) @ [13, 10] @ [65]"
    by (simp add: pending_def)
  have h: "e_malloc (typing ?t) (hist running_at) WIOTA_TRANS_BUFF" "heap_ok (hist running_at)" "[69, 79, 70 :: u8] \<noteq> []"
      "length [69, 79, 70 :: u8] \<le> WIOTA_TRANS_END_STRING_MAX" "10 \<notin> set [69, 79, 70 :: u8]" "10 \<notin> set [66 :: u8]"
      "length [66 :: u8] \<le> WIOTA_TRANS_MAX_LEN"
    by (simp_all add: WIOTA_TRANS_END_STRING_MAX_def WIOTA_TRANS_MAX_LEN_def)
  have l: "l \<noteq> [] \<and> length l \<le> WIOTA_TRANS_MAX_LEN \<and> 10 \<notin> set l \<and> \<not> suffix [69, 79, 70] l" if "l \<in> set [[72, 105 :: u8]]" for l
    using that by (simp add: WIOTA_TRANS_MAX_LEN_def suffix_def)
  show ?thesis using transmission_mode[OF typing_types h l p, of 0] by auto
qed

section \<open>Sending a number of bytes\<close>

lemma send_chars_typed:
  assumes "host_types e text"
  shows "pending text (hist s) = cs @ rst \<Longrightarrow>
    send_chars e (length cs) False mem s = (Some (mem @ cs), s\<lparr>hist := replicate (length cs) (C_at At_get_char) @ hist s\<rparr>)"
proof (induction cs arbitrary: mem s)
  case (Cons c cs)
  have "e_get_char e (C_at At_get_char # hist s) = Some c" using next_char[OF assms, of "hist s"] Cons.prems by simp
  then show ?case
    using Cons.IH[of "emit (C_at At_get_char) s" "mem @ [c]"] Cons.prems by (simp add: Let_def emit_def replicate_app_Cons_same)
qed simp

text \<open>AT+WIOTASEND with a length of at least two. When the host types that many characters, they are
  handed to the radio as one packet - but only the first (length mod 2^16) of them, because the
  library takes the length in 16 bits - the result says whether the transmission succeeded, and the
  block is given back.
\<close>

lemma wiotasend_packet:
  assumes "host_types e text" "\<And>h k. e_malloc e h k" "heap_ok (hist s)" "2 \<le> sint len" "length cs = unat len"
    "pending text (hist s) = cs @ rst"
  shows "\<exists>r s' h. at_wiotasend_handle_data e timeout len False False s = ((r, None), s') \<and>
    sent (hist s') = sent (hist s) @ [take (unat len mod 65536) cs] \<and>
    (r = AT_RESULT_OK \<longleftrightarrow> e_send_data e h = UC_OP_SUCC) \<and>
    suffix h (hist s') \<and> sent h = sent (hist s') \<and>
    live (hist s') = live (hist s) \<and> pending text (hist s') = rst"
proof -
  let ?p = "length (hist s)" and ?t = "if sint timeout > 0 then timeout else WIOTA_SEND_TIMEOUT"
  let ?s1 = "at_say ''>'' [] (emit (C_malloc ?p (unat (len + CRC16_LEN))) s)"
  let ?s2 = "?s1\<lparr>hist := replicate (unat len) (C_at At_get_char) @ hist ?s1\<rparr>"
  have c: "send_chars e (unat len) False [] ?s1 = (Some cs, ?s2)"
    using send_chars_typed[OF assms(1), of ?s1 cs rst "[]"] assms(5,6) by simp
  have len0: "cs \<noteq> []" using assms(4,5) by (cases "len = 0") (auto simp: unat_eq_0)
  have n: "unat (ucast (of_nat (unat len) :: u32) :: u16) = unat len mod 65536"
    by (simp add: unsigned_ucast_eq take_bit_eq_mod)
  obtain r s3 where u: "uc_wiota_send_data e cs (of_nat (unat len)) ?t ?s2 = (r, s3)"
    by (cases "uc_wiota_send_data e cs (of_nat (unat len)) ?t ?s2")
  let ?m = "ucast (of_nat (unat len) :: u32) :: u16"
  let ?h = "C_wiota (W_send_data (take (unat len mod 65536) cs) ?m (ucast ?t)) # hist ?s2"
  have s3: "hist s3 = ?h" "r = e_send_data e ?h"
    using u n by (auto simp: uc_wiota_send_data_def Let_def)
  have "at_wiotasend_handle_data e timeout len False False s =
      ((if r = UC_OP_SUCC then AT_RESULT_OK else AT_RESULT_NULL, None), say_sent r (rt_free (Some ?p) s3))"
    using c u assms(2,4,5) len0 by (simp add: at_wiotasend_handle_data_def rt_malloc_def Let_def)
  moreover have "hist (say_sent r (rt_free (Some ?p) s3)) =
      C_at (At_println (case r of UC_OP_SUCC \<Rightarrow> ''SEND SUCC'' | UC_OP_TIMEOUT \<Rightarrow> ''SEND TOUT'' | UC_OP_FAIL \<Rightarrow> ''SEND FAIL'') []) #
      C_free ?p # ?h"
    using s3(1) by (simp add: say_sent_def)
  ultimately show ?thesis
    using s3(2) fresh_not_live[OF assms(3)] assms(5,6)
    by (intro exI[of _ "if r = UC_OP_SUCC then AT_RESULT_OK else AT_RESULT_NULL"] exI[of _ "say_sent r (rt_free (Some ?p) s3)"]
        exI[of _ ?h]) (auto simp: suffix_def)
qed

lemma wiotasend_packet_witness:
  "\<exists>r s'. at_wiotasend_handle_data (typing [72, 105, 33]) 100 2 False False running_at = ((r, None), s') \<and>
     sent (hist s') = [[72, 105]] \<and> live (hist s') = []"
proof -
  have h: "heap_ok (hist running_at)" "2 \<le> sint (2 :: u32)" "length [72, 105 :: u8] = unat (2 :: u32)"
      "pending [72, 105, 33] (hist running_at) = [72, 105] @ [33]"
    by (simp_all add: pending_def)
  show ?thesis using wiotasend_packet[OF typing_types typing_env(1) h, of 100] by auto
qed

end
