(* ===== verification/AtRadio.thy ===== *)
theory AtRadio
  imports AtScan AtTrans QuickConnectInv
begin

text \<open>
  The AT commands of \<^verbatim>\<open>PS/at/at_wiota.c\<close> that start, run, configure and leave the radio, and what the
  AT server makes of received data. Their state is that of the AT server with quick connect beside
  it; the two share the variable \<^verbatim>\<open>wiota_state\<close>, which is kept with the connection manager.

  A command gets the values that \<^verbatim>\<open>parse\<close> leaves in its variables, or \<open>None\<close> when it reports an error;
  a command that does not look at the error gets the values.
\<close>

section \<open>State\<close>

record at_radio = at_srv +
  at_qc :: qc

lemma at_radio_fields [simp]:
  "hist (at_qc_update qf s) = hist s" "at_gw (at_qc_update qf s) = at_gw s" "at_gpio (at_qc_update qf s) = at_gpio s"
  "at_mgr (at_qc_update qf s) = at_mgr s" "at_qc (hist_update hf s) = at_qc s" "at_qc (at_mgr_update mf s) = at_qc s"
  "at_qc (at_gpio_update gf s) = at_qc s"
  for s :: at_radio
  by (cases s; simp)+

definition init_radio :: at_radio where
  "init_radio = at_srv.extend init_at \<lparr>at_qc = init_qc\<rparr>"

definition at_state :: "'a at_srv_scheme \<Rightarrow> at_wiota_state" where
  "at_state s = wiota_state (at_mgr s)"

definition on_qc :: "(qc \<Rightarrow> ('a \<times> qc) option) \<Rightarrow> at_radio \<Rightarrow> ('a \<times> at_radio) option" where
  "on_qc f s =
     do { (x, q) \<leftarrow> f ((at_qc s)\<lparr>hist := hist s, qc_at_state := at_state s\<rparr>);
          Some (x, set_at_state (qc_at_state q) (s\<lparr>hist := hist q, at_qc := q\<rparr>)) }"

definition on_mgr :: "(mgr \<Rightarrow> mgr) \<Rightarrow> 'a at_srv_scheme \<Rightarrow> 'a at_srv_scheme" where
  "on_mgr f s = (let m = f ((at_mgr s)\<lparr>hist := hist s\<rparr>) in s\<lparr>hist := hist m, at_mgr := m\<rparr>)"

text \<open>A function of the library, and whether its result is true.\<close>

definition lib :: "string \<Rightarrow> int list \<Rightarrow> 'a sys_scheme \<Rightarrow> 'a sys_scheme" where
  "lib f xs s = emit (C_lib (Lib f xs)) s"

definition lib_ok :: "env \<Rightarrow> string \<Rightarrow> int list \<Rightarrow> 'a sys_scheme \<Rightarrow> bool \<times> 'a sys_scheme" where
  "lib_ok e f xs s = (let s = lib f xs s in (e_lib e (hist s) f \<noteq> 0, s))"

section \<open>The automatic connection\<close>

definition at_auto_connect_query :: "env \<Rightarrow> 'a sys_scheme \<Rightarrow> at_result \<times> 'a sys_scheme" where
  "at_auto_connect_query e s = (AT_RESULT_OK, at_say ''+AUTOCONNECT'' [of_bool (e_auto_connect e (hist s))] s)"

definition MODULE_STATE_RUN :: int where "MODULE_STATE_RUN = 2"

text \<open>The command ends in a reset of the device.\<close>

definition at_auto_connect_setup :: "env \<Rightarrow> u32 option \<Rightarrow> at_radio \<Rightarrow> (at_result \<times> at_radio) option" where
  "at_auto_connect_setup e args s =
     (case args of
        None \<Rightarrow> Some (AT_RESULT_PARSE_FAILE, s)
      | Some value \<Rightarrow>
          if sint value < 0 \<or> sint value > 1 then Some (AT_RESULT_PARSE_FAILE, s)
          else
            do { let s = on_mgr at_wiota_manager_suspend (lib ''uc_wiota_set_auto_connect'' [uint (and value 1)] s);
                 s \<leftarrow> (if e_lib e (hist s) ''uc_wiota_execute_state'' = MODULE_STATE_RUN then
                         do { (_, s) \<leftarrow> on_qc (\<lambda>q. map_option (Pair ()) (clr_qc_auto_run q)) (emit (C_wiota W_exit) s); Some s }
                       else Some (emit (C_wiota W_save_static_info) s));
                 Some (AT_RESULT_OK, emit (C_boot B_reset_8288) (at_say ''OK'' [] s)) })"

section \<open>Starting and leaving\<close>

definition at_wiota_init_exec :: "env \<Rightarrow> 'a at_srv_scheme \<Rightarrow> at_result \<times> 'a at_srv_scheme" where
  "at_wiota_init_exec e s =
     (if e_auto_connect e (hist s) then (AT_RESULT_REFUSED, s)
      else if at_state s = AT_WIOTA_DEFAULT \<or> at_state s = AT_WIOTA_EXIT
      then (AT_RESULT_OK, set_at_state AT_WIOTA_INIT (emit (C_wiota W_init) s))
      else (AT_RESULT_REPETITIVE_FAILE, s))"

definition at_wiota_cfun_setup :: "env \<Rightarrow> u32 option \<Rightarrow> at_radio \<Rightarrow> (at_result \<times> at_radio) option" where
  "at_wiota_cfun_setup e args s =
     (if e_auto_connect e (hist s) then Some (AT_RESULT_REFUSED, s)
      else
        (case args of
           None \<Rightarrow> Some (AT_RESULT_PARSE_FAILE, s)
         | Some state \<Rightarrow>
             if state = 1 \<and> at_state s = AT_WIOTA_INIT then
               (let s = emit (C_wiota W_run) s;
                    s = emit (C_setup (S_register_recv_cb CB_wiota_recv)) (emit (C_setup (S_register_recv_cb CB_wiota_recv)) s)
                in Some (AT_RESULT_OK, set_at_state AT_WIOTA_RUN s))
             else if state = 0 \<and> at_state s = AT_WIOTA_RUN then
               do { (_, s) \<leftarrow> on_qc (\<lambda>q. map_option (Pair ()) (clr_qc_auto_run q)) (emit (C_wiota W_exit) s);
                    Some (AT_RESULT_OK, set_at_state AT_WIOTA_EXIT s) }
             else Some (AT_RESULT_REPETITIVE_FAILE, s)))"

definition at_wiota_quick_start :: "env \<Rightarrow> (u8 \<times> u16 \<times> nat) option \<Rightarrow> at_radio \<Rightarrow> (int \<times> at_radio) option" where
  "at_wiota_quick_start e args s =
     (case args of
        None \<Rightarrow> Some (-5, s)
      | Some (onoff, f, mode) \<Rightarrow>
          (let s = emit (C_wiota (W_set_freq_info (ucast f))) s
           in if \<not> e_set_freq_ok e (hist s) then Some (-4, s)
              else if mode < QC_MODE_MAX \<and> onoff = 1 then on_qc (wiota_quick_connect_start e f mode) s
              else if mode < QC_MODE_MAX \<and> onoff = 0 then on_qc wiota_quick_connect_stop s
              else Some (-1, s)))"

section \<open>Connecting\<close>

definition at_connect_query :: "env \<Rightarrow> 'a sys_scheme \<Rightarrow> at_result \<times> 'a sys_scheme" where
  "at_connect_query e s =
     (let (st, s) = ask Q_state (e_state e) s
      in (AT_RESULT_OK,
          at_say ''+WIOTACONNECT''
            [case st of UC_STATUS_NULL \<Rightarrow> 0 | UC_STATUS_SYNC \<Rightarrow> 1 | UC_STATUS_SYNC_LOST \<Rightarrow> 2 | UC_STATUS_ERROR \<Rightarrow> 3,
             uint (e_active_time e (hist s))] s))"

definition at_connect_setup :: "env \<Rightarrow> (u32 \<times> u32) option \<Rightarrow> 'a at_srv_scheme \<Rightarrow> at_result \<times> 'a at_srv_scheme" where
  "at_connect_setup e args s =
     (if e_auto_connect e (hist s) then (AT_RESULT_REFUSED, s)
      else
        (case args of
           None \<Rightarrow> (AT_RESULT_PARSE_FAILE, s)
         | Some (state, timeout) \<Rightarrow>
             if at_state s \<noteq> AT_WIOTA_RUN then (AT_RESULT_REPETITIVE_FAILE, s)
             else
               (let s = (if sint timeout \<ge> 0 then emit (C_wiota (W_set_active_time timeout)) s else s)
                in (AT_RESULT_OK,
                    if state = 1 then emit (C_wiota W_connect) s
                    else if state = 2 then emit (C_setup (S_connect_quick 0)) s
                    else if state = 3 then emit (C_setup (S_connect_quick 1)) s
                    else lib ''uc_wiota_disconnect'' [] s))))"

section \<open>Configuration\<close>

definition at_freq_query :: "env \<Rightarrow> 'a sys_scheme \<Rightarrow> at_result \<times> 'a sys_scheme" where
  "at_freq_query e s = (AT_RESULT_OK, at_say ''+WIOTAFREQ'' [uint (e_freq_info e (hist s))] s)"

definition at_freq_setup :: "env \<Rightarrow> u32 option \<Rightarrow> 'a at_srv_scheme \<Rightarrow> at_result \<times> 'a at_srv_scheme" where
  "at_freq_setup e args s =
     (if e_auto_connect e (hist s) then (AT_RESULT_REFUSED, s)
      else if at_state s \<noteq> AT_WIOTA_INIT \<and> at_state s \<noteq> AT_WIOTA_RUN then (AT_RESULT_REPETITIVE_FAILE, s)
      else
        (case args of
           None \<Rightarrow> (AT_RESULT_PARSE_FAILE, s)
         | Some f \<Rightarrow>
             if sint f > 255 \<or> sint f < 0 then (AT_RESULT_PARSE_FAILE, s)
             else
               (let s = emit (C_wiota (W_set_freq_info (ucast f))) s
                in (if e_set_freq_ok e (hist s) then AT_RESULT_OK else AT_RESULT_FAILE, s))))"

definition at_dcxo_query :: "env \<Rightarrow> 'a sys_scheme \<Rightarrow> at_result \<times> 'a sys_scheme" where
  "at_dcxo_query e s = (AT_RESULT_OK, at_say ''+WIOTADCXO'' [e_lib e (hist s) ''uc_wiota_get_dcxo''] s)"

definition at_dcxo_setup :: "env \<Rightarrow> u32 option \<Rightarrow> 'a at_srv_scheme \<Rightarrow> at_result \<times> 'a at_srv_scheme" where
  "at_dcxo_setup e args s =
     (if e_auto_connect e (hist s) then (AT_RESULT_REFUSED, s)
      else if at_state s \<noteq> AT_WIOTA_INIT then (AT_RESULT_REPETITIVE_FAILE, s)
      else
        (case args of
           None \<Rightarrow> (AT_RESULT_PARSE_FAILE, s)
         | Some dcxo \<Rightarrow>
             (let (ok, s) = lib_ok e ''uc_wiota_set_dcxo'' [uint dcxo] s
              in (if ok then AT_RESULT_OK else AT_RESULT_PARSE_FAILE, s))))"

definition at_userid_query :: "env \<Rightarrow> 'a sys_scheme \<Rightarrow> at_result \<times> 'a sys_scheme" where
  "at_userid_query e s = (AT_RESULT_OK, at_say ''+WIOTAUSERID'' [uint (e_userid e (hist s))] s)"

definition at_userid_setup :: "env \<Rightarrow> u32 option \<Rightarrow> 'a at_srv_scheme \<Rightarrow> at_result \<times> 'a at_srv_scheme" where
  "at_userid_setup e args s =
     (if e_auto_connect e (hist s) then (AT_RESULT_REFUSED, s)
      else if at_state s \<noteq> AT_WIOTA_INIT \<and> at_state s \<noteq> AT_WIOTA_RUN then (AT_RESULT_REPETITIVE_FAILE, s)
      else
        (case args of
           None \<Rightarrow> (AT_RESULT_PARSE_FAILE, s)
         | Some userid \<Rightarrow>
             (let s = emit (C_wiota (W_set_userid userid 4)) s
              in (if e_lib e (hist s) ''uc_wiota_set_userid'' \<noteq> 0 then AT_RESULT_PARSE_FAILE else AT_RESULT_OK, s))))"

definition at_dev_addr_setup :: "u32 option \<Rightarrow> 'a sys_scheme \<Rightarrow> at_result \<times> 'a sys_scheme" where
  "at_dev_addr_setup args s =
     (case args of
        None \<Rightarrow> (AT_RESULT_PARSE_FAILE, s)
      | Some dev_addr \<Rightarrow> (AT_RESULT_OK, lib ''uc_wiota_set_dev_addr'' [uint dev_addr] s))"

definition at_dev_addr_query :: "env \<Rightarrow> 'a sys_scheme \<Rightarrow> (at_result \<times> 'a sys_scheme) option" where
  "at_dev_addr_query e s =
     do { a \<leftarrow> rd32 (e_dev_serial e (hist s)) 4; Some (AT_RESULT_OK, at_say ''+WIOTADEVADDRESS'' [uint a] s) }"

text \<open>The temperature is a reading of the converter, or 0 when the device has none.\<close>

definition at_temp_query :: "env \<Rightarrow> 'a sys_scheme \<Rightarrow> int \<times> 'a sys_scheme" where
  "at_temp_query e s =
     (if e_lib e (hist s) ''rt_device_find'' = 0 then (0, s)
      else (let s = lib ''rt_adc_read'' [] (lib ''rt_adc_enable'' [] s) in (e_lib e (hist s) ''rt_adc_read'', s)))"

definition at_radio_query :: "env \<Rightarrow> 'a at_srv_scheme \<Rightarrow> at_result \<times> 'a at_srv_scheme" where
  "at_radio_query e s =
     (if at_state s \<noteq> AT_WIOTA_RUN then (AT_RESULT_FAILE, s)
      else
        (let (temp, s) = at_temp_query e s; r = e_radio_info e (hist s); info = e_lib_info e (hist s) ''uc_wiota_get_radio_info''
         in (AT_RESULT_OK,
             at_say ''+WIOTARADIO''
               ([temp, - uint (ri_rssi r)] @ take 1 info @
                [sint (ri_snr r), sint (ri_cur_power r), sint (ri_min_power r), sint (ri_max_power r), uint (ri_cur_mcs r),
                 uint (ri_max_mcs r)] @ drop 1 info) s)))"

definition at_system_config_query :: "env \<Rightarrow> 'a sys_scheme \<Rightarrow> at_result \<times> 'a sys_scheme" where
  "at_system_config_query e s =
     (let c = e_system_config e (hist s)
      in (AT_RESULT_OK,
          at_say ''+WIOTACONFIG''
            [uint (cfg_ap_tx_power c), uint (cfg_id_len c), uint (cfg_symbol_length c), uint (cfg_dlul_ratio c),
             uint (cfg_btvalue c), uint (cfg_group_number c), uint (cfg_spectrum_idx c), uint (cfg_old_subsys_v c),
             uint (cfg_bitscb c), uint (cfg_subsystemid c)] s))"

text \<open>The power is given with an offset of 20, because \<^verbatim>\<open>parse\<close> reads no negative numbers.\<close>

definition at_system_config_setup ::
  "env \<Rightarrow> (u32 \<times> u32 \<times> u32 \<times> u32 \<times> u32 \<times> u32 \<times> u32 \<times> u32 \<times> u32 \<times> u32) option \<Rightarrow> 'a at_srv_scheme \<Rightarrow> at_result \<times> 'a at_srv_scheme"
where
  "at_system_config_setup e args s =
     (if e_auto_connect e (hist s) then (AT_RESULT_REFUSED, s)
      else if at_state s \<noteq> AT_WIOTA_INIT \<and> at_state s \<noteq> AT_WIOTA_RUN then (AT_RESULT_REPETITIVE_FAILE, s)
      else
        (case args of
           None \<Rightarrow> (AT_RESULT_PARSE_FAILE, s)
         | Some (t0, t1, t2, t3, t4, t5, t6, t7, t8, subsys) \<Rightarrow>
             (let c = (e_system_config e (hist s))
                    \<lparr>cfg_ap_tx_power := ucast (t0 - 20), cfg_id_len := ucast t1, cfg_symbol_length := ucast t2,
                     cfg_dlul_ratio := ucast t3, cfg_btvalue := ucast t4, cfg_group_number := ucast t5,
                     cfg_spectrum_idx := ucast t6, cfg_old_subsys_v := ucast t7, cfg_bitscb := ucast t8,
                     cfg_subsystemid := subsys, cfg_pp := 1\<rparr>;
                  s = emit (C_wiota (W_set_system_config c)) s
              in (if e_lib e (hist s) ''uc_wiota_set_system_config'' \<noteq> 0 then AT_RESULT_OK else AT_RESULT_FAILE, s))))"

section \<open>Received data\<close>

definition UC_RECV_SCAN_FREQ :: u8 where "UC_RECV_SCAN_FREQ = 6"
definition UC_RECV_SYNC_LOST :: u8 where "UC_RECV_SYNC_LOST = 7"
definition UC_RECV_IDLE_PAGING :: u8 where "UC_RECV_IDLE_PAGING = 8"
definition UC_RECV_PG_TX_DONE :: u8 where "UC_RECV_PG_TX_DONE = 10"
definition UC_RECV_FN_CHANGE :: u8 where "UC_RECV_FN_CHANGE = 11"
definition UC_RECV_PHY_ERROR :: u8 where "UC_RECV_PHY_ERROR = 12"

definition recv_data_bytes :: "recv_back \<Rightarrow> u8 list" where
  "recv_data_bytes d = (case rb_data d of None \<Rightarrow> [] | Some (p, mem) \<Rightarrow> take (unat (rb_data_len d)) mem)"

definition show_received :: "env \<Rightarrow> recv_back \<Rightarrow> 'a sys_scheme \<Rightarrow> 'a sys_scheme option" where
  "show_received e d s =
     (if rb_type d < UC_RECV_SCAN_FREQ then
        Some (at_say '''' [] (emit (C_at (At_send (recv_data_bytes d)))
          (at_say ''+WIOTARECV'' [uint (rb_type d), uint (rb_data_len d)] s)))
      else if rb_type d = UC_RECV_SYNC_LOST then Some (at_say ''+WIOTASYNC,LOST'' [] s)
      else if rb_type d = UC_RECV_IDLE_PAGING then Some (at_say ''+WIOTAPGIDLE,RECV'' [] s)
      else if rb_type d = UC_RECV_PG_TX_DONE then Some (at_say ''+WIOTAPGTX,DONE'' [] s)
      else if rb_type d = UC_RECV_FN_CHANGE then
        (if e_lib e (hist s) ''uc_wiota_get_is_report_fn'' \<noteq> 0 then
           do { (p, mem) \<leftarrow> rb_data d; fn \<leftarrow> rd32 mem 0; Some (at_say ''+WIOTAFN'' [uint fn] s) }
         else Some s)
      else if rb_type d = UC_RECV_PHY_ERROR then Some (at_say ''+WIOTAPHY,ERROR'' [] s)
      else Some s)"

text \<open>The data of a failed reception is not looked at.\<close>

definition wiota_recv_callback :: "env \<Rightarrow> op_result \<Rightarrow> recv_back \<Rightarrow> 'a at_srv_scheme \<Rightarrow> 'a at_srv_scheme option" where
  "wiota_recv_callback e result d s =
     (if result \<noteq> UC_OP_SUCC then Some s
      else if wiota_gpio_mode (at_gpio s) = WIOTA_MODE_OUT_UART then
        do { s \<leftarrow> show_received e d s; Some (rt_free (map_option fst (rb_data d)) s) }
      else on_gpio (wiota_data_insert e d) s)"

definition WIOTA_WAIT_DATA_TIMEOUT :: u16 where "WIOTA_WAIT_DATA_TIMEOUT = 10000"

definition recv_and_show :: "env \<Rightarrow> u16 \<Rightarrow> 'a sys_scheme \<Rightarrow> at_result \<times> 'a sys_scheme" where
  "recv_and_show e timeout s =
     (let s = emit (C_wiota (W_recv_data timeout)) s
      in case e_recv_data e (hist s) of
           (UC_OP_SUCC, type, data) \<Rightarrow>
             (let p = length (hist s);
                  s = emit (C_malloc p (length data)) s;
                  s = (if type < UC_RECV_SCAN_FREQ then at_say ''+WIOTARECV'' [uint type, int (length data)] s
                       else if type = UC_RECV_SYNC_LOST then at_say ''+WIOTASYNC,LOST'' [] s else s);
                  s = at_say '''' [] (emit (C_at (At_send data)) s)
              in (AT_RESULT_OK, rt_free (Some p) s))
         | _ \<Rightarrow> (AT_RESULT_FAILE, s))"

definition at_wiotarecv_setup :: "env \<Rightarrow> u16 option \<Rightarrow> 'a at_srv_scheme \<Rightarrow> at_result \<times> 'a at_srv_scheme" where
  "at_wiotarecv_setup e args s =
     (if at_state s = AT_WIOTA_DEFAULT then (AT_RESULT_FAILE, s)
      else
        (case args of
           None \<Rightarrow> (AT_RESULT_PARSE_FAILE, s)
         | Some timeout \<Rightarrow> recv_and_show e (if timeout < 1 then WIOTA_WAIT_DATA_TIMEOUT else timeout) s))"

definition at_wiota_recv_exec :: "env \<Rightarrow> 'a at_srv_scheme \<Rightarrow> at_result \<times> 'a at_srv_scheme" where
  "at_wiota_recv_exec e s =
     (if at_state s = AT_WIOTA_DEFAULT then (AT_RESULT_FAILE, s) else recv_and_show e WIOTA_WAIT_DATA_TIMEOUT s)"

section \<open>Low power\<close>

text \<open>
  The result of \<^verbatim>\<open>parse\<close> is not looked at; the modes are those of \<^verbatim>\<open>enum at_wiota_lpm\<close>. Before the device
  sleeps, it waits until the line is written.
\<close>

definition say_and_wait :: "'a sys_scheme \<Rightarrow> 'a sys_scheme" where
  "say_and_wait s = lib ''uart_wait_tx_done'' [] (at_say ''OK'' [] s)"

definition at_result_if :: "bool \<Rightarrow> at_result" where
  "at_result_if ok = (if ok then AT_RESULT_OK else AT_RESULT_FAILE)"

definition at_wiotalpm_setup :: "env \<Rightarrow> u32 \<times> u32 \<times> u32 \<Rightarrow> 'a at_srv_scheme \<Rightarrow> at_result \<times> 'a at_srv_scheme" where
  "at_wiotalpm_setup e args s =
     (let (mode, v, v2) = args; b = uint (ucast v :: u8); b2 = uint (ucast v2 :: u8)
      in if mode = 0 then (AT_RESULT_OK, lib ''uc_wiota_sleep_enter'' [b, b2] (say_and_wait s))
         else if mode = 1 then (AT_RESULT_OK, lib ''uc_wiota_paging_rx_enter'' [b, uint v2] (say_and_wait s))
         else if mode = 3 then (AT_RESULT_OK, lib ''uc_wiota_set_alarm_time'' [uint v] s)
         else if mode = 2 then (AT_RESULT_OK, lib ''uc_wiota_set_is_gating'' [b, b2] s)
         else if mode = 4 then (AT_RESULT_OK, lib ''uc_wiota_set_freq_div'' [b] s)
         else if mode = 5 then (AT_RESULT_OK, lib ''uc_wiota_set_vol_mode'' [b] s)
         else if mode = 6 \<or> mode = 7 then
           (if at_state s \<noteq> AT_WIOTA_RUN then (AT_RESULT_REPETITIVE_FAILE, s)
            else
              (let s = say_and_wait s;
                   s = emit (C_setup (if mode = 6 then S_sync_paging_enter 0 0 v v2 else S_sync_paging_enter 1 v 0 v2)) s
               in (at_result_if (e_lib e (hist s) ''uc_wiota_sync_paging_enter'' \<noteq> 0), s)))
         else if mode = 8 then (AT_RESULT_OK, lib ''uc_wiota_set_is_ex_wk'' [b] s)
         else if mode = 9 then (let (ok, s) = lib_ok e ''uc_wiota_paging_tx_start'' [] s in (at_result_if ok, s))
         else if mode = 10 then (let (ok, s) = lib_ok e ''uc_wiota_set_vol_in_pg'' [b] s in (at_result_if ok, s))
         else (AT_RESULT_FAILE, s))"

definition at_wiotarate_setup :: "env \<Rightarrow> (u32 \<times> u32) option \<Rightarrow> 'a sys_scheme \<Rightarrow> at_result \<times> 'a sys_scheme" where
  "at_wiotarate_setup e args s =
     (case args of
        None \<Rightarrow> (AT_RESULT_PARSE_FAILE, s)
      | Some (rate_mode, rate_value) \<Rightarrow>
          (let m = uint (ucast rate_mode :: u8); v = uint (ucast rate_value :: u16);
               (ok, s) = lib_ok e ''uc_wiota_set_data_rate'' [m, v] (at_say ''+WIOTARATE'' [m, v] s)
           in (if ok then AT_RESULT_OK else AT_RESULT_PARSE_FAILE, s)))"

text \<open>The ramp type is compiled out. A power is given with an offset of 20.\<close>

definition at_wiotapow_setup :: "env \<Rightarrow> (u32 \<times> u32) option \<Rightarrow> 'a sys_scheme \<Rightarrow> at_result \<times> 'a sys_scheme" where
  "at_wiotapow_setup e args s =
     (if e_auto_connect e (hist s) then (AT_RESULT_REFUSED, s)
      else
        (case args of
           None \<Rightarrow> (AT_RESULT_PARSE_FAILE, s)
         | Some (mode, pw) \<Rightarrow>
             if mode = 0 then
               (let s = emit (C_wiota (W_set_cur_power (ucast (pw - 20)))) s
                in (if e_lib e (hist s) ''uc_wiota_set_cur_power'' \<noteq> 0 then AT_RESULT_OK else AT_RESULT_PARSE_FAILE, s))
             else if mode = 1 then (AT_RESULT_OK, lib ''uc_wiota_set_max_power'' [sint (ucast (pw - 20) :: u8)] s)
             else (AT_RESULT_PARSE_FAILE, s)))"

end
