(* ===== verification/AtSettings.thy ===== *)
theory AtSettings
  imports AtRadio
begin

text \<open>
  The remaining AT commands of \<^verbatim>\<open>PS/at/at_wiota.c\<close>: settings that the protocol library keeps, and
  queries of what it reports. The model is the check of the arguments, the conversion to the width of
  the parameter, the result and the line that is printed.
\<close>

section \<open>Shapes that many commands share\<close>

text \<open>A setting of one value: only the arguments can be wrong, or the library can refuse the value.\<close>

definition set_value :: "(u32 \<Rightarrow> bool) \<Rightarrow> string \<Rightarrow> (u32 \<Rightarrow> int) \<Rightarrow> u32 option \<Rightarrow> 'a sys_scheme \<Rightarrow> at_result \<times> 'a sys_scheme" where
  "set_value accept f conv args s =
     (case args of
        None \<Rightarrow> (AT_RESULT_PARSE_FAILE, s)
      | Some v \<Rightarrow> if accept v then (AT_RESULT_OK, lib f [conv v] s) else (AT_RESULT_PARSE_FAILE, s))"

definition try_value :: "env \<Rightarrow> at_result \<Rightarrow> string \<Rightarrow> u32 option \<Rightarrow> 'a sys_scheme \<Rightarrow> at_result \<times> 'a sys_scheme" where
  "try_value e fail f args s =
     (case args of
        None \<Rightarrow> (AT_RESULT_PARSE_FAILE, s)
      | Some v \<Rightarrow>
          (let (ok, s) = lib_ok e f [uint (ucast v :: u8)] s in (if ok then AT_RESULT_OK else fail, s)))"

definition as_u8 :: "u32 \<Rightarrow> int" where "as_u8 v = uint (ucast v :: u8)"
definition as_u16 :: "u32 \<Rightarrow> int" where "as_u16 v = uint (ucast v :: u16)"

definition zero_or_one :: "u32 \<Rightarrow> bool" where
  "zero_or_one v \<longleftrightarrow> \<not> (sint v < 0 \<or> sint v > 1)"

section \<open>Settings\<close>

definition at_wiotacrc_setup :: "u32 option \<Rightarrow> 'a sys_scheme \<Rightarrow> at_result \<times> 'a sys_scheme" where
  "at_wiotacrc_setup = set_value (\<lambda>v. True) ''uc_wiota_set_crc'' as_u16"

definition at_wiotaosc_setup :: "u32 option \<Rightarrow> 'a sys_scheme \<Rightarrow> at_result \<times> 'a sys_scheme" where
  "at_wiotaosc_setup = set_value (\<lambda>v. True) ''uc_wiota_set_is_osc'' as_u8"

definition at_wiota_save_mode_setup :: "u32 option \<Rightarrow> 'a sys_scheme \<Rightarrow> at_result \<times> 'a sys_scheme" where
  "at_wiota_save_mode_setup = set_value (\<lambda>v. True) ''uc_wiota_set_exit_save_static'' as_u8"

definition at_wiota32k_setup :: "u32 option \<Rightarrow> 'a sys_scheme \<Rightarrow> at_result \<times> 'a sys_scheme" where
  "at_wiota32k_setup = set_value (\<lambda>v. True) ''uc_wiota_set_outer_32K'' as_u8"

definition at_wiota_resend_setup :: "u32 option \<Rightarrow> 'a sys_scheme \<Rightarrow> at_result \<times> 'a sys_scheme" where
  "at_wiota_resend_setup = set_value (\<lambda>v. True) ''uc_wiota_set_sm_resend_times'' as_u8"

definition at_wiota_fn_setup :: "u32 option \<Rightarrow> 'a sys_scheme \<Rightarrow> at_result \<times> 'a sys_scheme" where
  "at_wiota_fn_setup = set_value zero_or_one ''uc_wiota_set_is_report_fn'' as_u8"

definition at_wiota_adc_adj_setup :: "u32 option \<Rightarrow> 'a sys_scheme \<Rightarrow> at_result \<times> 'a sys_scheme" where
  "at_wiota_adc_adj_setup = set_value zero_or_one ''uc_wiota_set_adc_adj_close'' as_u8"

definition at_new_ldo_setup :: "u32 option \<Rightarrow> 'a sys_scheme \<Rightarrow> at_result \<times> 'a sys_scheme" where
  "at_new_ldo_setup = set_value (\<lambda>v. \<not> (v < 0 \<or> v > 7)) ''uc_wiota_set_new_ldo'' as_u8"

definition at_wiotabitscb_setup :: "env \<Rightarrow> u32 option \<Rightarrow> 'a sys_scheme \<Rightarrow> at_result \<times> 'a sys_scheme" where
  "at_wiotabitscb_setup e = try_value e AT_RESULT_PARSE_FAILE ''uc_wiota_set_bitscb''"

definition at_wiotatxmode_setup :: "env \<Rightarrow> u32 option \<Rightarrow> 'a sys_scheme \<Rightarrow> at_result \<times> 'a sys_scheme" where
  "at_wiotatxmode_setup e = try_value e AT_RESULT_CMD_ERR ''uc_wiota_set_tx_mode''"

definition at_wiota_usetemp_setup :: "env \<Rightarrow> u32 option \<Rightarrow> 'a sys_scheme \<Rightarrow> at_result \<times> 'a sys_scheme" where
  "at_wiota_usetemp_setup e = try_value e AT_RESULT_PARSE_FAILE ''uc_wiota_set_is_use_temp''"

definition at_wiota_save_static_exec :: "env \<Rightarrow> 'a sys_scheme \<Rightarrow> at_result \<times> 'a sys_scheme" where
  "at_wiota_save_static_exec e s =
     (if e_auto_connect e (hist s) then (AT_RESULT_REFUSED, s) else (AT_RESULT_OK, emit (C_wiota W_save_static_info) s))"

definition at_wiota_hard_switch_state_exec :: "'a sys_scheme \<Rightarrow> at_result \<times> 'a sys_scheme" where
  "at_wiota_hard_switch_state_exec s = (AT_RESULT_OK, emit (C_wiota W_hard_switch_to_active) s)"

definition at_wiotamultcast_setup :: "(u32 \<times> u32 \<times> u32) option \<Rightarrow> 'a at_srv_scheme \<Rightarrow> at_result \<times> 'a at_srv_scheme" where
  "at_wiotamultcast_setup args s =
     (if at_state s \<noteq> AT_WIOTA_INIT \<and> at_state s \<noteq> AT_WIOTA_RUN then (AT_RESULT_REPETITIVE_FAILE, s)
      else
        (case args of
           None \<Rightarrow> (AT_RESULT_PARSE_FAILE, s)
         | Some (a, b, c) \<Rightarrow> (AT_RESULT_OK, lib ''uc_wiota_set_multcast_id_list'' [uint a, uint b, uint c] s)))"

definition at_wiota_gps_gpio_setup :: "(u32 \<times> u32) option \<Rightarrow> 'a sys_scheme \<Rightarrow> at_result \<times> 'a sys_scheme" where
  "at_wiota_gps_gpio_setup args s =
     (case args of
        None \<Rightarrow> (AT_RESULT_PARSE_FAILE, s)
      | Some (mode, pin) \<Rightarrow> (AT_RESULT_OK, lib ''uc_wiota_set_gps_gpio'' [as_u8 mode, as_u8 pin] s))"

definition at_wiota_pa_gpio_setup :: "(u32 \<times> u32 \<times> u32) option \<Rightarrow> 'a sys_scheme \<Rightarrow> at_result \<times> 'a sys_scheme" where
  "at_wiota_pa_gpio_setup args s =
     (case args of
        None \<Rightarrow> (AT_RESULT_PARSE_FAILE, s)
      | Some (mode, pin, trigger) \<Rightarrow> (AT_RESULT_OK, lib ''uc_wiota_set_pa_gpio'' [as_u8 mode, as_u8 pin, as_u8 trigger] s))"

definition at_agc_adjust_set_setup :: "(u32 \<times> u32) option \<Rightarrow> 'a sys_scheme \<Rightarrow> at_result \<times> 'a sys_scheme" where
  "at_agc_adjust_set_setup args s =
     (case args of
        None \<Rightarrow> (AT_RESULT_PARSE_FAILE, s)
      | Some (adjust, agc) \<Rightarrow>
          if adjust > 1 \<or> agc > 15 then (AT_RESULT_PARSE_FAILE, s)
          else (AT_RESULT_OK, lib ''uc_wiota_set_init_agc'' [as_u8 agc] (lib ''uc_wiota_set_en_aagc_ajust'' [as_u8 adjust] s)))"

definition at_mem_addr_setup :: "env \<Rightarrow> (u32 \<times> u32) option \<Rightarrow> 'a sys_scheme \<Rightarrow> at_result \<times> 'a sys_scheme" where
  "at_mem_addr_setup e args s =
     (case args of
        None \<Rightarrow> (AT_RESULT_PARSE_FAILE, s)
      | Some (mem_addr, v) \<Rightarrow>
          (let (ok, s) = lib_ok e ''uc_wiota_mem_addr_value'' [uint mem_addr, uint v] s in (at_result_if ok, s)))"

text \<open>The log of the library, or the console on another line (the device is closed and opened again).\<close>

definition at_handle_log_uart :: "env \<Rightarrow> nat \<Rightarrow> 'a sys_scheme \<Rightarrow> 'a sys_scheme" where
  "at_handle_log_uart e uart_number s =
     (let device = (e_lib e (hist s) ''rt_device_find'' \<noteq> 0);
          s = (if device then lib ''rt_device_close'' [] s else s);
          s = lib ''rt_console_set_device'' [int uart_number] s
      in if device
         then lib ''rt_device_open'' [] (lib ''rt_device_control'' [if uart_number = 0 then 460800 else 115200] s)
         else s)"

definition at_wiotalog_setup :: "env \<Rightarrow> u32 option \<Rightarrow> 'a sys_scheme \<Rightarrow> at_result \<times> 'a sys_scheme" where
  "at_wiotalog_setup e args s =
     (case args of
        None \<Rightarrow> (AT_RESULT_PARSE_FAILE, s)
      | Some mode \<Rightarrow>
          if mode = 0 \<or> mode = 1 then (AT_RESULT_OK, lib ''uc_wiota_log_switch'' [0, uint mode] s)
          else if mode = 2 \<or> mode = 3 then (AT_RESULT_OK, at_handle_log_uart e (unat mode - 2) s)
          else if mode = 4 \<or> mode = 5 then (AT_RESULT_OK, lib ''uc_wiota_log_switch'' [1, uint mode - 4] s)
          else (AT_RESULT_FAILE, s))"

section \<open>Paging\<close>

definition at_paging_tx_config_query :: "env \<Rightarrow> 'a sys_scheme \<Rightarrow> at_result \<times> 'a sys_scheme" where
  "at_paging_tx_config_query e s =
     (let c = e_paging_tx_cfg e (hist s)
      in (AT_RESULT_OK,
          at_say ''+WIOTAPAGINGTX'' [uint (tx_freq c), uint (tx_spectrum_idx c), uint (tx_bandwidth c),
            uint (tx_symbol_length c), uint (tx_awaken_id c), uint (tx_send_time c)] s))"

definition set_paging_tx :: "env \<Rightarrow> uc_lpm_tx_cfg \<Rightarrow> 'a sys_scheme \<Rightarrow> bool \<times> 'a sys_scheme" where
  "set_paging_tx e c s =
     (let s = emit (C_wiota (W_set_paging_tx_cfg c)) s in (e_lib e (hist s) ''uc_wiota_set_paging_tx_cfg'' \<noteq> 0, s))"

definition set_paging_rx :: "env \<Rightarrow> uc_lpm_rx_cfg \<Rightarrow> 'a sys_scheme \<Rightarrow> bool \<times> 'a sys_scheme" where
  "set_paging_rx e c s =
     (let s = emit (C_wiota (W_set_paging_rx_cfg c)) s in (e_lib e (hist s) ''uc_wiota_set_paging_rx_cfg'' \<noteq> 0, s))"

definition parse_fail_unless :: "bool \<Rightarrow> at_result" where
  "parse_fail_unless ok = (if ok then AT_RESULT_OK else AT_RESULT_PARSE_FAILE)"

definition at_paging_tx_config_setup ::
  "env \<Rightarrow> (u32 \<times> u32 \<times> u32 \<times> u32 \<times> u32 \<times> u32) option \<Rightarrow> 'a sys_scheme \<Rightarrow> at_result \<times> 'a sys_scheme" where
  "at_paging_tx_config_setup e args s =
     (case args of
        None \<Rightarrow> (AT_RESULT_PARSE_FAILE, s)
      | Some (t0, t1, t2, t3, t4, t5) \<Rightarrow>
          if t0 > 255 then (AT_RESULT_PARSE_FAILE, s)
          else
            (let c = (e_paging_tx_cfg e (hist s))
                   \<lparr>tx_freq := ucast t0, tx_spectrum_idx := ucast t1, tx_bandwidth := ucast t2,
                    tx_symbol_length := ucast t3, tx_awaken_id := ucast t4, tx_send_time := t5\<rparr>;
                 (ok, s) = set_paging_tx e c s
             in (parse_fail_unless ok, s)))"

definition at_paging_rx_config_query :: "env \<Rightarrow> 'a sys_scheme \<Rightarrow> at_result \<times> 'a sys_scheme" where
  "at_paging_rx_config_query e s =
     (let c = e_paging_rx_cfg e (hist s)
      in (AT_RESULT_OK,
          at_say ''+WIOTAPAGINGRX'' [uint (rx_freq c), uint (rx_spectrum_idx c), uint (rx_bandwidth c),
            uint (rx_symbol_length c), uint (rx_awaken_id c), uint (rx_detect_period c), uint (rx_lpm_nlen c),
            uint (rx_lpm_utimes c), uint (rx_threshold c), uint (rx_extra_flag c), uint (rx_extra_period c)] s))"

text \<open>The threshold and the flag are converted to 16 bits and stored in 8.\<close>

definition at_paging_rx_config_setup ::
  "env \<Rightarrow> (u32 \<times> u32 \<times> u32 \<times> u32 \<times> u32 \<times> u32 \<times> u32 \<times> u32 \<times> u32 \<times> u32 \<times> u32) option \<Rightarrow> 'a sys_scheme \<Rightarrow> at_result \<times> 'a sys_scheme"
where
  "at_paging_rx_config_setup e args s =
     (case args of
        None \<Rightarrow> (AT_RESULT_PARSE_FAILE, s)
      | Some (t0, t1, t2, t3, t4, t5, t6, t7, t8, t9, t10) \<Rightarrow>
          if t0 > 255 then (AT_RESULT_PARSE_FAILE, s)
          else
            (let c = (e_paging_rx_cfg e (hist s))
                   \<lparr>rx_freq := ucast t0, rx_spectrum_idx := ucast t1, rx_bandwidth := ucast t2,
                    rx_symbol_length := ucast t3, rx_awaken_id := ucast t4, rx_detect_period := t5,
                    rx_lpm_nlen := ucast t6, rx_lpm_utimes := ucast t7, rx_threshold := ucast (ucast t8 :: u16),
                    rx_extra_flag := ucast (ucast t9 :: u16), rx_extra_period := t10\<rparr>;
                 (ok, s) = set_paging_rx e c s
             in (parse_fail_unless ok, s)))"

definition at_paging_rx_config_another_query :: "env \<Rightarrow> 'a sys_scheme \<Rightarrow> at_result \<times> 'a sys_scheme" where
  "at_paging_rx_config_another_query e s =
     (let c = e_paging_rx_cfg e (hist s)
      in (AT_RESULT_OK, at_say ''+WIOTAPAGINGRXANO'' [uint (rx_period_multiple c), uint (rx_awaken_id_another c)] s))"

definition at_paging_rx_config_another_setup :: "env \<Rightarrow> (u32 \<times> u32) option \<Rightarrow> 'a sys_scheme \<Rightarrow> at_result \<times> 'a sys_scheme" where
  "at_paging_rx_config_another_setup e args s =
     (case args of
        None \<Rightarrow> (AT_RESULT_PARSE_FAILE, s)
      | Some (t0, t1) \<Rightarrow>
          if t0 > 255 then (AT_RESULT_PARSE_FAILE, s)
          else
            (let c = (e_paging_rx_cfg e (hist s))\<lparr>rx_period_multiple := ucast t0, rx_awaken_id_another := ucast t1\<rparr>;
                 (ok, s) = set_paging_rx e c s
             in (parse_fail_unless ok, s)))"

definition at_paging_config_mode_query :: "env \<Rightarrow> 'a sys_scheme \<Rightarrow> at_result \<times> 'a sys_scheme" where
  "at_paging_config_mode_query e s =
     (AT_RESULT_OK, at_say ''+WIOTAPAGINGMODE'' [uint (rx_mode (e_paging_rx_cfg e (hist s))), uint (tx_mode (e_paging_tx_cfg e (hist s)))] s)"

text \<open>The transmitter is only configured when the receiver accepted its mode.\<close>

definition at_paging_config_mode_setup :: "env \<Rightarrow> (u32 \<times> u32) option \<Rightarrow> 'a sys_scheme \<Rightarrow> at_result \<times> 'a sys_scheme" where
  "at_paging_config_mode_setup e args s =
     (case args of
        None \<Rightarrow> (AT_RESULT_PARSE_FAILE, s)
      | Some (r, t) \<Rightarrow>
          (let cr = (e_paging_rx_cfg e (hist s))\<lparr>rx_mode := ucast r\<rparr>;
               ct = (e_paging_tx_cfg e (hist s))\<lparr>tx_mode := ucast t\<rparr>;
               (ok, s) = set_paging_rx e cr s
           in if \<not> ok then (AT_RESULT_PARSE_FAILE, s)
              else (let (ok, s) = set_paging_tx e ct s in (parse_fail_unless ok, s))))"

section \<open>Statistics\<close>

definition UC_STATS_TYPE_MAX :: int where "UC_STATS_TYPE_MAX = 10"

definition at_wiotastats_query :: "env \<Rightarrow> 'a sys_scheme \<Rightarrow> at_result \<times> 'a sys_scheme" where
  "at_wiotastats_query e s =
     (let (x, s) = ask Q_stats (\<lambda>h. e_lib_info e h ''uc_wiota_get_all_stats'') s
      in (AT_RESULT_OK, at_say ''+WIOTASTATS=0'' (take 7 x) s))"

text \<open>A negative type passes the check and is cut to a byte.\<close>

definition at_wiotastats_setup :: "env \<Rightarrow> (u32 \<times> u32) option \<Rightarrow> 'a sys_scheme \<Rightarrow> at_result \<times> 'a sys_scheme" where
  "at_wiotastats_setup e args s =
     (case args of
        None \<Rightarrow> (AT_RESULT_PARSE_FAILE, s)
      | Some (mode, type) \<Rightarrow>
          if sint type \<ge> UC_STATS_TYPE_MAX then (AT_RESULT_PARSE_FAILE, s)
          else if mode = 0 then
            (if type = 0 then (AT_RESULT_OK, snd (at_wiotastats_query e s))
             else
               (let s = lib ''uc_wiota_get_stats'' [as_u8 type] s
                in (AT_RESULT_OK, at_say ''+WIOTASTATS'' [sint type, e_lib e (hist s) ''uc_wiota_get_stats''] s)))
          else if mode = 1 then (AT_RESULT_OK, lib ''uc_wiota_reset_stats'' [as_u8 type] s)
          else (AT_RESULT_FAILE, s))"

section \<open>Queries\<close>

definition say_info :: "env \<Rightarrow> string \<Rightarrow> string \<Rightarrow> 'a sys_scheme \<Rightarrow> at_result \<times> 'a sys_scheme" where
  "say_info e line f s = (AT_RESULT_OK, at_say line (e_lib_info e (hist s) f) s)"

definition say_value :: "env \<Rightarrow> string \<Rightarrow> string \<Rightarrow> 'a sys_scheme \<Rightarrow> at_result \<times> 'a sys_scheme" where
  "say_value e line f s = (AT_RESULT_OK, at_say line [e_lib e (hist s) f] s)"

definition at_wiotacrc_query :: "env \<Rightarrow> 'a sys_scheme \<Rightarrow> at_result \<times> 'a sys_scheme" where
  "at_wiotacrc_query e = say_value e ''+WIOTACRC'' ''uc_wiota_get_crc''"

definition at_wiotaosc_query :: "env \<Rightarrow> 'a sys_scheme \<Rightarrow> at_result \<times> 'a sys_scheme" where
  "at_wiotaosc_query e = say_value e ''+WIOTAOSC'' ''uc_wiota_get_is_osc''"

definition at_wiota_usetemp_query :: "env \<Rightarrow> 'a sys_scheme \<Rightarrow> at_result \<times> 'a sys_scheme" where
  "at_wiota_usetemp_query e = say_value e ''+IUTEMP'' ''uc_wiota_get_is_use_temp''"

definition at_memory_query :: "env \<Rightarrow> 'a sys_scheme \<Rightarrow> at_result \<times> 'a sys_scheme" where
  "at_memory_query e = say_info e ''+MEMORY'' ''rt_memory_info''"

definition at_wiota_gps_query :: "env \<Rightarrow> 'a sys_scheme \<Rightarrow> at_result \<times> 'a sys_scheme" where
  "at_wiota_gps_query e = say_info e ''+GPSINFO'' ''uc_wiota_get_gps_info''"

definition at_wiota_adc_adj_query :: "env \<Rightarrow> 'a sys_scheme \<Rightarrow> at_result \<times> 'a sys_scheme" where
  "at_wiota_adc_adj_query e = say_info e ''+WIOTADCDJ'' ''uc_wiota_get_adc_adj_info''"

definition at_wiota_version_query :: "env \<Rightarrow> 'a sys_scheme \<Rightarrow> (at_result \<times> 'a sys_scheme) option" where
  "at_wiota_version_query e s =
     do { n \<leftarrow> rt_strlen (e_version e (hist s));
          let s = at_say ''+WIOTAVERSION:'' (map uint (take n (e_version e (hist s)))) s;
          let s = at_say ''+GITINFO:'' (e_lib_info e (hist s) ''git_info'') s;
          let s = at_say ''+TIME:'' (e_lib_info e (hist s) ''time'') s;
          Some (AT_RESULT_OK, at_say ''+CCEVERSION:'' [e_lib e (hist s) ''cce_version''] s) }"

definition at_module_id_query :: "env \<Rightarrow> 'a sys_scheme \<Rightarrow> at_result \<times> 'a sys_scheme" where
  "at_module_id_query e s =
     (AT_RESULT_OK, at_say ''+MODULEID'' (map uint (e_module_id e (hist s)) @ [e_lib e (hist s) ''uc_wiota_get_module_id'']) s)"

definition at_wiota_fn_query :: "env \<Rightarrow> 'a sys_scheme \<Rightarrow> at_result \<times> 'a sys_scheme" where
  "at_wiota_fn_query e s =
     (let (is_valid, s) = ask Q_frame_valid (e_frame_valid e) s; (n, s) = ask Q_frame_num (e_frame_num e) s
      in (AT_RESULT_OK, at_say ''+WIOTAFN'' [e_lib e (hist s) ''uc_wiota_get_is_report_fn'', of_bool is_valid, uint n] s))"

definition at_adjust_result_query :: "env \<Rightarrow> u32 option \<Rightarrow> 'a sys_scheme \<Rightarrow> at_result \<times> 'a sys_scheme" where
  "at_adjust_result_query e args s =
     (case args of
        None \<Rightarrow> (AT_RESULT_PARSE_FAILE, s)
      | Some mode \<Rightarrow>
          (let (ok, s) = lib_ok e ''uc_wiota_get_adjust_result'' [as_u8 mode] s
           in if ok then (AT_RESULT_OK, at_say ''+ADJUST'' (e_lib_info e (hist s) ''uc_wiota_get_adjust_result'') s)
              else (AT_RESULT_PARSE_FAILE, s)))"

definition awakened_number :: "awakened_cause \<Rightarrow> int" where
  "awakened_number c =
     (case c of AWAKENED_CAUSE_HARD_RESET \<Rightarrow> 0 | AWAKENED_CAUSE_SLEEP \<Rightarrow> 1 | AWAKENED_CAUSE_PAGING \<Rightarrow> 2
      | AWAKENED_CAUSE_GATING \<Rightarrow> 3 | AWAKENED_CAUSE_FORCED_INTERNAL \<Rightarrow> 4 | AWAKENED_CAUSE_OTHERS \<Rightarrow> 5)"

text \<open>The cause within paging, the number of detections and the index are 0 for another cause.\<close>

definition at_wiotawaken_query :: "env \<Rightarrow> 'a sys_scheme \<Rightarrow> at_result \<times> 'a sys_scheme" where
  "at_wiotawaken_query e s =
     (let c = e_awakened_cause e (hist s); cs = e_lib e (hist s) ''is_cs_awakened'';
          paging = (if c = AWAKENED_CAUSE_PAGING then e_lib_info e (hist s) ''uc_wiota_get_paging_awaken_cause'' else [0, 0, 0])
      in (AT_RESULT_OK, at_say ''+WIOTAWAKEN'' ([awakened_number c, cs] @ paging) s))"

definition at_wiota_awaken_notice :: "env \<Rightarrow> 'a sys_scheme \<Rightarrow> 'a sys_scheme" where
  "at_wiota_awaken_notice e s =
     (if e_awakened_cause e (hist s) = AWAKENED_CAUSE_SLEEP \<or> e_awakened_cause e (hist s) = AWAKENED_CAUSE_PAGING
      then at_say ''+WIOTAWAKEN'' [] (at_say ''OK'' [] s) else s)"

end
