(* ===== verification/SimpleFreq.thy ===== *)
theory SimpleFreq
  imports AtInput AtScan
begin

text \<open>
  The frequencies of the simplified AT commands, \<^verbatim>\<open>PS/at_simplified/at_simplified.c\<close>: a line with up to
  16 frequencies in Hz is parsed, each is looked up in a table of bands and becomes an index on the
  raster of 200 kHz of its band; all of them must be in one band.

  A variable of the source that points to the last character of a text is here one more, the end of
  the text. Signed arithmetic wraps, as on the target.
\<close>

section \<open>Numbers\<close>

definition FREQ_LIST_NUM :: nat where "FREQ_LIST_NUM = 16"

definition is_space :: "u8 \<Rightarrow> bool" where
  "is_space c \<longleftrightarrow> c = 32 \<or> c = 9 \<or> c = 10 \<or> c = 13 \<or> c = 11 \<or> c = 12"

fun str_to_int :: "u8 list \<Rightarrow> nat \<Rightarrow> nat \<Rightarrow> u32 \<Rightarrow> u32 option" where
  "str_to_int mem str 0 num = Some num"
| "str_to_int mem str (Suc len) num =
     do { c \<leftarrow> rd mem str;
          if c < 48 \<or> c > 57 then Some (-1) else str_to_int mem (str + 1) len (num * 10 + (ucast c - 48)) }"

function skip_spaces :: "u8 list \<Rightarrow> nat \<Rightarrow> nat \<Rightarrow> nat option" where
  "skip_spaces mem start end =
     (if start < end then do { c \<leftarrow> rd mem start; if is_space c then skip_spaces mem (start + 1) end else Some start }
      else Some start)"
  by pat_completeness auto
termination by (relation "measure (\<lambda>(_, s, e). e - s)") auto

fun drop_spaces :: "u8 list \<Rightarrow> nat \<Rightarrow> nat \<Rightarrow> nat option" where
  "drop_spaces mem start 0 = Some 0"
| "drop_spaces mem start (Suc l) =
     (if start < Suc l then do { c \<leftarrow> rd mem l; if is_space c then drop_spaces mem start l else Some (Suc l) }
      else Some (Suc l))"

function segments_loop :: "u8 list \<Rightarrow> nat \<Rightarrow> nat \<Rightarrow> nat \<Rightarrow> u32 list \<Rightarrow> (int \<times> u32 list) option" where
  "segments_loop mem end i num_start out =
     (if i > end then Some (0, out)
      else
        do { at_end \<leftarrow> (if i = end then Some True else do { c \<leftarrow> rd mem i; Some (c = COMMA) });
             if at_end then
               do { seg_start \<leftarrow> skip_spaces mem num_start i;
                    seg_end \<leftarrow> drop_spaces mem seg_start i;
                    if seg_start \<ge> seg_end then segments_loop mem end (i + 1) (i + 1) out
                    else if length out \<ge> FREQ_LIST_NUM then Some (-2, out)
                    else
                      do { num \<leftarrow> str_to_int mem seg_start (seg_end - seg_start) 0;
                           if num = -1 then Some (-3, out)
                           else segments_loop mem end (i + 1) (i + 1) (out @ [num]) } }
             else segments_loop mem end (i + 1) num_start out })"
  by pat_completeness auto
termination by (relation "measure (\<lambda>(_, e, i, _, _). Suc e - i)") auto

declare skip_spaces.simps [simp del] segments_loop.simps [simp del]

definition str_to_int_array :: "u8 list \<Rightarrow> (int \<times> u32 list) option" where
  "str_to_int_array input_str =
     do { input_len \<leftarrow> rt_strlen input_str;
          start \<leftarrow> skip_spaces input_str 0 input_len;
          end \<leftarrow> drop_spaces input_str start input_len;
          if start \<ge> end then Some (-1, []) else segments_loop input_str end start start [] }"

section \<open>Bands\<close>

definition FREQ_SPECTRUM_COUNT :: nat where "FREQ_SPECTRUM_COUNT = 8"
definition DEFAULE_BW_HZ :: u32 where "DEFAULE_BW_HZ = 200000"
definition INVALID_FREQ :: u8 where "INVALID_FREQ = 0xFF"

definition FREQ_RANGES :: "(u32 \<times> u32) list" where
  "FREQ_RANGES =
    [(223000000, 235000000), (400000000, 440000000), (433050000, 434790000), (470000000, 510000000),
     (779000000, 787000000), (840000000, 845000000), (863000000, 870000000), (902000000, 928000000)]"

definition g_max_freq_num_table :: "u8 list" where
  "g_max_freq_num_table = [60, 200, 8, 200, 40, 25, 35, 130]"

definition at_get_max_freq_num :: "u8 \<Rightarrow> u8" where
  "at_get_max_freq_num spectrum_idx =
     (if unat spectrum_idx \<ge> FREQ_SPECTRUM_COUNT then 0 else g_max_freq_num_table ! unat spectrum_idx)"

text \<open>The base of the band, and the band with the frequency on its raster unless no band has it.\<close>

fun bands_loop :: "u32 \<Rightarrow> nat \<Rightarrow> u32 \<times> (u8 \<times> u32) option" where
  "bands_loop f 0 = (1, None)"
| "bands_loop f (Suc i) =
     (let (base_freq, last_freq) = FREQ_RANGES ! i
      in if f \<ge> base_freq \<and> f \<le> last_freq
         then (base_freq, Some (of_nat i, base_freq + (f - base_freq) div DEFAULE_BW_HZ * DEFAULE_BW_HZ))
         else bands_loop f i)"

definition at_get_base_freq_and_spectrum_idx :: "u32 \<Rightarrow> u32 \<times> (u8 \<times> u32) option" where
  "at_get_base_freq_and_spectrum_idx f = bands_loop f FREQ_SPECTRUM_COUNT"

definition INDEX_TO_FREQ :: "u32 \<Rightarrow> u32 \<Rightarrow> u32" where
  "INDEX_TO_FREQ index base_freq = index * DEFAULE_BW_HZ + base_freq"

definition FREQ_TO_INDEX :: "u32 \<Rightarrow> u32 \<Rightarrow> u32" where
  "FREQ_TO_INDEX f base_freq = (f - base_freq) div DEFAULE_BW_HZ"

text \<open>The variables are the previous base, and the last base, band and frequency.\<close>

fun indices_loop ::
  "u32 list \<Rightarrow> u32 \<Rightarrow> u32 \<times> u8 \<times> u32 \<Rightarrow> u8 list \<Rightarrow> int + (u8 list \<times> u8 \<times> u32)" where
  "indices_loop [] last_base_freq (base, spectrum, actual) freq_list = Inr (freq_list, spectrum, base)"
| "indices_loop (f # fs) last_base_freq (base, spectrum, actual) freq_list =
     (let (base, found) = at_get_base_freq_and_spectrum_idx f;
          (spectrum, actual) = (case found of None \<Rightarrow> (spectrum, actual) | Some x \<Rightarrow> x);
          i = ucast (FREQ_TO_INDEX actual base)
      in if last_base_freq > 0 \<and> base \<noteq> last_base_freq then Inl 2
         else if i > at_get_max_freq_num spectrum then Inl 3
         else indices_loop fs base (base, spectrum, actual) (freq_list @ [i]))"

record freq_request =
  rq_list :: "u8 list"
  rq_num :: nat
  rq_spectrum :: u8
  rq_base :: u32

text \<open>The list has 16 places, of which the first that is not used gets the end mark.\<close>

definition at_get_freq_list :: "u8 list \<Rightarrow> (int + freq_request) option" where
  "at_get_freq_list freq_str =
     do { (rc, freq_array) \<leftarrow> str_to_int_array freq_str;
          if rc \<noteq> 0 \<or> length freq_array > FREQ_LIST_NUM then Some (Inl 1)
          else
            (case indices_loop freq_array 0 (0, 0, 0) [] of
               Inl rc \<Rightarrow> Some (Inl rc)
             | Inr (is, spectrum, base) \<Rightarrow>
                 Some (Inr \<lparr>rq_list = is @ (if length is < FREQ_LIST_NUM then INVALID_FREQ # replicate (FREQ_LIST_NUM - length is - 1) 0 else []),
                            rq_num = length is, rq_spectrum = spectrum, rq_base = base\<rparr>)) }"

end
