(* ===== verification/FreqLine.thy ===== *)
theory FreqLine
  imports SimpleFreq ScanLine
begin

text \<open>
  What the simplified AT commands make of a line of frequencies: the parser is that of a small grammar
  of comma separated fields, and the frequencies that a host types are accepted exactly when one band
  has them all.
\<close>

section \<open>The grammar\<close>

definition part :: "'a list \<Rightarrow> nat \<Rightarrow> nat \<Rightarrow> 'a list" where
  "part m i j = take (j - i) (drop i m)"

definition strip :: "u8 list \<Rightarrow> u8 list" where
  "strip x = rev (dropWhile is_space (rev (dropWhile is_space x)))"

fun value_of :: "u8 list \<Rightarrow> u32 \<Rightarrow> u32" where
  "value_of [] num = num"
| "value_of (c # cs) num = (if c < 48 \<or> c > 57 then -1 else value_of cs (num * 10 + (ucast c - 48)))"

fun split_fields :: "u8 list \<Rightarrow> u8 list \<Rightarrow> u8 list list" where
  "split_fields cur [] = [cur]"
| "split_fields cur (c # cs) = (if c = COMMA then cur # split_fields [] cs else split_fields (cur @ [c]) cs)"

fun take_fields :: "u32 list \<Rightarrow> u8 list list \<Rightarrow> int \<times> u32 list" where
  "take_fields out [] = (0, out)"
| "take_fields out (x # xs) =
     (if strip x = [] then take_fields out xs
      else if length out \<ge> FREQ_LIST_NUM then (-2, out)
      else if value_of (strip x) 0 = -1 then (-3, out)
      else take_fields (out @ [value_of (strip x) 0]) xs)"

lemma part_empty [simp]: "j \<le> i \<Longrightarrow> part m i j = []"
  by (simp add: part_def)

lemma part_Cons: "i < j \<Longrightarrow> j \<le> length m \<Longrightarrow> part m i j = m ! i # part m (Suc i) j"
  by (simp add: part_def Cons_nth_drop_Suc[symmetric] Suc_diff_Suc[symmetric])

lemma part_snoc: "i \<le> j \<Longrightarrow> j < length m \<Longrightarrow> part m i (Suc j) = part m i j @ [m ! j]"
  by (simp add: part_def Suc_diff_le take_Suc_conv_app_nth)

lemma length_part [simp]: "j \<le> length m \<Longrightarrow> length (part m i j) = j - i"
  by (simp add: part_def)

section \<open>The loops\<close>

lemma skip_spaces_eq:
  "i \<le> j \<Longrightarrow> j \<le> length m \<Longrightarrow>
     \<exists>k. skip_spaces m i j = Some k \<and> i \<le> k \<and> k \<le> j \<and> part m k j = dropWhile is_space (part m i j)"
proof (induction m i j rule: skip_spaces.induct)
  case (1 m i j)
  show ?case
  proof (cases "i < j")
    case True
    then have r: "rd m i = Some (m ! i)" using 1(3) by (simp add: rd_def)
    show ?thesis
    proof (cases "is_space (m ! i)")
      case sp: True
      obtain k where k: "skip_spaces m (i + 1) j = Some k \<and> i + 1 \<le> k \<and> k \<le> j \<and> part m k j = dropWhile is_space (part m (i + 1) j)"
        using 1(1)[OF True r sp] True 1(3) by auto
      then show ?thesis
        using True r sp part_Cons[OF True 1(3)] by (subst skip_spaces.simps) (auto intro!: exI[of _ k])
    next
      case False
      then show ?thesis using True r part_Cons[OF True 1(3)] by (subst skip_spaces.simps) (auto intro!: exI[of _ i])
    qed
  next
    case False
    then show ?thesis using 1(2) by (subst skip_spaces.simps) auto
  qed
qed

lemma drop_spaces_eq:
  "i \<le> j \<Longrightarrow> j \<le> length m \<Longrightarrow>
     \<exists>k. drop_spaces m i j = Some k \<and> i \<le> k \<and> k \<le> j \<and> part m i k = rev (dropWhile is_space (rev (part m i j)))"
proof (induction j)
  case (Suc j)
  show ?case
  proof (cases "i < Suc j")
    case True
    then have s: "part m i (Suc j) = part m i j @ [m ! j]" "rd m j = Some (m ! j)" using Suc(3) by (simp_all add: part_snoc rd_def)
    obtain k where k: "drop_spaces m i j = Some k \<and> i \<le> k \<and> k \<le> j \<and> part m i k = rev (dropWhile is_space (rev (part m i j)))"
      using Suc True by auto
    show ?thesis
    proof (cases "is_space (m ! j)")
      case True
      then show ?thesis using k s \<open>i < Suc j\<close> by (intro exI[of _ k]) simp
    next
      case False
      then show ?thesis using s \<open>i < Suc j\<close> by (intro exI[of _ "Suc j"]) simp
    qed
  next
    case False
    then show ?thesis using Suc(2) by (intro exI[of _ "Suc j"]) simp
  qed
qed simp

lemma str_to_int_eq: "p + n \<le> length m \<Longrightarrow> str_to_int m p n num = Some (value_of (part m p (p + n)) num)"
proof (induction n arbitrary: p num)
  case (Suc n)
  then have "part m p (p + Suc n) = m ! p # part m (Suc p) (p + Suc n)" "rd m p = Some (m ! p)"
    by (simp_all add: part_Cons rd_def)
  then show ?case using Suc(1)[of "Suc p"] Suc(2) by simp
qed simp

lemma strip_part:
  assumes "i \<le> j" "j \<le> length m"
  shows "\<exists>a b. skip_spaces m i j = Some a \<and> drop_spaces m a j = Some b \<and> a \<le> b \<and> b \<le> j \<and> part m a b = strip (part m i j)"
proof -
  obtain a where a: "skip_spaces m i j = Some a" "i \<le> a" "a \<le> j" "part m a j = dropWhile is_space (part m i j)"
    using skip_spaces_eq[OF assms] by blast
  obtain b where "drop_spaces m a j = Some b" "a \<le> b" "b \<le> j" "part m a b = rev (dropWhile is_space (rev (part m a j)))"
    using drop_spaces_eq[OF a(3) assms(2)] by blast
  then show ?thesis using a by (auto simp: strip_def)
qed

lemma segments_loop_eq:
  "num_start \<le> i \<Longrightarrow> i \<le> e \<Longrightarrow> e \<le> length m \<Longrightarrow>
     segments_loop m e i num_start out = Some (take_fields out (split_fields (part m num_start i) (part m i e)))"
proof (induction "e - i" arbitrary: i num_start out rule: less_induct)
  case less
  have nxt: "segments_loop m e (Suc i) (Suc i) out' =
      Some (if i = e then (0, out') else take_fields out' (split_fields [] (part m (Suc i) e)))" for out'
  proof (cases "i = e")
    case True
    then show ?thesis by (subst segments_loop.simps) simp
  next
    case False
    then show ?thesis using less(1)[of "i + 1" "i + 1" out'] less(3,4) by simp
  qed
  obtain a b where ab: "skip_spaces m num_start i = Some a" "drop_spaces m a i = Some b" "a \<le> b" "b \<le> i"
      "part m a b = strip (part m num_start i)"
    using strip_part[of num_start i m] less(2-4) by auto
  have "b \<le> a \<longleftrightarrow> part m a b = []" using ab(3,4) less(3,4) by (metis diff_is_0_eq length_0_conv length_part le_trans)
  then have e: "a \<ge> b \<longleftrightarrow> strip (part m num_start i) = []" using ab(5) by simp
  have v: "str_to_int m a (b - a) 0 = Some (value_of (strip (part m num_start i)) 0)"
    using str_to_int_eq[of a "b - a" m 0] ab less(3,4) by simp
  show ?case
  proof (cases "i = e \<or> m ! i = COMMA")
    case True
    then have ae: "(if i = e then Some True else do { c \<leftarrow> rd m i; Some (c = COMMA) }) = Some True"
      using less(3,4) by (cases "i = e") (simp_all add: rd_def)
    have "segments_loop m e i num_start out =
        (if strip (part m num_start i) = [] then segments_loop m e (i + 1) (i + 1) out
         else if length out \<ge> FREQ_LIST_NUM then Some (-2, out)
         else if value_of (strip (part m num_start i)) 0 = -1 then Some (-3, out)
         else segments_loop m e (i + 1) (i + 1) (out @ [value_of (strip (part m num_start i)) 0]))"
      by (subst segments_loop.simps) (simp only: ae ab(1,2) e v leD[OF less(3)] if_False if_True simp_thms Option.bind.simps)
    also have "\<dots> = Some (take_fields out (split_fields (part m num_start i) (part m i e)))"
    proof (cases "i = e")
      case i: True
      then show ?thesis by (simp add: nxt[unfolded i])
    next
      case False
      then have "split_fields (part m num_start i) (part m i e) = part m num_start i # split_fields [] (part m (Suc i) e)"
        using True False less(3,4) part_Cons[of i e m] by simp
      then show ?thesis using False by (simp add: nxt)
    qed
    finally show ?thesis .
  next
    case False
    then have "segments_loop m e i num_start out = segments_loop m e (i + 1) num_start out"
      using less(3,4) by (subst segments_loop.simps) (simp add: rd_def)
    also have "\<dots> = Some (take_fields out (split_fields (part m num_start (i + 1)) (part m (i + 1) e)))"
      using less(1)[of "i + 1" num_start out] False less(2-4) by (simp add: diff_less_mono2)
    finally show ?thesis using False less(2-4) part_Cons[of i e m] part_snoc[of num_start i m] by simp
  qed
qed

lemma str_to_int_array_eq:
  assumes "0 \<notin> set x"
  shows "str_to_int_array (x @ 0 # r) = Some (if strip x = [] then (-1, []) else take_fields [] (split_fields [] (strip x)))"
proof -
  have n: "rt_strlen (x @ 0 # r) = Some (length x)" using assms by (induction x) auto
  have s: "part (x @ 0 # r) 0 (length x) = x" by (simp add: part_def)
  obtain a b where ab: "skip_spaces (x @ 0 # r) 0 (length x) = Some a" "drop_spaces (x @ 0 # r) a (length x) = Some b" "a \<le> b" "b \<le> length x"
      "part (x @ 0 # r) a b = strip x"
    using strip_part[of 0 "length x" "x @ 0 # r"] s by auto
  have "a \<ge> b \<longleftrightarrow> strip x = []" using ab(3-5) by (metis diff_is_0_eq length_0_conv length_part le_trans length_append le_add1)
  then show ?thesis
    using n ab segments_loop_eq[of a a b "x @ 0 # r" "[]"] by (simp add: str_to_int_array_def)
qed

section \<open>Typed frequencies\<close>

lemma decimal_digits: "c \<in> set (digits 10 n) \<Longrightarrow> \<exists>d < 10. c = digit_char d"
proof (induction "10 :: nat" n rule: digits.induct)
  case (1 n)
  have "n < 10 \<or> c \<in> set (digits 10 (n div 10)) \<or> c = digit_char (n mod 10)" "n < 10 \<Longrightarrow> c = digit_char n"
    using 1(2) by (subst (asm) digits.simps; force split: if_splits)+
  then show ?case using 1(1) by (cases "n < 10") (auto intro: exI[of _ "n mod 10"])
qed

lemma decimal_char: "d < 10 \<Longrightarrow> \<not> digit_char d < 48 \<and> \<not> digit_char d > 57 \<and> digit_char d \<noteq> 0 \<and> ucast (digit_char d) - 48 = (of_nat d :: u32) \<and> \<not> is_space (digit_char d)"
proof -
  have "\<forall>d \<in> set [0..<10]. \<not> digit_char d < 48 \<and> \<not> digit_char d > 57 \<and> digit_char d \<noteq> 0 \<and> ucast (digit_char d) - 48 = (of_nat d :: u32) \<and> \<not> is_space (digit_char d)"
    by code_simp
  then show "d < 10 \<Longrightarrow> ?thesis" by simp
qed

lemma value_of_append: "(\<And>c. c \<in> set x \<Longrightarrow> \<not> c < 48 \<and> \<not> c > 57) \<Longrightarrow> value_of (x @ y) num = value_of y (value_of x num)"
  by (induction x arbitrary: num) auto

lemma value_of_decimal: "value_of (digits 10 n) 0 = of_nat n"
proof (induction n rule: less_induct)
  case (less n)
  show ?case
  proof (cases "n < 10")
    case True
    then have "digits 10 n = [digit_char n]" by (subst digits.simps) simp
    then show ?thesis using decimal_char[OF True] by simp
  next
    case False
    then have d: "digits 10 n = digits 10 (n div 10) @ [digit_char (n mod 10)]" by (subst digits.simps) simp
    have "value_of (digits 10 n) 0 = value_of [digit_char (n mod 10)] (of_nat (n div 10))"
      unfolding d using decimal_digits decimal_char False less by (subst value_of_append) (fastforce, simp)
    also have "\<dots> = of_nat (n div 10) * 10 + of_nat (n mod 10)"
      using decimal_char[of "n mod 10"] by simp
    also have "\<dots> = of_nat n" by (metis div_mult_mod_eq of_nat_add of_nat_mult of_nat_numeral)
    finally show ?thesis .
  qed
qed

lemma strip_none: "(\<And>c. c \<in> set x \<Longrightarrow> \<not> is_space c) \<Longrightarrow> strip x = x"
proof -
  assume a: "\<And>c. c \<in> set x \<Longrightarrow> \<not> is_space c"
  then have "dropWhile is_space x = x" by (cases x) auto
  moreover from a have "dropWhile is_space (rev x) = rev x" by (cases "rev x") (auto simp flip: set_rev[of x])
  ultimately show ?thesis by (simp add: strip_def)
qed

lemma strip_line: "(\<And>c. c \<in> set x \<Longrightarrow> \<not> is_space c) \<Longrightarrow> strip (x @ [13, 10]) = x"
proof -
  assume a: "\<And>c. c \<in> set x \<Longrightarrow> \<not> is_space c"
  show ?thesis
  proof (cases "x = []")
    case False
    then have "dropWhile is_space (x @ [13, 10]) = x @ [13, 10]" using a by (cases x) auto
    moreover have "dropWhile is_space (rev (x @ [13, 10])) = dropWhile is_space (rev x)" by (simp add: is_space_def)
    moreover have "dropWhile is_space (rev x) = rev x" using a by (cases "rev x") (auto simp flip: set_rev[of x])
    ultimately show ?thesis by (simp add: strip_def)
  qed (simp add: strip_def is_space_def)
qed

lemma split_field: "COMMA \<notin> set x \<Longrightarrow> split_fields cur (x @ y) = split_fields (cur @ x) y"
  by (induction x arbitrary: cur) auto

lemma split_commas: "xs \<noteq> [] \<Longrightarrow> (\<And>x. x \<in> set xs \<Longrightarrow> COMMA \<notin> set x) \<Longrightarrow> split_fields [] (commas xs) = xs"
proof (induction xs rule: commas.induct)
  case (2 x)
  then show ?case using split_field[of x "[]" "[]"] by simp
next
  case (3 x y xs)
  then show ?case using split_field[of x "[]" "44 # commas (y # xs)"] by (simp add: COMMA_def)
qed simp

lemma take_fields_typed:
  "length out + length fs \<le> 16 \<Longrightarrow> (\<And>f. f \<in> set fs \<Longrightarrow> f < 2 ^ 32 - 1) \<Longrightarrow>
     take_fields out (map (digits 10) fs) = (0, out @ map of_nat fs)"
proof (induction fs arbitrary: out)
  case (Cons f fs)
  have s: "strip (digits 10 f) = digits 10 f" using decimal_digits decimal_char by (intro strip_none) fastforce
  have "f < 2 ^ 32 - 1" using Cons(3) by simp
  then have "unat (of_nat f :: u32) \<noteq> unat (-1 :: u32)" by (simp add: unat_of_nat take_bit_nat_eq_self unsigned_minus_1_eq_mask mask_eq_exp_minus_1)
  then have "(of_nat f :: u32) \<noteq> -1" by metis
  then show ?case using Cons(1)[of "out @ [of_nat f]"] Cons(2,3) s by (simp add: value_of_decimal FREQ_LIST_NUM_def)
qed simp

lemma typed_line:
  assumes "fs \<noteq> []" "length fs \<le> 16" "\<And>f. f \<in> set fs \<Longrightarrow> f < 2 ^ 32 - 1"
  shows "str_to_int_array (commas (map (digits 10) fs) @ [13, 10, 0]) = Some (0, map of_nat fs)"
proof -
  let ?t = "commas (map (digits 10) fs)"
  have c: "c = 44 \<or> (\<exists>d < 10. c = digit_char d)" if "c \<in> set ?t" for c
    using set_commas[of "map (digits 10) fs"] that decimal_digits by fastforce
  have "\<not> is_space c \<and> c \<noteq> 0" if "c \<in> set ?t" for c
    using c[OF that] decimal_char by (auto simp: is_space_def[of 44])
  then have "strip (?t @ [13, 10]) = ?t" "0 \<notin> set (?t @ [13, 10])" using strip_line[of ?t] by auto
  moreover have "?t \<noteq> []" using assms(1) by (cases fs rule: list.exhaust; cases "tl fs") (auto simp: commas_Cons)
  moreover have "split_fields [] ?t = map (digits 10) fs"
    using assms(1) digits_field[of 10] by (intro split_commas) (auto simp: field_def COMMA_def)
  ultimately show ?thesis using str_to_int_array_eq[of "?t @ [13, 10]" "[]"] take_fields_typed[of "[]" fs] assms(2,3) by simp
qed

section \<open>Bands\<close>

definition band_lo :: "nat \<Rightarrow> nat" where "band_lo b = unat (fst (FREQ_RANGES ! b))"
definition band_hi :: "nat \<Rightarrow> nat" where "band_hi b = unat (snd (FREQ_RANGES ! b))"

text \<open>The last band of the table that has a frequency.\<close>

definition band_of :: "nat \<Rightarrow> nat option" where
  "band_of f = find (\<lambda>b. band_lo b \<le> f \<and> f \<le> band_hi b) (rev [0..<FREQ_SPECTRUM_COUNT])"

definition raster_index :: "nat \<Rightarrow> nat \<Rightarrow> u8" where
  "raster_index b f = of_nat ((f - band_lo b) div 200000)"

lemma bands_loop_eq:
  assumes "f < 2 ^ 32" "n \<le> 8"
  shows "bands_loop (of_nat f) n =
    (case find (\<lambda>b. band_lo b \<le> f \<and> f \<le> band_hi b) (rev [0..<n]) of
       None \<Rightarrow> (1, None)
     | Some b \<Rightarrow> (of_nat (band_lo b), Some (of_nat b, of_nat (band_lo b) + (of_nat f - of_nat (band_lo b)) div 200000 * 200000)))"
  using assms(2)
proof (induction n)
  case (Suc n)
  have w: "(of_nat f \<ge> x) = (unat x \<le> f)" "(of_nat f \<le> x) = (f \<le> unat x)" for x :: u32
    using assms(1) by (simp_all add: word_le_nat_alt unat_of_nat take_bit_nat_eq_self)
  show ?case
    using Suc by (cases "FREQ_RANGES ! n") (simp add: w band_lo_def band_hi_def DEFAULE_BW_HZ_def)
qed simp

text \<open>A band has at most 201 places on its raster, and as many as the table says.\<close>

lemma below_eight: "b < 8 \<Longrightarrow> b = 0 \<or> b = 1 \<or> b = 2 \<or> b = 3 \<or> b = 4 \<or> b = 5 \<or> b = 6 \<or> b = (7 :: nat)"
  by arith

lemma bands:
  "map band_lo [0, 1, 2, 3, 4, 5, 6, 7] = [223000000, 400000000, 433050000, 470000000, 779000000, 840000000, 863000000, 902000000]"
  "map band_hi [0, 1, 2, 3, 4, 5, 6, 7] = [235000000, 440000000, 434790000, 510000000, 787000000, 845000000, 870000000, 928000000]"
  "map (\<lambda>b. unat (at_get_max_freq_num (of_nat b))) [0, 1, 2, 3, 4, 5, 6, 7] = [60, 200, 8, 200, 40, 25, 35, 130]"
  by (simp_all add: band_lo_def band_hi_def FREQ_RANGES_def at_get_max_freq_num_def FREQ_SPECTRUM_COUNT_def g_max_freq_num_table_def)

lemma bands_ok: "b < 8 \<Longrightarrow> band_lo b \<le> band_hi b \<and> band_hi b < 2 ^ 32 \<and> 1 < band_lo b \<and>
    (band_hi b - band_lo b) div 200000 \<le> unat (at_get_max_freq_num (of_nat b)) \<and> unat (at_get_max_freq_num (of_nat b)) \<le> 200"
  using bands by (elim disjE[OF below_eight] disjE; simp)

lemma bands_differ: "b < 8 \<Longrightarrow> c < 8 \<Longrightarrow> band_lo b = band_lo c \<Longrightarrow> b = c"
  using bands(1) by (elim disjE[OF below_eight[of b]] disjE[OF below_eight[of c]] disjE; simp)

lemma band_of_Some: "band_of f = Some b \<Longrightarrow> b < 8 \<and> band_lo b \<le> f \<and> f \<le> band_hi b"
  by (auto simp: band_of_def find_Some_iff FREQ_SPECTRUM_COUNT_def)
    (metis add_lessD1 diff_less_Suc less_Suc_eq_0_disj nth_mem rev_nth set_rev set_upt atLeastLessThan_iff length_rev length_upt diff_zero)

lemma freq_to_index:
  assumes "band_of f = Some b"
  shows "(ucast (FREQ_TO_INDEX (of_nat (band_lo b) + (of_nat f - of_nat (band_lo b)) div 200000 * 200000) (of_nat (band_lo b))) :: u8) = raster_index b f"
    "raster_index b f \<le> at_get_max_freq_num (of_nat b)" "unat (raster_index b f) = (f - band_lo b) div 200000" "raster_index b f \<noteq> INVALID_FREQ"
proof -
  have b: "b < 8" "band_lo b \<le> f" "f \<le> band_hi b" "f < 2 ^ 32"
    using band_of_Some[OF assms] bands_ok[of b] by auto
  let ?k = "(f - band_lo b) div 200000"
  have k: "?k \<le> unat (at_get_max_freq_num (of_nat b))" "?k \<le> 200"
    using bands_ok[OF b(1)] b(3) div_le_mono[of "f - band_lo b" "band_hi b - band_lo b" 200000] by linarith+
  show i: "unat (raster_index b f) = ?k" using k(2) by (simp add: raster_index_def unat_of_nat take_bit_nat_eq_self)
  show "raster_index b f \<le> at_get_max_freq_num (of_nat b)" using k(1) i by (simp add: word_le_nat_alt)
  show "raster_index b f \<noteq> INVALID_FREQ" using k(2) i by (auto simp: INVALID_FREQ_def)
  have w: "(of_nat (band_lo b) + (of_nat f - of_nat (band_lo b)) div 200000 * 200000 - of_nat (band_lo b) :: u32) = of_nat (?k * 200000)"
  proof -
    have "of_nat f - of_nat (band_lo b) = (of_nat (f - band_lo b) :: u32)" using b(2) by (simp add: of_nat_diff)
    moreover have "(of_nat (f - band_lo b) :: u32) div 200000 = of_nat ?k"
      using b(4) by (intro word_unat_eq_iff[THEN iffD2]) (simp add: unat_div unat_of_nat take_bit_nat_eq_self)
    ultimately show ?thesis by simp
  qed
  have "unat (of_nat (?k * 200000) div 200000 :: u32) = ?k"
    using k(2) by (simp add: unat_div unat_of_nat take_bit_nat_eq_self del: of_nat_mult)
  then show "(ucast (FREQ_TO_INDEX (of_nat (band_lo b) + (of_nat f - of_nat (band_lo b)) div 200000 * 200000) (of_nat (band_lo b))) :: u8) = raster_index b f"
    using k(2) unfolding FREQ_TO_INDEX_def DEFAULE_BW_HZ_def w
    by (intro word_unat_eq_iff[THEN iffD2]) (simp add: i unsigned_ucast_eq take_bit_nat_eq_self)
qed

lemma base_freq_eq:
  assumes "f < 2 ^ 32"
  shows "at_get_base_freq_and_spectrum_idx (of_nat f) =
    (case band_of f of
       None \<Rightarrow> (1, None)
     | Some b \<Rightarrow> (of_nat (band_lo b), Some (of_nat b, of_nat (band_lo b) + (of_nat f - of_nat (band_lo b)) div 200000 * 200000)))"
  using bands_loop_eq[OF assms, of 8] by (simp add: at_get_base_freq_and_spectrum_idx_def band_of_def FREQ_SPECTRUM_COUNT_def)

lemma base_differs:
  assumes "b < 8" "c < 8" "b \<noteq> c"
  shows "(of_nat (band_lo b) :: u32) \<noteq> of_nat (band_lo c)" "(of_nat (band_lo b) :: u32) \<noteq> 1" "(0 :: u32) < of_nat (band_lo b)"
proof -
  have l: "band_lo b < 2 ^ 32" "band_lo c < 2 ^ 32" "1 < band_lo b" using bands_ok assms by fastforce+
  then have u: "unat (of_nat (band_lo b) :: u32) = band_lo b" "unat (of_nat (band_lo c) :: u32) = band_lo c"
    by (simp_all add: unat_of_nat take_bit_nat_eq_self)
  show "(of_nat (band_lo b) :: u32) \<noteq> of_nat (band_lo c)" using u bands_differ[OF assms(1,2)] assms(3) by metis
  show "(of_nat (band_lo b) :: u32) \<noteq> 1" using u(1) l(3) by auto
  show "(0 :: u32) < of_nat (band_lo b)" using u(1) l(3) by (simp add: word_less_nat_alt)
qed

text \<open>Within a band the loop goes on, and it stops at the first frequency of another band or of none.\<close>

lemma indices_loop_band:
  assumes "b < 8" "\<And>f. f \<in> set fs \<Longrightarrow> f < 2 ^ 32"
  shows "indices_loop (map of_nat fs) (of_nat (band_lo b)) (of_nat (band_lo b), of_nat b, a) is =
     (if \<forall>f \<in> set fs. band_of f = Some b then Inr (is @ map (raster_index b) fs, of_nat b, of_nat (band_lo b)) else Inl 2)"
  using assms(2)
proof (induction fs arbitrary: a "is")
  case (Cons f fs)
  have p: "(0 :: u32) < of_nat (band_lo b)" "(of_nat (band_lo b) :: u32) \<noteq> 1"
    using base_differs[OF assms(1), of "if b = 0 then 1 else 0"] assms(1) by auto
  show ?case
  proof (cases "band_of f")
    case None
    then show ?thesis using base_freq_eq[of f] Cons(2) p by simp
  next
    case (Some c)
    show ?thesis
    proof (cases "c = b")
      case True
      then show ?thesis using base_freq_eq[of f] Cons Some freq_to_index(1)[of f b] freq_to_index(2)[of f b, THEN leD] by (simp add: Let_def)
    next
      case False
      then show ?thesis using base_freq_eq[of f] Cons(2) Some p(1) base_differs(1)[OF _ assms(1) False] band_of_Some[OF Some] by simp
    qed
  qed
qed simp

lemma indices_loop_typed:
  assumes "fs \<noteq> []" "\<And>f. f \<in> set fs \<Longrightarrow> f < 2 ^ 32"
  shows "indices_loop (map of_nat fs) 0 (0, 0, 0) [] =
     (case band_of (hd fs) of
        None \<Rightarrow> Inl 3
      | Some b \<Rightarrow> if \<forall>f \<in> set fs. band_of f = Some b then Inr (map (raster_index b) fs, of_nat b, of_nat (band_lo b)) else Inl 2)"
proof (cases fs)
  case (Cons f fs')
  show ?thesis
  proof (cases "band_of f")
    case None
    have "\<not> (226 :: u8) \<le> 60" "(ucast ((0 - 1 :: u32) div 200000) :: u8) = 226" by simp_all
    then show ?thesis using Cons None base_freq_eq[of f] assms(2)
      by (simp add: FREQ_TO_INDEX_def DEFAULE_BW_HZ_def at_get_max_freq_num_def FREQ_SPECTRUM_COUNT_def g_max_freq_num_table_def not_less)
  next
    case (Some b)
    then show ?thesis
      using Cons base_freq_eq[of f] assms(2) freq_to_index(1)[OF Some] freq_to_index(2)[OF Some, THEN leD] indices_loop_band[of b fs'] band_of_Some[OF Some]
      by (simp add: Let_def)
  qed
qed (use assms in simp)

text \<open>C12. Frequencies in Hz that a host types, separated by commas. A line of up to 16 of them is accepted exactly
  when one band of the table is the last that has each of them. The result is then the list of their
  indices on the raster of 200 kHz of that band, rounded down, of which none is the end mark 255, and the end
  mark behind; the band; and its base.
\<close>

theorem typed_frequencies:
  assumes "fs \<noteq> []" "length fs \<le> 16" "\<And>f. f \<in> set fs \<Longrightarrow> f < 2 ^ 32 - 1"
  shows "at_get_freq_list (commas (map (digits 10) fs) @ [13, 10, 0]) =
      Some (case band_of (hd fs) of
              None \<Rightarrow> Inl 3
            | Some b \<Rightarrow>
                if \<forall>f \<in> set fs. band_of f = Some b then
                  Inr \<lparr>rq_list = map (raster_index b) fs @ (if length fs < 16 then 255 # replicate (15 - length fs) 0 else []),
                       rq_num = length fs, rq_spectrum = of_nat b, rq_base = of_nat (band_lo b)\<rparr>
                else Inl 2) \<and>
    (\<forall>f b. band_of f = Some b \<longrightarrow> unat (raster_index b f) = (f - band_lo b) div 200000 \<and> raster_index b f \<noteq> 255)"
proof -
  have l: "\<And>f. f \<in> set fs \<Longrightarrow> f < 2 ^ 32" using assms(3) by fastforce
  then show ?thesis
    using typed_line[OF assms] assms(2) indices_loop_typed[OF assms(1) l] freq_to_index(3,4)
    by (auto simp: at_get_freq_list_def FREQ_LIST_NUM_def INVALID_FREQ_def split: option.split)
qed

lemma two_frequencies: "commas (map (digits 10) [471000000, 502000000]) = [52, 55, 49, 48, 48, 48, 48, 48, 48, 44, 53, 48, 50, 48, 48, 48, 48, 48, 48]"
  by (simp add: digits.simps digit_char_def)

lemma band_list: "rev [0..<8] = [7, 6, 5, 4, 3, 2, 1, 0 :: nat]"
  by code_simp

theorem typed_frequencies_witness:
  "at_get_freq_list [52, 55, 49, 48, 48, 48, 48, 48, 48, 44, 53, 48, 50, 48, 48, 48, 48, 48, 48, 13, 10, 0] =
     Some (Inr \<lparr>rq_list = [5, 160, 255] @ replicate 13 0, rq_num = 2, rq_spectrum = 3, rq_base = 470000000\<rparr>)"
proof -
  have "band_of 471000000 = Some 3" "band_of 502000000 = Some 3" "band_lo 3 = 470000000"
    using bands by (simp_all add: band_of_def FREQ_SPECTRUM_COUNT_def band_list)
  moreover have "\<And>f. f \<in> set [471000000, 502000000] \<Longrightarrow> f < 2 ^ 32 - (1 :: nat)" by auto
  ultimately show ?thesis
    using typed_frequencies[of "[471000000, 502000000]", THEN conjunct1] unfolding two_frequencies
    by (simp add: raster_index_def numeral_2_eq_2)
qed

text \<open>A line without any number, such as a comma, is accepted, with the base 0.\<close>

lemma no_frequencies:
  "at_get_freq_list [44, 13, 10, 0] = Some (Inr \<lparr>rq_list = 255 # replicate 15 0, rq_num = 0, rq_spectrum = 0, rq_base = 0\<rparr>)"
  using str_to_int_array_eq[of "[44, 13, 10]" "[]"]
  by (simp add: at_get_freq_list_def strip_def is_space_def COMMA_def FREQ_LIST_NUM_def INVALID_FREQ_def)

text \<open>433 MHz lies in two bands, of which the table prefers the second, so it cannot stand beside 400 MHz.\<close>

lemma overlapping_bands: "band_of 433400000 = Some 2" "band_of 400000000 = Some 1" "band_lo 1 \<le> 433400000" "433400000 \<le> band_hi 1"
  using bands by (simp_all add: band_of_def FREQ_SPECTRUM_COUNT_def band_list)

end
