(* ===== verification/SimpleLink.thy ===== *)
theory SimpleLink
  imports SimpleFreq AtRadio
begin

text \<open>
  The connection of the simplified AT commands, \<^verbatim>\<open>PS/at_simplified/at_simplified.c\<close>: the settings, the task
  that connects and scans on messages from a queue, and the commands for address, power, rate and
  frequency. The message queue holds ten messages, the semaphore is a number.

  The radio of this build is restarted when a setting needs it. The task is cut where it looks at the
  request for a scan of another thread, between two attempts to connect.
\<close>

section \<open>State\<close>

record rate_mode_t =
  rm_symbol_length :: u8
  rm_dlul_ratio :: u8
  rm_mcs :: u8

definition RATE_MODE_MAP :: "rate_mode_t list" where
  "RATE_MODE_MAP =
    [\<lparr>rm_symbol_length = 0, rm_dlul_ratio = 1, rm_mcs = 3\<rparr>, \<lparr>rm_symbol_length = 0, rm_dlul_ratio = 1, rm_mcs = 2\<rparr>,
     \<lparr>rm_symbol_length = 1, rm_dlul_ratio = 1, rm_mcs = 3\<rparr>, \<lparr>rm_symbol_length = 1, rm_dlul_ratio = 1, rm_mcs = 2\<rparr>,
     \<lparr>rm_symbol_length = 1, rm_dlul_ratio = 1, rm_mcs = 1\<rparr>, \<lparr>rm_symbol_length = 1, rm_dlul_ratio = 1, rm_mcs = 0\<rparr>,
     \<lparr>rm_symbol_length = 2, rm_dlul_ratio = 1, rm_mcs = 0\<rparr>, \<lparr>rm_symbol_length = 3, rm_dlul_ratio = 1, rm_mcs = 0\<rparr>]"

definition DEFAULT_SUBSYSTEMID :: u32 where "DEFAULT_SUBSYSTEMID = 354689"
definition MAX_SUBSYSTEMID :: u32 where "MAX_SUBSYSTEMID = 16777215"
definition DEFAULE_FREQ :: u32 where "DEFAULE_FREQ = 502000000"
definition DEFAULE_POWER :: u8 where "DEFAULE_POWER = 20"
definition DEFAULE_RATE_MODE :: u8 where "DEFAULE_RATE_MODE = 4"
definition RATE_MODE_OFFSET :: nat where "RATE_MODE_OFFSET = 1"
definition USERID_LENGTH :: u8 where "USERID_LENGTH = 4"
definition SCAN_SINGLE_TIMEOUT :: u32 where "SCAN_SINGLE_TIMEOUT = 10000"
definition CONNECT_SYNC_TIMEOUT :: int where "CONNECT_SYNC_TIMEOUT = 5000"
definition CONNECT_RETRY_COUNT :: u8 where "CONNECT_RETRY_COUNT = 2"
definition WIOTA_MQ_MSG_QUEUE_SIZE :: nat where "WIOTA_MQ_MSG_QUEUE_SIZE = 10"
definition AUTH_CODE_LEN :: nat where "AUTH_CODE_LEN = 18"

datatype connect_state_e = SYNC_SUC | SYNC_FAIL | SYNC_LOST

record scan_msg_t =
  sm_freq_list :: "u8 list"
  sm_freq_num :: nat
  sm_base_freq :: u32
  sm_timeout :: u32

datatype wiota_msg = WIOTA_CMD_CONNECT | WIOTA_CMD_SCAN_FREQ ptr scan_msg_t

record simple = sys +
  sl_addr :: u32
  sl_subsystemid :: u32
  sl_base_freq :: u32
  sl_cur_freq :: u32
  sl_spectrum_idx :: u8
  sl_power :: u8
  sl_rate_mode :: u8
  sl_rate_mode_map :: "rate_mode_t list"
  wiota_mq :: "wiota_msg list"
  scan_sem :: nat
  init_flag :: bool
  scan_result_flag :: bool
  is_scan_req :: bool
  connnect_state :: connect_state_e
  is_gateway_mode :: bool
  sl_gw_mode :: u8
  gw_auth_code :: "u8 list"
  ota_start_addr :: u32
  ota_file_size :: u32
  ota_file_md5 :: "u8 list"
  sl_gw :: gw
  sl_task :: task_pc

lemma simple_fields [simp]:
  "hist (sl_addr_update f1 s) = hist s" "hist (wiota_mq_update f2 s) = hist s" "hist (scan_sem_update f3 s) = hist s"
  "hist (is_scan_req_update f4 s) = hist s" "hist (connnect_state_update f5 s) = hist s" "hist (sl_cur_freq_update f6 s) = hist s"
  "wiota_mq (hist_update f s) = wiota_mq s" "init_flag (hist_update f s) = init_flag s" "is_scan_req (hist_update f s) = is_scan_req s"
  "connnect_state (hist_update f s) = connnect_state s" "is_gateway_mode (hist_update f s) = is_gateway_mode s"
  "sl_base_freq (hist_update f s) = sl_base_freq s" "scan_sem (hist_update f s) = scan_sem s"
  for s :: simple
  by (cases s; simp)+

definition init_simple :: simple where
  "init_simple = \<lparr>hist = [], sl_addr = 0, sl_subsystemid = 0, sl_base_freq = 0, sl_cur_freq = 0, sl_spectrum_idx = 0, sl_power = 0,
     sl_rate_mode = 0, sl_rate_mode_map = replicate 8 \<lparr>rm_symbol_length = 0, rm_dlul_ratio = 0, rm_mcs = 0\<rparr>,
     wiota_mq = [], scan_sem = 0, init_flag = False, scan_result_flag = False, is_scan_req = False, connnect_state = SYNC_SUC,
     is_gateway_mode = False, sl_gw_mode = 0, gw_auth_code = replicate AUTH_CODE_LEN 0, ota_start_addr = 0, ota_file_size = 0,
     ota_file_md5 = replicate 36 0, sl_gw = init_gw, sl_task = T_none\<rparr>"

definition on_sl_gw :: "(gw \<Rightarrow> ('a \<times> gw) option) \<Rightarrow> simple \<Rightarrow> ('a \<times> simple) option" where
  "on_sl_gw f s = do { (x, g) \<leftarrow> f ((sl_gw s)\<lparr>hist := hist s\<rparr>); Some (x, s\<lparr>hist := hist g, sl_gw := g\<rparr>) }"

definition sl_gateway_end :: "env \<Rightarrow> simple \<Rightarrow> simple option" where
  "sl_gateway_end e s =
     do { ((rc, t), s) \<leftarrow> on_sl_gw (uc_wiota_gateway_end e (sl_task s)) s; Some (s\<lparr>sl_task := t\<rparr>) }"

section \<open>Settings\<close>

definition at_set_address :: "env \<Rightarrow> u32 \<Rightarrow> simple \<Rightarrow> int \<times> simple" where
  "at_set_address e addr s =
     (if sl_addr s \<noteq> addr then
        (let s = emit (C_wiota (W_set_userid addr USERID_LENGTH)) s
         in if e_lib e (hist s) ''uc_wiota_set_userid'' = 0 then (0, s\<lparr>sl_addr := addr\<rparr>) else (1, s))
      else (0, s))"

definition at_set_subsystemid :: "env \<Rightarrow> u32 \<Rightarrow> simple \<Rightarrow> int \<times> simple" where
  "at_set_subsystemid e subsystemid s =
     (if sl_subsystemid s \<noteq> subsystemid then
        (let s = emit (C_wiota (W_set_system_config ((e_system_config e (hist s))\<lparr>cfg_subsystemid := subsystemid\<rparr>))) s
         in if e_lib e (hist s) ''uc_wiota_set_system_config'' \<noteq> 0 then (0, s\<lparr>sl_subsystemid := subsystemid\<rparr>) else (1, s))
      else (0, s))"

definition at_set_power :: "u8 \<Rightarrow> simple \<Rightarrow> int \<times> simple" where
  "at_set_power pw s =
     (if sl_power s \<noteq> pw then (0, emit (C_wiota (W_set_cur_power pw)) (s\<lparr>sl_power := pw\<rparr>)) else (0, s))"

definition g_max_awaken_id_table :: "u16 list" where
  "g_max_awaken_id_table = [1023, 4095, 16383, 65535]"

text \<open>The rate mode is used as an index without its offset.\<close>

definition at_get_max_awaken_id :: "simple \<Rightarrow> u16 option" where
  "at_get_max_awaken_id s =
     do { rate_mode \<leftarrow> rd (sl_rate_mode_map s) (unat (sl_rate_mode s));
          rd g_max_awaken_id_table (unat (rm_symbol_length rate_mode)) }"

definition rate_mode_of :: "u8 \<Rightarrow> simple \<Rightarrow> rate_mode_t option" where
  "rate_mode_of rate s =
     do { guard (unat rate \<ge> RATE_MODE_OFFSET); rd (sl_rate_mode_map s) (unat rate - RATE_MODE_OFFSET) }"

section \<open>Messages\<close>

definition at_printf_connect_state :: "simple \<Rightarrow> simple" where
  "at_printf_connect_state s =
     at_say (case connnect_state s of SYNC_SUC \<Rightarrow> ''+CONST:SYNC_SUC'' | SYNC_FAIL \<Rightarrow> ''+CONST:SYNC_FAIL'' | SYNC_LOST \<Rightarrow> ''+CONST:SYNC_LOST'') [] s"

definition wiota_get_freq_list :: "env \<Rightarrow> simple \<Rightarrow> u8 list" where
  "wiota_get_freq_list e s = takeWhile (\<lambda>f. f \<noteq> INVALID_FREQ) (take FREQ_LIST_NUM (e_freq_list e (hist s)))"

definition wiota_send_msg :: "wiota_msg \<Rightarrow> simple \<Rightarrow> (int \<times> simple) option" where
  "wiota_send_msg msg s =
     do { guard (init_flag s);
          Some (if length (wiota_mq s) < WIOTA_MQ_MSG_QUEUE_SIZE then (0, s\<lparr>wiota_mq := wiota_mq s @ [msg]\<rparr>) else (1, s)) }"

text \<open>The values are the callback (0 for none, 1 for that of the file) and its type.\<close>

definition register_recv :: "int \<Rightarrow> 'a sys_scheme \<Rightarrow> 'a sys_scheme" where
  "register_recv cb s =
     lib ''uc_wiota_register_recv_data_callback'' [cb, 1] (lib ''uc_wiota_register_recv_data_callback'' [cb, 0] s)"

definition wiota_send_connect_msg :: "env \<Rightarrow> simple \<Rightarrow> simple option" where
  "wiota_send_connect_msg e s =
     do { let s = register_recv 0 s;
          s \<leftarrow> (if is_gateway_mode s then sl_gateway_end e s else Some s);
          (_, s) \<leftarrow> wiota_send_msg WIOTA_CMD_CONNECT s;
          Some s }"

definition sizeof_scan_msg :: nat where "sizeof_scan_msg = 28"

definition wiota_send_scan_freq_msg :: "env \<Rightarrow> u8 list option \<Rightarrow> nat \<Rightarrow> u32 \<Rightarrow> u32 \<Rightarrow> simple \<Rightarrow> (int \<times> simple) option" where
  "wiota_send_scan_freq_msg e freq_list freq_num base_freq timeout s =
     (case rt_malloc e sizeof_scan_msg s of
        (None, s) \<Rightarrow> Some (1, s)
      | (Some p, s) \<Rightarrow>
          do { fs \<leftarrow> (case freq_list of
                        None \<Rightarrow> Some (replicate FREQ_LIST_NUM 0)
                      | Some l \<Rightarrow> do { bs \<leftarrow> rdn l 0 freq_num; wr (replicate FREQ_LIST_NUM 0) 0 bs });
               (rc, s) \<leftarrow> wiota_send_msg (WIOTA_CMD_SCAN_FREQ p
                   \<lparr>sm_freq_list = fs, sm_freq_num = freq_num, sm_base_freq = base_freq, sm_timeout = timeout\<rparr>) s;
               Some (if rc \<noteq> 0 then (2, rt_free (Some p) s) else (0, s)) })"

section \<open>Scanning\<close>

text \<open>The strongest synchronised gateway, the first of equal ones.\<close>

fun best_loop :: "uc_freq_scan_result list \<Rightarrow> (u8 \<times> u8) option \<Rightarrow> (u8 \<times> u8) option" where
  "best_loop [] b = b"
| "best_loop (r # rs) b =
     best_loop rs
       (if sr_is_synced r = 1 then
          (case b of
             None \<Rightarrow> Some (sr_rssi r, sr_freq_idx r)
           | Some (best_rssi, best_freq_idx) \<Rightarrow>
               if sint (sr_rssi r) > sint best_rssi then Some (sr_rssi r, sr_freq_idx r) else b)
        else b)"

text \<open>The counter of the results has 8 bits, so the loop does not end when there are 256 of them.\<close>

definition wiota_scan_freq_for_connect :: "env \<Rightarrow> u8 list \<Rightarrow> simple \<Rightarrow> (u8 \<times> simple) option" where
  "wiota_scan_freq_for_connect e freq_list s =
     (case uc_wiota_scan_freq e freq_list 0 (SCAN_SINGLE_TIMEOUT * of_nat (length freq_list)) s of
        ((UC_OP_SUCC, Some (p, rs)), s) \<Rightarrow>
          do { guard (length rs < 256);
               Some (case best_loop rs None of None \<Rightarrow> INVALID_FREQ | Some (_, f) \<Rightarrow> f, rt_free (Some p) s) }
      | (_, s) \<Rightarrow> Some (INVALID_FREQ, s))"

definition show_rssi :: "u32 \<Rightarrow> uc_freq_scan_result \<Rightarrow> 'a sys_scheme \<Rightarrow> 'a sys_scheme" where
  "show_rssi base_freq r s =
     at_say ''+RSSI'' [sint (INDEX_TO_FREQ (ucast (sr_freq_idx r)) base_freq), sint (sr_rssi r), uint (sr_is_synced r)] s"

definition wiota_scan_freq_for_rssi :: "env \<Rightarrow> scan_msg_t \<Rightarrow> simple \<Rightarrow> bool \<times> simple" where
  "wiota_scan_freq_for_rssi e m s =
     (case uc_wiota_scan_freq e (take (sm_freq_num m) (sm_freq_list m)) 0 (sm_timeout m) s of
        ((UC_OP_SUCC, Some (p, rs)), s) \<Rightarrow> (False, rt_free (Some p) (fold (show_rssi (sm_base_freq m)) rs s))
      | (_, s) \<Rightarrow> (True, s))"

section \<open>Connecting\<close>

definition wiota_connect_to_ap :: "env \<Rightarrow> simple \<Rightarrow> int \<times> simple" where
  "wiota_connect_to_ap e s =
     (let s = emit (C_wiota (W_wait_sync CONNECT_SYNC_TIMEOUT CONNECT_RETRY_COUNT)) (emit (C_wiota W_connect) s)
      in (if e_wait_sync e (hist s) \<noteq> 0 then 1 else 0, s))"

text \<open>Connecting ends with a result, or goes on with frequencies to try.\<close>

datatype connecting = Connect_done int | Connect_try "u8 list"

definition try_step :: "env \<Rightarrow> u8 list \<Rightarrow> simple \<Rightarrow> connecting \<times> simple" where
  "try_step e fs s =
     (case fs of
        [] \<Rightarrow> (Connect_done 1, s)
      | f # fs \<Rightarrow>
          if is_scan_req s then (Connect_done 1, s)
          else
            (let (r, s) = wiota_connect_to_ap e (emit (C_wiota (W_set_freq_info f)) s)
             in (if r = 0 then Connect_done 0 else Connect_try fs, s)))"

fun wiota_try_multi_freq_connect :: "env \<Rightarrow> u8 list \<Rightarrow> simple \<Rightarrow> int \<times> simple" where
  "wiota_try_multi_freq_connect e [] s = (1, s)"
| "wiota_try_multi_freq_connect e (f # fs) s =
     (case try_step e (f # fs) s of
        (Connect_done r, s) \<Rightarrow> (r, s)
      | (Connect_try fs', s) \<Rightarrow> wiota_try_multi_freq_connect e fs s)"

definition connect_begin :: "env \<Rightarrow> simple \<Rightarrow> (connecting \<times> simple) option" where
  "connect_begin e s =
     (if is_scan_req s then Some (Connect_done 1, s)
      else
        (case wiota_get_freq_list e s of
           [] \<Rightarrow> None
         | [f] \<Rightarrow> (case wiota_connect_to_ap e (emit (C_wiota (W_set_freq_info f)) s) of (r, s) \<Rightarrow> Some (Connect_done r, s))
         | freq_list \<Rightarrow>
             do { (best_freq_idx, s) \<leftarrow> wiota_scan_freq_for_connect e freq_list s;
                  if best_freq_idx = INVALID_FREQ then Some (Connect_try freq_list, s)
                  else (case wiota_connect_to_ap e (emit (C_wiota (W_set_freq_info best_freq_idx)) s) of
                          (r, s) \<Rightarrow> Some (Connect_done r, s)) }))"

definition wiota_connect :: "env \<Rightarrow> simple \<Rightarrow> (int \<times> simple) option" where
  "wiota_connect e s =
     do { (c, s) \<leftarrow> connect_begin e s;
          Some (case c of Connect_done r \<Rightarrow> (r, s) | Connect_try fs \<Rightarrow> wiota_try_multi_freq_connect e fs s) }"

section \<open>The gateway mode\<close>

definition AT_GATEWAY_DATA_CALLBACK :: nat where "AT_GATEWAY_DATA_CALLBACK = 5"
definition AT_GATEWAY_STATE_CALLBACK :: nat where "AT_GATEWAY_STATE_CALLBACK = 6"
definition AT_GATEWAY_EX_MCU_CALLBACK :: nat where "AT_GATEWAY_EX_MCU_CALLBACK = 7"

text \<open>
  The mode and the code are kept, to enter the mode again after a reconnection. The list of
  frequencies has no end mark: the places that are not used are 0.
\<close>

definition at_gateway_mode_enter :: "env \<Rightarrow> u8 \<Rightarrow> u8 list \<Rightarrow> simple \<Rightarrow> (int \<times> simple) option" where
  "at_gateway_mode_enter e mode key s =
     do { let g = snd (uc_wiota_gateway_register_user_recv_cb (Some AT_GATEWAY_DATA_CALLBACK) (Some AT_GATEWAY_STATE_CALLBACK) (sl_gw s));
          let s = s\<lparr>sl_gw := snd (uc_wiota_gateway_register_ex_mcu_cb (Some AT_GATEWAY_EX_MCU_CALLBACK) g)\<rparr>;
          freq_list \<leftarrow> wr (replicate FREQ_LIST_NUM 0) 0 (wiota_get_freq_list e s);
          code \<leftarrow> rdn key 0 AUTH_CODE_LEN;
          let s = s\<lparr>sl_gw_mode := mode, gw_auth_code := code\<rparr>;
          (init_state, s) \<leftarrow> on_sl_gw (uc_wiota_gateway_start e (gateway_mode_of (ucast mode)) (Some key) (Some freq_list)) s;
          let s = (if init_state = 0 then s\<lparr>sl_task := T_ready\<rparr> else s);
          let s = emit (C_os (O_thread_delay 2)) s;
          if init_state = 0 then Some (0, s) else do { s \<leftarrow> sl_gateway_end e s; Some (1, s) } }"

section \<open>The task\<close>

definition connect_end :: "env \<Rightarrow> int \<Rightarrow> simple \<Rightarrow> simple option" where
  "connect_end e r s =
     (if r = 0 then
        (let s = register_recv 1 s;
             s = s\<lparr>connnect_state := SYNC_SUC, sl_cur_freq := INDEX_TO_FREQ (ucast (e_freq_info e (hist s))) (sl_base_freq s)\<rparr>;
             s = at_printf_connect_state (at_say ''+FREQ'' [uint (sl_cur_freq s)] s)
         in if is_gateway_mode s then do { (_, s) \<leftarrow> at_gateway_mode_enter e (sl_gw_mode s) (gw_auth_code s) s; Some s } else Some s)
      else wiota_send_connect_msg e (at_printf_connect_state (s\<lparr>connnect_state := SYNC_FAIL\<rparr>)))"

definition scan_message :: "env \<Rightarrow> ptr \<Rightarrow> scan_msg_t \<Rightarrow> simple \<Rightarrow> simple option" where
  "scan_message e p m s =
     do { let (failed, s) = wiota_scan_freq_for_rssi e m s;
          let s = emit (C_ipc I_sem_release) (s\<lparr>scan_result_flag := failed, scan_sem := Suc (scan_sem s)\<rparr>);
          s \<leftarrow> (if connnect_state s = SYNC_SUC then
                  (let (r, s) = wiota_connect_to_ap e s in if r \<noteq> 0 then wiota_send_connect_msg e s else Some s)
                else wiota_send_connect_msg e s);
          Some (rt_free (Some p) (s\<lparr>is_scan_req := False\<rparr>)) }"

datatype link_pc = L_wait | L_try "u8 list"

definition link_connecting :: "env \<Rightarrow> connecting \<times> simple \<Rightarrow> (link_pc \<times> simple) option" where
  "link_connecting e r =
     (case r of
        (Connect_done rc, s) \<Rightarrow> do { s \<leftarrow> connect_end e rc s; Some (L_wait, s) }
      | (Connect_try fs, s) \<Rightarrow> Some (L_try fs, s))"

text \<open>A step of the task; while it waits and the queue is empty there is none.\<close>

definition link_step :: "env \<Rightarrow> link_pc \<Rightarrow> simple \<Rightarrow> (link_pc \<times> simple) option" where
  "link_step e l s =
     (case l of
        L_try fs \<Rightarrow> link_connecting e (try_step e fs s)
      | L_wait \<Rightarrow>
          (case wiota_mq s of
             [] \<Rightarrow> None
           | WIOTA_CMD_CONNECT # ms \<Rightarrow> do { r \<leftarrow> connect_begin e (s\<lparr>wiota_mq := ms\<rparr>); link_connecting e r }
           | WIOTA_CMD_SCAN_FREQ p m # ms \<Rightarrow> do { s \<leftarrow> scan_message e p m (s\<lparr>wiota_mq := ms\<rparr>); Some (L_wait, s) }))"

section \<open>Start\<close>

definition STATE_PINS :: "u8 list" where "STATE_PINS = [15, 17, 16]"

definition at_state_pin_init :: "simple \<Rightarrow> simple" where
  "at_state_pin_init s =
     fold (\<lambda>p s. emit (C_os (O_pin_write p False)) (emit (C_os (O_pin_mode p)) (lib ''gpio_set_pin_mux'' [uint p, 0] s))) STATE_PINS s"

text \<open>The objects are asserted to be created.\<close>

definition at_wiota_task_init :: "env \<Rightarrow> simple \<Rightarrow> simple option" where
  "at_wiota_task_init e s =
     (if init_flag s then Some s
      else
        do { let (mq, s) = lib_ok e ''rt_mq_create'' [12, int WIOTA_MQ_MSG_QUEUE_SIZE] s;
             guard mq;
             let s = emit (C_ipc I_sem_create) s;
             guard (e_sem_create e (hist s));
             let s = emit (C_os O_thread_create) s;
             guard (e_thread_create e (hist s));
             Some ((emit (C_os O_thread_startup) s)\<lparr>wiota_mq := [], scan_sem := 0, init_flag := True\<rparr>) })"

definition run_config :: "rate_mode_t \<Rightarrow> simple \<Rightarrow> sub_system_config \<Rightarrow> sub_system_config" where
  "run_config rate_mode s config =
     (let i = ucast (FREQ_TO_INDEX (sl_cur_freq s) (sl_base_freq s))
      in config\<lparr>cfg_symbol_length := rm_symbol_length rate_mode, cfg_dlul_ratio := rm_dlul_ratio rate_mode,
           cfg_group_number := rm_dlul_ratio rate_mode, cfg_spectrum_idx := sl_spectrum_idx s, cfg_freq_idx := i,
           cfg_freq_list := (cfg_freq_list config)[0 := i, 1 := INVALID_FREQ], cfg_subsystemid := sl_subsystemid s\<rparr>)"

definition at_wiota_run :: "env \<Rightarrow> simple \<Rightarrow> simple option" where
  "at_wiota_run e s =
     do { let s = emit (C_wiota W_init) (emit (C_wiota W_exit) s);
          rate_mode \<leftarrow> rate_mode_of (sl_rate_mode s) s;
          let s = emit (C_wiota (W_set_system_config (run_config rate_mode s (e_system_config e (hist s))))) s;
          let s = emit (C_wiota W_run) (emit (C_wiota (W_set_userid (sl_addr s) USERID_LENGTH)) s);
          let s = emit (C_wiota (W_set_data_rate 0 (rm_mcs rate_mode))) (emit (C_wiota (W_set_cur_power (sl_power s))) s);
          s \<leftarrow> at_wiota_task_init e (emit (C_setup (S_set_crc 1)) s);
          if connnect_state s = SYNC_SUC then wiota_send_connect_msg e s else Some s }"

definition at_simplified_init :: "env \<Rightarrow> simple \<Rightarrow> simple option" where
  "at_simplified_init e s =
     do { let s = at_state_pin_init s;
          let (base_freq, found) = at_get_base_freq_and_spectrum_idx DEFAULE_FREQ;
          let s = s\<lparr>sl_addr := e_userid e (hist s), sl_subsystemid := DEFAULT_SUBSYSTEMID, sl_base_freq := base_freq\<rparr>;
          let s = (case found of None \<Rightarrow> s | Some (i, f) \<Rightarrow> s\<lparr>sl_spectrum_idx := i, sl_cur_freq := f\<rparr>);
          guard (sl_base_freq s \<ge> fst (FREQ_RANGES ! 0));
          at_wiota_run e (s\<lparr>sl_power := DEFAULE_POWER, sl_rate_mode := DEFAULE_RATE_MODE, sl_rate_mode_map := RATE_MODE_MAP\<rparr>) }"

section \<open>Commands\<close>

definition simple_sn_query :: "env \<Rightarrow> simple \<Rightarrow> (at_result \<times> simple) option" where
  "simple_sn_query e s =
     do { serial \<leftarrow> wr (replicate 20 0) 0 (e_module_id e (hist s));
          n \<leftarrow> rt_strlen serial;
          Some (AT_RESULT_OK, at_say ''+SN'' (map uint (take n serial)) s) }"

definition simple_version_query :: "env \<Rightarrow> simple \<Rightarrow> (at_result \<times> simple) option" where
  "simple_version_query e s =
     do { n \<leftarrow> rt_strlen (e_version e (hist s));
          Some (AT_RESULT_OK, at_say ''+VER'' (map uint (take n (e_version e (hist s)))) s) }"

definition at_wiota_connect_state_query :: "simple \<Rightarrow> at_result \<times> simple" where
  "at_wiota_connect_state_query s = (AT_RESULT_OK, at_printf_connect_state s)"

text \<open>A scan: the request, and its end when the semaphore was taken or the wait timed out.\<close>

definition at_wiota_scan_begin :: "env \<Rightarrow> u8 list option \<Rightarrow> nat \<Rightarrow> u8 \<Rightarrow> u32 \<Rightarrow> simple \<Rightarrow> simple option" where
  "at_wiota_scan_begin e freq_list freq_num spectrum_idx base_freq s =
     do { let timeout = SCAN_SINGLE_TIMEOUT * (if freq_num = 0 then ucast (at_get_max_freq_num spectrum_idx) else of_nat freq_num);
          (_, s) \<leftarrow> wiota_send_scan_freq_msg e freq_list freq_num base_freq timeout (s\<lparr>is_scan_req := True\<rparr>);
          Some (emit (C_ipc (I_sem_take (unat timeout))) s) }"

definition at_wiota_scan_end :: "bool \<Rightarrow> simple \<Rightarrow> at_result \<times> simple" where
  "at_wiota_scan_end timed_out s =
     (if timed_out then (AT_RESULT_FAILE, s)
      else (if scan_result_flag s then AT_RESULT_FAILE else AT_RESULT_OK, s\<lparr>scan_sem := scan_sem s - 1\<rparr>))"

definition at_wiota_rssi_query :: "env \<Rightarrow> simple \<Rightarrow> simple option" where
  "at_wiota_rssi_query e s = at_wiota_scan_begin e (Some [e_freq_info e (hist s)]) 1 (sl_spectrum_idx s) (sl_base_freq s) s"

definition at_wiota_rssi_setup :: "env \<Rightarrow> u8 list \<Rightarrow> simple \<Rightarrow> (at_result + simple) option" where
  "at_wiota_rssi_setup e args s =
     do { r \<leftarrow> at_get_freq_list args;
          case r of
            Inl _ \<Rightarrow> Some (Inl AT_RESULT_PARSE_FAILE)
          | Inr q \<Rightarrow> map_option Inr (at_wiota_scan_begin e (Some (rq_list q)) (rq_num q) (rq_spectrum q) (rq_base q) s) }"

definition at_wiota_rssi_exec :: "env \<Rightarrow> simple \<Rightarrow> simple option" where
  "at_wiota_rssi_exec e s = at_wiota_scan_begin e None 0 (sl_spectrum_idx s) (sl_base_freq s) s"

definition at_wiota_sync_query :: "simple \<Rightarrow> at_result \<times> simple" where
  "at_wiota_sync_query s = (AT_RESULT_OK, at_say ''+SYNC'' [uint (sl_subsystemid s)] s)"

definition at_wiota_sync_setup :: "env \<Rightarrow> u32 option \<Rightarrow> simple \<Rightarrow> at_result \<times> simple" where
  "at_wiota_sync_setup e args s =
     (case args of
        None \<Rightarrow> (AT_RESULT_PARSE_FAILE, s)
      | Some subsystemid \<Rightarrow>
          if subsystemid \<le> MAX_SUBSYSTEMID then
            (let (r, s) = at_set_subsystemid e subsystemid s in (if r = 0 then AT_RESULT_OK else AT_RESULT_FAILE, s))
          else (AT_RESULT_FAILE, s))"

definition at_wiota_address_query :: "simple \<Rightarrow> at_result \<times> simple" where
  "at_wiota_address_query s = (AT_RESULT_OK, at_say ''+ADDR'' [uint (sl_addr s)] s)"

definition at_wiota_address_setup :: "env \<Rightarrow> u32 option \<Rightarrow> simple \<Rightarrow> at_result \<times> simple" where
  "at_wiota_address_setup e args s =
     (case args of
        None \<Rightarrow> (AT_RESULT_PARSE_FAILE, s)
      | Some addr \<Rightarrow> (let (r, s) = at_set_address e addr s in (if r = 0 then AT_RESULT_OK else AT_RESULT_FAILE, s)))"

definition at_wiota_power_query :: "simple \<Rightarrow> at_result \<times> simple" where
  "at_wiota_power_query s = (AT_RESULT_OK, at_say ''+POWER'' [uint (sl_power s)] s)"

definition at_wiota_power_setup :: "u32 option \<Rightarrow> simple \<Rightarrow> at_result \<times> simple" where
  "at_wiota_power_setup args s =
     (case args of
        None \<Rightarrow> (AT_RESULT_PARSE_FAILE, s)
      | Some pw \<Rightarrow>
          if sint pw \<ge> 0 \<and> sint pw \<le> 22 then (AT_RESULT_OK, snd (at_set_power (ucast pw) s)) else (AT_RESULT_FAILE, s))"

definition simple_freq_query :: "env \<Rightarrow> simple \<Rightarrow> at_result \<times> simple" where
  "simple_freq_query e s =
     (AT_RESULT_OK, at_say ''+FREQ'' [uint (INDEX_TO_FREQ (ucast (e_freq_info e (hist s))) (sl_base_freq s))] s)"

text \<open>The base is changed at once, the current frequency only by the next connection.\<close>

definition simple_freq_setup :: "env \<Rightarrow> u8 list \<Rightarrow> simple \<Rightarrow> (at_result \<times> simple) option" where
  "simple_freq_setup e args s =
     do { r \<leftarrow> at_get_freq_list args;
          case r of
            Inl _ \<Rightarrow> Some (AT_RESULT_PARSE_FAILE, s)
          | Inr q \<Rightarrow>
              do { let s = s\<lparr>sl_base_freq := rq_base q\<rparr>;
                   let s = lib ''uc_wiota_set_freq_list'' (map uint (take (rq_num q) (rq_list q))) s;
                   s \<leftarrow> (if rq_spectrum q \<noteq> sl_spectrum_idx s then at_wiota_run e (s\<lparr>sl_spectrum_idx := rq_spectrum q\<rparr>)
                         else if connnect_state s = SYNC_SUC then wiota_send_connect_msg e s else Some s);
                   Some (AT_RESULT_OK, s) } }"

definition at_wiota_rate_query :: "simple \<Rightarrow> at_result \<times> simple" where
  "at_wiota_rate_query s = (AT_RESULT_OK, at_say ''+RATE'' [uint (sl_rate_mode s)] s)"

text \<open>The rate mode is only kept when the radio is restarted.\<close>

definition at_wiota_rate_setup :: "env \<Rightarrow> u32 option \<Rightarrow> simple \<Rightarrow> (at_result \<times> simple) option" where
  "at_wiota_rate_setup e args s =
     (case args of
        None \<Rightarrow> Some (AT_RESULT_PARSE_FAILE, s)
      | Some rate \<Rightarrow>
          if rate \<le> 8 \<and> rate \<ge> 1 then
            do { last_rate_mode \<leftarrow> rate_mode_of (sl_rate_mode s) s;
                 cur_rate_mode \<leftarrow> rate_mode_of (ucast rate) s;
                 if ucast (sl_rate_mode s) \<noteq> rate then
                   (if rm_symbol_length last_rate_mode \<noteq> rm_symbol_length cur_rate_mode
                       \<or> rm_dlul_ratio last_rate_mode \<noteq> rm_dlul_ratio cur_rate_mode
                    then do { s \<leftarrow> at_wiota_run e (s\<lparr>sl_rate_mode := ucast rate\<rparr>); Some (AT_RESULT_OK, s) }
                    else Some (AT_RESULT_OK, emit (C_wiota (W_set_data_rate 0 (rm_mcs cur_rate_mode))) s))
                 else Some (AT_RESULT_OK, s) }
          else Some (AT_RESULT_FAILE, s))"

end
