(* ===== verification/SimpleData.thy ===== *)
theory SimpleData
  imports SimpleLink ScanLine
begin

text \<open>
  Data, sleep and the gateway mode in the simplified AT commands, \<^verbatim>\<open>PS/at_simplified/at_simplified.c\<close>. A
  packet is a byte, whose lowest bit says whether the rest is compressed, and the data.
\<close>

section \<open>Receiving\<close>

definition DECOMPRESS_MAX_LEN :: nat where "DECOMPRESS_MAX_LEN = 1024"
definition RX_STATE_PIN :: u8 where "RX_STATE_PIN = 16"
definition TX_STATE_PIN :: u8 where "TX_STATE_PIN = 17"
definition UC_RECV_MSG :: u8 where "UC_RECV_MSG = 0"
definition UC_RECV_OTA :: u8 where "UC_RECV_OTA = 2"

definition at_wiota_data_printf :: "env \<Rightarrow> u8 \<Rightarrow> u8 list \<Rightarrow> 'a sys_scheme \<Rightarrow> 'a sys_scheme" where
  "at_wiota_data_printf e type data s =
     (let s = emit (C_os (O_pin_write RX_STATE_PIN True)) s;
          s = at_say ''+RECV'' [uint type, - uint (ri_rssi (e_radio_info e (hist s))), int (length data)] s;
          s = at_say '''' [] (emit (C_at (At_send data)) s)
      in emit (C_os (O_pin_write RX_STATE_PIN False)) (emit (C_os (O_thread_mdelay 1)) s))"

text \<open>
  A downlink; \<open>data_len\<close> counts the bytes of the data, which may have more behind them. A packet of another
  type, or one without data or with too little of it, is not freed.
\<close>

definition simple_recv_callback :: "env \<Rightarrow> recv_back \<Rightarrow> simple \<Rightarrow> simple option" where
  "simple_recv_callback e d s =
     (if rb_type d \<le> UC_RECV_OTA then
        (case rb_data d of
           None \<Rightarrow> Some s
         | Some (p, mem) \<Rightarrow>
             if rb_data_len d < 1 then Some s
             else
               do { app_header \<leftarrow> rd mem 0;
                    let recv_data = drop 1 mem;
                    let data_len = unat (rb_data_len d) - 1;
                    if odd app_header then
                      (case rt_malloc e DECOMPRESS_MAX_LEN s of
                         (None, s) \<Rightarrow> Some (rt_free (Some p) s)
                       | (Some q, s) \<Rightarrow>
                           do { (n, out) \<leftarrow> fastlz_decompress recv_data data_len DECOMPRESS_MAX_LEN;
                                if n > 0 then
                                  Some (rt_free (Some p) (rt_free (Some q) (at_wiota_data_printf e (rb_type d) (take n out) s)))
                                else Some (rt_free (Some q) (rt_free (Some p) s)) })
                    else
                      do { data \<leftarrow> rdn recv_data 0 data_len;
                           Some (rt_free (Some p) (at_wiota_data_printf e (rb_type d) data s)) } })
      else if rb_type d = UC_RECV_SYNC_LOST then
        wiota_send_connect_msg e (at_printf_connect_state (s\<lparr>connnect_state := SYNC_LOST\<rparr>))
      else Some s)"

section \<open>Sending\<close>

definition UC_DATA_LENGTH_LIMIT :: nat where "UC_DATA_LENGTH_LIMIT = 310"
definition AT_SEND_TIMEOUT :: u32 where "AT_SEND_TIMEOUT = 60000"

definition SEND_MAX_LEN :: "bool \<Rightarrow> nat" where
  "SEND_MAX_LEN gw_mode = (if gw_mode then GATEWAY_SEND_MAX_LEN else UC_DATA_LENGTH_LIMIT - 1)"

text \<open>
  Compression of the data behind the header of the packet \<open>buf\<close>. The result of a compressor that failed is -1,
  which as an unsigned number is not less than a length.
\<close>

definition at_wiota_compress_and_pack :: "env \<Rightarrow> u8 list \<Rightarrow> nat \<Rightarrow> nat \<Rightarrow> 'a sys_scheme \<Rightarrow> ((int \<times> u8 list \<times> nat) \<times> 'a sys_scheme) option" where
  "at_wiota_compress_and_pack e buf header_len data_len s =
     (case rt_malloc e (data_len * 2) s of
        (None, s) \<Rightarrow> Some ((-2, buf, 0), s)
      | (Some q, s) \<Rightarrow>
          do { data \<leftarrow> rdn buf header_len data_len;
               (comp, s) \<leftarrow> fastlz_compress e data s;
               guard (case comp of None \<Rightarrow> True | Some out \<Rightarrow> length out \<le> data_len * 2);
               h \<leftarrow> rd buf 0;
               (case comp of
                  Some out \<Rightarrow>
                    if length out < data_len
                    then do { buf \<leftarrow> wr buf 0 [or h 1];
                              buf \<leftarrow> wr buf header_len out;
                              Some ((0, buf, header_len + length out), rt_free (Some q) s) }
                    else do { buf \<leftarrow> wr buf 0 [and h (not 1)]; Some ((0, buf, header_len + data_len), rt_free (Some q) s) }
                | None \<Rightarrow> do { buf \<leftarrow> wr buf 0 [and h (not 1)]; Some ((0, buf, header_len + data_len), rt_free (Some q) s) }) })"

text \<open>\<^verbatim>\<open>at_server_recv\<close> reads the characters one by one and gives up at the first that does not come.\<close>

fun recv_chars :: "env \<Rightarrow> nat \<Rightarrow> 'a sys_scheme \<Rightarrow> u8 list option \<times> 'a sys_scheme" where
  "recv_chars e 0 s = (Some [], s)"
| "recv_chars e (Suc n) s =
     (let s = emit (C_at At_get_char) s
      in case e_get_char e (hist s) of
           None \<Rightarrow> (None, s)
         | Some c \<Rightarrow> (case recv_chars e n s of (r, s) \<Rightarrow> (map_option (Cons c) r, s)))"

definition at_wiota_recv_payload :: "env \<Rightarrow> nat \<Rightarrow> 'a sys_scheme \<Rightarrow> u8 list option \<times> 'a sys_scheme" where
  "at_wiota_recv_payload e payload_len s = recv_chars e payload_len (at_say ''>'' [] s)"

definition pulse_pin :: "u8 \<Rightarrow> bool \<Rightarrow> 'a sys_scheme \<Rightarrow> 'a sys_scheme" where
  "pulse_pin pin high s = emit (C_os (O_pin_write pin high)) s"

definition send_gateway :: "env \<Rightarrow> nat \<Rightarrow> simple \<Rightarrow> (at_result \<times> simple) option" where
  "send_gateway e recv_len s =
     (if uc_wiota_gateway_get_state (sl_gw s) = GATEWAY_OTA_UPGRADE then Some (AT_RESULT_FAILE, s)
      else
        (case rt_malloc e (recv_len + 2) s of
           (None, s) \<Rightarrow> Some (AT_RESULT_FAILE, s)
         | (Some p, s) \<Rightarrow>
             (case at_wiota_recv_payload e recv_len s of
                (None, s) \<Rightarrow> Some (AT_RESULT_FAILE, rt_free (Some p) s)
              | (Some data, s) \<Rightarrow>
                  do { (send_result, s) \<leftarrow>
                         on_sl_gw (uc_wiota_gateway_send_data e (Some data) recv_len AT_SEND_TIMEOUT) (pulse_pin TX_STATE_PIN True s);
                       Some (if send_result \<noteq> 0 then AT_RESULT_OK else AT_RESULT_FAILE,
                             rt_free (Some p) (pulse_pin TX_STATE_PIN False s)) })))"

definition send_plain :: "env \<Rightarrow> nat \<Rightarrow> simple \<Rightarrow> (at_result \<times> simple) option" where
  "send_plain e recv_len s =
     (case rt_malloc e (1 + recv_len + 2) s of
        (None, s) \<Rightarrow> Some (AT_RESULT_FAILE, s)
      | (Some p, s) \<Rightarrow>
          (case at_wiota_recv_payload e recv_len s of
             (None, s) \<Rightarrow> Some (AT_RESULT_FAILE, rt_free (Some p) s)
           | (Some typed, s) \<Rightarrow>
               do { recv_buf \<leftarrow> wr (replicate (1 + recv_len + 2) 0) 1 typed;
                    ((rc, recv_buf, data_len), s) \<leftarrow> at_wiota_compress_and_pack e recv_buf 1 recv_len s;
                    if rc \<noteq> 0 then Some (AT_RESULT_FAILE, rt_free (Some p) s)
                    else
                      (let (result, s) = uc_wiota_send_data e recv_buf (of_nat data_len) AT_SEND_TIMEOUT (pulse_pin TX_STATE_PIN True s)
                       in Some (if result = UC_OP_SUCC then AT_RESULT_OK else AT_RESULT_FAILE,
                                rt_free (Some p) (pulse_pin TX_STATE_PIN False s))) }))"

definition simple_send_setup :: "env \<Rightarrow> u32 option \<Rightarrow> simple \<Rightarrow> (at_result \<times> simple) option" where
  "simple_send_setup e args s =
     (case args of
        None \<Rightarrow> Some (AT_RESULT_PARSE_FAILE, s)
      | Some recv_len \<Rightarrow>
          if recv_len < 1 \<or> unat recv_len > SEND_MAX_LEN (is_gateway_mode s) then Some (AT_RESULT_FAILE, s)
          else if connnect_state s \<noteq> SYNC_SUC then Some (AT_RESULT_FAILE, s)
          else if is_gateway_mode s then send_gateway e (unat recv_len) s
          else send_plain e (unat recv_len) s)"

section \<open>Sleeping and waking others\<close>

text \<open>The milliseconds of the alarm are rounded up to seconds.\<close>

definition simple_sleep_setup :: "env \<Rightarrow> (u32 \<times> u32) option \<Rightarrow> simple \<Rightarrow> (at_result \<times> simple) option" where
  "simple_sleep_setup e args s =
     (case args of
        None \<Rightarrow> Some (AT_RESULT_PARSE_FAILE, s)
      | Some (mode, time) \<Rightarrow>
          if mode \<ge> 3 then Some (AT_RESULT_FAILE, s)
          else if mode \<ge> 1 \<and> (time < 100 \<or> time > 44000) then Some (AT_RESULT_FAILE, s)
          else
            (let s = lib ''uart_wait_tx_done'' [] (at_say ''OK'' [] s)
             in if mode = 0 then Some (AT_RESULT_OK, lib ''uc_wiota_sleep_enter'' [0, 0] s)
                else if mode = 1 then
                  Some (AT_RESULT_OK, lib ''uc_wiota_sleep_enter'' [0, 0] (lib ''uc_wiota_set_alarm_time'' [uint ((time + 999) div 1000)] s))
                else
                  do { max_awaken_id \<leftarrow> at_get_max_awaken_id s;
                       let config = e_system_config e (hist s);
                       let pr_cfg = (e_paging_rx_cfg e (hist s))
                             \<lparr>rx_mode := 1, rx_spectrum_idx := cfg_spectrum_idx config, rx_symbol_length := cfg_symbol_length config,
                              rx_freq := cfg_freq_idx config, rx_detect_period := time, rx_period_multiple := 1,
                              rx_awaken_id := ucast (sl_addr s mod (ucast max_awaken_id - 1)), rx_awaken_id_another := max_awaken_id\<rparr>;
                       Some (AT_RESULT_OK, lib ''uc_wiota_paging_rx_enter'' [0, 0] (emit (C_wiota (W_set_paging_rx_cfg pr_cfg)) s)) }))"

definition simple_wakeup_setup :: "env \<Rightarrow> (u32 \<times> u32) option \<Rightarrow> simple \<Rightarrow> (at_result \<times> simple) option" where
  "simple_wakeup_setup e args s =
     (case args of
        None \<Rightarrow> Some (AT_RESULT_PARSE_FAILE, s)
      | Some (addr, time) \<Rightarrow>
          if time \<ge> 100 \<and> time \<le> 44000 then
            do { max_awaken_id \<leftarrow> at_get_max_awaken_id s;
                 let config = e_system_config e (hist s);
                 let pt_cfg = (e_paging_tx_cfg e (hist s))
                       \<lparr>tx_mode := 1, tx_spectrum_idx := cfg_spectrum_idx config, tx_symbol_length := cfg_symbol_length config,
                        tx_freq := cfg_freq_idx config, tx_send_time := time + 100,
                        tx_awaken_id := (if addr = 0 then max_awaken_id else ucast (addr mod (ucast max_awaken_id - 1)))\<rparr>;
                 Some (AT_RESULT_OK, lib ''uc_wiota_paging_tx_start'' [] (emit (C_wiota (W_set_paging_tx_cfg pt_cfg)) s)) }
          else Some (AT_RESULT_FAILE, s))"

section \<open>The gateway mode\<close>

definition gw_state_str :: "string list" where
  "gw_state_str = [''DEFAULT'', ''NORMAL'', ''ABNORMAL'', ''EXIT'', ''RECONNECT'', ''OTA_START'', ''OTA_END'']"

definition at_gateway_state_printf :: "nat \<Rightarrow> 'a sys_scheme \<Rightarrow> at_result \<times> 'a sys_scheme" where
  "at_gateway_state_printf gw_state s =
     (if gw_state > 6 then (AT_RESULT_FAILE, s) else (AT_RESULT_OK, at_say (''+GWINIT:'' @ gw_state_str ! gw_state) [] s))"

definition at_gateway_data_callback :: "env \<Rightarrow> u8 list \<Rightarrow> u8 \<Rightarrow> 'a sys_scheme \<Rightarrow> 'a sys_scheme" where
  "at_gateway_data_callback e data data_type s = at_wiota_data_printf e data_type data s"

text \<open>The digest is copied without its end, over what the variable held.\<close>

definition at_gateway_ex_mcu_callback :: "u32 \<Rightarrow> u32 \<Rightarrow> u8 list \<Rightarrow> simple \<Rightarrow> simple option" where
  "at_gateway_ex_mcu_callback start_addr len md5 s =
     do { md5_size \<leftarrow> rt_strlen md5;
          bs \<leftarrow> rdn md5 0 (if md5_size > 36 then 36 else md5_size);
          m \<leftarrow> wr (ota_file_md5 s) 0 bs;
          n \<leftarrow> rt_strlen m;
          Some (at_say ''+GWMCU'' (uint start_addr # uint len # map uint (take n m))
            (s\<lparr>ota_start_addr := start_addr, ota_file_size := len, ota_file_md5 := m\<rparr>)) }"

definition gateway_state_number :: "uc_gateway_state \<Rightarrow> nat" where
  "gateway_state_number st =
     (case st of GATEWAY_DEFAULT \<Rightarrow> 0 | GATEWAY_NORMAL \<Rightarrow> 1 | GATEWAY_FAILED \<Rightarrow> 2 | GATEWAY_END \<Rightarrow> 3 | GATEWAY_RECONNECT \<Rightarrow> 4
      | GATEWAY_OTA_UPGRADE \<Rightarrow> 5 | GATEWAY_OTA_PROGRAMING \<Rightarrow> 6)"

definition at_gateway_init_query :: "simple \<Rightarrow> at_result \<times> simple" where
  "at_gateway_init_query s = at_gateway_state_printf (gateway_state_number (uc_wiota_gateway_get_state (sl_gw s))) s"

text \<open>The line end is cut from the code as in the other set of commands.\<close>

definition at_gateway_init_setup :: "env \<Rightarrow> (u32 \<times> u8 list) option \<Rightarrow> simple \<Rightarrow> (at_result \<times> simple) option" where
  "at_gateway_init_setup e args s =
     (case args of
        None \<Rightarrow> Some (AT_RESULT_PARSE_FAILE, s)
      | Some (mode, key) \<Rightarrow>
          if mode > 3 then Some (AT_RESULT_FAILE, s)
          else if mode = 0 then do { s \<leftarrow> sl_gateway_end e s; Some (AT_RESULT_OK, s\<lparr>is_gateway_mode := False\<rparr>) }
          else
            do { n \<leftarrow> rt_strlen key;
                 guard (n \<ge> 2);
                 key \<leftarrow> wr key (n - 2) [0];
                 key \<leftarrow> wr key (n - 1) [0];
                 (rc, s) \<leftarrow> at_gateway_mode_enter e (if mode = 1 then 0 else ucast mode) key s;
                 Some (if rc \<noteq> 0 then (AT_RESULT_FAILE, s) else (AT_RESULT_OK, s\<lparr>is_gateway_mode := True\<rparr>)) })"

definition at_gateway_test_exec :: "env \<Rightarrow> simple \<Rightarrow> (at_result \<times> simple) option" where
  "at_gateway_test_exec e s =
     do { (r, s) \<leftarrow> on_sl_gw (uc_wiota_gateway_state_update_info_msg e) s;
          Some (if r \<noteq> 0 then AT_RESULT_OK else AT_RESULT_FAILE, s) }"

definition at_gateway_ex_mcu_test :: "env \<Rightarrow> simple \<Rightarrow> at_result \<times> simple" where
  "at_gateway_ex_mcu_test e s =
     (let (bin_size, reserved_size, ota_size) = e_partition_size e (hist s)
      in (AT_RESULT_OK, at_say ''AT+GWINIT'' [sint bin_size, sint (bin_size + reserved_size + ota_size), 512] s))"

definition at_gateway_ex_mcu_query :: "simple \<Rightarrow> (at_result \<times> simple) option" where
  "at_gateway_ex_mcu_query s =
     do { n \<leftarrow> rt_strlen (ota_file_md5 s);
          Some (AT_RESULT_OK, at_say ''+GWMCU'' (uint (ota_start_addr s) # uint (ota_file_size s) # map uint (take n (ota_file_md5 s))) s) }"

definition at_gateway_ex_mcu_setup :: "env \<Rightarrow> (u32 \<times> u32) option \<Rightarrow> simple \<Rightarrow> (at_result \<times> simple) option" where
  "at_gateway_ex_mcu_setup e args s =
     (case args of
        None \<Rightarrow> Some (AT_RESULT_PARSE_FAILE, s)
      | Some (read_addr, read_len) \<Rightarrow>
          if read_len = 0 \<or> read_len > 512 \<or> uc_wiota_gateway_get_ota_state (sl_gw s) = 1 then Some (AT_RESULT_FAILE, s)
          else
            (case rt_malloc e (unat read_len) s of
               (None, s) \<Rightarrow> Some (AT_RESULT_FAILE, s)
             | (Some p, s) \<Rightarrow>
                 do { let s = emit (C_wiota W_suspend_connect) s;
                      let s = emit (C_os (O_thread_mdelay (unat (e_frame_len e (hist s) div 1000 + 2)))) s;
                      (n, data, s) \<leftarrow> uc_wiota_ota_flash_read e (unat read_addr) (unat read_len) s;
                      if n \<noteq> unat read_len
                      then Some (AT_RESULT_FAILE, emit (C_wiota W_recover_connect) (rt_free (Some p) s))
                      else
                        do { let s = at_say ''+GWMCU'' [int n] (emit (C_wiota W_recover_connect) s);
                             Some (AT_RESULT_OK, rt_free (Some p) (at_say '''' [] (emit (C_at (At_send data)) s))) } }))"

end
