(* ===== verification/SimplePackets.thy ===== *)
theory SimplePackets
  imports SimpleData
begin

text \<open>
  A packet of the simplified AT commands arrives as it was typed, and what receiving does with memory.
\<close>

section \<open>The sender\<close>

lemma recv_chars_typed:
  assumes "host_types e text"
  shows "recv_chars e n s = (r, s') \<Longrightarrow>
    only_hist s s' \<and> live (hist s') = live (hist s) \<and> (heap_ok (hist s) \<longrightarrow> heap_ok (hist s')) \<and>
    r = (if n \<le> length (pending text (hist s)) then Some (take n (pending text (hist s))) else None)"
proof (induction n arbitrary: s r s')
  case (Suc n)
  let ?s = "emit (C_at At_get_char) s"
  show ?case
  proof (cases "pending text (hist s)")
    case Nil
    then show ?thesis using Suc(2) next_char[OF assms, of "hist s"] by (auto simp: Let_def)
  next
    case (Cons c cs)
    obtain q s1 where q: "recv_chars e n ?s = (q, s1)" by (cases "recv_chars e n ?s")
    have "pending text (hist ?s) = cs" using Cons by simp
    then have ih: "only_hist ?s s1" "live (hist s1) = live (hist s)" "heap_ok (hist ?s) \<longrightarrow> heap_ok (hist s1)"
        "q = (if n \<le> length cs then Some (take n cs) else None)"
      using Suc(1)[OF q] by simp_all
    have "only_hist s s1" using ih(1) only_hist_trans[OF only_hist_emit] by blast
    then show ?thesis using Suc(2) q ih Cons next_char[OF assms, of "hist s"] by (auto simp: Let_def)
  qed
qed simp

lemma pack_ok:
  fixes s s' :: "'a sys_scheme"
  assumes p: "at_wiota_compress_and_pack e (0 # data @ [0, 0]) 1 (length data) s = Some ((0, buf, k), s')"
    and h: "heap_ok (hist s)" "length data < 310"
  shows "only_hist s s' \<and> live (hist s') = live (hist s) \<and> heap_ok (hist s') \<and> 1 \<le> k \<and> k \<le> length data + 1 \<and> k \<le> length buf \<and>
    (take k buf = 0 # data \<or> (\<exists>(s1 :: 'a sys_scheme) (s2 :: 'a sys_scheme) out. fastlz_compress e data s1 = Some (Some out, s2) \<and> take k buf = 1 # out \<and> length out < length data))"
proof -
  obtain s1 where s1: "rt_malloc e (length data * 2) s = (Some (length (hist s)), s1)" "s1 = emit (C_malloc (length (hist s)) (length data * 2)) s"
    using p by (cases rule: rt_malloc_cases[of e s "length data * 2"]) (auto simp: at_wiota_compress_and_pack_def)
  obtain comp s2 where c: "fastlz_compress e data s1 = Some (comp, s2)" using p s1(1) by (auto simp: at_wiota_compress_and_pack_def rdn_def)
  have o: "only_hist s s2" using fz.cz_only_hist[OF c] s1(2) only_hist_trans[OF only_hist_emit] by blast
  have l: "heap_ok (hist s2)" "live (hist s2) = length (hist s) # live (hist s)"
    using fz.cz_heap[OF c] h(1) s1(2) by auto
  have fin: "only_hist s (rt_free (Some (length (hist s))) s2) \<and> live (hist (rt_free (Some (length (hist s))) s2)) = live (hist s) \<and>
      heap_ok (hist (rt_free (Some (length (hist s))) s2))"
    using o l h(1) by simp
  show ?thesis
  proof (cases "\<exists>out. comp = Some out \<and> length out < length data")
    case True
    then obtain out where out: "comp = Some out" "length out < length data" by blast
    then have "s' = rt_free (Some (length (hist s))) s2" "k = 1 + length out" "k \<le> length buf" "take k buf = 1 # out"
      using p s1(1) c by (auto simp: at_wiota_compress_and_pack_def rdn_def rd_def wr_def)
    then show ?thesis using fin c out by auto
  next
    case False
    then have "s' = rt_free (Some (length (hist s))) s2" "k = 1 + length data" "k \<le> length buf" "take k buf = 0 # data"
      using p s1(1) c by (auto simp: at_wiota_compress_and_pack_def rdn_def rd_def wr_def split: option.splits if_splits)
    then show ?thesis using fin by auto
  qed
qed

section \<open>The receiver\<close>

definition recv_line :: "u8 \<Rightarrow> int \<Rightarrow> u8 list \<Rightarrow> call list" where
  "recv_line t signal data = [C_at (At_println '''' []), C_at (At_send data), C_at (At_println ''+RECV'' [uint t, signal, int (length data)])]"

definition silent :: "call list \<Rightarrow> bool" where
  "silent cs \<longleftrightarrow> (\<forall>c \<in> set cs. \<forall>a. c \<noteq> C_at a)"

lemma printed:
  "hist (at_wiota_data_printf e t data s) =
     [C_os (O_pin_write RX_STATE_PIN False), C_os (O_thread_mdelay 1)] @
     recv_line t (- uint (ri_rssi (e_radio_info e (C_os (O_pin_write RX_STATE_PIN True) # hist s)))) data @ [C_os (O_pin_write RX_STATE_PIN True)] @ hist s"
  "live (hist (at_wiota_data_printf e t data s)) = live (hist s)"
  "heap_ok (hist s) \<Longrightarrow> heap_ok (hist (at_wiota_data_printf e t data s))"
  by (simp_all add: at_wiota_data_printf_def recv_line_def Let_def)

lemma silent_simps [simp]: "silent []" "silent (c # cs) \<longleftrightarrow> (\<forall>a. c \<noteq> C_at a) \<and> silent cs" "silent (xs @ ys) \<longleftrightarrow> silent xs \<and> silent ys"
  by (auto simp: silent_def)

lemma receive_plain:
  assumes "t \<le> UC_RECV_OTA" "length data < 65535"
  shows "\<exists>r' as bs signal. simple_recv_callback e \<lparr>rb_type = t, rb_data_len = of_nat (Suc (length data)), rb_data = Some (p, (0 # data) @ extra)\<rparr> r = Some r' \<and>
    hist r' = as @ recv_line t signal data @ bs @ hist r \<and> silent (as @ bs) \<and> live (hist r') = removeAll p (live (hist r))"
proof -
  let ?r = "rt_free (Some p) (at_wiota_data_printf e t data r)"
  have l: "unat (of_nat (Suc (length data)) :: u16) = Suc (length data)" using assms(2) by (simp add: unat_of_nat take_bit_nat_eq_self del: of_nat_Suc)
  then have n: "\<not> (of_nat (Suc (length data)) :: u16) < 1" by (simp add: word_less_nat_alt del: of_nat_Suc)
  have "simple_recv_callback e \<lparr>rb_type = t, rb_data_len = of_nat (Suc (length data)), rb_data = Some (p, (0 # data) @ extra)\<rparr> r = Some ?r"
    using assms(1) l n by (simp add: simple_recv_callback_def rd_def rdn_def del: of_nat_Suc)
  then show ?thesis
    using printed(1,2)[of e t data r]
    by (intro exI[of _ ?r] exI[of _ "[C_free p, C_os (O_pin_write RX_STATE_PIN False), C_os (O_thread_mdelay 1)]"]
        exI[of _ "[C_os (O_pin_write RX_STATE_PIN True)]"] exI) simp
qed

lemma receive_compressed:
  assumes "t \<le> UC_RECV_OTA" "length out < 65535" "\<And>h k. e_malloc e h k" "heap_ok (hist r)" "p \<in> set (live (hist r))"
    "fastlz_compress e1 data s1 = Some (Some out, s2)" "data \<noteq> []" "length data \<le> 1024"
  shows "\<exists>r' as bs signal. simple_recv_callback e \<lparr>rb_type = t, rb_data_len = of_nat (Suc (length out)), rb_data = Some (p, (1 # out) @ extra)\<rparr> r = Some r' \<and>
    hist r' = as @ recv_line t signal data @ bs @ hist r \<and> silent (as @ bs) \<and> live (hist r') = removeAll p (live (hist r))"
proof -
  let ?q = "length (hist r)"
  let ?r1 = "emit (C_malloc ?q DECOMPRESS_MAX_LEN) r"
  let ?r = "rt_free (Some p) (rt_free (Some ?q) (at_wiota_data_printf e t data ?r1))"
  have l: "unat (of_nat (Suc (length out)) :: u16) = Suc (length out)" using assms(2) by (simp add: unat_of_nat take_bit_nat_eq_self del: of_nat_Suc)
  then have n: "\<not> (of_nat (Suc (length out)) :: u16) < 1" by (simp add: word_less_nat_alt del: of_nat_Suc)
  have "fastlz_decompress (out @ extra) (length out) DECOMPRESS_MAX_LEN = Some (length data, data)"
    using fz.roundtrip[OF assms(6,7), of DECOMPRESS_MAX_LEN extra] assms(8) by (simp add: DECOMPRESS_MAX_LEN_def)
  then have e: "simple_recv_callback e \<lparr>rb_type = t, rb_data_len = of_nat (Suc (length out)), rb_data = Some (p, (1 # out) @ extra)\<rparr> r = Some ?r"
    using assms(1,3,7) l n by (simp add: simple_recv_callback_def rd_def rt_malloc_def del: of_nat_Suc)
  have "live (hist ?r) = removeAll p (live (hist r))" using printed(2)[of e t data ?r1] assms(4) fresh_not_live[OF assms(4)] by simp
  then show ?thesis
    using e printed(1)[of e t data ?r1]
    by (intro exI[of _ ?r] exI[of _ "[C_free p, C_free ?q, C_os (O_pin_write RX_STATE_PIN False), C_os (O_thread_mdelay 1)]"]
        exI[of _ "[C_os (O_pin_write RX_STATE_PIN True), C_malloc ?q DECOMPRESS_MAX_LEN]"] exI) simp
qed

lemma packet_received:
  assumes "packet = 0 # data \<or> (\<exists>(u1 :: simple) (u2 :: simple) out. fastlz_compress e1 data u1 = Some (Some out, u2) \<and> packet = 1 # out \<and> length out < length data)"
    "1 \<le> length data" "length data \<le> 309" "t \<le> UC_RECV_OTA" "\<And>h k. e_malloc e h k" "heap_ok (hist r)" "p \<in> set (live (hist r))"
  shows "\<exists>r' as bs signal. simple_recv_callback e \<lparr>rb_type = t, rb_data_len = of_nat (length packet), rb_data = Some (p, packet @ extra)\<rparr> r = Some r' \<and>
    hist r' = as @ recv_line t signal data @ bs @ hist r \<and> silent (as @ bs) \<and> live (hist r') = removeAll p (live (hist r))"
  using assms(1)
proof
  assume "packet = 0 # data"
  then show ?thesis using receive_plain[OF assms(4), of data e p extra r] assms(3) by simp
next
  assume "\<exists>(u1 :: simple) (u2 :: simple) out. fastlz_compress e1 data u1 = Some (Some out, u2) \<and> packet = 1 # out \<and> length out < length data"
  then obtain u1 u2 :: simple and out where "fastlz_compress e1 data u1 = Some (Some out, u2)" "packet = 1 # out" "length out < length data"
    by blast
  then show ?thesis using receive_compressed[OF assms(4) _ assms(5-7), of out e1 data u1 u2 extra] assms(2,3) by fastforce
qed

lemma plain_packet_sent:
  assumes sent: "send_plain e n s = Some (AT_RESULT_OK, s')" and n: "1 \<le> n" "n \<le> 309"
    and env: "host_types e text" "heap_ok (hist s)" and data: "data = take n (pending text (hist s))"
  shows "\<exists>packet new h. hist s' = new @ C_wiota (W_send_data packet (of_nat (length packet)) 60000) # h \<and>
    length packet \<le> 310 \<and> live (hist s') = live (hist s) \<and> length data = n \<and>
    (packet = 0 # data \<or> (\<exists>(u1 :: simple) (u2 :: simple) out. fastlz_compress e data u1 = Some (Some out, u2) \<and> packet = 1 # out \<and> length out < length data))"
proof -
  let ?p = "length (hist s)"
  let ?s1 = "emit (C_malloc ?p (1 + n + 2)) s"
  have s1: "rt_malloc e (1 + n + 2) s = (Some ?p, ?s1)"
    using sent by (cases rule: rt_malloc_cases[of e s "1 + n + 2"]) (auto simp: send_plain_def)
  obtain q s2 where q: "recv_chars e n (at_say ''>'' [] ?s1) = (q, s2)" by (cases "recv_chars e n (at_say ''>'' [] ?s1)")
  have c: "live (hist s2) = ?p # live (hist s)" "heap_ok (hist s2)" "q \<noteq> None" "q = (if n \<le> length (pending text (hist s)) then Some data else None)"
    using recv_chars_typed[OF env(1) q] env(2) sent s1 q
    by (auto simp: data send_plain_def at_wiota_recv_payload_def split: if_splits)
  then have qd: "q = Some data" "length data = n" by (auto simp: data split: if_splits)
  have b: "wr (replicate (1 + n + 2) 0) 1 data = Some (0 # data @ [0, 0])"
    unfolding replicate_add using qd(2) by (simp add: wr_def numeral_2_eq_2)
  obtain rc buf k s3 where k: "at_wiota_compress_and_pack e (0 # data @ [0, 0]) 1 (length data) s2 = Some ((rc, buf, k), s3)"
    using sent s1 q qd b by (auto simp: send_plain_def at_wiota_recv_payload_def split: prod.splits)
  let ?s4 = "emit (C_wiota (W_send_data (take (unat (of_nat k :: u16)) buf) (of_nat k) 60000)) (pulse_pin TX_STATE_PIN True s3)"
  have u: "(ucast (of_nat k :: u32) :: u16) = of_nat k"
    by (simp add: word_unat_eq_iff unsigned_ucast_eq unat_of_nat take_bit_eq_mod mod_mod_cancel)
  have rc: "rc = 0" "s' = rt_free (Some ?p) (pulse_pin TX_STATE_PIN False ?s4)"
    using sent s1 q qd b k u
    by (auto simp: send_plain_def at_wiota_recv_payload_def uc_wiota_send_data_def AT_SEND_TIMEOUT_def Let_def split: if_splits)
  have pk: "live (hist s3) = live (hist s2)" "1 \<le> k" "k \<le> length data + 1" "k \<le> length buf"
    "take k buf = 0 # data \<or> (\<exists>(u1 :: simple) (u2 :: simple) out. fastlz_compress e data u1 = Some (Some out, u2) \<and> take k buf = 1 # out \<and> length out < length data)"
    using pack_ok[OF k[unfolded rc(1)] c(2)] n(2) qd(2) by auto
  have kk: "unat (of_nat k :: u16) = k" "length (take k buf) = k"
    using pk(3,4) n(2) qd(2) by (simp_all add: unat_of_nat take_bit_nat_eq_self)
  have "hist s' = [C_free ?p, C_os (O_pin_write TX_STATE_PIN False)] @ C_wiota (W_send_data (take k buf) (of_nat (length (take k buf))) 60000) # hist (pulse_pin TX_STATE_PIN True s3)"
    using rc(2) kk by (simp add: pulse_pin_def)
  moreover have "live (hist s') = live (hist s)" using rc(2) pk(1) c(1) env(2) by (simp add: pulse_pin_def)
  ultimately show ?thesis using pk(3,5) kk(2) n(2) qd(2) by fastforce
qed

text \<open>C10. Packets of the simplified commands. When AT+SEND answers OK outside of the gateway mode, it handed one
  packet of at most 310 bytes to the radio and gave its memory back. Any device that gets this packet as a message, a broadcast
  or an update, with memory and whatever lies behind it, prints exactly one line with exactly the characters that
  the host typed, and frees the packet.
\<close>

theorem simple_packet_arrives:
  assumes send: "simple_send_setup e (Some len) s = Some (AT_RESULT_OK, s')" "\<not> is_gateway_mode s"
    and env: "host_types e text" "heap_ok (hist s)"
    and recv: "t \<le> UC_RECV_OTA" "\<And>h k. e_malloc e2 h k" "heap_ok (hist r)" "p \<in> set (live (hist r))"
  shows "\<exists>packet new h r' as bs signal. hist s' = new @ C_wiota (W_send_data packet (of_nat (length packet)) 60000) # h \<and>
    length packet \<le> 310 \<and> live (hist s') = live (hist s) \<and>
    simple_recv_callback e2 \<lparr>rb_type = t, rb_data_len = of_nat (length packet), rb_data = Some (p, packet @ extra)\<rparr> r = Some r' \<and>
    hist r' = as @ recv_line t signal (take (unat len) (pending text (hist s))) @ bs @ hist r \<and> silent (as @ bs) \<and>
    live (hist r') = removeAll p (live (hist r))"
proof -
  let ?n = "unat len" and ?data = "take (unat len) (pending text (hist s))"
  have n: "1 \<le> ?n" "?n \<le> 309" "send_plain e ?n s = Some (AT_RESULT_OK, s')"
    using send by (auto simp: simple_send_setup_def SEND_MAX_LEN_def UC_DATA_LENGTH_LIMIT_def word_less_nat_alt split: if_splits)
  obtain packet new h where pk: "hist s' = new @ C_wiota (W_send_data packet (of_nat (length packet)) 60000) # h"
      "length packet \<le> 310" "live (hist s') = live (hist s)" "length ?data = ?n"
      "packet = 0 # ?data \<or> (\<exists>(u1 :: simple) (u2 :: simple) out. fastlz_compress e ?data u1 = Some (Some out, u2) \<and> packet = 1 # out \<and> length out < length ?data)"
    using plain_packet_sent[OF n(3,1,2) env refl] by blast
  show ?thesis using packet_received[OF pk(5) _ _ recv, of extra] n(1,2) pk(1-4) by metis
qed

text \<open>With memory and enough characters the command does return.\<close>

lemma pack_returns:
  assumes "\<And>h k. e_malloc e h k" "1 \<le> length data" "length data < 310"
  shows "\<exists>buf k s'. at_wiota_compress_and_pack e (0 # data @ [0, 0]) 1 (length data) s = Some ((0, buf, k), s')"
proof -
  obtain s1 where s1: "rt_malloc e (length data * 2) s = (Some (length (hist s)), s1)" using assms(1) by (simp add: rt_malloc_def)
  obtain comp s2 where c: "fastlz_compress e data s1 = Some (comp, s2)" using fz.cz_total[of data e s1] assms(3) by auto
  have "length out \<le> length data * 2" if "comp = Some out" for out
    using fz.cz_length[of e data s1 out s2] c that assms(2) by fastforce
  then show ?thesis using s1 c by (auto simp: at_wiota_compress_and_pack_def rdn_def rd_def wr_def split: option.splits)
qed

lemma send_plain_returns:
  assumes "\<And>h k. e_malloc e h k" "host_types e text" "1 \<le> n" "n \<le> 309" "n \<le> length (pending text (hist s))"
  shows "\<exists>r s'. send_plain e n s = Some (r, s') \<and> ((\<forall>h. e_send_data e h = UC_OP_SUCC) \<longrightarrow> r = AT_RESULT_OK)"
proof -
  let ?s1 = "emit (C_malloc (length (hist s)) (1 + n + 2)) s"
  let ?data = "take n (pending text (hist s))"
  have s1: "rt_malloc e (1 + n + 2) s = (Some (length (hist s)), ?s1)" using assms(1) by (simp add: rt_malloc_def)
  obtain q s2 where q: "recv_chars e n (at_say ''>'' [] ?s1) = (q, s2)" by (cases "recv_chars e n (at_say ''>'' [] ?s1)")
  have d: "q = Some ?data" "length ?data = n" using recv_chars_typed[OF assms(2) q] assms(5) by simp_all
  have b: "wr (replicate (1 + n + 2) 0) 1 ?data = Some (0 # ?data @ [0, 0])"
    unfolding replicate_add using d(2) by (simp add: wr_def numeral_2_eq_2)
  obtain buf k s3 where k: "at_wiota_compress_and_pack e (0 # ?data @ [0, 0]) 1 n s2 = Some ((0, buf, k), s3)"
    using pack_returns[OF assms(1), of ?data s2] d(2) assms(3-5) by fastforce
  show ?thesis
    using s1 q d b k by (auto simp: send_plain_def at_wiota_recv_payload_def uc_wiota_send_data_def Let_def split: prod.splits)
qed

theorem simple_packet_arrives_witness:
  "\<exists>packet r' signal as bs. simple_recv_callback good_env \<lparr>rb_type = 1, rb_data_len = of_nat (length packet), rb_data = Some (0, packet @ [])\<rparr>
       (init_simple\<lparr>hist := [C_malloc 0 310]\<rparr>) = Some r' \<and>
     hist r' = as @ recv_line 1 signal [72, 105] @ bs @ [C_malloc 0 310] \<and> live (hist r') = []"
proof -
  let ?e = "typing [72, 105, 33]"
  have t: "host_types ?e [72, 105, 33]" by (rule typing_types)
  have ok: "\<And>h k. e_malloc ?e h k" "\<And>h. e_send_data ?e h = UC_OP_SUCC" "\<And>h k. e_malloc good_env h k"
    by (simp_all add: typing_def good_env_def)
  have p: "pending [72, 105, 33] (hist init_simple) = [72, 105, 33]" by (simp add: init_simple_def pending_def)
  have "(2 :: u32) \<ge> 1" "unat (2 :: u32) = 2" by simp_all
  then obtain s' where s': "simple_send_setup ?e (Some 2) init_simple = Some (AT_RESULT_OK, s')"
    using send_plain_returns[OF ok(1) t, of 2 init_simple] ok(2) p
    by (auto simp: simple_send_setup_def SEND_MAX_LEN_def UC_DATA_LENGTH_LIMIT_def init_simple_def)
  have i: "\<not> is_gateway_mode init_simple" "heap_ok (hist init_simple)" by (simp_all add: init_simple_def)
  let ?r = "init_simple\<lparr>hist := [C_malloc 0 310]\<rparr>"
  have r: "heap_ok (hist ?r)" "0 \<in> set (live (hist ?r))" "1 \<le> UC_RECV_OTA" by (simp_all add: UC_RECV_OTA_def heap_ok_def)
  have d: "take (unat (2 :: u32)) (pending [72, 105, 33] (hist init_simple)) = [72, 105]" "hist ?r = [C_malloc 0 310]"
      "removeAll 0 (live [C_malloc 0 310]) = []" unfolding p by simp_all
  show ?thesis using simple_packet_arrives[OF s' i(1) t i(2) r(3) ok(3) r(1,2), of "[]"] unfolding d by blast
qed

end
