(* ===== verification/SimpleSystem.thy ===== *)
theory SimpleSystem
  imports SimplePackets FreqLine "HOL-Library.Sublist"
begin

text \<open>
  The task of the simplified AT commands, the radio thread and the thread of the commands as a transition
  system: a lost connection is always tried again, unless a request for a scan is left over. Settings
  that are lost.
\<close>

section \<open>The system\<close>

datatype simple_cmd =
  Cmd_sync "u32 option" | Cmd_address "u32 option" | Cmd_power "u32 option" | Cmd_freq "u8 list" | Cmd_rate "u32 option"
| Cmd_send "u32 option" | Cmd_sleep "(u32 \<times> u32) option" | Cmd_wakeup "(u32 \<times> u32) option" | Cmd_gw_init "(u32 \<times> u8 list) option"
| Cmd_gw_mcu "(u32 \<times> u32) option" | Cmd_gw_test

fun run_cmd :: "env \<Rightarrow> simple_cmd \<Rightarrow> simple \<Rightarrow> (at_result \<times> simple) option" where
  "run_cmd e (Cmd_sync a) s = Some (at_wiota_sync_setup e a s)"
| "run_cmd e (Cmd_address a) s = Some (at_wiota_address_setup e a s)"
| "run_cmd e (Cmd_power a) s = Some (at_wiota_power_setup a s)"
| "run_cmd e (Cmd_freq a) s = simple_freq_setup e a s"
| "run_cmd e (Cmd_rate a) s = at_wiota_rate_setup e a s"
| "run_cmd e (Cmd_send a) s = simple_send_setup e a s"
| "run_cmd e (Cmd_sleep a) s = simple_sleep_setup e a s"
| "run_cmd e (Cmd_wakeup a) s = simple_wakeup_setup e a s"
| "run_cmd e (Cmd_gw_init a) s = at_gateway_init_setup e a s"
| "run_cmd e (Cmd_gw_mcu a) s = at_gateway_ex_mcu_setup e a s"
| "run_cmd e Cmd_gw_test s = at_gateway_test_exec e s"

datatype scan_cmd = Scan_current | Scan_line "u8 list" | Scan_all

fun run_scan :: "env \<Rightarrow> scan_cmd \<Rightarrow> simple \<Rightarrow> simple option" where
  "run_scan e Scan_current s = at_wiota_rssi_query e s"
| "run_scan e (Scan_line a) s = (case at_wiota_rssi_setup e a s of Some (Inr s) \<Rightarrow> Some s | _ \<Rightarrow> None)"
| "run_scan e Scan_all s = at_wiota_rssi_exec e s"

text \<open>The state of the task, whether the thread of the commands waits for a scan, and the variables.\<close>

inductive simple_reach :: "env \<Rightarrow> link_pc \<Rightarrow> bool \<Rightarrow> simple \<Rightarrow> bool" for e where
  start: "at_simplified_init e init_simple = Some s \<Longrightarrow> simple_reach e L_wait False s"
| task: "simple_reach e l a s \<Longrightarrow> link_step e l s = Some (l', s') \<Longrightarrow> simple_reach e l' a s'"
| receive: "simple_reach e l a s \<Longrightarrow> simple_recv_callback e d s = Some s' \<Longrightarrow> simple_reach e l a s'"
| command: "simple_reach e l False s \<Longrightarrow> run_cmd e c s = Some (r, s') \<Longrightarrow> simple_reach e l False s'"
| scan: "simple_reach e l False s \<Longrightarrow> run_scan e sc s = Some s' \<Longrightarrow> simple_reach e l True s'"
| scan_end: "simple_reach e l True s \<Longrightarrow> timed_out \<or> scan_sem s > 0 \<Longrightarrow> simple_reach e l False (snd (at_wiota_scan_end timed_out s))"

section \<open>The invariant\<close>

definition link_ok :: "link_pc \<Rightarrow> simple \<Rightarrow> bool" where
  "link_ok l s \<longleftrightarrow> init_flag s \<and> length (wiota_mq s) \<le> 10 \<and> (connnect_state s \<noteq> SYNC_SUC \<longrightarrow> l \<noteq> L_wait \<or> wiota_mq s \<noteq> [])"

text \<open>Operations that do not touch the queue and the state of the connection.\<close>

definition same_link :: "simple \<Rightarrow> simple \<Rightarrow> bool" where
  "same_link s s' \<longleftrightarrow> init_flag s' = init_flag s \<and> wiota_mq s' = wiota_mq s \<and> connnect_state s' = connnect_state s"

lemma same_link_refl [simp, intro]: "same_link s s"
  by (simp add: same_link_def)

lemma same_link_trans: "same_link s s' \<Longrightarrow> same_link s' s'' \<Longrightarrow> same_link s s''"
  by (simp add: same_link_def)

lemma same_link_ok: "same_link s s' \<Longrightarrow> link_ok l s \<Longrightarrow> link_ok l s'"
  by (simp add: same_link_def link_ok_def)

lemma only_hist_same_link: "only_hist s s' \<Longrightarrow> same_link s s'"
  unfolding only_hist_def same_link_def by (metis simple_fields(7,8,10))

lemma same_link_emit [simp]: "same_link s (emit c t) \<longleftrightarrow> same_link s t" "same_link (emit c s) t \<longleftrightarrow> same_link s t"
  by (simp_all add: same_link_def emit_def)

lemma same_link_calls [simp]:
  "same_link s (lib f xs t) \<longleftrightarrow> same_link s t" "same_link s (at_say f xs t) \<longleftrightarrow> same_link s t" "same_link s (pulse_pin p b t) \<longleftrightarrow> same_link s t"
  "same_link (at_say f xs s) t \<longleftrightarrow> same_link s t" "same_link (pulse_pin p b s) t \<longleftrightarrow> same_link s t"
  by (simp_all add: lib_def at_say_def pulse_pin_def)

lemma same_link_free [simp]: "same_link s (rt_free p t) \<longleftrightarrow> same_link s t"
  by (cases p) (simp_all add: rt_free_def)

lemma same_link_register [simp]: "same_link s (register_recv cb t) \<longleftrightarrow> same_link s t"
  by (simp add: register_recv_def)

lemma same_link_printf [simp]: "same_link s (at_wiota_data_printf e ty d t) \<longleftrightarrow> same_link s t"
  by (simp add: at_wiota_data_printf_def Let_def)

lemma same_link_malloc: "rt_malloc e n s = (p, s') \<Longrightarrow> same_link s s'"
  using only_hist_malloc only_hist_same_link by blast

lemma same_link_gw: "on_sl_gw f s = Some (x, s') \<Longrightarrow> same_link s s'"
  by (auto simp: on_sl_gw_def same_link_def)

lemma same_link_gateway_end: "sl_gateway_end e s = Some s' \<Longrightarrow> same_link s s'"
  by (auto simp: sl_gateway_end_def same_link_def dest!: same_link_gw)

lemma send_msg_ok:
  "wiota_send_msg m s = Some (rc, s') \<Longrightarrow> init_flag s \<and> init_flag s' \<and> connnect_state s' = connnect_state s \<and> wiota_mq s' \<noteq> [] \<and>
     (length (wiota_mq s) \<le> 10 \<longrightarrow> length (wiota_mq s') \<le> 10)"
  by (auto simp: wiota_send_msg_def WIOTA_MQ_MSG_QUEUE_SIZE_def split: if_splits)

lemma send_connect_ok:
  assumes "wiota_send_connect_msg e s = Some s'" "length (wiota_mq s) \<le> 10"
  shows "link_ok l s' \<and> connnect_state s' = connnect_state s \<and> wiota_mq s' \<noteq> []"
proof -
  obtain s1 rc where s1: "(if is_gateway_mode (register_recv 0 s) then sl_gateway_end e (register_recv 0 s) else Some (register_recv 0 s)) = Some s1"
      "wiota_send_msg WIOTA_CMD_CONNECT s1 = Some (rc, s')"
    using assms(1) by (auto simp: wiota_send_connect_msg_def Let_def)
  have "same_link s s1" using s1(1) same_link_gateway_end[of e "register_recv 0 s" s1]
    by (auto simp: same_link_def register_recv_def lib_def emit_def split: if_splits)
  then show ?thesis using send_msg_ok[OF s1(2)] assms(2) by (simp add: link_ok_def same_link_def)
qed

lemma link_ok_wait: "link_ok l s \<Longrightarrow> length (wiota_mq s) \<le> 10 \<and> init_flag s"
  by (simp add: link_ok_def)

lemma run_ok:
  assumes "at_wiota_run e s = Some s'" "init_flag s \<longrightarrow> link_ok l s" "\<not> init_flag s \<longrightarrow> connnect_state s = SYNC_SUC"
  shows "link_ok l s'"
proof -
  obtain s1 s2 where s1: "same_link s s1" "at_wiota_task_init e s1 = Some s2"
      "(if connnect_state s2 = SYNC_SUC then wiota_send_connect_msg e s2 else Some s2) = Some s'"
    using assms(1) by (simp add: at_wiota_run_def Let_def) (elim exE conjE, rule that[rotated], assumption, assumption, simp)
  have s2: "init_flag s2" "connnect_state s2 = connnect_state s" "length (wiota_mq s2) \<le> 10" "init_flag s \<longrightarrow> same_link s s2"
    using s1(1,2) assms(2) by (auto simp: at_wiota_task_init_def lib_ok_def lib_def emit_def Let_def same_link_def link_ok_def split: if_splits)
  show ?thesis
  proof (cases "connnect_state s2 = SYNC_SUC")
    case True
    then show ?thesis using s1(3) s2(3) send_connect_ok by simp
  next
    case False
    then have "same_link s s'" "link_ok l s" using s1(3) s2 assms(2,3) by auto
    then show ?thesis using same_link_ok by blast
  qed
qed

lemma simple_init_ok: "at_simplified_init e init_simple = Some s \<Longrightarrow> link_ok l s"
  unfolding at_simplified_init_def Let_def
  by (auto simp: at_state_pin_init_def STATE_PINS_def lib_def emit_def init_simple_def split: option.splits prod.splits elim!: run_ok)

lemma connect_to_ap_same: "wiota_connect_to_ap e s = (r, s') \<Longrightarrow> same_link s s'"
  by (auto simp: wiota_connect_to_ap_def Let_def)

lemma scan_freq_same: "uc_wiota_scan_freq e bs m t s = (r, s') \<Longrightarrow> same_link s s'"
  by (auto simp: uc_wiota_scan_freq_def Let_def split: op_result.splits prod.splits)

lemma scan_connect_same: "wiota_scan_freq_for_connect e fs s = Some (f, s') \<Longrightarrow> same_link s s'"
  by (auto simp: wiota_scan_freq_for_connect_def dest: scan_freq_same split: prod.splits op_result.splits option.splits)

lemma show_rssi_same: "same_link s t \<Longrightarrow> same_link s (fold (show_rssi b) rs t)"
  by (induction rs arbitrary: t) (simp_all add: show_rssi_def)

lemma scan_rssi_same: "wiota_scan_freq_for_rssi e m s = (b, s') \<Longrightarrow> same_link s s'"
  by (auto simp: wiota_scan_freq_for_rssi_def show_rssi_same dest: scan_freq_same split: prod.splits op_result.splits option.splits)

lemma try_step_same: "try_step e fs s = (c, s') \<Longrightarrow> same_link s s'"
  by (auto simp: try_step_def Let_def dest: connect_to_ap_same split: list.splits if_splits prod.splits)

lemma connect_begin_same: "connect_begin e s = Some (c, s') \<Longrightarrow> same_link s s'"
  by (auto simp: connect_begin_def dest!: connect_to_ap_same scan_connect_same split: list.splits if_splits prod.splits intro: same_link_trans)

lemma mode_enter_same: "at_gateway_mode_enter e m k s = Some (r, s') \<Longrightarrow> same_link s s'"
  by (auto simp: at_gateway_mode_enter_def Let_def same_link_def emit_def dest!: same_link_gw same_link_gateway_end split: if_splits)

lemma connect_end_ok:
  assumes "connect_end e r s = Some s'" "init_flag s" "length (wiota_mq s) \<le> 10"
  shows "link_ok L_wait s'"
proof (cases "r = 0")
  case False
  then show ?thesis using assms(1,3) send_connect_ok[of e _ s' L_wait] by (auto simp: connect_end_def at_printf_connect_state_def at_say_def emit_def)
next
  case True
  define u where "u = at_printf_connect_state (at_say ''+FREQ'' [uint (INDEX_TO_FREQ (ucast (e_freq_info e (hist (register_recv 1 s)))) (sl_base_freq (register_recv 1 s)))]
    ((register_recv 1 s)\<lparr>connnect_state := SYNC_SUC, sl_cur_freq := INDEX_TO_FREQ (ucast (e_freq_info e (hist (register_recv 1 s)))) (sl_base_freq (register_recv 1 s))\<rparr>))"
  have u: "init_flag u" "length (wiota_mq u) \<le> 10" "connnect_state u = SYNC_SUC"
    using assms(2,3) by (simp_all add: u_def at_printf_connect_state_def at_say_def emit_def register_recv_def lib_def)
  have "same_link u s'"
    using assms(1) True by (auto simp: connect_end_def Let_def u_def[symmetric] dest: mode_enter_same split: if_splits)
  then show ?thesis using u by (simp add: same_link_def link_ok_def)
qed

lemma connecting_ok:
  assumes "link_connecting e (c, s) = Some (l', s')" "init_flag s" "length (wiota_mq s) \<le> 10"
  shows "link_ok l' s'"
  using assms connect_end_ok by (auto simp: link_connecting_def link_ok_def split: connecting.splits)

lemma scan_message_ok:
  assumes "scan_message e p m s = Some s'" "init_flag s" "length (wiota_mq s) \<le> 10"
  shows "link_ok L_wait s'"
proof -
  obtain b s1 where b: "wiota_scan_freq_for_rssi e m s = (b, s1)" by (cases "wiota_scan_freq_for_rssi e m s")
  define u where "u = emit (C_ipc I_sem_release) (s1\<lparr>scan_result_flag := b, scan_sem := Suc (scan_sem s1)\<rparr>)"
  have u: "init_flag u" "length (wiota_mq u) \<le> 10" "wiota_mq u = wiota_mq s"
    using scan_rssi_same[OF b] assms(2,3) by (simp_all add: u_def same_link_def emit_def)
  obtain r u1 where r: "wiota_connect_to_ap e u = (r, u1)" by (cases "wiota_connect_to_ap e u")
  obtain v where v: "(if connnect_state u = SYNC_SUC then (if r \<noteq> 0 then wiota_send_connect_msg e u1 else Some u1)
      else wiota_send_connect_msg e u) = Some v" "s' = rt_free (Some p) (v\<lparr>is_scan_req := False\<rparr>)"
    using assms(1)[unfolded scan_message_def Let_def b prod.case, folded u_def, unfolded Let_def r prod.case] by auto
  have "init_flag v \<and> length (wiota_mq v) \<le> 10 \<and> (connnect_state v \<noteq> SYNC_SUC \<longrightarrow> wiota_mq v \<noteq> [])"
    using v(1) u connect_to_ap_same[OF r] send_connect_ok[of e u1 v L_wait] send_connect_ok[of e u v L_wait]
    by (auto simp: same_link_def link_ok_def split: if_splits)
  then show ?thesis using v(2) by (simp add: link_ok_def rt_free_def emit_def)
qed

lemma link_step_ok:
  assumes "link_step e l s = Some (l', s')" "link_ok l s"
  shows "link_ok l' s'"
proof (cases l)
  case (L_try fs)
  obtain c s1 where c: "try_step e fs s = (c, s1)" by (cases "try_step e fs s")
  then show ?thesis
    using assms L_try try_step_same[OF c] connecting_ok[of e c s1 l' s'] by (simp add: link_step_def link_ok_def same_link_def)
next
  case L_wait
  show ?thesis
  proof (cases "wiota_mq s")
    case Nil
    then show ?thesis using assms(1) L_wait by (simp add: link_step_def)
  next
    case (Cons m ms)
    let ?s = "s\<lparr>wiota_mq := ms\<rparr>"
    have q: "init_flag ?s" "length (wiota_mq ?s) \<le> 10" using assms(2) Cons by (simp_all add: link_ok_def)
    show ?thesis
    proof (cases m)
      case WIOTA_CMD_CONNECT
      then obtain c s1 where c: "connect_begin e ?s = Some (c, s1)" "link_connecting e (c, s1) = Some (l', s')"
        using assms(1) L_wait Cons by (auto simp: link_step_def)
      then show ?thesis using connect_begin_same[OF c(1)] q connecting_ok[OF c(2)] by (simp add: same_link_def)
    next
      case (WIOTA_CMD_SCAN_FREQ p x)
      then show ?thesis using assms(1) L_wait Cons q scan_message_ok[of e p x ?s s'] by (auto simp: link_step_def)
    qed
  qed
qed

lemma receive_ok:
  assumes "simple_recv_callback e d s = Some s'" "link_ok l s"
  shows "link_ok l s'"
proof (cases "rb_type d \<le> UC_RECV_OTA")
  case True
  then have "same_link s s'"
    using assms(1) by (auto simp: simple_recv_callback_def Let_def dest: same_link_malloc split: option.splits if_splits prod.splits)
  then show ?thesis using same_link_ok assms(2) by blast
next
  case False
  then show ?thesis
    using assms send_connect_ok[of e _ s' l]
    by (auto simp: simple_recv_callback_def at_printf_connect_state_def at_say_def emit_def link_ok_def split: if_splits)
qed

lemma recv_chars_same: "recv_chars e n s = (r, s') \<Longrightarrow> same_link s s'"
proof (induction n arbitrary: s r)
  case (Suc n)
  show ?case using Suc(1)[of "emit (C_at At_get_char) s"] Suc(2) by (auto simp: Let_def split: option.splits prod.splits)
qed simp

lemma pack_same: "at_wiota_compress_and_pack e buf h n s = Some (x, s') \<Longrightarrow> same_link s s'"
  by (auto simp: at_wiota_compress_and_pack_def dest!: same_link_malloc fz.cz_only_hist only_hist_same_link
      split: prod.splits option.splits if_splits) (simp_all add: same_link_def)

lemma flash_read_same: "uc_wiota_ota_flash_read e a n s = Some (k, d, s') \<Longrightarrow> same_link s s'"
  using flash_read_adds only_hist_same_link unfolding adds_def by blast

lemma send_gateway_same: "send_gateway e n s = Some (r, s') \<Longrightarrow> same_link s s'"
  by (auto simp: send_gateway_def at_wiota_recv_payload_def dest!: same_link_malloc recv_chars_same same_link_gw
      split: prod.splits option.splits if_splits) (simp_all add: same_link_def)

lemma send_plain_same: "send_plain e n s = Some (r, s') \<Longrightarrow> same_link s s'"
  by (auto simp: send_plain_def at_wiota_recv_payload_def uc_wiota_send_data_def Let_def dest!: same_link_malloc recv_chars_same pack_same
      split: prod.splits option.splits if_splits) (simp_all add: same_link_def)

lemma same_link_others [simp]:
  "same_link s (sl_addr_update f1 t) \<longleftrightarrow> same_link s t" "same_link s (sl_subsystemid_update f2 t) \<longleftrightarrow> same_link s t"
  "same_link s (sl_power_update f3 t) \<longleftrightarrow> same_link s t" "same_link s (is_gateway_mode_update f4 t) \<longleftrightarrow> same_link s t"
  "same_link s (sl_base_freq_update f5 t) \<longleftrightarrow> same_link s t" "same_link s (sl_spectrum_idx_update f6 t) \<longleftrightarrow> same_link s t"
  "same_link s (sl_rate_mode_update f7 t) \<longleftrightarrow> same_link s t" "same_link s (is_scan_req_update f8 t) \<longleftrightarrow> same_link s t"
  "same_link s (scan_sem_update f9 t) \<longleftrightarrow> same_link s t"
  by (simp_all add: same_link_def)

lemma freq_setup_ok:
  assumes "simple_freq_setup e a s = Some (r, s')" "link_ok l s"
  shows "link_ok l s'"
proof -
  obtain x where x: "at_get_freq_list a = Some x" using assms(1) by (auto simp: simple_freq_setup_def)
  show ?thesis
  proof (cases x)
    case (Inl rc)
    then show ?thesis using assms x by (simp add: simple_freq_setup_def)
  next
    case (Inr q)
    define u where "u = lib ''uc_wiota_set_freq_list'' (map uint (take (rq_num q) (rq_list q))) (s\<lparr>sl_base_freq := rq_base q\<rparr>)"
    have u: "link_ok l u" using same_link_ok[OF _ assms(2)] by (simp add: u_def)
    have d: "(if rq_spectrum q \<noteq> sl_spectrum_idx u then at_wiota_run e (u\<lparr>sl_spectrum_idx := rq_spectrum q\<rparr>)
        else if connnect_state u = SYNC_SUC then wiota_send_connect_msg e u else Some u) = Some s'"
      using assms(1)[unfolded simple_freq_setup_def x Inr Let_def Option.bind.simps sum.case, folded u_def] by simp
    have v: "link_ok l (u\<lparr>sl_spectrum_idx := rq_spectrum q\<rparr>)" using same_link_ok[OF _ u] by simp
    show ?thesis
      using d u v run_ok[OF _ _ , of e "u\<lparr>sl_spectrum_idx := rq_spectrum q\<rparr>" s' l] send_connect_ok[of e u s' l] link_ok_wait[OF u] link_ok_wait[OF v]
      by (auto split: if_splits)
  qed
qed

lemma rate_setup_ok:
  assumes "at_wiota_rate_setup e a s = Some (r, s')" "link_ok l s"
  shows "link_ok l s'"
proof -
  have u: "link_ok l (s\<lparr>sl_rate_mode := m\<rparr>)" for m using same_link_ok[OF _ assms(2)] by simp
  have r: "link_ok l t" if "at_wiota_run e (s\<lparr>sl_rate_mode := m\<rparr>) = Some t" for m t
    using run_ok[OF that] u link_ok_wait[OF u] by blast
  have m: "link_ok l (emit c s)" for c using same_link_ok[OF _ assms(2)] by simp
  show ?thesis
    using assms(1,2) r m by (auto simp: at_wiota_rate_setup_def split: option.splits if_splits)
qed

lemma command_ok:
  assumes "run_cmd e c s = Some (r, s')" "link_ok l s"
  shows "link_ok l s'"
proof (cases c)
  case (Cmd_sync a)
  then have "same_link s s'" using assms(1) by (auto simp: at_wiota_sync_setup_def at_set_subsystemid_def Let_def split: option.splits if_splits)
  then show ?thesis using same_link_ok assms(2) by blast
next
  case (Cmd_address a)
  then have "same_link s s'" using assms(1) by (auto simp: at_wiota_address_setup_def at_set_address_def Let_def split: option.splits if_splits)
  then show ?thesis using same_link_ok assms(2) by blast
next
  case (Cmd_power a)
  then have "same_link s s'" using assms(1) by (auto simp: at_wiota_power_setup_def at_set_power_def Let_def split: option.splits if_splits)
  then show ?thesis using same_link_ok assms(2) by blast
next
  case (Cmd_freq a)
  then show ?thesis using freq_setup_ok assms by simp
next
  case (Cmd_rate a)
  then show ?thesis using rate_setup_ok assms by simp
next
  case (Cmd_send a)
  then have "same_link s s'"
    using assms(1) by (auto simp: simple_send_setup_def dest!: send_gateway_same send_plain_same split: option.splits if_splits)
  then show ?thesis using same_link_ok assms(2) by blast
next
  case (Cmd_sleep a)
  then have "same_link s s'" using assms(1) by (auto simp: simple_sleep_setup_def Let_def split: option.splits if_splits)
  then show ?thesis using same_link_ok assms(2) by blast
next
  case (Cmd_wakeup a)
  then have "same_link s s'" using assms(1) by (auto simp: simple_wakeup_setup_def Let_def split: option.splits if_splits)
  then show ?thesis using same_link_ok assms(2) by blast
next
  case (Cmd_gw_init a)
  then have "same_link s s'"
    using assms(1) by (auto simp: at_gateway_init_setup_def dest!: same_link_gateway_end mode_enter_same split: option.splits if_splits)
  then show ?thesis using same_link_ok assms(2) by blast
next
  case (Cmd_gw_mcu a)
  then have "same_link s s'"
    using assms(1) by (auto simp: at_gateway_ex_mcu_setup_def Let_def dest!: same_link_malloc flash_read_same split: option.splits if_splits prod.splits) (simp_all add: same_link_def)
  then show ?thesis using same_link_ok assms(2) by blast
next
  case Cmd_gw_test
  then have "same_link s s'" using assms(1) by (auto simp: at_gateway_test_exec_def dest: same_link_gw)
  then show ?thesis using same_link_ok assms(2) by blast
qed

lemma scan_begin_ok:
  assumes "at_wiota_scan_begin e fs n i b s = Some s'" "link_ok l s"
  shows "link_ok l s'"
proof -
  obtain rc u where u: "wiota_send_scan_freq_msg e fs n b (SCAN_SINGLE_TIMEOUT * (if n = 0 then ucast (at_get_max_freq_num i) else of_nat n)) (s\<lparr>is_scan_req := True\<rparr>) = Some (rc, u)"
      "same_link u s'"
    using assms(1) by (auto simp: at_wiota_scan_begin_def Let_def)
  obtain p s1 where s1: "rt_malloc e sizeof_scan_msg (s\<lparr>is_scan_req := True\<rparr>) = (p, s1)" by (cases "rt_malloc e sizeof_scan_msg (s\<lparr>is_scan_req := True\<rparr>)")
  have l1: "same_link s s1" using same_link_malloc[OF s1] by (simp add: same_link_def)
  have "link_ok l u"
  proof (cases p)
    case None
    then show ?thesis using u(1) s1 same_link_ok[OF l1 assms(2)] by (simp add: wiota_send_scan_freq_msg_def)
  next
    case (Some q)
    obtain m rc' v where v: "wiota_send_msg m s1 = Some (rc', v)" "same_link v u"
      using u(1) s1 Some by (fastforce simp: wiota_send_scan_freq_msg_def split: option.splits if_splits prod.splits)
    have "link_ok l v" using send_msg_ok[OF v(1)] same_link_ok[OF l1 assms(2)] by (auto simp: link_ok_def)
    then show ?thesis using same_link_ok v(2) by blast
  qed
  then show ?thesis using same_link_ok u(2) by blast
qed

lemma scan_ok:
  assumes "run_scan e c s = Some s'" "link_ok l s"
  shows "link_ok l s'"
proof (cases c)
  case (Scan_line a)
  then obtain q :: freq_request where "at_wiota_scan_begin e (Some (rq_list q)) (rq_num q) (rq_spectrum q) (rq_base q) s = Some s'"
    using assms(1) by (cases "at_get_freq_list a"; cases "the (at_get_freq_list a)") (auto simp: at_wiota_rssi_setup_def split: option.splits)
  then show ?thesis using scan_begin_ok assms(2) by blast
qed (use assms scan_begin_ok in \<open>auto simp: at_wiota_rssi_query_def at_wiota_rssi_exec_def\<close>)

lemma reach_ok: "simple_reach e l a s \<Longrightarrow> link_ok l s"
proof (induction rule: simple_reach.induct)
  case (scan_end l s timed_out)
  then have "same_link s (snd (at_wiota_scan_end timed_out s))" by (simp add: at_wiota_scan_end_def)
  then show ?case using same_link_ok scan_end by blast
qed (rule simple_init_ok link_step_ok receive_ok command_ok scan_ok; assumption)+

section \<open>A lost connection is tried again\<close>

lemma frequencies_heard: "wiota_get_freq_list e s = takeWhile (\<lambda>f. f \<noteq> 255) (take 16 (e_freq_list e (hist s)))"
  by (simp add: wiota_get_freq_list_def INVALID_FREQ_def FREQ_LIST_NUM_def)

text \<open>
  The two ways in which a message to connect stops the task: the radio has no frequency (the assertion on the
  list fails), or the scan of several frequencies has 256 results or more (the loop with the 8-bit counter does
  not end).
\<close>

definition scan_overflows :: "env \<Rightarrow> u8 list \<Rightarrow> simple \<Rightarrow> bool" where
  "scan_overflows e fs s \<longleftrightarrow>
     (case fst (uc_wiota_scan_freq e fs 0 (SCAN_SINGLE_TIMEOUT * of_nat (length fs)) s) of
        (UC_OP_SUCC, Some (p, rs)) \<Rightarrow> 256 \<le> length rs
      | _ \<Rightarrow> False)"

definition connect_stops :: "env \<Rightarrow> simple \<Rightarrow> bool" where
  "connect_stops e s \<longleftrightarrow>
     \<not> is_scan_req s \<and>
     (wiota_get_freq_list e s = [] \<or>
      2 \<le> length (wiota_get_freq_list e s) \<and> scan_overflows e (wiota_get_freq_list e s) s)"

definition link_stops :: "env \<Rightarrow> link_pc \<Rightarrow> simple \<Rightarrow> bool" where
  "link_stops e l s \<longleftrightarrow>
     l = L_wait \<and> (\<exists>ms. wiota_mq s = WIOTA_CMD_CONNECT # ms \<and> connect_stops e (s\<lparr>wiota_mq := ms\<rparr>))"

lemma send_connect_returns: "\<not> is_gateway_mode s \<Longrightarrow> init_flag s \<Longrightarrow> \<exists>s'. wiota_send_connect_msg e s = Some s'"
  by (simp add: wiota_send_connect_msg_def wiota_send_msg_def register_recv_def lib_def emit_def Let_def split: prod.split)

lemma same_gateway:
  "wiota_connect_to_ap e s = (r, s') \<Longrightarrow> is_gateway_mode s' = is_gateway_mode s"
  "uc_wiota_scan_freq e bs m t s = (x, s') \<Longrightarrow> is_gateway_mode s' = is_gateway_mode s"
  by (auto simp: wiota_connect_to_ap_def uc_wiota_scan_freq_def emit_def Let_def split: op_result.splits prod.splits)

lemma show_rssi_gateway: "is_gateway_mode (fold (show_rssi b) rs t) = is_gateway_mode (t :: simple)"
  by (induction rs arbitrary: t) (simp_all add: show_rssi_def at_say_def emit_def)

lemma free_gateway: "is_gateway_mode (rt_free p (s :: simple)) = is_gateway_mode s"
  by (cases p) (simp_all add: rt_free_def emit_def)

lemma connect_end_returns: "\<not> is_gateway_mode s \<Longrightarrow> init_flag s \<Longrightarrow> \<exists>s'. connect_end e r s = Some s'"
  by (simp add: connect_end_def at_printf_connect_state_def at_say_def register_recv_def lib_def emit_def Let_def send_connect_returns)

lemma connecting_returns: "\<not> is_gateway_mode s \<Longrightarrow> init_flag s \<Longrightarrow> \<exists>x. link_connecting e (c, s) = Some x"
  using connect_end_returns by (cases c) (fastforce simp: link_connecting_def)+

lemma connect_begin_multi:
  assumes "\<not> is_scan_req s" "wiota_get_freq_list e s = f # g # gs"
  shows "connect_begin e s = None \<longleftrightarrow> scan_overflows e (f # g # gs) s"
proof -
  obtain x s1 where x: "uc_wiota_scan_freq e (f # g # gs) 0 (SCAN_SINGLE_TIMEOUT * of_nat (length (f # g # gs))) s = (x, s1)"
    by (cases "uc_wiota_scan_freq e (f # g # gs) 0 (SCAN_SINGLE_TIMEOUT * of_nat (length (f # g # gs))) s")
  then show ?thesis
    using assms
    by (auto simp: connect_begin_def scan_overflows_def wiota_scan_freq_for_connect_def wiota_connect_to_ap_def Let_def not_less
        bind_None_iff split: op_result.splits option.splits prod.splits)
qed

lemma connect_begin_None: "connect_begin e s = None \<longleftrightarrow> connect_stops e s"
proof (cases "is_scan_req s")
  case False
  consider "wiota_get_freq_list e s = []" | f where "wiota_get_freq_list e s = [f]"
    | f g gs where "wiota_get_freq_list e s = f # g # gs"
    by (cases "wiota_get_freq_list e s"; cases "tl (wiota_get_freq_list e s)") auto
  then show ?thesis
  proof cases
    case 3
    then show ?thesis using connect_begin_multi[OF False 3] False by (simp add: connect_stops_def)
  qed (use False in \<open>auto simp: connect_begin_def connect_stops_def wiota_connect_to_ap_def Let_def\<close>)
qed (simp add: connect_begin_def connect_stops_def)

lemma connect_begin_gateway:
  assumes "connect_begin e s = Some (c, s')"
  shows "is_gateway_mode s' = is_gateway_mode s"
proof -
  have a: "is_gateway_mode s2 = is_gateway_mode s1" if "wiota_scan_freq_for_connect e fs s1 = Some (b, s2)" for fs b s1 s2
    using that by (auto simp: wiota_scan_freq_for_connect_def free_gateway dest: same_gateway(2) split: op_result.splits option.splits prod.splits)
  have b: "is_gateway_mode (snd (wiota_connect_to_ap e (emit x t))) = is_gateway_mode t" for x t
    by (simp add: wiota_connect_to_ap_def emit_def Let_def)
  show ?thesis
    using assms by (auto simp: connect_begin_def dest!: a split: list.splits if_splits prod.splits) (metis b snd_conv)+
qed

lemma scan_message_returns:
  assumes "\<not> is_gateway_mode s" "init_flag s"
  shows "\<exists>s'. scan_message e p m s = Some s'"
proof -
  obtain b s1 where b: "wiota_scan_freq_for_rssi e m s = (b, s1)" by (cases "wiota_scan_freq_for_rssi e m s")
  define u where "u = emit (C_ipc I_sem_release) (s1\<lparr>scan_result_flag := b, scan_sem := Suc (scan_sem s1)\<rparr>)"
  have g: "is_gateway_mode s1 = is_gateway_mode s"
    using b by (auto simp: wiota_scan_freq_for_rssi_def free_gateway show_rssi_gateway dest: same_gateway(2) split: prod.splits op_result.splits option.splits)
  then have u: "\<not> is_gateway_mode u" "init_flag u" using scan_rssi_same[OF b] assms by (simp_all add: u_def same_link_def emit_def)
  obtain r u1 where r: "wiota_connect_to_ap e u = (r, u1)" by (cases "wiota_connect_to_ap e u")
  have u1: "\<not> is_gateway_mode u1" "init_flag u1" using u same_gateway(1)[OF r] connect_to_ap_same[OF r] by (simp_all add: same_link_def)
  show ?thesis
    unfolding scan_message_def Let_def b prod.case u_def[symmetric] r
    using send_connect_returns[OF u, of e] send_connect_returns[OF u1, of e] by auto
qed

text \<open>C11. A lost connection is tried again. In every reachable state of the task, the radio thread and the commands, the
  queue exists and holds at most ten messages, and while the device is not connected the task never waits for a message
  that nobody sends: it is connecting, or the queue has one. Outside of the gateway mode the task then has a next step,
  with exactly two exceptions, both at a message to connect with no request for a scan: the radio has no frequency set,
  where the assertion on the list stops the device, or it has several and the scan of them gives 256 results or more,
  where the loop over them never ends.
\<close>

theorem simple_always_retries:
  assumes "simple_reach e l a s"
  shows "init_flag s \<and> length (wiota_mq s) \<le> 10 \<and>
    (connnect_state s \<noteq> SYNC_SUC \<longrightarrow> l \<noteq> L_wait \<or> wiota_mq s \<noteq> []) \<and>
    (connnect_state s \<noteq> SYNC_SUC \<and> \<not> is_gateway_mode s \<longrightarrow> (link_step e l s = None \<longleftrightarrow> link_stops e l s))"
proof -
  have ok: "link_ok l s" by (rule reach_ok[OF assms])
  have "link_step e l s = None \<longleftrightarrow> link_stops e l s" if lost: "connnect_state s \<noteq> SYNC_SUC" "\<not> is_gateway_mode s"
  proof (cases l)
    case (L_try fs)
    obtain c s1 where c: "try_step e fs s = (c, s1)" by (cases "try_step e fs s")
    have "is_gateway_mode s1 = is_gateway_mode s"
      using c by (auto simp: try_step_def Let_def emit_def dest!: same_gateway(1) split: list.splits if_splits prod.splits)
    then show ?thesis
      using L_try c connecting_returns[of s1 e c] lost(2) try_step_same[OF c] ok
      by (simp add: link_step_def same_link_def link_ok_def link_stops_def)
  next
    case L_wait
    then obtain m ms where q: "wiota_mq s = m # ms" using ok lost(1) by (auto simp: link_ok_def neq_Nil_conv)
    let ?s = "s\<lparr>wiota_mq := ms\<rparr>"
    have s: "\<not> is_gateway_mode ?s" "init_flag ?s" using lost(2) ok by (simp_all add: link_ok_def)
    show ?thesis
    proof (cases m)
      case WIOTA_CMD_CONNECT
      have "link_step e l s = None \<longleftrightarrow> connect_begin e ?s = None"
      proof (cases "connect_begin e ?s")
        case (Some r)
        obtain c s1 where r: "r = (c, s1)" by (cases r)
        then show ?thesis
          using L_wait q WIOTA_CMD_CONNECT Some connecting_returns[of s1 e c] s connect_begin_same[OF Some[unfolded r]]
            connect_begin_gateway[OF Some[unfolded r]]
          by (auto simp add: link_step_def same_link_def)
      qed (use L_wait q WIOTA_CMD_CONNECT in \<open>simp add: link_step_def\<close>)
      then show ?thesis using L_wait q WIOTA_CMD_CONNECT by (simp add: connect_begin_None link_stops_def)
    next
      case (WIOTA_CMD_SCAN_FREQ p x)
      then show ?thesis using L_wait q scan_message_returns[OF s, of e p x] by (auto simp: link_step_def link_stops_def)
    qed
  qed
  then show ?thesis using ok by (auto simp: link_ok_def)
qed

lemma init_returns:
  assumes "\<And>h f. e_lib e h f \<noteq> 0" "\<And>h. e_sem_create e h" "\<And>h. e_thread_create e h"
  shows "\<exists>s. at_simplified_init e init_simple = Some s \<and> \<not> is_gateway_mode s \<and> init_flag s \<and> sl_rate_mode s = 4 \<and> sl_rate_mode_map s = RATE_MODE_MAP"
proof -
  have b: "at_get_base_freq_and_spectrum_idx DEFAULE_FREQ = (470000000, Some (3, 502000000))"
  proof -
    have n: "FREQ_SPECTRUM_COUNT = Suc (Suc (Suc (Suc (Suc (Suc (Suc (Suc 0)))))))" by (simp add: FREQ_SPECTRUM_COUNT_def)
    show ?thesis unfolding at_get_base_freq_and_spectrum_idx_def n by (simp add: FREQ_RANGES_def DEFAULE_FREQ_def DEFAULE_BW_HZ_def)
  qed
  show ?thesis
    using assms
    by (simp add: at_simplified_init_def b at_wiota_run_def at_wiota_task_init_def rate_mode_of_def wiota_send_connect_msg_def wiota_send_msg_def
        at_state_pin_init_def STATE_PINS_def lib_ok_def lib_def register_recv_def emit_def init_simple_def rd_def RATE_MODE_MAP_def RATE_MODE_OFFSET_def
        DEFAULE_RATE_MODE_def FREQ_RANGES_def Let_def WIOTA_MQ_MSG_QUEUE_SIZE_def)
qed

theorem simple_always_retries_witness:
  "\<exists>s l' s'. connnect_state s = SYNC_LOST \<and> link_step (good_env\<lparr>e_freq_list := \<lambda>h. [160, 255]\<rparr>) L_wait s = Some (l', s')"
proof -
  let ?e = "good_env\<lparr>e_freq_list := \<lambda>h. [160, 255]\<rparr>"
  have e: "\<And>h f. e_lib ?e h f \<noteq> 0" "\<And>h. e_sem_create ?e h" "\<And>h. e_thread_create ?e h"
    by (simp_all add: good_env_def)
  have f: "\<not> link_stops ?e L_wait s" for s
    by (simp add: link_stops_def connect_stops_def frequencies_heard)
  obtain s where s: "at_simplified_init ?e init_simple = Some s" "\<not> is_gateway_mode s" "init_flag s" using init_returns[OF e(1-3)] by blast
  let ?d = "\<lparr>rb_type = 7, rb_data_len = 0, rb_data = None\<rparr>"
  obtain s' where s': "simple_recv_callback ?e ?d s = Some s'" "connnect_state s' = SYNC_LOST" "\<not> is_gateway_mode s'"
    using s(2,3) by (cases "length (wiota_mq s) < WIOTA_MQ_MSG_QUEUE_SIZE")
      (simp_all add: simple_recv_callback_def UC_RECV_OTA_def UC_RECV_SYNC_LOST_def wiota_send_connect_msg_def wiota_send_msg_def
        at_printf_connect_state_def at_say_def register_recv_def lib_def emit_def Let_def split: prod.splits)
  have "simple_reach ?e L_wait False s'" using simple_reach.receive[OF simple_reach.start[OF s(1)] s'(1)] .
  from simple_always_retries[OF this] s'(2,3) f have "link_step ?e L_wait s' \<noteq> None" by auto
  then show ?thesis using s'(2) by auto
qed

section \<open>A request for a scan that is left over\<close>

text \<open>Some messages in a row.\<close>

fun link_rounds :: "env \<Rightarrow> nat \<Rightarrow> simple \<Rightarrow> simple option" where
  "link_rounds e 0 s = Some s"
| "link_rounds e (Suc k) s = do { (l, s) \<leftarrow> link_step e L_wait s; guard (l = L_wait); link_rounds e k s }"

text \<open>
  All calls of one round, the last first: the failure is reported, and the two callbacks for received data are
  taken back.
\<close>

definition blocked_calls :: "call list" where
  "blocked_calls =
     [C_lib (Lib ''uc_wiota_register_recv_data_callback'' [0, 1]), C_lib (Lib ''uc_wiota_register_recv_data_callback'' [0, 0]),
      C_at (At_println ''+CONST:SYNC_FAIL'' [])]"

lemma blocked_round:
  assumes "is_scan_req s" "\<not> is_gateway_mode s" "init_flag s" "wiota_mq s = replicate (Suc m) WIOTA_CMD_CONNECT" "m < 10"
  shows "link_step e L_wait s = Some (L_wait, s\<lparr>connnect_state := SYNC_FAIL, hist := blocked_calls @ hist s\<rparr>)"
proof -
  have "replicate m WIOTA_CMD_CONNECT @ [WIOTA_CMD_CONNECT] = WIOTA_CMD_CONNECT # replicate m WIOTA_CMD_CONNECT" by (simp add: replicate_append_same)
  then show ?thesis
    using assms
    by (simp add: link_step_def connect_begin_def link_connecting_def connect_end_def wiota_send_connect_msg_def wiota_send_msg_def
        at_printf_connect_state_def at_say_def register_recv_def lib_def emit_def Let_def WIOTA_MQ_MSG_QUEUE_SIZE_def blocked_calls_def)
qed

definition blocked :: "nat \<Rightarrow> simple \<Rightarrow> simple" where
  "blocked k s = s\<lparr>hist := concat (replicate k blocked_calls) @ hist s,
     connnect_state := (if k = 0 then connnect_state s else SYNC_FAIL)\<rparr>"

lemma blocked_rounds:
  "is_scan_req s \<Longrightarrow> \<not> is_gateway_mode s \<Longrightarrow> init_flag s \<Longrightarrow> wiota_mq s = replicate (Suc m) WIOTA_CMD_CONNECT \<Longrightarrow> m < 10 \<Longrightarrow>
     link_rounds e k s = Some (blocked k s)"
proof (induction k arbitrary: s)
  case (Suc k)
  let ?t = "s\<lparr>connnect_state := SYNC_FAIL, hist := blocked_calls @ hist s\<rparr>"
  have t: "is_scan_req ?t" "\<not> is_gateway_mode ?t" "init_flag ?t" "wiota_mq ?t = replicate (Suc m) WIOTA_CMD_CONNECT"
    using Suc.prems by simp_all
  have "concat (replicate k blocked_calls) @ blocked_calls @ h = blocked_calls @ concat (replicate k blocked_calls) @ h" for h
    by (induction k) simp_all
  note swap = this
  have "blocked k ?t = blocked (Suc k) s" by (simp add: blocked_def swap)
  then show ?case using blocked_round[OF Suc.prems, of e] Suc.IH[OF t Suc.prems(5)] by simp
qed (simp add: blocked_def)

text \<open>C28. A scan without memory stops the device from connecting. Outside of the gateway mode, with nothing but
  messages to connect in the queue, let the request for a scan fail to be allocated. The command waits for a
  result that nobody produces: however many messages the task answers meanwhile, the semaphore is not released,
  so that the wait can only end with the time-out (unless an earlier scan had left the semaphore released), and the
  command fails. Its request is left behind, before and after that end: the task answers the messages to connect
  for ever, each without one attempt to connect. All it does for a message is to report that the connection
  failed and to take back the two callbacks for received data.
\<close>

theorem scan_without_memory_blocks:
  assumes "\<not> e_malloc e (hist s) 28" "run_scan e c s = Some s1" "\<not> is_gateway_mode s" "init_flag s"
    "wiota_mq s = replicate (Suc m) WIOTA_CMD_CONNECT" "m < 10"
  shows "\<exists>w s2. link_rounds e k s1 = Some s2 \<and> is_scan_req s2 \<and> scan_sem s2 = scan_sem s \<and>
    (0 < k \<longrightarrow> connnect_state s2 = SYNC_FAIL) \<and>
    hist s2 = concat (replicate k blocked_calls) @ [C_ipc (I_sem_take w), C_malloc_fail 28] @ hist s \<and>
    (\<forall>timed_out r s3. (timed_out \<or> 0 < scan_sem s2) \<and> at_wiota_scan_end timed_out s2 = (r, s3) \<longrightarrow>
       (scan_sem s = 0 \<longrightarrow> timed_out) \<and> (timed_out \<longrightarrow> r = AT_RESULT_FAILE) \<and>
       (\<forall>j. \<exists>s4. link_rounds e j s3 = Some s4 \<and> is_scan_req s4 \<and> (0 < j \<longrightarrow> connnect_state s4 = SYNC_FAIL) \<and>
          hist s4 = concat (replicate j blocked_calls) @ hist s2))"
proof -
  have b: "\<exists>w. t = emit (C_ipc (I_sem_take w)) (emit (C_malloc_fail 28) (s\<lparr>is_scan_req := True\<rparr>))"
    if "at_wiota_scan_begin e fs n i b s = Some t" for fs n i b t
    using that assms(1) by (auto simp: at_wiota_scan_begin_def wiota_send_scan_freq_msg_def rt_malloc_def sizeof_scan_msg_def Let_def)
  have "\<exists>w. s1 = emit (C_ipc (I_sem_take w)) (emit (C_malloc_fail 28) (s\<lparr>is_scan_req := True\<rparr>))"
  proof (cases c)
    case (Scan_line a)
    then obtain q :: freq_request where "at_wiota_scan_begin e (Some (rq_list q)) (rq_num q) (rq_spectrum q) (rq_base q) s = Some s1"
      using assms(2) by (cases "at_get_freq_list a"; cases "the (at_get_freq_list a)") (auto simp: at_wiota_rssi_setup_def split: option.splits)
    then show ?thesis using b by blast
  qed (use assms(2) b in \<open>auto simp: at_wiota_rssi_query_def at_wiota_rssi_exec_def\<close>)
  then obtain w where w: "s1 = emit (C_ipc (I_sem_take w)) (emit (C_malloc_fail 28) (s\<lparr>is_scan_req := True\<rparr>))" by blast
  have r: "is_scan_req s1" "\<not> is_gateway_mode s1" "init_flag s1" "wiota_mq s1 = replicate (Suc m) WIOTA_CMD_CONNECT"
      "hist s1 = [C_ipc (I_sem_take w), C_malloc_fail 28] @ hist s" "scan_sem s1 = scan_sem s"
    using assms(3-5) unfolding w by (simp_all add: emit_def)
  define s2 where "s2 = blocked k s1"
  have s2: "is_scan_req s2" "\<not> is_gateway_mode s2" "init_flag s2" "wiota_mq s2 = replicate (Suc m) WIOTA_CMD_CONNECT"
    using r(1-4) by (simp_all add: s2_def blocked_def)
  have rounds: "link_rounds e j t = Some (blocked j t)" if "t = s2 \<or> t = s2\<lparr>scan_sem := n\<rparr>" for j t n
    by (rule blocked_rounds[OF _ _ _ _ assms(6)]) (use that s2 in auto)
  have after: "\<exists>s4. link_rounds e j s3 = Some s4 \<and> is_scan_req s4 \<and> (0 < j \<longrightarrow> connnect_state s4 = SYNC_FAIL) \<and>
          hist s4 = concat (replicate j blocked_calls) @ hist s2"
    if "at_wiota_scan_end timed_out s2 = (res, s3)" for timed_out res s3 j
  proof -
    have "s3 = s2 \<or> s3 = s2\<lparr>scan_sem := scan_sem s2 - 1\<rparr>"
      using that s2(1) by (auto simp: at_wiota_scan_end_def split: if_splits)
    then show ?thesis using rounds[of s3 "scan_sem s2 - 1" j] s2(1) by (auto simp: blocked_def)
  qed
  show ?thesis
  proof (rule exI[of _ w], rule exI[of _ s2], intro conjI allI impI)
    show "link_rounds e k s1 = Some s2" unfolding s2_def by (rule blocked_rounds[OF r(1-4) assms(6)])
    show "is_scan_req s2" by (rule s2(1))
    show sem: "scan_sem s2 = scan_sem s" using r(6) by (simp add: s2_def blocked_def)
    show "0 < k \<Longrightarrow> connnect_state s2 = SYNC_FAIL" by (simp add: s2_def blocked_def)
    show "hist s2 = concat (replicate k blocked_calls) @ [C_ipc (I_sem_take w), C_malloc_fail 28] @ hist s"
      by (simp add: s2_def blocked_def r(5))
    fix timed_out res s3 j
    assume "(timed_out \<or> 0 < scan_sem s2) \<and> at_wiota_scan_end timed_out s2 = (res, s3)"
    then have x: "timed_out \<or> 0 < scan_sem s2" "at_wiota_scan_end timed_out s2 = (res, s3)" by simp_all
    show "scan_sem s = 0 \<Longrightarrow> timed_out" using x(1) sem by simp
    show "timed_out \<Longrightarrow> res = AT_RESULT_FAILE" using x(2) by (simp add: at_wiota_scan_end_def)
    show "\<exists>s4. link_rounds e j s3 = Some s4 \<and> is_scan_req s4 \<and> (0 < j \<longrightarrow> connnect_state s4 = SYNC_FAIL) \<and>
        hist s4 = concat (replicate j blocked_calls) @ hist s2" by (rule after[OF x(2)])
  qed
qed

theorem scan_without_memory_blocks_witness:
  "\<exists>s1 s2. run_scan (good_env\<lparr>e_malloc := \<lambda>h n. False\<rparr>) Scan_all (init_simple\<lparr>init_flag := True, wiota_mq := [WIOTA_CMD_CONNECT]\<rparr>) = Some s1 \<and>
     link_rounds (good_env\<lparr>e_malloc := \<lambda>h n. False\<rparr>) 100 s1 = Some s2 \<and> connnect_state s2 = SYNC_FAIL \<and>
     fst (at_wiota_scan_end True s2) = AT_RESULT_FAILE"
proof -
  let ?e = "good_env\<lparr>e_malloc := \<lambda>h n. False\<rparr>" and ?s = "init_simple\<lparr>init_flag := True, wiota_mq := [WIOTA_CMD_CONNECT]\<rparr>"
  have p: "\<not> e_malloc ?e (hist ?s) 28" "\<not> is_gateway_mode ?s" "init_flag ?s" "wiota_mq ?s = replicate (Suc 0) WIOTA_CMD_CONNECT"
    by (simp_all add: init_simple_def)
  obtain s1 where s1: "run_scan ?e Scan_all ?s = Some s1"
    by (simp add: at_wiota_rssi_exec_def at_wiota_scan_begin_def wiota_send_scan_freq_msg_def rt_malloc_def Let_def)
  obtain s2 where s2: "link_rounds ?e 100 s1 = Some s2" "connnect_state s2 = SYNC_FAIL"
      "fst (at_wiota_scan_end True s2) = AT_RESULT_FAILE"
    using scan_without_memory_blocks[OF p(1) s1 p(2-4), of 100] by (auto simp: at_wiota_scan_end_def)
  then show ?thesis using s1 by blast
qed

section \<open>Settings that are lost\<close>

lemma rates: "r \<noteq> 0 \<Longrightarrow> r \<le> 8 \<Longrightarrow> sl_rate_mode_map s = RATE_MODE_MAP \<Longrightarrow> rate_mode_of r s = Some (RATE_MODE_MAP ! (unat r - 1)) \<and> unat r - 1 < 8"
  by (auto simp: rate_mode_of_def rd_def RATE_MODE_MAP_def RATE_MODE_OFFSET_def word_le_nat_alt unat_gt_0 Suc_le_eq)

text \<open>
  AT+RATE forgets. With the table of rates, from a valid rate to another with the same length of symbols,
  the command only sets the data rate of the radio: the rate mode that it reports stays the old one, so that the
  command back to the old rate answers OK without any call, and the radio keeps the new rate.
\<close>

lemma rate_change_forgotten:
  assumes "sl_rate_mode_map s = RATE_MODE_MAP" "1 \<le> sl_rate_mode s" "sl_rate_mode s \<le> 8" "1 \<le> rate" "rate \<le> 8" "rate \<noteq> ucast (sl_rate_mode s)"
    "rm_symbol_length (RATE_MODE_MAP ! (unat rate - 1)) = rm_symbol_length (RATE_MODE_MAP ! (unat (sl_rate_mode s) - 1))"
  shows "\<exists>s'. at_wiota_rate_setup e (Some rate) s = Some (AT_RESULT_OK, s') \<and>
    s' = emit (C_wiota (W_set_data_rate 0 (rm_mcs (RATE_MODE_MAP ! (unat rate - 1))))) s \<and>
    at_wiota_rate_query s' = (AT_RESULT_OK, at_say ''+RATE'' [uint (sl_rate_mode s)] s') \<and>
    at_wiota_rate_setup e (Some (ucast (sl_rate_mode s))) s' = Some (AT_RESULT_OK, s')"
proof -
  have dlul: "k < 8 \<Longrightarrow> rm_dlul_ratio (RATE_MODE_MAP ! k) = 1" for k
    using below_eight[of k] by (auto simp: RATE_MODE_MAP_def)
  have u: "unat (ucast rate :: u8) = unat rate" "unat (ucast (sl_rate_mode s) :: u32) = unat (sl_rate_mode s)"
    using assms(3,5) by (simp_all add: unsigned_ucast_eq take_bit_nat_eq_self word_le_nat_alt)
  have z: "(ucast rate :: u8) \<noteq> 0" "(ucast rate :: u8) \<le> 8" "sl_rate_mode s \<noteq> 0"
    using u assms(2,4,5) by (auto simp: word_le_nat_alt simp flip: unat_eq_zero)
  have v: "(ucast (ucast (sl_rate_mode s) :: u32) :: u8) = sl_rate_mode s"
    by (rule bit_word_eqI) (auto simp: bit_simps)
  have w: "(ucast (sl_rate_mode s) :: u32) \<le> 8" "(ucast (sl_rate_mode s) :: u32) \<ge> 1" using u(2) assms(2,3) by (simp_all add: word_le_nat_alt)
  note r = rates[OF z(1,2) assms(1)] rates[OF z(3) assms(3,1)]
  have "at_wiota_rate_setup e (Some rate) s = Some (AT_RESULT_OK, emit (C_wiota (W_set_data_rate 0 (rm_mcs (RATE_MODE_MAP ! (unat rate - 1))))) s)"
    using r assms(4-7) dlul u by (simp add: at_wiota_rate_setup_def)
  moreover have "at_wiota_rate_setup e (Some (ucast (sl_rate_mode s))) (emit c s) = Some (AT_RESULT_OK, emit c s)" for c
    using w v rates[OF z(3) assms(3), of "emit c s"] assms(1) by (simp add: at_wiota_rate_setup_def emit_def)
  ultimately show ?thesis by (simp add: at_wiota_rate_query_def emit_def)
qed

lemma rate_change_forgotten_witness:
  "\<exists>s s'. sl_rate_mode s = 4 \<and> s' = emit (C_wiota (W_set_data_rate 0 3)) s \<and> at_wiota_rate_setup good_env (Some 3) s = Some (AT_RESULT_OK, s') \<and>
     at_wiota_rate_setup good_env (Some 4) s' = Some (AT_RESULT_OK, s')"
proof -
  let ?s = "init_simple\<lparr>sl_rate_mode := 4, sl_rate_mode_map := RATE_MODE_MAP\<rparr>"
  have m: "rm_mcs (RATE_MODE_MAP ! 2) = 3" "rm_symbol_length (RATE_MODE_MAP ! 2) = rm_symbol_length (RATE_MODE_MAP ! 3)"
    by (simp_all add: RATE_MODE_MAP_def)
  then show ?thesis
    using rate_change_forgotten[of ?s 3 good_env] by (intro exI[of _ ?s] exI[of _ "emit (C_wiota (W_set_data_rate 0 3)) ?s"]) simp
qed

lemma task_init_grows: "at_wiota_task_init e s = Some s' \<Longrightarrow> suffix (hist s) (hist s') \<and> is_gateway_mode s' = is_gateway_mode s"
  by (auto simp: at_wiota_task_init_def lib_ok_def lib_def emit_def Let_def suffix_def split: if_splits)

lemma send_connect_grows: "wiota_send_connect_msg e s = Some s' \<Longrightarrow> \<not> is_gateway_mode s \<Longrightarrow> suffix (hist s) (hist s')"
  by (auto simp: wiota_send_connect_msg_def wiota_send_msg_def register_recv_def lib_def emit_def Let_def suffix_def split: if_splits)

lemma run_grows:
  assumes "at_wiota_run e s = Some s'" "\<not> is_gateway_mode s"
  shows "\<exists>new rm config. hist s' = new @ [C_wiota (W_set_system_config (run_config rm s config)), C_wiota W_init, C_wiota W_exit] @ hist s \<and>
    rate_mode_of (sl_rate_mode s) s = Some rm"
proof -
  let ?t = "C_wiota W_init # C_wiota W_exit # hist s"
  obtain rm where rm: "rate_mode_of (sl_rate_mode s) s = Some rm"
    using assms(1) by (auto simp: at_wiota_run_def rate_mode_of_def emit_def Let_def)
  let ?c = "run_config rm s (e_system_config e ?t)"
  have c: "run_config rm (emit a (emit b s)) x = run_config rm s x" for a b x by (simp add: run_config_def emit_def)
  obtain s1 s2 where s1: "suffix (C_wiota (W_set_system_config ?c) # ?t) (hist s1)" "is_gateway_mode s1 = is_gateway_mode s"
      "at_wiota_task_init e s1 = Some s2" "(if connnect_state s2 = SYNC_SUC then wiota_send_connect_msg e s2 else Some s2) = Some s'"
  proof -
    let ?s1 = "emit (C_setup (S_set_crc 1)) (emit (C_wiota (W_set_data_rate 0 (rm_mcs rm))) (emit (C_wiota (W_set_cur_power (sl_power s)))
        (emit (C_wiota W_run) (emit (C_wiota (W_set_userid (sl_addr s) USERID_LENGTH))
          (emit (C_wiota (W_set_system_config ?c)) (emit (C_wiota W_init) (emit (C_wiota W_exit) s)))))))"
    have f: "rate_mode_of (sl_rate_mode (emit a (emit b s))) (emit a (emit b s)) = Some rm" "sl_addr (emit d s) = sl_addr s" "sl_power (emit d s) = sl_power s"
      "sl_rate_mode (emit d s) = sl_rate_mode s" for a b d
      using rm by (simp_all add: rate_mode_of_def emit_def)
    have "\<exists>s2. at_wiota_task_init e ?s1 = Some s2 \<and> (if connnect_state s2 = SYNC_SUC then wiota_send_connect_msg e s2 else Some s2) = Some s'"
      using assms(1) rm by (auto simp: at_wiota_run_def rate_mode_of_def emit_def Let_def run_config_def)
    moreover have "suffix (C_wiota (W_set_system_config ?c) # ?t) (hist ?s1)" by (simp add: suffix_def)
    moreover have "is_gateway_mode ?s1 = is_gateway_mode s" by (simp add: emit_def)
    ultimately show thesis using that[of ?s1] by blast
  qed
  have "suffix (hist s1) (hist s2)" "\<not> is_gateway_mode s2" using task_init_grows[OF s1(3)] s1(2) assms(2) by simp_all
  moreover have "suffix (hist s2) (hist s')" using s1(4) send_connect_grows[of e s2 s'] \<open>\<not> is_gateway_mode s2\<close> by (auto split: if_splits)
  ultimately have "suffix (C_wiota (W_set_system_config ?c) # ?t) (hist s')" using s1(1) by (meson suffix_order.trans)
  then show ?thesis using rm by (auto simp: suffix_def)
qed

text \<open>C29. A frequency in another band. When the host sets frequencies of a band that is not the current one, the list is
  handed to the radio library, but then the radio is restarted with the index of the old frequency relative to the
  base of the new band: the configuration has that index and a list of frequencies with it alone, whatever the new
  frequencies are.
\<close>

theorem band_change_keeps_old_frequency:
  assumes "fs \<noteq> []" "length fs \<le> 16" "\<And>f. f \<in> set fs \<Longrightarrow> f < 2 ^ 32 - 1"
    and band: "\<And>f. f \<in> set fs \<Longrightarrow> band_of f = Some b" "of_nat b \<noteq> sl_spectrum_idx s" "\<not> is_gateway_mode s"
    and run: "simple_freq_setup e (commas (map (digits 10) fs) @ [13, 10, 0]) s = Some (r, s')"
  shows "\<exists>new c. hist s' = new @ [C_wiota (W_set_system_config c), C_wiota W_init, C_wiota W_exit,
        C_lib (Lib ''uc_wiota_set_freq_list'' (map (uint \<circ> raster_index b) fs))] @ hist s \<and>
    cfg_spectrum_idx c = of_nat b \<and> cfg_freq_idx c = ucast ((sl_cur_freq s - of_nat (band_lo b)) div 200000) \<and>
    (2 \<le> length (cfg_freq_list c) \<longrightarrow> take 2 (cfg_freq_list c) = [cfg_freq_idx c, 255])"
proof -
  have "band_of (hd fs) = Some b" using assms(1) band(1) by simp
  then have q: "at_get_freq_list (commas (map (digits 10) fs) @ [13, 10, 0]) =
      Some (Inr \<lparr>rq_list = map (raster_index b) fs @ (if length fs < 16 then 255 # replicate (15 - length fs) 0 else []),
                 rq_num = length fs, rq_spectrum = of_nat b, rq_base = of_nat (band_lo b)\<rparr>)"
    using typed_frequencies[OF assms(1-3), THEN conjunct1] band(1) by simp
  let ?u = "lib ''uc_wiota_set_freq_list'' (map (uint \<circ> raster_index b) fs) (s\<lparr>sl_base_freq := of_nat (band_lo b)\<rparr>)"
  let ?v = "?u\<lparr>sl_spectrum_idx := of_nat b\<rparr>"
  have "at_wiota_run e ?v = Some s'" using run band(2) by (simp add: simple_freq_setup_def q lib_def emit_def)
  moreover have "\<not> is_gateway_mode ?v" using band(3) by (simp add: lib_def emit_def)
  ultimately obtain new rm config where
      "hist s' = new @ [C_wiota (W_set_system_config (run_config rm ?v config)), C_wiota W_init, C_wiota W_exit] @ hist ?v"
    using run_grows by blast
  moreover have "hist ?v = C_lib (Lib ''uc_wiota_set_freq_list'' (map (uint \<circ> raster_index b) fs)) # hist s" by (simp add: lib_def emit_def)
  moreover have "cfg_spectrum_idx (run_config rm ?v config) = of_nat b"
      "cfg_freq_idx (run_config rm ?v config) = ucast ((sl_cur_freq s - of_nat (band_lo b)) div 200000)"
    by (simp_all add: run_config_def lib_def emit_def FREQ_TO_INDEX_def DEFAULE_BW_HZ_def Let_def)
  moreover have "take 2 (cfg_freq_list (run_config rm ?v config)) = [cfg_freq_idx (run_config rm ?v config), 255]"
    if "2 \<le> length (cfg_freq_list (run_config rm ?v config))"
    using that by (cases "cfg_freq_list config"; cases "tl (cfg_freq_list config)") (simp_all add: run_config_def INVALID_FREQ_def Let_def)
  ultimately show ?thesis by (intro exI[of _ new] exI[of _ "run_config rm ?v config"]) simp
qed

theorem band_change_keeps_old_frequency_witness:
  "\<exists>s r s' new c. sl_cur_freq s = 502000000 \<and> simple_freq_setup good_env (commas [digits 10 779000000] @ [13, 10, 0]) s = Some (r, s') \<and>
     hist s' = new @ [C_wiota (W_set_system_config c), C_wiota W_init, C_wiota W_exit, C_lib (Lib ''uc_wiota_set_freq_list'' [0])] \<and>
     cfg_freq_idx c = 121"
proof -
  let ?s = "init_simple\<lparr>init_flag := True, sl_spectrum_idx := 3, sl_cur_freq := 502000000, sl_rate_mode := 4, sl_rate_mode_map := RATE_MODE_MAP\<rparr>"
  have b: "band_of 779000000 = Some 4" "band_lo 4 = 779000000" "raster_index 4 779000000 = 0"
    using bands by (simp_all add: band_of_def FREQ_SPECTRUM_COUNT_def band_list raster_index_def)
  have f: "\<And>f. f \<in> set [779000000] \<Longrightarrow> f < 2 ^ 32 - (1 :: nat)" by auto
  note q = typed_frequencies[of "[779000000]", OF _ _ f, THEN conjunct1, simplified, simplified b, simplified]
  have "\<exists>s'. simple_freq_setup good_env (digits 10 779000000 @ [13, 10, 0]) ?s = Some (AT_RESULT_OK, s')"
    by (simp add: simple_freq_setup_def q b at_wiota_run_def at_wiota_task_init_def rate_mode_of_def wiota_send_connect_msg_def wiota_send_msg_def
        lib_def register_recv_def emit_def init_simple_def rd_def RATE_MODE_MAP_def RATE_MODE_OFFSET_def Let_def WIOTA_MQ_MSG_QUEUE_SIZE_def)
  then obtain s' where s': "simple_freq_setup good_env (commas (map (digits 10) [779000000]) @ [13, 10, 0]) ?s = Some (AT_RESULT_OK, s')" by auto
  have p: "of_nat 4 \<noteq> sl_spectrum_idx ?s" "\<not> is_gateway_mode ?s" "hist ?s = []" "sl_cur_freq ?s = 502000000" by (simp_all add: init_simple_def)
  show ?thesis
    using band_change_keeps_old_frequency[OF _ _ f _ p(1,2) s'] b s' p(3,4) by (intro exI[of _ ?s]) auto
qed

text \<open>The largest identity for waking is looked up with the wrong rate; for the last rate there is none.\<close>

lemma last_rate_cannot_wake:
  assumes "sl_rate_mode s = 8" "sl_rate_mode_map s = RATE_MODE_MAP" "100 \<le> time" "time \<le> 44000"
  shows "simple_sleep_setup e (Some (2, time)) s = None" "simple_wakeup_setup e (Some (addr, time)) s = None"
  using assms by (simp_all add: simple_sleep_setup_def simple_wakeup_setup_def at_get_max_awaken_id_def rd_def RATE_MODE_MAP_def
      lib_def at_say_def emit_def Let_def not_less)

text \<open>A packet of another type than the first three, or one without a header, is not freed.\<close>

lemma other_packets_kept:
  assumes "rb_type d > UC_RECV_OTA \<and> rb_type d \<noteq> UC_RECV_SYNC_LOST \<or> rb_type d \<le> UC_RECV_OTA \<and> rb_data_len d < 1"
  shows "simple_recv_callback e d s = Some s"
  using assms by (auto simp: simple_recv_callback_def split: option.splits)

end
