(* ===== verification/Spec2Isabelle.thy ===== *)
theory Spec2Isabelle
  imports Prelude Platform Fastlz FastlzSafety FastlzDecode FastlzRoundtrip Coding Rfc1321 Md5 Mqueue OtaFlash
    HeapSafety GatewayState GatewaySend GatewayOta GatewayTask GatewayInv GatewaySystem
    GatewayLife GatewayUpdate GatewayMessages Rtlist AutoManager ManagerList ManagerTask
    QuickConnect QuickConnectInv GpioReport Cbor CborWrite CborTree CborEncode CborDecode CborRoundtrip
    GatewayAt GatewayHost AtInput AtScan ScanLine AtTrans TransLines AtRadio AtSettings
    SimpleFreq FreqLine SimpleLink SimpleData SimplePackets SimpleSystem
begin

text \<open>
  A verification library of the application code of the WIoTa device SDK for the UC8288: the packet
  codec, the compressor, the MD5 digest, the OTA image in flash, the message queue of the RTOS, the
  gateway client on top of them, the ways to connect to a gateway, and the AT commands by which a host
  controls all of it.

  \<^bold>\<open>The program.\<close> A device talks to a gateway over the WIoTa radio. The application calls the gateway
  client (\<^verbatim>\<open>PS/app/src/uc_wiota_gateway_api.c\<close>), which authenticates, sends and receives
  coded packets (\<^verbatim>\<open>applications/codec/coding/uc_coding.c\<close>, compressed with
  \<^verbatim>\<open>applications/codec/fastlz/fastlz.c\<close>), reports its state, and receives firmware updates: the
  blocks of an image go to flash (\<^verbatim>\<open>uc_ota_flash.c\<close>), are recorded in a bit map, requested again
  when they are missing, and the complete image is verified with its MD5 digest
  (\<^verbatim>\<open>tiny_md5.c\<close>) before the device reboots into it. The radio thread hands downlinks to a
  message queue (\<^verbatim>\<open>rt-thread/src/ipc.c\<close>), which a task of the client serves; a timer asks for
  missing blocks; the application starts and ends the client and calls its functions.

  \<^bold>\<open>Theories.\<close>
  \<^item> \<open>Prelude\<close>: bytes and little endian words, memory accesses that fail outside the memory, kernel
    string functions (\<^verbatim>\<open>kservice.c\<close>), shared rules for the option monad.
  \<^item> \<open>Platform\<close>: the protocol library (binaries in \<^verbatim>\<open>PS/lib\<close>), the heap, time and hardware as a
    parameter \<open>env\<close> of answer functions over the history of calls; the history is the only state
    of the platform.
  \<^item> \<open>Fastlz\<close>: both levels of the compressor and the decompressor, as the macros of the source
    expand. \<open>FastlzSafety\<close>: reads stay inside the input, bounds of the output. \<open>FastlzDecode\<close>: the
    abstract stream of literals and matches and its meaning. \<open>FastlzRoundtrip\<close>: the compressor
    refines it, so decompression restores the input.
  \<^item> \<open>Coding\<close>: the packet header, \<^verbatim>\<open>app_data_coding\<close> and \<^verbatim>\<open>app_data_decoding\<close>. The locale
    \<open>lz_codec\<close> states what they need of a compressor; \<open>Fastlz\<close> provides it. The one way to write
    outside a block, compressed data of 512 bytes or more, is \<open>packet_overrun\<close>.
  \<^item> \<open>Rfc1321\<close>: the MD5 digest, written down from the text of the RFC without any definition of the
    code, its table checked against the sine. \<open>Md5\<close>: \<^verbatim>\<open>tiny_md5.c\<close> against that specification
    and RFC 2104.
  \<^item> \<open>Mqueue\<close>: \<^verbatim>\<open>rt_mq_init\<close>, \<^verbatim>\<open>rt_mq_send_wait\<close>, \<^verbatim>\<open>rt_mq_recv\<close> with their linked lists of
    slots; the locale \<open>fifo\<close> is the interface of a bounded queue.
  \<^item> \<open>OtaFlash\<close>: \<^verbatim>\<open>uc_ota_flash.c\<close> over a flash driver with the contract \<open>flash_contract\<close>.
  \<^item> \<open>HeapSafety\<close>: ownership of heap blocks as a multiset, with a rule for each allocation and free.
  \<^item> \<open>GatewayState\<close>, \<open>GatewaySend\<close>, \<open>GatewayOta\<close>, \<open>GatewayTask\<close>: the gateway client, in the order
    of the file: static state and accessors, queue and receive callback; uplink; firmware update;
    dispatch, authentication, start, end and the task. \<open>GatewayInv\<close>: the invariant of its memory
    and one preservation lemma for each operation. \<open>GatewaySystem\<close>: the transition system of the
    task, the radio thread, the timer and the application; only a start that fails to create its timer
    or task (\<open>start_fails\<close>) breaks the invariant.
  \<^item> \<open>GatewayLife\<close>: start, reception and end over the transition system. \<open>GatewayUpdate\<close>: an update
    from the decision to the verified image. \<open>GatewayMessages\<close>: user data from one client to another,
    packets of other gateways, the third authentication, time slots.
  \<^item> \<open>Rtlist\<close>: the doubly linked lists of \<^verbatim>\<open>rtservice.h\<close> over the heap and the list that the links
    form.
  \<^item> \<open>AutoManager\<close>: the connection manager (\<^verbatim>\<open>PS/at/at_wiota_auto_manager.c\<close>), which scans for
    gateways before the client starts and watches the connection. \<open>ManagerList\<close>: its linked list
    refines a list ordered by strength. \<open>ManagerTask\<close>: its task as a transition system, the
    invariant, and what becomes of the candidates.
  \<^item> \<open>QuickConnect\<close>: \<^verbatim>\<open>applications/quick_connect/quick_connect.c\<close>, its task and its interface, cut where
    they block. \<open>QuickConnectInv\<close>: the gateway it takes, the sessions of the radio, a stop during a scan.
  \<^item> \<open>GpioReport\<close>: the store mode of the AT server (\<^verbatim>\<open>PS/at/at_wiota_gpio_report.c\<close>), whose ring is a
    queue of five packets.
  \<^item> \<open>Cbor\<close>: the nodes, the decoder and the freeing of the CBOR codec (\<^verbatim>\<open>applications/codec/cbor\<close>);
    \<open>CborWrite\<close>: its encoder, constructors and look-ups. \<open>CborTree\<close>: the trees that the links of the
    nodes form. \<open>CborEncode\<close>: the encoder writes the encoding of the value of a tree. \<open>CborDecode\<close>:
    the decoder returns on any input and keeps the heap in order, by following the path to the node
    under construction. \<open>CborRoundtrip\<close>: decoding an encoding gives the value.
  \<^item> \<open>GatewayAt\<close>: the AT commands of the gateway client (\<^verbatim>\<open>PS/at/at_wiota_gateway_api.c\<close>) over the
    client, the connection manager and the store mode, with the callbacks that they register.
    \<open>GatewayHost\<close>: data that a host types into one device is printed by the other; short keys.
  \<^item> \<open>AtInput\<close>: the characters that a host types, numbers and fields. \<open>AtScan\<close>: the scan command of the
    radio (\<^verbatim>\<open>PS/at/at_wiota.c\<close>) with its conversion of text. \<open>ScanLine\<close>: what it scans for a typed
    line, and how it leaves its buffer. \<open>AtTrans\<close>: the commands that send what the host types and the
    transmission mode. \<open>TransLines\<close>: the mode never leaves its buffer and sends the typed lines.
  \<^item> \<open>AtRadio\<close>: the commands that start, configure and leave the radio and report received data.
    \<open>AtSettings\<close>: the settings and queries of the rest of the file.
  \<^item> \<open>SimpleFreq\<close>, \<open>SimpleLink\<close>, \<open>SimpleData\<close>: the simplified commands, a build of their own
    (\<^verbatim>\<open>PS/at_simplified/at_simplified.c\<close>): typed frequencies and bands; settings, scans and the task
    that connects, cut into steps; packets, sleep and the gateway mode. \<open>FreqLine\<close>: the frequencies
    that a typed line stands for. \<open>SimplePackets\<close>: typed characters arrive at the other devices.
    \<open>SimpleSystem\<close>: the reachable states of commands and task; where a device that is not connected
    goes on connecting, and the two ways in which it stops (\<open>link_stops\<close>).

  \<^bold>\<open>Modelling.\<close> Definitions are functions on an explicit state and compute. Machine integers are
  words of the width of the source; lengths and addresses that the source keeps in 32 bits and that
  cannot pass that bound are natural numbers. \<open>None\<close> is undefined behaviour: a read or write outside
  an object, a null pointer that is dereferenced or called, a division by zero, a failed
  \<^verbatim>\<open>RT_ASSERT\<close>; so a theorem that concludes \<open>Some\<close> is also a proof of memory safety. The reads of freed list nodes in
  the connection manager are the exception: they do not fail but are counted (\<open>stale_reads\<close>). Error codes are
  the integers of the source. Loops are structural or have a termination measure; the loop of the
  authentication, which a clock that stands still keeps alive, and that of the transmission mode, which
  a host that types keeps alive, are partial functions, and their \<open>None\<close> also means that they do not
  return. C structures that are sent are byte lists with the
  layout of \<^verbatim>\<open>uc_coding.h\<close> on the 32 bit little endian target.

  \<^bold>\<open>Abstractions.\<close> A blocking send to a full queue is an immediate time-out, which is what a sender
  observes that nobody wakes. An iteration of the task, a call of the application and a start are
  atomic, except that downlinks arrive while they are blocked on a semaphore or on the empty
  queue. A start needs the previous task to have ended. A fault is the absence of a step.

  \<^bold>\<open>Not modelled.\<close> Console output. Code that is not compiled in: the scrambling of \<^verbatim>\<open>uc_coding.c\<close>,
  floating point in the CBOR codec, the throughput test, the neighbour functions, the data unit and the
  ramp of \<^verbatim>\<open>at_wiota.c\<close>, and \<^verbatim>\<open>uc_gatewaytest\<close>. The parser of the AT server, which is outside of these
  files: a command gets the values that \<^verbatim>\<open>parse\<close> leaves. Of the simplified commands the lines that print
  the syntax of a command and the blinking of \<^verbatim>\<open>at_simplified_running\<close>. The factory and boot commands, which
  are accesses to registers and calls of the commands modelled here. Vendored code (RT-Thread apart from the
  functions above, lwIP, file systems, cJSON), the drivers and the examples.
\<close>

end
